(* ===== verification/Prelude.thy ===== *)
theory Prelude
  imports Main "HOL-Library.Word" "HOL-Library.Multiset"
begin

text \<open>
  What the components share: names for Rust's integer types, the conversions between them
  that the server uses (\<open>i32::from\<close>, \<open>clamp\<close>, \<open>saturating_add\<close>, \<open>wrapping_sub\<close>),
  and generic facts on lists (splitting at an index, removing and inserting one element,
  first occurrence) and on maps.

  Integers. \<open>u8\<close>, \<open>u16\<close>, \<open>u32\<close> and \<open>i16\<close> are words, so that their ranges are part of the
  type; \<open>i16\<close> values are read with \<^const>\<open>sint\<close>, unsigned ones with \<^const>\<open>uint\<close> or
  \<^const>\<open>unat\<close>. \<open>i32\<close> and \<open>i64\<close> intermediates are \<^typ>\<open>int\<close>; where the source does \<open>i32\<close>
  arithmetic whose result is not bounded by its operands' types, the two's complement
  wrap-around of a release build is written out with \<open>i32\<close> below.
\<close>

named_theorems wire_simps \<open>conversions between wire integers and mathematical ones\<close>
named_theorems region_simps \<open>point-set meaning of the region operations\<close>
named_theorems tree_simps \<open>frame and lookup facts of the window tree\<close>

type_synonym u8 = "8 word"
type_synonym u16 = "16 word"
type_synonym i16 = "16 word"
type_synonym u32 = "32 word"

section \<open>Integers\<close>

text \<open>The \<open>i32\<close> value a release build computes for an exact result \<open>v\<close>.\<close>

definition i32 :: "int \<Rightarrow> int" where
  "i32 v = signed_take_bit 31 v"

definition in_i32 :: "int \<Rightarrow> bool" where
  "in_i32 v \<longleftrightarrow> - (2 ^ 31) \<le> v \<and> v < 2 ^ 31"

lemma i32_id [wire_simps]: "in_i32 v \<Longrightarrow> i32 v = v"
  by (simp add: i32_def in_i32_def signed_take_bit_int_eq_self)

lemma in_i32_i32 [simp]: "in_i32 (i32 v)"
  using signed_take_bit_int_greater_eq_minus_exp [of 31 v] signed_take_bit_int_less_exp [of 31 v]
  by (simp add: i32_def in_i32_def)

text \<open>\<open>v.clamp(lo, hi)\<close>.\<close>

definition clamp :: "int \<Rightarrow> int \<Rightarrow> int \<Rightarrow> int" where
  "clamp lo hi v = (if v < lo then lo else if v > hi then hi else v)"

lemma clamp_bounds: "lo \<le> hi \<Longrightarrow> lo \<le> clamp lo hi v \<and> clamp lo hi v \<le> hi"
  by (simp add: clamp_def)

lemma clamp_id [wire_simps]: "lo \<le> v \<Longrightarrow> v \<le> hi \<Longrightarrow> clamp lo hi v = v"
  by (simp add: clamp_def)

abbreviation i16_min :: int where "i16_min \<equiv> - 32768"
abbreviation i16_max :: int where "i16_max \<equiv> 32767"
abbreviation u16_max :: int where "u16_max \<equiv> 65535"

lemma sint_i16_bounds: "i16_min \<le> sint (w :: i16)" "sint (w :: i16) \<le> i16_max"
  using sint_ge [of w] sint_lt [of w] by simp_all

lemma uint_u16_bounds: "0 \<le> uint (w :: u16)" "uint (w :: u16) \<le> u16_max"
  using uint_lt2p [of w] by simp_all

lemma sint_word_of_int_i16 [wire_simps]:
  "i16_min \<le> v \<Longrightarrow> v \<le> i16_max \<Longrightarrow> sint (word_of_int v :: i16) = v"
  by (simp add: sint_sbintrunc' signed_take_bit_int_eq_self)

lemma uint_word_of_int_u16 [wire_simps]:
  "0 \<le> v \<Longrightarrow> v \<le> u16_max \<Longrightarrow> uint (word_of_int v :: u16) = v"
  by (simp add: uint_word_of_int)

text \<open>\<open>u16::saturating_add\<close> and \<open>u16::saturating_mul\<close>.\<close>

definition u16_saturating_add :: "u16 \<Rightarrow> u16 \<Rightarrow> u16" where
  "u16_saturating_add a b = word_of_int (min u16_max (uint a + uint b))"

definition u16_saturating_mul :: "u16 \<Rightarrow> u16 \<Rightarrow> u16" where
  "u16_saturating_mul a b = word_of_int (min u16_max (uint a * uint b))"

lemma uint_u16_saturating_add [wire_simps]:
  "uint (u16_saturating_add a b) = min u16_max (uint a + uint b)"
  unfolding u16_saturating_add_def
  by (rule uint_word_of_int_u16) (use uint_u16_bounds [of a] uint_u16_bounds [of b] in auto)

lemma uint_u16_saturating_mul [wire_simps]:
  "uint (u16_saturating_mul a b) = min u16_max (uint a * uint b)"
  unfolding u16_saturating_mul_def
  by (rule uint_word_of_int_u16) (use uint_u16_bounds [of a] uint_u16_bounds [of b] in auto)

text \<open>Division of \<open>i32\<close> values truncates towards zero, as in C.\<close>

definition trunc_div :: "int \<Rightarrow> int \<Rightarrow> int" where
  "trunc_div a b = sgn a * sgn b * (\<bar>a\<bar> div \<bar>b\<bar>)"

section \<open>Lists\<close>

text \<open>\<open>iter().position(|y| *y == x)\<close>.\<close>

fun position :: "'a \<Rightarrow> 'a list \<Rightarrow> nat option" where
  "position x [] = None"
| "position x (y # ys) = (if y = x then Some 0 else map_option Suc (position x ys))"

lemma position_None_iff [simp]: "position x xs = None \<longleftrightarrow> x \<notin> set xs"
  by (induction xs) auto

lemma position_Some_lt: "position x xs = Some i \<Longrightarrow> i < length xs \<and> xs ! i = x"
  by (induction xs arbitrary: i) (auto split: if_splits)

lemma position_Some_split:
  "position x xs = Some i \<Longrightarrow> xs = take i xs @ x # drop (Suc i) xs \<and> x \<notin> set (take i xs)"
  by (induction xs arbitrary: i) (auto split: if_splits)

text \<open>\<open>Vec::remove\<close> and \<open>Vec::insert\<close> at an index within range.\<close>

definition remove_at :: "nat \<Rightarrow> 'a list \<Rightarrow> 'a list" where
  "remove_at i xs = take i xs @ drop (Suc i) xs"

definition insert_at :: "nat \<Rightarrow> 'a \<Rightarrow> 'a list \<Rightarrow> 'a list" where
  "insert_at i x xs = take i xs @ x # drop i xs"

lemma set_insert_at [simp]: "set (insert_at i x xs) = insert x (set xs)"
  by (metis Un_insert_right append_take_drop_id insert_at_def list.simps(15) set_append)

lemma distinct_insert_at [simp]: "distinct (insert_at i x xs) \<longleftrightarrow> x \<notin> set xs \<and> distinct xs"
proof -
  have "distinct (take i xs @ x # drop i xs) \<longleftrightarrow> distinct (x # (take i xs @ drop i xs))"
    by (simp only: distinct_append distinct.simps set_append set_simps) blast
  then show ?thesis by (simp only: insert_at_def append_take_drop_id distinct.simps)
qed

lemma length_insert_at [simp]: "length (insert_at i x xs) = Suc (length xs)"
  by (simp add: insert_at_def min_def)

lemma position_remove_at:
  assumes "position x xs = Some i" and "distinct xs"
  shows "set (remove_at i xs) = set xs - {x}" and "distinct (remove_at i xs)"
proof -
  have xs: "xs = take i xs @ x # drop (Suc i) xs"
    using position_Some_split [OF assms(1)] by simp
  then have d: "distinct (take i xs @ x # drop (Suc i) xs)" using assms(2) by simp
  then show "distinct (remove_at i xs)" by (simp add: remove_at_def)
  have "set xs = insert x (set (take i xs) \<union> set (drop (Suc i) xs))"
    by (subst xs) auto
  with d show "set (remove_at i xs) = set xs - {x}" by (auto simp: remove_at_def)
qed

lemma mset_remove_insert:
  "position x xs = Some i \<Longrightarrow> j \<le> length xs - 1 \<Longrightarrow>
    mset (insert_at j x (remove_at i xs)) = mset xs"
proof -
  assume p: "position x xs = Some i"
  have "mset xs = mset (take i xs @ x # drop (Suc i) xs)"
    using position_Some_split [OF p] by simp
  moreover have "mset (insert_at j x (remove_at i xs)) = mset (x # remove_at i xs)"
    by (metis append_take_drop_id insert_at_def mset.simps(2) mset_append
        union_mset_add_mset_right)
  ultimately show ?thesis by (simp add: remove_at_def)
qed

text \<open>Folding a set operation over a list.\<close>

lemma successively_conjD:
  "successively (\<lambda>a b. P a b \<and> Q a b) xs \<Longrightarrow> successively P xs \<and> successively Q xs"
  by (induction xs rule: induct_list012) auto

lemma successively_transp_all:
  "transp P \<Longrightarrow> successively P (x # xs) \<Longrightarrow> y \<in> set xs \<Longrightarrow> P x y"
  by (simp add: successively_conv_sorted_wrt)

text \<open>Splitting a list sorted by a key at a threshold.\<close>

lemma set_takeWhile_sorted:
  "sorted_wrt (\<lambda>a b. f a \<le> f b) xs \<Longrightarrow> set (takeWhile (\<lambda>b. f b \<le> y) xs) = {b \<in> set xs. f b \<le> (y :: int)}"
  by (induction xs) auto

lemma set_dropWhile_sorted:
  "sorted_wrt (\<lambda>a b. f a \<le> f b) xs \<Longrightarrow> set (dropWhile (\<lambda>b. f b \<le> y) xs) = {b \<in> set xs. (y :: int) < f b}"
  by (induction xs) auto

lemma sorted_wrt_dropWhile: "sorted_wrt P xs \<Longrightarrow> sorted_wrt P (dropWhile Q xs)"
  by (induction xs) auto

end
