(* ===== verification/Region.thy ===== *)
theory Region
  imports Prelude
begin

text \<open>
  The y-x banded regions of \<open>crates/yserver-core/src/region.rs\<close>: boxes, regions, the set
  operations with their band walk (\<open>op\<close>) and the three overlap functions, the canonical
  form test, and the conversions from and to wire rectangles.

  Loops over an index \<open>i\<close> into a box vector are recursions on the suffix from \<open>i\<close>; a
  function that pushes onto \<open>out\<close> returns the boxes it pushes, except in \<open>coalesce\<close> and
  \<open>op\<close>, which look back into \<open>out\<close> and carry it. Box coordinates are \<open>i32\<close>, modelled by
  \<^typ>\<open>int\<close>; the only operations that compute new coordinates are \<open>from_rect\<close> (whose sum
  of an \<open>i16\<close> and a \<open>u16\<close> cannot leave \<open>i32\<close>), \<open>translate\<close> and \<open>to_rect\<close>, where the
  wrap-around is written out.
\<close>

section \<open>Boxes and wire rectangles\<close>

record region_rect =
  rx :: i16
  ry :: i16
  rwidth :: u16
  rheight :: u16

record box32 =
  bx1 :: int
  by1 :: int
  bx2 :: int
  by2 :: int

definition from_rect :: "region_rect \<Rightarrow> box32" where
  "from_rect r =
     (let x1 = sint (rx r); y1 = sint (ry r)
      in \<lparr>bx1 = x1, by1 = y1, bx2 = x1 + uint (rwidth r), by2 = y1 + uint (rheight r)\<rparr>)"

definition from_wire_rect :: "region_rect \<Rightarrow> box32" where
  "from_wire_rect r =
     (let mx = i16_max; b = from_rect r
      in b\<lparr>bx2 := min (bx2 b) mx, by2 := min (by2 b) mx\<rparr>)"

definition to_rect :: "box32 \<Rightarrow> region_rect" where
  "to_rect b =
     (let wire = (\<lambda>v. word_of_int (clamp i16_min i16_max v));
          len = (\<lambda>v. word_of_int (clamp 0 u16_max v))
      in \<lparr>rx = wire (bx1 b), ry = wire (by1 b),
          rwidth = len (i32 (bx2 b - bx1 b)), rheight = len (i32 (by2 b - by1 b))\<rparr>)"

text \<open>The guard \<open>b.x1 < b.x2 && b.y1 < b.y2\<close>.\<close>

definition has_area :: "box32 \<Rightarrow> bool" where
  "has_area b \<longleftrightarrow> bx1 b < bx2 b \<and> by1 b < by2 b"

datatype region = Region (boxes: "box32 list")

definition region_default :: region where
  "region_default = Region []"

definition is_empty :: "region \<Rightarrow> bool" where
  "is_empty r \<longleftrightarrow> boxes r = []"

section \<open>The overlap functions\<close>

datatype overlap_kind = Union | Intersect | Subtract

text \<open>\<open>merge\<close>, the closure of \<open>union_o\<close>: what it pushes and the open span after it.\<close>

definition union_merge ::
  "int \<Rightarrow> int \<Rightarrow> box32 \<Rightarrow> int \<Rightarrow> int \<Rightarrow> box32 list \<times> int \<times> int" where
  "union_merge y1 y2 r x1 x2 =
     (if bx1 r \<le> x2 then ([], x1, max x2 (bx2 r))
      else ([\<lparr>bx1 = x1, by1 = y1, bx2 = x2, by2 = y2\<rparr>], bx1 r, bx2 r))"

fun union_loop :: "int \<Rightarrow> int \<Rightarrow> box32 list \<Rightarrow> box32 list \<Rightarrow> int \<Rightarrow> int \<Rightarrow> box32 list" where
  "union_loop y1 y2 (a # as) (b # bs) x1 x2 =
     (if bx1 a < bx1 b then
        (case union_merge y1 y2 a x1 x2 of
           (p, x1', x2') \<Rightarrow> p @ union_loop y1 y2 as (b # bs) x1' x2')
      else
        (case union_merge y1 y2 b x1 x2 of
           (p, x1', x2') \<Rightarrow> p @ union_loop y1 y2 (a # as) bs x1' x2'))"
| "union_loop y1 y2 (a # as) [] x1 x2 =
     (case union_merge y1 y2 a x1 x2 of (p, x1', x2') \<Rightarrow> p @ union_loop y1 y2 as [] x1' x2')"
| "union_loop y1 y2 [] (b # bs) x1 x2 =
     (case union_merge y1 y2 b x1 x2 of (p, x1', x2') \<Rightarrow> p @ union_loop y1 y2 [] bs x1' x2')"
| "union_loop y1 y2 [] [] x1 x2 = [\<lparr>bx1 = x1, by1 = y1, bx2 = x2, by2 = y2\<rparr>]"

definition union_o :: "box32 list \<Rightarrow> box32 list \<Rightarrow> int \<Rightarrow> int \<Rightarrow> box32 list" where
  "union_o a b y1 y2 =
     (if bx1 (hd a) < bx1 (hd b)
      then union_loop y1 y2 (tl a) b (bx1 (hd a)) (bx2 (hd a))
      else union_loop y1 y2 a (tl b) (bx1 (hd b)) (bx2 (hd b)))"

function intersect_o :: "box32 list \<Rightarrow> box32 list \<Rightarrow> int \<Rightarrow> int \<Rightarrow> box32 list" where
  "intersect_o (a # as) (b # bs) y1 y2 =
     (let x1 = max (bx1 a) (bx1 b); x2 = min (bx2 a) (bx2 b)
      in (if x1 < x2 then [\<lparr>bx1 = x1, by1 = y1, bx2 = x2, by2 = y2\<rparr>] else [])
         @ intersect_o (if bx2 a = x2 then as else a # as) (if bx2 b = x2 then bs else b # bs) y1 y2)"
| "intersect_o [] b y1 y2 = []"
| "intersect_o (a # as) [] y1 y2 = []"
  by pat_completeness auto
termination
  by (relation "measure (\<lambda>(a, b, y1, y2). length a + length b)") (auto simp: min_def)

declare intersect_o.simps(1) [simp del]

text \<open>
  \<open>x1\<close> is the left end of what is left of the first minuend box; stepping to the next
  one (\<open>i += 1\<close>) reloads it when there is one.
\<close>

definition next_x1 :: "box32 list \<Rightarrow> int \<Rightarrow> int" where
  "next_x1 m x1 = (case m of [] \<Rightarrow> x1 | b # _ \<Rightarrow> bx1 b)"

fun subtract_tail :: "int \<Rightarrow> int \<Rightarrow> box32 list \<Rightarrow> int \<Rightarrow> box32 list" where
  "subtract_tail y1 y2 [] x1 = []"
| "subtract_tail y1 y2 (m # ms) x1 =
     \<lparr>bx1 = x1, by1 = y1, bx2 = bx2 m, by2 = y2\<rparr> # subtract_tail y1 y2 ms (next_x1 ms x1)"

fun subtract_loop :: "int \<Rightarrow> int \<Rightarrow> box32 list \<Rightarrow> box32 list \<Rightarrow> int \<Rightarrow> box32 list" where
  "subtract_loop y1 y2 (m # ms) (s # ss) x1 =
     (if bx2 s \<le> x1 then subtract_loop y1 y2 (m # ms) ss x1
      else if bx1 s \<le> x1 then
        (if bx2 s \<ge> bx2 m then subtract_loop y1 y2 ms (s # ss) (next_x1 ms (bx2 s))
         else subtract_loop y1 y2 (m # ms) ss (bx2 s))
      else if bx1 s < bx2 m then
        \<lparr>bx1 = x1, by1 = y1, bx2 = bx1 s, by2 = y2\<rparr>
        # (if bx2 s \<ge> bx2 m then subtract_loop y1 y2 ms (s # ss) (next_x1 ms (bx2 s))
           else subtract_loop y1 y2 (m # ms) ss (bx2 s))
      else
        (if bx2 m > x1 then [\<lparr>bx1 = x1, by1 = y1, bx2 = bx2 m, by2 = y2\<rparr>] else [])
        @ subtract_loop y1 y2 ms (s # ss) (next_x1 ms x1))"
| "subtract_loop y1 y2 ms [] x1 = subtract_tail y1 y2 ms x1"
| "subtract_loop y1 y2 [] ss x1 = []"

definition subtract_o :: "box32 list \<Rightarrow> box32 list \<Rightarrow> int \<Rightarrow> int \<Rightarrow> box32 list" where
  "subtract_o m s y1 y2 = subtract_loop y1 y2 m s (bx1 (hd m))"

fun overlap :: "overlap_kind \<Rightarrow> box32 list \<Rightarrow> box32 list \<Rightarrow> int \<Rightarrow> int \<Rightarrow> box32 list" where
  "overlap Union a b y1 y2 = union_o a b y1 y2"
| "overlap Intersect a b y1 y2 = intersect_o a b y1 y2"
| "overlap Subtract a b y1 y2 = subtract_o a b y1 y2"

section \<open>The band walk\<close>

text \<open>The number of boxes of the first band of a suffix.\<close>

definition band_end :: "box32 list \<Rightarrow> nat" where
  "band_end bs = length (takeWhile (\<lambda>b. by1 b = by1 (hd bs)) bs)"

definition band :: "box32 list \<Rightarrow> box32 list" where
  "band bs = take (band_end bs) bs"

definition after_band :: "box32 list \<Rightarrow> box32 list" where
  "after_band bs = drop (band_end bs) bs"

definition coalesce :: "box32 list \<Rightarrow> nat \<Rightarrow> nat \<Rightarrow> box32 list \<times> nat" where
  "coalesce out prev cur =
     (let n = cur - prev
      in if n = 0 \<or> n \<noteq> length out - cur \<or> by2 (out ! prev) \<noteq> by1 (out ! cur) then (out, cur)
         else if \<exists>k \<in> {0..<n}. bx1 (out ! (prev + k)) \<noteq> bx1 (out ! (cur + k))
                             \<or> bx2 (out ! (prev + k)) \<noteq> bx2 (out ! (cur + k)) then (out, cur)
         else (let y2 = by2 (out ! cur)
               in (take prev out @ map (\<lambda>b. b\<lparr>by2 := y2\<rparr>) (take n (drop prev out)), prev)))"

definition append_non :: "box32 list \<Rightarrow> int \<Rightarrow> int \<Rightarrow> box32 list" where
  "append_non bnd y1 y2 = map (\<lambda>b. \<lparr>bx1 = bx1 b, by1 = y1, bx2 = bx2 b, by2 = y2\<rparr>) bnd"

text \<open>The pattern \<open>let cur = out.len(); push...; prev_band = coalesce(&mut out, prev_band, cur)\<close>.\<close>

definition push_band :: "box32 list \<Rightarrow> box32 list \<Rightarrow> nat \<Rightarrow> box32 list \<times> nat" where
  "push_band new out prev = coalesce (out @ new) prev (length out)"

text \<open>
  One round of the loop of \<open>op\<close> up to the advance of the indices: the part of the earlier
  band that lies above the other one, then the part both cover. Returns \<open>out\<close>,
  \<open>prev_band\<close> and the new \<open>ybot\<close>.
\<close>

definition op_above ::
  "bool \<Rightarrow> box32 list \<Rightarrow> int \<Rightarrow> int \<Rightarrow> box32 list \<Rightarrow> nat \<Rightarrow> box32 list \<times> nat" where
  "op_above flag r other1 ybot out prev =
     (if flag then
        (let top = max (by1 (hd r)) ybot; bot = min (by2 (hd r)) other1
         in if top \<noteq> bot then push_band (append_non (band r) top bot) out prev else (out, prev))
      else (out, prev))"

definition op_round ::
  "overlap_kind \<Rightarrow> bool \<Rightarrow> bool \<Rightarrow> box32 list \<Rightarrow> box32 list \<Rightarrow> int \<Rightarrow> box32 list \<Rightarrow> nat
    \<Rightarrow> box32 list \<times> nat \<times> int" where
  "op_round kind append_a append_b ra rb ybot out prev =
     (let a1 = by1 (hd ra); b1 = by1 (hd rb);
          (ytop, out1, prev1) =
            (if a1 < b1 then (b1, op_above append_a ra b1 ybot out prev)
             else if b1 < a1 then (a1, op_above append_b rb a1 ybot out prev)
             else (a1, out, prev));
          ybot' = min (by2 (hd ra)) (by2 (hd rb));
          (out2, prev2) =
            (if ybot' > ytop
             then push_band (overlap kind (band ra) (band rb) ytop ybot') out1 prev1
             else (out1, prev1))
      in (out2, prev2, ybot'))"

function op_loop ::
  "overlap_kind \<Rightarrow> bool \<Rightarrow> bool \<Rightarrow> box32 list \<Rightarrow> box32 list \<Rightarrow> int \<Rightarrow> box32 list \<Rightarrow> nat
    \<Rightarrow> box32 list \<times> box32 list \<times> int \<times> box32 list \<times> nat" where
  "op_loop kind append_a append_b ra rb ybot out prev =
     (if ra \<noteq> [] \<and> rb \<noteq> [] then
        (case op_round kind append_a append_b ra rb ybot out prev of
           (out', prev', ybot') \<Rightarrow>
             op_loop kind append_a append_b
               (if by2 (hd ra) = ybot' then after_band ra else ra)
               (if by2 (hd rb) = ybot' then after_band rb else rb) ybot' out' prev')
      else (ra, rb, ybot, out, prev))"
  by pat_completeness auto
termination
proof (relation "measure (\<lambda>(k, fa, fb, ra, rb, y, out, p). length ra + length rb)", goal_cases)
  case 1
  show ?case by simp
next
  case prems: (2 kind append_a append_b ra rb ybot out prev)
  have less: "length (after_band r) < length r" if "r \<noteq> []" for r
    using that by (cases r) (auto simp: after_band_def band_end_def)
  have le: "length (after_band r) \<le> length r" for r
    by (simp add: after_band_def)
  show ?case
    using prems less le [of ra] le [of rb]
    by (auto simp: op_round_def Let_def min_def add_less_le_mono add_le_less_mono
        split: prod.splits if_splits)
qed

declare op_loop.simps [simp del]

text \<open>The closure \<open>rest\<close>: the first remaining band from \<open>ybot\<close> down, then the others as they are.\<close>

definition op_rest :: "box32 list \<Rightarrow> int \<Rightarrow> box32 list \<Rightarrow> nat \<Rightarrow> box32 list" where
  "op_rest r ybot out prev =
     fst (push_band (append_non (band r) (max (by1 (hd r)) ybot) (by2 (hd r))) out prev)
     @ after_band r"

text \<open>\<open>op\<close> indexes the first box of both regions: its callers check that there is one.\<close>

definition op :: "region \<Rightarrow> region \<Rightarrow> overlap_kind \<Rightarrow> bool \<Rightarrow> bool \<Rightarrow> region" where
  "op a b kind append_a append_b =
     (let ra = boxes a; rb = boxes b
      in case op_loop kind append_a append_b ra rb (min (by1 (hd ra)) (by1 (hd rb))) [] 0 of
           (ra', rb', ybot, out, prev) \<Rightarrow>
             Region (if ra' \<noteq> [] \<and> append_a then op_rest ra' ybot out prev
                     else if rb' \<noteq> [] \<and> append_b then op_rest rb' ybot out prev
                     else out))"

section \<open>The operations of a region\<close>

text \<open>\<open>i32::MAX\<close> and \<open>i32::MIN\<close> are the start values of the fold.\<close>

definition extents :: "region \<Rightarrow> box32 option" where
  "extents r =
     (case boxes r of
        [] \<Rightarrow> None
      | b # bs \<Rightarrow>
          (let (x1, x2) = fold (\<lambda>b (lo, hi). (min lo (bx1 b), max hi (bx2 b))) (b # bs)
                            (2147483647, - 2147483648)
           in Some \<lparr>bx1 = x1, by1 = by1 b, bx2 = x2, by2 = by2 (last (b # bs))\<rparr>))"

definition disjoint :: "box32 \<Rightarrow> box32 \<Rightarrow> bool" where
  "disjoint a b \<longleftrightarrow> bx2 a \<le> bx1 b \<or> bx2 b \<le> bx1 a \<or> by2 a \<le> by1 b \<or> by2 b \<le> by1 a"

definition union :: "region \<Rightarrow> region \<Rightarrow> region" where
  "union a b =
     (if is_empty a then b else if is_empty b then a else op a b Union True True)"

definition intersect :: "region \<Rightarrow> region \<Rightarrow> region" where
  "intersect a b =
     (case (extents a, extents b) of
        (Some ea, Some eb) \<Rightarrow>
          if disjoint ea eb then region_default else op a b Intersect False False
      | _ \<Rightarrow> region_default)"

definition subtract :: "region \<Rightarrow> region \<Rightarrow> region" where
  "subtract a b =
     (case (extents a, extents b) of
        (Some ea, Some eb) \<Rightarrow> if \<not> disjoint ea eb then op a b Subtract True False else a
      | _ \<Rightarrow> a)"

definition rect :: "region_rect \<Rightarrow> region" where
  "rect r = (let b = from_rect r in if has_area b then Region [b] else region_default)"

definition translate :: "region \<Rightarrow> int \<Rightarrow> int \<Rightarrow> region" where
  "translate r dx dy =
     (if dx \<noteq> 0 \<or> dy \<noteq> 0 then
        Region (map (\<lambda>b. \<lparr>bx1 = i32 (bx1 b + dx), by1 = i32 (by1 b + dy),
                          bx2 = i32 (bx2 b + dx), by2 = i32 (by2 b + dy)\<rparr>) (boxes r))
      else r)"

definition translate_clipped :: "region \<Rightarrow> int \<Rightarrow> int \<Rightarrow> region" where
  "translate_clipped r dx dy =
     (let clip = clamp i16_min i16_max
      in Region (List.map_filter (\<lambda>b.
           (let x1 = bx1 b + dx; x2 = bx2 b + dx; y1 = by1 b + dy; y2 = by2 b + dy
            in if x2 \<le> i16_min \<or> y2 \<le> i16_min \<or> x1 \<ge> i16_max \<or> y1 \<ge> i16_max then None
               else Some \<lparr>bx1 = clip x1, by1 = clip y1, bx2 = clip x2, by2 = clip y2\<rparr>))
           (boxes r)))"

definition to_rects :: "region \<Rightarrow> region_rect list" where
  "to_rects r = map to_rect (boxes r)"

definition extents_rect :: "region \<Rightarrow> region_rect" where
  "extents_rect r =
     (case extents r of None \<Rightarrow> \<lparr>rx = 0, ry = 0, rwidth = 0, rheight = 0\<rparr> | Some b \<Rightarrow> to_rect b)"

text \<open>\<open>partition_point\<close> on a list partitioned by its predicate: the length of the prefix.\<close>

definition contains_point :: "region \<Rightarrow> int \<Rightarrow> int \<Rightarrow> bool" where
  "contains_point r x y =
     (let first = length (takeWhile (\<lambda>b. by2 b \<le> y) (boxes r))
      in \<exists>b \<in> set (takeWhile (\<lambda>b. by1 b \<le> y) (drop first (boxes r))). bx1 b \<le> x \<and> x < bx2 b)"

definition inverse :: "region \<Rightarrow> box32 \<Rightarrow> region" where
  "inverse r bounds =
     (if bx1 bounds \<ge> bx2 bounds \<or> by1 bounds \<ge> by2 bounds then region_default
      else subtract (Region [bounds]) r)"

section \<open>Canonical form and normalisation\<close>

text \<open>The inner loop of \<open>is_canonical\<close> over one band; \<open>prev\<close> is the box before, if in the band.\<close>

fun band_check :: "int \<Rightarrow> box32 option \<Rightarrow> box32 list \<Rightarrow> bool" where
  "band_check y2 prev [] = True"
| "band_check y2 prev (b # bs) =
     (if by2 b \<noteq> y2 \<or> bx1 b \<ge> bx2 b \<or> (case prev of None \<Rightarrow> False | Some p \<Rightarrow> bx2 p \<ge> bx1 b)
      then False else band_check y2 (Some b) bs)"

definition same_spans :: "box32 list \<Rightarrow> box32 list \<Rightarrow> bool" where
  "same_spans ps bs \<longleftrightarrow>
     length ps = length bs \<and> (\<forall>(a, b) \<in> set (zip ps bs). bx1 a = bx1 b \<and> bx2 a = bx2 b)"

function is_canonical_from :: "box32 list option \<Rightarrow> box32 list \<Rightarrow> bool" where
  "is_canonical_from prev_band [] = True"
| "is_canonical_from prev_band (b # bs) =
     (let y1 = by1 b; y2 = by2 b; cur = band (b # bs)
      in if y1 \<ge> y2 then False
         else if \<not> band_check y2 None cur then False
         else if (case prev_band of None \<Rightarrow> False
                  | Some p \<Rightarrow> by2 (hd p) > y1 \<or> (by2 (hd p) = y1 \<and> same_spans p cur)) then False
         else is_canonical_from (Some cur) (after_band (b # bs)))"
  by pat_completeness auto
termination
  by (relation "measure (\<lambda>(p, bs). length bs)") (auto simp: after_band_def band_end_def)

definition is_canonical :: "box32 list \<Rightarrow> bool" where
  "is_canonical bs = is_canonical_from None bs"

text \<open>One round of the pairwise union and the loop over rounds.\<close>

fun union_pairs :: "region list \<Rightarrow> region list" where
  "union_pairs (a # b # rs) = union a b # union_pairs rs"
| "union_pairs [a] = [a]"
| "union_pairs [] = []"

lemma length_union_pairs: "length (union_pairs rs) = (length rs + 1) div 2"
  by (induction rs rule: union_pairs.induct) auto

function union_tree :: "region list \<Rightarrow> region" where
  "union_tree level =
     (if length level > 1 then union_tree (union_pairs level)
      else (case level of [] \<Rightarrow> region_default | r # _ \<Rightarrow> r))"
  by pat_completeness auto
termination
  by (relation "measure length") (auto simp: length_union_pairs)

declare union_tree.simps [simp del]

text \<open>
  \<open>sort_unstable_by_key(|b| (b.y1, b.x1))\<close>: a stable sort by \<open>y1\<close> of the list sorted by
  \<open>x1\<close> is one of its results. Which one it is does not matter: the union does not depend
  on the order of the boxes.
\<close>

definition sort_boxes :: "box32 list \<Rightarrow> box32 list" where
  "sort_boxes bs = sort_key by1 (sort_key bx1 bs)"

definition from_boxes :: "box32 list \<Rightarrow> region" where
  "from_boxes bs =
     (if is_canonical bs then Region bs
      else union_tree (map (\<lambda>b. Region [b]) (sort_boxes (filter has_area bs))))"

definition from_rects :: "region_rect list \<Rightarrow> region" where
  "from_rects rs = from_boxes (map from_rect rs)"

definition from_wire_rects :: "region_rect list \<Rightarrow> region" where
  "from_wire_rects rs = from_boxes (map from_wire_rect rs)"

definition from_yx_banded :: "region_rect list \<Rightarrow> region" where
  "from_yx_banded rs = Region (filter has_area (map from_wire_rect rs))"

definition yx_banded :: "region_rect list \<Rightarrow> bool" where
  "yx_banded rs \<longleftrightarrow>
     successively (\<lambda>p n.
       let py = sint (ry p); ny = sint (ry n)
       in if ny = py then rheight n = rheight p \<and> sint (rx n) \<ge> sint (rx p) + uint (rwidth p)
          else ny \<ge> py + uint (rheight p)) rs"

definition verify_rect_order :: "region_rect list \<Rightarrow> u8 \<Rightarrow> bool" where
  "verify_rect_order rs ord_code =
     (if ord_code = 0 then True
      else if ord_code = 1 then successively (\<lambda>p n. sint (ry n) \<ge> sint (ry p)) rs
      else if ord_code = 2 then
        successively (\<lambda>p n. sint (ry n) > sint (ry p)
                            \<or> (ry n = ry p \<and> sint (rx n) \<ge> sint (rx p))) rs
      else if ord_code = 3 then yx_banded rs
      else False)"

end
