(* ===== verification/Region_Spans.thy ===== *)
theory Region_Spans
  imports Region
begin

text \<open>
  One band at a time: the x-coordinates a list of boxes covers, and that the three overlap
  functions compute their union, intersection and difference. Each keeps a band well formed:
  its boxes have width, are sorted and do not overlap (\<open>spans\<close>), and they do not even touch
  (\<open>spans_strict\<close>) when the inputs' boxes do not.
\<close>

definition row :: "box32 list \<Rightarrow> int set" where
  "row bs = {x. \<exists>b \<in> set bs. bx1 b \<le> x \<and> x < bx2 b}"

definition wide :: "box32 list \<Rightarrow> bool" where
  "wide bs \<longleftrightarrow> (\<forall>b \<in> set bs. bx1 b < bx2 b)"

text \<open>Boxes with width, in order, at least \<open>d\<close> apart.\<close>

definition spans_gap :: "int \<Rightarrow> box32 list \<Rightarrow> bool" where
  "spans_gap d bs \<longleftrightarrow> wide bs \<and> sorted_wrt (\<lambda>a b. bx2 a + d \<le> bx1 b) bs"

abbreviation spans :: "box32 list \<Rightarrow> bool" where
  "spans \<equiv> spans_gap 0"

abbreviation spans_strict :: "box32 list \<Rightarrow> bool" where
  "spans_strict \<equiv> spans_gap 1"

text \<open>All boxes of a list have the y range \<open>[y1, y2)\<close>.\<close>

definition level :: "int \<Rightarrow> int \<Rightarrow> box32 list \<Rightarrow> bool" where
  "level y1 y2 bs \<longleftrightarrow> (\<forall>b \<in> set bs. by1 b = y1 \<and> by2 b = y2)"

lemma row_simps [simp]:
  "row [] = {}"
  "row (b # bs) = {x. bx1 b \<le> x \<and> x < bx2 b} \<union> row bs"
  "row (as @ bs) = row as \<union> row bs"
  by (auto simp: row_def)

lemma wide_simps [simp]:
  "wide []" "wide (b # bs) \<longleftrightarrow> bx1 b < bx2 b \<and> wide bs" "wide (as @ bs) \<longleftrightarrow> wide as \<and> wide bs"
  by (auto simp: wide_def)

lemma level_simps [simp]:
  "level y1 y2 []"
  "level y1 y2 (b # bs) \<longleftrightarrow> by1 b = y1 \<and> by2 b = y2 \<and> level y1 y2 bs"
  "level y1 y2 (as @ bs) \<longleftrightarrow> level y1 y2 as \<and> level y1 y2 bs"
  by (auto simp: level_def)

lemma levelD: "level y1 y2 bs \<Longrightarrow> b \<in> set bs \<Longrightarrow> by1 b = y1 \<and> by2 b = y2"
  by (simp add: level_def)

lemma spans_Nil [simp]: "spans_gap d []"
  by (simp add: spans_gap_def)

lemma spans_Cons:
  "spans_gap d (b # bs) \<longleftrightarrow> bx1 b < bx2 b \<and> (\<forall>c \<in> set bs. bx2 b + d \<le> bx1 c) \<and> spans_gap d bs"
  by (auto simp: spans_gap_def)

lemma spans_wide: "spans_gap d bs \<Longrightarrow> wide bs"
  by (simp add: spans_gap_def)

lemma spans_gap_mono: "spans_gap d bs \<Longrightarrow> d' \<le> d \<Longrightarrow> spans_gap d' bs"
  by (induction bs) (fastforce simp: spans_Cons)+

lemma spans_strict_imp_spans: "spans_strict bs \<Longrightarrow> spans bs"
  by (erule spans_gap_mono) simp

lemma row_empty_iff: "wide bs \<Longrightarrow> row bs = {} \<longleftrightarrow> bs = []"
  by (cases bs) (auto simp: set_eq_iff intro: exI [of _ "bx1 (hd bs)"])

lemma row_lower: "\<forall>c \<in> set bs. k \<le> bx1 c \<Longrightarrow> x \<in> row bs \<Longrightarrow> k \<le> x"
  by (auto simp: row_def)

section \<open>Union\<close>

text \<open>
  The loop needs only that both lists are sorted by left edge and start no further left than
  the open span.
\<close>

definition x_sorted :: "int \<Rightarrow> box32 list \<Rightarrow> bool" where
  "x_sorted lo bs \<longleftrightarrow> wide bs \<and> sorted_wrt (\<lambda>a b. bx1 a \<le> bx1 b) bs \<and> (\<forall>b \<in> set bs. lo \<le> bx1 b)"

lemma x_sorted_Nil [simp]: "x_sorted lo []"
  by (simp add: x_sorted_def)

lemma x_sorted_Cons:
  "x_sorted lo (b # bs) \<longleftrightarrow> lo \<le> bx1 b \<and> bx1 b < bx2 b \<and> x_sorted (bx1 b) bs"
  by (auto simp: x_sorted_def)

lemma x_sorted_mono: "x_sorted hi bs \<Longrightarrow> lo \<le> hi \<Longrightarrow> x_sorted lo bs"
  by (auto simp: x_sorted_def)

lemma spans_x_sorted: "spans bs \<Longrightarrow> (\<forall>b \<in> set bs. lo \<le> bx1 b) \<Longrightarrow> x_sorted lo bs"
proof (induction bs arbitrary: lo)
  case (Cons b bs)
  then have "\<forall>c \<in> set bs. bx1 b \<le> bx1 c" by (fastforce simp: spans_Cons)
  with Cons show ?case by (auto simp: spans_Cons x_sorted_Cons)
qed simp

lemma union_merge_step:
  assumes "union_merge y1 y2 r x1 x2 = (p, x1', x2')" and "x1 < x2" and "x_sorted x1 (r # rs)"
  shows "x1' < x2'" and "x1 \<le> x1'" and "x1' \<le> bx1 r"
    and "row p \<union> {x. x1' \<le> x \<and> x < x2'} = {x. x1 \<le> x \<and> x < x2} \<union> {x. bx1 r \<le> x \<and> x < bx2 r}"
    and "p = [] \<or> p = [\<lparr>bx1 = x1, by1 = y1, bx2 = x2, by2 = y2\<rparr>] \<and> x2 < x1'"
  using assms by (auto simp: union_merge_def x_sorted_Cons split: if_splits)

text \<open>What the loop promises from an open span \<open>[lo, hi)\<close> on.\<close>

definition union_post ::
  "int \<Rightarrow> int \<Rightarrow> int \<Rightarrow> int \<Rightarrow> box32 list \<Rightarrow> box32 list \<Rightarrow> box32 list \<Rightarrow> bool" where
  "union_post y1 y2 lo hi as bs out \<longleftrightarrow>
     row out = {x. lo \<le> x \<and> x < hi} \<union> row as \<union> row bs
     \<and> spans_strict out \<and> (\<forall>c \<in> set out. lo \<le> bx1 c) \<and> level y1 y2 out"

lemma union_post_sym: "union_post y1 y2 lo hi as bs out \<Longrightarrow> union_post y1 y2 lo hi bs as out"
  by (auto simp: union_post_def)

lemma union_post_step:
  assumes merge: "union_merge y1 y2 r x1 x2 = (p, x1', x2')" and lt: "x1 < x2"
    and r: "x_sorted x1 (r # rs)" and t: "x_sorted (bx1 r) ts"
    and IH: "x1' < x2' \<Longrightarrow> x_sorted x1' rs \<Longrightarrow> x_sorted x1' ts \<Longrightarrow> union_post y1 y2 x1' x2' rs ts out"
  shows "union_post y1 y2 x1 x2 (r # rs) ts (p @ out)"
proof -
  note m = union_merge_step [OF merge lt r]
  have "x_sorted x1' rs" "x_sorted x1' ts"
    using r t m(3) by (auto simp: x_sorted_Cons intro: x_sorted_mono)
  then have out: "row out = {x. x1' \<le> x \<and> x < x2'} \<union> row rs \<union> row ts" "spans_strict out"
      "\<forall>c \<in> set out. x1' \<le> bx1 c" "level y1 y2 out"
    using IH m(1) by (auto simp: union_post_def)
  have "row (p @ out) = (row p \<union> {x. x1' \<le> x \<and> x < x2'}) \<union> row rs \<union> row ts"
    by (simp add: out(1) Un_assoc)
  then have "row (p @ out) = {x. x1 \<le> x \<and> x < x2} \<union> row (r # rs) \<union> row ts"
    by (simp only: m(4) row_simps Un_assoc)
  moreover have "spans_strict (p @ out)" "\<forall>c \<in> set (p @ out). x1 \<le> bx1 c" "level y1 y2 (p @ out)"
    using m(2,5) out lt by (fastforce simp: spans_Cons)+
  ultimately show ?thesis by (simp add: union_post_def)
qed

lemma union_loop_correct:
  "x1 < x2 \<Longrightarrow> x_sorted x1 as \<Longrightarrow> x_sorted x1 bs \<Longrightarrow>
     union_post y1 y2 x1 x2 as bs (union_loop y1 y2 as bs x1 x2)"
proof (induction y1 y2 as bs x1 x2 rule: union_loop.induct)
  case (1 y1 y2 a as b bs x1 x2)
  show ?case
  proof (cases "bx1 a < bx1 b")
    case True
    obtain p x1' x2' where m: "union_merge y1 y2 a x1 x2 = (p, x1', x2')"
      by (cases "union_merge y1 y2 a x1 x2") auto
    have "x_sorted (bx1 a) (b # bs)" using 1 True by (simp add: x_sorted_Cons)
    from union_post_step [OF m "1.prems"(1,2) this "1.IH"(1) [OF True m [symmetric] refl]]
    show ?thesis using True m by simp
  next
    case False
    obtain p x1' x2' where m: "union_merge y1 y2 b x1 x2 = (p, x1', x2')"
      by (cases "union_merge y1 y2 b x1 x2") auto
    have "x_sorted (bx1 b) (a # as)" using 1 False by (simp add: x_sorted_Cons)
    from union_post_step [OF m "1.prems"(1,3) this
        union_post_sym [OF "1.IH"(2) [OF False m [symmetric] refl]]]
    show ?thesis using False m by - (rule union_post_sym, simp)
  qed
next
  case (2 y1 y2 a as x1 x2)
  obtain p x1' x2' where m: "union_merge y1 y2 a x1 x2 = (p, x1', x2')"
    by (cases "union_merge y1 y2 a x1 x2") auto
  from union_post_step [OF m "2.prems"(1,2) x_sorted_Nil "2.IH" [OF m [symmetric] refl]]
  show ?case using m by simp
next
  case (3 y1 y2 b bs x1 x2)
  obtain p x1' x2' where m: "union_merge y1 y2 b x1 x2 = (p, x1', x2')"
    by (cases "union_merge y1 y2 b x1 x2") auto
  from union_post_step [OF m "3.prems"(1,3) x_sorted_Nil
      union_post_sym [OF "3.IH" [OF m [symmetric] refl]]]
  show ?case using m by - (rule union_post_sym, simp)
next
  case (4 y1 y2 x1 x2)
  then show ?case by (simp add: spans_Cons union_post_def)
qed

lemma union_o_cases:
  assumes "as \<noteq> []" and "bs \<noteq> []" and "spans as" and "spans bs"
  obtains x1 x2 as' bs' where "union_o as bs y1 y2 = union_loop y1 y2 as' bs' x1 x2"
    and "x1 < x2" and "x_sorted x1 as'" and "x_sorted x1 bs'"
    and "row as \<union> row bs = {x. x1 \<le> x \<and> x < x2} \<union> row as' \<union> row bs'"
proof -
  obtain a as0 b bs0 where ab: "as = a # as0" "bs = b # bs0"
    using assms by (metis neq_Nil_conv)
  have xs: "x_sorted (bx1 a) as" "x_sorted (bx1 b) bs"
    using assms ab by (fastforce intro!: spans_x_sorted simp: spans_Cons)+
  show thesis
  proof (cases "bx1 a < bx1 b")
    case True
    show thesis
      by (rule that [of as0 bs "bx1 a" "bx2 a"])
         (use True xs ab in \<open>auto simp: union_o_def x_sorted_Cons intro: x_sorted_mono\<close>)
  next
    case False
    show thesis
      by (rule that [of as bs0 "bx1 b" "bx2 b"])
         (use False xs ab in \<open>auto simp: union_o_def x_sorted_Cons intro: x_sorted_mono\<close>)
  qed
qed

lemma union_o_row:
  "as \<noteq> [] \<Longrightarrow> bs \<noteq> [] \<Longrightarrow> spans as \<Longrightarrow> spans bs \<Longrightarrow> row (union_o as bs y1 y2) = row as \<union> row bs"
  by (erule (3) union_o_cases [where ?y1.0 = y1 and ?y2.0 = y2]) (use union_loop_correct in \<open>fastforce simp: union_post_def\<close>)

lemma union_o_strict:
  "as \<noteq> [] \<Longrightarrow> bs \<noteq> [] \<Longrightarrow> spans as \<Longrightarrow> spans bs \<Longrightarrow>
     spans_strict (union_o as bs y1 y2) \<and> level y1 y2 (union_o as bs y1 y2)"
  by (erule (3) union_o_cases [where ?y1.0 = y1 and ?y2.0 = y2]) (use union_loop_correct in \<open>fastforce simp: union_post_def\<close>)

section \<open>Intersection\<close>

text \<open>The three ways one round advances, by the order of the right edges.\<close>

lemma intersect_o_unfold:
  "bx2 a < bx2 b \<Longrightarrow> intersect_o (a # as) (b # bs) y1 y2 =
     (if max (bx1 a) (bx1 b) < bx2 a
      then [\<lparr>bx1 = max (bx1 a) (bx1 b), by1 = y1, bx2 = bx2 a, by2 = y2\<rparr>] else [])
     @ intersect_o as (b # bs) y1 y2"
  "bx2 b < bx2 a \<Longrightarrow> intersect_o (a # as) (b # bs) y1 y2 =
     (if max (bx1 a) (bx1 b) < bx2 b
      then [\<lparr>bx1 = max (bx1 a) (bx1 b), by1 = y1, bx2 = bx2 b, by2 = y2\<rparr>] else [])
     @ intersect_o (a # as) bs y1 y2"
  "bx2 b = bx2 a \<Longrightarrow> intersect_o (a # as) (b # bs) y1 y2 =
     (if max (bx1 a) (bx1 b) < bx2 a
      then [\<lparr>bx1 = max (bx1 a) (bx1 b), by1 = y1, bx2 = bx2 a, by2 = y2\<rparr>] else [])
     @ intersect_o as bs y1 y2"
  by (simp_all add: intersect_o.simps(1) Let_def min_def)

lemma intersect_o_induct [case_names Nil1 Nil2 LT GT EQ]:
  assumes "\<And>bs. P [] bs" and "\<And>as. P as []"
    and "\<And>a as b bs. bx2 a < bx2 b \<Longrightarrow> P as (b # bs) \<Longrightarrow> P (a # as) (b # bs)"
    and "\<And>a as b bs. bx2 b < bx2 a \<Longrightarrow> P (a # as) bs \<Longrightarrow> P (a # as) (b # bs)"
    and "\<And>a as b bs. bx2 b = bx2 a \<Longrightarrow> P as bs \<Longrightarrow> P (a # as) (b # bs)"
  shows "P as bs"
proof (induction "length as + length bs" arbitrary: as bs rule: less_induct)
  case less
  show ?case
  proof (cases "as = [] \<or> bs = []")
    case True
    then show ?thesis using assms(1,2) by auto
  next
    case False
    then obtain a as' b bs' where ab: "as = a # as'" "bs = b # bs'" by (metis neq_Nil_conv)
    consider "bx2 a < bx2 b" | "bx2 b < bx2 a" | "bx2 b = bx2 a" by linarith
    then show ?thesis using less ab assms(3-5) by cases auto
  qed
qed

lemma intersect_o_row:
  "spans as \<Longrightarrow> spans bs \<Longrightarrow> row (intersect_o as bs y1 y2) = row as \<inter> row bs"
proof (induction as bs rule: intersect_o_induct)
  case (Nil2 as)
  then show ?case by (cases as) auto
next
  case (LT a as b bs)
  then have IH: "row (intersect_o as (b # bs) y1 y2) = row as \<inter> row (b # bs)"
    and lt: "bx1 a < bx2 a" "bx1 b < bx2 b"
    and lo: "\<And>x. x \<in> row as \<Longrightarrow> bx2 a \<le> x" "\<And>x. x \<in> row bs \<Longrightarrow> bx2 b \<le> x"
    using row_lower by (auto simp: spans_Cons)
  show ?case
    by (rule set_eqI, subst intersect_o_unfold(1) [OF LT.hyps])
       (use lo lt LT.hyps in \<open>force simp: IH\<close>)
next
  case (GT a as b bs)
  then have IH: "row (intersect_o (a # as) bs y1 y2) = row (a # as) \<inter> row bs"
    and lt: "bx1 a < bx2 a" "bx1 b < bx2 b"
    and lo: "\<And>x. x \<in> row as \<Longrightarrow> bx2 a \<le> x" "\<And>x. x \<in> row bs \<Longrightarrow> bx2 b \<le> x"
    using row_lower by (auto simp: spans_Cons)
  show ?case
    by (rule set_eqI, subst intersect_o_unfold(2) [OF GT.hyps])
       (use lo lt GT.hyps in \<open>force simp: IH\<close>)
next
  case (EQ a as b bs)
  then have IH: "row (intersect_o as bs y1 y2) = row as \<inter> row bs"
    and lt: "bx1 a < bx2 a" "bx1 b < bx2 b"
    and lo: "\<And>x. x \<in> row as \<Longrightarrow> bx2 a \<le> x" "\<And>x. x \<in> row bs \<Longrightarrow> bx2 b \<le> x"
    using row_lower by (auto simp: spans_Cons)
  show ?case
    by (rule set_eqI, subst intersect_o_unfold(3) [OF EQ.hyps])
       (use lo lt EQ.hyps in \<open>force simp: IH\<close>)
qed simp

text \<open>Every box of the intersection starts where a box of one side starts, so the gaps persist.\<close>

lemma intersect_o_lower:
  "(\<forall>c \<in> set as. lo \<le> bx1 c) \<or> (\<forall>c \<in> set bs. lo \<le> bx1 c) \<Longrightarrow>
     c \<in> set (intersect_o as bs y1 y2) \<Longrightarrow> lo \<le> bx1 c"
proof (induction as bs rule: intersect_o_induct)
  case (Nil2 as)
  then show ?case by (cases as) auto
next
  case (LT a as b bs)
  then show ?case by (force simp: intersect_o_unfold(1) split: if_splits)
next
  case (GT a as b bs)
  then show ?case by (force simp: intersect_o_unfold(2) split: if_splits)
next
  case (EQ a as b bs)
  then show ?case by (force simp: intersect_o_unfold(3) split: if_splits)
qed simp

lemma intersect_o_gap:
  "spans_gap d as \<Longrightarrow> spans_gap d bs \<Longrightarrow> spans_gap d (intersect_o as bs y1 y2)"
proof (induction as bs rule: intersect_o_induct)
  case (Nil2 as)
  then show ?case by (cases as) auto
next
  case (LT a as b bs)
  then have "spans_gap d (intersect_o as (b # bs) y1 y2)"
    and "\<forall>c \<in> set (intersect_o as (b # bs) y1 y2). bx2 a + d \<le> bx1 c"
    by (auto simp: spans_Cons intro: intersect_o_lower)
  then show ?case using LT.hyps by (subst intersect_o_unfold(1) [OF LT.hyps]) (simp add: spans_Cons)
next
  case (GT a as b bs)
  then have "spans_gap d (intersect_o (a # as) bs y1 y2)"
    and "\<forall>c \<in> set (intersect_o (a # as) bs y1 y2). bx2 b + d \<le> bx1 c"
    by (auto simp: spans_Cons intro: intersect_o_lower)
  then show ?case using GT.hyps by (subst intersect_o_unfold(2) [OF GT.hyps]) (simp add: spans_Cons)
next
  case (EQ a as b bs)
  then have "spans_gap d (intersect_o as bs y1 y2)"
    and "\<forall>c \<in> set (intersect_o as bs y1 y2). bx2 a + d \<le> bx1 c"
    by (auto simp: spans_Cons intro: intersect_o_lower)
  then show ?case using EQ.hyps by (subst intersect_o_unfold(3) [OF EQ.hyps]) (simp add: spans_Cons)
qed simp

lemma intersect_o_level: "level y1 y2 (intersect_o as bs y1 y2)"
proof (induction as bs rule: intersect_o_induct)
  case (Nil2 as)
  then show ?case by (cases as) auto
next
  case (LT a as b bs)
  then show ?case by (simp add: intersect_o_unfold(1))
next
  case (GT a as b bs)
  then show ?case by (simp add: intersect_o_unfold(2))
next
  case (EQ a as b bs)
  then show ?case by (simp add: intersect_o_unfold(3))
qed simp

section \<open>Difference\<close>

lemma subtract_tail_correct:
  "spans (m # ms) \<Longrightarrow> bx1 m \<le> x1 \<Longrightarrow> x1 < bx2 m \<Longrightarrow>
     row (subtract_tail y1 y2 (m # ms) x1) = {x \<in> row (m # ms). x1 \<le> x}"
proof (induction ms arbitrary: m x1)
  case Nil
  then show ?case by auto
next
  case (Cons m' ms)
  have "row (subtract_tail y1 y2 (m' # ms) (bx1 m')) = {x \<in> row (m' # ms). bx1 m' \<le> x}"
    using Cons.prems by (intro Cons.IH) (auto simp: spans_Cons)
  also have "\<dots> = row (m' # ms)"
    using Cons.prems row_lower [of ms "bx1 m'"] by (fastforce simp: spans_Cons)
  finally show ?case
    using Cons.prems row_lower [of "m' # ms" x1] by (fastforce simp: spans_Cons next_x1_def)
qed

text \<open>The state the loop is in: \<open>x1\<close> lies in the first minuend box, if there is one.\<close>

definition at_x1 :: "box32 list \<Rightarrow> int \<Rightarrow> bool" where
  "at_x1 ms x1 \<longleftrightarrow> (case ms of [] \<Rightarrow> True | m # _ \<Rightarrow> bx1 m \<le> x1 \<and> x1 < bx2 m)"

lemma at_x1_simps [simp]: "at_x1 [] x1" "at_x1 (m # ms) x1 \<longleftrightarrow> bx1 m \<le> x1 \<and> x1 < bx2 m"
  by (simp_all add: at_x1_def)

lemma at_next_x1: "spans ms \<Longrightarrow> at_x1 ms (next_x1 ms x1)"
  by (cases ms) (auto simp: next_x1_def spans_Cons)

lemma row_from_next_x1: "spans ms \<Longrightarrow> {x \<in> row ms. next_x1 ms k \<le> x} = row ms"
proof (cases ms)
  case (Cons m ms')
  moreover assume "spans ms"
  ultimately show ?thesis using row_lower [of ms' "bx1 m"] by (fastforce simp: spans_Cons next_x1_def)
qed simp

lemma subtract_loop_row:
  "spans ms \<Longrightarrow> spans ss \<Longrightarrow> at_x1 ms x1 \<Longrightarrow>
     row (subtract_loop y1 y2 ms ss x1) = {x \<in> row ms. x1 \<le> x} - row ss"
proof (induction y1 y2 ms ss x1 rule: subtract_loop.induct)
  case (1 y1 y2 m ms s ss x1)
  have ok: "spans ms" "spans ss" "bx1 m \<le> x1" "x1 < bx2 m" "bx1 s < bx2 s"
    using "1.prems" by (auto simp: spans_Cons)
  have lo: "\<And>x. x \<in> row ms \<Longrightarrow> bx2 m \<le> x" "\<And>x. x \<in> row ss \<Longrightarrow> bx2 s \<le> x"
    using "1.prems" row_lower by (auto simp: spans_Cons)
  have skip_m: "row (subtract_loop y1 y2 ms (s # ss) (next_x1 ms k)) = row ms - row (s # ss)"
    if "spans ms \<Longrightarrow> spans (s # ss) \<Longrightarrow> at_x1 ms (next_x1 ms k) \<Longrightarrow>
        row (subtract_loop y1 y2 ms (s # ss) (next_x1 ms k))
        = {x \<in> row ms. next_x1 ms k \<le> x} - row (s # ss)" for k
    using that ok "1.prems" by (simp only: at_next_x1 row_from_next_x1)
  consider (left) "bx2 s \<le> x1" | (cover) "x1 < bx2 s" "bx1 s \<le> x1"
    | (inside) "x1 < bx1 s" "bx1 s < bx2 m" | (right) "x1 < bx1 s" "bx2 m \<le> bx1 s" by linarith
  then show ?case
  proof cases
    case left
    then have "row (subtract_loop y1 y2 (m # ms) ss x1) = {x \<in> row (m # ms). x1 \<le> x} - row ss"
      using "1.IH"(1) "1.prems" ok by simp
    with left show ?thesis by auto
  next
    case cover
    show ?thesis
    proof (cases "bx2 s \<ge> bx2 m")
      case True
      with cover have "row (subtract_loop y1 y2 ms (s # ss) (next_x1 ms (bx2 s))) = row ms - row (s # ss)"
        using "1.IH"(2) by (intro skip_m) auto
      with cover True lo ok show ?thesis by force
    next
      case False
      with cover have "row (subtract_loop y1 y2 (m # ms) ss (bx2 s))
          = {x \<in> row (m # ms). bx2 s \<le> x} - row ss"
        using "1.IH"(3) "1.prems" ok by auto
      with cover False lo ok show ?thesis by force
    qed
  next
    case inside
    show ?thesis
    proof (cases "bx2 s \<ge> bx2 m")
      case True
      with inside have "row (subtract_loop y1 y2 ms (s # ss) (next_x1 ms (bx2 s))) = row ms - row (s # ss)"
        using "1.IH"(4) ok by (intro skip_m) auto
      with inside True lo ok show ?thesis by force
    next
      case False
      with inside have "row (subtract_loop y1 y2 (m # ms) ss (bx2 s))
          = {x \<in> row (m # ms). bx2 s \<le> x} - row ss"
        using "1.IH"(5) "1.prems" ok by auto
      with inside False lo ok show ?thesis by force
    qed
  next
    case right
    then have "row (subtract_loop y1 y2 ms (s # ss) (next_x1 ms x1)) = row ms - row (s # ss)"
      using "1.IH"(6) ok by (intro skip_m) auto
    with right lo ok show ?thesis by force
  qed
next
  case (2 y1 y2 ms x1)
  then show ?case using subtract_tail_correct by (cases ms) auto
qed simp

definition sub_post :: "int \<Rightarrow> int \<Rightarrow> int \<Rightarrow> int \<Rightarrow> box32 list \<Rightarrow> bool" where
  "sub_post d y1 y2 lo out \<longleftrightarrow>
     spans_gap d out \<and> (\<forall>c \<in> set out. lo \<le> bx1 c) \<and> level y1 y2 out"

lemma sub_post_push:
  "sub_post d y1 y2 lo out \<Longrightarrow> x1 < x2 \<Longrightarrow> x2 + d \<le> lo \<or> out = [] \<Longrightarrow> 0 \<le> d \<Longrightarrow>
     sub_post d y1 y2 x1 (\<lparr>bx1 = x1, by1 = y1, bx2 = x2, by2 = y2\<rparr> # out)"
  by (fastforce simp: sub_post_def spans_Cons)

lemma sub_post_mono: "sub_post d y1 y2 lo out \<Longrightarrow> x1 \<le> lo \<or> out = [] \<Longrightarrow> sub_post d y1 y2 x1 out"
  by (fastforce simp: sub_post_def)

lemma subtract_loop_Nil [simp]: "subtract_loop y1 y2 [] ss x1 = []"
  by (cases ss) auto

lemma next_x1_gap: "spans_gap d (m # ms) \<Longrightarrow> bx2 m + d \<le> next_x1 ms k \<or> ms = []"
  by (cases ms) (auto simp: spans_Cons next_x1_def)

lemma subtract_tail_post:
  "spans_gap d ms \<Longrightarrow> at_x1 ms x1 \<Longrightarrow> 0 \<le> d \<Longrightarrow> sub_post d y1 y2 x1 (subtract_tail y1 y2 ms x1)"
proof (induction ms arbitrary: x1)
  case (Cons m ms)
  then have "spans ms" by (auto simp: spans_Cons intro: spans_gap_mono)
  then have "sub_post d y1 y2 (next_x1 ms x1) (subtract_tail y1 y2 ms (next_x1 ms x1))"
    using Cons.prems by (intro Cons.IH at_next_x1) (auto simp: spans_Cons)
  then show ?case
    using Cons.prems next_x1_gap [of d m ms x1] by (auto intro!: sub_post_push)
qed (simp add: sub_post_def)

lemma subtract_loop_post:
  "spans_gap d ms \<Longrightarrow> spans ss \<Longrightarrow> at_x1 ms x1 \<Longrightarrow> 0 \<le> d \<Longrightarrow> d \<le> 1 \<Longrightarrow>
     sub_post d y1 y2 x1 (subtract_loop y1 y2 ms ss x1)"
proof (induction y1 y2 ms ss x1 rule: subtract_loop.induct)
  case (1 y1 y2 m ms s ss x1)
  let ?skip = "\<lambda>k. subtract_loop y1 y2 ms (s # ss) (next_x1 ms k)"
  let ?next = "subtract_loop y1 y2 (m # ms) ss (bx2 s)"
  have ok: "spans_gap d ms" "spans ss" "bx1 m \<le> x1" "x1 < bx2 m" "bx1 s < bx2 s"
    using "1.prems" by (auto simp: spans_Cons)
  have at: "at_x1 ms (next_x1 ms k)" for k
    using ok "1.prems" by (intro at_next_x1) (auto intro: spans_gap_mono)
  have gap: "bx2 m + d \<le> next_x1 ms k \<or> ?skip k = []" for k
    using next_x1_gap [OF "1.prems"(1), of k] by auto
  consider (left) "bx2 s \<le> x1" | (cover) "x1 < bx2 s" "bx1 s \<le> x1" "bx2 m \<le> bx2 s"
    | (covered) "x1 < bx2 s" "bx1 s \<le> x1" "bx2 s < bx2 m"
    | (inside) "x1 < bx1 s" "bx1 s < bx2 m" "bx2 m \<le> bx2 s"
    | (split) "x1 < bx1 s" "bx1 s < bx2 m" "bx2 s < bx2 m"
    | (right) "x1 < bx1 s" "bx2 m \<le> bx1 s" by linarith
  then show ?case
  proof cases
    case left
    with 1 ok show ?thesis by simp
  next
    case cover
    then have "sub_post d y1 y2 (next_x1 ms (bx2 s)) (?skip (bx2 s))"
      using "1.IH"(2) "1.prems" ok at by auto
    then have "sub_post d y1 y2 x1 (?skip (bx2 s))"
      by (rule sub_post_mono) (use gap [of "bx2 s"] ok "1.prems" in force)
    with cover show ?thesis by simp
  next
    case covered
    then have "sub_post d y1 y2 (bx2 s) ?next"
      using "1.IH"(3) "1.prems" ok by auto
    then have "sub_post d y1 y2 x1 ?next" by (rule sub_post_mono) (use covered in force)
    with covered show ?thesis by simp
  next
    case inside
    then have "sub_post d y1 y2 (next_x1 ms (bx2 s)) (?skip (bx2 s))"
      using "1.IH"(4) "1.prems" ok at by auto
    from sub_post_push [OF this, of x1 "bx1 s"] inside gap [of "bx2 s"] "1.prems"
    show ?thesis by auto
  next
    case split
    then have "sub_post d y1 y2 (bx2 s) ?next"
      using "1.IH"(5) "1.prems" ok by auto
    from sub_post_push [OF this, of x1 "bx1 s"] split ok "1.prems" show ?thesis by auto
  next
    case right
    then have "sub_post d y1 y2 (next_x1 ms x1) (?skip x1)"
      using "1.IH"(6) "1.prems" ok at by auto
    from sub_post_push [OF this, of x1 "bx2 m"] right ok gap [of x1] "1.prems"
    show ?thesis by auto
  qed
next
  case (2 y1 y2 ms x1)
  then show ?case by (simp add: subtract_tail_post)
qed (simp add: sub_post_def)

lemma subtract_o_row:
  "ms \<noteq> [] \<Longrightarrow> spans ms \<Longrightarrow> spans ss \<Longrightarrow> row (subtract_o ms ss y1 y2) = row ms - row ss"
  using subtract_loop_row [of ms ss "bx1 (hd ms)"] row_from_next_x1 [of ms 0]
  by (cases ms) (auto simp: subtract_o_def spans_Cons next_x1_def)

lemma subtract_o_gap:
  "ms \<noteq> [] \<Longrightarrow> spans_gap d ms \<Longrightarrow> spans ss \<Longrightarrow> 0 \<le> d \<Longrightarrow> d \<le> 1 \<Longrightarrow>
     spans_gap d (subtract_o ms ss y1 y2) \<and> level y1 y2 (subtract_o ms ss y1 y2)"
  using subtract_loop_post [of d ms ss "bx1 (hd ms)" y1 y2]
  by (cases ms) (auto simp: subtract_o_def spans_Cons sub_post_def)

section \<open>The three overlap functions together\<close>

text \<open>The Boolean operation an overlap function computes point by point.\<close>

fun keeps :: "overlap_kind \<Rightarrow> bool \<Rightarrow> bool \<Rightarrow> bool" where
  "keeps Union p q = (p \<or> q)"
| "keeps Intersect p q = (p \<and> q)"
| "keeps Subtract p q = (p \<and> \<not> q)"

lemma overlap_row:
  "as \<noteq> [] \<Longrightarrow> bs \<noteq> [] \<Longrightarrow> spans as \<Longrightarrow> spans bs \<Longrightarrow>
     row (overlap kind as bs y1 y2) = {x. keeps kind (x \<in> row as) (x \<in> row bs)}"
  by (cases kind) (auto simp: union_o_row intersect_o_row subtract_o_row)

lemma overlap_gap:
  assumes "as \<noteq> []" "bs \<noteq> []" "spans_gap d as" "spans_gap d bs" "0 \<le> d" "d \<le> 1"
  shows "spans_gap d (overlap kind as bs y1 y2)" "level y1 y2 (overlap kind as bs y1 y2)"
proof -
  have "spans as" "spans bs" using assms by (auto intro: spans_gap_mono)
  with assms union_o_strict [of as bs y1 y2]
  have "spans_gap d (overlap kind as bs y1 y2) \<and> level y1 y2 (overlap kind as bs y1 y2)"
    by (cases kind) (auto simp: intersect_o_gap intersect_o_level subtract_o_gap intro: spans_gap_mono)
  then show "spans_gap d (overlap kind as bs y1 y2)" "level y1 y2 (overlap kind as bs y1 y2)"
    by auto
qed

end
