(* ===== verification/Region_Op.thy ===== *)
theory Region_Op
  imports Region_Spans
begin

text \<open>
  The band walk. A region is a list of bands; \<open>banded d\<close> describes the lists of boxes that
  are one, with boxes of a band at least \<open>d\<close> apart: \<open>banded 1\<close> is pixman's canonical form,
  \<open>banded 0\<close> what a client's YXBanded rectangles are. The walk keeps an invariant about the
  bands already written (\<open>out_bands\<close>), and the points it writes are the Boolean
  combination of the points of its inputs.
\<close>

section \<open>Points and bands\<close>

definition box_pts :: "box32 \<Rightarrow> (int \<times> int) set" where
  "box_pts b = {(x, y). bx1 b \<le> x \<and> x < bx2 b \<and> by1 b \<le> y \<and> y < by2 b}"

definition pts :: "box32 list \<Rightarrow> (int \<times> int) set" where
  "pts bs = (\<Union>b \<in> set bs. box_pts b)"

lemma pts_simps [simp]:
  "pts [] = {}" "pts (b # bs) = box_pts b \<union> pts bs" "pts (as @ bs) = pts as \<union> pts bs"
  by (auto simp: pts_def)

lemma pts_concat: "pts (concat bss) = (\<Union>B \<in> set bss. pts B)"
  by (auto simp: pts_def)

definition band_ok :: "int \<Rightarrow> box32 list \<Rightarrow> bool" where
  "band_ok d B \<longleftrightarrow>
     B \<noteq> [] \<and> spans_gap d B \<and> by1 (hd B) < by2 (hd B) \<and> level (by1 (hd B)) (by2 (hd B)) B"

definition sep :: "int \<Rightarrow> box32 list \<Rightarrow> box32 list \<Rightarrow> bool" where
  "sep d B C \<longleftrightarrow>
     by2 (hd B) \<le> by1 (hd C) \<and> (0 < d \<and> by2 (hd B) = by1 (hd C) \<longrightarrow> \<not> same_spans B C)"

definition bands_ok :: "int \<Rightarrow> box32 list list \<Rightarrow> bool" where
  "bands_ok d bss \<longleftrightarrow> (\<forall>B \<in> set bss. band_ok d B) \<and> successively (sep d) bss"

definition banded :: "int \<Rightarrow> box32 list \<Rightarrow> bool" where
  "banded d bs \<longleftrightarrow> (\<exists>bss. bs = concat bss \<and> bands_ok d bss)"

lemma pts_level: "level y1 y2 B \<Longrightarrow> pts B = {(x, y). x \<in> row B \<and> y1 \<le> y \<and> y < y2}"
  by (induction B) (auto simp: box_pts_def)

lemma band_ok_pts: "band_ok d B \<Longrightarrow> pts B = {(x, y). x \<in> row B \<and> by1 (hd B) \<le> y \<and> y < by2 (hd B)}"
  unfolding band_ok_def by (rule pts_level) simp

lemma bands_ok_Nil [simp]: "bands_ok d []"
  by (simp add: bands_ok_def)

lemma bands_ok_Cons:
  "bands_ok d (B # bss) \<longleftrightarrow> band_ok d B \<and> bands_ok d bss \<and> (bss \<noteq> [] \<longrightarrow> sep d B (hd bss))"
  by (auto simp: bands_ok_def successively_Cons)

lemma bands_ok_append:
  "bands_ok d (as @ bs) \<longleftrightarrow>
     bands_ok d as \<and> bands_ok d bs \<and> (as \<noteq> [] \<and> bs \<noteq> [] \<longrightarrow> sep d (last as) (hd bs))"
  by (auto simp: bands_ok_def successively_append_iff)

lemma bands_ok_below:
  "bands_ok d (B # bss) \<Longrightarrow> C \<in> set bss \<Longrightarrow> by2 (hd B) \<le> by1 (hd C)"
proof (induction bss arbitrary: B)
  case (Cons C' bss)
  have BC: "by2 (hd B) \<le> by1 (hd C')" "by1 (hd C') < by2 (hd C')" "bands_ok d (C' # bss)"
    using Cons.prems by (auto simp: bands_ok_Cons sep_def band_ok_def)
  then show ?case using Cons by fastforce
qed simp

lemma bands_ok_pts_below: "bands_ok d (B # bss) \<Longrightarrow> (x, y) \<in> pts (concat bss) \<Longrightarrow> by2 (hd B) \<le> y"
proof -
  assume B: "bands_ok d (B # bss)" and xy: "(x, y) \<in> pts (concat bss)"
  then obtain C where C: "C \<in> set bss" "(x, y) \<in> pts C" by (auto simp: pts_concat)
  then have "band_ok d C" using B by (auto simp: bands_ok_def)
  then show ?thesis using C bands_ok_below [OF B C(1)] by (auto simp: band_ok_pts)
qed

lemma band_ok_ne: "band_ok d B \<Longrightarrow> B \<noteq> []"
  by (simp add: band_ok_def)

lemma bands_ok_concat_empty: "bands_ok d bss \<Longrightarrow> concat bss = [] \<longleftrightarrow> bss = []"
  by (cases bss) (auto simp: bands_ok_Cons dest: band_ok_ne)

lemma hd_concat: "bands_ok d (B # bss) \<Longrightarrow> hd (concat (B # bss)) = hd B"
  by (auto simp: bands_ok_Cons dest: band_ok_ne)

lemma takeWhile_band:
  assumes "bands_ok d (B # bss)"
  shows "takeWhile (\<lambda>b. by1 b = by1 (hd B)) (concat (B # bss)) = B"
proof -
  have "level (by1 (hd B)) (by2 (hd B)) B" using assms by (simp add: bands_ok_Cons band_ok_def)
  then have all: "\<forall>b \<in> set B. by1 b = by1 (hd B)" by (simp add: level_def)
  have "takeWhile (\<lambda>b. by1 b = by1 (hd B)) (concat bss) = []"
  proof (cases bss)
    case (Cons C css)
    with assms have "by1 (hd B) < by1 (hd C)" "C \<noteq> []"
      by (auto simp: bands_ok_Cons sep_def band_ok_def)
    with Cons show ?thesis by (cases C) auto
  qed simp
  with all show ?thesis by (simp add: takeWhile_append)
qed

lemma band_concat:
  assumes "bands_ok d (B # bss)"
  shows "band (concat (B # bss)) = B" and "after_band (concat (B # bss)) = concat bss"
  using takeWhile_band [OF assms] hd_concat [OF assms]
  by (simp_all only: band_def after_band_def band_end_def) simp_all

definition span :: "box32 \<Rightarrow> int \<times> int" where
  "span b = (bx1 b, bx2 b)"

lemma same_spans_span: "same_spans L N \<longleftrightarrow> map span L = map span N"
proof (induction L arbitrary: N)
  case (Cons a L)
  show ?case
  proof (cases N)
    case (Cons b M)
    have "same_spans (a # L) (b # M) \<longleftrightarrow> span a = span b \<and> same_spans L M"
      by (auto simp: same_spans_def span_def)
    with Cons Cons.IH show ?thesis by simp
  qed (simp add: same_spans_def)
qed (auto simp: same_spans_def)

lemma row_span: "row B = {x. \<exists>s \<in> set (map span B). fst s \<le> x \<and> x < snd s}"
  by (auto simp: row_def span_def)

lemma spans_gap_span:
  "spans_gap d B \<longleftrightarrow> (\<forall>s \<in> set (map span B). fst s < snd s)
     \<and> sorted_wrt (\<lambda>s t. snd s + d \<le> fst t) (map span B)"
  by (simp add: spans_gap_def wide_def span_def sorted_wrt_map)

lemma same_spans_row: "same_spans L N \<Longrightarrow> row L = row N"
  unfolding same_spans_span row_span by simp

lemma same_spans_refl [simp]: "same_spans L L"
  by (simp add: same_spans_span)

lemma same_spans_sym: "same_spans L N \<Longrightarrow> same_spans N L"
  by (simp add: same_spans_span)

lemma same_spans_trans: "same_spans L N \<Longrightarrow> same_spans N M \<Longrightarrow> same_spans L M"
  by (simp add: same_spans_span)

lemma same_spans_nth:
  "length L = length N \<Longrightarrow> same_spans L N \<longleftrightarrow>
     \<not> (\<exists>k \<in> {0..<length L}. bx1 (L ! k) \<noteq> bx1 (N ! k) \<or> bx2 (L ! k) \<noteq> bx2 (N ! k))"
proof -
  assume "length L = length N"
  then have "same_spans L N \<longleftrightarrow> (\<forall>k < length L. span (L ! k) = span (N ! k))"
    by (simp add: same_spans_span list_eq_iff_nth_eq)
  then show ?thesis by (simp add: span_def Ball_def)
qed

section \<open>Writing a band\<close>

definition stretch :: "int \<Rightarrow> box32 list \<Rightarrow> box32 list" where
  "stretch y2 B = map (\<lambda>b. b\<lparr>by2 := y2\<rparr>) B"

lemma span_append_non: "map span (append_non B y1 y2) = map span B"
  by (simp add: append_non_def span_def)

lemma span_stretch: "map span (stretch y2 B) = map span B"
  by (simp add: stretch_def span_def)

lemma append_non_props:
  "row (append_non B y1 y2) = row B" "spans_gap d (append_non B y1 y2) = spans_gap d B"
  "same_spans (append_non B y1 y2) C \<longleftrightarrow> same_spans B C"
  "same_spans C (append_non B y1 y2) \<longleftrightarrow> same_spans C B" "level y1 y2 (append_non B y1 y2)"
  "append_non B y1 y2 = [] \<longleftrightarrow> B = []"
  unfolding row_span spans_gap_span same_spans_span span_append_non
  by (simp_all add: append_non_def level_def)

lemma stretch_props:
  "row (stretch y2 B) = row B" "spans_gap d (stretch y2 B) = spans_gap d B"
  "same_spans (stretch y2 B) C \<longleftrightarrow> same_spans B C"
  "same_spans C (stretch y2 B) \<longleftrightarrow> same_spans C B"
  "stretch y2 B = [] \<longleftrightarrow> B = []" "level y1 y B \<Longrightarrow> level y1 y2 (stretch y2 B)"
  unfolding row_span spans_gap_span same_spans_span span_stretch
  by (simp_all add: stretch_def level_def)

lemma level_hd: "level y1 y2 B \<Longrightarrow> B \<noteq> [] \<Longrightarrow> by1 (hd B) = y1 \<and> by2 (hd B) = y2"
  by (cases B) auto

lemma band_okI: "B \<noteq> [] \<Longrightarrow> spans_gap d B \<Longrightarrow> level y1 y2 B \<Longrightarrow> y1 < y2 \<Longrightarrow> band_ok d B"
  using level_hd [of y1 y2 B] by (simp add: band_ok_def)

text \<open>What \<open>coalesce\<close> does on a last band \<open>L\<close> and a new one \<open>N\<close>.\<close>

lemma coalesce_bands:
  assumes "L \<noteq> []" and "N \<noteq> []"
  shows "coalesce (P @ L @ N) (length P) (length P + length L) =
     (if same_spans L N \<and> by2 (hd L) = by1 (hd N) then (P @ stretch (by2 (hd N)) L, length P)
      else (P @ L @ N, length P + length L))"
proof (cases "length L = length N")
  case True
  have "(\<exists>k \<in> {0..<length L}.
      bx1 ((P @ L @ N) ! (length P + k)) \<noteq> bx1 ((P @ L @ N) ! (length P + length L + k))
      \<or> bx2 ((P @ L @ N) ! (length P + k)) \<noteq> bx2 ((P @ L @ N) ! (length P + length L + k)))
    \<longleftrightarrow> \<not> same_spans L N"
    unfolding same_spans_nth [OF True] not_not
    by (rule bex_cong) (simp_all add: nth_append)
  moreover have "(P @ L @ N) ! length P = hd L" "(P @ L @ N) ! (length P + length L) = hd N"
    using assms by (simp_all add: nth_append hd_conv_nth)
  ultimately show ?thesis
    using assms True by (simp add: coalesce_def Let_def stretch_def)
next
  case False
  then have "\<not> same_spans L N" by (simp add: same_spans_def)
  with False assms show ?thesis by (simp add: coalesce_def Let_def)
qed

lemma coalesce_fresh:
  "coalesce (out @ N) (length out) (length out) = (out @ N, length out)"
  "prev \<le> length out \<Longrightarrow> coalesce out prev (length out) = (out, length out)"
  by (auto simp: coalesce_def Let_def)

text \<open>
  The bands written so far end at or above \<open>y\<close>; \<open>prev\<close> is where the last one starts, or the
  end of \<open>out\<close> when the walk has since passed rows that kept nothing.
\<close>

definition out_bands :: "int \<Rightarrow> box32 list \<Rightarrow> nat \<Rightarrow> int \<Rightarrow> box32 list list \<Rightarrow> bool" where
  "out_bands d out prev y bss \<longleftrightarrow>
     out = concat bss \<and> bands_ok d bss \<and> (bss \<noteq> [] \<longrightarrow> by2 (hd (last bss)) \<le> y)
     \<and> (prev = length (concat (butlast bss))
        \<or> prev = length out \<and> (bss \<noteq> [] \<longrightarrow> by2 (hd (last bss)) < y))"

lemma out_bands_mono: "out_bands d out prev y bss \<Longrightarrow> y \<le> y' \<Longrightarrow> out_bands d out prev y' bss"
  by (auto simp: out_bands_def)

lemma out_bands_prev: "out_bands d out prev y bss \<Longrightarrow> prev \<le> length out"
  by (cases bss rule: rev_cases) (auto simp: out_bands_def)

lemma push_empty:
  assumes "out_bands d out prev y bss" and "y < y'"
  shows "push_band [] out prev = (out, length out)" and "out_bands d out (length out) y' bss"
proof -
  show "push_band [] out prev = (out, length out)"
    using out_bands_prev [OF assms(1)] by (simp add: push_band_def coalesce_fresh)
  show "out_bands d out (length out) y' bss"
    using assms by (auto simp: out_bands_def)
qed

lemma push_new:
  assumes out: "out_bands d out prev y bss" and N: "band_ok d N" "level yt yb N" and y: "y \<le> yt"
  obtains out' prev' bss' where "push_band N out prev = (out', prev')"
    and "out_bands d out' prev' yb bss'" and "pts out' = pts out \<union> pts N"
    and "bss' \<noteq> []" and "by2 (hd (last bss')) = yb" and "same_spans (last bss') N"
proof -
  have Nhd: "N \<noteq> []" "by1 (hd N) = yt" "by2 (hd N) = yb"
    using N level_hd [of yt yb N] by (auto dest: band_ok_ne)
  show thesis
  proof (cases bss rule: rev_cases)
    case Nil
    then have "out = []" "prev = 0" using out by (auto simp: out_bands_def)
    then have "push_band N out prev = (N, 0)"
      using coalesce_fresh(1) [of "[]" N] by (simp add: push_band_def)
    then show thesis
      using \<open>out = []\<close> Nhd N by (intro that [of N 0 "[N]"]) (auto simp: out_bands_def bands_ok_Cons)
  next
    case (snoc bss0 L)
    let ?P = "concat bss0"
    have o: "out = ?P @ L" "bands_ok d (bss0 @ [L])" "by2 (hd L) \<le> y"
      using out snoc by (auto simp: out_bands_def)
    have L: "band_ok d L" "L \<noteq> []" using o(2) by (auto simp: bands_ok_append bands_ok_Cons dest: band_ok_ne)
    define fresh where "fresh \<longleftrightarrow> prev = length out \<and> by2 (hd L) < y"
    show thesis
    proof (cases "\<not> fresh \<and> same_spans L N \<and> by2 (hd L) = by1 (hd N)")
      case True
      let ?L = "stretch yb L"
      have lev: "level (by1 (hd L)) yb ?L" using L by (auto simp: band_ok_def intro: stretch_props(6))
      have hd: "by1 (hd ?L) = by1 (hd L)" "by2 (hd ?L) = yb" "?L \<noteq> []"
        using level_hd [OF lev] L(2) by (auto simp: stretch_props)
      have lt: "by1 (hd L) < yb"
        using L(1) True N Nhd by (auto simp: band_ok_def)
      have "prev = length ?P" using out snoc True by (auto simp: out_bands_def fresh_def)
      then have push: "push_band N out prev = (?P @ ?L, length ?P)"
        using True coalesce_bands [OF L(2) Nhd(1), of ?P] Nhd o(1) by (simp add: push_band_def)
      have "band_ok d ?L"
        using L lt by (intro band_okI [OF hd(3) _ lev]) (auto simp: stretch_props band_ok_def)
      then have "bands_ok d (bss0 @ [?L])"
        using o(2) hd(1) by (auto simp: bands_ok_append bands_ok_Cons sep_def stretch_props)
      moreover have "pts ?L = pts L \<union> pts N"
      proof -
        have r: "row N = row L" and y: "by2 (hd L) = yt"
          using True same_spans_row [of L N] Nhd by auto
        have "by1 (hd L) < yt" "yt < yb" using L(1) N Nhd y by (auto simp: band_ok_def)
        then show ?thesis
          unfolding pts_level [OF lev] band_ok_pts [OF L(1)] pts_level [OF N(2)] stretch_props r y
          by auto
      qed
      ultimately show thesis
        using push o(1) hd True
        by (intro that [of "?P @ ?L" "length ?P" "bss0 @ [?L]"])
           (auto simp: out_bands_def stretch_props)
    next
      case False
      have push: "push_band N out prev = (out @ N, length out)"
      proof (cases fresh)
        case True
        then show ?thesis using coalesce_fresh(1) by (simp add: push_band_def fresh_def)
      next
        case nf: False
        then have "prev = length ?P" using out snoc by (auto simp: out_bands_def fresh_def)
        then show ?thesis
          using nf False coalesce_bands [OF L(2) Nhd(1), of ?P] o(1) by (auto simp: push_band_def)
      qed
      have "sep d L N" using False o(3) y Nhd by (auto simp: sep_def fresh_def)
      then have "bands_ok d (bss @ [N])"
        using o(2) snoc N(1) by (auto simp: bands_ok_append bands_ok_Cons)
      then show thesis
        using push out snoc Nhd
        by (intro that [of "out @ N" "length out" "bss @ [N]"]) (auto simp: out_bands_def butlast_append)
    qed
  qed
qed

text \<open>The same as one statement about \<open>push_band\<close>, for a new band that may be empty.\<close>

lemma push_band_ok:
  assumes out: "out_bands d out prev y bss" and N: "N = [] \<or> band_ok d N" "level yt yb N"
    and y: "y \<le> yt" "yt < yb"
  obtains out' prev' bss' where "push_band N out prev = (out', prev')"
    and "out_bands d out' prev' yb bss'" and "pts out' = pts out \<union> pts N"
proof (cases "N = []")
  case True
  then show thesis using push_empty [OF out, of yb] y that [of out "length out" bss] by simp
next
  case False
  with N(1) have "band_ok d N" by blast
  from push_new [OF out this N(2) y(1)] that show thesis by metis
qed

section \<open>One round of the walk\<close>

text \<open>
  The part of the region's first band \<open>[by1, by2)\<close> above \<open>other1\<close>, where the other region
  has nothing.
\<close>

lemma op_above_ok:
  assumes out: "out_bands d out prev y bss" and r: "bands_ok d (R # Rs)"
    and y: "y < by2 (hd R)" "y \<le> o1" "by1 (hd R) < o1"
  obtains out' prev' bss' where
    "op_above flag (concat (R # Rs)) o1 y out prev = (out', prev')"
    and "out_bands d out' prev' (min (by2 (hd R)) o1) bss'"
    and "pts out' = pts out \<union> {(u, v). flag \<and> u \<in> row R \<and> by1 (hd R) \<le> v \<and> y \<le> v
                                  \<and> v < by2 (hd R) \<and> v < o1}"
proof -
  let ?t = "max (by1 (hd R)) y" and ?b = "min (by2 (hd R)) o1"
  let ?N = "append_non R ?t ?b"
  have R: "band_ok d R" using r by (simp add: bands_ok_Cons)
  have tb: "?t < ?b \<or> ?t = ?b" using y R by (auto simp: band_ok_def)
  have keep: "out_bands d out prev ?b bss" using out y by (auto intro: out_bands_mono)
  show thesis
  proof (cases "flag \<and> ?t \<noteq> ?b")
    case False
    then have "op_above flag (concat (R # Rs)) o1 y out prev = (out, prev)"
      by (auto simp: op_above_def Let_def hd_concat [OF r] simp del: concat.simps)
    moreover have "{(u, v). flag \<and> u \<in> row R \<and> by1 (hd R) \<le> v \<and> y \<le> v \<and> v < by2 (hd R) \<and> v < o1} = {}"
      using False by force
    ultimately show thesis using keep by (intro that [of out prev bss]) auto
  next
    case True
    then have lt: "?t < ?b" using tb by blast
    have lev: "level ?t ?b ?N" by (simp add: append_non_props)
    have "band_ok d ?N"
      by (rule band_okI [OF _ _ lev lt]) (use R in \<open>auto simp: append_non_props band_ok_def\<close>)
    note N = this lev
    have op: "op_above flag (concat (R # Rs)) o1 y out prev = push_band ?N out prev"
      using True by (simp add: op_above_def Let_def hd_concat [OF r] band_concat [OF r] del: concat.simps)
    have p: "pts ?N = {(u, v). flag \<and> u \<in> row R \<and> by1 (hd R) \<le> v \<and> y \<le> v \<and> v < by2 (hd R) \<and> v < o1}"
      using True by (auto simp: pts_level [OF N(2)] append_non_props)
    obtain out' prev' bss' where "push_band ?N out prev = (out', prev')"
      "out_bands d out' prev' ?b bss'" "pts out' = pts out \<union> pts ?N"
      using push_band_ok [OF out _ N(2)] N(1) lt by (metis max.cobounded2)
    with op p show thesis using that by simp
  qed
qed

text \<open>Points of a banded region in the rows its first band still reaches.\<close>

lemma pts_first_rows:
  assumes "bands_ok d (R # Rs)" and "v < by2 (hd R)"
  shows "(u, v) \<in> pts (concat (R # Rs)) \<longleftrightarrow> by1 (hd R) \<le> v \<and> u \<in> row R"
proof -
  have "(u, v) \<notin> pts (concat Rs)" using bands_ok_pts_below [OF assms(1), of u v] assms(2) by auto
  then show ?thesis using assms by (auto simp: bands_ok_Cons band_ok_pts)
qed

text \<open>The flags of \<open>op\<close> say what to keep of the rows only one region covers.\<close>

definition flags_ok :: "overlap_kind \<Rightarrow> bool \<Rightarrow> bool \<Rightarrow> bool" where
  "flags_ok kind fa fb \<longleftrightarrow> fa = keeps kind True False \<and> fb = keeps kind False True"

lemma flags_ok_cases:
  "flags_ok Union True True" "flags_ok Intersect False False" "flags_ok Subtract True False"
  by (simp_all add: flags_ok_def)

lemma keeps_False [simp]: "\<not> keeps kind False False"
  by (cases kind) auto

lemma flags_ok_keeps:
  "flags_ok kind fa fb \<Longrightarrow> keeps kind p False = (p \<and> fa)"
  "flags_ok kind fa fb \<Longrightarrow> keeps kind False q = (q \<and> fb)"
  by (cases kind; auto simp: flags_ok_def)+

lemma op_round_above:
  assumes out: "out_bands d out prev y bss" and A: "bands_ok d (A # As)" and B: "bands_ok d (B # Bs)"
    and y: "y < by2 (hd A)" "y < by2 (hd B)" "y \<le> max (by1 (hd A)) (by1 (hd B))"
    and flags: "flags_ok kind fa fb"
  defines "yt \<equiv> max (by1 (hd A)) (by1 (hd B))"
  defines "yb \<equiv> min (by2 (hd A)) (by2 (hd B))"
  obtains out1 prev1 bss1 where
    "(if by1 (hd A) < by1 (hd B) then (by1 (hd B), op_above fa (concat (A # As)) (by1 (hd B)) y out prev)
      else if by1 (hd B) < by1 (hd A) then (by1 (hd A), op_above fb (concat (B # Bs)) (by1 (hd A)) y out prev)
      else (by1 (hd A), out, prev)) = (yt, out1, prev1)"
    and "out_bands d out1 prev1 (min yt yb) bss1"
    and "pts out1 = pts out \<union> {(u, v). y \<le> v \<and> v < yb \<and> v < yt
           \<and> keeps kind ((u, v) \<in> pts (concat (A # As))) ((u, v) \<in> pts (concat (B # Bs)))}"
proof -
  note rows = pts_first_rows [OF A] pts_first_rows [OF B]
  have pos: "by1 (hd A) < by2 (hd A)" "by1 (hd B) < by2 (hd B)"
    using A B by (auto simp: bands_ok_Cons band_ok_def)
  consider (lt) "by1 (hd A) < by1 (hd B)" | (gt) "by1 (hd B) < by1 (hd A)" | (eq) "by1 (hd A) = by1 (hd B)"
    by linarith
  then show thesis
  proof cases
    case lt
    then have yo: "y \<le> by1 (hd B)" using y by simp
    obtain out1 prev1 bss1 where o: "op_above fa (concat (A # As)) (by1 (hd B)) y out prev = (out1, prev1)"
      "out_bands d out1 prev1 (min (by2 (hd A)) (by1 (hd B))) bss1"
      "pts out1 = pts out \<union> {(u, v). fa \<and> u \<in> row A \<and> by1 (hd A) \<le> v \<and> y \<le> v
                                  \<and> v < by2 (hd A) \<and> v < by1 (hd B)}"
      by (rule op_above_ok [OF out A y(1) yo lt, where flag = fa])
    have "min (by2 (hd A)) (by1 (hd B)) = min yt yb" using lt pos by (auto simp: yt_def yb_def)
    moreover have "{(u, v). fa \<and> u \<in> row A \<and> by1 (hd A) \<le> v \<and> y \<le> v \<and> v < by2 (hd A) \<and> v < by1 (hd B)}
        = {(u, v). y \<le> v \<and> v < yb \<and> v < yt
           \<and> keeps kind ((u, v) \<in> pts (concat (A # As))) ((u, v) \<in> pts (concat (B # Bs)))}"
      using lt pos
      by (auto simp: yt_def yb_def rows flags_ok_keeps [OF flags] simp del: concat.simps)
    ultimately show thesis
      by - (rule that [of out1 prev1 bss1], use o lt in \<open>auto simp: yt_def\<close>)
  next
    case gt
    then have yo: "y \<le> by1 (hd A)" using y by simp
    obtain out1 prev1 bss1 where o: "op_above fb (concat (B # Bs)) (by1 (hd A)) y out prev = (out1, prev1)"
      "out_bands d out1 prev1 (min (by2 (hd B)) (by1 (hd A))) bss1"
      "pts out1 = pts out \<union> {(u, v). fb \<and> u \<in> row B \<and> by1 (hd B) \<le> v \<and> y \<le> v
                                  \<and> v < by2 (hd B) \<and> v < by1 (hd A)}"
      by (rule op_above_ok [OF out B y(2) yo gt, where flag = fb])
    have "min (by2 (hd B)) (by1 (hd A)) = min yt yb" using gt pos by (auto simp: yt_def yb_def)
    moreover have "{(u, v). fb \<and> u \<in> row B \<and> by1 (hd B) \<le> v \<and> y \<le> v \<and> v < by2 (hd B) \<and> v < by1 (hd A)}
        = {(u, v). y \<le> v \<and> v < yb \<and> v < yt
           \<and> keeps kind ((u, v) \<in> pts (concat (A # As))) ((u, v) \<in> pts (concat (B # Bs)))}"
      using gt pos
      by (auto simp: yt_def yb_def rows flags_ok_keeps [OF flags] simp del: concat.simps)
    ultimately show thesis
      by - (rule that [of out1 prev1 bss1], use o gt in \<open>auto simp: yt_def\<close>)
  next
    case eq
    have "{(u, v). y \<le> v \<and> v < yb \<and> v < yt
           \<and> keeps kind ((u, v) \<in> pts (concat (A # As))) ((u, v) \<in> pts (concat (B # Bs)))} = {}"
      using eq pos by (auto simp: yt_def yb_def rows simp del: concat.simps)
    moreover have "out_bands d out prev (min yt yb) bss"
      using out y eq by (auto simp: yt_def yb_def intro: out_bands_mono)
    ultimately show thesis using eq by (intro that [of out prev bss]) (auto simp: yt_def)
  qed
qed

lemma op_round_ok:
  assumes out: "out_bands d out prev y bss" and A: "bands_ok d (A # As)" and B: "bands_ok d (B # Bs)"
    and y: "y < by2 (hd A)" "y < by2 (hd B)" "y \<le> max (by1 (hd A)) (by1 (hd B))"
    and flags: "flags_ok kind fa fb" and d: "0 \<le> d" "d \<le> 1"
  defines "yb \<equiv> min (by2 (hd A)) (by2 (hd B))"
  obtains out' prev' bss' where
    "op_round kind fa fb (concat (A # As)) (concat (B # Bs)) y out prev = (out', prev', yb)"
    and "out_bands d out' prev' yb bss'"
    and "pts out' = pts out \<union> {(u, v). y \<le> v \<and> v < yb
           \<and> keeps kind ((u, v) \<in> pts (concat (A # As))) ((u, v) \<in> pts (concat (B # Bs)))}"
proof -
  let ?ra = "concat (A # As)" and ?rb = "concat (B # Bs)"
  let ?yt = "max (by1 (hd A)) (by1 (hd B))"
  let ?N = "overlap kind A B ?yt yb"
  obtain out1 prev1 bss1 where above:
    "(if by1 (hd A) < by1 (hd B) then (by1 (hd B), op_above fa ?ra (by1 (hd B)) y out prev)
      else if by1 (hd B) < by1 (hd A) then (by1 (hd A), op_above fb ?rb (by1 (hd A)) y out prev)
      else (by1 (hd A), out, prev)) = (?yt, out1, prev1)"
    and out1: "out_bands d out1 prev1 (min ?yt yb) bss1"
    and pts1: "pts out1 = pts out \<union> {(u, v). y \<le> v \<and> v < yb \<and> v < ?yt
           \<and> keeps kind ((u, v) \<in> pts ?ra) ((u, v) \<in> pts ?rb)}"
    unfolding yb_def by (rule op_round_above [OF out A B y flags])
  have eq: "op_round kind fa fb ?ra ?rb y out prev =
      (case (if ?yt < yb then push_band ?N out1 prev1 else (out1, prev1)) of
         (out2, prev2) \<Rightarrow> (out2, prev2, yb))"
    unfolding op_round_def Let_def hd_concat [OF A] hd_concat [OF B] band_concat [OF A] band_concat [OF B]
      above yb_def by simp
  have AB: "A \<noteq> []" "B \<noteq> []" "spans_gap d A" "spans_gap d B"
    using A B by (auto simp: bands_ok_Cons band_ok_def)
  show thesis
  proof (cases "?yt < yb")
    case False
    then have "min ?yt yb = yb" "{(u, v). y \<le> v \<and> v < yb \<and> v < ?yt \<and> P u v} = {(u, v). y \<le> v \<and> v < yb \<and> P u v}"
      for P :: "int \<Rightarrow> int \<Rightarrow> bool" by auto
    moreover have "op_round kind fa fb ?ra ?rb y out prev = (out1, prev1, yb)"
      unfolding eq using False by (simp only: if_False prod.case)
    ultimately show thesis using out1 pts1 by (intro that [of out1 prev1 bss1]) simp_all
  next
    case True
    have N: "level ?yt yb ?N" "spans_gap d ?N"
      using overlap_gap [OF AB d] by auto
    then have "?N = [] \<or> band_ok d ?N" using True by (auto intro: band_okI)
    from push_band_ok [OF out1 this N(1) _ True]
    obtain out2 prev2 bss2 where p: "push_band ?N out1 prev1 = (out2, prev2)"
      "out_bands d out2 prev2 yb bss2" "pts out2 = pts out1 \<union> pts ?N" by auto
    have "spans A" "spans B" using AB d by (auto intro: spans_gap_mono)
    then have "pts ?N = {(u, v). ?yt \<le> v \<and> v < yb \<and> keeps kind (u \<in> row A) (u \<in> row B)}"
      unfolding pts_level [OF N(1)] using overlap_row AB by auto
    also have "\<dots> = {(u, v). ?yt \<le> v \<and> v < yb \<and> keeps kind ((u, v) \<in> pts ?ra) ((u, v) \<in> pts ?rb)}"
      by (auto simp: pts_first_rows [OF A] pts_first_rows [OF B] yb_def simp del: concat.simps)
    finally have "pts out2 = pts out \<union> {(u, v). y \<le> v \<and> v < yb
           \<and> keeps kind ((u, v) \<in> pts ?ra) ((u, v) \<in> pts ?rb)}"
      unfolding p(3) pts1 using y(3) by auto
    moreover have "op_round kind fa fb ?ra ?rb y out prev = (out2, prev2, yb)"
      unfolding eq using True p(1) by (simp only: if_True prod.case)
    ultimately show thesis using p by (intro that [of out2 prev2 bss2]) simp_all
  qed
qed

section \<open>The walk\<close>

text \<open>What is left of a region when the walk stands at row \<open>y\<close>.\<close>

definition suffix_ok :: "int \<Rightarrow> int \<Rightarrow> box32 list \<Rightarrow> bool" where
  "suffix_ok d y r \<longleftrightarrow> banded d r \<and> (r \<noteq> [] \<longrightarrow> y < by2 (hd r))"

lemma suffix_ok_cases:
  assumes "suffix_ok d y r" and "r \<noteq> []"
  obtains R Rs where "r = concat (R # Rs)" and "bands_ok d (R # Rs)" and "hd r = hd R"
    and "y < by2 (hd R)"
proof -
  obtain bss where b: "r = concat bss" "bands_ok d bss" using assms by (auto simp: suffix_ok_def banded_def)
  then obtain R Rs where "bss = R # Rs" using assms(2) by (cases bss) auto
  with b assms that show thesis using hd_concat by (metis suffix_ok_def)
qed

lemma suffix_ok_advance:
  assumes "bands_ok d (R # Rs)"
  shows "suffix_ok d (by2 (hd R)) (after_band (concat (R # Rs)))"
    and "(u, v) \<in> pts (after_band (concat (R # Rs))) \<longleftrightarrow>
           by2 (hd R) \<le> v \<and> (u, v) \<in> pts (concat (R # Rs))"
proof -
  have ok: "bands_ok d Rs" using assms by (simp add: bands_ok_Cons)
  show "suffix_ok d (by2 (hd R)) (after_band (concat (R # Rs)))"
    unfolding band_concat [OF assms]
  proof (cases Rs)
    case (Cons C Cs)
    then have "hd (concat Rs) = hd C" "by2 (hd R) < by2 (hd C)"
      using ok assms hd_concat by (auto simp: bands_ok_Cons sep_def band_ok_def)
    then show "suffix_ok d (by2 (hd R)) (concat Rs)"
      using ok by (auto simp: suffix_ok_def banded_def simp del: concat.simps)
  next
    case Nil
    then show "suffix_ok d (by2 (hd R)) (concat Rs)"
      by (auto simp: suffix_ok_def banded_def intro: exI [of _ "[]"])
  qed
  have "band_ok d R" using assms by (simp add: bands_ok_Cons)
  then show "(u, v) \<in> pts (after_band (concat (R # Rs))) \<longleftrightarrow>
           by2 (hd R) \<le> v \<and> (u, v) \<in> pts (concat (R # Rs))"
    unfolding band_concat [OF assms] using bands_ok_pts_below [OF assms, of u v]
    by (auto simp: band_ok_pts)
qed

text \<open>
  The loop invariant: what is written and what is left make up \<open>T\<close>. At most one of the two
  current bands has been started on.
\<close>

definition walk_inv ::
  "int \<Rightarrow> overlap_kind \<Rightarrow> (int \<times> int) set \<Rightarrow> box32 list \<Rightarrow> box32 list \<Rightarrow> int \<Rightarrow> box32 list \<Rightarrow> nat \<Rightarrow> bool"
where
  "walk_inv d kind T ra rb y out prev \<longleftrightarrow>
     suffix_ok d y ra \<and> suffix_ok d y rb
     \<and> (ra \<noteq> [] \<and> rb \<noteq> [] \<longrightarrow> y \<le> max (by1 (hd ra)) (by1 (hd rb)))
     \<and> (\<exists>bss. out_bands d out prev y bss)
     \<and> pts out \<union> {(u, v). y \<le> v \<and> keeps kind ((u, v) \<in> pts ra) ((u, v) \<in> pts rb)} = T"

lemma suffix_ok_pts: "suffix_ok d y r \<Longrightarrow> r \<noteq> [] \<Longrightarrow> (u, v) \<in> pts r \<Longrightarrow> by1 (hd r) \<le> v"
  by (erule (1) suffix_ok_cases)
     (metis linorder_not_le order.trans order.strict_implies_order pts_first_rows bands_ok_Cons band_ok_def)

text \<open>Advancing one side: either it has reached its band's end, or it stays.\<close>

lemma suffix_advance:
  assumes "suffix_ok d y r" and "r \<noteq> []" and "y' \<le> by2 (hd r)"
  defines "r' \<equiv> if by2 (hd r) = y' then after_band r else r"
  shows "suffix_ok d y' r'" and "y' \<le> v \<Longrightarrow> (u, v) \<in> pts r' \<longleftrightarrow> (u, v) \<in> pts r"
    and "by2 (hd r) = y' \<Longrightarrow> r' \<noteq> [] \<Longrightarrow> y' \<le> by1 (hd r')"
proof -
  obtain R Rs where r: "r = concat (R # Rs)" "bands_ok d (R # Rs)" "hd r = hd R"
    using suffix_ok_cases [OF assms(1,2)] .
  note adv = suffix_ok_advance [OF r(2)]
  show "suffix_ok d y' r'"
    using adv(1) r assms by (auto simp: r'_def suffix_ok_def)
  show "y' \<le> v \<Longrightarrow> (u, v) \<in> pts r' \<longleftrightarrow> (u, v) \<in> pts r"
    using adv(2) [of u v] r by (simp add: r'_def del: concat.simps)
  assume e: "by2 (hd r) = y'" and ne: "r' \<noteq> []"
  then have r': "r' = concat Rs" using r band_concat [OF r(2)] by (simp add: r'_def)
  with ne obtain C Cs where "Rs = C # Cs" by (cases Rs) auto
  then show "y' \<le> by1 (hd r')"
    using r(2) e r(3) r' hd_concat [of d C Cs] by (auto simp: bands_ok_Cons sep_def)
qed

lemma walk_step:
  assumes inv: "walk_inv d kind T ra rb y out prev" and ne: "ra \<noteq> []" "rb \<noteq> []"
    and flags: "flags_ok kind fa fb" and d: "0 \<le> d" "d \<le> 1"
    and round: "op_round kind fa fb ra rb y out prev = (out', prev', y')"
  shows "walk_inv d kind T (if by2 (hd ra) = y' then after_band ra else ra)
           (if by2 (hd rb) = y' then after_band rb else rb) y' out' prev'"
proof -
  let ?ra = "if by2 (hd ra) = y' then after_band ra else ra"
  let ?rb = "if by2 (hd rb) = y' then after_band rb else rb"
  have sa: "suffix_ok d y ra" and sb: "suffix_ok d y rb" and ym: "y \<le> max (by1 (hd ra)) (by1 (hd rb))"
    using inv ne by (auto simp: walk_inv_def)
  obtain bss where out: "out_bands d out prev y bss" using inv by (auto simp: walk_inv_def)
  obtain A As where A: "ra = concat (A # As)" "bands_ok d (A # As)" "hd ra = hd A" "y < by2 (hd A)"
    by (rule suffix_ok_cases [OF sa ne(1)])
  obtain B Bs where B: "rb = concat (B # Bs)" "bands_ok d (B # Bs)" "hd rb = hd B" "y < by2 (hd B)"
    by (rule suffix_ok_cases [OF sb ne(2)])
  have ym': "y \<le> max (by1 (hd A)) (by1 (hd B))" using ym A(3) B(3) by simp
  obtain out2 prev2 bss2 where o:
    "op_round kind fa fb ra rb y out prev = (out2, prev2, min (by2 (hd A)) (by2 (hd B)))"
    "out_bands d out2 prev2 (min (by2 (hd A)) (by2 (hd B))) bss2"
    "pts out2 = pts out \<union> {(u, v). y \<le> v \<and> v < min (by2 (hd A)) (by2 (hd B))
       \<and> keeps kind ((u, v) \<in> pts ra) ((u, v) \<in> pts rb)}"
    unfolding A(1) B(1) by (rule op_round_ok [OF out A(2) B(2) A(4) B(4) ym' flags d])
  with round have e: "out2 = out'" "prev2 = prev'" "min (by2 (hd A)) (by2 (hd B)) = y'" by simp_all
  have y': "y' \<le> by2 (hd ra)" "y' \<le> by2 (hd rb)" "y < y'" "y' = by2 (hd ra) \<or> y' = by2 (hd rb)"
    using e(3) A(3,4) B(3,4) by auto
  note adv = suffix_advance [OF sa ne(1) y'(1)] suffix_advance [OF sb ne(2) y'(2)]
  have "?ra \<noteq> [] \<and> ?rb \<noteq> [] \<longrightarrow> y' \<le> max (by1 (hd ?ra)) (by1 (hd ?rb))"
    using adv(3,6) y'(4) by (auto simp: le_max_iff_disj)
  moreover have "pts out' \<union> {(u, v). y' \<le> v \<and> keeps kind ((u, v) \<in> pts ?ra) ((u, v) \<in> pts ?rb)} = T"
  proof -
    have "{(u, v). y' \<le> v \<and> keeps kind ((u, v) \<in> pts ?ra) ((u, v) \<in> pts ?rb)}
        = {(u, v). y' \<le> v \<and> keeps kind ((u, v) \<in> pts ra) ((u, v) \<in> pts rb)}"
      using adv(2,5) by (intro Collect_cong) (auto split: prod.splits)
    moreover have "pts out \<union> {(u, v). y \<le> v \<and> keeps kind ((u, v) \<in> pts ra) ((u, v) \<in> pts rb)} = T"
      using inv by (simp add: walk_inv_def)
    ultimately show ?thesis unfolding o(3) [unfolded e] using y'(3) by auto
  qed
  ultimately show ?thesis
    using adv(1,4) o(2) e by (auto simp: walk_inv_def)
qed

lemma op_loop_ok:
  "walk_inv d kind T ra rb y out prev \<Longrightarrow> flags_ok kind fa fb \<Longrightarrow> 0 \<le> d \<Longrightarrow> d \<le> 1 \<Longrightarrow>
     op_loop kind fa fb ra rb y out prev = (ra', rb', y', out', prev') \<Longrightarrow>
     walk_inv d kind T ra' rb' y' out' prev' \<and> (ra' = [] \<or> rb' = [])"
proof (induction kind fa fb ra rb y out prev rule: op_loop.induct)
  case (1 kind fa fb ra rb y out prev)
  show ?case
  proof (cases "ra \<noteq> [] \<and> rb \<noteq> []")
    case False
    with 1 show ?thesis by (auto simp: op_loop.simps [of kind fa fb ra rb])
  next
    case True
    obtain out2 prev2 y2 where r: "op_round kind fa fb ra rb y out prev = (out2, prev2, y2)"
      by (metis prod_cases3)
    note step = walk_step [OF "1.prems"(1) _ _ "1.prems"(2-4) r]
    show ?thesis
      by (rule "1.IH" [OF True r [symmetric] refl step "1.prems"(2-4)])
         (use True "1.prems"(5) r in \<open>auto simp: op_loop.simps [of kind fa fb ra rb]\<close>)
  qed
qed

section \<open>The tail and the whole operation\<close>

lemma op_rest_ok:
  assumes out: "out_bands d out prev y bss" and s: "suffix_ok d y r" and ne: "r \<noteq> []"
  shows "banded d (op_rest r y out prev)"
    and "pts (op_rest r y out prev) = pts out \<union> {(u, v). y \<le> v \<and> (u, v) \<in> pts r}"
proof -
  obtain R Rs where r: "r = concat (R # Rs)" "bands_ok d (R # Rs)" "hd r = hd R" "y < by2 (hd R)"
    by (rule suffix_ok_cases [OF s ne])
  let ?t = "max (by1 (hd R)) y" and ?b = "by2 (hd R)"
  let ?N = "append_non R ?t ?b"
  have R: "band_ok d R" using r by (simp add: bands_ok_Cons)
  have lev: "level ?t ?b ?N" by (simp add: append_non_props)
  have lt: "?t < ?b" using R r by (auto simp: band_ok_def)
  have N: "band_ok d ?N"
    by (rule band_okI [OF _ _ lev lt]) (use R in \<open>auto simp: append_non_props band_ok_def\<close>)
  obtain out' prev' bss' where p: "push_band ?N out prev = (out', prev')"
    "out_bands d out' prev' ?b bss'" "pts out' = pts out \<union> pts ?N"
    "bss' \<noteq> []" "by2 (hd (last bss')) = ?b" "same_spans (last bss') ?N"
    by (rule push_new [OF out N lev]) auto
  have rest: "op_rest r y out prev = out' @ concat Rs"
    using p(1) band_concat [OF r(2)] r(1,3) by (simp add: op_rest_def del: concat.simps)
  have "Rs \<noteq> [] \<longrightarrow> sep d (last bss') (hd Rs)"
    using r(2) p(5,6)
    by (auto simp: bands_ok_Cons sep_def append_non_props dest: same_spans_trans same_spans_sym)
  then have "bands_ok d (bss' @ Rs)"
    using p(2) r(2) by (auto simp: bands_ok_append bands_ok_Cons out_bands_def)
  then show "banded d (op_rest r y out prev)"
    using p(2) rest by (auto simp: banded_def out_bands_def intro!: exI [of _ "bss' @ Rs"])
  have "(u, v) \<in> pts ?N \<union> pts (concat Rs) \<longleftrightarrow> y \<le> v \<and> (u, v) \<in> pts r" for u v
    using pts_first_rows [OF r(2), of v u] bands_ok_pts_below [OF r(2), of u v] r(4) R
    by (auto simp: pts_level [OF lev] append_non_props r(1) band_ok_pts)
  then show "pts (op_rest r y out prev) = pts out \<union> {(u, v). y \<le> v \<and> (u, v) \<in> pts r}"
    unfolding rest pts_simps p(3) Un_assoc by auto
qed

lemma banded_suffix: "banded d r \<Longrightarrow> r \<noteq> [] \<Longrightarrow> y \<le> by1 (hd r) \<Longrightarrow> suffix_ok d y r"
proof -
  assume "banded d r" "r \<noteq> []" "y \<le> by1 (hd r)"
  moreover then obtain bss where "r = concat bss" "bands_ok d bss" by (auto simp: banded_def)
  moreover from calculation obtain R Rs where "bss = R # Rs" by (cases bss) auto
  ultimately show ?thesis using hd_concat [of d R Rs] by (auto simp: suffix_ok_def bands_ok_Cons band_ok_def)
qed

lemma op_ok:
  assumes a: "banded d (boxes a)" "boxes a \<noteq> []" and b: "banded d (boxes b)" "boxes b \<noteq> []"
    and flags: "flags_ok kind fa fb" and d: "0 \<le> d" "d \<le> 1"
  shows "banded d (boxes (op a b kind fa fb))"
    and "pts (boxes (op a b kind fa fb)) = {p. keeps kind (p \<in> pts (boxes a)) (p \<in> pts (boxes b))}"
proof -
  let ?ra = "boxes a" and ?rb = "boxes b"
  let ?y = "min (by1 (hd ?ra)) (by1 (hd ?rb))"
  let ?T = "{p. keeps kind (p \<in> pts ?ra) (p \<in> pts ?rb)}"
  have sa: "suffix_ok d ?y ?ra" and sb: "suffix_ok d ?y ?rb"
    using banded_suffix a b by auto
  have "keeps kind (p \<in> pts ?ra) (p \<in> pts ?rb) \<Longrightarrow> ?y \<le> snd p" for p
    using suffix_ok_pts [OF sa a(2), of "fst p" "snd p"] suffix_ok_pts [OF sb b(2), of "fst p" "snd p"]
    by (cases "p \<in> pts ?ra"; cases "p \<in> pts ?rb") auto
  then have "{(u, v). ?y \<le> v \<and> keeps kind ((u, v) \<in> pts ?ra) ((u, v) \<in> pts ?rb)} = ?T"
    by force
  moreover have "out_bands d [] 0 ?y []" by (simp add: out_bands_def)
  ultimately have inv: "walk_inv d kind ?T ?ra ?rb ?y [] 0"
    using sa sb by (auto simp: walk_inv_def)
  obtain ra' rb' y' out' prev' where
    l: "op_loop kind fa fb ?ra ?rb ?y [] 0 = (ra', rb', y', out', prev')"
    by (metis prod_cases5)
  have w: "walk_inv d kind ?T ra' rb' y' out' prev'" "ra' = [] \<or> rb' = []"
    using op_loop_ok [OF inv flags d l] by auto
  obtain bss where out: "out_bands d out' prev' y' bss" using w(1) by (auto simp: walk_inv_def)
  have T: "pts out' \<union> {(u, v). y' \<le> v \<and> keeps kind ((u, v) \<in> pts ra') ((u, v) \<in> pts rb')} = ?T"
    and s: "suffix_ok d y' ra'" "suffix_ok d y' rb'"
    using w(1) by (auto simp: walk_inv_def)
  have op: "boxes (op a b kind fa fb) = (if ra' \<noteq> [] \<and> fa then op_rest ra' y' out' prev'
      else if rb' \<noteq> [] \<and> fb then op_rest rb' y' out' prev' else out')"
    by (simp add: op_def Let_def l)
  note k = flags_ok_keeps [OF flags]
  consider (a) "ra' \<noteq> []" "fa" "rb' = []" | (b) "rb' \<noteq> []" "fb" "ra' = []"
    | (none) "\<not> (ra' \<noteq> [] \<and> fa)" "\<not> (rb' \<noteq> [] \<and> fb)" using w(2) by blast
  then have "banded d (boxes (op a b kind fa fb)) \<and> pts (boxes (op a b kind fa fb)) = ?T"
  proof cases
    case a
    then show ?thesis unfolding op using op_rest_ok [OF out s(1) a(1)] T by (simp add: k)
  next
    case b
    then show ?thesis unfolding op using op_rest_ok [OF out s(2) b(1)] T by (simp add: k)
  next
    case none
    then have "{(u, v). y' \<le> v \<and> keeps kind ((u, v) \<in> pts ra') ((u, v) \<in> pts rb')} = {}"
      using w(2) by (auto simp: k)
    with none T out show ?thesis unfolding op by (auto simp: banded_def out_bands_def)
  qed
  then show "banded d (boxes (op a b kind fa fb))"
    and "pts (boxes (op a b kind fa fb)) = ?T" by auto
qed

end
