(* ===== verification/Region_Algebra.thy ===== *)
theory Region_Algebra
  imports Region_Op
begin

text \<open>
  Regions as sets of points. The operations compute union, intersection and difference;
  they keep regions banded and canonical; a canonical region is determined by its points, so
  equations between point sets are equations between regions. The laws are collected in the
  locale \<open>region_algebra\<close>, which the clip-list component uses, and interpreted here on the
  operations of \<open>region.rs\<close>.
\<close>

definition points :: "region \<Rightarrow> (int \<times> int) set" where
  "points r = pts (boxes r)"

definition region_ok :: "int \<Rightarrow> region \<Rightarrow> bool" where
  "region_ok d r \<longleftrightarrow> banded d (boxes r)"

abbreviation canonical_region :: "region \<Rightarrow> bool" where
  "canonical_region \<equiv> region_ok 1"

lemma banded_Nil [simp]: "banded d []"
  by (auto simp: banded_def intro: exI [of _ "[]"])

lemma points_default [region_simps, simp]: "points region_default = {}"
  by (simp add: points_def region_default_def)

lemma region_ok_default [simp]: "region_ok d region_default"
  by (simp add: region_ok_def region_default_def)

lemma banded_mono: "banded d bs \<Longrightarrow> d' \<le> d \<Longrightarrow> banded d' bs"
proof -
  assume "banded d bs" and d: "d' \<le> d"
  then obtain bss where b: "bs = concat bss" "bands_ok d bss" by (auto simp: banded_def)
  have "band_ok d' B" if "band_ok d B" for B
    using that d by (auto simp: band_ok_def intro: spans_gap_mono)
  moreover have "successively (sep d') bss"
    using b(2) d by (auto simp: bands_ok_def sep_def elim!: successively_mono)
  ultimately have "bands_ok d' bss" using b(2) by (auto simp: bands_ok_def)
  with b show ?thesis by (auto simp: banded_def)
qed

lemma banded_box: "has_area b \<Longrightarrow> banded d [b]"
  by (auto simp: banded_def bands_ok_Cons band_ok_def has_area_def spans_Cons intro!: exI [of _ "[[b]]"])

lemma banded_pts_ne: "banded d bs \<Longrightarrow> pts bs = {} \<longleftrightarrow> bs = []"
proof -
  assume "banded d bs"
  then obtain bss where b: "bs = concat bss" "bands_ok d bss" by (auto simp: banded_def)
  show ?thesis
  proof (cases bss)
    case (Cons B Bs)
    then have "band_ok d B" using b by (simp add: bands_ok_Cons)
    then have "row B \<noteq> {}" using row_empty_iff [of B] by (auto simp: band_ok_def dest: spans_wide)
    then have "pts B \<noteq> {}" using \<open>band_ok d B\<close> by (auto simp: band_ok_pts band_ok_def)
    with Cons b show ?thesis by auto
  qed (use b in simp)
qed

section \<open>Extents\<close>

lemma extents_fold:
  "case fold (\<lambda>b (lo, hi). (min lo (bx1 b), max hi (bx2 b))) bs (l, h) of
     (x1, x2) \<Rightarrow> x1 \<le> l \<and> h \<le> x2 \<and> (\<forall>b \<in> set bs. x1 \<le> bx1 b \<and> bx2 b \<le> x2)"
proof (induction bs arbitrary: l h)
  case (Cons b bs)
  show ?case using Cons.IH [of "min l (bx1 b)" "max h (bx2 b)"] by (auto split: prod.splits)
qed simp

lemma bands_ok_last:
  "bands_ok d bss \<Longrightarrow> B \<in> set bss \<Longrightarrow> by2 (hd B) \<le> by2 (hd (last bss))"
proof (induction bss)
  case (Cons C bss)
  show ?case
  proof (cases "bss = []")
    case False
    then have "last bss \<in> set bss" by simp
    moreover have "band_ok d (last bss)" using Cons.prems False by (auto simp: bands_ok_def)
    ultimately have "by2 (hd C) \<le> by2 (hd (last bss))"
      using bands_ok_below [OF Cons.prems(1), of "last bss"] by (auto simp: band_ok_def)
    then show ?thesis using Cons False by (auto simp: bands_ok_Cons)
  qed (use Cons in simp)
qed simp

lemma banded_y_bounds:
  assumes "banded d bs" and "b \<in> set bs"
  shows "by1 (hd bs) \<le> by1 b" and "by2 b \<le> by2 (last bs)"
proof -
  obtain bss where b: "bs = concat bss" "bands_ok d bss" using assms by (auto simp: banded_def)
  obtain B where B: "B \<in> set bss" "b \<in> set B" using assms(2) b(1) by auto
  have "band_ok d B" using b(2) B(1) by (auto simp: bands_ok_def)
  then have lv: "by1 b = by1 (hd B)" "by2 b = by2 (hd B)"
    using B(2) unfolding band_ok_def by (blast dest: levelD)+
  obtain C Cs where c: "bss = C # Cs" using B(1) by (cases bss) auto
  have "by1 (hd C) \<le> by1 (hd B)"
  proof (cases "B = C")
    case False
    then have "B \<in> set Cs" using B(1) c by simp
    then have "by2 (hd C) \<le> by1 (hd B)" using bands_ok_below [of d C Cs] b(2) c by simp
    then show ?thesis using b(2) c by (auto simp: bands_ok_Cons band_ok_def)
  qed simp
  then show "by1 (hd bs) \<le> by1 b" using lv hd_concat [of d C Cs] b c by simp
  let ?L = "last bss"
  have ne: "bss \<noteq> []" using c by simp
  then have L: "band_ok d ?L" using b(2) by (simp add: bands_ok_def)
  have "last bs = last ?L"
    using b ne L by (cases bss rule: rev_cases) (auto simp: band_ok_def)
  moreover have "by2 (last ?L) = by2 (hd ?L)"
    using L levelD [of "by1 (hd ?L)" "by2 (hd ?L)" ?L "last ?L"] by (simp add: band_ok_def)
  ultimately show "by2 b \<le> by2 (last bs)"
    using bands_ok_last [OF b(2) B(1)] lv by simp
qed

lemma extents_None: "extents r = None \<longleftrightarrow> boxes r = []"
  by (auto simp: extents_def split: list.splits prod.splits)

lemma extents_None_points: "extents r = None \<Longrightarrow> points r = {}"
  by (simp add: extents_None points_def)

lemma extents_contains:
  assumes "region_ok d r" and "extents r = Some e"
  shows "points r \<subseteq> box_pts e"
proof
  fix p assume "p \<in> points r"
  then obtain b where b: "b \<in> set (boxes r)" "p \<in> box_pts b" by (auto simp: points_def pts_def)
  obtain c cs where c: "boxes r = c # cs" using b(1) by (cases "boxes r") auto
  have "by1 c \<le> by1 b" "by2 b \<le> by2 (last (c # cs))"
    using banded_y_bounds [of d "boxes r" b] assms(1) b(1) c by (auto simp: region_ok_def)
  moreover have "bx1 e \<le> bx1 b" "bx2 b \<le> bx2 e" "by1 e = by1 c" "by2 e = by2 (last (c # cs))"
    using assms(2) b(1) c extents_fold [where bs = "c # cs" and l = 2147483647 and h = "- 2147483648"]
    by (auto simp: extents_def simp del: fold.simps split: prod.splits)
  ultimately show "p \<in> box_pts e" using b(2) by (auto simp: box_pts_def)
qed

lemma disjoint_pts: "disjoint a b \<Longrightarrow> box_pts a \<inter> box_pts b = {}"
  by (auto simp: disjoint_def box_pts_def)

section \<open>The set operations\<close>

lemma union_ok:
  assumes "region_ok d a" "region_ok d b" "0 \<le> d" "d \<le> 1"
  shows "region_ok d (union a b)" and "points (union a b) = points a \<union> points b"
  using assms op_ok [of d a b Union True True]
  by (auto simp: union_def is_empty_def region_ok_def points_def flags_ok_cases)

lemma op_empty_side:
  assumes "region_ok d a" "region_ok d b" "extents a = Some ea" "extents b = Some eb" "disjoint ea eb"
  shows "points a \<inter> points b = {}"
  using extents_contains [OF assms(1,3)] extents_contains [OF assms(2,4)] disjoint_pts [OF assms(5)]
  by blast

lemma intersect_ok:
  assumes "region_ok d a" "region_ok d b" "0 \<le> d" "d \<le> 1"
  shows "region_ok d (intersect a b)" and "points (intersect a b) = points a \<inter> points b"
proof -
  have "region_ok d (intersect a b) \<and> points (intersect a b) = points a \<inter> points b"
  proof (cases "extents a"; cases "extents b")
    fix ea eb assume e: "extents a = Some ea" "extents b = Some eb"
    show ?thesis
    proof (cases "disjoint ea eb")
      case True
      then show ?thesis using op_empty_side [OF assms(1,2) e] e by (simp add: intersect_def)
    next
      case False
      have "boxes a \<noteq> []" "boxes b \<noteq> []" using e by (metis extents_None option.distinct(1))+
      with False e assms op_ok [of d a b Intersect False False] show ?thesis
        by (auto simp: intersect_def region_ok_def points_def flags_ok_cases)
    qed
  qed (auto simp: intersect_def extents_None_points)
  then show "region_ok d (intersect a b)" and "points (intersect a b) = points a \<inter> points b" by auto
qed

lemma subtract_ok:
  assumes "region_ok d a" "region_ok d b" "0 \<le> d" "d \<le> 1"
  shows "region_ok d (subtract a b)" and "points (subtract a b) = points a - points b"
proof -
  have "region_ok d (subtract a b) \<and> points (subtract a b) = points a - points b"
  proof (cases "extents a"; cases "extents b")
    fix ea eb assume e: "extents a = Some ea" "extents b = Some eb"
    show ?thesis
    proof (cases "disjoint ea eb")
      case True
      then show ?thesis using op_empty_side [OF assms(1,2) e] e assms by (auto simp: subtract_def)
    next
      case False
      have "boxes a \<noteq> []" "boxes b \<noteq> []" using e by (metis extents_None option.distinct(1))+
      with False e assms op_ok [of d a b Subtract True False] show ?thesis
        by (auto simp: subtract_def region_ok_def points_def flags_ok_cases)
    qed
  qed (use assms in \<open>auto simp: subtract_def extents_None_points\<close>)
  then show "region_ok d (subtract a b)" and "points (subtract a b) = points a - points b" by auto
qed

section \<open>A canonical region is determined by its points\<close>

lemma row_Cons_lower: "spans_gap d (b # bs) \<Longrightarrow> 0 \<le> d \<Longrightarrow> x \<in> row (b # bs) \<Longrightarrow> bx1 b \<le> x"
  using row_lower [of bs "bx2 b + d" x] by (auto simp: spans_Cons)

lemma row_tail: "spans_gap d (b # bs) \<Longrightarrow> 0 \<le> d \<Longrightarrow> row bs = {x \<in> row (b # bs). bx2 b \<le> x}"
  using row_lower [of bs "bx2 b + d"] by (fastforce simp: spans_Cons)

lemma row_end: "spans_strict (b # bs) \<Longrightarrow> bx2 b \<notin> row (b # bs)"
  using row_lower [of bs "bx2 b + 1" "bx2 b"] by (auto simp: spans_Cons)

lemma spans_unique: "spans_strict B \<Longrightarrow> spans_strict C \<Longrightarrow> row B = row C \<Longrightarrow> map span B = map span C"
proof (induction B arbitrary: C)
  case Nil
  then show ?case using row_empty_iff [OF spans_wide [OF Nil.prems(2)]] by simp
next
  case (Cons b B)
  obtain c C' where C: "C = c # C'"
    using Cons.prems row_empty_iff [OF spans_wide [OF Cons.prems(1)]] by (cases C) auto
  have in_own: "bx1 b \<in> row (b # B)" "bx1 c \<in> row (c # C')"
    using Cons.prems C by (auto simp: spans_Cons)
  have eq: "row (b # B) = row (c # C')" using Cons.prems(3) C by (simp only:)
  have "bx1 b \<le> bx1 c"
    using row_Cons_lower [OF Cons.prems(1), of "bx1 c"] in_own(2) by (simp only: eq)
  moreover have "bx1 c \<le> bx1 b"
    using row_Cons_lower [of 1 c C' "bx1 b"] in_own(1) Cons.prems(2) C by (simp only: eq)
  ultimately have x1: "bx1 b = bx1 c" by simp
  have wide: "bx1 b < bx2 b" "bx1 c < bx2 c" using Cons.prems C by (auto simp: spans_Cons)
  have "bx2 b \<in> row (c # C')" if "bx2 b < bx2 c" using that x1 wide by simp
  then have "\<not> bx2 b < bx2 c" using row_end [OF Cons.prems(1)] by (auto simp only: eq)
  moreover have "bx2 c \<in> row (b # B)" if "bx2 c < bx2 b" using that x1 wide by simp
  then have "\<not> bx2 c < bx2 b" using row_end [of c C'] Cons.prems(2) C by (auto simp only: eq)
  ultimately have x2: "bx2 b = bx2 c" by simp
  have "row B = row C'"
    using row_tail [OF Cons.prems(1)] row_tail [of 1 c C'] Cons.prems(2) C x2 by (simp only: eq)
  then have "map span B = map span C'"
    using Cons C by (auto simp: spans_Cons)
  moreover have "span b = span c" using x1 x2 by (simp add: span_def)
  ultimately show ?case using C by simp
qed

lemma level_unique:
  "level y1 y2 B \<Longrightarrow> level y1 y2 C \<Longrightarrow> map span B = map span C \<Longrightarrow> B = C"
proof (induction B arbitrary: C)
  case (Cons b B)
  then obtain c C' where "C = c # C'" by (cases C) auto
  with Cons show ?case by (auto simp: span_def)
qed simp

text \<open>The points of one row of a region, by the first band.\<close>

lemma first_band_bounds:
  assumes "bands_ok d (B # Bs)" and "0 \<le> d"
  shows "(x, y) \<in> pts (concat (B # Bs)) \<Longrightarrow> by1 (hd B) \<le> y"
    and "by1 (hd B) \<le> y \<Longrightarrow> y < by2 (hd B) \<Longrightarrow> {x. (x, y) \<in> pts (concat (B # Bs))} = row B"
    and "(x, y) \<in> pts (concat Bs) \<longleftrightarrow> (x, y) \<in> pts (concat (B # Bs)) \<and> by2 (hd B) \<le> y"
proof -
  have B: "band_ok d B" using assms by (simp add: bands_ok_Cons)
  then have lt: "by1 (hd B) < by2 (hd B)" by (simp add: band_ok_def)
  note below = bands_ok_pts_below [OF assms(1), of x y]
  show "(x, y) \<in> pts (concat (B # Bs)) \<Longrightarrow> by1 (hd B) \<le> y"
    using below lt by (auto simp: band_ok_pts [OF B])
  show "by1 (hd B) \<le> y \<Longrightarrow> y < by2 (hd B) \<Longrightarrow> {x. (x, y) \<in> pts (concat (B # Bs))} = row B"
    using pts_first_rows [OF assms(1)] by auto
  show "(x, y) \<in> pts (concat Bs) \<longleftrightarrow> (x, y) \<in> pts (concat (B # Bs)) \<and> by2 (hd B) \<le> y"
    using below by (auto simp: band_ok_pts [OF B])
qed

lemma bands_first_row: "bands_ok d (B # Bs) \<Longrightarrow> row B \<noteq> {}"
  using row_empty_iff [of B] by (auto simp: bands_ok_Cons band_ok_def dest: spans_wide)

text \<open>The row below a band: nothing there, or a band whose spans differ.\<close>

lemma row_below_differs:
  assumes "bands_ok 1 (B # Bs)"
  shows "{x. (x, by2 (hd B)) \<in> pts (concat (B # Bs))} \<noteq> row B"
proof
  let ?y = "by2 (hd B)"
  assume eq: "{x. (x, ?y) \<in> pts (concat (B # Bs))} = row B"
  have tail: "{x. (x, ?y) \<in> pts (concat Bs)} = row B"
    using eq first_band_bounds(3) [OF assms, of _ ?y] by (simp del: concat.simps)
  then obtain x where "(x, ?y) \<in> pts (concat Bs)" using bands_first_row [OF assms] by auto
  then obtain C Cs where C: "Bs = C # Cs" by (cases Bs) auto
  have ok: "bands_ok 1 (C # Cs)" "sep 1 B C" "band_ok 1 B" "band_ok 1 C"
    using assms C by (auto simp: bands_ok_Cons)
  have "by1 (hd C) \<le> ?y" using first_band_bounds(1) [OF ok(1)] \<open>(x, ?y) \<in> _\<close> C by simp
  then have y: "by1 (hd C) = ?y" using ok(2) by (simp add: sep_def)
  then have "row C = row B"
    using first_band_bounds(2) [OF ok(1), of ?y] tail C ok(4) by (auto simp: band_ok_def)
  then have "same_spans B C"
    using spans_unique [of B C] ok(3,4) by (simp add: band_ok_def same_spans_span)
  with y ok(2) show False by (simp add: sep_def)
qed

lemma bands_unique:
  "bands_ok 1 Bs \<Longrightarrow> bands_ok 1 Cs \<Longrightarrow> pts (concat Bs) = pts (concat Cs) \<Longrightarrow> concat Bs = concat Cs"
proof (induction Bs arbitrary: Cs)
  case Nil
  then have "banded 1 (concat Cs)" by (auto simp: banded_def)
  then show ?case using Nil banded_pts_ne [of 1 "concat Cs"] by simp
next
  case (Cons B Bs)
  let ?P = "pts (concat (B # Bs))"
  have "banded 1 (concat (B # Bs))" using Cons.prems by (auto simp: banded_def simp del: concat.simps)
  moreover have "concat (B # Bs) \<noteq> []" using Cons.prems bands_ok_concat_empty by blast
  ultimately have "?P \<noteq> {}" using banded_pts_ne by blast
  then obtain C Cs' where C: "Cs = C # Cs'" using Cons.prems(3) by (cases Cs) auto
  have okB: "bands_ok 1 (B # Bs)" and okC: "bands_ok 1 (C # Cs')"
    and P: "pts (concat (C # Cs')) = ?P" using Cons.prems C by auto
  have pos: "by1 (hd B) < by2 (hd B)" "by1 (hd C) < by2 (hd C)"
    using okB okC by (auto simp: bands_ok_Cons band_ok_def)
  note rowB = first_band_bounds(2) [OF okB] and rowC = first_band_bounds(2) [OF okC, unfolded P]
  obtain xb xc where "xb \<in> row B" "xc \<in> row C" using bands_first_row okB okC by fastforce
  then have "(xb, by1 (hd B)) \<in> ?P" "(xc, by1 (hd C)) \<in> ?P"
    using rowB [of "by1 (hd B)"] rowC [of "by1 (hd C)"] pos by auto
  then have y1: "by1 (hd B) = by1 (hd C)"
    using first_band_bounds(1) [OF okB] first_band_bounds(1) [OF okC, unfolded P] by (metis order.antisym zero_le_one)
  have row: "row B = row C" using rowB [of "by1 (hd B)"] rowC [of "by1 (hd B)"] y1 pos by auto
  have "\<not> by2 (hd B) < by2 (hd C)"
    using rowC [of "by2 (hd B)"] y1 pos row row_below_differs [OF okB] by auto
  moreover have "\<not> by2 (hd C) < by2 (hd B)"
    using rowB [of "by2 (hd C)"] y1 pos row row_below_differs [OF okC, unfolded P] by auto
  ultimately have y2: "by2 (hd B) = by2 (hd C)" by simp
  have "map span B = map span C"
    using spans_unique [of B C] okB okC row by (simp add: bands_ok_Cons band_ok_def)
  then have "B = C"
    using okB okC y1 y2 level_unique [of "by1 (hd B)" "by2 (hd B)" B C]
    by (simp add: bands_ok_Cons band_ok_def)
  moreover have "pts (concat Bs) = pts (concat Cs')"
    using first_band_bounds(3) [OF okB] first_band_bounds(3) [OF okC, unfolded P] y2
    by (simp add: set_eq_iff del: concat.simps)
  ultimately show ?case using Cons.IH [of Cs'] okB okC C by (simp add: bands_ok_Cons)
qed

lemma canonical_unique:
  "canonical_region a \<Longrightarrow> canonical_region b \<Longrightarrow> points a = points b \<Longrightarrow> a = b"
  using bands_unique by (auto simp: region_ok_def banded_def points_def intro: region.expand)

section \<open>The canonical form test\<close>

lemma band_check_iff:
  "band_check y2 prev bs \<longleftrightarrow> (\<forall>b \<in> set bs. by2 b = y2)
     \<and> wide bs \<and> successively (\<lambda>a b. bx2 a < bx1 b) (case prev of None \<Rightarrow> bs | Some p \<Rightarrow> p # bs)"
  by (induction y2 prev bs rule: band_check.induct) (auto split: option.splits)

lemma spans_strict_successively:
  "spans_strict bs \<longleftrightarrow> wide bs \<and> successively (\<lambda>a b. bx2 a < bx1 b) bs"
proof (induction bs rule: induct_list012)
  case (3 a b bs)
  show ?case
  proof
    assume "spans_strict (a # b # bs)"
    with 3 show "wide (a # b # bs) \<and> successively (\<lambda>a b. bx2 a < bx1 b) (a # b # bs)"
      by (auto simp: spans_Cons)
  next
    assume r: "wide (a # b # bs) \<and> successively (\<lambda>a b. bx2 a < bx1 b) (a # b # bs)"
    then have "spans_strict (b # bs)" using 3 by simp
    moreover have "bx2 a + 1 \<le> bx1 c" if "c \<in> set bs" for c
    proof -
      have "bx2 b + 1 \<le> bx1 c" "bx1 b < bx2 b" using calculation that by (auto simp: spans_Cons)
      with r show ?thesis by simp
    qed
    ultimately show "spans_strict (a # b # bs)" using r by (auto simp: spans_Cons)
  qed
qed (auto simp: spans_Cons)

lemma band_split: "bs = band bs @ after_band bs"
  by (simp add: band_def after_band_def)

lemma band_takeWhile: "band bs = takeWhile (\<lambda>b. by1 b = by1 (hd bs)) bs"
  by (simp only: band_def band_end_def takeWhile_eq_take [symmetric])

lemma band_props:
  "bs \<noteq> [] \<Longrightarrow> band bs \<noteq> [] \<and> hd (band bs) = hd bs \<and> (\<forall>b \<in> set (band bs). by1 b = by1 (hd bs))"
  by (cases bs) (auto simp: band_takeWhile dest: set_takeWhileD)

lemma is_canonical_from_iff:
  "is_canonical_from prev bs \<longleftrightarrow>
     (\<exists>bss. bs = concat bss \<and> bands_ok 1 bss
        \<and> (case prev of None \<Rightarrow> True | Some p \<Rightarrow> bss \<noteq> [] \<longrightarrow> sep 1 p (hd bss)))"
proof (induction prev bs rule: is_canonical_from.induct)
  case (1 prev)
  show ?case by (auto split: option.splits intro: exI [of _ "[]"])
next
  case (2 prev b bs)
  let ?bs = "b # bs" and ?B = "band (b # bs)" and ?R = "after_band (b # bs)"
  let ?sep = "case prev of None \<Rightarrow> True | Some p \<Rightarrow> sep 1 p ?B"
  note B = band_props [of ?bs, simplified]
  have "(\<forall>c \<in> set ?B. by2 c = by2 b) \<longleftrightarrow> level (by1 b) (by2 b) ?B"
    using B by (simp add: level_def)
  then have ok: "by1 b < by2 b \<and> band_check (by2 b) None ?B \<longleftrightarrow> band_ok 1 ?B"
    using B unfolding band_check_iff band_ok_def spans_strict_successively by (simp only: option.case) argo
  have hdB: "by1 (hd ?B) = by1 b" using B by simp
  have sp: "(case prev of None \<Rightarrow> False
      | Some p \<Rightarrow> by2 (hd p) > by1 b \<or> (by2 (hd p) = by1 b \<and> same_spans p ?B)) \<longleftrightarrow> \<not> ?sep"
    by (cases prev) (auto simp: sep_def hdB)
  have IH: "is_canonical_from (Some ?B) ?R \<longleftrightarrow>
      (\<exists>bss. ?R = concat bss \<and> bands_ok 1 bss \<and> (bss \<noteq> [] \<longrightarrow> sep 1 ?B (hd bss)))"
    if "band_ok 1 ?B" ?sep
  proof -
    from that(1) have "by1 b < by2 b" "band_check (by2 b) None ?B" by (simp_all only: ok [symmetric])
    with that(2) "2.IH" [OF refl refl refl] show ?thesis by (simp only: sp option.case not_not)
  qed
  have "is_canonical_from prev ?bs \<longleftrightarrow>
      band_ok 1 ?B \<and> ?sep \<and> is_canonical_from (Some ?B) ?R"
    unfolding ok [symmetric] by (simp only: is_canonical_from.simps Let_def sp) auto
  also have "\<dots> \<longleftrightarrow> band_ok 1 ?B \<and> ?sep \<and>
      (\<exists>bss. ?R = concat bss \<and> bands_ok 1 bss \<and> (bss \<noteq> [] \<longrightarrow> sep 1 ?B (hd bss)))"
    using IH by blast
  also have "\<dots> \<longleftrightarrow> (\<exists>bss. ?bs = concat bss \<and> bands_ok 1 bss
        \<and> (case prev of None \<Rightarrow> True | Some p \<Rightarrow> bss \<noteq> [] \<longrightarrow> sep 1 p (hd bss)))" (is "?l \<longleftrightarrow> ?r")
  proof
    assume ?l
    then obtain bss where "band_ok 1 ?B" ?sep "?R = concat bss" "bands_ok 1 bss"
      "bss \<noteq> [] \<longrightarrow> sep 1 ?B (hd bss)" by blast
    then show ?r
      using band_split [of ?bs]
      by (intro exI [of _ "?B # bss"]) (auto simp: bands_ok_Cons split: option.splits)
  next
    assume ?r
    then obtain bss where r: "?bs = concat bss" "bands_ok 1 bss"
      "case prev of None \<Rightarrow> True | Some p \<Rightarrow> bss \<noteq> [] \<longrightarrow> sep 1 p (hd bss)" by blast
    then obtain C Cs where C: "bss = C # Cs" by (cases bss) auto
    have "?B = C" "?R = concat Cs" using band_concat [of 1 C Cs] r C by simp_all
    with r C show ?l by (auto simp: bands_ok_Cons split: option.splits)
  qed
  finally show ?case .
qed

lemma is_canonical_iff: "is_canonical bs \<longleftrightarrow> banded 1 bs"
  by (simp add: is_canonical_def is_canonical_from_iff banded_def)

section \<open>Normalisation\<close>

lemma union_pairs_ok:
  "\<forall>r \<in> set rs. canonical_region r \<Longrightarrow>
     (\<forall>r \<in> set (union_pairs rs). canonical_region r)
     \<and> (\<Union>r \<in> set (union_pairs rs). points r) = (\<Union>r \<in> set rs. points r)"
  by (induction rs rule: union_pairs.induct) (auto simp: union_ok)

lemma union_tree_ok:
  "\<forall>r \<in> set rs. canonical_region r \<Longrightarrow>
     canonical_region (union_tree rs) \<and> points (union_tree rs) = (\<Union>r \<in> set rs. points r)"
proof (induction rs rule: union_tree.induct)
  case (1 rs)
  show ?case
  proof (cases "length rs > 1")
    case True
    with 1 union_pairs_ok [of rs] show ?thesis by (simp add: union_tree.simps [of rs])
  next
    case False
    then have "union_tree rs = (case rs of [] \<Rightarrow> region_default | r # _ \<Rightarrow> r)"
      by (simp add: union_tree.simps [of rs])
    with False 1 show ?thesis by (cases rs) auto
  qed
qed

lemma box_pts_empty: "\<not> has_area b \<Longrightarrow> box_pts b = {}"
  by (auto simp: has_area_def box_pts_def)

lemma pts_filter_area: "pts (filter has_area bs) = pts bs"
  using box_pts_empty by (fastforce simp: pts_def)

lemma from_boxes_ok:
  "canonical_region (from_boxes bs)" "points (from_boxes bs) = pts bs"
proof -
  have "canonical_region (from_boxes bs) \<and> points (from_boxes bs) = pts bs"
  proof (cases "is_canonical bs")
    case True
    then show ?thesis by (simp add: from_boxes_def region_ok_def points_def is_canonical_iff)
  next
    case False
    let ?rs = "map (\<lambda>b. Region [b]) (sort_boxes (filter has_area bs))"
    have "\<forall>r \<in> set ?rs. canonical_region r"
      by (auto simp: region_ok_def sort_boxes_def banded_box)
    from union_tree_ok [OF this]
    have "canonical_region (from_boxes bs)" "points (from_boxes bs) = (\<Union>r \<in> set ?rs. points r)"
      using False by (simp_all add: from_boxes_def)
    moreover have "(\<Union>r \<in> set ?rs. points r) = pts (filter has_area bs)"
      by (auto simp: points_def sort_boxes_def pts_def)
    ultimately show ?thesis by (simp add: pts_filter_area)
  qed
  then show "canonical_region (from_boxes bs)" "points (from_boxes bs) = pts bs" by auto
qed

text \<open>Whatever order an unstable sort leaves equal keys in, the normalised region is the same.\<close>

lemma union_tree_order:
  assumes "\<forall>r \<in> set rs. canonical_region r" and "set rs = set qs"
  shows "union_tree rs = union_tree qs"
  using assms union_tree_ok [of rs] union_tree_ok [of qs] by (auto intro: canonical_unique)

end
