(* ===== verification/Region_Wire.thy ===== *)
theory Region_Wire
  imports Region_Algebra
begin

text \<open>
  Moving regions, testing points, and the way between regions and the 16-bit rectangles of
  the protocol: within its range a translation is a shift of the point set; a clipped one
  keeps the part inside the \<open>i16\<close> square; \<open>to_rects\<close> and \<open>from_rects\<close> are inverse on
  regions the wire can carry; and a client's YXBanded rectangles form a banded region.
\<close>

section \<open>Points, inverse\<close>

lemma level_sorted: "level y1 y2 B \<Longrightarrow> sorted_wrt (\<lambda>a b. by1 a \<le> by1 b \<and> by2 a \<le> by2 b) B"
  by (induction B) (auto dest: levelD)

lemma banded_sorted:
  assumes "banded d bs"
  shows "sorted_wrt (\<lambda>a b. by1 a \<le> by1 b \<and> by2 a \<le> by2 b) bs"
proof -
  obtain bss where b: "bs = concat bss" "bands_ok d bss" using assms by (auto simp: banded_def)
  have "sorted_wrt (\<lambda>a b. by1 a \<le> by1 b \<and> by2 a \<le> by2 b) (concat bss)" using b(2)
  proof (induction bss)
    case (Cons B Bs)
    have lev: "level (by1 (hd B)) (by2 (hd B)) B" "by1 (hd B) < by2 (hd B)" "bands_ok d Bs"
      using Cons.prems by (auto simp: bands_ok_Cons band_ok_def)
    have "by1 b \<le> by1 c \<and> by2 b \<le> by2 c" if bB: "b \<in> set B" and cBs: "c \<in> set (concat Bs)" for b c
    proof -
      from cBs obtain C where C: "C \<in> set Bs" "c \<in> set C" by auto
      have "by2 (hd B) \<le> by1 (hd C)" using bands_ok_below [OF Cons.prems C(1)] .
      moreover have "level (by1 (hd C)) (by2 (hd C)) C" "by1 (hd C) < by2 (hd C)"
        using lev(3) C(1) by (auto simp: bands_ok_def band_ok_def)
      ultimately show ?thesis using levelD [OF lev(1) bB] lev(2) levelD C(2) by fastforce
    qed
    then show ?case using Cons.IH [OF lev(3)] level_sorted [OF lev(1)] by (simp add: sorted_wrt_append)
  qed simp
  with b show ?thesis by simp
qed

lemma contains_point_iff:
  assumes "region_ok d r"
  shows "contains_point r x y \<longleftrightarrow> (x, y) \<in> points r"
proof -
  have s: "sorted_wrt (\<lambda>a b. by1 a \<le> by1 b \<and> by2 a \<le> by2 b) (boxes r)"
    using banded_sorted assms by (auto simp: region_ok_def)
  have "sorted_wrt (\<lambda>a b. by1 a \<le> by1 b) (dropWhile (\<lambda>b. by2 b \<le> y) (boxes r))"
    using sorted_wrt_dropWhile [OF s] by (rule sorted_wrt_mono_rel [rotated]) simp
  moreover have "sorted_wrt (\<lambda>a b. by2 a \<le> by2 b) (boxes r)"
    using s by (rule sorted_wrt_mono_rel [rotated]) simp
  ultimately have "set (takeWhile (\<lambda>b. by1 b \<le> y) (dropWhile (\<lambda>b. by2 b \<le> y) (boxes r)))
      = {b \<in> set (boxes r). by1 b \<le> y \<and> y < by2 b}"
    by (auto simp: set_takeWhile_sorted set_dropWhile_sorted)
  then show ?thesis
    by (auto simp: contains_point_def Let_def dropWhile_eq_drop [symmetric] points_def pts_def box_pts_def)
qed

lemma inverse_ok:
  assumes "region_ok d r" "0 \<le> d" "d \<le> 1"
  shows "region_ok d (inverse r b)" and "points (inverse r b) = box_pts b - points r"
proof -
  have "region_ok d (inverse r b) \<and> points (inverse r b) = box_pts b - points r"
  proof (cases "has_area b")
    case False
    then have "inverse r b = region_default" by (auto simp: inverse_def has_area_def)
    with False show ?thesis by (simp add: box_pts_empty)
  next
    case True
    then have "inverse r b = subtract (Region [b]) r" by (auto simp: inverse_def has_area_def)
    moreover have "region_ok d (Region [b])" using True by (simp add: region_ok_def banded_box)
    ultimately show ?thesis using subtract_ok [of d "Region [b]" r] assms by (simp add: points_def)
  qed
  then show "region_ok d (inverse r b)" and "points (inverse r b) = box_pts b - points r" by auto
qed

section \<open>Moving a region\<close>

text \<open>All box coordinates, moved by \<open>(dx, dy)\<close>, are \<open>i32\<close> values.\<close>

definition moves_in_i32 :: "region \<Rightarrow> int \<Rightarrow> int \<Rightarrow> bool" where
  "moves_in_i32 r dx dy \<longleftrightarrow>
     (\<forall>b \<in> set (boxes r). in_i32 (bx1 b + dx) \<and> in_i32 (bx2 b + dx) \<and> in_i32 (by1 b + dy) \<and> in_i32 (by2 b + dy))"

definition shift_box :: "int \<Rightarrow> int \<Rightarrow> box32 \<Rightarrow> box32" where
  "shift_box dx dy b = \<lparr>bx1 = bx1 b + dx, by1 = by1 b + dy, bx2 = bx2 b + dx, by2 = by2 b + dy\<rparr>"

lemma shift_box_simps [simp]:
  "bx1 (shift_box dx dy b) = bx1 b + dx" "bx2 (shift_box dx dy b) = bx2 b + dx"
  "by1 (shift_box dx dy b) = by1 b + dy" "by2 (shift_box dx dy b) = by2 b + dy"
  by (simp_all add: shift_box_def)

lemma translate_shift:
  assumes "moves_in_i32 r dx dy"
  shows "boxes (translate r dx dy) = map (shift_box dx dy) (boxes r)"
proof (cases "dx \<noteq> 0 \<or> dy \<noteq> 0")
  case True
  then show ?thesis using assms
    by (auto simp: translate_def moves_in_i32_def shift_box_def i32_id)
next
  case False
  then have "shift_box dx dy b = b" for b by (simp add: shift_box_def)
  then have "shift_box dx dy = id" by (simp add: fun_eq_iff)
  with False show ?thesis by (simp add: translate_def)
qed

lemma hd_map_shift: "B \<noteq> [] \<Longrightarrow> hd (map (shift_box dx dy) B) = shift_box dx dy (hd B)"
  by (simp add: hd_map)

lemma level_shift: "level y1 y2 B \<Longrightarrow> level (y1 + dy) (y2 + dy) (map (shift_box dx dy) B)"
  by (induction B) auto

lemma spans_shift: "spans_gap d B \<Longrightarrow> spans_gap d (map (shift_box dx dy) B)"
  by (auto simp: spans_gap_def wide_def sorted_wrt_map elim!: sorted_wrt_mono_rel [rotated])

lemma band_ok_shift: "band_ok d B \<Longrightarrow> band_ok d (map (shift_box dx dy) B)"
  by (simp add: band_ok_def hd_map_shift level_shift spans_shift)

lemma same_spans_shift:
  "same_spans (map (shift_box dx dy) B) (map (shift_box dx dy) C) \<longleftrightarrow> same_spans B C"
  by (auto simp: same_spans_def zip_map_map)

lemma banded_shift:
  assumes "banded d bs"
  shows "banded d (map (shift_box dx dy) bs)"
proof -
  obtain bss where b: "bs = concat bss" "bands_ok d bss" using assms by (auto simp: banded_def)
  let ?bss = "map (map (shift_box dx dy)) bss"
  have "successively (\<lambda>B C. sep d (map (shift_box dx dy) B) (map (shift_box dx dy) C)) bss"
    using b(2) unfolding bands_ok_def
    by (auto simp: sep_def band_ok_def hd_map_shift same_spans_shift elim!: successively_mono)
  then have "bands_ok d ?bss"
    using b(2) by (auto simp: bands_ok_def band_ok_shift successively_map)
  with b show ?thesis by (auto simp: banded_def map_concat intro!: exI [of _ ?bss])
qed

lemma pts_shift: "(x, y) \<in> pts (map (shift_box dx dy) bs) \<longleftrightarrow> (x - dx, y - dy) \<in> pts bs"
proof -
  have "(x, y) \<in> box_pts (shift_box dx dy b) \<longleftrightarrow> (x - dx, y - dy) \<in> box_pts b" for b
    by (auto simp: box_pts_def)
  then show ?thesis by (simp add: pts_def)
qed

lemma translate_ok:
  assumes "region_ok d r" and "moves_in_i32 r dx dy"
  shows "region_ok d (translate r dx dy)"
    and "(x, y) \<in> points (translate r dx dy) \<longleftrightarrow> (x - dx, y - dy) \<in> points r"
  using assms by (simp_all add: region_ok_def points_def translate_shift banded_shift pts_shift)

section \<open>Banded lists from pairwise conditions\<close>

text \<open>What YXBanded says of two boxes, the first before the second.\<close>

definition before :: "box32 \<Rightarrow> box32 \<Rightarrow> bool" where
  "before a b \<longleftrightarrow> (by1 a = by1 b \<and> by2 a = by2 b \<and> bx2 a \<le> bx1 b) \<or> by2 a \<le> by1 b"

lemma banded_Cons:
  assumes "banded 0 bs" and "has_area b" and "\<forall>c \<in> set bs. before b c"
  shows "banded 0 (b # bs)"
proof -
  obtain bss where b: "bs = concat bss" "bands_ok 0 bss" using assms(1) by (auto simp: banded_def)
  show ?thesis
  proof (cases bss)
    case Nil
    then show ?thesis using b assms(2) by (simp add: banded_box)
  next
    case (Cons B Bs)
    have B: "band_ok 0 B" "bands_ok 0 Bs" "Bs \<noteq> [] \<longrightarrow> sep 0 B (hd Bs)" "hd B \<in> set B"
      using b(2) Cons by (auto simp: bands_ok_Cons band_ok_ne)
    then have hb: "before b (hd B)" using assms(3) b(1) Cons by auto
    show ?thesis
    proof (cases "by1 b = by1 (hd B)")
      case True
      then have eq: "by2 b = by2 (hd B)" using hb assms(2) by (auto simp: before_def has_area_def)
      have "bx2 b \<le> bx1 c" if "c \<in> set B" for c
      proof -
        have "by1 c = by1 (hd B)" using B(1) that unfolding band_ok_def by (blast dest: levelD)
        moreover have "before b c" using assms(3) b(1) Cons that by auto
        ultimately show ?thesis using True assms(2) by (auto simp: before_def has_area_def)
      qed
      then have "band_ok 0 (b # B)"
        using B(1) True eq assms(2) by (simp add: band_ok_def spans_Cons has_area_def)
      then have "bands_ok 0 ((b # B) # Bs)"
        using B(2,3) eq by (simp add: bands_ok_Cons sep_def)
      then show ?thesis using b(1) Cons by (auto simp: banded_def intro!: exI [of _ "(b # B) # Bs"])
    next
      case False
      then have "by2 b \<le> by1 (hd B)" using hb by (auto simp: before_def)
      moreover have "band_ok 0 [b]" using assms(2) by (simp add: band_ok_def has_area_def spans_Cons)
      ultimately have "bands_ok 0 ([b] # bss)"
        using b(2) Cons by (simp add: bands_ok_Cons sep_def)
      then show ?thesis using b(1) by (auto simp: banded_def intro!: exI [of _ "[b] # bss"])
    qed
  qed
qed

lemma banded_pairwise:
  "(\<forall>b \<in> set bs. has_area b) \<Longrightarrow> sorted_wrt before bs \<Longrightarrow> banded 0 bs"
  by (induction bs) (simp_all add: banded_Cons)

lemma band_ok_has_area: "band_ok d B \<Longrightarrow> b \<in> set B \<Longrightarrow> has_area b"
  unfolding band_ok_def spans_gap_def wide_def has_area_def by (metis levelD)

lemma banded_has_area: "banded d bs \<Longrightarrow> b \<in> set bs \<Longrightarrow> has_area b"
  unfolding banded_def bands_ok_def using band_ok_has_area by fastforce

lemma band_before: "band_ok d B \<Longrightarrow> 0 \<le> d \<Longrightarrow> sorted_wrt before B"
proof -
  assume B: "band_ok d B" and d: "0 \<le> d"
  have "spans_gap d C \<Longrightarrow> level y1 y2 C \<Longrightarrow> sorted_wrt before C" for C y1 y2
    by (induction C) (use d in \<open>auto simp: before_def spans_Cons dest: levelD\<close>)
  then show ?thesis using B unfolding band_ok_def by blast
qed

lemma banded_before:
  assumes "banded d bs" and d: "0 \<le> d"
  shows "sorted_wrt before bs"
proof -
  obtain bss where b: "bs = concat bss" "bands_ok d bss" using assms(1) by (auto simp: banded_def)
  have "sorted_wrt before (concat bss)" using b(2)
  proof (induction bss)
    case (Cons B Bs)
    have B: "band_ok d B" "bands_ok d Bs" using Cons.prems by (auto simp: bands_ok_Cons)
    have "before b c" if bB: "b \<in> set B" and cBs: "c \<in> set (concat Bs)" for b c
    proof -
      from cBs obtain C where C: "C \<in> set Bs" "c \<in> set C" by auto
      have "by2 (hd B) \<le> by1 (hd C)" using bands_ok_below [OF Cons.prems C(1)] .
      moreover have "by2 b = by2 (hd B)" using B(1) bB unfolding band_ok_def by (blast dest: levelD)
      moreover have "band_ok d C" using B(2) C(1) by (auto simp: bands_ok_def)
      then have "by1 c = by1 (hd C)" using C(2) unfolding band_ok_def by (blast dest: levelD)
      ultimately show ?thesis by (simp add: before_def)
    qed
    then show ?case using Cons.IH [OF B(2)] band_before [OF B(1) d] by (simp add: sorted_wrt_append)
  qed simp
  with b show ?thesis by simp
qed

section \<open>YXBanded rectangles\<close>

text \<open>The relation \<open>yx_banded\<close> checks between neighbours holds between all pairs.\<close>

definition yx_before :: "region_rect \<Rightarrow> region_rect \<Rightarrow> bool" where
  "yx_before p n \<longleftrightarrow>
     (if sint (ry n) = sint (ry p) then rheight n = rheight p \<and> sint (rx n) \<ge> sint (rx p) + uint (rwidth p)
      else sint (ry n) \<ge> sint (ry p) + uint (rheight p))"

lemma yx_order_trans:
  fixes ya yb yc ha hb hc xa xb xc wa wb :: int
  assumes "0 \<le> ha" "0 \<le> hb" "0 \<le> wb"
    and "if yb = ya then hb = ha \<and> xb \<ge> xa + wa else yb \<ge> ya + ha"
    and "if yc = yb then hc = hb \<and> xc \<ge> xb + wb else yc \<ge> yb + hb"
  shows "if yc = ya then hc = ha \<and> xc \<ge> xa + wa else yc \<ge> ya + ha"
  using assms by (auto split: if_splits)

lemma yx_before_trans: "yx_before a b \<Longrightarrow> yx_before b c \<Longrightarrow> yx_before a c"
  unfolding yx_before_def word_uint_eq_iff by (rule yx_order_trans; assumption?) simp_all

lemma yx_banded_all: "yx_banded rs \<longleftrightarrow> sorted_wrt yx_before rs"
proof -
  have "transp yx_before" by (auto simp: transp_def intro: yx_before_trans)
  moreover have "yx_banded rs \<longleftrightarrow> successively yx_before rs"
    by (simp add: yx_banded_def yx_before_def Let_def)
  ultimately show ?thesis by (simp add: successively_conv_sorted_wrt)
qed

lemma from_wire_rect_simps [simp]:
  "bx1 (from_wire_rect r) = sint (rx r)" "by1 (from_wire_rect r) = sint (ry r)"
  "bx2 (from_wire_rect r) = min (sint (rx r) + uint (rwidth r)) i16_max"
  "by2 (from_wire_rect r) = min (sint (ry r) + uint (rheight r)) i16_max"
  by (simp_all add: from_wire_rect_def from_rect_def Let_def)

lemma from_rect_simps [simp]:
  "bx1 (from_rect r) = sint (rx r)" "by1 (from_rect r) = sint (ry r)"
  "bx2 (from_rect r) = sint (rx r) + uint (rwidth r)"
  "by2 (from_rect r) = sint (ry r) + uint (rheight r)"
  by (simp_all add: from_rect_def Let_def)

lemma yx_before_before:
  "yx_before p n \<Longrightarrow> has_area (from_wire_rect n) \<Longrightarrow> before (from_wire_rect p) (from_wire_rect n)"
  by (auto simp: yx_before_def before_def has_area_def split: if_splits)

lemma from_yx_banded_ok:
  "yx_banded rs \<Longrightarrow> region_ok 0 (from_yx_banded rs)"
  "points (from_yx_banded rs) = pts (map from_wire_rect rs)"
proof -
  assume "yx_banded rs"
  then have "sorted_wrt yx_before rs" by (simp add: yx_banded_all)
  then have "sorted_wrt before (filter has_area (map from_wire_rect rs))"
    by (induction rs) (auto intro: yx_before_before)
  then show "region_ok 0 (from_yx_banded rs)"
    by (auto simp: region_ok_def from_yx_banded_def intro: banded_pairwise)
next
  show "points (from_yx_banded rs) = pts (map from_wire_rect rs)"
    by (simp only: points_def from_yx_banded_def region.sel pts_filter_area)
qed

section \<open>Clipped moves\<close>

definition clip_box :: "int \<Rightarrow> int \<Rightarrow> box32 \<Rightarrow> box32" where
  "clip_box dx dy b =
     \<lparr>bx1 = clamp i16_min i16_max (bx1 b + dx), by1 = clamp i16_min i16_max (by1 b + dy),
      bx2 = clamp i16_min i16_max (bx2 b + dx), by2 = clamp i16_min i16_max (by2 b + dy)\<rparr>"

definition clip_keeps :: "int \<Rightarrow> int \<Rightarrow> box32 \<Rightarrow> bool" where
  "clip_keeps dx dy b \<longleftrightarrow>
     i16_min < bx2 b + dx \<and> i16_min < by2 b + dy \<and> bx1 b + dx < i16_max \<and> by1 b + dy < i16_max"

lemma translate_clipped_boxes:
  "boxes (translate_clipped r dx dy) = map (clip_box dx dy) (filter (clip_keeps dx dy) (boxes r))"
proof -
  have "List.map_filter (\<lambda>b. if bx2 b + dx \<le> i16_min \<or> by2 b + dy \<le> i16_min \<or> bx1 b + dx \<ge> i16_max \<or> by1 b + dy \<ge> i16_max
      then None else Some (clip_box dx dy b)) bs = map (clip_box dx dy) (filter (clip_keeps dx dy) bs)" for bs
    by (induction bs) (auto simp: map_filter_simps clip_keeps_def)
  then show ?thesis unfolding translate_clipped_def Let_def clip_box_def by simp
qed

lemma clip_box_area: "has_area b \<Longrightarrow> clip_keeps dx dy b \<Longrightarrow> has_area (clip_box dx dy b)"
  by (auto simp: has_area_def clip_keeps_def clip_box_def clamp_def)

lemma clamp_mono: "a \<le> b \<Longrightarrow> clamp lo hi a \<le> clamp lo hi b" if "lo \<le> hi"
  using that by (simp add: clamp_def)

lemma clip_box_before: "before a b \<Longrightarrow> before (clip_box dx dy a) (clip_box dx dy b)"
  by (auto simp: before_def clip_box_def intro: clamp_mono)

lemma sorted_before_clip:
  "sorted_wrt before bs \<Longrightarrow> sorted_wrt before (map (clip_box dx dy) (filter (clip_keeps dx dy) bs))"
  by (induction bs) (auto simp: clip_box_before)

lemma clamp_between:
  "lo < hi \<Longrightarrow> lo < x2 \<and> x1 < hi \<and> clamp lo hi x1 \<le> x \<and> x < clamp lo hi x2 \<longleftrightarrow>
    x1 \<le> x \<and> x < x2 \<and> lo \<le> x \<and> x < hi"
  unfolding clamp_def by presburger

lemma clip_box_pts:
  "clip_keeps dx dy b \<and> (x, y) \<in> box_pts (clip_box dx dy b) \<longleftrightarrow>
    (x - dx, y - dy) \<in> box_pts b \<and> i16_min \<le> x \<and> x < i16_max \<and> i16_min \<le> y \<and> y < i16_max"
  using clamp_between [of i16_min i16_max "bx2 b + dx" "bx1 b + dx" x]
    clamp_between [of i16_min i16_max "by2 b + dy" "by1 b + dy" y]
  by (simp add: box_pts_def clip_box_def clip_keeps_def le_diff_eq diff_less_eq) blast

lemma translate_clipped_ok:
  assumes "region_ok d r" and "0 \<le> d"
  shows "region_ok 0 (translate_clipped r dx dy)"
    and "(x, y) \<in> points (translate_clipped r dx dy) \<longleftrightarrow>
      (x - dx, y - dy) \<in> points r \<and> i16_min \<le> x \<and> x < i16_max \<and> i16_min \<le> y \<and> y < i16_max"
proof -
  have area: "has_area b" if "b \<in> set (boxes r)" for b
    using assms(1) that by (simp add: region_ok_def banded_has_area)
  have "sorted_wrt before (boxes r)" using assms by (simp add: region_ok_def banded_before)
  then have "sorted_wrt before (map (clip_box dx dy) (filter (clip_keeps dx dy) (boxes r)))"
    by (rule sorted_before_clip)
  then show "region_ok 0 (translate_clipped r dx dy)"
    unfolding region_ok_def translate_clipped_boxes
    by (intro banded_pairwise) (auto intro: clip_box_area area)
  have "(x, y) \<in> points (translate_clipped r dx dy) \<longleftrightarrow>
      (\<exists>b \<in> set (boxes r). clip_keeps dx dy b \<and> (x, y) \<in> box_pts (clip_box dx dy b))"
    by (auto simp: points_def translate_clipped_boxes pts_def)
  also have "\<dots> \<longleftrightarrow> (\<exists>b \<in> set (boxes r). (x - dx, y - dy) \<in> box_pts b
      \<and> i16_min \<le> x \<and> x < i16_max \<and> i16_min \<le> y \<and> y < i16_max)"
    using clip_box_pts by (intro bex_cong) auto
  finally show "(x, y) \<in> points (translate_clipped r dx dy) \<longleftrightarrow>
      (x - dx, y - dy) \<in> points r \<and> i16_min \<le> x \<and> x < i16_max \<and> i16_min \<le> y \<and> y < i16_max"
    by (auto simp: points_def pts_def)
qed

section \<open>Regions on the wire\<close>

text \<open>A box a protocol rectangle can carry: corner in \<open>i16\<close>, sides in \<open>u16\<close>.\<close>

definition wire_box :: "box32 \<Rightarrow> bool" where
  "wire_box b \<longleftrightarrow> i16_min \<le> bx1 b \<and> bx1 b \<le> i16_max \<and> i16_min \<le> by1 b \<and> by1 b \<le> i16_max
     \<and> bx1 b \<le> bx2 b \<and> bx2 b - bx1 b \<le> u16_max \<and> by1 b \<le> by2 b \<and> by2 b - by1 b \<le> u16_max"

lemma to_rect_simps:
  assumes "wire_box b"
  shows "sint (rx (to_rect b)) = bx1 b" "sint (ry (to_rect b)) = by1 b"
    "uint (rwidth (to_rect b)) = bx2 b - bx1 b" "uint (rheight (to_rect b)) = by2 b - by1 b"
proof -
  have len: "uint (word_of_int (clamp 0 u16_max (i32 v)) :: u16) = v" if "0 \<le> v" "v \<le> u16_max" for v
    using that i32_id [of v] clamp_id [of 0 v u16_max] uint_word_of_int_u16 [of v] by (simp add: in_i32_def)
  have wire: "sint (word_of_int (clamp i16_min i16_max v) :: i16) = v" if "i16_min \<le> v" "v \<le> i16_max" for v
    using that clamp_id [of i16_min v i16_max] sint_word_of_int_i16 [of v] by simp
  show "sint (rx (to_rect b)) = bx1 b" "sint (ry (to_rect b)) = by1 b"
    "uint (rwidth (to_rect b)) = bx2 b - bx1 b" "uint (rheight (to_rect b)) = by2 b - by1 b"
    unfolding to_rect_def Let_def region_rect.simps
    using assms by (intro wire len; simp add: wire_box_def)+
qed

lemma from_to_rect: "wire_box b \<Longrightarrow> from_rect (to_rect b) = b"
  by (rule box32.equality) (simp_all add: to_rect_simps)

lemma wire_box_from_rect: "wire_box (from_rect r)"
proof -
  have "0 \<le> uint (rwidth r)" "uint (rwidth r) \<le> u16_max" "0 \<le> uint (rheight r)" "uint (rheight r) \<le> u16_max"
    by (rule uint_u16_bounds)+
  then show ?thesis
    using sint_i16_bounds [of "rx r"] sint_i16_bounds [of "ry r"] unfolding wire_box_def by simp
qed

lemma to_from_rect: "to_rect (from_rect r) = r"
  using to_rect_simps [OF wire_box_from_rect [of r]]
  by (intro region_rect.equality) (auto intro: signed_word_eqI word_uint_eqI)

lemma from_to_rects:
  assumes "canonical_region r" and "\<forall>b \<in> set (boxes r). wire_box b"
  shows "from_rects (to_rects r) = r"
proof -
  have "map from_rect (to_rects r) = boxes r"
    using assms(2) by (simp add: to_rects_def from_to_rect map_idI)
  then show ?thesis using assms(1)
    by (simp add: from_rects_def from_boxes_def is_canonical_iff region_ok_def)
qed

end
