(* ===== verification/Region_Laws.thy ===== *)
theory Region_Laws
  imports Region_Wire
begin

text \<open>
  The contract of the region operations, as locales. \<open>region_sets\<close> says that the three
  set operations keep well-formed regions well-formed and mean what their names say on
  points; it holds of banded regions too. \<open>region_algebra\<close> adds that a region is determined
  by its points, which is what canonical form is for: every equation between sets of points
  is then an equation between lists of boxes. Both are interpreted on the operations of
  \<open>region.rs\<close>; the clip lists are computed from them.
\<close>

locale region_sets =
  fixes ok :: "'r \<Rightarrow> bool"
    and pt :: "'r \<Rightarrow> (int \<times> int) set"
    and emp :: 'r
    and uni meet sub :: "'r \<Rightarrow> 'r \<Rightarrow> 'r"
  assumes ok_emp: "ok emp" and pt_emp: "pt emp = {}"
    and ok_uni: "ok a \<Longrightarrow> ok b \<Longrightarrow> ok (uni a b)"
    and ok_int: "ok a \<Longrightarrow> ok b \<Longrightarrow> ok (meet a b)"
    and ok_sub: "ok a \<Longrightarrow> ok b \<Longrightarrow> ok (sub a b)"
    and pt_uni: "ok a \<Longrightarrow> ok b \<Longrightarrow> pt (uni a b) = pt a \<union> pt b"
    and pt_int: "ok a \<Longrightarrow> ok b \<Longrightarrow> pt (meet a b) = pt a \<inter> pt b"
    and pt_sub: "ok a \<Longrightarrow> ok b \<Longrightarrow> pt (sub a b) = pt a - pt b"
begin

lemmas closed = ok_emp ok_uni ok_int ok_sub
lemmas meaning = pt_emp pt_uni pt_int pt_sub closed

text \<open>Accumulating with union, and carving with subtract, over a list.\<close>

lemma fold_uni:
  "ok r \<Longrightarrow> \<forall>x \<in> set xs. ok (f x) \<Longrightarrow>
    ok (fold (\<lambda>x acc. uni acc (f x)) xs r) \<and>
    pt (fold (\<lambda>x acc. uni acc (f x)) xs r) = pt r \<union> (\<Union>x \<in> set xs. pt (f x))"
  by (induction xs arbitrary: r) (auto simp: meaning)

lemma fold_sub:
  "ok r \<Longrightarrow> \<forall>x \<in> set xs. ok (f x) \<Longrightarrow>
    ok (fold (\<lambda>x acc. sub acc (f x)) xs r) \<and>
    pt (fold (\<lambda>x acc. sub acc (f x)) xs r) = pt r - (\<Union>x \<in> set xs. pt (f x))"
  by (induction xs arbitrary: r) (auto simp: meaning)

text \<open>Carving: what \<open>sub\<close> leaves of a part never meets what it took.\<close>

lemma carve_disjoint: "ok a \<Longrightarrow> ok b \<Longrightarrow> pt (sub a b) \<inter> pt b = {}"
  by (auto simp: meaning)

end

locale region_algebra = region_sets +
  assumes ext: "ok a \<Longrightarrow> ok b \<Longrightarrow> pt a = pt b \<Longrightarrow> a = b"
begin

lemma uni_comm: "ok a \<Longrightarrow> ok b \<Longrightarrow> uni a b = uni b a"
  by (rule ext) (auto simp: meaning)

lemma uni_assoc: "ok a \<Longrightarrow> ok b \<Longrightarrow> ok c \<Longrightarrow> uni (uni a b) c = uni a (uni b c)"
  by (rule ext) (auto simp: meaning)

lemma int_comm: "ok a \<Longrightarrow> ok b \<Longrightarrow> meet a b = meet b a"
  by (rule ext) (auto simp: meaning)

lemma int_uni_distrib: "ok a \<Longrightarrow> ok b \<Longrightarrow> ok c \<Longrightarrow> meet a (uni b c) = uni (meet a b) (meet a c)"
  by (rule ext) (auto simp: meaning)

lemma sub_sub: "ok a \<Longrightarrow> ok b \<Longrightarrow> ok c \<Longrightarrow> sub (sub a b) c = sub a (uni b c)"
  by (rule ext) (auto simp: meaning)

lemma split_union: "ok a \<Longrightarrow> ok b \<Longrightarrow> uni (meet a b) (sub a b) = a"
  by (rule ext) (auto simp: meaning)

lemma sub_as_int: "ok a \<Longrightarrow> ok b \<Longrightarrow> sub a (sub a b) = meet a b"
  by (rule ext) (auto simp: meaning)

lemma empty_iff: "ok a \<Longrightarrow> a = emp \<longleftrightarrow> pt a = {}"
  by (metis ext ok_emp pt_emp)

end

interpretation banded_sets: region_sets "region_ok 0" points region_default union intersect subtract
  by unfold_locales (simp_all add: union_ok intersect_ok subtract_ok)

interpretation canonical: region_algebra canonical_region points region_default union intersect subtract
  by unfold_locales (simp_all add: union_ok intersect_ok subtract_ok canonical_unique)

end
