(* ===== verification/Region_Props.thy ===== *)
theory Region_Props
  imports Region_Laws
begin

text \<open>
  What the regions of \<open>region.rs\<close> promise: exact set operations that keep canonical form,
  normalisation that depends only on the points covered, moves, point tests, and the wire
  conversions. One statement of the module's documentation does not hold and is refuted by
  an example.
\<close>

text \<open>Two overlapping windows: the regions the examples below run on.\<close>

definition box_a :: region where
  "box_a = Region [\<lparr>bx1 = 0, by1 = 0, bx2 = 10, by2 = 10\<rparr>]"

definition box_b :: region where
  "box_b = Region [\<lparr>bx1 = 5, by1 = 5, bx2 = 15, by2 = 15\<rparr>]"

lemma box_a_b_canonical: "canonical_region box_a" "canonical_region box_b"
  by (simp_all add: box_a_def box_b_def region_ok_def banded_box has_area_def)

text \<open>
  C1. The operations of canonical regions compute exactly the union, intersection and
  difference of their pixels, and their results are canonical again, with no normalisation
  pass: the contract on which every user of the module relies.
\<close>

theorem region_set_ops:
  assumes "canonical_region a" and "canonical_region b"
  shows "is_canonical (boxes (union a b)) \<and> points (union a b) = points a \<union> points b
    \<and> is_canonical (boxes (intersect a b)) \<and> points (intersect a b) = points a \<inter> points b
    \<and> is_canonical (boxes (subtract a b)) \<and> points (subtract a b) = points a - points b"
  using assms by (simp_all add: is_canonical_iff union_ok intersect_ok subtract_ok flip: region_ok_def)

theorem region_set_ops_witness:
  "canonical_region box_a \<and> canonical_region box_b \<and>
   points (union box_a box_b) = points box_a \<union> points box_b \<and>
   points (intersect box_a box_b) = points box_a \<inter> points box_b \<and>
   points (subtract box_a box_b) = points box_a - points box_b"
  using region_set_ops [OF box_a_b_canonical] box_a_b_canonical by simp

text \<open>
  C2. Canonical form is a normal form: two canonical regions with the same pixels are the same
  list of boxes (so \<open>PartialEq\<close> on regions is equality of sets), and \<open>is_canonical\<close>
  decides it.
\<close>

theorem canonical_form_unique:
  "is_canonical as \<Longrightarrow> is_canonical bs \<Longrightarrow> pts as = pts bs \<Longrightarrow> as = bs"
  using canonical_unique [of "Region as" "Region bs"]
  by (simp add: is_canonical_iff region_ok_def points_def)

theorem canonical_form_unique_witness:
  "boxes (union box_a box_b) = boxes (union box_b box_a)"
  by (rule canonical_form_unique)
    (use box_a_b_canonical in \<open>simp_all add: is_canonical_iff union_ok Un_commute
       flip: region_ok_def points_def\<close>)

text \<open>
  The Boolean algebra of regions, as equations between box lists: union is commutative and
  associative, intersection distributes over it, subtracting twice is subtracting the union,
  and a region is the union of what another one covers of it and what it does not.
\<close>

theorem region_boolean_algebra:
  assumes "canonical_region a" and "canonical_region b" and "canonical_region c"
  shows "union a b = union b a \<and> union (union a b) c = union a (union b c)
    \<and> intersect a (union b c) = union (intersect a b) (intersect a c)
    \<and> subtract (subtract a b) c = subtract a (union b c)
    \<and> union (intersect a b) (subtract a b) = a"
  using assms
  by (simp_all add: canonical.uni_comm canonical.uni_assoc canonical.int_uni_distrib
      canonical.sub_sub canonical.split_union)

theorem region_boolean_algebra_witness:
  "union box_a box_b = union box_b box_a \<and>
   union (intersect box_a box_b) (subtract box_a box_b) = box_a"
  using region_boolean_algebra [OF box_a_b_canonical box_a_b_canonical(1)] by simp

text \<open>
  \<open>from_rects\<close> normalises any list of rectangles (unsorted, overlapping, empty ones
  included) to the canonical region of the pixels they cover, so its result depends only on
  those pixels; \<open>from_wire_rects\<close> likewise, on the rectangles cut at \<open>MAXSHORT\<close>.
\<close>

theorem from_rects_normalises:
  "is_canonical (boxes (from_rects rs)) \<and> points (from_rects rs) = (\<Union>r \<in> set rs. box_pts (from_rect r))
   \<and> is_canonical (boxes (from_wire_rects rs))
   \<and> points (from_wire_rects rs) = (\<Union>r \<in> set rs. box_pts (from_wire_rect r))
   \<and> (pts (map from_rect rs) = pts (map from_rect qs) \<longrightarrow> from_rects rs = from_rects qs)"
proof -
  have "from_rects rs = from_rects qs" if "pts (map from_rect rs) = pts (map from_rect qs)"
    using that by (intro canonical_unique) (simp_all add: from_rects_def from_boxes_ok)
  moreover have "pts (map f rs) = (\<Union>r \<in> set rs. box_pts (f r))" for f by (auto simp: pts_def)
  ultimately show ?thesis
    using from_boxes_ok [of "map from_rect rs"] from_boxes_ok [of "map from_wire_rect rs"]
    by (auto simp: from_rects_def from_wire_rects_def is_canonical_iff simp flip: region_ok_def)
qed

theorem from_rects_normalises_witness:
  "from_rects [\<lparr>rx = 5, ry = 5, rwidth = 5, rheight = 5\<rparr>, \<lparr>rx = 0, ry = 5, rwidth = 5, rheight = 5\<rparr>]
   = from_rects [\<lparr>rx = 0, ry = 5, rwidth = 10, rheight = 5\<rparr>]"
proof -
  have "pts (map from_rect [\<lparr>rx = 5, ry = 5, rwidth = 5, rheight = 5\<rparr>, \<lparr>rx = 0, ry = 5, rwidth = 5, rheight = 5\<rparr>])
      = pts (map from_rect [\<lparr>rx = 0, ry = 5, rwidth = 10, rheight = 5\<rparr>])"
    by (auto simp: box_pts_def)
  then show ?thesis using from_rects_normalises by blast
qed

text \<open>
  A region sent as rectangles and read back is the same region, when its boxes fit the
  wire (corner in \<open>i16\<close>, sides in \<open>u16\<close>); and any rectangle survives the way through a box.
\<close>

theorem rects_round_trip:
  assumes "canonical_region r" and "\<forall>b \<in> set (boxes r). wire_box b"
  shows "from_rects (to_rects r) = r \<and> to_rect (from_rect q) = q"
  using from_to_rects [OF assms] to_from_rect by simp

theorem rects_round_trip_witness: "from_rects (to_rects box_a) = box_a"
  using rects_round_trip [OF box_a_b_canonical(1)] by (simp add: box_a_def wire_box_def)

text \<open>
  \<open>contains_point\<close>, which skips the bands that end above the pixel by binary search, and
  stops at the first band below it, decides membership; \<open>inverse\<close> is the complement within
  its bounds. Both hold for banded regions that are not canonical too.
\<close>

theorem contains_point_inverse:
  assumes "region_ok 0 r"
  shows "(contains_point r x y \<longleftrightarrow> (x, y) \<in> points r)
    \<and> points (inverse r bounds) = box_pts bounds - points r"
  using assms by (auto simp: contains_point_iff inverse_ok)

theorem contains_point_inverse_witness:
  "contains_point box_b 7 7 \<longleftrightarrow> (7, 7) \<in> points box_b"
  using contains_point_inverse [of box_b 7 7] box_a_b_canonical(2) banded_mono
  by (auto simp: region_ok_def)

text \<open>
  A translation that stays in \<open>i32\<close> moves every pixel by the offset and keeps canonical
  form. The client-requested move \<open>translate_clipped\<close> never leaves the \<open>i16\<close> range: its
  pixels are those of the moved region in \<open>[-32768, 32767)\<close>, and the result is banded.
\<close>

theorem region_moves:
  assumes "canonical_region r" and "moves_in_i32 r dx dy"
  shows "canonical_region (translate r dx dy)
    \<and> points (translate r dx dy) = (\<lambda>(x, y). (x + dx, y + dy)) ` points r
    \<and> region_ok 0 (translate_clipped r ex ey)
    \<and> points (translate_clipped r ex ey) =
        (\<lambda>(x, y). (x + ex, y + ey)) ` points r \<inter> {i16_min..<i16_max} \<times> {i16_min..<i16_max}"
proof -
  have img: "(\<lambda>(x, y). (x + a, y + b)) ` S = {(x, y). (x - a, y - b) \<in> S}" for a b :: int and S
    by force
  have "points (translate r dx dy) = (\<lambda>(x, y). (x + dx, y + dy)) ` points r"
    using translate_ok(2) [OF assms] by (auto simp: img)
  moreover have "points (translate_clipped r ex ey) =
        (\<lambda>(x, y). (x + ex, y + ey)) ` points r \<inter> {i16_min..<i16_max} \<times> {i16_min..<i16_max}"
    using translate_clipped_ok(2) [OF assms(1)] by (auto simp: img)
  ultimately show ?thesis
    using translate_ok(1) [OF assms] translate_clipped_ok(1) [OF assms(1)] by simp
qed

theorem region_moves_witness:
  "points (translate box_a 3 (- 4)) = (\<lambda>(x, y). (x + 3, y + - 4)) ` points box_a"
  using region_moves [OF box_a_b_canonical(1), of 3 "- 4"]
  by (simp add: moves_in_i32_def box_a_def in_i32_def)

text \<open>
  Rectangles that pass the YXBanded check of \<open>SetClipRectangles\<close> and SHAPE, cut at
  \<open>MAXSHORT\<close> with the empty ones dropped, are a banded region that covers what they cover; and
  the set operations stay exact on such regions.
\<close>

theorem yx_banded_region:
  assumes "verify_rect_order rs 3" and "region_ok 0 b"
  shows "points (from_yx_banded rs) = (\<Union>r \<in> set rs. box_pts (from_wire_rect r))
    \<and> region_ok 0 (union (from_yx_banded rs) b)
    \<and> points (union (from_yx_banded rs) b) = points (from_yx_banded rs) \<union> points b
    \<and> region_ok 0 (intersect (from_yx_banded rs) b)
    \<and> points (intersect (from_yx_banded rs) b) = points (from_yx_banded rs) \<inter> points b
    \<and> region_ok 0 (subtract (from_yx_banded rs) b)
    \<and> points (subtract (from_yx_banded rs) b) = points (from_yx_banded rs) - points b"
proof -
  have a: "region_ok 0 (from_yx_banded rs)"
    using assms(1) by (simp add: verify_rect_order_def from_yx_banded_ok)
  have "points (from_yx_banded rs) = (\<Union>r \<in> set rs. box_pts (from_wire_rect r))"
    by (auto simp: from_yx_banded_ok pts_def)
  with a assms(2) show ?thesis by (simp add: banded_sets.meaning)
qed

theorem yx_banded_region_witness:
  "verify_rect_order [\<lparr>rx = 0, ry = 0, rwidth = 5, rheight = 5\<rparr>, \<lparr>rx = 5, ry = 0, rwidth = 5, rheight = 5\<rparr>] 3
   \<and> points (from_yx_banded [\<lparr>rx = 0, ry = 0, rwidth = 5, rheight = 5\<rparr>, \<lparr>rx = 5, ry = 0, rwidth = 5, rheight = 5\<rparr>])
     = (\<Union>r \<in> set [\<lparr>rx = 0, ry = 0, rwidth = 5, rheight = 5\<rparr>, \<lparr>rx = 5, ry = 0, rwidth = 5, rheight = 5\<rparr>].
          box_pts (from_wire_rect r))"
proof -
  have "verify_rect_order [\<lparr>rx = 0, ry = 0, rwidth = 5, rheight = 5\<rparr>, \<lparr>rx = 5, ry = 0, rwidth = 5, rheight = 5\<rparr>] 3"
    by (simp add: verify_rect_order_def yx_banded_def Let_def)
  then show ?thesis using yx_banded_region [OF _ region_ok_default [of 0]] by blast
qed

text \<open>
  The documentation of \<open>from_yx_banded\<close> says that the results of the set operations on
  such a region are canonical again. They need not be: bands that only one operand covers are
  copied with their touching boxes, so this union of two valid YXBanded rectangles with a
  canonical region is not canonical.
\<close>

theorem yx_banded_union_not_canonical:
  "let rs = [\<lparr>rx = 0, ry = 0, rwidth = 5, rheight = 5\<rparr>, \<lparr>rx = 5, ry = 0, rwidth = 5, rheight = 5\<rparr>];
       r = union (from_yx_banded rs) (Region [\<lparr>bx1 = 0, by1 = 20, bx2 = 5, by2 = 25\<rparr>])
   in yx_banded rs \<and> boxes r = [\<lparr>bx1 = 0, by1 = 0, bx2 = 5, by2 = 5\<rparr>, \<lparr>bx1 = 5, by1 = 0, bx2 = 10, by2 = 5\<rparr>,
        \<lparr>bx1 = 0, by1 = 20, bx2 = 5, by2 = 25\<rparr>] \<and> \<not> is_canonical (boxes r)"
  by code_simp

end
