(* ===== verification/Properties.thy ===== *)
theory Properties
  imports Prelude
begin

text \<open>
  Window properties (\<open>crates/yserver-core/src/properties.rs\<close>): the value a
  \<open>ChangeProperty\<close> request stores and the part of it a \<open>GetProperty\<close> reply carries.
\<close>

definition MAX_PROPERTY_BYTES :: nat where
  "MAX_PROPERTY_BYTES = 64 * 1024 * 1024"

datatype property_format = F8 | F16 | F32

record property_value =
  ptype :: u32
  pformat :: property_format
  pdata :: "u8 list"

definition u32_from_le_bytes :: "u8 list \<Rightarrow> nat" where
  "u32_from_le_bytes bs = unat (bs ! 0) + 2 ^ 8 * unat (bs ! 1) + 2 ^ 16 * unat (bs ! 2) + 2 ^ 24 * unat (bs ! 3)"

definition variable_refresh_property_enabled :: "property_value option \<Rightarrow> bool" where
  "variable_refresh_property_enabled v =
     (case v of None \<Rightarrow> False
      | Some p \<Rightarrow> pformat p = F32 \<and> length (pdata p) = 4 \<and> u32_from_le_bytes (pdata p) \<noteq> 0)"

definition format_from_protocol :: "u8 \<Rightarrow> property_format option" where
  "format_from_protocol v =
     (if v = 8 then Some F8 else if v = 16 then Some F16 else if v = 32 then Some F32 else None)"

fun format_bytes :: "property_format \<Rightarrow> nat" where
  "format_bytes F8 = 1"
| "format_bytes F16 = 2"
| "format_bytes F32 = 4"

fun format_protocol_value :: "property_format \<Rightarrow> u8" where
  "format_protocol_value F8 = 8"
| "format_protocol_value F16 = 16"
| "format_protocol_value F32 = 32"

datatype change_mode = Replace | Prepend | Append

definition mode_from_protocol :: "u8 \<Rightarrow> change_mode option" where
  "mode_from_protocol v =
     (if v = 0 then Some Replace else if v = 1 then Some Prepend else if v = 2 then Some Append else None)"

datatype change_property_error = BadValue | BadMatch | BadAlloc


record get_property_slice =
  stype :: u32
  sformat :: u8
  bytes_after :: u32
  svalue :: "u8 list"

text \<open>\<open>u64::checked_mul\<close>.\<close>

definition u64_checked_mul :: "nat \<Rightarrow> nat \<Rightarrow> nat option" where
  "u64_checked_mul a b = (if a * b < 2 ^ 64 then Some (a * b) else None)"

definition slice_for_get ::
  "property_value option \<Rightarrow> u32 \<Rightarrow> u32 \<Rightarrow> u32 \<Rightarrow> change_property_error + get_property_slice" where
  "slice_for_get property requested_type long_offset long_length =
     (case property of
        None \<Rightarrow> Inr \<lparr>stype = 0, sformat = 0, bytes_after = 0, svalue = []\<rparr>
      | Some p \<Rightarrow>
          (let total = length (pdata p);
               matches = requested_type = 0 \<or> requested_type = ptype p
           in if \<not> matches then
                Inr \<lparr>stype = ptype p, sformat = format_protocol_value (pformat p),
                     bytes_after = of_nat (total div format_bytes (pformat p)), svalue = []\<rparr>
              else (case u64_checked_mul (unat long_offset) 4 of
                 None \<Rightarrow> Inl BadValue
               | Some offset_bytes \<Rightarrow>
                   if offset_bytes > total then Inl BadValue
                   else (let remaining = total - offset_bytes
                         in case u64_checked_mul (unat long_length) 4 of
                              None \<Rightarrow> Inl BadValue
                            | Some want_bytes \<Rightarrow>
                                (let len0 = min remaining want_bytes;
                                     len = len0 - len0 mod format_bytes (pformat p)
                                 in Inr \<lparr>stype = ptype p, sformat = format_protocol_value (pformat p),
                                         bytes_after = of_nat (remaining - len),
                                         svalue = take len (drop offset_bytes (pdata p))\<rparr>)))))"

section \<open>Well-formed values\<close>

text \<open>A value holds whole items of its format and respects the size limit.\<close>

definition property_ok :: "property_value \<Rightarrow> bool" where
  "property_ok p \<longleftrightarrow>
     length (pdata p) mod format_bytes (pformat p) = 0 \<and> length (pdata p) \<le> MAX_PROPERTY_BYTES"

lemma format_bytes_dvd_4: "4 mod format_bytes f = 0" "0 < format_bytes f"
  by (cases f; simp)+

lemma mult4_format: "4 * n mod format_bytes f = 0"
  by (cases f) (simp_all add: mult_2 mod_eq_0_iff_dvd)

lemma u64_checked_mul_u32 [simp]: "u64_checked_mul (unat (n :: u32)) 4 = Some (4 * unat n)"
  using unsigned_less [of n, where 'a = nat] by (simp add: u64_checked_mul_def mult.commute)

lemma unat_u32_id: "n < 2 ^ 32 \<Longrightarrow> unat (of_nat n :: u32) = n"
  by (simp add: unat_of_nat take_bit_nat_eq_self)

lemma property_length_u32: "property_ok p \<Longrightarrow> length (pdata p) < 2 ^ 32"
  by (simp add: property_ok_def MAX_PROPERTY_BYTES_def)

text \<open>A reply within range: what it carries, and the rest it announces.\<close>

lemma slice_in_range:
  assumes "property_ok p" and "t = 0 \<or> t = ptype p" and "4 * unat off \<le> length (pdata p)"
  shows "slice_for_get (Some p) t off n =
    Inr \<lparr>stype = ptype p, sformat = format_protocol_value (pformat p),
         bytes_after = of_nat (length (pdata p) - 4 * unat off - min (length (pdata p) - 4 * unat off) (4 * unat n)),
         svalue = take (4 * unat n) (drop (4 * unat off) (pdata p))\<rparr>"
proof -
  let ?rem = "length (pdata p) - 4 * unat off"
  have "?rem mod format_bytes (pformat p) = 0"
    using assms(1) mult4_format [of "unat off" "pformat p"]
    by (simp add: property_ok_def mod_eq_0_iff_dvd dvd_diff_nat)
  then have "min ?rem (4 * unat n) mod format_bytes (pformat p) = 0"
    using mult4_format [of "unat n" "pformat p"] by (simp add: min_def)
  then show ?thesis using assms(2,3) by (auto simp: slice_for_get_def Let_def min_def)
qed

lemma take_drop_chunks:
  "concat (map (\<lambda>i. take n (drop (n * i) xs)) [0..<m]) = take (n * m) xs"
proof (induction m)
  case (Suc m)
  then show ?case using take_add [of "n * m" n xs] by (simp add: algebra_simps)
qed simp

section \<open>Properties\<close>



text \<open>
  C4. A client that reads a property in pieces of \<open>n\<close> longs, at offsets \<open>0, n, 2n, ...\<close>, gets
  every byte once and in order: the pieces concatenate to the value, and the last one leaves
  nothing after it.
\<close>

theorem get_property_chunks:
  assumes "property_ok p" and "t = 0 \<or> t = ptype p" and "0 < n" and "m * n < 2 ^ 32"
    and "4 * n * (m - 1) \<le> length (pdata p)" and "length (pdata p) \<le> 4 * n * m"
  shows "concat (map (\<lambda>i. case slice_for_get (Some p) t (of_nat (n * i)) (of_nat n) of
            Inr s \<Rightarrow> svalue s | Inl _ \<Rightarrow> []) [0..<m]) = pdata p
    \<and> (0 < m \<longrightarrow> (\<exists>s. slice_for_get (Some p) t (of_nat (n * (m - 1))) (of_nat n) = Inr s \<and> bytes_after s = 0))"
proof -
  have n: "0 < m \<Longrightarrow> unat (of_nat n :: u32) = n" 
    using assms(4) by (intro unat_u32_id) (cases m; simp)
  have off: "unat (of_nat (n * i) :: u32) = n * i" "4 * (n * i) \<le> length (pdata p)" if "i < m" for i
  proof -
    have le: "n * i \<le> n * (m - 1)" using that by (intro mult_le_mono2) simp
    then have "n * i \<le> m * n" by (metis diff_le_self le_trans mult.commute mult_le_mono2)
    from le_less_trans [OF this assms(4)]
    show "unat (of_nat (n * i) :: u32) = n * i" by (rule unat_u32_id)
    show "4 * (n * i) \<le> length (pdata p)" 
      using mult_le_mono2 [OF le, of 4] assms(5) by (simp only: mult.assoc)
  qed
  have slice: "slice_for_get (Some p) t (of_nat (n * i)) (of_nat n) =
      Inr \<lparr>stype = ptype p, sformat = format_protocol_value (pformat p),
         bytes_after = of_nat (length (pdata p) - 4 * (n * i) - min (length (pdata p) - 4 * (n * i)) (4 * n)),
         svalue = take (4 * n) (drop (4 * (n * i)) (pdata p))\<rparr>" if "i < m" for i
    using slice_in_range [of p t "of_nat (n * i)" "of_nat n"] assms(1,2) off [OF that] n that by simp
  have "map (\<lambda>i. case slice_for_get (Some p) t (of_nat (n * i)) (of_nat n) of Inr s \<Rightarrow> svalue s | Inl _ \<Rightarrow> []) [0..<m]
      = map (\<lambda>i. take (4 * n) (drop (4 * n * i) (pdata p))) [0..<m]"
    by (intro map_cong) (auto simp: slice mult.assoc simp del: of_nat_mult)
  then have "concat (map (\<lambda>i. case slice_for_get (Some p) t (of_nat (n * i)) (of_nat n) of
      Inr s \<Rightarrow> svalue s | Inl _ \<Rightarrow> []) [0..<m]) = pdata p"
    using assms(6) by (simp only: take_drop_chunks) simp
  moreover have "\<exists>s. slice_for_get (Some p) t (of_nat (n * (m - 1))) (of_nat n) = Inr s \<and> bytes_after s = 0" if "0 < m"
  proof -
    have "length (pdata p) - 4 * (n * (m - 1)) \<le> 4 * n"
      using assms(6) that by (cases m) (simp_all add: algebra_simps)
    then show ?thesis using slice [of "m - 1"] that by (simp del: of_nat_mult)
  qed
  ultimately show ?thesis by blast
qed

theorem get_property_chunks_witness:
  "let p = \<lparr>ptype = 31, pformat = F8, pdata = [1, 2, 3, 4, 5, 6, 7, 8, 9]\<rparr> in
   concat (map (\<lambda>i. case slice_for_get (Some p) 0 (of_nat (1 * i)) (of_nat 1) of
     Inr s \<Rightarrow> svalue s | Inl _ \<Rightarrow> []) [0..<3]) = pdata p"
  using get_property_chunks [of "\<lparr>ptype = 31, pformat = F8, pdata = [1, 2, 3, 4, 5, 6, 7, 8, 9]\<rparr>" 0 1 3]
  by (simp add: property_ok_def MAX_PROPERTY_BYTES_def Let_def)

end
