(* ===== verification/Gc_Types.thy ===== *)
theory Gc_Types
  imports Prelude
begin

text \<open>
  Graphics contexts as data: the component values of \<open>crates/yserver-protocol/src/x11/gc.rs\<close> and
  \<open>crates/yserver-core/src/backend/params.rs\<close> with their wire encodings, the \<open>Gc\<close> resource of
  \<open>resources/gc.rs\<close>, the requests that change it and the draw state it resolves to.

  \<open>CreateGcRequest\<close> and \<open>GcChange\<close> repeat the slots of \<open>GcChangeView\<close>; here they contain one
  record of these slots.
\<close>

section \<open>Component values\<close>

datatype line_style = Line_Solid | OnOffDash | DoubleDash

definition line_style_from_protocol :: "u8 \<Rightarrow> line_style" where
  "line_style_from_protocol v = (if v = 1 then OnOffDash else if v = 2 then DoubleDash else Line_Solid)"

fun line_style_value :: "line_style \<Rightarrow> u8" where
  "line_style_value Line_Solid = 0"
| "line_style_value OnOffDash = 1"
| "line_style_value DoubleDash = 2"

datatype cap_style = NotLast | Butt | Cap_Round | Projecting

definition cap_style_from_protocol :: "u8 \<Rightarrow> cap_style" where
  "cap_style_from_protocol v =
     (if v = 0 then NotLast else if v = 2 then Cap_Round else if v = 3 then Projecting else Butt)"

fun cap_style_value :: "cap_style \<Rightarrow> u8" where
  "cap_style_value NotLast = 0"
| "cap_style_value Butt = 1"
| "cap_style_value Cap_Round = 2"
| "cap_style_value Projecting = 3"

datatype join_style = Miter | Join_Round | Bevel

definition join_style_from_protocol :: "u8 \<Rightarrow> join_style" where
  "join_style_from_protocol v = (if v = 1 then Join_Round else if v = 2 then Bevel else Miter)"

fun join_style_value :: "join_style \<Rightarrow> u8" where
  "join_style_value Miter = 0"
| "join_style_value Join_Round = 1"
| "join_style_value Bevel = 2"

datatype gc_function = Clear | And | AndReverse | Copy | AndInverted | NoOp | Xor | Or | Nor | Equiv
  | Invert | OrReverse | CopyInverted | OrInverted | Nand | Set

definition gc_function_from_protocol :: "u8 \<Rightarrow> gc_function" where
  "gc_function_from_protocol v =
     (if v = 0 then Clear else if v = 1 then And else if v = 2 then AndReverse
      else if v = 4 then AndInverted else if v = 5 then NoOp else if v = 6 then Xor else if v = 7 then Or
      else if v = 8 then Nor else if v = 9 then Equiv else if v = 10 then Invert
      else if v = 11 then OrReverse else if v = 12 then CopyInverted else if v = 13 then OrInverted
      else if v = 14 then Nand else if v = 15 then Set else Copy)"

fun gc_function_value :: "gc_function \<Rightarrow> u8" where
  "gc_function_value Clear = 0"
| "gc_function_value And = 1"
| "gc_function_value AndReverse = 2"
| "gc_function_value Copy = 3"
| "gc_function_value AndInverted = 4"
| "gc_function_value NoOp = 5"
| "gc_function_value Xor = 6"
| "gc_function_value Or = 7"
| "gc_function_value Nor = 8"
| "gc_function_value Equiv = 9"
| "gc_function_value Invert = 10"
| "gc_function_value OrReverse = 11"
| "gc_function_value CopyInverted = 12"
| "gc_function_value OrInverted = 13"
| "gc_function_value Nand = 14"
| "gc_function_value Set = 15"

datatype arc_mode = Chord | PieSlice

definition arc_mode_from_protocol :: "u8 \<Rightarrow> arc_mode" where
  "arc_mode_from_protocol v = (if v = 0 then Chord else PieSlice)"

fun arc_mode_value :: "arc_mode \<Rightarrow> u8" where
  "arc_mode_value Chord = 0"
| "arc_mode_value PieSlice = 1"

datatype fill_style = Solid | Tiled | Stippled | OpaqueStippled

definition fill_style_from_protocol :: "u8 \<Rightarrow> fill_style" where
  "fill_style_from_protocol v =
     (if v = 1 then Tiled else if v = 2 then Stippled else if v = 3 then OpaqueStippled else Solid)"

fun fill_style_value :: "fill_style \<Rightarrow> u8" where
  "fill_style_value Solid = 0"
| "fill_style_value Tiled = 1"
| "fill_style_value Stippled = 2"
| "fill_style_value OpaqueStippled = 3"

datatype fill_rule = EvenOdd | Winding

definition fill_rule_from_protocol :: "u8 \<Rightarrow> fill_rule" where
  "fill_rule_from_protocol v = (if v = 1 then Winding else EvenOdd)"

fun fill_rule_value :: "fill_rule \<Rightarrow> u8" where
  "fill_rule_value EvenOdd = 0"
| "fill_rule_value Winding = 1"

datatype subwindow_mode = ClipByChildren | IncludeInferiors

definition subwindow_mode_from_protocol :: "u8 \<Rightarrow> subwindow_mode" where
  "subwindow_mode_from_protocol v = (if v = 1 then IncludeInferiors else ClipByChildren)"

fun subwindow_mode_value :: "subwindow_mode \<Rightarrow> u8" where
  "subwindow_mode_value ClipByChildren = 0"
| "subwindow_mode_value IncludeInferiors = 1"

lemma gc_values_round_trip:
  "line_style_from_protocol (line_style_value a) = a"
  "cap_style_from_protocol (cap_style_value b) = b"
  "join_style_from_protocol (join_style_value c) = c"
  "gc_function_from_protocol (gc_function_value d) = d"
  "arc_mode_from_protocol (arc_mode_value e) = e"
  "fill_style_from_protocol (fill_style_value f) = f"
  "fill_rule_from_protocol (fill_rule_value g) = g"
  "subwindow_mode_from_protocol (subwindow_mode_value h) = h"
  unfolding line_style_from_protocol_def cap_style_from_protocol_def join_style_from_protocol_def
    gc_function_from_protocol_def arc_mode_from_protocol_def fill_style_from_protocol_def
    fill_rule_from_protocol_def subwindow_mode_from_protocol_def
  subgoal by (cases a) simp_all
  subgoal by (cases b) simp_all
  subgoal by (cases c) simp_all
  subgoal by (cases d) simp_all
  subgoal by (cases e) simp_all
  subgoal by (cases f) simp_all
  subgoal by (cases g) simp_all
  subgoal by (cases h) simp_all
  done

section \<open>The resource\<close>

record clip_rectangles =
  clip_ordering :: u8
  x_origin :: i16
  y_origin :: i16
  rectangles :: "u8 list"

text \<open>\<open>FontRef\<close> is the number of the font object it names.\<close>

type_synonym font_ref = nat

record gc =
  gc_id :: u32
  gc_drawable :: u32
  gc_depth :: u8
  foreground :: u32
  background :: u32
  line_width :: u16
  gc_font :: "font_ref option"
  clip_rectangles :: "clip_rectangles option"
  clip_pixmap :: "u32 option"
  clip_pixmap_host_xid :: "u32 option"
  clip_x_origin :: i16
  clip_y_origin :: i16
  fill_style :: fill_style
  tile :: "u32 option"
  stipple :: "u32 option"
  tile_host_xid :: "u32 option"
  stipple_host_xid :: "u32 option"
  tile_x_origin :: i16
  tile_y_origin :: i16
  line_style :: line_style
  cap_style :: cap_style
  join_style :: join_style
  fill_rule :: fill_rule
  gc_function :: gc_function
  plane_mask :: u32
  subwindow_mode :: subwindow_mode
  graphics_exposures :: bool
  dashes :: "u8 list"
  dash_offset :: i16
  arc_mode :: arc_mode
  gc_owner :: u32

definition with_defaults :: "u32 \<Rightarrow> u32 \<Rightarrow> u32 \<Rightarrow> gc" where
  "with_defaults i drawable own = \<lparr>gc_id = i, gc_drawable = drawable, gc_depth = 0, foreground = 0,
     background = 0x00ffffff, line_width = 0, gc_font = None, clip_rectangles = None, clip_pixmap = None,
     clip_pixmap_host_xid = None, clip_x_origin = 0, clip_y_origin = 0, fill_style = Solid, tile = None,
     stipple = None, tile_host_xid = None, stipple_host_xid = None, tile_x_origin = 0, tile_y_origin = 0,
     line_style = Line_Solid, cap_style = Butt, join_style = Miter, fill_rule = EvenOdd,
     gc_function = Copy, plane_mask = - 1, subwindow_mode = ClipByChildren, graphics_exposures = True,
     dashes = [4, 4], dash_offset = 0, arc_mode = PieSlice, gc_owner = own\<rparr>"

definition held_host_pixmaps :: "gc \<Rightarrow> u32 option list" where
  "held_host_pixmaps g = [clip_pixmap_host_xid g, tile_host_xid g, stipple_host_xid g]"

text \<open>\<open>into_iter().flatten()\<close> and \<open>sort\<close> followed by \<open>dedup\<close>.\<close>

definition flatten :: "'a option list \<Rightarrow> 'a list" where
  "flatten xs = List.map_filter (\<lambda>x. x) xs"

definition sort_dedup :: "u32 list \<Rightarrow> u32 list" where
  "sort_dedup xs = remdups_adj (sort xs)"

definition displaced :: "u32 option list \<Rightarrow> u32 option list \<Rightarrow> u32 list" where
  "displaced before after = sort_dedup (filter (\<lambda>h. Some h \<notin> set after) (flatten before))"

lemma set_flatten [simp]: "x \<in> set (flatten xs) \<longleftrightarrow> Some x \<in> set xs"
  by (force simp: flatten_def List.map_filter_def)

lemma set_sort_dedup [simp]: "set (sort_dedup xs) = set xs"
  by (simp add: sort_dedup_def)

lemma sorted_distinct_remdups_adj: "sorted xs \<Longrightarrow> distinct (remdups_adj (xs :: 'a :: linorder list))"
  by (induction xs rule: remdups_adj.induct) (auto simp: order.antisym)

lemma distinct_sort_dedup [simp]: "distinct (sort_dedup xs)"
  by (simp add: sort_dedup_def sorted_distinct_remdups_adj)

lemma sorted_sort_dedup [simp]: "sorted (sort_dedup xs)"
  by (simp add: sort_dedup_def sorted_remdups_adj)

lemma displaced_iff: "h \<in> set (displaced before after) \<longleftrightarrow> Some h \<in> set before \<and> Some h \<notin> set after"
  by (auto simp: displaced_def)

section \<open>Requests\<close>

record gc_change_view =
  v_function :: "u8 option"
  v_plane_mask :: "u32 option"
  v_foreground :: "u32 option"
  v_background :: "u32 option"
  v_line_width :: "u16 option"
  v_line_style :: "u8 option"
  v_cap_style :: "u8 option"
  v_join_style :: "u8 option"
  v_fill_style :: "u8 option"
  v_fill_rule :: "u8 option"
  v_tile :: "u32 option"
  v_stipple :: "u32 option"
  v_tile_x_origin :: "i16 option"
  v_tile_y_origin :: "i16 option"
  v_subwindow_mode :: "u8 option"
  v_graphics_exposures :: "bool option"
  v_clip_x_origin :: "i16 option"
  v_clip_y_origin :: "i16 option"
  v_clip_mask :: "u32 option option"
  v_dash_offset :: "u16 option"
  v_dashes :: "u8 option"
  v_arc_mode :: "u8 option"

record create_gc_request =
  cg_gc :: u32
  cg_drawable :: u32
  cg_font :: "u32 option"
  cg_values :: gc_change_view

record gc_change =
  ch_gc :: u32
  ch_font :: "u32 option"
  ch_values :: gc_change_view

record set_clip_rectangles_request =
  sc_gc :: u32
  sc_clip :: clip_rectangles

section \<open>Resolved state\<close>

datatype gc_clip_state = Clip_None | Clip_Rectangles clip_rectangles | Clip_Pixmap u32 i16 i16

datatype gc_fill_state = Fill_Solid | Fill_Tiled u32 i16 i16

datatype clip_state = Unclipped | Rectangles "i16 \<times> i16" clip_rectangles | Masked "i16 \<times> i16" u32

datatype fill_state = State_Solid | State_Tiled u32 "i16 \<times> i16" | State_Stippled u32 "i16 \<times> i16"
  | State_OpaqueStippled u32 "i16 \<times> i16"

record draw_state =
  ds_foreground :: u32
  ds_background :: u32
  ds_line_width :: u16
  ds_line_style :: line_style
  ds_cap_style :: cap_style
  ds_join_style :: join_style
  ds_fill_style :: fill_style
  ds_fill_rule :: fill_rule
  ds_function :: gc_function
  ds_plane_mask :: u32
  ds_font :: "u32 option"
  ds_clip :: clip_state
  ds_fill :: fill_state
  ds_subwindow_mode :: subwindow_mode
  ds_graphics_exposures :: bool
  ds_dashes :: "u8 list"
  ds_dash_offset :: i16
  ds_arc_mode :: arc_mode

end
