(* ===== verification/Resources.thy ===== *)
theory Resources
  imports Properties Gc_Types
begin

text \<open>
  The resource table of \<open>crates/yserver-core/src/resources\<close>: the data types of
  \<open>types.rs\<close>, \<open>window.rs\<close>, \<open>pixmap_props.rs\<close> and \<open>picture_font_cursor.rs\<close>, and the table itself
  (\<open>mod.rs\<close>) with its initial state. A \<open>HashMap\<close> keyed by resource ids is a partial function
  on \<^typ>\<open>u32\<close>; backend handles are their raw numbers, which are not zero. The counters of the
  reference-counted objects (\<open>usize\<close>, \<open>u32\<close>) and the \<open>u64\<close> number of the next font object are
  natural numbers: they count resource ids, of which there are fewer than \<open>2 ^ 32\<close>, and
  \<open>OpenFont\<close> requests.
\<close>

abbreviation SERVER_OWNER :: u32 where "SERVER_OWNER \<equiv> 0"
abbreviation ROOT_WINDOW :: u32 where "ROOT_WINDOW \<equiv> 0x100"
abbreviation ROOT_COLORMAP :: u32 where "ROOT_COLORMAP \<equiv> 0x101"
abbreviation ROOT_VISUAL :: u32 where "ROOT_VISUAL \<equiv> 0x102"
abbreviation ROOT_DEFAULT_BACKGROUND_PIXEL :: u32 where "ROOT_DEFAULT_BACKGROUND_PIXEL \<equiv> 0x00505050"
abbreviation COMPOSITE_OVERLAY_WINDOW :: u32 where "COMPOSITE_OVERLAY_WINDOW \<equiv> 0x103"
abbreviation ARGB_VISUAL :: u32 where "ARGB_VISUAL \<equiv> 0x103"
abbreviation ARGB_COLORMAP :: u32 where "ARGB_COLORMAP \<equiv> 0x104"
abbreviation GLMARK_VISUAL :: u32 where "GLMARK_VISUAL \<equiv> 0x105"
abbreviation DEFAULT_FONT :: u32 where "DEFAULT_FONT \<equiv> 0x10a"
abbreviation VISUAL_CLASS_TRUE_COLOR :: u8 where "VISUAL_CLASS_TRUE_COLOR \<equiv> 4"
abbreviation u32_max :: u32 where "u32_max \<equiv> - 1"

section \<open>Windows\<close>

datatype map_state = Unmapped | Unviewable | Viewable

fun map_state_protocol_value :: "map_state \<Rightarrow> u8" where
  "map_state_protocol_value Unmapped = 0"
| "map_state_protocol_value Unviewable = 1"
| "map_state_protocol_value Viewable = 2"

datatype window_class = CopyFromParent | InputOutput | InputOnly | Other u16

definition class_from_protocol :: "u16 \<Rightarrow> window_class" where
  "class_from_protocol value =
     (if value = 0 then CopyFromParent else if value = 1 then InputOutput
      else if value = 2 then InputOnly else Other value)"

fun class_protocol_value :: "window_class \<Rightarrow> u16" where
  "class_protocol_value CopyFromParent = 0"
| "class_protocol_value InputOutput = 1"
| "class_protocol_value InputOnly = 2"
| "class_protocol_value (Other value) = value"

datatype border_source = Pixel u32 | Pixmap (border_id: u32) (border_host: "u32 option")

record named_composite_pixmap =
  client_pixmap :: u32
  named_host_pixmap :: u32
  named_width :: u16
  named_height :: u16

record redirected_backing =
  host_pixmap :: u32
  backing_width :: u16
  backing_height :: u16
  backing_depth :: u8

record window =
  wid :: u32
  parent :: u32
  children :: "u32 list"
  wx :: i16
  wy :: i16
  wwidth :: u16
  wheight :: u16
  border_width :: u16
  wdepth :: u8
  visual :: u32
  wclass :: window_class
  map_state :: map_state
  background_pixel :: u32
  background_pixmap :: "u32 option"
  background_none :: bool
  background_pixmap_host_xid :: "u32 option"
  border :: border_source
  override_redirect :: bool
  bit_gravity :: u8
  win_gravity :: u8
  backing_store :: u8
  backing_planes :: u32
  backing_pixel :: u32
  save_under :: bool
  do_not_propagate_mask :: u16
  colormap :: u32
  cursor :: "u32 option"
  cursor_host :: "u32 option"
  owner :: u32
  properties :: "u32 \<rightharpoonup> property_value"
  host_xid :: "u32 option"
  composite_named_pixmaps :: "named_composite_pixmap list"
  redirected_backing :: "redirected_backing option"

definition placeholder :: "u32 \<Rightarrow> window" where
  "placeholder i = \<lparr>wid = i, parent = ROOT_WINDOW, children = [], wx = 0, wy = 0, wwidth = 1, wheight = 1,
     border_width = 0, wdepth = 24, visual = ROOT_VISUAL, wclass = InputOutput, map_state = Unmapped,
     background_pixel = 0x00ffffff, background_pixmap = None, background_none = False,
     background_pixmap_host_xid = None, border = Pixel 0, override_redirect = False, bit_gravity = 0,
     win_gravity = 1, backing_store = 0, backing_planes = u32_max, backing_pixel = 0, save_under = False,
     do_not_propagate_mask = 0, colormap = ROOT_COLORMAP, cursor = None, cursor_host = None,
     owner = SERVER_OWNER, properties = (\<lambda>_. None), host_xid = None, composite_named_pixmaps = [],
     redirected_backing = None\<rparr>"

definition root_window :: window where
  "root_window = \<lparr>wid = ROOT_WINDOW, parent = ROOT_WINDOW, children = [], wx = 0, wy = 0,
     wwidth = 800, wheight = 600, border_width = 0, wdepth = 24, visual = ROOT_VISUAL,
     wclass = InputOutput, map_state = Viewable, background_pixel = ROOT_DEFAULT_BACKGROUND_PIXEL,
     background_pixmap = None, background_none = False, background_pixmap_host_xid = None,
     border = Pixel 0, override_redirect = False, bit_gravity = 0, win_gravity = 1, backing_store = 0,
     backing_planes = u32_max, backing_pixel = 0, save_under = False, do_not_propagate_mask = 0,
     colormap = ROOT_COLORMAP, cursor = None, cursor_host = None, owner = SERVER_OWNER,
     properties = (\<lambda>_. None), host_xid = None, composite_named_pixmaps = [], redirected_backing = None\<rparr>"

section \<open>The other resources and the table\<close>

record pixmap =
  pm_id :: u32
  pm_drawable :: u32
  pm_width :: u16
  pm_height :: u16
  pm_depth :: u8
  pm_owner :: u32
  pm_host_xid :: "u32 option"
  composite_name :: bool

record cursor_res =
  cur_id :: u32
  cur_owner :: u32
  cur_host_xid :: "u32 option"
  name_atom :: "u32 option"
  anim :: bool

record glyphset_state =
  gs_client :: u32
  host_glyphset_xid :: u32

datatype picture_kind = Drawable | Sourceless

record picture_state =
  pic_client :: u32
  host_picture_xid :: "u32 option"
  host_owned_pixmap :: "u32 option"
  pic_kind :: picture_kind
  pic_drawable :: "u32 option"
  pic_window :: "u32 option"

record visual_res =
  vis_id :: u32
  vis_class :: u8
  vis_depth :: u8
  bits_per_rgb :: u8
  colormap_entries :: u16
  red_mask :: u32
  green_mask :: u32
  blue_mask :: u32
  alpha_mask :: u32
  host_visual_xid :: "u32 option"

record colormap_res =
  cm_id :: u32
  cm_visual :: u32
  host_colormap_xid :: "u32 option"
  cm_owner :: u32

record char_info =
  left_side_bearing :: i16
  right_side_bearing :: i16
  character_width :: i16
  ascent :: i16
  descent :: i16
  ci_attributes :: u16

datatype font_prop_value = Card u32 | Int int | Str string

record font_metrics =
  min_bounds :: char_info
  max_bounds :: char_info
  min_char_or_byte2 :: u16
  max_char_or_byte2 :: u16
  default_char :: u16
  draw_direction :: u8
  min_byte1 :: u8
  max_byte1 :: u8
  all_chars_exist :: bool
  font_ascent :: i16
  font_descent :: i16
  fm_properties :: "u8 list"
  named_properties :: "(string \<times> font_prop_value) list"
  char_infos :: "char_info list"

record font =
  font_id :: u32
  font_name :: string
  font_host_xid :: u32
  metrics :: font_metrics
  font_owner :: u32

record font_object =
  fo_font :: font
  fo_refs :: nat

record resource_table =
  windows :: "u32 \<rightharpoonup> window"
  pixmaps :: "u32 \<rightharpoonup> pixmap"
  gcs :: "u32 \<rightharpoonup> gc"
  fonts :: "u32 \<rightharpoonup> font_ref"
  font_objects :: "font_ref \<rightharpoonup> font_object"
  next_font_ref :: font_ref
  default_font :: "font_ref option"
  released_fonts :: "u32 list"
  cursors :: "u32 \<rightharpoonup> cursor_res"
  cursor_host_names :: "u32 \<rightharpoonup> u32"
  pictures :: "u32 \<rightharpoonup> picture_state"
  glyphsets :: "u32 \<rightharpoonup> glyphset_state"
  host_glyphset_refcounts :: "u32 \<rightharpoonup> nat"
  visuals :: "u32 \<rightharpoonup> visual_res"
  colormaps :: "u32 \<rightharpoonup> colormap_res"
  dri3_syncobjs :: "u32 \<rightharpoonup> u32"
  deferred_name_refs :: "u32 set"
  dropped_cursor_hosts :: "u32 list"

definition true_color_visual :: "u32 \<Rightarrow> u8 \<Rightarrow> u32 \<Rightarrow> visual_res" where
  "true_color_visual i depth alpha = \<lparr>vis_id = i, vis_class = VISUAL_CLASS_TRUE_COLOR, vis_depth = depth,
     bits_per_rgb = 8, colormap_entries = 256, red_mask = 0x00ff0000, green_mask = 0x0000ff00,
     blue_mask = 0x000000ff, alpha_mask = alpha, host_visual_xid = None\<rparr>"

definition resource_table_default :: resource_table where
  "resource_table_default = \<lparr>windows = [ROOT_WINDOW \<mapsto> root_window], pixmaps = Map.empty, gcs = Map.empty,
     fonts = Map.empty, font_objects = Map.empty, next_font_ref = 1, default_font = None, released_fonts = [],
     cursors = Map.empty, cursor_host_names = Map.empty, pictures = Map.empty, glyphsets = Map.empty,
     host_glyphset_refcounts = Map.empty,
     visuals = [ROOT_VISUAL \<mapsto> true_color_visual ROOT_VISUAL 24 0,
                ARGB_VISUAL \<mapsto> true_color_visual ARGB_VISUAL 32 0xff000000,
                GLMARK_VISUAL \<mapsto> true_color_visual GLMARK_VISUAL 24 0],
     colormaps = [ROOT_COLORMAP \<mapsto> \<lparr>cm_id = ROOT_COLORMAP, cm_visual = ROOT_VISUAL, host_colormap_xid = None, cm_owner = 0\<rparr>,
                  ARGB_COLORMAP \<mapsto> \<lparr>cm_id = ARGB_COLORMAP, cm_visual = ARGB_VISUAL, host_colormap_xid = None, cm_owner = 0\<rparr>],
     dri3_syncobjs = Map.empty, deferred_name_refs = {}, dropped_cursor_hosts = []\<rparr>"

section \<open>Viewability changes\<close>

record viewability_delta =
  became_viewable :: "u32 list"
  became_unviewable :: "u32 list"

definition delta_default :: viewability_delta where
  "delta_default = \<lparr>became_viewable = [], became_unviewable = []\<rparr>"

definition delta_is_empty :: "viewability_delta \<Rightarrow> bool" where
  "delta_is_empty d \<longleftrightarrow> became_viewable d = [] \<and> became_unviewable d = []"

definition delta_extend :: "viewability_delta \<Rightarrow> viewability_delta \<Rightarrow> viewability_delta" where
  "delta_extend d other =
     \<lparr>became_viewable = became_viewable d @ became_viewable other,
      became_unviewable = became_unviewable d @ became_unviewable other\<rparr>"

record map_transition =
  mapping_changed :: bool
  delta :: viewability_delta

definition transition_default :: map_transition where
  "transition_default = \<lparr>mapping_changed = False, delta = delta_default\<rparr>"

text \<open>
  \<open>if let Some(w) = self.windows.get_mut(&id) { ... }\<close>: change one window in place when it
  exists.
\<close>

definition modify_window :: "u32 \<Rightarrow> (window \<Rightarrow> window) \<Rightarrow> (u32 \<rightharpoonup> window) \<Rightarrow> (u32 \<rightharpoonup> window)" where
  "modify_window i f ws = (case ws i of None \<Rightarrow> ws | Some w \<Rightarrow> ws(i \<mapsto> f w))"

lemma modify_window_apply [tree_simps]:
  "modify_window i f ws k = (if k = i then map_option f (ws i) else ws k)"
  by (auto simp: modify_window_def split: option.splits)

lemma class_protocol_round_trip: "class_protocol_value (class_from_protocol v) = v"
  by (auto simp: class_from_protocol_def)

end
