(* ===== verification/Refcounts.thy ===== *)
theory Refcounts
  imports Machines
begin

text \<open>
  Reference counting, shared by fonts and glyph sets. A count map \<open>c\<close> tracks a use function \<open>u\<close>
  when it has an entry exactly for the keys in use, with the number of uses. The contract of
  \<open>refcounted\<close> is what the code's increment and decrement do to the counts; that a
  count stays exact, and that an object goes exactly with its last use, follows from it.
\<close>

definition tracks :: "('k \<rightharpoonup> nat) \<Rightarrow> ('k \<Rightarrow> nat) \<Rightarrow> bool" where
  "tracks c u \<longleftrightarrow> (\<forall>k. c k = (if u k = 0 then None else Some (u k)))"

lemma tracksD: "tracks c u \<Longrightarrow> c k = (if u k = 0 then None else Some (u k))"
  by (simp add: tracks_def)

lemma tracks_absent: "tracks c u \<Longrightarrow> c k = None \<longleftrightarrow> u k = 0"
  by (simp add: tracks_def)

locale refcounted =
  fixes count :: "'s \<Rightarrow> 'k \<rightharpoonup> nat" and inc :: "'s \<Rightarrow> 'k \<Rightarrow> 's" and dec :: "'s \<Rightarrow> 'k \<Rightarrow> 's"
  assumes count_inc: "count s k = Some n \<Longrightarrow> count (inc s k) = (count s)(k \<mapsto> Suc n)"
    and count_dec: "count s k = Some (Suc n) \<Longrightarrow>
      count (dec s k) = (if n = 0 then (count s)(k := None) else (count s)(k \<mapsto> n))"
begin

lemma inc_tracks: "tracks (count s) u \<Longrightarrow> u k \<noteq> 0 \<Longrightarrow> tracks (count (inc s k)) (u(k := Suc (u k)))"
  using count_inc [of s k "u k"] by (simp add: tracks_def)

lemma dec_tracks: "tracks (count s) u \<Longrightarrow> u k \<noteq> 0 \<Longrightarrow> tracks (count (dec s k)) (u(k := u k - 1))"
proof -
  assume t: "tracks (count s) u" and "u k \<noteq> 0"
  then obtain n where n: "u k = Suc n" by (cases "u k") auto
  then have "count s k = Some (Suc n)" using t by (simp add: tracks_def)
  from count_dec [OF this] show ?thesis using t n by (auto simp: tracks_def)
qed

lemma dec_frees_last: "tracks (count s) u \<Longrightarrow> u k \<noteq> 0 \<Longrightarrow> count (dec s k) k = None \<longleftrightarrow> u k = 1"
  using tracks_absent [OF dec_tracks, of s u k k] by auto

end

section \<open>Counting the entries of a map\<close>

text \<open>How many ids name \<open>k\<close>.\<close>

definition occ :: "(u32 \<rightharpoonup> 'k) \<Rightarrow> 'k \<Rightarrow> nat" where
  "occ m k = card {i. m i = Some k}"

definition opt_count :: "'k option \<Rightarrow> 'k \<Rightarrow> nat" where
  "opt_count v k = (if v = Some k then 1 else 0)"

lemma opt_count_simps [simp]:
  "opt_count None k = 0" "opt_count (Some j) k = (if j = k then 1 else 0)"
  by (simp_all add: opt_count_def)

lemma occ_empty [simp]: "occ Map.empty k = 0"
  by (simp add: occ_def)

lemma occ_split: "occ m k = occ (m(i := None)) k + opt_count (m i) k"
proof (cases "m i = Some k")
  case True
  then have "{j. m j = Some k} = insert i {j. (m(i := None)) j = Some k}" by auto
  then show ?thesis using True by (simp add: occ_def)
next
  case False
  then have "{j. m j = Some k} = {j. (m(i := None)) j = Some k}" by auto
  then show ?thesis using False by (simp add: occ_def opt_count_def)
qed

lemma occ_upd: "occ (m(i := v)) k + opt_count (m i) k = occ m k + opt_count v k"
  using occ_split [of m k i] occ_split [of "m(i := v)" k i] by simp

lemma occ_zero_iff: "occ m k = 0 \<longleftrightarrow> k \<notin> ran m"
  by (auto simp: occ_def ran_def)

end
