(* ===== verification/Fonts.thy ===== *)
theory Fonts
  imports Resources Refcounts
begin

text \<open>
  Fonts (\<open>resources/font.rs\<close>). A font object lives while a client id, a graphics context or the
  default-font slot refers to it; closing the id only drops one reference. \<open>font_users\<close> counts
  these references from the table itself, so that the counts kept in the objects can be
  compared with them.
\<close>

section \<open>Operations\<close>

definition ref_font :: "resource_table \<Rightarrow> font_ref \<Rightarrow> resource_table" where
  "ref_font t key =
     (case font_objects t key of
        None \<Rightarrow> t
      | Some ob \<Rightarrow> t\<lparr>font_objects := (font_objects t)(key \<mapsto> ob\<lparr>fo_refs := fo_refs ob + 1\<rparr>)\<rparr>)"

definition unref_font :: "resource_table \<Rightarrow> font_ref \<Rightarrow> resource_table" where
  "unref_font t key =
     (case font_objects t key of
        None \<Rightarrow> t
      | Some ob \<Rightarrow>
          let ob' = ob\<lparr>fo_refs := fo_refs ob - 1\<rparr> in
          if fo_refs ob' = 0
          then t\<lparr>font_objects := (font_objects t)(key := None),
                 released_fonts := released_fonts t @ [font_host_xid (fo_font ob')]\<rparr>
          else t\<lparr>font_objects := (font_objects t)(key \<mapsto> ob')\<rparr>)"

definition unref_opt :: "resource_table \<Rightarrow> font_ref option \<Rightarrow> resource_table" where
  "unref_opt t v = (case v of None \<Rightarrow> t | Some k \<Rightarrow> unref_font t k)"

definition ref_opt :: "resource_table \<Rightarrow> font_ref option \<Rightarrow> resource_table" where
  "ref_opt t v = (case v of None \<Rightarrow> t | Some k \<Rightarrow> ref_font t k)"

definition set_font_slot_default :: "resource_table \<Rightarrow> font_ref option \<Rightarrow> resource_table" where
  "set_font_slot_default t key =
     (let t1 = ref_opt t key in unref_opt (t1\<lparr>default_font := key\<rparr>) (default_font t1))"

definition install_font :: "resource_table \<Rightarrow> u32 \<Rightarrow> u32 \<Rightarrow> string \<Rightarrow> u32 \<Rightarrow> font_metrics \<Rightarrow> resource_table" where
  "install_font t own i nam host ms =
     (let key = next_font_ref t;
          f = \<lparr>font_id = i, font_name = nam, font_host_xid = host, metrics = ms, font_owner = own\<rparr>;
          t1 = t\<lparr>next_font_ref := next_font_ref t + 1,
                 font_objects := (font_objects t)(key \<mapsto> \<lparr>fo_font = f, fo_refs = 1\<rparr>)\<rparr>;
          old = fonts t1 i;
          t2 = unref_opt (t1\<lparr>fonts := (fonts t1)(i \<mapsto> key)\<rparr>) old
      in if own = SERVER_OWNER \<and> i = DEFAULT_FONT then set_font_slot_default t2 (Some key) else t2)"

definition close_font :: "resource_table \<Rightarrow> u32 \<Rightarrow> resource_table \<times> bool" where
  "close_font t i =
     (case fonts t i of
        None \<Rightarrow> (t, False)
      | Some key \<Rightarrow> (unref_font (t\<lparr>fonts := (fonts t)(i := None)\<rparr>) key, True))"

definition take_released_fonts :: "resource_table \<Rightarrow> resource_table \<times> u32 list" where
  "take_released_fonts t = (t\<lparr>released_fonts := []\<rparr>, released_fonts t)"

text \<open>\<open>keys\<close> is the order in which \<open>drain\<close> visits the font objects.\<close>

definition take_all_fonts :: "resource_table \<Rightarrow> font_ref list \<Rightarrow> resource_table \<times> u32 list" where
  "take_all_fonts t keys =
     (t\<lparr>fonts := Map.empty, default_font := None,
        gcs := (\<lambda>g. map_option (\<lambda>x. x\<lparr>gc_font := None\<rparr>) (gcs t g)),
        font_objects := Map.empty, released_fonts := []\<rparr>,
      released_fonts t @ flatten (map (\<lambda>k. map_option (\<lambda>ob. font_host_xid (fo_font ob)) (font_objects t k)) keys))"

definition set_gc_font_ref :: "resource_table \<Rightarrow> u32 \<Rightarrow> font_ref option \<Rightarrow> resource_table" where
  "set_gc_font_ref t g v =
     (case gcs t g of
        None \<Rightarrow> t
      | Some x \<Rightarrow>
          if gc_font x = v then t
          else unref_opt (ref_opt (t\<lparr>gcs := (gcs t)(g \<mapsto> x\<lparr>gc_font := v\<rparr>)\<rparr>) v) (gc_font x))"

definition set_gc_font :: "resource_table \<Rightarrow> u32 \<Rightarrow> u32 \<Rightarrow> resource_table" where
  "set_gc_font t g i = (case fonts t i of None \<Rightarrow> t | Some key \<Rightarrow> set_gc_font_ref t g (Some key))"

definition font_object_of :: "resource_table \<Rightarrow> font_ref \<Rightarrow> font option" where
  "font_object_of t key = map_option fo_font (font_objects t key)"

definition font_of :: "resource_table \<Rightarrow> u32 \<Rightarrow> font option" where
  "font_of t i = Option.bind (fonts t i) (font_object_of t)"

definition fontable :: "resource_table \<Rightarrow> u32 \<Rightarrow> font option" where
  "fontable t i =
     (case font_of t i of
        Some f \<Rightarrow> Some f
      | None \<Rightarrow> Option.bind (Option.bind (gcs t i) gc_font) (font_object_of t))"

text \<open>\<open>keys\<close> is the order of the ids in \<open>fonts\<close>.\<close>

definition font_ids_owned_by :: "resource_table \<Rightarrow> u32 list \<Rightarrow> u32 \<Rightarrow> u32 list" where
  "font_ids_owned_by t keys own =
     filter (\<lambda>i. case font_of t i of None \<Rightarrow> False | Some f \<Rightarrow> font_owner f = own) keys"

definition live_font_count :: "resource_table \<Rightarrow> nat" where
  "live_font_count t = card (dom (font_objects t))"

section \<open>Counts and users\<close>

definition font_count :: "resource_table \<Rightarrow> font_ref \<rightharpoonup> nat" where
  "font_count t = (\<lambda>k. map_option fo_refs (font_objects t k))"

definition gc_fonts :: "resource_table \<Rightarrow> u32 \<rightharpoonup> font_ref" where
  "gc_fonts t = (\<lambda>g. Option.bind (gcs t g) gc_font)"

definition font_users :: "resource_table \<Rightarrow> font_ref \<Rightarrow> nat" where
  "font_users t k = occ (fonts t) k + occ (gc_fonts t) k + opt_count (default_font t) k"

interpretation font_refs: refcounted font_count ref_font unref_font
  by unfold_locales
    (auto simp: font_count_def ref_font_def unref_font_def Let_def fun_eq_iff split: option.splits)

text \<open>
  The references of the table and those in flight, \<open>P\<close>, are what the objects count: an
  operation takes a reference out of a slot before it drops it.
\<close>

definition fonts_with :: "font_ref multiset \<Rightarrow> resource_table \<Rightarrow> bool" where
  "fonts_with P t \<longleftrightarrow> tracks (font_count t) (\<lambda>k. font_users t k + count P k)
     \<and> finite (dom (font_objects t)) \<and> (\<forall>k \<in> dom (font_objects t). k < next_font_ref t)"

abbreviation fonts_ok :: "resource_table \<Rightarrow> bool" where
  "fonts_ok \<equiv> fonts_with {#}"

definition opt_mset :: "'a option \<Rightarrow> 'a multiset" where
  "opt_mset v = (case v of None \<Rightarrow> {#} | Some k \<Rightarrow> {#k#})"

lemma count_opt_mset [simp]: "count (opt_mset v) k = opt_count v k"
  by (cases v) (auto simp: opt_mset_def)

lemma ref_unref_frame [simp]:
  "fonts (ref_font t k) = fonts t" "gcs (ref_font t k) = gcs t" "default_font (ref_font t k) = default_font t"
  "next_font_ref (ref_font t k) = next_font_ref t" "released_fonts (ref_font t k) = released_fonts t"
  "fonts (unref_font t k) = fonts t" "gcs (unref_font t k) = gcs t" "default_font (unref_font t k) = default_font t"
  "next_font_ref (unref_font t k) = next_font_ref t"
  by (simp_all add: ref_font_def unref_font_def Let_def split: option.splits)

lemma ref_unref_dom:
  "dom (font_objects (ref_font t k)) = dom (font_objects t)" "dom (font_objects (unref_font t k)) \<subseteq> dom (font_objects t)"
  by (auto simp: ref_font_def unref_font_def Let_def split: option.splits if_splits)

lemma font_users_frame [simp]:
  "font_users (ref_font t k) = font_users t" "font_users (unref_font t k) = font_users t"
  by (simp_all add: font_users_def gc_fonts_def fun_eq_iff)

lemma fun_upd_count: "(\<lambda>j. f j + count P j)(k := Suc (f k + count P k)) = (\<lambda>j. f j + count (add_mset k P) j)"
  by auto

lemma ref_font_with:
  assumes "fonts_with P t" "k \<in> dom (font_objects t)"
  shows "fonts_with (add_mset k P) (ref_font t k)"
proof -
  have t: "tracks (font_count t) (\<lambda>j. font_users t j + count P j)" using assms(1) by (simp add: fonts_with_def)
  have "font_users t k + count P k \<noteq> 0"
    using tracksD [OF t, of k] assms(2) by (auto simp: font_count_def split: if_splits)
  from font_refs.inc_tracks [OF t this] show ?thesis
    using assms(1) unfolding fun_upd_count by (simp add: fonts_with_def ref_unref_dom)
qed

lemma unref_font_with:
  assumes "fonts_with (add_mset k P) t"
  shows "fonts_with P (unref_font t k)"
proof -
  let ?u = "\<lambda>j. font_users t j + count (add_mset k P) j"
  have t: "tracks (font_count t) ?u" using assms by (simp add: fonts_with_def)
  have u: "?u(k := ?u k - 1) = (\<lambda>j. font_users t j + count P j)" by auto
  have "tracks (font_count (unref_font t k)) (?u(k := ?u k - 1))"
    by (rule font_refs.dec_tracks [OF t]) simp
  then show ?thesis unfolding u using assms ref_unref_dom(2) [of t k]
    by (auto simp: fonts_with_def intro: finite_subset)
qed

lemma unref_opt_with: "fonts_with (P + opt_mset v) t \<Longrightarrow> fonts_with P (unref_opt t v)"
  by (cases v) (simp_all add: unref_opt_def opt_mset_def unref_font_with)

lemma ref_opt_with:
  "fonts_with P t \<Longrightarrow> set_option v \<subseteq> dom (font_objects t) \<Longrightarrow> fonts_with (P + opt_mset v) (ref_opt t v)"
  by (cases v) (simp_all add: ref_opt_def opt_mset_def ref_font_with)

text \<open>A reference moves into a slot, and what was there moves out.\<close>

lemma swap_users:
  assumes "\<And>k. u' k + opt_count out k = u k + opt_count inn k"
  shows "tracks c (\<lambda>k. u k + count (P + opt_mset inn) k) \<longleftrightarrow> tracks c (\<lambda>k. u' k + count (P + opt_mset out) k)"
proof -
  have "u k + count (P + opt_mset inn) k = u' k + count (P + opt_mset out) k" for k
    using assms [of k] by simp
  then show ?thesis by (simp only:)
qed

lemma move_into_fonts:
  assumes "fonts_with (P + opt_mset v) t"
  shows "fonts_with (P + opt_mset (fonts t i)) (t\<lparr>fonts := (fonts t)(i := v)\<rparr>)"
proof -
  have "font_users (t\<lparr>fonts := (fonts t)(i := v)\<rparr>) k + opt_count (fonts t i) k = font_users t k + opt_count v k" for k
    using occ_upd [of "fonts t" i v k] by (simp add: font_users_def gc_fonts_def)
  from swap_users [OF this, of "font_count t" P] show ?thesis
    using assms by (simp add: fonts_with_def font_count_def)
qed

lemma move_into_gc:
  assumes "fonts_with (P + opt_mset (Option.bind v gc_font)) t"
  shows "fonts_with (P + opt_mset (gc_fonts t g)) (t\<lparr>gcs := (gcs t)(g := v)\<rparr>)"
proof -
  have "gc_fonts (t\<lparr>gcs := (gcs t)(g := v)\<rparr>) = (gc_fonts t)(g := Option.bind v gc_font)"
    by (auto simp: gc_fonts_def)
  then have "font_users (t\<lparr>gcs := (gcs t)(g := v)\<rparr>) k + opt_count (gc_fonts t g) k
      = font_users t k + opt_count (Option.bind v gc_font) k" for k
    using occ_upd [of "gc_fonts t" g "Option.bind v gc_font" k] by (simp add: font_users_def)
  from swap_users [OF this, of "font_count t" P] show ?thesis
    using assms by (simp add: fonts_with_def font_count_def)
qed

lemma move_into_default:
  assumes "fonts_with (P + opt_mset v) t"
  shows "fonts_with (P + opt_mset (default_font t)) (t\<lparr>default_font := v\<rparr>)"
proof -
  have "font_users (t\<lparr>default_font := v\<rparr>) k + opt_count (default_font t) k = font_users t k + opt_count v k" for k
    by (simp add: font_users_def gc_fonts_def)
  from swap_users [OF this, of "font_count t" P] show ?thesis
    using assms by (simp add: fonts_with_def font_count_def)
qed

text \<open>Every reference names a live font.\<close>

lemma users_live:
  assumes "fonts_with P t"
  shows "fonts t i = Some k \<Longrightarrow> k \<in> dom (font_objects t)"
    and "gc_fonts t g = Some k \<Longrightarrow> k \<in> dom (font_objects t)"
    and "default_font t = Some k \<Longrightarrow> k \<in> dom (font_objects t)"
    and "k \<in># P \<Longrightarrow> k \<in> dom (font_objects t)"
proof -
  have live: "k \<in> dom (font_objects t)" if "font_users t k + count P k \<noteq> 0"
  proof -
    have "font_count t k \<noteq> None"
      using that assms tracks_absent [of "font_count t" "\<lambda>k. font_users t k + count P k" k] by (simp add: fonts_with_def)
    then show ?thesis by (auto simp: font_count_def)
  qed
  show "k \<in> dom (font_objects t)" if "fonts t i = Some k"
    using that occ_zero_iff [of "fonts t" k] by (intro live) (auto simp: font_users_def intro: ranI)
  show "k \<in> dom (font_objects t)" if "gc_fonts t g = Some k"
    using that occ_zero_iff [of "gc_fonts t" k] by (intro live) (auto simp: font_users_def intro: ranI)
  show "k \<in> dom (font_objects t)" if "default_font t = Some k"
    using that by (intro live) (simp add: font_users_def)
  show "k \<in> dom (font_objects t)" if "k \<in># P"
    using that by (intro live) simp
qed

section \<open>The operations keep the counts exact\<close>

lemma set_font_slot_default_ok:
  assumes "fonts_ok t" "set_option v \<subseteq> dom (font_objects t)"
  shows "fonts_ok (set_font_slot_default t v)"
  using move_into_default [of "{#}" v "ref_opt t v"] ref_opt_with [OF assms]
  by (auto simp: set_font_slot_default_def Let_def intro: unref_opt_with)

lemma new_object_with:
  assumes "fonts_ok t"
  shows "fonts_with {#next_font_ref t#} (t\<lparr>next_font_ref := next_font_ref t + 1,
    font_objects := (font_objects t)(next_font_ref t \<mapsto> \<lparr>fo_font = f, fo_refs = 1\<rparr>)\<rparr>)"
proof -
  have k: "next_font_ref t \<notin> dom (font_objects t)" using assms by (auto simp: fonts_with_def)
  then have "font_users t (next_font_ref t) = 0"
    using assms tracks_absent [of "font_count t" "font_users t" "next_font_ref t"]
    by (auto simp: fonts_with_def font_count_def)
  moreover have "font_users (t\<lparr>next_font_ref := a, font_objects := b\<rparr>) = font_users t" for a b
    by (simp add: fun_eq_iff font_users_def gc_fonts_def)
  moreover have "tracks ((font_count t)(next_font_ref t \<mapsto> 1)) (\<lambda>k. font_users t k + count {#next_font_ref t#} k)"
    if "font_users t (next_font_ref t) = 0"
    using assms that by (simp add: fonts_with_def tracks_def)
  moreover have "font_count (t\<lparr>next_font_ref := a, font_objects := (font_objects t)(k \<mapsto> \<lparr>fo_font = f, fo_refs = 1\<rparr>)\<rparr>)
      = (font_count t)(k \<mapsto> 1)" for a k
    by (simp add: fun_eq_iff font_count_def)
  moreover have "\<forall>k \<in> dom (font_objects t). k < Suc (next_font_ref t)"
    using assms by (auto simp: fonts_with_def less_Suc_eq)
  ultimately show ?thesis using assms by (auto simp: fonts_with_def)
qed

lemma install_font_ok: "fonts_ok t \<Longrightarrow> fonts_ok (install_font t own i nam host ms)"
proof -
  assume t: "fonts_ok t"
  let ?f = "\<lparr>font_id = i, font_name = nam, font_host_xid = host, metrics = ms, font_owner = own\<rparr>"
  let ?t1 = "t\<lparr>next_font_ref := next_font_ref t + 1, font_objects := (font_objects t)(next_font_ref t \<mapsto> \<lparr>fo_font = ?f, fo_refs = 1\<rparr>)\<rparr>"
  let ?t2 = "unref_opt (?t1\<lparr>fonts := (fonts ?t1)(i \<mapsto> next_font_ref t)\<rparr>) (fonts ?t1 i)"
  have "fonts_with ({#} + opt_mset (Some (next_font_ref t))) ?t1"
    using new_object_with [OF t, of ?f] by (simp add: opt_mset_def)
  from move_into_fonts [OF this, of i] have t2: "fonts_ok ?t2" by (rule unref_opt_with)
  have "fonts ?t2 i = Some (next_font_ref t)" by (simp add: unref_opt_def split: option.splits)
  then have "next_font_ref t \<in> dom (font_objects ?t2)" by (rule users_live(1) [OF t2])
  then show ?thesis using t2 set_font_slot_default_ok [OF t2, of "Some (next_font_ref t)"]
    by (auto simp: install_font_def Let_def)
qed

lemma close_font_ok: "fonts_ok t \<Longrightarrow> fonts_ok (fst (close_font t i))"
proof (cases "fonts t i")
  case (Some key)
  assume "fonts_ok t"
  then have "fonts_with ({#} + opt_mset None) t" by (simp add: opt_mset_def)
  from move_into_fonts [OF this, of i] show ?thesis
    by (simp add: close_font_def Some opt_mset_def unref_font_with)
qed (simp add: close_font_def)

lemma take_released_fonts_ok: "fonts_ok t \<Longrightarrow> fonts_ok (fst (take_released_fonts t))"
  by (simp add: take_released_fonts_def fonts_with_def tracks_def font_count_def font_users_def gc_fonts_def)

lemma take_all_fonts_ok: "fonts_ok (fst (take_all_fonts t keys))"
proof -
  have "gc_fonts (fst (take_all_fonts t keys)) = Map.empty"
    by (rule ext) (auto simp: gc_fonts_def take_all_fonts_def split: Option.bind_split)
  then show ?thesis
    by (simp add: fonts_with_def tracks_def font_users_def) (simp add: take_all_fonts_def font_count_def)
qed

lemma set_gc_font_ref_ok:
  assumes t: "fonts_ok t" and v: "set_option v \<subseteq> dom (font_objects t)"
  shows "fonts_ok (set_gc_font_ref t g v)"
proof (cases "gcs t g")
  case (Some x)
  let ?t1 = "t\<lparr>gcs := (gcs t)(g \<mapsto> x\<lparr>gc_font := v\<rparr>)\<rparr>"
  have swap: "ref_opt ?t1 v = (ref_opt t v)\<lparr>gcs := (gcs (ref_opt t v))(g \<mapsto> x\<lparr>gc_font := v\<rparr>)\<rparr>"
    by (cases v) (simp_all add: ref_opt_def ref_font_def split: option.splits)
  have "fonts_with ({#} + opt_mset (Option.bind (Some (x\<lparr>gc_font := v\<rparr>)) gc_font)) (ref_opt t v)"
    using ref_opt_with [OF t v] by simp
  from move_into_gc [OF this, of g] have "fonts_with ({#} + opt_mset (gc_font x)) (ref_opt ?t1 v)"
    unfolding swap using Some by (cases v) (simp_all add: gc_fonts_def ref_opt_def)
  then have "fonts_ok (unref_opt (ref_opt ?t1 v) (gc_font x))" by (rule unref_opt_with)
  then show ?thesis using t Some by (simp add: set_gc_font_ref_def)
qed (simp add: set_gc_font_ref_def t)

lemma set_gc_font_ok: "fonts_ok t \<Longrightarrow> fonts_ok (set_gc_font t g i)"
  using set_gc_font_ref_ok users_live(1) by (auto simp: set_gc_font_def split: option.splits)

section \<open>Every host font is released once\<close>

text \<open>The host fonts the table owes the backend a close for: those alive and those released.\<close>

definition live_hosts :: "resource_table \<Rightarrow> u32 multiset" where
  "live_hosts t = {# font_host_xid (fo_font (the (font_objects t k))). k \<in># mset_set (dom (font_objects t)) #}"

definition owed_fonts :: "resource_table \<Rightarrow> u32 multiset" where
  "owed_fonts t = live_hosts t + mset (released_fonts t)"

lemma live_hosts_cong:
  assumes "dom (font_objects s) = dom (font_objects t)"
    and "\<And>k ob. font_objects t k = Some ob \<Longrightarrow> \<exists>ob'. font_objects s k = Some ob' \<and> fo_font ob' = fo_font ob"
  shows "live_hosts s = live_hosts t"
proof -
  have "font_host_xid (fo_font (the (font_objects s k))) = font_host_xid (fo_font (the (font_objects t k)))"
    if "k \<in># mset_set (dom (font_objects t))" for k
    using that assms(2) by (cases "finite (dom (font_objects t))") (auto, metis option.sel)
  then show ?thesis unfolding live_hosts_def assms(1) by (rule image_mset_cong)
qed

lemma ref_font_owed [simp]: "owed_fonts (ref_font t k) = owed_fonts t"
proof -
  have "live_hosts (ref_font t k) = live_hosts t"
    by (rule live_hosts_cong [OF ref_unref_dom(1)]) (auto simp: ref_font_def split: option.splits)
  then show ?thesis by (simp add: owed_fonts_def)
qed

lemma unref_font_owed:
  assumes "finite (dom (font_objects t))"
  shows "owed_fonts (unref_font t k) = owed_fonts t"
proof (cases "font_objects t k")
  case (Some ob)
  show ?thesis
  proof (cases "fo_refs ob - 1 = 0")
    case True
    let ?t' = "t\<lparr>font_objects := (font_objects t)(k := None), released_fonts := released_fonts t @ [font_host_xid (fo_font ob)]\<rparr>"
    have u: "unref_font t k = ?t'" using Some True by (simp add: unref_font_def Let_def)
    have k: "k \<in> dom (font_objects t)" using Some by auto
    have "mset_set (dom (font_objects t)) = add_mset k (mset_set (dom (font_objects t) - {k}))"
      using assms k by (metis mset_set.remove)
    then have "live_hosts t = add_mset (font_host_xid (fo_font ob))
        {# font_host_xid (fo_font (the (font_objects t j))). j \<in># mset_set (dom (font_objects t) - {k}) #}"
      by (simp add: live_hosts_def Some)
    also have "{# font_host_xid (fo_font (the (font_objects t j))). j \<in># mset_set (dom (font_objects t) - {k}) #} = live_hosts ?t'"
      using assms by (auto simp: live_hosts_def intro!: image_mset_cong)
    finally show ?thesis by (simp add: u owed_fonts_def)
  next
    case False
    have "live_hosts (unref_font t k) = live_hosts t"
      by (rule live_hosts_cong) (use Some False in \<open>auto simp: unref_font_def Let_def\<close>)
    then show ?thesis using Some False by (simp add: owed_fonts_def unref_font_def Let_def)
  qed
qed (simp add: unref_font_def)

lemma unref_opt_owed: "finite (dom (font_objects t)) \<Longrightarrow> owed_fonts (unref_opt t v) = owed_fonts t"
  by (cases v) (simp_all add: unref_opt_def unref_font_owed)

lemma ref_opt_owed [simp]: "owed_fonts (ref_opt t v) = owed_fonts t"
  by (cases v) (simp_all add: ref_opt_def)

lemma owed_fonts_frame [simp]:
  "owed_fonts (t\<lparr>fonts := a\<rparr>) = owed_fonts t" "owed_fonts (t\<lparr>gcs := b\<rparr>) = owed_fonts t"
  "owed_fonts (t\<lparr>default_font := c\<rparr>) = owed_fonts t"
  by (simp_all add: owed_fonts_def live_hosts_def)

lemma fonts_finite: "fonts_with P t \<Longrightarrow> finite (dom (font_objects t))"
  by (simp add: fonts_with_def)

lemma ref_opt_dom: "dom (font_objects (ref_opt t v)) = dom (font_objects t)"
  by (cases v) (simp_all add: ref_opt_def ref_unref_dom)

lemma close_font_owed: "fonts_ok t \<Longrightarrow> owed_fonts (fst (close_font t i)) = owed_fonts t"
  by (simp add: close_font_def unref_font_owed fonts_finite split: option.splits)

lemma set_font_slot_default_owed: "fonts_ok t \<Longrightarrow> owed_fonts (set_font_slot_default t v) = owed_fonts t"
  by (simp add: set_font_slot_default_def Let_def unref_opt_owed ref_opt_dom fonts_finite)

lemma new_object_owed:
  assumes "fonts_ok t"
  shows "owed_fonts (t\<lparr>next_font_ref := n, font_objects := (font_objects t)(next_font_ref t \<mapsto> \<lparr>fo_font = f, fo_refs = 1\<rparr>)\<rparr>)
    = add_mset (font_host_xid f) (owed_fonts t)"
proof -
  have k: "next_font_ref t \<notin> dom (font_objects t)" "finite (dom (font_objects t))"
    using assms by (auto simp: fonts_with_def)
  have "{# font_host_xid (fo_font (the (((font_objects t)(next_font_ref t \<mapsto> \<lparr>fo_font = f, fo_refs = 1\<rparr>)) j))). j \<in># mset_set (dom (font_objects t)) #}
     = live_hosts t"
    unfolding live_hosts_def by (rule image_mset_cong) (use k in \<open>auto simp: fun_upd_def\<close>)
  then show ?thesis using k by (simp add: owed_fonts_def live_hosts_def)
qed

lemma install_font_owed: "fonts_ok t \<Longrightarrow> owed_fonts (install_font t own i nam host ms) = add_mset host (owed_fonts t)"
proof -
  assume t: "fonts_ok t"
  let ?f = "\<lparr>font_id = i, font_name = nam, font_host_xid = host, metrics = ms, font_owner = own\<rparr>"
  let ?t1 = "t\<lparr>next_font_ref := next_font_ref t + 1, font_objects := (font_objects t)(next_font_ref t \<mapsto> \<lparr>fo_font = ?f, fo_refs = 1\<rparr>)\<rparr>"
  let ?t2 = "unref_opt (?t1\<lparr>fonts := (fonts ?t1)(i \<mapsto> next_font_ref t)\<rparr>) (fonts ?t1 i)"
  have "fonts_with ({#} + opt_mset (Some (next_font_ref t))) ?t1"
    using new_object_with [OF t, of ?f] by (simp add: opt_mset_def)
  from move_into_fonts [OF this, of i] have t2: "fonts_ok ?t2" by (rule unref_opt_with)
  have "owed_fonts ?t2 = add_mset host (owed_fonts t)"
    using new_object_owed [OF t, of ?f "next_font_ref t + 1"] fonts_finite [OF t]
    by (simp add: unref_opt_owed)
  then show ?thesis using set_font_slot_default_owed [OF t2] by (auto simp: install_font_def Let_def)
qed

end
