(* ===== verification/Window_Ops.thy ===== *)
theory Window_Ops
  imports Resources
begin

text \<open>
  The window operations of \<open>resources/window.rs\<close>: creating windows, changing their attributes
  and geometry, window gravity, restacking, and mapping with the cascade of viewability
  through the subtree.

  The cascades recurse over child lists that nothing in their types bounds, so they are
  \<open>partial_function (option)\<close>: \<open>None\<close> is a recursion that never returns. That it always returns
  on the tables the server reaches is proved in \<open>Tree_Inv\<close>. Each takes the list of children
  still to visit; the Rust function is its call on the children of its root.
\<close>

type_synonym window_map = "u32 \<rightharpoonup> window"

definition children_of :: "window_map \<Rightarrow> u32 \<Rightarrow> u32 list" where
  "children_of ws i = (case ws i of None \<Rightarrow> [] | Some w \<Rightarrow> children w)"

definition in_state :: "window_map \<Rightarrow> map_state \<Rightarrow> u32 \<Rightarrow> bool" where
  "in_state ws s i \<longleftrightarrow> (case ws i of None \<Rightarrow> False | Some w \<Rightarrow> map_state w = s)"

definition set_state :: "map_state \<Rightarrow> u32 \<Rightarrow> window_map \<Rightarrow> window_map" where
  "set_state s i ws = modify_window i (\<lambda>w. w\<lparr>map_state := s\<rparr>) ws"

section \<open>Creation\<close>

definition cow_aware_top_index :: "u32 list \<Rightarrow> nat" where
  "cow_aware_top_index cs =
     (if cs \<noteq> [] \<and> last cs = COMPOSITE_OVERLAY_WINDOW then length cs - 1 else length cs)"

definition win_gravity_delta :: "u8 \<Rightarrow> int \<Rightarrow> int \<Rightarrow> int \<times> int" where
  "win_gravity_delta gravity dw dh =
     (if gravity = 2 then (trunc_div dw 2, 0)
      else if gravity = 3 then (dw, 0)
      else if gravity = 4 then (0, trunc_div dh 2)
      else if gravity = 5 then (trunc_div dw 2, trunc_div dh 2)
      else if gravity = 6 then (dw, trunc_div dh 2)
      else if gravity = 7 then (0, dh)
      else if gravity = 8 then (trunc_div dw 2, dh)
      else if gravity = 9 then (dw, dh)
      else (0, 0))"

record create_window_request =
  cr_depth :: u8
  cr_window :: u32
  cr_parent :: u32
  cr_x :: i16
  cr_y :: i16
  cr_width :: u16
  cr_height :: u16
  cr_border_width :: u16
  cr_class :: u16
  cr_visual :: u32
  cr_background_pixmap :: "u32 option"
  cr_background_pixel :: "u32 option"
  cr_border_pixmap :: "u32 option"
  cr_border_pixel :: "u32 option"
  cr_bit_gravity :: "u8 option"
  cr_win_gravity :: "u8 option"
  cr_backing_store :: "u8 option"
  cr_backing_planes :: "u32 option"
  cr_backing_pixel :: "u32 option"
  cr_override_redirect :: "bool option"
  cr_save_under :: "bool option"
  cr_do_not_propagate_mask :: "u16 option"
  cr_colormap :: "u32 option option"
  cr_cursor :: "u32 option"

text \<open>\<open>opt.unwrap_or(d)\<close> and \<open>parent.map_or(d, f)\<close>.\<close>

definition unwrap_or :: "'a option \<Rightarrow> 'a \<Rightarrow> 'a" where
  "unwrap_or v d = (case v of None \<Rightarrow> d | Some x \<Rightarrow> x)"

definition map_or :: "'b \<Rightarrow> ('a \<Rightarrow> 'b) \<Rightarrow> 'a option \<Rightarrow> 'b" where
  "map_or d f v = (case v of None \<Rightarrow> d | Some x \<Rightarrow> f x)"

text \<open>\<open>self.pixmaps.get(&id).and_then(|p| p.host_xid)\<close> and the same for cursors.\<close>

definition pixmap_host :: "resource_table \<Rightarrow> u32 \<Rightarrow> u32 option" where
  "pixmap_host t i = Option.bind (pixmaps t i) pm_host_xid"

definition cursor_host_of :: "resource_table \<Rightarrow> u32 \<Rightarrow> u32 option" where
  "cursor_host_of t i = Option.bind (cursors t i) cur_host_xid"

definition new_window :: "resource_table \<Rightarrow> u32 \<Rightarrow> create_window_request \<Rightarrow> window" where
  "new_window t own r =
     (let par = windows t (cr_parent r);
          parent_border = map_or (Pixel 0) border par
      in \<lparr>wid = cr_window r, parent = cr_parent r, children = [], wx = cr_x r, wy = cr_y r,
          wwidth = cr_width r, wheight = cr_height r, border_width = cr_border_width r,
          wdepth = (if cr_depth r = 0 then map_or 24 wdepth par else cr_depth r),
          visual = (if cr_visual r = 0 then map_or ROOT_VISUAL visual par else cr_visual r),
          wclass = (if cr_class r = 0 then map_or InputOutput wclass par
                    else class_from_protocol (cr_class r)),
          map_state = Unmapped,
          background_pixel = unwrap_or (cr_background_pixel r) 0x00ffffff,
          background_pixmap = (case cr_background_pixmap r of Some p \<Rightarrow> if p \<noteq> 0 then Some p else None | None \<Rightarrow> None),
          background_none = (cr_background_pixel r = None
            \<and> \<not> (case cr_background_pixmap r of Some p \<Rightarrow> p \<noteq> 0 | None \<Rightarrow> False)),
          background_pixmap_host_xid =
            (case cr_background_pixmap r of Some p \<Rightarrow> if p > 1 then pixmap_host t p else None | None \<Rightarrow> None),
          border = (case (cr_border_pixmap r, cr_border_pixel r) of
              (_, Some pixel) \<Rightarrow> Pixel pixel
            | (Some pm, None) \<Rightarrow> if pm = 0 then parent_border else Pixmap pm (pixmap_host t pm)
            | (None, None) \<Rightarrow> parent_border),
          override_redirect = unwrap_or (cr_override_redirect r) False,
          bit_gravity = unwrap_or (cr_bit_gravity r) 0,
          win_gravity = unwrap_or (cr_win_gravity r) 1,
          backing_store = unwrap_or (cr_backing_store r) 0,
          backing_planes = unwrap_or (cr_backing_planes r) u32_max,
          backing_pixel = unwrap_or (cr_backing_pixel r) 0,
          save_under = unwrap_or (cr_save_under r) False,
          do_not_propagate_mask = unwrap_or (cr_do_not_propagate_mask r) 0,
          colormap = (case cr_colormap r of Some (Some i) \<Rightarrow> i | _ \<Rightarrow> map_or ROOT_COLORMAP colormap par),
          cursor = cr_cursor r,
          cursor_host = (case cr_cursor r of Some c \<Rightarrow> if c \<noteq> 0 then cursor_host_of t c else None | None \<Rightarrow> None),
          owner = own, properties = (\<lambda>_. None), host_xid = None, composite_named_pixmaps = [],
          redirected_backing = None\<rparr>)"

text \<open>\<open>entry(parent).or_insert_with(placeholder)\<close>, then insert the child and the window.\<close>

definition insert_child :: "u32 \<Rightarrow> window \<Rightarrow> window" where
  "insert_child i p = p\<lparr>children := insert_at (cow_aware_top_index (children p)) i (children p)\<rparr>"

definition create_window :: "resource_table \<Rightarrow> u32 \<Rightarrow> create_window_request \<Rightarrow> resource_table" where
  "create_window t own r =
     (let w = new_window t own r;
          parent_entry = unwrap_or (windows t (cr_parent r)) (placeholder (cr_parent r))
      in t\<lparr>windows := (windows t)(cr_parent r \<mapsto> insert_child (cr_window r) parent_entry,
                                  cr_window r \<mapsto> w)\<rparr>)"

text \<open>The assertion that no overlay window exists is the error \<open>None\<close>.\<close>

definition materialize_cow_resource :: "resource_table \<Rightarrow> u32 \<Rightarrow> resource_table option" where
  "materialize_cow_resource t host =
     (if windows t COMPOSITE_OVERLAY_WINDOW \<noteq> None then None
      else (let root = windows t ROOT_WINDOW;
                cow = (placeholder COMPOSITE_OVERLAY_WINDOW)
                  \<lparr>parent := ROOT_WINDOW, wx := 0, wy := 0,
                   wwidth := map_or 1 wwidth root, wheight := map_or 1 wheight root, wdepth := 24,
                   visual := map_or ROOT_VISUAL visual root, wclass := InputOutput,
                   map_state := Viewable, override_redirect := True, host_xid := Some host\<rparr>;
                ws = (windows t)(COMPOSITE_OVERLAY_WINDOW \<mapsto> cow)
            in Some (t\<lparr>windows := modify_window ROOT_WINDOW (insert_child COMPOSITE_OVERLAY_WINDOW) ws\<rparr>)))"

definition configure_notify_above_sibling :: "window_map \<Rightarrow> u32 \<Rightarrow> u32 option" where
  "configure_notify_above_sibling ws i =
     (case ws i of None \<Rightarrow> None | Some w \<Rightarrow>
      (case ws (parent w) of None \<Rightarrow> None | Some p \<Rightarrow>
       (case position i (children p) of None \<Rightarrow> None
        | Some index \<Rightarrow> if index = 0 then None else Some (children p ! (index - 1)))))"

section \<open>Attributes and geometry\<close>

record change_window_attributes_request =
  ca_window :: u32
  ca_background_pixmap :: "u32 option"
  ca_background_pixel :: "u32 option"
  ca_border_pixmap :: "u32 option"
  ca_border_pixel :: "u32 option"
  ca_bit_gravity :: "u8 option"
  ca_win_gravity :: "u8 option"
  ca_backing_store :: "u8 option"
  ca_backing_planes :: "u32 option"
  ca_backing_pixel :: "u32 option"
  ca_override_redirect :: "bool option"
  ca_save_under :: "bool option"
  ca_do_not_propagate_mask :: "u16 option"
  ca_colormap :: "u32 option option"
  ca_cursor :: "u32 option"

record released_attr_pixmaps =
  released_background :: "u32 option"
  released_border :: "u32 option"

text \<open>What the request installs, computed before the window is borrowed.\<close>

definition new_bg_host :: "resource_table \<Rightarrow> change_window_attributes_request \<Rightarrow> u32 option option" where
  "new_bg_host t r =
     map_option (\<lambda>p. if p = 0 then None else pixmap_host t p) (ca_background_pixmap r)"

definition resolved_colormap :: "resource_table \<Rightarrow> change_window_attributes_request \<Rightarrow> u32 option" where
  "resolved_colormap t r =
     (case ca_colormap r of
        Some (Some i) \<Rightarrow> Some i
      | Some None \<Rightarrow>
          (let parent_id = map_or ROOT_WINDOW parent (windows t (ca_window r))
           in Some (map_or ROOT_COLORMAP colormap (windows t parent_id)))
      | None \<Rightarrow> None)"

definition new_border_source :: "resource_table \<Rightarrow> change_window_attributes_request \<Rightarrow> border_source option" where
  "new_border_source t r =
     (case (ca_border_pixmap r, ca_border_pixel r) of
        (_, Some pixel) \<Rightarrow> Some (Pixel pixel)
      | (Some pm, None) \<Rightarrow>
          if pm = 0 then
            Some (map_or (Pixel 0) border (Option.bind (windows t (ca_window r)) (\<lambda>w. windows t (parent w))))
          else Some (Pixmap pm (pixmap_host t pm))
      | (None, None) \<Rightarrow> None)"

definition apply_background :: "resource_table \<Rightarrow> change_window_attributes_request \<Rightarrow> window \<Rightarrow> window" where
  "apply_background t r w =
     (let w1 = (case ca_background_pixmap r of
                  None \<Rightarrow> w
                | Some p \<Rightarrow> w\<lparr>background_pixmap := (if p = 0 then None else Some p),
                             background_pixmap_host_xid := (case new_bg_host t r of
                                Some h \<Rightarrow> h | None \<Rightarrow> background_pixmap_host_xid w),
                             background_none := (p = 0)\<rparr>)
      in case ca_background_pixel r of
           None \<Rightarrow> w1
         | Some px \<Rightarrow> w1\<lparr>background_pixel := px, background_none := False\<rparr>)"

definition apply_plain_attributes :: "resource_table \<Rightarrow> change_window_attributes_request \<Rightarrow> window \<Rightarrow> window" where
  "apply_plain_attributes t r w =
     w\<lparr>bit_gravity := unwrap_or (ca_bit_gravity r) (bit_gravity w),
       win_gravity := unwrap_or (ca_win_gravity r) (win_gravity w),
       backing_store := unwrap_or (ca_backing_store r) (backing_store w),
       backing_planes := unwrap_or (ca_backing_planes r) (backing_planes w),
       backing_pixel := unwrap_or (ca_backing_pixel r) (backing_pixel w),
       override_redirect := unwrap_or (ca_override_redirect r) (override_redirect w),
       save_under := unwrap_or (ca_save_under r) (save_under w),
       do_not_propagate_mask := unwrap_or (ca_do_not_propagate_mask r) (do_not_propagate_mask w),
       colormap := unwrap_or (resolved_colormap t r) (colormap w)\<rparr>"

definition new_cursor_host :: "resource_table \<Rightarrow> u32 \<Rightarrow> u32 option" where
  "new_cursor_host t c = (if c \<noteq> 0 then cursor_host_of t c else None)"

definition apply_cursor :: "resource_table \<Rightarrow> change_window_attributes_request \<Rightarrow> window \<Rightarrow> window" where
  "apply_cursor t r w =
     (case ca_cursor r of None \<Rightarrow> w
      | Some c \<Rightarrow> w\<lparr>cursor := Some c, cursor_host := new_cursor_host t c\<rparr>)"

definition dropped_by :: "resource_table \<Rightarrow> change_window_attributes_request \<Rightarrow> window \<Rightarrow> u32 list" where
  "dropped_by t r w =
     (case (ca_cursor r, cursor_host w) of
        (Some c, Some old) \<Rightarrow> if Some old \<noteq> new_cursor_host t c then [old] else []
      | _ \<Rightarrow> [])"

definition change_window_attributes ::
  "resource_table \<Rightarrow> change_window_attributes_request \<Rightarrow> resource_table \<times> released_attr_pixmaps" where
  "change_window_attributes t r =
     (case windows t (ca_window r) of
        None \<Rightarrow> (t, \<lparr>released_background = None, released_border = None\<rparr>)
      | Some w \<Rightarrow>
          (let new_border = new_border_source t r;
               w' = apply_cursor t r (apply_plain_attributes t r
                      ((apply_background t r w)\<lparr>border := unwrap_or new_border (border w)\<rparr>));
               rel_bg = (if ca_background_pixmap r \<noteq> None
                            \<and> background_pixmap_host_xid w \<noteq> unwrap_or (new_bg_host t r) None
                         then background_pixmap_host_xid w else None);
               rel_border = (case (new_border, border w) of
                   (Some s, Pixmap _ (Some old)) \<Rightarrow> if border w \<noteq> s then Some old else None
                 | _ \<Rightarrow> None)
           in (t\<lparr>windows := (windows t)(ca_window r \<mapsto> w'),
                 dropped_cursor_hosts := dropped_cursor_hosts t @ dropped_by t r w\<rparr>,
               \<lparr>released_background = rel_bg, released_border = rel_border\<rparr>)))"

record configure_window_request =
  cf_window :: u32
  cf_x :: "i16 option"
  cf_y :: "i16 option"
  cf_width :: "u16 option"
  cf_height :: "u16 option"
  cf_border_width :: "u16 option"
  cf_sibling :: "u32 option"
  cf_stack_mode :: "u8 option"

definition apply_geometry :: "configure_window_request \<Rightarrow> window \<Rightarrow> window" where
  "apply_geometry r w =
     w\<lparr>wx := unwrap_or (cf_x r) (wx w), wy := unwrap_or (cf_y r) (wy w),
       wwidth := unwrap_or (cf_width r) (wwidth w), wheight := unwrap_or (cf_height r) (wheight w),
       border_width := unwrap_or (cf_border_width r) (border_width w)\<rparr>"

text \<open>One child of the resized window: its new position if it moves.\<close>

definition gravity_move :: "int \<Rightarrow> int \<Rightarrow> window \<Rightarrow> (i16 \<times> i16) option" where
  "gravity_move dw dh w =
     (let (ddx, ddy) = win_gravity_delta (win_gravity w) dw dh
      in if ddx = 0 \<and> ddy = 0 then None
         else (let nx = word_of_int (clamp i16_min i16_max (sint (wx w) + ddx));
                   ny = word_of_int (clamp i16_min i16_max (sint (wy w) + ddy))
               in if nx = wx w \<and> ny = wy w then None else Some (nx, ny)))"

fun gravity_loop :: "int \<Rightarrow> int \<Rightarrow> u32 list \<Rightarrow> window_map \<Rightarrow> window_map \<times> (u32 \<times> i16 \<times> i16) list" where
  "gravity_loop dw dh [] ws = (ws, [])"
| "gravity_loop dw dh (c # cs) ws =
     (case Option.bind (ws c) (gravity_move dw dh) of
        None \<Rightarrow> gravity_loop dw dh cs ws
      | Some (nx, ny) \<Rightarrow>
          (let (ws', moved) = gravity_loop dw dh cs (modify_window c (\<lambda>w. w\<lparr>wx := nx, wy := ny\<rparr>) ws)
           in (ws', (c, nx, ny) # moved)))"

definition apply_win_gravity ::
  "resource_table \<Rightarrow> u32 \<Rightarrow> u16 \<Rightarrow> u16 \<Rightarrow> u16 \<Rightarrow> u16 \<Rightarrow> resource_table \<times> (u32 \<times> i16 \<times> i16) list" where
  "apply_win_gravity t par old_w old_h new_w new_h =
     (let dw = uint new_w - uint old_w; dh = uint new_h - uint old_h
      in if dw = 0 \<and> dh = 0 then (t, [])
         else (case windows t par of
             None \<Rightarrow> (t, [])
           | Some p \<Rightarrow> (let (ws, moved) = gravity_loop dw dh (children p) (windows t)
                       in (t\<lparr>windows := ws\<rparr>, moved))))"

section \<open>Restacking\<close>

datatype restack_action = NoOp | Top | Bottom | AboveSibling u32 | BelowSibling u32

definition window_bounding_box :: "window \<Rightarrow> int \<times> int \<times> int \<times> int" where
  "window_bounding_box w =
     (let bw = uint (border_width w); x0 = sint (wx w); y0 = sint (wy w)
      in (x0, y0, x0 + uint (wwidth w) + 2 * bw, y0 + uint (wheight w) + 2 * bw))"

definition window_rects_overlap :: "window \<Rightarrow> window \<Rightarrow> bool" where
  "window_rects_overlap a b =
     (let (ax0, ay0, ax1, ay1) = window_bounding_box a; (bx0, by0, bx1, by1) = window_bounding_box b
      in ax0 < bx1 \<and> bx0 < ax1 \<and> ay0 < by1 \<and> by0 < ay1)"

text \<open>
  The loop body of the two occlusion tests: whether \<open>other_id\<close>, one of the siblings on the side
  in question, counts and overlaps.
\<close>

definition occlusion_candidate :: "window_map \<Rightarrow> window \<Rightarrow> u32 option \<Rightarrow> u32 \<Rightarrow> bool" where
  "occlusion_candidate ws w sibling other_id \<longleftrightarrow>
     (case sibling of Some sib \<Rightarrow> other_id = sib | None \<Rightarrow> True)
     \<and> (case ws other_id of None \<Rightarrow> False
        | Some other \<Rightarrow> map_state other \<noteq> Unmapped \<and> window_rects_overlap w other)"

text \<open>The window at \<open>window_index\<close> among its mapped siblings, for the occlusion tests.\<close>

definition stacked_window :: "window_map \<Rightarrow> u32 \<Rightarrow> nat \<Rightarrow> (u32 list \<times> window) option" where
  "stacked_window ws parent_id window_index =
     (case ws parent_id of None \<Rightarrow> None
      | Some p \<Rightarrow>
          if window_index < length (children p) then
            (case ws (children p ! window_index) of None \<Rightarrow> None
             | Some w \<Rightarrow> if map_state w = Unmapped then None else Some (children p, w))
          else None)"

definition any_sibling_occludes_window :: "window_map \<Rightarrow> u32 \<Rightarrow> nat \<Rightarrow> u32 option \<Rightarrow> bool" where
  "any_sibling_occludes_window ws parent_id window_index sibling =
     (case stacked_window ws parent_id window_index of None \<Rightarrow> False
      | Some (cs, w) \<Rightarrow> list_ex (occlusion_candidate ws w sibling) (drop (Suc window_index) cs))"

definition window_occludes_any_sibling :: "window_map \<Rightarrow> u32 \<Rightarrow> nat \<Rightarrow> u32 option \<Rightarrow> bool" where
  "window_occludes_any_sibling ws parent_id window_index sibling =
     (case stacked_window ws parent_id window_index of None \<Rightarrow> False
      | Some (cs, w) \<Rightarrow> list_ex (occlusion_candidate ws w sibling) (take window_index cs))"

definition resolve_restack_action ::
  "window_map \<Rightarrow> u32 \<Rightarrow> u32 \<Rightarrow> u32 option \<Rightarrow> u8 \<Rightarrow> restack_action option" where
  "resolve_restack_action ws window_id parent_id sibling stack_mode =
     (case ws parent_id of None \<Rightarrow> None
      | Some p \<Rightarrow>
        (case position window_id (children p) of None \<Rightarrow> None
         | Some window_index \<Rightarrow>
           if (case sibling of Some sib \<Rightarrow> sib \<notin> set (children p) | None \<Rightarrow> False) then None
           else if stack_mode = 0 then
             Some (case sibling of Some sib \<Rightarrow> AboveSibling sib | None \<Rightarrow> Top)
           else if stack_mode = 1 then
             Some (case sibling of Some sib \<Rightarrow> BelowSibling sib | None \<Rightarrow> Bottom)
           else if stack_mode = 2 then
             Some (if any_sibling_occludes_window ws parent_id window_index sibling then Top else NoOp)
           else if stack_mode = 3 then
             Some (if window_occludes_any_sibling ws parent_id window_index sibling then Bottom else NoOp)
           else if stack_mode = 4 then
             Some (if any_sibling_occludes_window ws parent_id window_index sibling then Top
                   else if window_occludes_any_sibling ws parent_id window_index sibling then Bottom
                   else NoOp)
           else None))"

text \<open>The match on the action: the child list after \<open>remove(index)\<close> and \<open>insert\<close>.\<close>

fun restack_children :: "restack_action \<Rightarrow> u32 \<Rightarrow> nat \<Rightarrow> u32 list \<Rightarrow> u32 list" where
  "restack_children NoOp w index cs = cs"
| "restack_children Top w index cs =
     (let rest = remove_at index cs in insert_at (cow_aware_top_index rest) w rest)"
| "restack_children Bottom w index cs = insert_at 0 w (remove_at index cs)"
| "restack_children (AboveSibling sib) w index cs =
     (let rest = remove_at index cs
      in insert_at (if sib = COMPOSITE_OVERLAY_WINDOW then cow_aware_top_index rest
                    else (case position sib rest of None \<Rightarrow> length rest | Some i \<Rightarrow> i + 1)) w rest)"
| "restack_children (BelowSibling sib) w index cs =
     (let rest = remove_at index cs in insert_at (unwrap_or (position sib rest) 0) w rest)"

definition restack_window :: "window_map \<Rightarrow> u32 \<Rightarrow> u32 option \<Rightarrow> u8 option \<Rightarrow> window_map" where
  "restack_window ws window_id sibling stack_mode =
     (case stack_mode of None \<Rightarrow> ws
      | Some mode \<Rightarrow>
        (case ws window_id of None \<Rightarrow> ws
         | Some w \<Rightarrow>
           (case resolve_restack_action ws window_id (parent w) sibling mode of None \<Rightarrow> ws
            | Some action \<Rightarrow>
              (case ws (parent w) of None \<Rightarrow> ws
               | Some p \<Rightarrow>
                 (case position window_id (children p) of None \<Rightarrow> ws
                  | Some index \<Rightarrow>
                      ws(parent w \<mapsto> p\<lparr>children := restack_children action window_id index (children p)\<rparr>))))))"

text \<open>\<open>None\<close> when there is no such window.\<close>

definition configure_window :: "resource_table \<Rightarrow> configure_window_request \<Rightarrow> resource_table option" where
  "configure_window t r =
     (case windows t (cf_window r) of None \<Rightarrow> None
      | Some w \<Rightarrow>
          Some (t\<lparr>windows := restack_window ((windows t)(cf_window r \<mapsto> apply_geometry r w))
                     (cf_window r) (cf_sibling r) (cf_stack_mode r)\<rparr>))"

section \<open>Mapping and viewability\<close>

partial_function (option) promote_children ::
  "u32 list \<Rightarrow> window_map \<Rightarrow> (window_map \<times> u32 list) option" where
  "promote_children cs ws =
     (case cs of [] \<Rightarrow> Some (ws, [])
      | child # rest \<Rightarrow>
          (let promoted = in_state ws Unviewable child;
               ws1 = (if promoted then set_state Viewable child ws else ws);
               should_recurse = in_state ws1 Viewable child
           in Option.bind
                (if promoted \<or> should_recurse then promote_children (children_of ws1 child) ws1
                 else Some (ws1, []))
                (\<lambda>r1. Option.bind (promote_children rest (fst r1))
                   (\<lambda>r2. Some (fst r2, (if promoted then [child] else []) @ snd r1 @ snd r2)))))"

definition promote_unviewable_descendants :: "window_map \<Rightarrow> u32 \<Rightarrow> (window_map \<times> u32 list) option" where
  "promote_unviewable_descendants ws root = promote_children (children_of ws root) ws"

partial_function (option) demote_children ::
  "u32 list \<Rightarrow> window_map \<Rightarrow> (window_map \<times> u32 list) option" where
  "demote_children cs ws =
     (case cs of [] \<Rightarrow> Some (ws, [])
      | child # rest \<Rightarrow>
          (let demoted = in_state ws Viewable child;
               ws1 = (if demoted then set_state Unviewable child ws else ws)
           in Option.bind
                (if demoted then demote_children (children_of ws1 child) ws1 else Some (ws1, []))
                (\<lambda>r1. Option.bind (demote_children rest (fst r1))
                   (\<lambda>r2. Some (fst r2, snd r1 @ (if demoted then [child] else []) @ snd r2)))))"

definition demote_viewable_descendants :: "window_map \<Rightarrow> u32 \<Rightarrow> (window_map \<times> u32 list) option" where
  "demote_viewable_descendants ws root = demote_children (children_of ws root) ws"

definition map_window :: "resource_table \<Rightarrow> u32 \<Rightarrow> (resource_table \<times> map_transition) option" where
  "map_window t i =
     (case windows t i of
        None \<Rightarrow> Some (t, transition_default)
      | Some w \<Rightarrow>
          (let parent_viewable = (if parent w = i then True else in_state (windows t) Viewable (parent w));
               was_unmapped = (map_state w = Unmapped);
               was_viewable = (map_state w = Viewable);
               ws1 = set_state (if parent_viewable then Viewable else Unviewable) i (windows t);
               up = (if \<not> was_viewable \<and> parent_viewable then [i] else []);
               down = (if was_viewable \<and> \<not> parent_viewable then [i] else [])
           in Option.bind
                (if parent_viewable then promote_unviewable_descendants ws1 i else Some (ws1, []))
                (\<lambda>r. Some (t\<lparr>windows := fst r\<rparr>,
                   \<lparr>mapping_changed = was_unmapped,
                    delta = \<lparr>became_viewable = up @ snd r, became_unviewable = down\<rparr>\<rparr>))))"

definition unmap_window :: "resource_table \<Rightarrow> u32 \<Rightarrow> (resource_table \<times> map_transition) option" where
  "unmap_window t i =
     (if i = ROOT_WINDOW then Some (t, transition_default)
      else (case windows t i of
        None \<Rightarrow> Some (t, transition_default)
      | Some w \<Rightarrow>
          Option.bind (demote_viewable_descendants (set_state Unmapped i (windows t)) i)
            (\<lambda>r. Some (t\<lparr>windows := fst r\<rparr>,
               \<lparr>mapping_changed = (map_state w \<noteq> Unmapped),
                delta = \<lparr>became_viewable = [],
                   became_unviewable = snd r @ (if map_state w = Viewable then [i] else [])\<rparr>\<rparr>))))"

section \<open>Points in a window\<close>

definition border_delta :: "window \<Rightarrow> i16" where
  "border_delta w = (if uint (border_width w) \<le> i16_max then word_of_int (uint (border_width w)) else word_of_int i16_max)"

text \<open>\<open>wrapping_sub\<close> and \<open>wrapping_add\<close> are the word operations.\<close>

definition to_content_coords :: "window \<Rightarrow> i16 \<Rightarrow> i16 \<Rightarrow> i16 \<times> i16" where
  "to_content_coords w parent_x parent_y =
     (let bw = border_delta w in (parent_x - wx w - bw, parent_y - wy w - bw))"

definition to_parent_coords :: "window \<Rightarrow> i16 \<Rightarrow> i16 \<Rightarrow> i16 \<times> i16" where
  "to_parent_coords w x y = (let bw = border_delta w in (x + wx w + bw, y + wy w + bw))"

text \<open>\<open>i16::try_from(v).unwrap_or(i16::MAX).saturating_add(bw)\<close>, as an integer.\<close>

definition i16_edge :: "u16 \<Rightarrow> i16 \<Rightarrow> int" where
  "i16_edge v bw = clamp i16_min i16_max ((if uint v \<le> i16_max then uint v else i16_max) + sint bw)"

definition outer_contains_content_point :: "window \<Rightarrow> i16 \<Rightarrow> i16 \<Rightarrow> bool" where
  "outer_contains_content_point w x y =
     (let bw = border_delta w; right = i16_edge (wwidth w) bw; bottom = i16_edge (wheight w) bw
      in sint x \<ge> - sint bw \<and> sint y \<ge> - sint bw \<and> sint x < right \<and> sint y < bottom)"

end
