(* ===== verification/Gcs.thy ===== *)
theory Gcs
  imports Fonts Window_Ops
begin

unbundle bit_operations_syntax

text \<open>
  Graphics contexts in the table (\<open>resources/gc.rs\<close>): creating, changing, copying and freeing
  them, and resolving one into the state a drawing request uses. Every change returns the host
  pixmaps the context no longer holds, so that the caller can free the orphans.
\<close>

section \<open>Changes\<close>

text \<open>\<open>if let Some(x) = v { ... }\<close> on the context.\<close>

definition when_some :: "'a option \<Rightarrow> ('a \<Rightarrow> gc \<Rightarrow> gc) \<Rightarrow> gc \<Rightarrow> gc" where
  "when_some v f g = (case v of None \<Rightarrow> g | Some x \<Rightarrow> f x g)"

lemma when_some_simps [simp]: "when_some None f g = g" "when_some (Some x) f g = f x g"
  by (simp_all add: when_some_def)

definition apply_gc_change :: "gc \<Rightarrow> gc_change_view \<Rightarrow> gc" where
  "apply_gc_change g0 c =
     (let g = when_some (v_function c) (\<lambda>x g. g\<lparr>gc_function := gc_function_from_protocol x\<rparr>) g0;
          g = when_some (v_plane_mask c) (\<lambda>x g. g\<lparr>plane_mask := x\<rparr>) g;
          g = when_some (v_foreground c) (\<lambda>x g. g\<lparr>foreground := x\<rparr>) g;
          g = when_some (v_background c) (\<lambda>x g. g\<lparr>background := x\<rparr>) g;
          g = when_some (v_line_width c) (\<lambda>x g. g\<lparr>line_width := x\<rparr>) g;
          g = when_some (v_line_style c) (\<lambda>x g. g\<lparr>line_style := line_style_from_protocol x\<rparr>) g;
          g = when_some (v_cap_style c) (\<lambda>x g. g\<lparr>cap_style := cap_style_from_protocol x\<rparr>) g;
          g = when_some (v_join_style c) (\<lambda>x g. g\<lparr>join_style := join_style_from_protocol x\<rparr>) g;
          g = when_some (v_fill_style c) (\<lambda>x g. g\<lparr>fill_style := fill_style_from_protocol x\<rparr>) g;
          g = when_some (v_fill_rule c) (\<lambda>x g. g\<lparr>fill_rule := fill_rule_from_protocol x\<rparr>) g;
          g = when_some (v_tile c) (\<lambda>x g. g\<lparr>tile := Some x\<rparr>) g;
          g = when_some (v_stipple c) (\<lambda>x g. g\<lparr>stipple := Some x\<rparr>) g;
          g = when_some (v_tile_x_origin c) (\<lambda>x g. g\<lparr>tile_x_origin := x\<rparr>) g;
          g = when_some (v_tile_y_origin c) (\<lambda>x g. g\<lparr>tile_y_origin := x\<rparr>) g;
          g = when_some (v_subwindow_mode c) (\<lambda>x g. g\<lparr>subwindow_mode := subwindow_mode_from_protocol x\<rparr>) g;
          g = when_some (v_graphics_exposures c) (\<lambda>x g. g\<lparr>graphics_exposures := x\<rparr>) g;
          g = when_some (v_clip_x_origin c) (\<lambda>x g. g\<lparr>clip_x_origin := x\<rparr>) g;
          g = when_some (v_clip_y_origin c) (\<lambda>x g. g\<lparr>clip_y_origin := x\<rparr>) g;
          g = when_some (v_clip_mask c) (\<lambda>x g. g\<lparr>clip_rectangles := None, clip_pixmap := x\<rparr>) g;
          g = when_some (v_dash_offset c) (\<lambda>x g. g\<lparr>dash_offset := x\<rparr>) g;
          g = when_some (v_dashes c) (\<lambda>n g. if n \<noteq> 0 then g\<lparr>dashes := [n, n], dash_offset := 0\<rparr> else g) g
      in when_some (v_arc_mode c) (\<lambda>x g. g\<lparr>arc_mode := arc_mode_from_protocol x\<rparr>) g)"

definition opt_pixmap_host :: "resource_table \<Rightarrow> u32 option \<Rightarrow> u32 option" where
  "opt_pixmap_host t v = Option.bind v (pixmap_host t)"

definition drawable_depth :: "resource_table \<Rightarrow> u32 \<Rightarrow> u8" where
  "drawable_depth t d =
     (case windows t d of
        Some w \<Rightarrow> wdepth w
      | None \<Rightarrow> (case pixmaps t d of Some p \<Rightarrow> pm_depth p | None \<Rightarrow> 0))"

definition create_gc :: "resource_table \<Rightarrow> u32 \<Rightarrow> create_gc_request \<Rightarrow> resource_table" where
  "create_gc t own r =
     (let v = cg_values r;
          mask = (case v_clip_mask v of Some (Some pixmap) \<Rightarrow> Some pixmap | _ \<Rightarrow> None);
          g0 = with_defaults (cg_gc r) (cg_drawable r) own;
          g1 = g0\<lparr>gc_depth := drawable_depth t (cg_drawable r),
                  tile_host_xid := opt_pixmap_host t (v_tile v),
                  stipple_host_xid := opt_pixmap_host t (v_stipple v),
                  clip_pixmap := mask,
                  clip_pixmap_host_xid := opt_pixmap_host t mask\<rparr>;
          f = (case Option.bind (cg_font r) (fonts t) of Some k \<Rightarrow> Some k | None \<Rightarrow> default_font t);
          g2 = apply_gc_change g1 (v\<lparr>v_clip_mask := None\<rparr>)
      in set_gc_font_ref (t\<lparr>gcs := (gcs t)(cg_gc r \<mapsto> g2)\<rparr>) (cg_gc r) f)"

text \<open>The context after a change, with the host pixmaps of what the request names.\<close>

definition changed_gc :: "resource_table \<Rightarrow> gc_change_view \<Rightarrow> gc \<Rightarrow> gc" where
  "changed_gc t v g =
     (let g1 = apply_gc_change g v;
          g2 = (if v_clip_mask v \<noteq> None
                then g1\<lparr>clip_pixmap_host_xid := opt_pixmap_host t (Option.bind (v_clip_mask v) (\<lambda>x. x))\<rparr> else g1);
          g3 = (if v_tile v \<noteq> None then g2\<lparr>tile_host_xid := opt_pixmap_host t (v_tile v)\<rparr> else g2)
      in if v_stipple v \<noteq> None then g3\<lparr>stipple_host_xid := opt_pixmap_host t (v_stipple v)\<rparr> else g3)"

definition change_gc :: "resource_table \<Rightarrow> gc_change \<Rightarrow> resource_table \<times> u32 list" where
  "change_gc t r =
     (case gcs t (ch_gc r) of
        None \<Rightarrow> (t, [])
      | Some g \<Rightarrow>
          let g' = changed_gc t (ch_values r) g;
              t1 = t\<lparr>gcs := (gcs t)(ch_gc r \<mapsto> g')\<rparr>
          in (case Option.bind (ch_font r) (fonts t1) of
                None \<Rightarrow> t1
              | Some f \<Rightarrow> set_gc_font_ref t1 (ch_gc r) (Some f),
              displaced (held_host_pixmaps g) (held_host_pixmaps g')))"

text \<open>\<open>if let Some(gc) = self.gcs.get_mut(&id)\<close>, and the displaced host pixmaps.\<close>

definition modify_gc :: "resource_table \<Rightarrow> u32 \<Rightarrow> (gc \<Rightarrow> gc) \<Rightarrow> resource_table \<times> u32 list" where
  "modify_gc t i f =
     (case gcs t i of
        None \<Rightarrow> (t, [])
      | Some g \<Rightarrow> (t\<lparr>gcs := (gcs t)(i \<mapsto> f g)\<rparr>, displaced (held_host_pixmaps g) (held_host_pixmaps (f g))))"

definition dashed :: "u16 \<Rightarrow> u8 list \<Rightarrow> gc \<Rightarrow> gc" where
  "dashed offset ds g =
     (let g' = g\<lparr>dash_offset := offset\<rparr> in
      if ds = [] then g' else if even (length ds) then g'\<lparr>dashes := ds\<rparr> else g'\<lparr>dashes := ds @ ds\<rparr>)"

definition set_dashes :: "resource_table \<Rightarrow> u32 \<Rightarrow> u16 \<Rightarrow> u8 list \<Rightarrow> resource_table" where
  "set_dashes t i offset ds = fst (modify_gc t i (dashed offset ds))"

definition clip_to :: "clip_rectangles \<Rightarrow> gc \<Rightarrow> gc" where
  "clip_to c g = g\<lparr>clip_pixmap := None, clip_pixmap_host_xid := None, clip_x_origin := x_origin c,
     clip_y_origin := y_origin c, clip_rectangles := Some c\<rparr>"

definition set_clip_rectangles :: "resource_table \<Rightarrow> set_clip_rectangles_request \<Rightarrow> resource_table \<times> u32 list" where
  "set_clip_rectangles t r = modify_gc t (sc_gc r) (clip_to (sc_clip r))"

definition clip_origin :: "i16 \<Rightarrow> i16 \<Rightarrow> gc \<Rightarrow> gc" where
  "clip_origin x y g = g\<lparr>clip_x_origin := x, clip_y_origin := y\<rparr>"

definition set_gc_clip_origin :: "resource_table \<Rightarrow> u32 \<Rightarrow> i16 \<Rightarrow> i16 \<Rightarrow> resource_table" where
  "set_gc_clip_origin t i x y = fst (modify_gc t i (clip_origin x y))"

definition unclipped :: "gc \<Rightarrow> gc" where
  "unclipped g = g\<lparr>clip_rectangles := None, clip_pixmap := None, clip_pixmap_host_xid := None\<rparr>"

definition clear_gc_clip :: "resource_table \<Rightarrow> u32 \<Rightarrow> resource_table \<times> u32 list" where
  "clear_gc_clip t i = modify_gc t i unclipped"

section \<open>Copying\<close>

text \<open>\<open>if value_mask & bit != 0 { ... }\<close>.\<close>

definition when_bit :: "u32 \<Rightarrow> u32 \<Rightarrow> (gc \<Rightarrow> gc) \<Rightarrow> gc \<Rightarrow> gc" where
  "when_bit vm b f g = (if vm AND b \<noteq> 0 then f g else g)"

definition copied_gc :: "u32 \<Rightarrow> gc \<Rightarrow> gc \<Rightarrow> gc" where
  "copied_gc m s g0 =
     (let g = when_bit m 0x1 (\<lambda>g. g\<lparr>gc_function := gc_function s\<rparr>) g0;
          g = when_bit m 0x2 (\<lambda>g. g\<lparr>plane_mask := plane_mask s\<rparr>) g;
          g = when_bit m 0x4 (\<lambda>g. g\<lparr>foreground := foreground s\<rparr>) g;
          g = when_bit m 0x8 (\<lambda>g. g\<lparr>background := background s\<rparr>) g;
          g = when_bit m 0x10 (\<lambda>g. g\<lparr>line_width := line_width s\<rparr>) g;
          g = when_bit m 0x20 (\<lambda>g. g\<lparr>line_style := line_style s\<rparr>) g;
          g = when_bit m 0x40 (\<lambda>g. g\<lparr>cap_style := cap_style s\<rparr>) g;
          g = when_bit m 0x80 (\<lambda>g. g\<lparr>join_style := join_style s\<rparr>) g;
          g = when_bit m 0x100 (\<lambda>g. g\<lparr>fill_style := fill_style s\<rparr>) g;
          g = when_bit m 0x200 (\<lambda>g. g\<lparr>fill_rule := fill_rule s\<rparr>) g;
          g = when_bit m 0x400 (\<lambda>g. g\<lparr>tile := tile s, tile_host_xid := tile_host_xid s\<rparr>) g;
          g = when_bit m 0x800 (\<lambda>g. g\<lparr>stipple := stipple s, stipple_host_xid := stipple_host_xid s\<rparr>) g;
          g = when_bit m 0x1000 (\<lambda>g. g\<lparr>tile_x_origin := tile_x_origin s\<rparr>) g;
          g = when_bit m 0x2000 (\<lambda>g. g\<lparr>tile_y_origin := tile_y_origin s\<rparr>) g;
          g = when_bit m 0x8000 (\<lambda>g. g\<lparr>subwindow_mode := subwindow_mode s\<rparr>) g;
          g = when_bit m 0x10000 (\<lambda>g. g\<lparr>graphics_exposures := graphics_exposures s\<rparr>) g;
          g = when_bit m 0x20000 (\<lambda>g. g\<lparr>clip_x_origin := clip_x_origin s\<rparr>) g;
          g = when_bit m 0x40000 (\<lambda>g. g\<lparr>clip_y_origin := clip_y_origin s\<rparr>) g;
          g = when_bit m 0x80000 (\<lambda>g. g\<lparr>clip_rectangles := clip_rectangles s, clip_pixmap := clip_pixmap s,
                clip_pixmap_host_xid := clip_pixmap_host_xid s\<rparr>) g;
          g = when_bit m 0x100000 (\<lambda>g. g\<lparr>dash_offset := dash_offset s\<rparr>) g;
          g = when_bit m 0x200000 (\<lambda>g. g\<lparr>dashes := dashes s\<rparr>) g
      in when_bit m 0x400000 (\<lambda>g. g\<lparr>arc_mode := arc_mode s\<rparr>) g)"

definition copy_gc :: "resource_table \<Rightarrow> u32 \<Rightarrow> u32 \<Rightarrow> u32 \<Rightarrow> resource_table \<times> u32 list" where
  "copy_gc t src dst value_mask =
     (case gcs t src of
        None \<Rightarrow> (t, [])
      | Some s \<Rightarrow>
          (case gcs t dst of
             None \<Rightarrow> (t, [])
           | Some d \<Rightarrow>
               let d' = copied_gc value_mask s d;
                   t1 = t\<lparr>gcs := (gcs t)(dst \<mapsto> d')\<rparr>
               in (if value_mask AND 0x4000 \<noteq> 0 then set_gc_font_ref t1 dst (gc_font s) else t1,
                   displaced (held_host_pixmaps d) (held_host_pixmaps d'))))"

definition free_gc :: "resource_table \<Rightarrow> u32 \<Rightarrow> resource_table \<times> u32 list" where
  "free_gc t i =
     (case gcs t i of
        None \<Rightarrow> (t, [])
      | Some g \<Rightarrow> (unref_opt (t\<lparr>gcs := (gcs t)(i := None)\<rparr>) (gc_font g), displaced (held_host_pixmaps g) [None, None, None]))"

section \<open>Resolution\<close>

definition gc_foreground_of :: "resource_table \<Rightarrow> u32 \<Rightarrow> u32" where
  "gc_foreground_of t i = map_or 0 foreground (gcs t i)"

definition gc_background_of :: "resource_table \<Rightarrow> u32 \<Rightarrow> u32" where
  "gc_background_of t i = map_or 0x00ffffff background (gcs t i)"

definition gc_clip_rectangles :: "resource_table \<Rightarrow> u32 \<Rightarrow> clip_rectangles option" where
  "gc_clip_rectangles t i = Option.bind (gcs t i) clip_rectangles"

definition gc_clip_state_of :: "resource_table \<Rightarrow> u32 \<Rightarrow> gc_clip_state" where
  "gc_clip_state_of t i =
     (case gcs t i of
        None \<Rightarrow> Clip_None
      | Some g \<Rightarrow>
          (case clip_rectangles g of
             Some rects \<Rightarrow> Clip_Rectangles rects
           | None \<Rightarrow>
               (case clip_pixmap_host_xid g of
                  Some host \<Rightarrow> Clip_Pixmap host (clip_x_origin g) (clip_y_origin g)
                | None \<Rightarrow> Clip_None)))"

definition gc_fill_state_of :: "resource_table \<Rightarrow> u32 \<Rightarrow> gc_fill_state" where
  "gc_fill_state_of t i =
     (case gcs t i of
        None \<Rightarrow> Fill_Solid
      | Some g \<Rightarrow>
          (case fill_style g of
             Tiled \<Rightarrow>
               (case tile_host_xid g of
                  Some host \<Rightarrow> Fill_Tiled host (tile_x_origin g) (tile_y_origin g)
                | None \<Rightarrow> Fill_Solid)
           | _ \<Rightarrow> Fill_Solid))"

definition resolve_clip :: "gc \<Rightarrow> clip_state" where
  "resolve_clip g =
     (case clip_rectangles g of
        Some rects \<Rightarrow> Rectangles (clip_x_origin g, clip_y_origin g) rects
      | None \<Rightarrow>
          (case clip_pixmap_host_xid g of
             Some host \<Rightarrow> Masked (clip_x_origin g, clip_y_origin g) host
           | None \<Rightarrow> Unclipped))"

definition resolve_fill :: "gc \<Rightarrow> fill_state" where
  "resolve_fill g =
     (let orig = (tile_x_origin g, tile_y_origin g) in
      case fill_style g of
        Solid \<Rightarrow> State_Solid
      | Tiled \<Rightarrow> map_or State_Solid (\<lambda>p. State_Tiled p orig) (tile_host_xid g)
      | Stippled \<Rightarrow> map_or State_Solid (\<lambda>p. State_Stippled p orig) (stipple_host_xid g)
      | OpaqueStippled \<Rightarrow> map_or State_Solid (\<lambda>p. State_OpaqueStippled p orig) (stipple_host_xid g))"

definition resolve_draw_state :: "resource_table \<Rightarrow> u32 \<Rightarrow> draw_state option" where
  "resolve_draw_state t i =
     map_option (\<lambda>g. \<lparr>ds_foreground = foreground g, ds_background = background g, ds_line_width = line_width g,
       ds_line_style = line_style g, ds_cap_style = cap_style g, ds_join_style = join_style g,
       ds_fill_style = fill_style g, ds_fill_rule = fill_rule g, ds_function = gc_function g,
       ds_plane_mask = plane_mask g,
       ds_font = map_option font_host_xid (Option.bind (gc_font g) (font_object_of t)),
       ds_clip = resolve_clip g, ds_fill = resolve_fill g, ds_subwindow_mode = subwindow_mode g,
       ds_graphics_exposures = graphics_exposures g, ds_dashes = dashes g, ds_dash_offset = dash_offset g,
       ds_arc_mode = arc_mode g\<rparr>) (gcs t i)"

section \<open>The invariant of a context\<close>

text \<open>
  A clip mask and clip rectangles exclude each other, a snapshot of a host pixmap belongs to
  a pixmap the context names, and the dash pattern is a non-empty cycle of on/off pairs.
\<close>

definition gc_ok :: "gc \<Rightarrow> bool" where
  "gc_ok g \<longleftrightarrow>
     (clip_rectangles g \<noteq> None \<longrightarrow> clip_pixmap g = None)
     \<and> (clip_pixmap g = None \<longrightarrow> clip_pixmap_host_xid g = None)
     \<and> (tile g = None \<longrightarrow> tile_host_xid g = None)
     \<and> (stipple g = None \<longrightarrow> stipple_host_xid g = None)
     \<and> dashes g \<noteq> [] \<and> even (length (dashes g))"

lemma when_some_keep: "(\<And>x g. F (f x g) = F g) \<Longrightarrow> F (when_some v f g) = F g"
  by (cases v) simp_all

lemma when_bit_keep: "(\<And>g. F (f g) = F g) \<Longrightarrow> F (when_bit m b f g) = F g"
  by (simp add: when_bit_def)

lemma when_bit_take: "m AND b \<noteq> 0 \<Longrightarrow> when_bit m b f g = f g"
  by (simp add: when_bit_def)

lemma when_bit_skip: "m AND b = 0 \<Longrightarrow> when_bit m b f g = g"
  by (simp add: when_bit_def)

lemmas when_some_fields =
  when_some_keep [of gc_font] when_some_keep [of gc_owner] when_some_keep [of clip_rectangles]
  when_some_keep [of clip_pixmap] when_some_keep [of clip_pixmap_host_xid] when_some_keep [of tile]
  when_some_keep [of stipple] when_some_keep [of tile_host_xid] when_some_keep [of stipple_host_xid]
  when_some_keep [of dashes]

lemmas when_bit_fields =
  when_bit_keep [of gc_font] when_bit_keep [of gc_owner] when_bit_keep [of clip_rectangles]
  when_bit_keep [of clip_pixmap] when_bit_keep [of clip_pixmap_host_xid] when_bit_keep [of tile]
  when_bit_keep [of stipple] when_bit_keep [of tile_host_xid] when_bit_keep [of stipple_host_xid]
  when_bit_keep [of dashes]

lemma apply_gc_change_fields:
  "gc_font (apply_gc_change g c) = gc_font g"
  "gc_owner (apply_gc_change g c) = gc_owner g"
  "clip_rectangles (apply_gc_change g c) = (if v_clip_mask c = None then clip_rectangles g else None)"
  "clip_pixmap (apply_gc_change g c) = (case v_clip_mask c of None \<Rightarrow> clip_pixmap g | Some x \<Rightarrow> x)"
  "clip_pixmap_host_xid (apply_gc_change g c) = clip_pixmap_host_xid g"
  "tile (apply_gc_change g c) = (case v_tile c of None \<Rightarrow> tile g | Some x \<Rightarrow> Some x)"
  "stipple (apply_gc_change g c) = (case v_stipple c of None \<Rightarrow> stipple g | Some x \<Rightarrow> Some x)"
  "tile_host_xid (apply_gc_change g c) = tile_host_xid g"
  "stipple_host_xid (apply_gc_change g c) = stipple_host_xid g"
  "dashes (apply_gc_change g c) = (case v_dashes c of None \<Rightarrow> dashes g | Some n \<Rightarrow> if n = 0 then dashes g else [n, n])"
  unfolding apply_gc_change_def Let_def
  subgoal by (simp add: when_some_fields)
  subgoal by (simp add: when_some_fields)
  subgoal by (cases "v_clip_mask c") (simp_all add: when_some_fields)
  subgoal by (cases "v_clip_mask c") (simp_all add: when_some_fields)
  subgoal by (simp add: when_some_fields)
  subgoal by (cases "v_tile c") (simp_all add: when_some_fields)
  subgoal by (cases "v_stipple c") (simp_all add: when_some_fields)
  subgoal by (simp add: when_some_fields)
  subgoal by (simp add: when_some_fields)
  subgoal by (cases "v_dashes c") (simp_all add: when_some_fields)
  done

lemma copied_gc_fields:
  "gc_font (copied_gc m s g) = gc_font g"
  "gc_owner (copied_gc m s g) = gc_owner g"
  "(clip_rectangles (copied_gc m s g), clip_pixmap (copied_gc m s g), clip_pixmap_host_xid (copied_gc m s g))
    = (if m AND 0x80000 \<noteq> 0 then (clip_rectangles s, clip_pixmap s, clip_pixmap_host_xid s)
       else (clip_rectangles g, clip_pixmap g, clip_pixmap_host_xid g))"
  "(tile (copied_gc m s g), tile_host_xid (copied_gc m s g))
    = (if m AND 0x400 \<noteq> 0 then (tile s, tile_host_xid s) else (tile g, tile_host_xid g))"
  "(stipple (copied_gc m s g), stipple_host_xid (copied_gc m s g))
    = (if m AND 0x800 \<noteq> 0 then (stipple s, stipple_host_xid s) else (stipple g, stipple_host_xid g))"
  "dashes (copied_gc m s g) = (if m AND 0x200000 \<noteq> 0 then dashes s else dashes g)"
  unfolding copied_gc_def Let_def
  subgoal by (simp add: when_bit_fields)
  subgoal by (simp add: when_bit_fields)
  subgoal by (cases "m AND 0x80000 = 0") (simp_all add: when_bit_take when_bit_skip when_bit_fields)
  subgoal by (cases "m AND 0x400 = 0") (simp_all add: when_bit_take when_bit_skip when_bit_fields)
  subgoal by (cases "m AND 0x800 = 0") (simp_all add: when_bit_take when_bit_skip when_bit_fields)
  subgoal by (cases "m AND 0x200000 = 0") (simp_all add: when_bit_take when_bit_skip when_bit_fields)
  done

lemma changed_gc_fields:
  "gc_font (changed_gc t v g) = gc_font g" "gc_owner (changed_gc t v g) = gc_owner g"
  by (simp_all add: changed_gc_def Let_def apply_gc_change_fields)

lemma with_defaults_ok: "gc_ok (with_defaults i d own)"
  by (simp add: gc_ok_def with_defaults_def)

lemma changed_gc_ok: "gc_ok g \<Longrightarrow> gc_ok (changed_gc t v g)"
  by (auto simp: gc_ok_def changed_gc_def Let_def apply_gc_change_fields opt_pixmap_host_def split: option.splits)

lemma copied_gc_ok: "gc_ok s \<Longrightarrow> gc_ok g \<Longrightarrow> gc_ok (copied_gc m s g)"
  using copied_gc_fields(3,4,5) [of m s g] copied_gc_fields(6) [of m s g]
  by (simp add: gc_ok_def split: if_splits)

lemma small_changes_ok:
  "gc_ok g \<Longrightarrow> gc_ok (dashed off ds g)" "gc_ok g \<Longrightarrow> gc_ok (clip_to c g)"
  "gc_ok g \<Longrightarrow> gc_ok (clip_origin x y g)" "gc_ok g \<Longrightarrow> gc_ok (unclipped g)"
  "gc_ok g \<Longrightarrow> gc_ok (g\<lparr>gc_font := f\<rparr>)"
  by (simp_all add: gc_ok_def dashed_def clip_to_def clip_origin_def unclipped_def Let_def)

lemma created_gc_ok:
  "gc_ok (apply_gc_change ((with_defaults i d own)\<lparr>gc_depth := dep, tile_host_xid := opt_pixmap_host t (v_tile v),
     stipple_host_xid := opt_pixmap_host t (v_stipple v), clip_pixmap := p, clip_pixmap_host_xid := opt_pixmap_host t p\<rparr>)
     (v\<lparr>v_clip_mask := None\<rparr>))"
  by (auto simp: gc_ok_def apply_gc_change_fields with_defaults_def opt_pixmap_host_def split: option.splits)

section \<open>The invariant of the table\<close>

definition gcs_ok :: "resource_table \<Rightarrow> bool" where
  "gcs_ok t \<longleftrightarrow> (\<forall>i g. gcs t i = Some g \<longrightarrow> gc_ok g)"

lemma gcs_ok_upd: "gcs_ok t \<Longrightarrow> gc_ok g \<Longrightarrow> gcs_ok (t\<lparr>gcs := (gcs t)(i \<mapsto> g)\<rparr>)"
  by (simp add: gcs_ok_def)

lemma opt_ref_frame [simp]: "gcs (ref_opt t v) = gcs t" "gcs (unref_opt t v) = gcs t"
  "fonts (ref_opt t v) = fonts t" "fonts (unref_opt t v) = fonts t"
  by (cases v; simp add: ref_opt_def unref_opt_def)+

lemma set_gc_font_ref_gcs_ok: "gcs_ok t \<Longrightarrow> gcs_ok (set_gc_font_ref t i f)"
  by (auto simp: gcs_ok_def set_gc_font_ref_def small_changes_ok split: option.splits if_splits)

lemma modify_gc_gcs_ok: "gcs_ok t \<Longrightarrow> (\<And>g. gc_ok g \<Longrightarrow> gc_ok (f g)) \<Longrightarrow> gcs_ok (fst (modify_gc t i f))"
  by (auto simp: modify_gc_def gcs_ok_def split: option.splits)

lemma create_gc_gcs_ok: "gcs_ok t \<Longrightarrow> gcs_ok (create_gc t own r)"
  unfolding create_gc_def Let_def by (intro set_gc_font_ref_gcs_ok gcs_ok_upd created_gc_ok)

lemma change_gc_gcs_ok: "gcs_ok t \<Longrightarrow> gcs_ok (fst (change_gc t r))"
proof -
  assume t: "gcs_ok t"
  have "gcs_ok (t\<lparr>gcs := (gcs t)(ch_gc r \<mapsto> changed_gc t (ch_values r) g)\<rparr>)" if "gcs t (ch_gc r) = Some g" for g
    using t that by (auto simp: gcs_ok_def changed_gc_ok)
  then show ?thesis using t by (auto simp: change_gc_def Let_def set_gc_font_ref_gcs_ok split: option.splits)
qed

lemma copy_gc_gcs_ok: "gcs_ok t \<Longrightarrow> gcs_ok (fst (copy_gc t src dst vm))"
proof -
  assume t: "gcs_ok t"
  have "gcs_ok (t\<lparr>gcs := (gcs t)(dst \<mapsto> copied_gc vm s d)\<rparr>)" if "gcs t src = Some s" "gcs t dst = Some d" for s d
    using t that by (auto simp: gcs_ok_def copied_gc_ok)
  then show ?thesis using t by (auto simp: copy_gc_def Let_def set_gc_font_ref_gcs_ok split: option.splits)
qed

lemma free_gc_gcs_ok: "gcs_ok t \<Longrightarrow> gcs_ok (fst (free_gc t i))"
  by (auto simp: free_gc_def gcs_ok_def split: option.splits)

section \<open>Fonts of the contexts\<close>

text \<open>A change that keeps the context's font keeps the font counts.\<close>

lemma same_font_upd:
  assumes "fonts_with P t" "gc_fonts t i = gc_font g"
  shows "fonts_with P (t\<lparr>gcs := (gcs t)(i \<mapsto> g)\<rparr>)"
proof -
  have "gc_fonts (t\<lparr>gcs := (gcs t)(i \<mapsto> g)\<rparr>) = gc_fonts t"
    using assms(2) by (auto simp: gc_fonts_def)
  then have "font_users (t\<lparr>gcs := (gcs t)(i \<mapsto> g)\<rparr>) k = font_users t k" for k
    by (simp only: font_users_def) simp
  then show ?thesis using assms(1) by (simp add: fonts_with_def font_count_def)
qed

lemma create_gc_fonts:
  assumes "fonts_ok t" "gcs t (cg_gc r) = None"
  shows "fonts_ok (create_gc t own r)"
proof -
  let ?f = "case Option.bind (cg_font r) (fonts t) of Some k \<Rightarrow> Some k | None \<Rightarrow> default_font t"
  have "set_option ?f \<subseteq> dom (font_objects t)"
    using users_live(1,3) [OF assms(1)] by (cases "cg_font r") (auto split: option.splits Option.bind_split)
  moreover have "gc_fonts t (cg_gc r) = None" using assms(2) by (simp add: gc_fonts_def)
  ultimately show ?thesis unfolding create_gc_def Let_def
    by (intro set_gc_font_ref_ok same_font_upd assms(1))
      (simp_all add: apply_gc_change_fields with_defaults_def)
qed

lemma change_gc_fonts: "fonts_ok t \<Longrightarrow> fonts_ok (fst (change_gc t r))"
proof (cases "gcs t (ch_gc r)")
  case (Some g)
  assume t: "fonts_ok t"
  let ?t1 = "t\<lparr>gcs := (gcs t)(ch_gc r \<mapsto> changed_gc t (ch_values r) g)\<rparr>"
  have t1: "fonts_ok ?t1" by (rule same_font_upd [OF t]) (simp add: gc_fonts_def Some changed_gc_fields)
  have "f \<in> dom (font_objects ?t1)" if "Option.bind (ch_font r) (fonts ?t1) = Some f" for f
    using that users_live(1) [OF t1] by (cases "ch_font r") auto
  then show ?thesis using t1 set_gc_font_ref_ok [OF t1]
    by (auto simp: change_gc_def Some Let_def split: option.splits)
qed (simp add: change_gc_def)

lemma modify_gc_fonts: "fonts_ok t \<Longrightarrow> (\<And>g. gc_font (f g) = gc_font g) \<Longrightarrow> fonts_ok (fst (modify_gc t i f))"
  by (auto simp: modify_gc_def gc_fonts_def intro!: same_font_upd split: option.splits)

lemma copy_gc_fonts: "fonts_ok t \<Longrightarrow> fonts_ok (fst (copy_gc t src dst vm))"
proof (cases "gcs t src"; cases "gcs t dst")
  fix s d assume t: "fonts_ok t" and s: "gcs t src = Some s" and d: "gcs t dst = Some d"
  let ?t1 = "t\<lparr>gcs := (gcs t)(dst \<mapsto> copied_gc vm s d)\<rparr>"
  have t1: "fonts_ok ?t1" by (rule same_font_upd [OF t]) (simp add: gc_fonts_def d copied_gc_fields)
  have "set_option (gc_font s) \<subseteq> dom (font_objects ?t1)"
    using users_live(2) [OF t, of src] s by (auto simp: gc_fonts_def elem_set)
  from set_gc_font_ref_ok [OF t1 this] t1 show ?thesis by (simp add: copy_gc_def s d Let_def)
qed (simp_all add: copy_gc_def)

lemma free_gc_fonts: "fonts_ok t \<Longrightarrow> fonts_ok (fst (free_gc t i))"
proof (cases "gcs t i")
  case (Some g)
  assume "fonts_ok t"
  then have "fonts_with ({#} + opt_mset (Option.bind None gc_font)) t" by (simp add: opt_mset_def)
  from move_into_gc [OF this, of i] show ?thesis
    by (simp add: free_gc_def Some gc_fonts_def unref_opt_with)
qed (simp add: free_gc_def)

end
