(* ===== verification/Pixmaps.thy ===== *)
theory Pixmaps
  imports Window_Ops
begin

text \<open>
  Window properties in the table, pixmaps, and the references that keep a host pixmap alive
  (\<open>resources/pixmap_props.rs\<close>): window backgrounds and borders, graphics contexts and pixmap
  resources. A window whose background is ParentRelative inherits its parent's; the walk
  remembers the windows it has seen, which bounds it.
\<close>

section \<open>Properties and pixmaps\<close>

definition window_property :: "resource_table \<Rightarrow> u32 \<Rightarrow> u32 \<Rightarrow> property_value option" where
  "window_property t w atom = Option.bind (windows t w) (\<lambda>win. properties win atom)"

definition set_window_property :: "resource_table \<Rightarrow> u32 \<Rightarrow> u32 \<Rightarrow> property_value \<Rightarrow> resource_table" where
  "set_window_property t w atom v =
     t\<lparr>windows := modify_window w (\<lambda>win. win\<lparr>properties := (properties win)(atom \<mapsto> v)\<rparr>) (windows t)\<rparr>"

definition delete_window_property :: "resource_table \<Rightarrow> u32 \<Rightarrow> u32 \<Rightarrow> resource_table \<times> property_value option" where
  "delete_window_property t w atom =
     (t\<lparr>windows := modify_window w (\<lambda>win. win\<lparr>properties := (properties win)(atom := None)\<rparr>) (windows t)\<rparr>,
      window_property t w atom)"

record create_pixmap_request =
  cp_depth :: u8
  cp_pixmap :: u32
  cp_drawable :: u32
  cp_width :: u16
  cp_height :: u16

definition create_pixmap :: "resource_table \<Rightarrow> u32 \<Rightarrow> create_pixmap_request \<Rightarrow> resource_table" where
  "create_pixmap t own r =
     t\<lparr>pixmaps := (pixmaps t)(cp_pixmap r \<mapsto> \<lparr>pm_id = cp_pixmap r, pm_drawable = cp_drawable r,
        pm_width = cp_width r, pm_height = cp_height r, pm_depth = cp_depth r, pm_owner = own,
        pm_host_xid = None, composite_name = False\<rparr>)\<rparr>"

text \<open>\<open>if let Some(p) = self.pixmaps.get_mut(&id) { ... true } else { false }\<close>.\<close>

definition modify_pixmap :: "resource_table \<Rightarrow> u32 \<Rightarrow> (pixmap \<Rightarrow> pixmap) \<Rightarrow> resource_table \<times> bool" where
  "modify_pixmap t i f =
     (case pixmaps t i of
        None \<Rightarrow> (t, False)
      | Some p \<Rightarrow> (t\<lparr>pixmaps := (pixmaps t)(i \<mapsto> f p)\<rparr>, True))"

definition mark_pixmap_composite_name :: "resource_table \<Rightarrow> u32 \<Rightarrow> resource_table" where
  "mark_pixmap_composite_name t i = fst (modify_pixmap t i (\<lambda>p. p\<lparr>composite_name := True\<rparr>))"

definition forget_composite_names :: "resource_table \<Rightarrow> u32 list \<Rightarrow> resource_table" where
  "forget_composite_names t names =
     t\<lparr>windows := (\<lambda>i. map_option (\<lambda>w. w\<lparr>composite_named_pixmaps :=
        filter (\<lambda>alias. client_pixmap alias \<notin> set names) (composite_named_pixmaps w)\<rparr>) (windows t i))\<rparr>"

definition free_pixmap :: "resource_table \<Rightarrow> u32 \<Rightarrow> resource_table \<times> pixmap option" where
  "free_pixmap t i =
     (case pixmaps t i of
        None \<Rightarrow> (t, None)
      | Some p \<Rightarrow>
          let t' = t\<lparr>pixmaps := (pixmaps t)(i := None)\<rparr>
          in (if composite_name p then forget_composite_names t' [i] else t', Some p))"

definition host_xid_named_by_pixmap :: "resource_table \<Rightarrow> u32 \<Rightarrow> bool" where
  "host_xid_named_by_pixmap t h \<longleftrightarrow> (\<exists>p \<in> ran (pixmaps t). composite_name p \<and> pm_host_xid p = Some h)"

definition has_deferred_name_ref :: "resource_table \<Rightarrow> u32 \<Rightarrow> bool" where
  "has_deferred_name_ref t h \<longleftrightarrow> h \<in> deferred_name_refs t"

definition defer_name_ref :: "resource_table \<Rightarrow> u32 \<Rightarrow> resource_table" where
  "defer_name_ref t h = t\<lparr>deferred_name_refs := insert h (deferred_name_refs t)\<rparr>"

definition host_pixmap_freed :: "resource_table \<Rightarrow> u32 \<Rightarrow> resource_table" where
  "host_pixmap_freed t h = t\<lparr>deferred_name_refs := deferred_name_refs t - {h}\<rparr>"

text \<open>\<open>keys\<close> is the order in which the windows are searched.\<close>

definition composite_named_pixmap_owner_window :: "resource_table \<Rightarrow> u32 list \<Rightarrow> u32 \<Rightarrow> u32 option" where
  "composite_named_pixmap_owner_window t keys p =
     Option.bind
       (List.find (\<lambda>i. case windows t i of
           None \<Rightarrow> False
         | Some w \<Rightarrow> list_ex (\<lambda>alias. client_pixmap alias = p) (composite_named_pixmaps w)) keys)
       (\<lambda>i. map_option wid (windows t i))"

definition set_pixmap_host_xid :: "resource_table \<Rightarrow> u32 \<Rightarrow> u32 \<Rightarrow> resource_table \<times> bool" where
  "set_pixmap_host_xid t i h = modify_pixmap t i (\<lambda>p. p\<lparr>pm_host_xid := Some h\<rparr>)"

definition update_pixmap_geometry :: "resource_table \<Rightarrow> u32 \<Rightarrow> u16 \<Rightarrow> u16 \<Rightarrow> u8 \<Rightarrow> resource_table \<times> bool" where
  "update_pixmap_geometry t i width height depth =
     modify_pixmap t i (\<lambda>p. p\<lparr>pm_width := width, pm_height := height, pm_depth := depth\<rparr>)"

section \<open>Backgrounds\<close>

definition window_background_pixmap_host_xid :: "resource_table \<Rightarrow> u32 \<Rightarrow> u32 option" where
  "window_background_pixmap_host_xid t i = Option.bind (windows t i) background_pixmap_host_xid"

record resolved_window_background =
  res_background_pixel :: u32
  res_background_pixmap_host_xid :: "u32 option"
  tile_origin_offset :: "int \<times> int"

function window_resolved_background_inner :: "window_map \<Rightarrow> u32 \<Rightarrow> u32 list \<Rightarrow> resolved_window_background option" where
  "window_resolved_background_inner ws i seen =
     (if i \<in> set seen then None
      else case ws i of
        None \<Rightarrow> None
      | Some w \<Rightarrow>
          if background_pixmap w = Some 1
          then map_option (\<lambda>r. r\<lparr>tile_origin_offset :=
                 (i32 (fst (tile_origin_offset r) + (sint (wx w) + uint (border_width w))),
                  i32 (snd (tile_origin_offset r) + (sint (wy w) + uint (border_width w))))\<rparr>)
                 (window_resolved_background_inner ws (parent w) (seen @ [i]))
          else if background_none w then None
          else Some \<lparr>res_background_pixel = background_pixel w,
                 res_background_pixmap_host_xid = background_pixmap_host_xid w, tile_origin_offset = (0, 0)\<rparr>)"
  by pat_completeness auto
termination
proof (relation "measure (\<lambda>(ws, i, seen). card (- set seen))")
  show "((ws, parent w, seen @ [i]), (ws, i, seen)) \<in> measure (\<lambda>(ws, i, seen). card (- set seen))"
    if "i \<notin> set seen" for ws w i and seen :: "u32 list"
  proof -
    have "- set (seen @ [i]) = - set seen - {i}" by auto
    moreover have "card (- set seen - {i}) < card (- set seen)"
      by (rule card_Diff1_less) (use that in auto)
    ultimately show ?thesis by simp
  qed
qed simp

declare window_resolved_background_inner.simps [simp del]

definition window_resolved_background :: "resource_table \<Rightarrow> u32 \<Rightarrow> resolved_window_background option" where
  "window_resolved_background t i = window_resolved_background_inner (windows t) i []"

section \<open>References to host pixmaps\<close>

definition host_xid_referenced_by_window_bg :: "resource_table \<Rightarrow> u32 \<Rightarrow> bool" where
  "host_xid_referenced_by_window_bg t h \<longleftrightarrow> (\<exists>w \<in> ran (windows t). background_pixmap_host_xid w = Some h)"

fun border_uses :: "u32 \<Rightarrow> border_source \<Rightarrow> bool" where
  "border_uses h (Pixel _) \<longleftrightarrow> False"
| "border_uses h (Pixmap _ host) \<longleftrightarrow> host = Some h"

definition host_xid_referenced_by_window_border :: "resource_table \<Rightarrow> u32 \<Rightarrow> bool" where
  "host_xid_referenced_by_window_border t h \<longleftrightarrow> (\<exists>w \<in> ran (windows t). border_uses h (border w))"

definition host_xid_referenced_by_gc :: "resource_table \<Rightarrow> u32 \<Rightarrow> bool" where
  "host_xid_referenced_by_gc t h \<longleftrightarrow>
     (\<exists>g \<in> ran (gcs t). clip_pixmap_host_xid g = Some h \<or> tile_host_xid g = Some h \<or> stipple_host_xid g = Some h)"

definition host_xid_owned_by_pixmap :: "resource_table \<Rightarrow> u32 \<Rightarrow> bool" where
  "host_xid_owned_by_pixmap t h \<longleftrightarrow> (\<exists>p \<in> ran (pixmaps t). pm_host_xid p = Some h)"

definition host_xid_still_referenced :: "resource_table \<Rightarrow> u32 \<Rightarrow> bool" where
  "host_xid_still_referenced t h \<longleftrightarrow> host_xid_referenced_by_window_bg t h
     \<or> host_xid_referenced_by_window_border t h \<or> host_xid_referenced_by_gc t h \<or> host_xid_owned_by_pixmap t h"

datatype host_drawable_target =
    Target_Window (target_nested: u32) (target_host: u32) (target_depth: u8)
  | Target_Pixmap (target_nested: u32) (target_host: u32) u16 u16 (target_depth: u8)

definition host_drawable_target :: "resource_table \<Rightarrow> u32 \<Rightarrow> host_drawable_target option" where
  "host_drawable_target t i =
     (case windows t i of
        Some w \<Rightarrow> map_option (\<lambda>h. Target_Window i h (wdepth w)) (host_xid w)
      | None \<Rightarrow>
          Option.bind (pixmaps t i) (\<lambda>p.
            map_option (\<lambda>h. Target_Pixmap i h (pm_width p) (pm_height p) (pm_depth p)) (pm_host_xid p)))"

definition present_completion_host :: "resource_table \<Rightarrow> u32 \<Rightarrow> u32 option" where
  "present_completion_host t i =
     (case Option.bind (windows t i) redirected_backing of
        Some b \<Rightarrow> Some (host_pixmap b)
      | None \<Rightarrow> map_option target_host (host_drawable_target t i))"

end
