(* ===== verification/Cursors.thy ===== *)
theory Cursors
  imports Window_Ops Refcounts
begin

text \<open>
  Pictures, glyph sets and cursors (\<open>resources/picture_font_cursor.rs\<close>). Several glyph set ids
  may name one host glyph set, which is counted; several cursor ids and windows may use one
  host cursor, which is searched for. Both are freed on the backend when the last user goes.
\<close>

section \<open>Pictures\<close>

definition create_picture :: "resource_table \<Rightarrow> u32 \<Rightarrow> picture_state \<Rightarrow> resource_table" where
  "create_picture t i s = t\<lparr>pictures := (pictures t)(i \<mapsto> s)\<rparr>"

definition free_picture :: "resource_table \<Rightarrow> u32 \<Rightarrow> resource_table \<times> picture_state option" where
  "free_picture t i = (t\<lparr>pictures := (pictures t)(i := None)\<rparr>, pictures t i)"

text \<open>
  \<open>extract_if\<close> and \<open>retain\<close>: the entries of \<open>m\<close> that satisfy \<open>p\<close>, in the order \<open>keys\<close> of the map,
  and the map without them.
\<close>

definition extract_if :: "('a \<Rightarrow> bool) \<Rightarrow> u32 list \<Rightarrow> (u32 \<rightharpoonup> 'a) \<Rightarrow> (u32 \<times> 'a) list" where
  "extract_if p keys m =
     flatten (map (\<lambda>i. Option.bind (m i) (\<lambda>x. if p x then Some (i, x) else None)) keys)"

definition drop_if :: "('a \<Rightarrow> bool) \<Rightarrow> (u32 \<rightharpoonup> 'a) \<Rightarrow> (u32 \<rightharpoonup> 'a)" where
  "drop_if p m = (\<lambda>i. Option.bind (m i) (\<lambda>x. if p x then None else Some x))"

definition host_frees :: "picture_state \<Rightarrow> (u32 \<times> u32 option) option" where
  "host_frees p = map_option (\<lambda>h. (h, host_owned_pixmap p)) (host_picture_xid p)"

definition on_windows :: "u32 list \<Rightarrow> picture_state \<Rightarrow> bool" where
  "on_windows ws p \<longleftrightarrow> (case pic_window p of None \<Rightarrow> False | Some w \<Rightarrow> w \<in> set ws)"

definition remove_pictures_on_windows ::
  "resource_table \<Rightarrow> u32 list \<Rightarrow> u32 list \<Rightarrow> resource_table \<times> (u32 \<times> u32 option) list" where
  "remove_pictures_on_windows t keys ws =
     (t\<lparr>pictures := drop_if (on_windows ws) (pictures t)\<rparr>,
      flatten (map (\<lambda>x. host_frees (snd x)) (extract_if (on_windows ws) keys (pictures t))))"

section \<open>Glyph sets\<close>

definition release_host_glyphset_ref :: "resource_table \<Rightarrow> u32 \<Rightarrow> resource_table \<times> bool" where
  "release_host_glyphset_ref t h =
     (case host_glyphset_refcounts t h of
        None \<Rightarrow> (t, True)
      | Some n \<Rightarrow>
          if n > 1 then (t\<lparr>host_glyphset_refcounts := (host_glyphset_refcounts t)(h \<mapsto> n - 1)\<rparr>, False)
          else (t\<lparr>host_glyphset_refcounts := (host_glyphset_refcounts t)(h := None)\<rparr>, True))"

text \<open>\<open>*entry(h).or_insert(0) += 1\<close>.\<close>

definition add_host_glyphset_ref :: "resource_table \<Rightarrow> u32 \<Rightarrow> resource_table" where
  "add_host_glyphset_ref t h =
     t\<lparr>host_glyphset_refcounts := (host_glyphset_refcounts t)(h \<mapsto> unwrap_or (host_glyphset_refcounts t h) 0 + 1)\<rparr>"

definition create_glyphset :: "resource_table \<Rightarrow> u32 \<Rightarrow> glyphset_state \<Rightarrow> resource_table" where
  "create_glyphset t i s =
     (let t1 = (case glyphsets t i of
                  None \<Rightarrow> t
                | Some old \<Rightarrow> fst (release_host_glyphset_ref (t\<lparr>glyphsets := (glyphsets t)(i := None)\<rparr>) (host_glyphset_xid old)));
          t2 = add_host_glyphset_ref t1 (host_glyphset_xid s)
      in t2\<lparr>glyphsets := (glyphsets t2)(i \<mapsto> s)\<rparr>)"

definition free_glyphset :: "resource_table \<Rightarrow> u32 \<Rightarrow> resource_table \<times> glyphset_state option" where
  "free_glyphset t i =
     (case glyphsets t i of
        None \<Rightarrow> (t, None)
      | Some s \<Rightarrow>
          (case release_host_glyphset_ref (t\<lparr>glyphsets := (glyphsets t)(i := None)\<rparr>) (host_glyphset_xid s) of
             (t', last_ref) \<Rightarrow> (t', if last_ref then Some s else None)))"

definition reference_glyphset :: "resource_table \<Rightarrow> u32 \<Rightarrow> u32 \<Rightarrow> u32 \<Rightarrow> resource_table \<times> bool" where
  "reference_glyphset t cl new_id existing_id =
     (case glyphsets t existing_id of
        None \<Rightarrow> (t, False)
      | Some ex \<Rightarrow> (create_glyphset t new_id \<lparr>gs_client = cl, host_glyphset_xid = host_glyphset_xid ex\<rparr>, True))"

section \<open>Cursors\<close>

definition create_cursor :: "resource_table \<Rightarrow> u32 \<Rightarrow> u32 \<Rightarrow> resource_table" where
  "create_cursor t own i =
     t\<lparr>cursors := (cursors t)(i \<mapsto> \<lparr>cur_id = i, cur_owner = own, cur_host_xid = None, name_atom = None, anim = False\<rparr>)\<rparr>"

definition create_glyph_cursor :: "resource_table \<Rightarrow> u32 \<Rightarrow> u32 \<Rightarrow> resource_table" where
  "create_glyph_cursor t own i =
     t\<lparr>cursors := (cursors t)(i \<mapsto> \<lparr>cur_id = i, cur_owner = own, cur_host_xid = None, name_atom = None, anim = False\<rparr>)\<rparr>"

definition modify_cursor :: "u32 \<Rightarrow> (cursor_res \<Rightarrow> cursor_res) \<Rightarrow> resource_table \<Rightarrow> resource_table" where
  "modify_cursor i f t =
     (case cursors t i of None \<Rightarrow> t | Some c \<Rightarrow> t\<lparr>cursors := (cursors t)(i \<mapsto> f c)\<rparr>)"

definition set_cursor_host_xid :: "resource_table \<Rightarrow> u32 \<Rightarrow> u32 \<Rightarrow> resource_table" where
  "set_cursor_host_xid t i h = modify_cursor i (\<lambda>c. c\<lparr>cur_host_xid := Some h\<rparr>) t"

definition cursor_exists :: "resource_table \<Rightarrow> u32 \<Rightarrow> bool" where
  "cursor_exists t i \<longleftrightarrow> cursors t i \<noteq> None"

text \<open>\<open>for c in self.cursors.values_mut()\<close> on the cursors of one host.\<close>

definition map_cursors_of :: "u32 \<Rightarrow> (cursor_res \<Rightarrow> cursor_res) \<Rightarrow> (u32 \<rightharpoonup> cursor_res) \<Rightarrow> (u32 \<rightharpoonup> cursor_res)" where
  "map_cursors_of h f m = (\<lambda>i. map_option (\<lambda>c. if cur_host_xid c = Some h then f c else c) (m i))"

definition set_cursor_name_atom :: "resource_table \<Rightarrow> u32 \<Rightarrow> u32 \<Rightarrow> resource_table" where
  "set_cursor_name_atom t i atom =
     (case cursors t i of
        None \<Rightarrow> t
      | Some c \<Rightarrow>
          let t1 = t\<lparr>cursors := (cursors t)(i \<mapsto> c\<lparr>name_atom := Some atom\<rparr>)\<rparr> in
          (case cur_host_xid c of
             None \<Rightarrow> t1
           | Some h \<Rightarrow> t1\<lparr>cursors := map_cursors_of h (\<lambda>c. c\<lparr>name_atom := Some atom\<rparr>) (cursors t1),
                          cursor_host_names := (cursor_host_names t1)(h \<mapsto> atom)\<rparr>))"

definition cursor_name_atom :: "resource_table \<Rightarrow> u32 \<Rightarrow> u32 option" where
  "cursor_name_atom t i = Option.bind (cursors t i) name_atom"

definition cursor_name_for_host :: "resource_table \<Rightarrow> u32 \<Rightarrow> u32 option" where
  "cursor_name_for_host t h = cursor_host_names t h"

definition cursor_hosts_named :: "resource_table \<Rightarrow> u32 list \<Rightarrow> u32 \<Rightarrow> u32 list" where
  "cursor_hosts_named t keys atom = sort (filter (\<lambda>h. cursor_host_names t h = Some atom) keys)"

definition retarget_cursor_host :: "resource_table \<Rightarrow> u32 \<Rightarrow> u32 \<Rightarrow> resource_table \<times> bool" where
  "retarget_cursor_host t old_host source =
     (case cursors t source of
        None \<Rightarrow> (t, False)
      | Some src \<Rightarrow>
          (t\<lparr>cursors := map_cursors_of old_host (\<lambda>c. c\<lparr>cur_host_xid := cur_host_xid src,
                name_atom := name_atom src, anim := anim src\<rparr>) (cursors t),
             cursor_host_names := (cursor_host_names t)(old_host := None),
             windows := (\<lambda>i. map_option (\<lambda>w. if cursor_host w = Some old_host
                then w\<lparr>cursor_host := cur_host_xid src\<rparr> else w) (windows t i))\<rparr>,
           \<exists>c \<in> ran (cursors t). cur_host_xid c = Some old_host))"

definition cursor_host_referenced :: "resource_table \<Rightarrow> u32 \<Rightarrow> bool" where
  "cursor_host_referenced t h \<longleftrightarrow>
     (\<exists>c \<in> ran (cursors t). cur_host_xid c = Some h) \<or> (\<exists>w \<in> ran (windows t). cursor_host w = Some h)"

definition take_unreferenced_cursor_hosts :: "resource_table \<Rightarrow> resource_table \<times> u32 list" where
  "take_unreferenced_cursor_hosts t =
     (t\<lparr>dropped_cursor_hosts := []\<rparr>,
      filter (\<lambda>h. \<not> cursor_host_referenced t h) (sort_dedup (dropped_cursor_hosts t)))"

definition cursor_host_released :: "resource_table \<Rightarrow> u32 \<Rightarrow> resource_table" where
  "cursor_host_released t h = t\<lparr>dropped_cursor_hosts := filter (\<lambda>x. x \<noteq> h) (dropped_cursor_hosts t)\<rparr>"

definition free_cursor :: "resource_table \<Rightarrow> u32 \<Rightarrow> resource_table \<times> u32 option" where
  "free_cursor t i =
     (let host = Option.bind (cursors t i) cur_host_xid;
          t1 = t\<lparr>cursors := (cursors t)(i := None)\<rparr>
      in case host of
           None \<Rightarrow> (t1, None)
         | Some h \<Rightarrow> if cursor_host_referenced t1 h then (t1, None) else (cursor_host_released t1 h, Some h))"

definition set_cursor_anim :: "resource_table \<Rightarrow> u32 \<Rightarrow> resource_table" where
  "set_cursor_anim t i = modify_cursor i (\<lambda>c. c\<lparr>anim := True\<rparr>) t"

definition cursor_is_anim :: "resource_table \<Rightarrow> u32 \<Rightarrow> bool" where
  "cursor_is_anim t i = map_or False anim (cursors t i)"

section \<open>The counts of host glyph sets\<close>

definition glyph_hosts :: "resource_table \<Rightarrow> u32 \<rightharpoonup> u32" where
  "glyph_hosts t = (\<lambda>i. map_option host_glyphset_xid (glyphsets t i))"

interpretation glyph_refs: refcounted host_glyphset_refcounts add_host_glyphset_ref
    "\<lambda>t h. fst (release_host_glyphset_ref t h)"
  by unfold_locales (auto simp: add_host_glyphset_ref_def release_host_glyphset_ref_def unwrap_or_def)

text \<open>As for fonts, with the references in flight.\<close>

definition glyphs_with :: "u32 multiset \<Rightarrow> resource_table \<Rightarrow> bool" where
  "glyphs_with P t \<longleftrightarrow> tracks (host_glyphset_refcounts t) (\<lambda>h. occ (glyph_hosts t) h + count P h)"

abbreviation glyphs_ok :: "resource_table \<Rightarrow> bool" where
  "glyphs_ok \<equiv> glyphs_with {#}"

lemma glyph_ref_frame [simp]:
  "glyphsets (add_host_glyphset_ref t h) = glyphsets t"
  "glyphsets (fst (release_host_glyphset_ref t h)) = glyphsets t"
  by (simp_all add: add_host_glyphset_ref_def release_host_glyphset_ref_def split: option.splits)

lemma glyph_hosts_frame [simp]:
  "glyph_hosts (add_host_glyphset_ref t h) = glyph_hosts t"
  "glyph_hosts (fst (release_host_glyphset_ref t h)) = glyph_hosts t"
  by (simp_all add: glyph_hosts_def)

lemma add_ref_with: "glyphs_with P t \<Longrightarrow> glyphs_with (add_mset h P) (add_host_glyphset_ref t h)"
  by (auto simp: glyphs_with_def tracks_def add_host_glyphset_ref_def unwrap_or_def glyph_hosts_def not_in_iff
      simp flip: count_greater_zero_iff)

lemma release_ref_with:
  assumes "glyphs_with (add_mset h P) t"
  shows "glyphs_with P (fst (release_host_glyphset_ref t h))"
proof -
  let ?u = "\<lambda>k. occ (glyph_hosts t) k + count (add_mset h P) k"
  have "tracks (host_glyphset_refcounts (fst (release_host_glyphset_ref t h))) (?u(h := ?u h - 1))"
    by (rule glyph_refs.dec_tracks) (use assms in \<open>simp_all add: glyphs_with_def\<close>)
  moreover have "?u(h := ?u h - 1) = (\<lambda>k. occ (glyph_hosts t) k + count P k)" by auto
  ultimately show ?thesis by (simp add: glyphs_with_def)
qed

lemma glyph_insert_with:
  assumes "glyphs_with (add_mset (host_glyphset_xid s) P) t" "glyphsets t i = None"
  shows "glyphs_with P (t\<lparr>glyphsets := (glyphsets t)(i \<mapsto> s)\<rparr>)"
proof -
  have g: "glyph_hosts (t\<lparr>glyphsets := (glyphsets t)(i \<mapsto> s)\<rparr>) = (glyph_hosts t)(i \<mapsto> host_glyphset_xid s)"
    by (auto simp: glyph_hosts_def)
  have "occ ((glyph_hosts t)(i \<mapsto> host_glyphset_xid s)) k + count P k = occ (glyph_hosts t) k + count (add_mset (host_glyphset_xid s) P) k" for k
    using occ_upd [of "glyph_hosts t" i "Some (host_glyphset_xid s)" k] assms(2) by (auto simp: glyph_hosts_def)
  then show ?thesis using assms(1) unfolding glyphs_with_def g by simp
qed

lemma glyph_remove_with:
  assumes "glyphs_with P t" "glyphsets t i = Some s"
  shows "glyphs_with (add_mset (host_glyphset_xid s) P) (t\<lparr>glyphsets := (glyphsets t)(i := None)\<rparr>)"
proof -
  have g: "glyph_hosts (t\<lparr>glyphsets := (glyphsets t)(i := None)\<rparr>) = (glyph_hosts t)(i := None)"
    by (auto simp: glyph_hosts_def)
  have "occ ((glyph_hosts t)(i := None)) k + count (add_mset (host_glyphset_xid s) P) k = occ (glyph_hosts t) k + count P k" for k
    using occ_upd [of "glyph_hosts t" i None k] assms(2) by (auto simp: glyph_hosts_def)
  then show ?thesis using assms(1) unfolding glyphs_with_def g by simp
qed

lemma create_glyphset_ok: "glyphs_ok t \<Longrightarrow> glyphs_ok (create_glyphset t i s)"
proof -
  assume t: "glyphs_ok t"
  let ?t1 = "case glyphsets t i of None \<Rightarrow> t
    | Some old \<Rightarrow> fst (release_host_glyphset_ref (t\<lparr>glyphsets := (glyphsets t)(i := None)\<rparr>) (host_glyphset_xid old))"
  have t1: "glyphs_ok ?t1" and n: "glyphsets ?t1 i = None"
    using t by (auto intro: release_ref_with glyph_remove_with split: option.splits)
  let ?t2 = "add_host_glyphset_ref ?t1 (host_glyphset_xid s)"
  have "glyphs_ok (?t2\<lparr>glyphsets := (glyphsets ?t2)(i \<mapsto> s)\<rparr>)"
    by (rule glyph_insert_with [OF add_ref_with [OF t1]]) (simp only: glyph_ref_frame n)
  then show ?thesis by (simp only: create_glyphset_def Let_def)
qed

lemma free_glyphset_ok: "glyphs_ok t \<Longrightarrow> glyphs_ok (fst (free_glyphset t i))"
proof (cases "glyphsets t i")
  case (Some s)
  assume "glyphs_ok t"
  from release_ref_with [OF glyph_remove_with [OF this Some]]
  show ?thesis by (simp add: free_glyphset_def Some case_prod_unfold)
qed (simp add: free_glyphset_def)

lemma reference_glyphset_ok: "glyphs_ok t \<Longrightarrow> glyphs_ok (fst (reference_glyphset t cl n e))"
  by (auto simp: reference_glyphset_def create_glyphset_ok split: option.splits)

text \<open>The answer of a release is whether the host glyph set has no user left.\<close>

lemma release_ref_last:
  assumes "glyphs_with (add_mset h P) t"
  shows "snd (release_host_glyphset_ref t h) \<longleftrightarrow> occ (glyph_hosts t) h + count P h = 0"
  using tracksD [OF assms [unfolded glyphs_with_def], of h]
  by (auto simp: release_host_glyphset_ref_def not_in_iff)

lemma free_glyphset_last:
  assumes "glyphs_ok t" "glyphsets t i = Some s"
  shows "snd (free_glyphset t i) =
    (if \<exists>j s'. j \<noteq> i \<and> glyphsets t j = Some s' \<and> host_glyphset_xid s' = host_glyphset_xid s then None else Some s)"
proof -
  let ?t1 = "t\<lparr>glyphsets := (glyphsets t)(i := None)\<rparr>"
  have "snd (release_host_glyphset_ref ?t1 (host_glyphset_xid s)) \<longleftrightarrow> occ (glyph_hosts ?t1) (host_glyphset_xid s) = 0"
    using release_ref_last [OF glyph_remove_with [OF assms]] by simp
  also have "\<dots> \<longleftrightarrow> \<not> (\<exists>j s'. j \<noteq> i \<and> glyphsets t j = Some s' \<and> host_glyphset_xid s' = host_glyphset_xid s)"
    by (auto simp: occ_zero_iff ran_def glyph_hosts_def)
  finally show ?thesis by (simp add: free_glyphset_def assms(2) case_prod_unfold)
qed

end
