(* ===== verification/Cleanup.thy ===== *)
theory Cleanup
  imports Gcs Pixmaps Cursors
begin

unbundle bit_operations_syntax

text \<open>
  The operations that span the whole table: ids in use, colormaps, visuals and DRI3 sync
  objects (\<open>resources/mod.rs\<close>), and what a client owns, counted and removed
  (\<open>resources/cleanup.rs\<close>).

  Removing a client's resources visits eight hash maps; \<open>table_order\<close> has the order of each.
\<close>

section \<open>Ids\<close>

definition xid_in_use :: "resource_table \<Rightarrow> u32 \<Rightarrow> bool" where
  "xid_in_use t i \<longleftrightarrow> windows t i \<noteq> None \<or> pixmaps t i \<noteq> None \<or> gcs t i \<noteq> None \<or> fonts t i \<noteq> None
     \<or> cursors t i \<noteq> None \<or> colormaps t i \<noteq> None \<or> pictures t i \<noteq> None \<or> glyphsets t i \<noteq> None
     \<or> dri3_syncobjs t i \<noteq> None"

record table_order =
  ord_windows :: "u32 list"
  ord_pixmaps :: "u32 list"
  ord_gcs :: "u32 list"
  ord_fonts :: "u32 list"
  ord_cursors :: "u32 list"
  ord_colormaps :: "u32 list"
  ord_pictures :: "u32 list"
  ord_glyphsets :: "u32 list"
  ord_syncobjs :: "u32 list"

definition collect_xids_in :: "table_order \<Rightarrow> u32 \<Rightarrow> u32 \<Rightarrow> u32 list \<Rightarrow> u32 list" where
  "collect_xids_in od base msk out =
     (let in_range = (\<lambda>i. i AND NOT msk = base)
      in out @ filter in_range (ord_windows od) @ filter in_range (ord_pixmaps od)
         @ filter in_range (ord_gcs od) @ filter in_range (ord_fonts od) @ filter in_range (ord_cursors od)
         @ filter in_range (ord_colormaps od) @ filter in_range (ord_pictures od)
         @ filter in_range (ord_glyphsets od) @ filter in_range (ord_syncobjs od))"

text \<open>The orders are those of the table's maps: each key once.\<close>

definition orders :: "table_order \<Rightarrow> resource_table \<Rightarrow> bool" where
  "orders od t \<longleftrightarrow>
     (set (ord_windows od) = dom (windows t) \<and> set (ord_pixmaps od) = dom (pixmaps t)
      \<and> set (ord_gcs od) = dom (gcs t) \<and> set (ord_fonts od) = dom (fonts t)
      \<and> set (ord_cursors od) = dom (cursors t) \<and> set (ord_colormaps od) = dom (colormaps t)
      \<and> set (ord_pictures od) = dom (pictures t) \<and> set (ord_glyphsets od) = dom (glyphsets t)
      \<and> set (ord_syncobjs od) = dom (dri3_syncobjs t))
     \<and> (distinct (ord_windows od) \<and> distinct (ord_pixmaps od) \<and> distinct (ord_gcs od)
      \<and> distinct (ord_fonts od) \<and> distinct (ord_cursors od) \<and> distinct (ord_colormaps od)
      \<and> distinct (ord_pictures od) \<and> distinct (ord_glyphsets od) \<and> distinct (ord_syncobjs od))"

section \<open>Visuals, colormaps and sync objects\<close>

definition register_dri3_syncobj :: "resource_table \<Rightarrow> u32 \<Rightarrow> u32 \<Rightarrow> resource_table \<times> bool" where
  "register_dri3_syncobj t i own = (t\<lparr>dri3_syncobjs := (dri3_syncobjs t)(i \<mapsto> own)\<rparr>, dri3_syncobjs t i = None)"

definition remove_dri3_syncobj :: "resource_table \<Rightarrow> u32 \<Rightarrow> resource_table \<times> u32 option" where
  "remove_dri3_syncobj t i = (t\<lparr>dri3_syncobjs := (dri3_syncobjs t)(i := None)\<rparr>, dri3_syncobjs t i)"

text \<open>\<open>Handle::from_raw\<close>: zero is no handle.\<close>

definition handle_from_raw :: "u32 \<Rightarrow> u32 option" where
  "handle_from_raw raw = (if raw = 0 then None else Some raw)"

definition is_known_visual :: "resource_table \<Rightarrow> u32 \<Rightarrow> bool" where
  "is_known_visual t i \<longleftrightarrow> visuals t i \<noteq> None"

definition set_visual_host_xid :: "resource_table \<Rightarrow> u32 \<Rightarrow> u32 \<Rightarrow> resource_table \<times> bool" where
  "set_visual_host_xid t i h =
     (case visuals t i of
        None \<Rightarrow> (t, False)
      | Some v \<Rightarrow> (t\<lparr>visuals := (visuals t)(i \<mapsto> v\<lparr>host_visual_xid := handle_from_raw h\<rparr>)\<rparr>, True))"

definition create_colormap :: "resource_table \<Rightarrow> u32 \<Rightarrow> u32 \<Rightarrow> u32 \<Rightarrow> resource_table" where
  "create_colormap t own i vis =
     t\<lparr>colormaps := (colormaps t)(i \<mapsto> \<lparr>cm_id = i, cm_visual = vis, host_colormap_xid = None, cm_owner = own\<rparr>)\<rparr>"

definition set_colormap_host_xid :: "resource_table \<Rightarrow> u32 \<Rightarrow> u32 \<Rightarrow> resource_table \<times> bool" where
  "set_colormap_host_xid t i h =
     (case colormaps t i of
        None \<Rightarrow> (t, False)
      | Some c \<Rightarrow> (t\<lparr>colormaps := (colormaps t)(i \<mapsto> c\<lparr>host_colormap_xid := handle_from_raw h\<rparr>)\<rparr>, True))"

definition free_colormap :: "resource_table \<Rightarrow> u32 \<Rightarrow> resource_table \<times> bool" where
  "free_colormap t i = (t\<lparr>colormaps := (colormaps t)(i := None)\<rparr>, colormaps t i \<noteq> None)"

definition colormap_for_visual :: "resource_table \<Rightarrow> u32 list \<Rightarrow> u32 \<Rightarrow> colormap_res option" where
  "colormap_for_visual t keys vis =
     List.find (\<lambda>c. cm_visual c = vis) (flatten (map (colormaps t) keys))"

section \<open>What a client owns\<close>

text \<open>\<open>u32::try_from(n).unwrap_or(u32::MAX)\<close>.\<close>

definition u32_try :: "nat \<Rightarrow> nat" where
  "u32_try n = (if n < 2 ^ 32 then n else 2 ^ 32 - 1)"

definition tally :: "u32 list \<Rightarrow> (u32 \<rightharpoonup> 'v) \<Rightarrow> u32 \<Rightarrow> ('v \<Rightarrow> u32) \<Rightarrow> nat" where
  "tally keys m own get = u32_try (length (filter (\<lambda>v. get v = own) (flatten (map m keys))))"

definition resource_counts_by_owner :: "resource_table \<Rightarrow> table_order \<Rightarrow> u32 \<Rightarrow> (string \<times> nat) list" where
  "resource_counts_by_owner t od own =
     filter (\<lambda>x. snd x > 0)
       [(''WINDOW'', tally (ord_windows od) (windows t) own owner),
        (''PIXMAP'', tally (ord_pixmaps od) (pixmaps t) own pm_owner),
        (''GC'', tally (ord_gcs od) (gcs t) own gc_owner),
        (''FONT'', u32_try (length (font_ids_owned_by t (ord_fonts od) own))),
        (''CURSOR'', tally (ord_cursors od) (cursors t) own cur_owner),
        (''COLORMAP'', tally (ord_colormaps od) (colormaps t) own cm_owner),
        (''PICTURE'', tally (ord_pictures od) (pictures t) own pic_client),
        (''GLYPHSET'', tally (ord_glyphsets od) (glyphsets t) own gs_client)]"

definition u64_sat :: "nat \<Rightarrow> nat" where
  "u64_sat n = min (2 ^ 64 - 1) n"

definition pixmap_bits_per_pixel :: "u8 \<Rightarrow> nat" where
  "pixmap_bits_per_pixel depth =
     (if depth = 1 then 1 else if 2 \<le> depth \<and> depth \<le> 8 then 8
      else if 9 \<le> depth \<and> depth \<le> 16 then 16 else 32)"

definition pixmap_bytes :: "pixmap \<Rightarrow> nat" where
  "pixmap_bytes p =
     (let row_bits = u64_sat (unat (pm_width p) * pixmap_bits_per_pixel (pm_depth p));
          row_bytes = u64_sat ((row_bits + 31) div 32 * 4)
      in u64_sat (row_bytes * unat (pm_height p)))"

definition pixmap_bytes_by_owner :: "resource_table \<Rightarrow> u32 list \<Rightarrow> u32 \<Rightarrow> nat" where
  "pixmap_bytes_by_owner t keys own =
     foldl (\<lambda>acc n. u64_sat (acc + n)) 0
       (map pixmap_bytes (filter (\<lambda>p. pm_owner p = own) (flatten (map (pixmaps t) keys))))"

definition windows_with_colormap :: "resource_table \<Rightarrow> u32 list \<Rightarrow> u32 \<Rightarrow> u32 list" where
  "windows_with_colormap t keys cmap =
     filter (\<lambda>i. map_or False (\<lambda>w. colormap w = cmap) (windows t i)) keys"

definition collect_owned_window_roots :: "resource_table \<Rightarrow> u32 list \<Rightarrow> u32 \<Rightarrow> u32 list" where
  "collect_owned_window_roots t keys cl =
     filter (\<lambda>i. map_or False (\<lambda>w. owner w = cl \<and> map_option owner (windows t (parent w)) \<noteq> Some cl) (windows t i)) keys"

record client_removed_resources =
  closed_fonts :: "u32 list"
  freed_pixmaps :: "u32 list"
  freed_names :: "u32 list"
  freed_pictures :: "(u32 \<times> u32 option) list"
  freed_glyphsets :: "u32 list"
  freed_cursors :: "u32 list"
  freed_dri3_syncobjs :: "u32 list"

text \<open>The loops of the removal: dropping font references, closing ids, releasing glyph sets.\<close>

fun unref_fonts :: "resource_table \<Rightarrow> font_ref list \<Rightarrow> resource_table" where
  "unref_fonts t [] = t"
| "unref_fonts t (k # ks) = unref_fonts (unref_font t k) ks"

fun close_fonts :: "resource_table \<Rightarrow> u32 list \<Rightarrow> resource_table" where
  "close_fonts t [] = t"
| "close_fonts t (i # is) = close_fonts (fst (close_font t i)) is"

fun release_glyphs :: "resource_table \<Rightarrow> u32 list \<Rightarrow> resource_table \<times> u32 list" where
  "release_glyphs t [] = (t, [])"
| "release_glyphs t (h # hs) =
     (case release_host_glyphset_ref t h of
        (t1, last_ref) \<Rightarrow>
          (case release_glyphs t1 hs of (t2, freed) \<Rightarrow> (t2, if last_ref then h # freed else freed)))"

definition remove_pixmaps_of :: "resource_table \<Rightarrow> u32 list \<Rightarrow> u32 \<Rightarrow> resource_table \<times> u32 list \<times> u32 list" where
  "remove_pixmaps_of t keys cl =
     (let mine = map snd (extract_if (\<lambda>p. pm_owner p = cl) keys (pixmaps t));
          names = filter composite_name mine;
          t1 = t\<lparr>pixmaps := drop_if (\<lambda>p. pm_owner p = cl) (pixmaps t)\<rparr>
      in (if names = [] then t1 else forget_composite_names t1 (map pm_id names),
          flatten (map pm_host_xid (filter (\<lambda>p. \<not> composite_name p) mine)),
          flatten (map pm_host_xid names)))"

definition remove_cursors_of :: "resource_table \<Rightarrow> u32 list \<Rightarrow> u32 \<Rightarrow> resource_table \<times> u32 list" where
  "remove_cursors_of t keys cl =
     (let hosts = flatten (map (\<lambda>x. cur_host_xid (snd x)) (extract_if (\<lambda>c. cur_owner c = cl) keys (cursors t)));
          t1 = t\<lparr>cursors := drop_if (\<lambda>c. cur_owner c = cl) (cursors t)\<rparr>;
          freed = filter (\<lambda>h. \<not> cursor_host_referenced t1 h) (sort_dedup hosts)
      in (t1\<lparr>dropped_cursor_hosts := filter (\<lambda>h. h \<notin> set freed) (dropped_cursor_hosts t1)\<rparr>, freed))"

definition remove_gcs_of :: "resource_table \<Rightarrow> u32 list \<Rightarrow> u32 \<Rightarrow> resource_table \<times> font_ref list \<times> u32 list" where
  "remove_gcs_of t keys cl =
     (let mine = map snd (extract_if (\<lambda>g. gc_owner g = cl) keys (gcs t))
      in (t\<lparr>gcs := drop_if (\<lambda>g. gc_owner g = cl) (gcs t)\<rparr>,
          flatten (map gc_font mine), concat (map (\<lambda>g. flatten (held_host_pixmaps g)) mine)))"

definition remove_glyphsets_of :: "resource_table \<Rightarrow> u32 list \<Rightarrow> u32 \<Rightarrow> resource_table \<times> u32 list" where
  "remove_glyphsets_of t keys cl =
     release_glyphs (t\<lparr>glyphsets := drop_if (\<lambda>g. gs_client g = cl) (glyphsets t)\<rparr>)
       (map (\<lambda>x. host_glyphset_xid (snd x)) (extract_if (\<lambda>g. gs_client g = cl) keys (glyphsets t)))"

definition remove_non_window_resources_owned_by ::
  "resource_table \<Rightarrow> table_order \<Rightarrow> u32 \<Rightarrow> resource_table \<times> client_removed_resources" where
  "remove_non_window_resources_owned_by t od cl =
     (let (t1, pixmaps1, names) = remove_pixmaps_of t (ord_pixmaps od) cl;
          (t2, gc_refs, pixmaps2) = remove_gcs_of t1 (ord_gcs od) cl;
          t3 = t2\<lparr>colormaps := drop_if (\<lambda>c. cm_owner c = cl) (colormaps t2)\<rparr>;
          (t4, curs) = remove_cursors_of t3 (ord_cursors od) cl;
          t5 = unref_fonts t4 gc_refs;
          t6 = close_fonts t5 (font_ids_owned_by t5 (ord_fonts od) cl);
          (t7, fonts_closed) = take_released_fonts t6;
          pics = flatten (map (\<lambda>x. host_frees (snd x)) (extract_if (\<lambda>p. pic_client p = cl) (ord_pictures od) (pictures t7)));
          t8 = t7\<lparr>pictures := drop_if (\<lambda>p. pic_client p = cl) (pictures t7)\<rparr>;
          (t9, glyphs) = remove_glyphsets_of t8 (ord_glyphsets od) cl;
          syncs = map fst (extract_if (\<lambda>own. own = cl) (ord_syncobjs od) (dri3_syncobjs t9))
      in (t9\<lparr>dri3_syncobjs := drop_if (\<lambda>own. own = cl) (dri3_syncobjs t9)\<rparr>,
          \<lparr>closed_fonts = fonts_closed, freed_pixmaps = pixmaps1 @ pixmaps2, freed_names = names,
           freed_pictures = pics, freed_glyphsets = glyphs, freed_cursors = curs, freed_dri3_syncobjs = syncs\<rparr>))"

definition resource_owner :: "resource_table \<Rightarrow> u32 \<Rightarrow> u32 option" where
  "resource_owner t i =
     (case windows t i of Some w \<Rightarrow> Some (owner w) | None \<Rightarrow>
     (case pixmaps t i of Some p \<Rightarrow> Some (pm_owner p) | None \<Rightarrow>
     (case gcs t i of Some g \<Rightarrow> Some (gc_owner g) | None \<Rightarrow>
     (case font_of t i of Some f \<Rightarrow> Some (font_owner f) | None \<Rightarrow>
     (case cursors t i of Some c \<Rightarrow> Some (cur_owner c) | None \<Rightarrow>
     (case pictures t i of Some p \<Rightarrow> Some (pic_client p) | None \<Rightarrow>
     (case glyphsets t i of Some g \<Rightarrow> Some (gs_client g) | None \<Rightarrow> dri3_syncobjs t i)))))))"

datatype resource_kind = Kind_Window | Kind_Pixmap | Kind_Gc | Kind_Font | Kind_Cursor | Kind_Colormap
  | Kind_Picture | Kind_GlyphSet | Kind_Region | Kind_PointerBarrier | Kind_SyncCounter | Kind_SyncAlarm
  | Kind_SyncFence | Kind_Damage | Kind_PresentEventSelection | Kind_ShmSegment | Kind_GlxContext
  | Kind_GlxDrawable | Kind_Dri3Syncobj | Kind_RecordContext | Kind_RandrOutput | Kind_RandrCrtc
  | Kind_RandrMode | Kind_RandrProvider

definition access_owner :: "resource_table \<Rightarrow> u32 \<Rightarrow> resource_kind \<Rightarrow> u32 option" where
  "access_owner t i kind =
     (case kind of
        Kind_Window \<Rightarrow> map_option owner (windows t i)
      | Kind_Pixmap \<Rightarrow> map_option pm_owner (pixmaps t i)
      | Kind_Gc \<Rightarrow> map_option gc_owner (gcs t i)
      | Kind_Font \<Rightarrow> map_option font_owner (font_of t i)
      | Kind_Cursor \<Rightarrow> map_option cur_owner (cursors t i)
      | Kind_Colormap \<Rightarrow> map_option cm_owner (colormaps t i)
      | Kind_Picture \<Rightarrow> map_option pic_client (pictures t i)
      | Kind_GlyphSet \<Rightarrow> map_option gs_client (glyphsets t i)
      | Kind_Dri3Syncobj \<Rightarrow> dri3_syncobjs t i
      | _ \<Rightarrow> None)"

end
