(* ===== verification/Window_Tree.thy ===== *)
theory Window_Tree
  imports Window_Ops
begin

text \<open>
  Walks over the window tree (\<open>resources/tree.rs\<close>) and window destruction
  (\<open>resources/destroy.rs\<close>). The loops up the parent chain carry the bound the source gives
  them; the recursions down are \<open>partial_function (option)\<close>, as in \<open>Window_Ops\<close>.
\<close>

section \<open>Lookups and walks\<close>

definition circulate_child :: "window_map \<Rightarrow> u32 \<Rightarrow> bool \<Rightarrow> window_map" where
  "circulate_child ws child to_top = restack_window ws child None (Some (if to_top then 0 else 1))"

definition mapped_children_bottom_to_top :: "window_map \<Rightarrow> u32 \<Rightarrow> u32 list option" where
  "mapped_children_bottom_to_top ws par =
     map_option (\<lambda>p. filter (\<lambda>c. case ws c of None \<Rightarrow> False | Some w \<Rightarrow> map_state w \<noteq> Unmapped) (children p))
       (ws par)"

text \<open>The loop of \<open>is_descendant_of\<close>; \<open>len\<close> is \<open>self.windows.len()\<close>.\<close>

function descendant_loop :: "window_map \<Rightarrow> nat \<Rightarrow> u32 \<Rightarrow> u32 \<Rightarrow> nat \<Rightarrow> bool" where
  "descendant_loop ws len ancestor current seen =
     (if current \<noteq> ROOT_WINDOW \<and> seen \<le> len then
        (case ws current of
           None \<Rightarrow> False
         | Some w \<Rightarrow>
             if parent w = ancestor then True
             else if parent w = current then False
             else descendant_loop ws len ancestor (parent w) (seen + 1))
      else False)"
  by pat_completeness auto
termination
  by (relation "measure (\<lambda>(ws, len, ancestor, current, seen). Suc len - seen)") auto

declare descendant_loop.simps [simp del]

definition is_descendant_of :: "window_map \<Rightarrow> u32 \<Rightarrow> u32 \<Rightarrow> bool" where
  "is_descendant_of ws candidate ancestor = descendant_loop ws (card (dom ws)) ancestor candidate 0"

definition window_owner :: "window_map \<Rightarrow> u32 \<Rightarrow> u32 option" where
  "window_owner ws i = map_option owner (ws i)"

definition parent_of :: "window_map \<Rightarrow> u32 \<Rightarrow> u32 option" where
  "parent_of ws i = map_option parent (ws i)"

record exposed_rect =
  ex_window :: u32
  ex_x :: i16
  ex_y :: i16
  ex_width :: u16
  ex_height :: u16

text \<open>\<open>i16::try_from(v).unwrap_or(0)\<close> and \<open>u16::try_from(v).unwrap_or(0)\<close>.\<close>

definition i16_or_0 :: "int \<Rightarrow> i16" where
  "i16_or_0 v = (if i16_min \<le> v \<and> v \<le> i16_max then word_of_int v else 0)"

definition u16_or_0 :: "int \<Rightarrow> u16" where
  "u16_or_0 v = (if 0 \<le> v \<and> v \<le> u16_max then word_of_int v else 0)"

text \<open>
  What one child contributes: \<open>None\<close> when the loop goes on to the next one, else its own
  rectangle, if any, and its position in top-level coordinates. The sums are \<open>i32\<close> ones.
\<close>

definition exposed_child ::
  "u32 \<Rightarrow> window \<Rightarrow> int \<Rightarrow> int \<Rightarrow> int \<Rightarrow> int \<Rightarrow> int \<Rightarrow> int \<Rightarrow> (exposed_rect list \<times> int \<times> int) option" where
  "exposed_child child_id child parent_x parent_y ex ey er eb =
     (if map_state child = Unmapped then None
      else (let cx = i32 (parent_x + sint (wx child)); cy = i32 (parent_y + sint (wy child));
                cr = i32 (cx + uint (wwidth child)); cb = i32 (cy + uint (wheight child));
                ix = max ex cx; iy = max ey cy; ir = min er cr; ib = min eb cb
            in if ir \<le> ix \<or> ib \<le> iy then None
               else (let local_x = i16_or_0 (i32 (ix - cx)); local_y = i16_or_0 (i32 (iy - cy));
                         local_w = u16_or_0 (i32 (ir - ix)); local_h = u16_or_0 (i32 (ib - iy))
                     in Some (if local_w > 0 \<and> local_h > 0 then
                                [\<lparr>ex_window = child_id, ex_x = local_x, ex_y = local_y,
                                  ex_width = local_w, ex_height = local_h\<rparr>] else [], cx, cy))))"

partial_function (option) exposed_children ::
  "window_map \<Rightarrow> u32 list \<Rightarrow> int \<Rightarrow> int \<Rightarrow> int \<Rightarrow> int \<Rightarrow> int \<Rightarrow> int \<Rightarrow> exposed_rect list option" where
  "exposed_children ws cs parent_x parent_y ex ey er eb =
     (case cs of [] \<Rightarrow> Some []
      | child_id # rest \<Rightarrow>
          (case Option.bind (ws child_id) (\<lambda>c. exposed_child child_id c parent_x parent_y ex ey er eb) of
             None \<Rightarrow> exposed_children ws rest parent_x parent_y ex ey er eb
           | Some r \<Rightarrow>
               Option.bind
                 (exposed_children ws (children_of ws child_id) (fst (snd r)) (snd (snd r)) ex ey er eb)
                 (\<lambda>below. Option.bind (exposed_children ws rest parent_x parent_y ex ey er eb)
                    (\<lambda>others. Some (fst r @ below @ others)))))"

definition descendants_in_exposed_area ::
  "window_map \<Rightarrow> u32 \<Rightarrow> i16 \<Rightarrow> i16 \<Rightarrow> u16 \<Rightarrow> u16 \<Rightarrow> exposed_rect list option" where
  "descendants_in_exposed_area ws top_level ex ey ew eh =
     exposed_children ws (children_of ws top_level) 0 0 (sint ex) (sint ey)
       (sint ex + uint ew) (sint ey + uint eh)"

text \<open>
  \<open>pointer_target_at_inner\<close>: the loop over the children, topmost first, as a search for the
  first one that contains the point, then the recursion into it.
\<close>

definition hit_child :: "window_map \<Rightarrow> u32 \<Rightarrow> i16 \<Rightarrow> i16 \<Rightarrow> (u32 \<times> i16 \<times> i16) option" where
  "hit_child ws par parent_x parent_y =
     (let contains = (\<lambda>i. case ws i of None \<Rightarrow> False
            | Some child \<Rightarrow> map_state child \<noteq> Unmapped \<and>
                (case to_content_coords child parent_x parent_y of (cx, cy) \<Rightarrow>
                   outer_contains_content_point child cx cy))
      in case find contains (rev (children_of ws par)) of
           None \<Rightarrow> None
         | Some i \<Rightarrow> map_option (\<lambda>child. (i, to_content_coords child parent_x parent_y)) (ws i))"

partial_function (option) pointer_target_at_inner ::
  "window_map \<Rightarrow> (u32 \<times> i16 \<times> i16) \<Rightarrow> (u32 \<times> i16 \<times> i16) option" where
  "pointer_target_at_inner ws best =
     (case hit_child ws (fst best) (fst (snd best)) (snd (snd best)) of
        None \<Rightarrow> Some best
      | Some deeper \<Rightarrow> pointer_target_at_inner ws deeper)"

text \<open>The outer \<open>None\<close> is divergence, the inner one the source's.\<close>

definition pointer_target_at :: "window_map \<Rightarrow> u32 \<Rightarrow> i16 \<Rightarrow> i16 \<Rightarrow> (u32 \<times> i16 \<times> i16) option option" where
  "pointer_target_at ws top_level x y =
     (case ws top_level of
        None \<Rightarrow> Some None
      | Some w \<Rightarrow>
          if map_state w = Unmapped then Some None
          else map_option Some (pointer_target_at_inner ws (top_level, x, y)))"

text \<open>
  The loop of \<open>window_absolute_position\<close>; the first argument counts the rounds \<open>depth < 256\<close>
  leaves. Its \<open>i32\<close> sums of at most 256 terms below \<open>2^17\<close> cannot wrap.
\<close>

fun absolute_loop :: "nat \<Rightarrow> window_map \<Rightarrow> u32 \<Rightarrow> int \<Rightarrow> int \<Rightarrow> int \<times> int" where
  "absolute_loop 0 ws current ax ay = (ax, ay)"
| "absolute_loop (Suc n) ws current ax ay =
     (if current = ROOT_WINDOW then (ax, ay)
      else (case ws current of
          None \<Rightarrow> (ax, ay)
        | Some w \<Rightarrow>
            (let ax' = ax + (sint (wx w) + uint (border_width w));
                 ay' = ay + (sint (wy w) + uint (border_width w))
             in if parent w = current then (ax', ay') else absolute_loop n ws (parent w) ax' ay')))"

definition window_absolute_position :: "window_map \<Rightarrow> u32 \<Rightarrow> int \<times> int" where
  "window_absolute_position ws i =
     (if i = ROOT_WINDOW then (0, 0) else absolute_loop 256 ws i 0 0)"

definition child_containing_point :: "window_map \<Rightarrow> u32 \<Rightarrow> int \<Rightarrow> int \<Rightarrow> u32 option" where
  "child_containing_point ws par abs_x abs_y =
     (let (px, py) = window_absolute_position ws par;
          local_x = i32 (abs_x - px); local_y = i32 (abs_y - py)
      in case ws par of None \<Rightarrow> None
         | Some w \<Rightarrow> find (\<lambda>i. case ws i of None \<Rightarrow> False
             | Some child \<Rightarrow> map_state child \<noteq> Unmapped \<and>
                 (case window_bounding_box child of (cx, cy, cr, cb) \<Rightarrow>
                    local_x \<ge> cx \<and> local_x < cr \<and> local_y \<ge> cy \<and> local_y < cb)) (rev (children w)))"

section \<open>Reparenting\<close>

record reparent_window_request =
  rp_window :: u32
  rp_parent :: u32
  rp_x :: i16
  rp_y :: i16

record reparent_result =
  rr_window :: u32
  rr_old_parent :: u32
  rr_new_parent :: u32
  rr_x :: i16
  rr_y :: i16
  rr_override_redirect :: bool
  rr_host_xid :: "u32 option"
  rr_old_map_state :: map_state
  rr_new_map_state :: map_state
  rr_delta :: viewability_delta

datatype reparent_window_error = BadWindow | BadMatch

definition check_reparent_window :: "window_map \<Rightarrow> reparent_window_request \<Rightarrow> reparent_window_error + unit" where
  "check_reparent_window ws r =
     (if rp_window r = ROOT_WINDOW \<or> rp_window r = rp_parent r
         \<or> is_descendant_of ws (rp_parent r) (rp_window r) then Inl BadMatch
      else if ws (rp_window r) = None \<or> ws (rp_parent r) = None then Inl BadWindow
      else Inr ())"

text \<open>The relinking: out of the old parent's list, into the new one's, new parent and position.\<close>

definition relink :: "reparent_window_request \<Rightarrow> window \<Rightarrow> window_map \<Rightarrow> window_map" where
  "relink r w ws =
     (let i = rp_window r;
          ws1 = modify_window (parent w) (\<lambda>p. p\<lparr>children := filter (\<lambda>c. c \<noteq> i) (children p)\<rparr>) ws;
          ws2 = modify_window (rp_parent r) (insert_child i) ws1
      in modify_window i (\<lambda>x. x\<lparr>parent := rp_parent r, wx := rp_x r, wy := rp_y r\<rparr>) ws2)"

definition reparent_window ::
  "resource_table \<Rightarrow> reparent_window_request
    \<Rightarrow> (reparent_window_error + resource_table \<times> reparent_result) option" where
  "reparent_window t r =
     (case check_reparent_window (windows t) r of
        Inl e \<Rightarrow> Some (Inl e)
      | Inr _ \<Rightarrow>
        (case windows t (rp_window r) of
           None \<Rightarrow> Some (Inl BadWindow)
         | Some w \<Rightarrow>
           (let i = rp_window r;
                ws1 = relink r w (windows t);
                parent_viewable = in_state ws1 Viewable (rp_parent r);
                propagate = (map_state w \<noteq> Unmapped);
                new_map_state = (if propagate then (if parent_viewable then Viewable else Unviewable)
                                 else map_state w);
                ws2 = set_state new_map_state i ws1;
                was_viewable = (map_state w = Viewable);
                finish = (\<lambda>ws' up down. Some (Inr (t\<lparr>windows := ws'\<rparr>,
                   \<lparr>rr_window = i, rr_old_parent = parent w, rr_new_parent = rp_parent r,
                    rr_x = rp_x r, rr_y = rp_y r, rr_override_redirect = override_redirect w,
                    rr_host_xid = host_xid w, rr_old_map_state = map_state w,
                    rr_new_map_state = new_map_state,
                    rr_delta = \<lparr>became_viewable = up, became_unviewable = down\<rparr>\<rparr>)))
            in if \<not> propagate then finish ws2 [] []
               else if parent_viewable then
                 Option.bind (promote_unviewable_descendants ws2 i)
                   (\<lambda>p. finish (fst p) ((if was_viewable then [] else [i]) @ snd p) [])
               else
                 Option.bind (demote_viewable_descendants ws2 i)
                   (\<lambda>d. finish (fst d) [] (snd d @ (if was_viewable then [i] else []))))))"

section \<open>Destruction\<close>

record destroy_plan =
  plan_windows :: "(u32 \<times> u32) list"
  contains_cow :: bool

definition plan_top :: "destroy_plan \<Rightarrow> u32" where
  "plan_top p = (if plan_windows p = [] then ROOT_WINDOW else fst (last (plan_windows p)))"

record prepared_destroy =
  prepared_plan :: destroy_plan
  overlay :: bool

text \<open>
  \<open>prepare_overlay_release\<close> is the backend's: its result, an error or whether the backend owns
  the overlay, is the argument. It is called only for a plan that contains the overlay.
\<close>

definition prepare :: "destroy_plan \<Rightarrow> 'e + bool \<Rightarrow> 'e + prepared_destroy" where
  "prepare p overlay_release =
     (if contains_cow p then
        (case overlay_release of Inl e \<Rightarrow> Inl e
         | Inr b \<Rightarrow> Inr \<lparr>prepared_plan = p, overlay = b\<rparr>)
      else Inr \<lparr>prepared_plan = p, overlay = False\<rparr>)"

text \<open>
  \<open>crush_tree_order\<close> for a list of subtrees with a common parent: inferiors first, each
  subtree's top window last.
\<close>

partial_function (option) crush_list :: "window_map \<Rightarrow> u32 list \<Rightarrow> u32 \<Rightarrow> (u32 \<times> u32) list option" where
  "crush_list ws ids par =
     (case ids of [] \<Rightarrow> Some []
      | i # rest \<Rightarrow>
          Option.bind
            (case ws i of None \<Rightarrow> Some []
             | Some w \<Rightarrow> Option.bind (crush_list ws (rev (children w)) i) (\<lambda>out. Some (out @ [(i, par)])))
            (\<lambda>out. Option.bind (crush_list ws rest par) (\<lambda>others. Some (out @ others))))"

definition crush_tree_order :: "window_map \<Rightarrow> u32 \<Rightarrow> u32 \<Rightarrow> (u32 \<times> u32) list option" where
  "crush_tree_order ws i par = crush_list ws [i] par"

text \<open>The outer \<open>None\<close> is divergence, the inner one the source's.\<close>

definition plan_destroy :: "window_map \<Rightarrow> u32 \<Rightarrow> destroy_plan option option" where
  "plan_destroy ws i =
     (if i = ROOT_WINDOW then Some None
      else (case ws i of None \<Rightarrow> Some None
        | Some w \<Rightarrow>
            map_option (\<lambda>out. Some \<lparr>plan_windows = out,
                contains_cow = list_ex (\<lambda>(x, _). x = COMPOSITE_OVERLAY_WINDOW) out\<rparr>)
              (crush_tree_order ws i (parent w))))"

datatype stale_problem =
  EmptyPlan
| NoLongerLists u32 u32
| Gone u32
| HasParent u32 u32
| UnplannedChild u32 u32

fun stale_entries :: "window_map \<Rightarrow> u32 list \<Rightarrow> (u32 \<times> u32) list \<Rightarrow> stale_problem option" where
  "stale_entries ws planned [] = None"
| "stale_entries ws planned ((i, par) # rest) =
     (case ws i of
        None \<Rightarrow> Some (Gone i)
      | Some w \<Rightarrow>
          if parent w \<noteq> par then Some (HasParent i (parent w))
          else (case find (\<lambda>c. c \<notin> set planned) (children w) of
              Some c \<Rightarrow> Some (UnplannedChild i c)
            | None \<Rightarrow> stale_entries ws planned rest))"

definition stale_plan_problem :: "window_map \<Rightarrow> destroy_plan \<Rightarrow> stale_problem option" where
  "stale_plan_problem ws p =
     (if plan_windows p = [] then Some EmptyPlan
      else (let (top_id, top_parent) = last (plan_windows p)
            in if \<not> (case ws top_parent of None \<Rightarrow> False | Some pw \<Rightarrow> top_id \<in> set (children pw))
               then Some (NoLongerLists top_parent top_id)
               else stale_entries ws (map fst (plan_windows p)) (plan_windows p)))"

text \<open>Removing the planned windows one by one, collecting the host cursors they let go of.\<close>

fun remove_windows :: "u32 list \<Rightarrow> window_map \<Rightarrow> u32 list \<Rightarrow> (window_map \<times> u32 list) option" where
  "remove_windows [] ws dropped = Some (ws, dropped)"
| "remove_windows (i # is) ws dropped =
     (case ws i of
        None \<Rightarrow> None
      | Some w \<Rightarrow> remove_windows is (ws(i := None))
          (dropped @ (case cursor_host w of None \<Rightarrow> [] | Some h \<Rightarrow> [h])))"

text \<open>A stale plan panics: \<open>Inl\<close>. \<open>expect("checked above")\<close> on a window already gone does too.\<close>

definition apply_destroy :: "resource_table \<Rightarrow> destroy_plan \<Rightarrow> stale_problem + resource_table" where
  "apply_destroy t p =
     (case stale_plan_problem (windows t) p of
        Some problem \<Rightarrow> Inl problem
      | None \<Rightarrow>
          (let (top_id, top_parent) = last (plan_windows p);
               ws1 = modify_window top_parent (\<lambda>w. w\<lparr>children := filter (\<lambda>c. c \<noteq> top_id) (children w)\<rparr>) (windows t)
           in case remove_windows (map fst (plan_windows p)) ws1 (dropped_cursor_hosts t) of
                None \<Rightarrow> Inl (Gone top_id)
              | Some (ws2, dropped) \<Rightarrow> Inr (t\<lparr>windows := ws2, dropped_cursor_hosts := dropped\<rparr>)))"

end
