(* ===== verification/Tree_Shape.thy ===== *)
theory Tree_Shape
  imports Window_Tree
begin

text \<open>
  The shape of the window tree: for every window its parent and its children, bottom to top.
  A shape is a tree when parents and child lists agree, no list repeats a window, and every
  window is a finite number of steps below the root. Everything the recursions of the resource
  table need follows: the child relation is well-founded, subtrees and ancestors are what they
  should be, depth is below the number of windows.
\<close>

type_synonym tree_map = "u32 \<rightharpoonup> u32 \<times> u32 list"

definition shape :: "window_map \<Rightarrow> tree_map" where
  "shape ws i = map_option (\<lambda>w. (parent w, children w)) (ws i)"

fun at_depth :: "tree_map \<Rightarrow> nat \<Rightarrow> u32 \<Rightarrow> bool" where
  "at_depth sh 0 k \<longleftrightarrow> k = ROOT_WINDOW"
| "at_depth sh (Suc n) k \<longleftrightarrow> k \<noteq> ROOT_WINDOW \<and> (case sh k of None \<Rightarrow> False | Some (p, _) \<Rightarrow> at_depth sh n p)"

definition tree_shape :: "tree_map \<Rightarrow> bool" where
  "tree_shape sh \<longleftrightarrow>
     (\<exists>cs. sh ROOT_WINDOW = Some (ROOT_WINDOW, cs)) \<and>
     (\<forall>k p cs. sh k = Some (p, cs) \<longrightarrow>
        (\<exists>n. at_depth sh n k) \<and> distinct cs
        \<and> (k \<noteq> ROOT_WINDOW \<longrightarrow> (\<exists>pp pcs. sh p = Some (pp, pcs) \<and> k \<in> set pcs))
        \<and> (\<forall>c \<in> set cs. c \<noteq> ROOT_WINDOW \<and> (\<exists>ccs. sh c = Some (k, ccs))))"

definition child_rel :: "tree_map \<Rightarrow> (u32 \<times> u32) set" where
  "child_rel sh = {(c, k). \<exists>p cs. sh k = Some (p, cs) \<and> c \<in> set cs}"

definition subtree :: "tree_map \<Rightarrow> u32 \<Rightarrow> u32 set" where
  "subtree sh k = {x. (x, k) \<in> (child_rel sh)\<^sup>*}"

lemma tree_root: "tree_shape sh \<Longrightarrow> \<exists>cs. sh ROOT_WINDOW = Some (ROOT_WINDOW, cs)"
  by (simp add: tree_shape_def)

lemma tree_depth: "tree_shape sh \<Longrightarrow> sh k = Some (p, cs) \<Longrightarrow> \<exists>n. at_depth sh n k"
  unfolding tree_shape_def by blast

lemma tree_distinct: "tree_shape sh \<Longrightarrow> sh k = Some (p, cs) \<Longrightarrow> distinct cs"
  unfolding tree_shape_def by blast

lemma tree_linked:
  "tree_shape sh \<Longrightarrow> sh k = Some (p, cs) \<Longrightarrow> k \<noteq> ROOT_WINDOW \<Longrightarrow> \<exists>pp pcs. sh p = Some (pp, pcs) \<and> k \<in> set pcs"
  unfolding tree_shape_def by blast

lemma tree_listed:
  "tree_shape sh \<Longrightarrow> sh k = Some (p, cs) \<Longrightarrow> c \<in> set cs \<Longrightarrow> c \<noteq> ROOT_WINDOW \<and> (\<exists>ccs. sh c = Some (k, ccs))"
  unfolding tree_shape_def by blast

lemma tree_child: "tree_shape sh \<Longrightarrow> (c, k) \<in> child_rel sh \<Longrightarrow> c \<noteq> ROOT_WINDOW \<and> (\<exists>ccs. sh c = Some (k, ccs))"
  by (auto simp: child_rel_def dest: tree_listed)

lemma tree_parent_rel: "tree_shape sh \<Longrightarrow> sh k = Some (p, cs) \<Longrightarrow> k \<noteq> ROOT_WINDOW \<Longrightarrow> (k, p) \<in> child_rel sh"
  by (auto simp: child_rel_def dest!: tree_linked)

lemma tree_parent_unique:
  "tree_shape sh \<Longrightarrow> (c, k) \<in> child_rel sh \<Longrightarrow> (c, k') \<in> child_rel sh \<Longrightarrow> k = k'"
  using tree_child [of sh c k] tree_child [of sh c k'] by auto

section \<open>Depth\<close>

lemma at_depth_unique: "at_depth sh n k \<Longrightarrow> at_depth sh m k \<Longrightarrow> n = m"
proof (induction n arbitrary: m k)
  case 0
  then show ?case by (cases m) auto
next
  case (Suc n)
  then show ?case by (cases m) (auto split: option.splits)
qed

lemma at_depth_child: "tree_shape sh \<Longrightarrow> (c, k) \<in> child_rel sh \<Longrightarrow> at_depth sh n k \<Longrightarrow> at_depth sh (Suc n) c"
  by (auto dest: tree_child)

lemma at_depth_below:
  assumes t: "tree_shape sh" and n: "at_depth sh n k"
  shows "(x, k) \<in> (child_rel sh)\<^sup>+ \<Longrightarrow> \<exists>m > n. at_depth sh m x"
proof (induction rule: converse_trancl_induct)
  case (base y)
  then show ?case using at_depth_child [OF t _ n] by blast
next
  case (step y z)
  then show ?case using at_depth_child [OF t step.hyps(1)] by (metis less_SucI)
qed

lemma tree_acyclic: "tree_shape sh \<Longrightarrow> acyclic (child_rel sh)"
proof (rule acyclicI, rule allI, rule notI)
  fix x assume t: "tree_shape sh" and x: "(x, x) \<in> (child_rel sh)\<^sup>+"
  then obtain y where "(y, x) \<in> child_rel sh" by (meson tranclD2)
  then obtain p cs where "sh x = Some (p, cs)" by (auto simp: child_rel_def)
  then obtain n where n: "at_depth sh n x" using t tree_depth by blast
  from at_depth_below [OF t n x] show False using at_depth_unique [OF n] by blast
qed

lemma tree_wf: "tree_shape sh \<Longrightarrow> wf (child_rel sh)"
  by (rule finite_acyclic_wf) (auto simp: tree_acyclic)

lemma at_depth_dom: "tree_shape sh \<Longrightarrow> at_depth sh n k \<Longrightarrow> sh k \<noteq> None"
  by (cases n) (auto dest: tree_root split: option.splits)

lemma at_depth_bound:
  assumes t: "tree_shape sh"
  shows "at_depth sh n k \<Longrightarrow> n < card (dom sh)"
proof -
  have chain: "\<exists>S \<subseteq> dom sh. card S = Suc n \<and> (\<forall>x \<in> S. \<exists>m \<le> n. at_depth sh m x)" if "at_depth sh n k" for n k
    using that
  proof (induction n arbitrary: k)
    case 0
    then have "k \<in> dom sh" using at_depth_dom [OF t] by blast
    then show ?case using 0 by (intro exI [of _ "{k}"]) auto
  next
    case (Suc n)
    then obtain p cs where p: "sh k = Some (p, cs)" "at_depth sh n p" by (auto split: option.splits)
    then obtain S where S: "S \<subseteq> dom sh" "card S = Suc n" "\<forall>x \<in> S. \<exists>m \<le> n. at_depth sh m x"
      using Suc.IH by blast
    have "k \<notin> S" using S(3) at_depth_unique [OF Suc.prems] by fastforce
    moreover have "finite S" using S(2) card.infinite by fastforce
    moreover have "\<forall>x \<in> insert k S. \<exists>m \<le> Suc n. at_depth sh m x"
      using S(3) Suc.prems le_SucI by (metis insertE le_refl)
    ultimately show ?case
      using S(1,2) p(1) by (intro exI [of _ "insert k S"]) auto
  qed
  assume "at_depth sh n k"
  from chain [OF this] obtain S where "S \<subseteq> dom sh" "card S = Suc n" by blast
  then show ?thesis using card_mono [of "dom sh" S] by simp
qed

section \<open>Ancestors\<close>

lemma above_step:
  assumes "tree_shape sh" and "sh k = Some (p, cs)" and "k \<noteq> ROOT_WINDOW"
  shows "(k, a) \<in> (child_rel sh)\<^sup>+ \<longleftrightarrow> p = a \<or> (p, a) \<in> (child_rel sh)\<^sup>+"
proof -
  have kp: "(k, p) \<in> child_rel sh" using tree_parent_rel assms by blast
  show ?thesis
  proof
    assume "(k, a) \<in> (child_rel sh)\<^sup>+"
    then obtain q where "(k, q) \<in> child_rel sh" "(q, a) \<in> (child_rel sh)\<^sup>*" by (meson tranclD)
    moreover have "q = p" using tree_parent_unique [OF assms(1)] kp calculation(1) by blast
    ultimately show "p = a \<or> (p, a) \<in> (child_rel sh)\<^sup>+" by (auto dest: rtranclD)
  qed (use kp in \<open>auto intro: trancl_into_trancl2\<close>)
qed

lemma root_above: "tree_shape sh \<Longrightarrow> (ROOT_WINDOW, a) \<notin> (child_rel sh)\<^sup>+"
proof
  assume t: "tree_shape sh" and "(ROOT_WINDOW, a) \<in> (child_rel sh)\<^sup>+"
  then obtain q where "(ROOT_WINDOW, q) \<in> child_rel sh" by (meson tranclD)
  then show False using tree_child [OF t] by blast
qed

lemma shape_eq: "shape ws k = Some (p, cs) \<longleftrightarrow> (\<exists>w. ws k = Some w \<and> parent w = p \<and> children w = cs)"
  by (auto simp: shape_def)

lemma shape_None [simp]: "shape ws k = None \<longleftrightarrow> ws k = None"
  by (simp add: shape_def)

lemma dom_shape [simp]: "dom (shape ws) = dom ws"
  by (auto simp: dom_def)

lemma descendant_loop_correct:
  assumes t: "tree_shape (shape ws)"
  shows "at_depth (shape ws) n k \<Longrightarrow> seen + n \<le> len \<Longrightarrow>
    descendant_loop ws len a k seen \<longleftrightarrow> (k, a) \<in> (child_rel (shape ws))\<^sup>+"
proof (induction n arbitrary: k seen)
  case 0
  then have "k = ROOT_WINDOW" by simp
  with root_above [OF t] show ?case by (subst descendant_loop.simps) simp
next
  case (Suc n)
  then obtain p cs where p: "shape ws k = Some (p, cs)" "at_depth (shape ws) n p" "k \<noteq> ROOT_WINDOW"
    by (auto split: option.splits)
  then obtain w where w: "ws k = Some w" "parent w = p" by (auto simp: shape_eq)
  have "p \<noteq> k" using p(2) Suc.prems(1) at_depth_unique by (metis n_not_Suc_n)
  then have "descendant_loop ws len a k seen \<longleftrightarrow> p = a \<or> descendant_loop ws len a p (Suc seen)"
    using p(3) w Suc.prems(2) by (subst descendant_loop.simps) auto
  also have "\<dots> \<longleftrightarrow> p = a \<or> (p, a) \<in> (child_rel (shape ws))\<^sup>+"
    using Suc.IH [OF p(2)] Suc.prems(2) by simp
  finally show ?case using above_step [OF t p(1,3)] by blast
qed

lemma is_descendant_of_iff:
  assumes "tree_shape (shape ws)" and "ws k \<noteq> None"
  shows "is_descendant_of ws k a \<longleftrightarrow> (k, a) \<in> (child_rel (shape ws))\<^sup>+"
proof -
  obtain n where "at_depth (shape ws) n k" using assms by (auto simp: shape_def dest!: tree_depth)
  moreover have "n < card (dom ws)" using at_depth_bound [OF assms(1) calculation] by simp
  ultimately show ?thesis
    using descendant_loop_correct [OF assms(1)] by (simp add: is_descendant_of_def)
qed

end
