(* ===== verification/Tree_Edits.thy ===== *)
theory Tree_Edits
  imports Tree_Shape
begin

text \<open>
  The four ways the server edits the shape of the window tree: a new leaf, a reordered child
  list, a subtree moved to a parent outside it, a subtree removed. Each keeps the tree a tree.
\<close>

lemma tree_shapeI:
  assumes "\<exists>cs. sh ROOT_WINDOW = Some (ROOT_WINDOW, cs)"
    and "\<And>k p cs. sh k = Some (p, cs) \<Longrightarrow> \<exists>n. at_depth sh n k"
    and "\<And>k p cs. sh k = Some (p, cs) \<Longrightarrow> distinct cs"
    and "\<And>k p cs. sh k = Some (p, cs) \<Longrightarrow> k \<noteq> ROOT_WINDOW \<Longrightarrow> \<exists>pp pcs. sh p = Some (pp, pcs) \<and> k \<in> set pcs"
    and "\<And>k p cs c. sh k = Some (p, cs) \<Longrightarrow> c \<in> set cs \<Longrightarrow> c \<noteq> ROOT_WINDOW \<and> (\<exists>ccs. sh c = Some (k, ccs))"
  shows "tree_shape sh"
  unfolding tree_shape_def using assms by blast

text \<open>Depth only looks at parents, and only at those above.\<close>

lemma at_depth_mono:
  "\<forall>x p cs. sh x = Some (p, cs) \<longrightarrow> (\<exists>cs'. sh' x = Some (p, cs')) \<Longrightarrow> at_depth sh n k \<Longrightarrow> at_depth sh' n k"
  by (induction n arbitrary: k) (fastforce split: option.splits)+

section \<open>A new leaf\<close>

lemma tree_add_leaf:
  assumes t: "tree_shape sh" and par: "sh par = Some (pp, pcs)" and new: "sh i = None"
    and cs': "set cs' = insert i (set pcs)" "distinct cs'"
  shows "tree_shape (sh(par \<mapsto> (pp, cs'), i \<mapsto> (par, [])))" (is "tree_shape ?sh")
proof -
  have ne: "par \<noteq> i" using par new by auto
  have mono: "\<forall>x p cs. sh x = Some (p, cs) \<longrightarrow> (\<exists>cs'. ?sh x = Some (p, cs'))" using par new by auto
  have root: "i \<noteq> ROOT_WINDOW" using tree_root [OF t] new by auto
  show ?thesis
  proof (rule tree_shapeI)
    show "\<exists>cs. ?sh ROOT_WINDOW = Some (ROOT_WINDOW, cs)"
      using tree_root [OF t] mono by blast
  next
    fix k p cs assume k: "?sh k = Some (p, cs)"
    show "\<exists>n. at_depth ?sh n k"
    proof (cases "k = i")
      case True
      obtain n where "at_depth sh n par" using tree_depth [OF t par] by blast
      then have "at_depth ?sh n par" by (rule at_depth_mono [OF mono])
      then have "at_depth ?sh (Suc n) k" using True root by simp
      then show ?thesis by blast
    next
      case False
      then obtain p' cs' where "sh k = Some (p', cs')" using k par by (cases "k = par") auto
      then show ?thesis using tree_depth [OF t] at_depth_mono [OF mono] by blast
    qed
    show "distinct cs" using k cs'(2) tree_distinct [OF t] by (auto split: if_splits)
    show "\<exists>pp' pcs'. ?sh p = Some (pp', pcs') \<and> k \<in> set pcs'" if kr: "k \<noteq> ROOT_WINDOW"
    proof (cases "k = i")
      case True
      with k have "p = par" by simp
      with ne cs'(1) True show ?thesis by simp
    next
      case False
      then obtain cs0 where "sh k = Some (p, cs0)" using k par by (cases "k = par") auto
      then obtain qp qcs where q: "sh p = Some (qp, qcs)" "k \<in> set qcs" using tree_linked [OF t _ kr] by blast
      have "p \<noteq> i" using q(1) new by auto
      then have "?sh p = (if p = par then Some (pp, cs') else sh p)" by simp
      moreover have "k \<in> set cs'" if "p = par" using that q par cs'(1) by simp
      ultimately show ?thesis using q by simp
    qed
    show "c \<noteq> ROOT_WINDOW \<and> (\<exists>ccs. ?sh c = Some (k, ccs))" if c: "c \<in> set cs" for c
    proof (cases "c = i")
      case True
      moreover have "k = par"
      proof (rule ccontr)
        assume kp: "k \<noteq> par"
        then have "k \<noteq> i" using k c by auto
        then have "sh k = Some (p, cs)" using k kp by simp
        then show False using tree_listed [OF t _ c] True new by auto
      qed
      ultimately show ?thesis using root by simp
    next
      case False
      have "\<exists>p0 cs0. sh k = Some (p0, cs0) \<and> c \<in> set cs0"
      proof (cases "k = par")
        case True
        then show ?thesis using k ne par cs'(1) c False by auto
      next
        case kp: False
        then have "k \<noteq> i" using k c by auto
        then show ?thesis using k c kp by auto
      qed
      then show ?thesis using tree_listed [OF t] mono by blast
    qed
  qed
qed

section \<open>A reordered child list\<close>

lemma tree_reorder:
  assumes t: "tree_shape sh" and par: "sh par = Some (pp, pcs)"
    and cs': "set cs' = set pcs" "distinct cs'"
  shows "tree_shape (sh(par \<mapsto> (pp, cs')))" (is "tree_shape ?sh")
proof -
  have same: "\<exists>ds. ?sh x = Some (p, ds) \<and> set ds = set cs" if "sh x = Some (p, cs)" for x p cs
    using that par cs'(1) by (cases "x = par") simp_all
  have bwd: "\<exists>ds. sh x = Some (p, ds) \<and> set ds = set cs" if "?sh x = Some (p, cs)" for x p cs
    using that par cs'(1) by (cases "x = par") simp_all
  have mono: "\<forall>x p cs. sh x = Some (p, cs) \<longrightarrow> (\<exists>cs'. ?sh x = Some (p, cs'))" using same by blast
  show ?thesis
  proof (rule tree_shapeI)
    show "\<exists>cs. ?sh ROOT_WINDOW = Some (ROOT_WINDOW, cs)" using tree_root [OF t] same by blast
    fix k p cs assume k: "?sh k = Some (p, cs)"
    then obtain ds where ds: "sh k = Some (p, ds)" "set ds = set cs" using bwd by blast
    show "\<exists>n. at_depth ?sh n k" using tree_depth [OF t ds(1)] at_depth_mono [OF mono] by blast
    show "distinct cs" using k cs'(2) tree_distinct [OF t] by (auto split: if_splits)
    show "\<exists>pp pcs. ?sh p = Some (pp, pcs) \<and> k \<in> set pcs" if "k \<noteq> ROOT_WINDOW"
      using tree_linked [OF t ds(1) that] same by blast
    show "c \<noteq> ROOT_WINDOW \<and> (\<exists>ccs. ?sh c = Some (k, ccs))" if "c \<in> set cs" for c
      using tree_listed [OF t ds(1), of c] that ds(2) same by blast
  qed
qed

section \<open>A removed subtree\<close>

definition remove_subtree :: "tree_map \<Rightarrow> u32 \<Rightarrow> u32 \<Rightarrow> tree_map" where
  "remove_subtree sh i par =
     (\<lambda>k. if k \<in> subtree sh i then None
          else if k = par then map_option (\<lambda>(pp, pcs). (pp, filter (\<lambda>c. c \<noteq> i) pcs)) (sh k)
          else sh k)"

lemma subtree_self [simp]: "i \<in> subtree sh i"
  by (simp add: subtree_def)

lemma subtree_child: "k \<in> subtree sh i \<Longrightarrow> (c, k) \<in> child_rel sh \<Longrightarrow> c \<in> subtree sh i"
  by (auto simp: subtree_def intro: converse_rtrancl_into_rtrancl)

lemma subtree_parent:
  assumes "tree_shape sh" and "sh k = Some (p, cs)" and "k \<in> subtree sh i" and "k \<noteq> i"
  shows "p \<in> subtree sh i"
proof -
  have "(k, i) \<in> (child_rel sh)\<^sup>+" using assms(3,4) by (auto simp: subtree_def dest: rtranclD)
  moreover have "k \<noteq> ROOT_WINDOW" using root_above [OF assms(1)] calculation by blast
  ultimately show ?thesis
    using above_step [OF assms(1,2)] by (auto simp: subtree_def intro: trancl_into_rtrancl)
qed

lemma not_subtree_parent:
  "tree_shape sh \<Longrightarrow> sh k = Some (p, cs) \<Longrightarrow> k \<noteq> ROOT_WINDOW \<Longrightarrow> k \<notin> subtree sh i \<Longrightarrow> p \<notin> subtree sh i"
  by (meson subtree_child tree_parent_rel)

lemma parent_not_in_subtree:
  assumes t: "tree_shape sh" and i: "sh i = Some (par, ics)" "i \<noteq> ROOT_WINDOW"
  shows "par \<notin> subtree sh i"
proof
  assume "par \<in> subtree sh i"
  then have "(i, i) \<in> (child_rel sh)\<^sup>+"
    using tree_parent_rel [OF t i] by (auto simp: subtree_def)
  then show False using tree_acyclic [OF t] by (simp add: acyclic_def)
qed

lemma root_not_in_subtree: "tree_shape sh \<Longrightarrow> i \<noteq> ROOT_WINDOW \<Longrightarrow> ROOT_WINDOW \<notin> subtree sh i"
  using root_above by (auto simp: subtree_def dest: rtranclD)

lemma at_depth_outside:
  assumes t: "tree_shape sh"
    and same: "\<And>x p cs. sh x = Some (p, cs) \<Longrightarrow> x \<notin> subtree sh i \<Longrightarrow> \<exists>cs'. sh' x = Some (p, cs')"
  shows "at_depth sh n k \<Longrightarrow> k \<notin> subtree sh i \<Longrightarrow> at_depth sh' n k"
proof (induction n arbitrary: k)
  case (Suc n)
  then obtain p cs where p: "sh k = Some (p, cs)" "at_depth sh n p" "k \<noteq> ROOT_WINDOW"
    by (auto split: option.splits)
  then have "at_depth sh' n p" using Suc not_subtree_parent [OF t] by blast
  then show ?case using same [OF p(1) Suc.prems(2)] p(3) by auto
qed simp

lemma tree_remove:
  assumes t: "tree_shape sh" and i: "sh i = Some (par, ics)" "i \<noteq> ROOT_WINDOW"
  shows "tree_shape (remove_subtree sh i par)" (is "tree_shape ?sh")
proof -
  have same: "\<exists>cs'. ?sh x = Some (p, cs')" if "sh x = Some (p, cs)" "x \<notin> subtree sh i" for x p cs
    using that by (auto simp: remove_subtree_def)
  have bwd: "\<exists>ds. sh x = Some (p, ds) \<and> x \<notin> subtree sh i \<and> distinct cs
      \<and> (\<forall>c. c \<in> set cs \<longleftrightarrow> c \<in> set ds \<and> (x = par \<longrightarrow> c \<noteq> i))"
    if "?sh x = Some (p, cs)" for x p cs
    using that tree_distinct [OF t] by (auto simp: remove_subtree_def split: if_splits)
  show ?thesis
  proof (rule tree_shapeI)
    show "\<exists>cs. ?sh ROOT_WINDOW = Some (ROOT_WINDOW, cs)"
      using tree_root [OF t] root_not_in_subtree [OF t i(2)] same by blast
    fix k p cs assume k: "?sh k = Some (p, cs)"
    then obtain ds where ds: "sh k = Some (p, ds)" "k \<notin> subtree sh i" "distinct cs"
        "\<And>c. c \<in> set cs \<longleftrightarrow> c \<in> set ds \<and> (k = par \<longrightarrow> c \<noteq> i)"
      using bwd by blast
    show "\<exists>n. at_depth ?sh n k"
      using tree_depth [OF t ds(1)] at_depth_outside [OF t, of i ?sh] same ds(2) by blast
    show "distinct cs" by (rule ds(3))
    show "\<exists>pp pcs. ?sh p = Some (pp, pcs) \<and> k \<in> set pcs" if kr: "k \<noteq> ROOT_WINDOW"
    proof -
      obtain pp pcs where p: "sh p = Some (pp, pcs)" "k \<in> set pcs" using tree_linked [OF t ds(1) kr] by blast
      moreover have "p \<notin> subtree sh i" using not_subtree_parent [OF t ds(1) kr ds(2)] .
      moreover have "k \<noteq> i" using ds(2) by auto
      ultimately show ?thesis by (auto simp: remove_subtree_def)
    qed
    show "c \<noteq> ROOT_WINDOW \<and> (\<exists>ccs. ?sh c = Some (k, ccs))" if c: "c \<in> set cs" for c
    proof -
      have cd: "c \<in> set ds" "k = par \<longrightarrow> c \<noteq> i" using ds(4) c by auto
      then obtain ccs where cc: "sh c = Some (k, ccs)" "c \<noteq> ROOT_WINDOW" using tree_listed [OF t ds(1)] by blast
      have "c \<noteq> i" using cc(1) i(1) cd(2) by auto
      then have "c \<notin> subtree sh i" using subtree_parent [OF t cc(1)] ds(2) by blast
      then show ?thesis using same [OF cc(1)] cc(2) by blast
    qed
  qed
qed

section \<open>A subtree moved\<close>

definition move_subtree :: "tree_map \<Rightarrow> u32 \<Rightarrow> u32 \<Rightarrow> u32 \<Rightarrow> u32 list \<Rightarrow> tree_map" where
  "move_subtree sh i old new ncs =
     (\<lambda>k. case sh k of None \<Rightarrow> None
        | Some (p, cs) \<Rightarrow>
            Some (if k = i then new else p,
                  if k = new then ncs else if k = old then filter (\<lambda>c. c \<noteq> i) cs else cs))"

lemma tree_move:
  assumes t: "tree_shape sh" and i: "sh i = Some (old, ics)" "i \<noteq> ROOT_WINDOW"
    and new: "sh new = Some (np, nds)" "new \<notin> subtree sh i"
    and ncs: "set ncs = insert i (set nds)" "distinct ncs"
  shows "tree_shape (move_subtree sh i old new ncs)" (is "tree_shape ?sh")
proof -
  have ni: "new \<noteq> i" using new(2) by auto
  have old: "i \<in> set cs" if "sh old = Some (p, cs)" for p cs using tree_linked [OF t i] that by auto
  have same: "\<exists>cs'. ?sh x = Some (p, cs')" if "sh x = Some (p, cs)" "x \<notin> subtree sh i" for x p cs
    using that by (auto simp: move_subtree_def)
  have iD: "\<exists>n. at_depth ?sh n i"
  proof -
    obtain n where "at_depth sh n new" using tree_depth [OF t new(1)] by blast
    then have "at_depth ?sh n new" using at_depth_outside [OF t, of i ?sh] same new(2) by blast
    then have "at_depth ?sh (Suc n) i" using i by (simp add: move_subtree_def)
    then show ?thesis by blast
  qed
  have inside: "\<exists>n. at_depth ?sh n k" if "k \<in> subtree sh i" for k
    using that unfolding subtree_def mem_Collect_eq
  proof (induction rule: converse_rtrancl_induct)
    case (step c k)
    show ?case
    proof (cases "c = i")
      case False
      obtain ccs n where cc: "sh c = Some (k, ccs)" "c \<noteq> ROOT_WINDOW" "at_depth ?sh n k"
        using tree_child [OF t step.hyps(1)] step.IH by blast
      then have "at_depth ?sh (Suc n) c" using False by (simp add: move_subtree_def)
      then show ?thesis by blast
    qed (use iD in simp)
  qed (rule iD)
  show ?thesis
  proof (rule tree_shapeI)
    show "\<exists>cs. ?sh ROOT_WINDOW = Some (ROOT_WINDOW, cs)"
      using tree_root [OF t] root_not_in_subtree [OF t i(2)] same by blast
    fix k p cs assume k: "?sh k = Some (p, cs)"
    then obtain q ds where q: "sh k = Some (q, ds)" "p = (if k = i then new else q)"
        "cs = (if k = new then ncs else if k = old then filter (\<lambda>c. c \<noteq> i) ds else ds)"
      by (auto simp: move_subtree_def split: option.splits)
    show "\<exists>n. at_depth ?sh n k"
      using inside tree_depth [OF t q(1)] at_depth_outside [OF t, of i ?sh] same by blast
    show "distinct cs" using q(3) ncs(2) tree_distinct [OF t q(1)] by auto
    show "\<exists>pp pcs. ?sh p = Some (pp, pcs) \<and> k \<in> set pcs" if kr: "k \<noteq> ROOT_WINDOW"
    proof (cases "k = i")
      case True
      then show ?thesis using q(2) new(1) ncs(1) by (auto simp: move_subtree_def)
    next
      case False
      obtain pp pcs where qq: "sh q = Some (pp, pcs)" "k \<in> set pcs" using tree_linked [OF t q(1) kr] by blast
      then have "k \<in> set (if q = new then ncs else if q = old then filter (\<lambda>c. c \<noteq> i) pcs else pcs)"
        using False new(1) ncs(1) by (cases "q = new") auto
      then show ?thesis using False q(2) qq(1) by (simp add: move_subtree_def)
    qed
    show "c \<noteq> ROOT_WINDOW \<and> (\<exists>ccs. ?sh c = Some (k, ccs))" if c: "c \<in> set cs" for c
    proof (cases "c = i")
      case True
      have "k = new"
      proof (rule ccontr)
        assume kn: "k \<noteq> new"
        then have "i \<in> set ds" "k \<noteq> old" using c True q(3) by (auto split: if_splits)
        then show False using tree_listed [OF t q(1), of i] i(1) by auto
      qed
      then show ?thesis using True i by (auto simp: move_subtree_def)
    next
      case False
      have "c \<in> set ds" using c False q(1,3) new(1) ncs(1) by (auto split: if_splits)
      then have "c \<noteq> ROOT_WINDOW \<and> (\<exists>ccs. sh c = Some (k, ccs))" using tree_listed [OF t q(1)] by blast
      then show ?thesis using False by (auto simp: move_subtree_def)
    qed
  qed
qed

end
