(* ===== verification/Viewability.thy ===== *)
theory Viewability
  imports Tree_Edits
begin

text \<open>
  The viewability cascades. \<open>reach\<close> collects the windows below a list of children that can be
  reached through windows in a good state; promoting marks all of them viewable, demoting
  unviewable, and the lists returned are exactly the windows whose state changed, parents
  before children on the way up and after them on the way down. The recursion returns on every
  tree.
\<close>

inductive reach :: "window_map \<Rightarrow> (map_state \<Rightarrow> bool) \<Rightarrow> u32 set \<Rightarrow> u32 \<Rightarrow> bool"
  for ws good cs where
  start: "c \<in> cs \<Longrightarrow> ws c = Some w \<Longrightarrow> good (map_state w) \<Longrightarrow> reach ws good cs c"
| step: "reach ws good cs k \<Longrightarrow> ws k = Some w \<Longrightarrow> c \<in> set (children w) \<Longrightarrow> ws c = Some cw \<Longrightarrow>
    good (map_state cw) \<Longrightarrow> reach ws good cs c"

definition mark :: "map_state \<Rightarrow> u32 set \<Rightarrow> window_map \<Rightarrow> window_map" where
  "mark s S ws = (\<lambda>k. if k \<in> S then map_option (\<lambda>w. w\<lparr>map_state := s\<rparr>) (ws k) else ws k)"

lemma mark_empty [simp]: "mark s {} ws = ws"
  by (simp add: mark_def)

lemma mark_mark: "mark s B (mark s A ws) = mark s (A \<union> B) ws"
  by (auto simp: mark_def fun_eq_iff option.map_comp comp_def)

lemma set_state_mark: "set_state s i ws = mark s {i} ws"
  by (auto simp: set_state_def mark_def modify_window_apply fun_eq_iff)

lemma shape_mark [simp]: "shape (mark s A ws) = shape ws"
  by (auto simp: shape_def mark_def fun_eq_iff option.map_comp comp_def)

lemma shape_set_state [simp]: "shape (set_state s i ws) = shape ws"
  by (simp add: set_state_mark)

lemma children_of_shape: "children_of ws k = (case shape ws k of None \<Rightarrow> [] | Some (p, cs) \<Rightarrow> cs)"
  by (simp add: children_of_def shape_def split: option.splits)

lemma children_of_mark [simp]: "children_of (mark s A ws) k = children_of ws k"
  by (simp add: children_of_shape)

lemma in_state_mark:
  "in_state (mark s A ws) s' k \<longleftrightarrow> (if k \<in> A then ws k \<noteq> None \<and> s = s' else in_state ws s' k)"
  by (auto simp: in_state_def mark_def split: option.splits)

lemma reach_good: "reach ws good cs k \<Longrightarrow> \<exists>w. ws k = Some w \<and> good (map_state w)"
  by (induction rule: reach.induct) auto

lemma reach_mono_set: "reach ws good cs k \<Longrightarrow> cs \<subseteq> ds \<Longrightarrow> reach ws good ds k"
  by (induction rule: reach.induct) (auto intro: reach.intros)

lemma reach_Un: "reach ws good (A \<union> B) k \<longleftrightarrow> reach ws good A k \<or> reach ws good B k"
proof
  show "reach ws good (A \<union> B) k \<Longrightarrow> reach ws good A k \<or> reach ws good B k"
    by (induction rule: reach.induct) (auto intro: reach.intros)
qed (auto intro: reach_mono_set)

lemma reach_empty [simp]: "\<not> reach ws good {} k"
proof
  assume "reach ws good {} k"
  then show False by (induction rule: reach.induct) auto
qed

lemma reach_single:
  "reach ws good {c} k \<longleftrightarrow>
     (\<exists>w. ws c = Some w \<and> good (map_state w)) \<and> (k = c \<or> reach ws good (set (children_of ws c)) k)"
proof
  assume "reach ws good {c} k"
  then show "(\<exists>w. ws c = Some w \<and> good (map_state w)) \<and> (k = c \<or> reach ws good (set (children_of ws c)) k)"
    by (induction rule: reach.induct) (auto simp: children_of_def intro: reach.intros)
next
  assume r: "(\<exists>w. ws c = Some w \<and> good (map_state w)) \<and> (k = c \<or> reach ws good (set (children_of ws c)) k)"
  then have c: "reach ws good {c} c" by (auto intro: reach.start)
  have "reach ws good {c} k" if "reach ws good (set (children_of ws c)) k"
    using that c r by (induction rule: reach.induct) (auto simp: children_of_def intro: reach.step)
  with r c show "reach ws good {c} k" by blast
qed

text \<open>Reachability sees only shapes and whether states are good.\<close>

lemma reach_cong:
  assumes "reach ws good cs k" and "shape ws = shape ws'"
    and "\<And>k w w'. ws k = Some w \<Longrightarrow> ws' k = Some w' \<Longrightarrow> good (map_state w) \<Longrightarrow> good' (map_state w')"
  shows "reach ws' good' cs k"
proof -
  have same: "\<exists>w'. ws' k = Some w' \<and> children w' = children w" if "ws k = Some w" for k w
    using fun_cong [OF assms(2), of k] that by (cases "ws' k") (auto simp: shape_def)
  show ?thesis using assms(1)
  proof (induction rule: reach.induct)
    case (start c w)
    obtain w' where w': "ws' c = Some w'" using same [OF start(2)] by blast
    from start(1) w' assms(3) [OF start(2) w' start(3)] show ?case by (rule reach.start)
  next
    case (step k w c cw)
    obtain w' where w': "ws' k = Some w'" "children w' = children w" using same [OF step(2)] by blast
    obtain cw' where cw': "ws' c = Some cw'" using same [OF step(4)] by blast
    from w'(2) step(3) have "c \<in> set (children w')" by simp
    from step.IH w'(1) this cw' assms(3) [OF step(4) cw' step(5)] show ?case by (rule reach.step)
  qed
qed

lemma reach_subtree: "reach ws good cs k \<Longrightarrow> \<exists>c \<in> cs. k \<in> subtree (shape ws) c"
proof (induction rule: reach.induct)
  case (start c w)
  then show ?case by (auto intro: subtree_self)
next
  case (step k w c cw)
  then have "(c, k) \<in> child_rel (shape ws)" by (auto simp: child_rel_def shape_def)
  with step.IH show ?case using subtree_child by blast
qed

section \<open>Siblings\<close>

lemma siblings_disjoint:
  assumes t: "tree_shape sh" and c: "(c, k) \<in> child_rel sh" and d: "(d, k) \<in> child_rel sh"
    and "x \<in> subtree sh c" and "x \<in> subtree sh d"
  shows "c = d"
proof (rule ccontr)
  assume ne: "c \<noteq> d"
  have sv: "single_valued (child_rel sh)"
    using tree_parent_unique [OF t] by (auto intro: single_valuedI)
  have cyc: False if ab: "(a, b) \<in> (child_rel sh)\<^sup>*" "a \<noteq> b" and a: "(a, k) \<in> child_rel sh" and b: "(b, k) \<in> child_rel sh" for a b
  proof -
    obtain q where q: "(a, q) \<in> child_rel sh" "(q, b) \<in> (child_rel sh)\<^sup>*"
      using ab by (meson converse_rtranclE)
    then have "(k, b) \<in> (child_rel sh)\<^sup>*" using tree_parent_unique [OF t q(1) a] by simp
    then have "(k, k) \<in> (child_rel sh)\<^sup>+" using b by (rule rtrancl_into_trancl1)
    then show False using tree_acyclic [OF t] by (simp add: acyclic_def)
  qed
  have "(c, d) \<in> (child_rel sh)\<^sup>* \<or> (d, c) \<in> (child_rel sh)\<^sup>*"
    using single_valued_confluent [OF sv] assms(4,5) by (simp add: subtree_def)
  then show False using cyc ne c d by blast
qed

text \<open>A list of distinct children of one window.\<close>

definition sibling_list :: "tree_map \<Rightarrow> u32 list \<Rightarrow> bool" where
  "sibling_list sh cs \<longleftrightarrow> distinct cs \<and> (\<exists>k. \<forall>c \<in> set cs. (c, k) \<in> child_rel sh)"

lemma sibling_list_Cons: "sibling_list sh (c # cs) \<Longrightarrow> c \<notin> set cs \<and> sibling_list sh cs"
  by (auto simp: sibling_list_def)

lemma sibling_list_children: "tree_shape (shape ws) \<Longrightarrow> sibling_list (shape ws) (children_of ws k)"
proof (cases "ws k")
  case (Some w)
  then have "shape ws k = Some (parent w, children w)" by (simp add: shape_def)
  moreover assume "tree_shape (shape ws)"
  ultimately show ?thesis using Some
    by (auto simp: sibling_list_def children_of_def child_rel_def dest: tree_distinct)
qed (simp add: sibling_list_def children_of_def)

lemma siblings_below:
  assumes t: "tree_shape sh" and s: "sibling_list sh (c # cs)"
    and x: "x \<in> subtree sh c" and d: "d \<in> set cs" and y: "y \<in> subtree sh d"
  shows "(x, y) \<notin> (child_rel sh)\<^sup>+" and "(y, x) \<notin> (child_rel sh)\<^sup>+"
proof -
  obtain k where k: "(c, k) \<in> child_rel sh" "(d, k) \<in> child_rel sh" and ne: "c \<noteq> d"
    using s d by (auto simp: sibling_list_def)
  have "x \<in> subtree sh d" if "(x, y) \<in> (child_rel sh)\<^sup>+"
    using that y by (auto simp: subtree_def intro: rtrancl_trans trancl_into_rtrancl)
  then show "(x, y) \<notin> (child_rel sh)\<^sup>+" using siblings_disjoint [OF t k x] ne by blast
  have "y \<in> subtree sh c" if "(y, x) \<in> (child_rel sh)\<^sup>+"
    using that x by (auto simp: subtree_def intro: rtrancl_trans trancl_into_rtrancl)
  then show "(y, x) \<notin> (child_rel sh)\<^sup>+" using siblings_disjoint [OF t k _ y] ne by blast
qed

lemma not_below_child: "tree_shape sh \<Longrightarrow> x \<in> subtree sh c \<Longrightarrow> (c, x) \<notin> (child_rel sh)\<^sup>+"
  using tree_acyclic [of sh] by (auto simp: subtree_def acyclic_def dest: trancl_rtrancl_trancl)

section \<open>Promotion\<close>

abbreviation is_mapped :: "map_state \<Rightarrow> bool" where
  "is_mapped s \<equiv> s \<noteq> Unmapped"

definition promote_spec :: "u32 list \<Rightarrow> window_map \<Rightarrow> bool" where
  "promote_spec cs ws \<longleftrightarrow>
     (let M = Collect (reach ws is_mapped (set cs)) in
      \<exists>out. promote_children cs ws = Some (mark Viewable M ws, out)
        \<and> distinct out \<and> set out = {k \<in> M. in_state ws Unviewable k}
        \<and> sorted_wrt (\<lambda>a b. (a, b) \<notin> (child_rel (shape ws))\<^sup>+) out)"

lemma mark_id: "in_state ws s c \<Longrightarrow> mark s {c} ws = ws"
  by (auto simp: mark_def in_state_def fun_eq_iff split: option.splits)

lemma reach_mark_mapped:
  assumes "s \<noteq> Unmapped" and "\<And>k w. k \<in> A \<Longrightarrow> ws k = Some w \<Longrightarrow> is_mapped (map_state w)"
  shows "reach (mark s A ws) is_mapped cs k \<longleftrightarrow> reach ws is_mapped cs k"
proof
  show "reach (mark s A ws) is_mapped cs k \<Longrightarrow> reach ws is_mapped cs k"
    by (erule reach_cong, rule shape_mark) (use assms(2) in \<open>auto simp: mark_def split: if_splits\<close>)
  show "reach ws is_mapped cs k \<Longrightarrow> reach (mark s A ws) is_mapped cs k"
    by (erule reach_cong, rule shape_mark [symmetric]) (use assms(1) in \<open>auto simp: mark_def split: if_splits\<close>)
qed

lemma promote_unfold:
  "promote_children (c # rest) ws =
    (if in_state ws Unviewable c \<or> in_state ws Viewable c then
       (let ws1 = mark Viewable {c} ws in
        Option.bind (promote_children (children_of ws1 c) ws1)
          (\<lambda>r1. Option.bind (promote_children rest (fst r1))
            (\<lambda>r2. Some (fst r2, (if in_state ws Unviewable c then [c] else []) @ snd r1 @ snd r2))))
     else Option.bind (promote_children rest ws) Some)"
proof -
  have "in_state ws Unviewable c \<Longrightarrow> in_state (mark Viewable {c} ws) Viewable c"
    by (auto simp: in_state_def mark_def split: option.splits)
  then show ?thesis
    by (subst promote_children.simps)
      (auto simp: set_state_mark Let_def mark_id in_state_def split: option.splits)
qed

lemma mapped_in_state:
  "(\<exists>w. ws c = Some w \<and> is_mapped (map_state w)) \<longleftrightarrow> in_state ws Unviewable c \<or> in_state ws Viewable c"
  by (auto simp: in_state_def split: option.splits) (metis map_state.exhaust)

lemma promote_spec_list:
  assumes t: "tree_shape sh"
    and IH: "\<And>c ws. c \<in> set cs \<Longrightarrow> shape ws = sh \<Longrightarrow> promote_spec (children_of ws c) ws"
  shows "shape ws = sh \<Longrightarrow> sibling_list sh cs \<Longrightarrow> promote_spec cs ws"
  using IH
proof (induction cs arbitrary: ws)
  case Nil
  have "Collect (reach ws is_mapped (set [])) = {}" by simp
  then show ?case by (simp only: promote_spec_def Let_def, subst promote_children.simps) simp
next
  case (Cons c cs)
  have sl: "sibling_list sh cs" using Cons.prems(2) sibling_list_Cons by blast
  show ?case
  proof (cases "in_state ws Unviewable c \<or> in_state ws Viewable c")
    case False
    have "promote_spec cs ws" using Cons.IH [OF Cons.prems(1) sl] Cons.prems(3) by simp
    moreover have "Collect (reach ws is_mapped (set (c # cs))) = Collect (reach ws is_mapped (set cs))"
      using False mapped_in_state [of ws c] reach_Un [of ws is_mapped "{c}" "set cs"]
      by (auto simp: reach_single)
    ultimately show ?thesis using False by (simp only: promote_spec_def Let_def) (simp add: promote_unfold)
  next
    case True
    let ?R = "child_rel sh"
    let ?ws1 = "mark Viewable {c} ws"
    let ?M1 = "Collect (reach ws is_mapped (set (children_of ws c)))"
    let ?ws2 = "mark Viewable (insert c ?M1) ws"
    let ?M2 = "Collect (reach ws is_mapped (set cs))"
    have cm: "\<exists>w. ws c = Some w \<and> is_mapped (map_state w)" using True mapped_in_state by blast
    have r1: "reach ?ws1 is_mapped D = reach ws is_mapped D" for D
      using cm by (intro ext reach_mark_mapped) auto
    have r2: "reach ?ws2 is_mapped D = reach ws is_mapped D" for D
      using cm reach_good [of ws is_mapped] by (intro ext reach_mark_mapped) fastforce+
    have ch: "children_of ?ws1 c = children_of ws c" by (simp add: children_of_shape)
    obtain out1 where o1: "promote_children (children_of ws c) ?ws1 = Some (?ws2, out1)" "distinct out1"
        "set out1 = {k \<in> ?M1. in_state ?ws1 Unviewable k}" "sorted_wrt (\<lambda>a b. (a, b) \<notin> ?R\<^sup>+) out1"
      using Cons.prems(3) [of c ?ws1] Cons.prems(1) by (auto simp: promote_spec_def r1 ch mark_mark Let_def)
    obtain out2 where o2: "promote_children cs ?ws2 = Some (mark Viewable ?M2 ?ws2, out2)" "distinct out2"
        "set out2 = {k \<in> ?M2. in_state ?ws2 Unviewable k}" "sorted_wrt (\<lambda>a b. (a, b) \<notin> ?R\<^sup>+) out2"
      using Cons.IH [of ?ws2] Cons.prems sl by (auto simp: promote_spec_def r2 Let_def)
    have M: "Collect (reach ws is_mapped (set (c # cs))) = insert c ?M1 \<union> ?M2"
      using cm reach_Un [of ws is_mapped "{c}" "set cs"] by (auto simp: reach_single)
    let ?out = "(if in_state ws Unviewable c then [c] else []) @ out1 @ out2"
    have s1: "set out1 = {k \<in> ?M1. k \<noteq> c \<and> in_state ws Unviewable k}"
      using o1(3) by (auto simp: in_state_mark split: if_splits)
    have s2: "set out2 = {k \<in> ?M2. k \<notin> insert c ?M1 \<and> in_state ws Unviewable k}"
      using o2(3) by (auto simp: in_state_mark split: if_splits)
    have set: "set ?out = {k \<in> insert c ?M1 \<union> ?M2. in_state ws Unviewable k}"
      by (auto simp: s1 s2 split: if_splits)
    have dist: "distinct ?out" using o1(2) o2(2) by (auto simp: s1 s2)
    have sub1: "x \<in> subtree sh c" if "x \<in> set out1" for x
    proof -
      have "reach ws is_mapped {c} x" using that s1 cm by (simp add: reach_single)
      then show ?thesis using reach_subtree Cons.prems(1) by blast
    qed
    have sub2: "\<exists>d \<in> set cs. x \<in> subtree sh d" if "x \<in> set out2" for x
      using that s2 reach_subtree [of ws is_mapped "set cs" x] Cons.prems(1) by auto
    have "(a, b) \<notin> ?R\<^sup>+" if "a = c \<or> a \<in> set out1" "b \<in> set out2" for a b
      using siblings_below(1) [OF t Cons.prems(2), of a _ b] that sub1 sub2 [OF that(2)] subtree_self by blast
    moreover have "(c, b) \<notin> ?R\<^sup>+" if "b \<in> set out1" for b
      using not_below_child [OF t] sub1 that by blast
    ultimately have ord: "sorted_wrt (\<lambda>a b. (a, b) \<notin> ?R\<^sup>+) ?out"
      using o1(4) o2(4) by (auto simp: sorted_wrt_append)
    have "promote_children (c # cs) ws = Some (mark Viewable (insert c ?M1 \<union> ?M2) ws, ?out)"
      using True o1(1) o2(1) by (simp add: promote_unfold ch mark_mark)
    then show ?thesis using set dist ord Cons.prems(1) unfolding promote_spec_def Let_def M by blast
  qed
qed

theorem promote_spec_children:
  assumes "tree_shape (shape ws)"
  shows "promote_spec (children_of ws k) ws"
proof -
  have "shape ws' = shape ws \<Longrightarrow> promote_spec (children_of ws' k) ws'" for ws'
  proof (induction k arbitrary: ws' rule: wf_induct_rule [OF tree_wf [OF assms]])
    case (1 k)
    have "c \<in> set (children_of ws' k) \<Longrightarrow> (c, k) \<in> child_rel (shape ws)" for c
      using 1(2) by (cases "shape ws k") (auto simp: child_rel_def children_of_shape)
    moreover have "sibling_list (shape ws) (children_of ws' k)"
      using sibling_list_children [of ws' k] assms 1(2) by simp
    ultimately show ?case
      using promote_spec_list [OF assms, of "children_of ws' k" ws'] 1 by blast
  qed
  then show ?thesis by blast
qed

section \<open>Demotion\<close>

abbreviation is_viewable :: "map_state \<Rightarrow> bool" where
  "is_viewable s \<equiv> s = Viewable"

definition demote_spec :: "u32 list \<Rightarrow> window_map \<Rightarrow> bool" where
  "demote_spec cs ws \<longleftrightarrow>
     (let M = Collect (reach ws is_viewable (set cs)) in
      \<exists>out. demote_children cs ws = Some (mark Unviewable M ws, out)
        \<and> distinct out \<and> set out = M
        \<and> sorted_wrt (\<lambda>a b. (b, a) \<notin> (child_rel (shape ws))\<^sup>+) out)"

lemma reach_marked_back:
  "reach (mark Unviewable A ws) is_viewable cs k \<Longrightarrow> reach ws is_viewable cs k \<and> k \<notin> A"
proof (induction rule: reach.induct)
  case (start c w)
  then show ?case by (auto simp: mark_def intro: reach.start split: if_splits)
next
  case (step k w c cw)
  then have kc: "ws c = Some cw" "c \<notin> A" "ws k = Some w" by (auto simp: mark_def split: if_splits)
  then show ?case using step.IH step.hyps(3,5) by (auto intro: reach.step)
qed

text \<open>Demoting a set that nothing viewable hangs below leaves the other windows reachable.\<close>

lemma reach_marked_closed:
  assumes closed: "\<And>k w c cw. k \<in> A \<Longrightarrow> ws k = Some w \<Longrightarrow> c \<in> set (children w) \<Longrightarrow> ws c = Some cw \<Longrightarrow>
      map_state cw = Viewable \<Longrightarrow> c \<in> A"
  shows "reach (mark Unviewable A ws) is_viewable cs k \<longleftrightarrow> reach ws is_viewable cs k \<and> k \<notin> A"
proof
  assume "reach ws is_viewable cs k \<and> k \<notin> A"
  then have "reach ws is_viewable cs k" "k \<notin> A" by auto
  then show "reach (mark Unviewable A ws) is_viewable cs k"
  proof (induction rule: reach.induct)
    case (start c w)
    then show ?case by (intro reach.start [of c cs _ w]) (auto simp: mark_def)
  next
    case (step k w c cw)
    then have "k \<notin> A" using closed by blast
    then show ?case using step by (intro reach.step [of _ _ _ k w c cw]) (auto simp: mark_def)
  qed
qed (rule reach_marked_back)

lemma reach_below_self:
  assumes t: "tree_shape (shape ws)"
  shows "\<not> reach ws good (set (children_of ws c)) c"
proof
  assume "reach ws good (set (children_of ws c)) c"
  then obtain d where d: "d \<in> set (children_of ws c)" "c \<in> subtree (shape ws) d" using reach_subtree by blast
  then have "(d, c) \<in> child_rel (shape ws)"
    by (cases "shape ws c") (auto simp: child_rel_def children_of_shape)
  then have "(c, c) \<in> (child_rel (shape ws))\<^sup>+" using d(2) by (auto simp: subtree_def)
  then show False using tree_acyclic [OF t] by (simp add: acyclic_def)
qed

lemma reach_mark_self:
  assumes t: "tree_shape (shape ws)"
  shows "reach (mark Unviewable {c} ws) is_viewable (set (children_of ws c)) k \<longleftrightarrow>
    reach ws is_viewable (set (children_of ws c)) k"
proof
  assume "reach ws is_viewable (set (children_of ws c)) k"
  then show "reach (mark Unviewable {c} ws) is_viewable (set (children_of ws c)) k"
  proof (induction rule: reach.induct)
    case (start d w)
    then have "d \<noteq> c" using reach_below_self [OF t] reach.start by blast
    then show ?case using start by (intro reach.start [of d _ _ w]) (auto simp: mark_def)
  next
    case (step k w d dw)
    then have "d \<noteq> c" "k \<noteq> c" using reach_below_self [OF t] reach.step by blast+
    then show ?case using step by (intro reach.step [of _ _ _ k w d dw]) (auto simp: mark_def)
  qed
qed (use reach_marked_back in blast)

lemma demote_unfold:
  "demote_children (c # rest) ws =
    (if in_state ws Viewable c then
       (let ws1 = mark Unviewable {c} ws in
        Option.bind (demote_children (children_of ws1 c) ws1)
          (\<lambda>r1. Option.bind (demote_children rest (fst r1))
            (\<lambda>r2. Some (fst r2, snd r1 @ [c] @ snd r2))))
     else Option.bind (demote_children rest ws) Some)"
  by (subst demote_children.simps) (simp add: set_state_mark Let_def)

lemma viewable_in_state: "(\<exists>w. ws c = Some w \<and> is_viewable (map_state w)) \<longleftrightarrow> in_state ws Viewable c"
  by (auto simp: in_state_def split: option.splits)

lemma demote_spec_list:
  assumes t: "tree_shape sh"
    and IH: "\<And>c ws. c \<in> set cs \<Longrightarrow> shape ws = sh \<Longrightarrow> demote_spec (children_of ws c) ws"
  shows "shape ws = sh \<Longrightarrow> sibling_list sh cs \<Longrightarrow> demote_spec cs ws"
  using IH
proof (induction cs arbitrary: ws)
  case Nil
  have "Collect (reach ws is_viewable (set [])) = {}" by simp
  then show ?case by (simp only: demote_spec_def Let_def, subst demote_children.simps) simp
next
  case (Cons c cs)
  have sl: "sibling_list sh cs" using Cons.prems(2) sibling_list_Cons by blast
  show ?case
  proof (cases "in_state ws Viewable c")
    case False
    have "demote_spec cs ws" using Cons.IH [OF Cons.prems(1) sl] Cons.prems(3) by simp
    moreover have "Collect (reach ws is_viewable (set (c # cs))) = Collect (reach ws is_viewable (set cs))"
      using False viewable_in_state [of ws c] reach_Un [of ws is_viewable "{c}" "set cs"]
      by (auto simp: reach_single)
    ultimately show ?thesis using False by (simp only: demote_spec_def Let_def) (simp add: demote_unfold)
  next
    case True
    let ?R = "child_rel sh"
    let ?ws1 = "mark Unviewable {c} ws"
    let ?M1 = "Collect (reach ws is_viewable (set (children_of ws c)))"
    let ?ws2 = "mark Unviewable (insert c ?M1) ws"
    let ?M2 = "Collect (reach ws is_viewable (set cs))"
    have cv: "\<exists>w. ws c = Some w \<and> is_viewable (map_state w)" using True viewable_in_state by blast
    have ch: "children_of ?ws1 c = children_of ws c" by (simp add: children_of_shape)
    have r1: "Collect (reach ?ws1 is_viewable (set (children_of ws c))) = ?M1"
      using reach_mark_self [of ws c] t Cons.prems(1) by auto
    have "reach ?ws2 is_viewable (set cs) k \<longleftrightarrow> k \<in> ?M2 - insert c ?M1" for k
      by (subst reach_marked_closed) (auto simp: children_of_def intro: reach.intros)
    then have r2: "Collect (reach ?ws2 is_viewable (set cs)) = ?M2 - insert c ?M1" by blast
    obtain out1 where o1: "demote_children (children_of ws c) ?ws1 = Some (?ws2, out1)" "distinct out1"
        "set out1 = ?M1" "sorted_wrt (\<lambda>a b. (b, a) \<notin> ?R\<^sup>+) out1"
      using Cons.prems(3) [of c ?ws1] Cons.prems(1) by (auto simp: demote_spec_def r1 ch mark_mark Let_def)
    obtain out2 where o2: "demote_children cs ?ws2 = Some (mark Unviewable (?M2 - insert c ?M1) ?ws2, out2)"
        "distinct out2" "set out2 = ?M2 - insert c ?M1" "sorted_wrt (\<lambda>a b. (b, a) \<notin> ?R\<^sup>+) out2"
      using Cons.IH [of ?ws2] Cons.prems sl by (auto simp: demote_spec_def r2 Let_def)
    have M: "Collect (reach ws is_viewable (set (c # cs))) = insert c ?M1 \<union> (?M2 - insert c ?M1)"
      using cv reach_Un [of ws is_viewable "{c}" "set cs"] by (auto simp: reach_single)
    have nc: "c \<notin> ?M1" using reach_below_self [of ws is_viewable c] t Cons.prems(1) by simp
    let ?out = "out1 @ [c] @ out2"
    have dist: "distinct ?out" and set: "set ?out = insert c ?M1 \<union> (?M2 - insert c ?M1)"
      using o1(2,3) o2(2,3) nc by auto
    have sub1: "x \<in> subtree sh c" if "x \<in> set out1" for x
    proof -
      have "reach ws is_viewable {c} x" using that o1(3) cv by (simp add: reach_single)
      then show ?thesis using reach_subtree Cons.prems(1) by blast
    qed
    have sub2: "\<exists>d \<in> set cs. x \<in> subtree sh d" if "x \<in> set out2" for x
      using that o2(3) reach_subtree [of ws is_viewable "set cs" x] Cons.prems(1) by auto
    have "(b, a) \<notin> ?R\<^sup>+" if "a = c \<or> a \<in> set out1" "b \<in> set out2" for a b
      using siblings_below(2) [OF t Cons.prems(2), of a _ b] that sub1 sub2 [OF that(2)] subtree_self by blast
    moreover have "(c, b) \<notin> ?R\<^sup>+" if "b \<in> set out1" for b
      using not_below_child [OF t] sub1 that by blast
    ultimately have ord: "sorted_wrt (\<lambda>a b. (b, a) \<notin> ?R\<^sup>+) ?out"
      using o1(4) o2(4) by (auto simp: sorted_wrt_append)
    have "demote_children (c # cs) ws = Some (mark Unviewable (insert c ?M1 \<union> (?M2 - insert c ?M1)) ws, ?out)"
      using True o1(1) o2(1) by (simp add: demote_unfold ch mark_mark)
    then show ?thesis using set dist ord Cons.prems(1) unfolding demote_spec_def Let_def M by blast
  qed
qed

theorem demote_spec_children:
  assumes "tree_shape (shape ws)"
  shows "demote_spec (children_of ws k) ws"
proof -
  have "shape ws' = shape ws \<Longrightarrow> demote_spec (children_of ws' k) ws'" for ws'
  proof (induction k arbitrary: ws' rule: wf_induct_rule [OF tree_wf [OF assms]])
    case (1 k)
    have "c \<in> set (children_of ws' k) \<Longrightarrow> (c, k) \<in> child_rel (shape ws)" for c
      using 1(2) by (cases "shape ws k") (auto simp: child_rel_def children_of_shape)
    moreover have "sibling_list (shape ws) (children_of ws' k)"
      using sibling_list_children [of ws' k] assms 1(2) by simp
    ultimately show ?case
      using demote_spec_list [OF assms, of "children_of ws' k" ws'] 1 by blast
  qed
  then show ?thesis by blast
qed

end
