(* ===== verification/Tree_Inv.thy ===== *)
theory Tree_Inv
  imports Viewability
begin

text \<open>
  The invariant of the window table: its shape is a tree, and viewability is what X11 says it
  is, locally: the root is viewable, a viewable window has a viewable parent, a mapped window
  that is not viewable has not. Every operation keeps it, and the ones that change viewability
  report exactly what changed.
\<close>

abbreviation viewable :: "window_map \<Rightarrow> u32 \<Rightarrow> bool" where
  "viewable ws \<equiv> in_state ws Viewable"

definition edge_ok :: "window_map \<Rightarrow> u32 \<Rightarrow> u32 \<Rightarrow> bool" where
  "edge_ok ws k p \<longleftrightarrow> (viewable ws k \<longrightarrow> viewable ws p) \<and> (in_state ws Unviewable k \<longrightarrow> \<not> viewable ws p)"

definition view_ok :: "window_map \<Rightarrow> bool" where
  "view_ok ws \<longleftrightarrow>
     viewable ws ROOT_WINDOW \<and>
     (\<forall>k p cs. shape ws k = Some (p, cs) \<longrightarrow> k \<noteq> ROOT_WINDOW \<longrightarrow> edge_ok ws k p)"

definition table_ok :: "window_map \<Rightarrow> bool" where
  "table_ok ws \<longleftrightarrow> tree_shape (shape ws) \<and> view_ok ws"

text \<open>What a change of viewability must report, and in which order.\<close>

definition delta_exact :: "window_map \<Rightarrow> window_map \<Rightarrow> viewability_delta \<Rightarrow> bool" where
  "delta_exact ws ws' d \<longleftrightarrow>
     set (became_viewable d) = {k. viewable ws' k \<and> \<not> viewable ws k}
     \<and> set (became_unviewable d) = {k. viewable ws k \<and> \<not> viewable ws' k}
     \<and> distinct (became_viewable d) \<and> distinct (became_unviewable d)
     \<and> sorted_wrt (\<lambda>a b. (a, b) \<notin> (child_rel (shape ws'))\<^sup>+) (became_viewable d)
     \<and> sorted_wrt (\<lambda>a b. (b, a) \<notin> (child_rel (shape ws'))\<^sup>+) (became_unviewable d)"

lemma table_okD: "table_ok ws \<Longrightarrow> tree_shape (shape ws)" "table_ok ws \<Longrightarrow> view_ok ws"
  by (auto simp: table_ok_def)

lemma edge_okD: "view_ok ws \<Longrightarrow> shape ws k = Some (p, cs) \<Longrightarrow> k \<noteq> ROOT_WINDOW \<Longrightarrow> edge_ok ws k p"
  by (auto simp: view_ok_def)

text \<open>Operations that change neither shape nor map states keep the invariant.\<close>

lemma table_ok_frame:
  assumes "table_ok ws" and "shape ws' = shape ws" and "\<And>s k. in_state ws' s k = in_state ws s k"
  shows "table_ok ws'"
  using assms by (simp add: table_ok_def view_ok_def edge_ok_def)

section \<open>The meaning of viewable\<close>

lemma in_state_cases: "ws k \<noteq> None \<Longrightarrow> in_state ws Unmapped k \<or> in_state ws Unviewable k \<or> viewable ws k"
  by (auto simp: in_state_def) (metis map_state.exhaust)

lemma in_state_unique: "in_state ws s k \<Longrightarrow> in_state ws s' k \<Longrightarrow> s = s'"
  by (auto simp: in_state_def split: option.splits)

lemma in_state_dom: "in_state ws s k \<Longrightarrow> ws k \<noteq> None"
  by (auto simp: in_state_def split: option.splits)

lemma viewable_step:
  assumes "view_ok ws" and "shape ws k = Some (p, cs)" and "k \<noteq> ROOT_WINDOW"
  shows "viewable ws k \<longleftrightarrow> \<not> in_state ws Unmapped k \<and> viewable ws p"
proof -
  have e: "edge_ok ws k p" using edge_okD assms by blast
  have "ws k \<noteq> None" using assms(2) shape_None by (metis option.discI)
  then show ?thesis using e in_state_cases [of ws k] in_state_unique by (auto simp: edge_ok_def)
qed

lemma viewable_iff_depth:
  assumes t: "table_ok ws"
  shows "at_depth (shape ws) n k \<Longrightarrow>
    viewable ws k \<longleftrightarrow> (\<forall>a. (k, a) \<in> (child_rel (shape ws))\<^sup>* \<longrightarrow> \<not> in_state ws Unmapped a)"
proof (induction n arbitrary: k)
  case 0
  then have k: "k = ROOT_WINDOW" by simp
  have v: "viewable ws k" using table_okD(2) [OF t] k by (simp add: view_ok_def)
  moreover have "a = k" if "(k, a) \<in> (child_rel (shape ws))\<^sup>*" for a
    using that root_above [OF table_okD(1) [OF t]] k by (auto dest: rtranclD)
  ultimately show ?case using in_state_unique by blast
next
  case (Suc n)
  then obtain p cs where p: "shape ws k = Some (p, cs)" "at_depth (shape ws) n p" "k \<noteq> ROOT_WINDOW"
    by (auto split: option.splits)
  note tt = table_okD [OF t]
  have kp: "(k, p) \<in> child_rel (shape ws)" using tree_parent_rel [OF tt(1) p(1,3)] .
  have "(k, a) \<in> (child_rel (shape ws))\<^sup>* \<longleftrightarrow> a = k \<or> (p, a) \<in> (child_rel (shape ws))\<^sup>*" for a
    using kp tree_parent_unique [OF tt(1) kp] by (metis converse_rtranclE converse_rtrancl_into_rtrancl rtrancl.rtrancl_refl)
  then show ?case using viewable_step [OF tt(2) p(1,3)] Suc.IH [OF p(2)] by metis
qed

lemma viewable_iff:
  assumes "table_ok ws" and "ws k \<noteq> None"
  shows "viewable ws k \<longleftrightarrow> (\<forall>a. (k, a) \<in> (child_rel (shape ws))\<^sup>* \<longrightarrow> \<not> in_state ws Unmapped a)"
proof -
  obtain w where "ws k = Some w" using assms(2) by blast
  then have "shape ws k = Some (parent w, children w)" by (simp add: shape_def)
  then obtain n where "at_depth (shape ws) n k" using tree_depth table_okD(1) [OF assms(1)] by blast
  then show ?thesis by (rule viewable_iff_depth [OF assms(1)])
qed

section \<open>The cascades restore the invariant\<close>

lemma reach_parent:
  assumes t: "tree_shape (shape ws)" and "reach ws good (set (children_of ws i)) k" and k: "shape ws k = Some (p, cs)"
  shows "p = i \<or> reach ws good (set (children_of ws i)) p"
  using assms(2)
proof (cases rule: reach.cases)
  case (start w)
  then have "(k, i) \<in> child_rel (shape ws)"
    by (cases "shape ws i") (auto simp: child_rel_def children_of_shape)
  then show ?thesis using tree_child [OF t, of k i] k by auto
next
  case (step k' w cw)
  then have "(k, k') \<in> child_rel (shape ws)" by (auto simp: child_rel_def shape_def)
  then have "p = k'" using tree_child [OF t, of k k'] k by auto
  then show ?thesis using step(1) by simp
qed

lemma reach_child:
  assumes t: "tree_shape (shape ws)" and k: "shape ws k = Some (p, cs)" "k \<noteq> ROOT_WINDOW"
    and good: "in_state ws s k" "good s" and p: "p = i \<or> reach ws good (set (children_of ws i)) p"
  shows "reach ws good (set (children_of ws i)) k"
proof -
  obtain pp pcs where pp: "shape ws p = Some (pp, pcs)" "k \<in> set pcs" using tree_linked [OF t k] by blast
  then obtain pw where pw: "ws p = Some pw" "children pw = pcs" by (auto simp: shape_eq)
  obtain w where w: "ws k = Some w" "map_state w = s" using good(1) by (auto simp: in_state_def split: option.splits)
  show ?thesis
  proof (cases "p = i")
    case True
    then show ?thesis using pp(2) pw w good(2) by (intro reach.start [of k _ _ w]) (auto simp: children_of_def)
  next
    case False
    then show ?thesis using p pw pp(2) w good(2) by (intro reach.step [of _ _ _ p pw k w]) auto
  qed
qed

lemma view_ok_promote:
  assumes t: "tree_shape (shape ws)" and root: "viewable ws ROOT_WINDOW" and i: "viewable ws i"
    and par: "\<And>p cs. shape ws i = Some (p, cs) \<Longrightarrow> i \<noteq> ROOT_WINDOW \<Longrightarrow> viewable ws p"
    and edges: "\<And>k p cs. shape ws k = Some (p, cs) \<Longrightarrow> k \<noteq> ROOT_WINDOW \<Longrightarrow> k \<noteq> i \<Longrightarrow> p \<noteq> i \<Longrightarrow> edge_ok ws k p"
  shows "view_ok (mark Viewable (Collect (reach ws is_mapped (set (children_of ws i)))) ws)" (is "view_ok (mark _ ?M _)")
proof -
  let ?ws = "mark Viewable ?M ws"
  have up: "viewable ws k \<Longrightarrow> viewable ?ws k" for k by (auto simp: in_state_mark dest: in_state_dom)
  have M: "viewable ?ws k" if "k \<in> ?M" for k using that reach_good [of ws is_mapped] by (fastforce simp: in_state_mark)
  have "edge_ok ?ws k p" if k: "shape ws k = Some (p, cs)" "k \<noteq> ROOT_WINDOW" for k p cs
  proof (cases "k \<in> ?M")
    case True
    then have "p = i \<or> p \<in> ?M" using reach_parent [OF t _ k(1)] by blast
    then have "viewable ?ws p" using up [OF i] M by blast
    moreover have "\<not> in_state ?ws Unviewable k" using M [OF True] in_state_unique by blast
    ultimately show ?thesis by (simp add: edge_ok_def)
  next
    case False
    then have same: "in_state ?ws s k = in_state ws s k" for s by (simp add: in_state_mark)
    have no: "\<not> (in_state ws s k \<and> s \<noteq> Unmapped)" if "p = i \<or> p \<in> ?M" for s
      using reach_child [OF t k, of s is_mapped i] that False by auto
    show ?thesis
    proof (cases "p = i \<or> p \<in> ?M")
      case True
      then show ?thesis using no same by (auto simp: edge_ok_def)
    next
      case pn: False
      then have p: "viewable ?ws p \<longleftrightarrow> viewable ws p" by (simp add: in_state_mark)
      show ?thesis
      proof (cases "k = i")
        case True
        then have "viewable ws p" "\<not> in_state ws Unviewable k" using par k i in_state_unique by blast+
        then show ?thesis using same p by (simp add: edge_ok_def)
      next
        case False
        then show ?thesis using edges [OF k] pn same p by (simp add: edge_ok_def)
      qed
    qed
  qed
  then show ?thesis using up [OF root] by (simp add: view_ok_def)
qed

lemma view_ok_demote:
  assumes t: "tree_shape (shape ws)" and root: "viewable ws ROOT_WINDOW" and i: "\<not> viewable ws i"
    and par: "\<And>p cs. shape ws i = Some (p, cs) \<Longrightarrow> in_state ws Unviewable i \<Longrightarrow> \<not> viewable ws p"
    and edges: "\<And>k p cs. shape ws k = Some (p, cs) \<Longrightarrow> k \<noteq> ROOT_WINDOW \<Longrightarrow> k \<noteq> i \<Longrightarrow> p \<noteq> i \<Longrightarrow> edge_ok ws k p"
  shows "view_ok (mark Unviewable (Collect (reach ws is_viewable (set (children_of ws i)))) ws)" (is "view_ok (mark _ ?M _)")
proof -
  let ?ws = "mark Unviewable ?M ws"
  have down: "viewable ?ws k \<longleftrightarrow> viewable ws k \<and> k \<notin> ?M" for k by (auto simp: in_state_mark)
  have "edge_ok ?ws k p" if k: "shape ws k = Some (p, cs)" "k \<noteq> ROOT_WINDOW" for k p cs
  proof (cases "k \<in> ?M")
    case True
    then have "p = i \<or> p \<in> ?M" using reach_parent [OF t _ k(1)] by blast
    then show ?thesis using True i down by (auto simp: edge_ok_def)
  next
    case False
    then have same: "in_state ?ws s k = in_state ws s k" for s by (simp add: in_state_mark)
    show ?thesis
    proof (cases "p = i \<or> p \<in> ?M")
      case True
      then have "\<not> viewable ws k" using reach_child [OF t k, of Viewable is_viewable i] False by auto
      then show ?thesis using True i down same by (auto simp: edge_ok_def)
    next
      case pn: False
      show ?thesis
      proof (cases "k = i")
        case True
        then show ?thesis using par k(1) i same down by (auto simp: edge_ok_def)
      next
        case False
        then show ?thesis using edges [OF k] pn same down by (auto simp: edge_ok_def)
      qed
    qed
  qed
  moreover have "viewable ?ws ROOT_WINDOW"
  proof -
    have "ROOT_WINDOW \<notin> ?M"
    proof
      assume "ROOT_WINDOW \<in> ?M"
      then obtain c where c: "c \<in> set (children_of ws i)" "ROOT_WINDOW \<in> subtree (shape ws) c"
        using reach_subtree by blast
      then have "c \<noteq> ROOT_WINDOW"
        using tree_child [OF t, of c i] by (cases "shape ws i") (auto simp: child_rel_def children_of_shape)
      then show False using root_not_in_subtree [OF t] c(2) by blast
    qed
    then show ?thesis using root down by blast
  qed
  ultimately show ?thesis by (simp add: view_ok_def)
qed

end
