(* ===== verification/Tree_Steps.thy ===== *)
theory Tree_Steps
  imports Tree_Inv
begin

text \<open>
  Every operation of the window table keeps the invariant; mapping, unmapping and reparenting
  return, and report exactly the windows whose viewability changed.
\<close>

section \<open>Mapping\<close>

lemma delta_promote:
  assumes t: "tree_shape (shape ws)" and s: "promote_spec (children_of (mark Viewable {i} ws) i) (mark Viewable {i} ws)"
    and i: "ws i = Some w"
  obtains out where
    "promote_unviewable_descendants (mark Viewable {i} ws) i =
       Some (mark Viewable (Collect (reach (mark Viewable {i} ws) is_mapped (set (children_of ws i)))) (mark Viewable {i} ws), out)"
    "delta_exact ws (mark Viewable (Collect (reach (mark Viewable {i} ws) is_mapped (set (children_of ws i)))) (mark Viewable {i} ws))
       \<lparr>became_viewable = (if viewable ws i then [] else [i]) @ out, became_unviewable = []\<rparr>"
proof -
  let ?ws1 = "mark Viewable {i} ws"
  let ?M = "Collect (reach ?ws1 is_mapped (set (children_of ws i)))"
  let ?ws' = "mark Viewable ?M ?ws1"
  have ch: "children_of ?ws1 i = children_of ws i" by (simp add: children_of_shape)
  obtain out where o: "promote_children (children_of ws i) ?ws1 = Some (?ws', out)" "distinct out"
      "set out = {k \<in> ?M. in_state ?ws1 Unviewable k}"
      "sorted_wrt (\<lambda>a b. (a, b) \<notin> (child_rel (shape ws))\<^sup>+) out"
    using s by (auto simp: promote_spec_def Let_def ch)
  have iM: "i \<notin> ?M" using reach_below_self [of ?ws1 is_mapped i] t by (simp add: ch)
  have "ws k \<noteq> None" if kM: "k \<in> ?M" for k
  proof -
    obtain v where "?ws1 k = Some v" using kM reach_good [of ?ws1 is_mapped] by blast
    then show ?thesis by (auto simp: mark_def split: if_splits)
  qed
  then have v': "viewable ?ws' k \<longleftrightarrow> k = i \<or> viewable ws k \<or> k \<in> ?M" for k
    using i by (auto simp: in_state_mark mark_mark)
  have uv: "in_state ?ws1 Unviewable k \<longleftrightarrow> \<not> viewable ws k" if "k \<in> ?M" for k
  proof -
    have "k \<noteq> i" using that iM by blast
    moreover have "\<exists>v. ?ws1 k = Some v \<and> is_mapped (map_state v)" using that reach_good [of ?ws1 is_mapped] by blast
    ultimately show ?thesis by (auto simp: mark_def in_state_def split: option.splits) (metis map_state.exhaust)
  qed
  have "x \<in> subtree (shape ws) i" if "x \<in> set out" for x
  proof -
    have "reach ?ws1 is_mapped (set (children_of ws i)) x" using that o(3) by blast
    then obtain c where c: "c \<in> set (children_of ws i)" "x \<in> subtree (shape ws) c" using reach_subtree by fastforce
    then have "(c, i) \<in> child_rel (shape ws)" by (cases "shape ws i") (auto simp: child_rel_def children_of_shape)
    then show ?thesis using c(2) by (auto simp: subtree_def)
  qed
  then have ord: "sorted_wrt (\<lambda>a b. (a, b) \<notin> (child_rel (shape ws))\<^sup>+) ((if viewable ws i then [] else [i]) @ out)"
    using o(4) not_below_child [OF t] by auto
  have "set ((if viewable ws i then [] else [i]) @ out) = {k. viewable ?ws' k \<and> \<not> viewable ws k}"
    using o(3) iM uv v' by auto
  moreover have "{k. viewable ws k \<and> \<not> viewable ?ws' k} = {}" using v' by blast
  moreover have "distinct ((if viewable ws i then [] else [i]) @ out)" using o(2,3) iM by auto
  ultimately have "delta_exact ws ?ws' \<lparr>became_viewable = (if viewable ws i then [] else [i]) @ out, became_unviewable = []\<rparr>"
    using ord by (simp add: delta_exact_def)
  moreover have "promote_unviewable_descendants ?ws1 i = Some (?ws', out)"
    using o(1) by (simp add: promote_unviewable_descendants_def ch)
  ultimately show thesis by (rule that [rotated])
qed

lemma edges_away:
  assumes "view_ok ws" and "shape ws k = Some (p, cs)" "k \<noteq> ROOT_WINDOW" "k \<noteq> i" "p \<noteq> i"
  shows "edge_ok (mark s {i} ws) k p"
  using edge_okD [OF assms(1-3)] assms(4,5) by (simp add: edge_ok_def in_state_mark)

lemma tree_parent_self: "tree_shape sh \<Longrightarrow> sh k = Some (k, cs) \<Longrightarrow> k = ROOT_WINDOW"
proof (rule ccontr)
  assume t: "tree_shape sh" and k: "sh k = Some (k, cs)" "k \<noteq> ROOT_WINDOW"
  then have "(k, k) \<in> child_rel sh" using tree_parent_rel by blast
  then show False using tree_acyclic [OF t] by (auto simp: acyclic_def)
qed

lemma map_window_ok:
  assumes t: "table_ok (windows t)"
  shows "\<exists>t' tr. map_window t i = Some (t', tr) \<and> table_ok (windows t')
    \<and> delta_exact (windows t) (windows t') (delta tr) \<and> shape (windows t') = shape (windows t)
    \<and> \<not> in_state (windows t') Unmapped i
    \<and> (mapping_changed tr \<longleftrightarrow> in_state (windows t) Unmapped i)"
proof (cases "windows t i")
  case None
  have "delta_exact (windows t) (windows t) delta_default" by (simp add: delta_exact_def delta_default_def)
  then show ?thesis using None t
    by (simp add: map_window_def transition_default_def in_state_def)
next
  case (Some w)
  let ?ws = "windows t"
  note tt = table_okD [OF t]
  have sh: "shape ?ws i = Some (parent w, children w)" using Some by (simp add: shape_def)
  have root: "viewable ?ws ROOT_WINDOW" using tt(2) by (simp add: view_ok_def)
  have wv: "viewable ?ws i \<longleftrightarrow> map_state w = Viewable" and wu: "in_state ?ws Unmapped i \<longleftrightarrow> map_state w = Unmapped"
    using Some by (simp_all add: in_state_def)
  let ?pv = "if parent w = i then True else viewable ?ws (parent w)"
  show ?thesis
  proof (cases ?pv)
    case True
    let ?ws1 = "mark Viewable {i} ?ws"
    let ?ws' = "mark Viewable (Collect (reach ?ws1 is_mapped (set (children_of ?ws i)))) ?ws1"
    obtain out where o: "promote_unviewable_descendants ?ws1 i = Some (?ws', out)"
        "delta_exact ?ws ?ws' \<lparr>became_viewable = (if viewable ?ws i then [] else [i]) @ out, became_unviewable = []\<rparr>"
      using delta_promote [OF tt(1) _ Some] promote_spec_children [of ?ws1 i] tt(1) by auto
    have "view_ok ?ws'"
    proof -
      have "viewable ?ws1 ROOT_WINDOW" "viewable ?ws1 i" using root Some by (auto simp: in_state_mark)
      moreover have "viewable ?ws1 p" if "shape ?ws1 i = Some (p, cs)" "i \<noteq> ROOT_WINDOW" for p cs
        using that sh True tree_parent_self [OF tt(1)] Some by (auto simp: in_state_mark split: if_splits)
      ultimately show ?thesis
        using view_ok_promote [of ?ws1 i] tt edges_away [OF tt(2)] by (simp add: children_of_shape)
    qed
    then have "table_ok ?ws'" using tt(1) by (simp add: table_ok_def)
    moreover have "map_window t i = Some (t\<lparr>windows := ?ws'\<rparr>, \<lparr>mapping_changed = (map_state w = Unmapped),
        delta = \<lparr>became_viewable = (if viewable ?ws i then [] else [i]) @ out, became_unviewable = []\<rparr>\<rparr>)"
      using Some True o(1) wv by (auto simp: map_window_def Let_def set_state_mark in_state_def)
    moreover have "\<not> in_state ?ws' Unmapped i" by (auto simp: in_state_mark)
    ultimately show ?thesis using o(2) wu by simp
  next
    case False
    let ?ws' = "mark Unviewable {i} ?ws"
    have pn: "parent w \<noteq> i" "\<not> viewable ?ws (parent w)" using False by (auto split: if_splits)
    then have ir: "i \<noteq> ROOT_WINDOW" using tree_root [OF tt(1)] sh by auto
    have nv: "\<not> viewable ?ws i" using edge_okD [OF tt(2) sh ir] pn(2) by (simp add: edge_ok_def)
    have v': "viewable ?ws' k \<longleftrightarrow> viewable ?ws k" for k using nv by (auto simp: in_state_mark)
    have "edge_ok ?ws' k p" if "shape ?ws k = Some (p, cs)" "k \<noteq> ROOT_WINDOW" for k p cs
    proof (cases "k = i")
      case True
      then show ?thesis using that sh pn nv v' by (simp add: edge_ok_def)
    next
      case False
      then have "in_state ?ws' Unviewable k \<longleftrightarrow> in_state ?ws Unviewable k" by (simp add: in_state_mark)
      then show ?thesis using edge_okD [OF tt(2) that] v' by (simp add: edge_ok_def)
    qed
    then have "table_ok ?ws'" using tt(1) v' root by (simp add: table_ok_def view_ok_def)
    moreover have "delta_exact ?ws ?ws' \<lparr>became_viewable = [], became_unviewable = []\<rparr>"
      by (simp add: delta_exact_def v')
    moreover have "map_window t i = Some (t\<lparr>windows := ?ws'\<rparr>, \<lparr>mapping_changed = (map_state w = Unmapped),
        delta = \<lparr>became_viewable = [], became_unviewable = []\<rparr>\<rparr>)"
      using Some False nv wv by (auto simp: map_window_def Let_def set_state_mark in_state_def split: if_splits)
    moreover have "\<not> in_state ?ws' Unmapped i" by (auto simp: in_state_mark)
    ultimately show ?thesis using wu by simp
  qed
qed

section \<open>Unmapping\<close>

text \<open>Marking \<open>i\<close> with a state that is not viewable, then demoting below it.\<close>

lemma delta_demote:
  assumes t: "tree_shape (shape ws)" and s: "s \<noteq> Viewable" and i: "ws i = Some w"
  obtains out where
    "demote_viewable_descendants (mark s {i} ws) i =
       Some (mark Unviewable (Collect (reach (mark s {i} ws) is_viewable (set (children_of ws i)))) (mark s {i} ws), out)"
    "delta_exact ws (mark Unviewable (Collect (reach (mark s {i} ws) is_viewable (set (children_of ws i)))) (mark s {i} ws))
       \<lparr>became_viewable = [], became_unviewable = out @ (if viewable ws i then [i] else [])\<rparr>"
proof -
  let ?ws1 = "mark s {i} ws"
  let ?M = "Collect (reach ?ws1 is_viewable (set (children_of ws i)))"
  let ?ws' = "mark Unviewable ?M ?ws1"
  have ch: "children_of ?ws1 i = children_of ws i" by (simp add: children_of_shape)
  have "demote_spec (children_of ?ws1 i) ?ws1" using t by (intro demote_spec_children) simp
  then obtain out where o: "demote_children (children_of ws i) ?ws1 = Some (?ws', out)" "distinct out"
      "set out = ?M" "sorted_wrt (\<lambda>a b. (b, a) \<notin> (child_rel (shape ws))\<^sup>+) out"
    by (auto simp: demote_spec_def Let_def ch)
  have iM: "i \<notin> ?M" using reach_below_self [of ?ws1 is_viewable i] t by (simp add: ch)
  have Mv: "viewable ws k" if kM: "k \<in> ?M" for k
  proof -
    obtain v where "?ws1 k = Some v" "map_state v = Viewable" using kM reach_good [of ?ws1 is_viewable] by blast
    then show ?thesis using kM iM by (auto simp: mark_def in_state_def split: if_splits)
  qed
  have v': "viewable ?ws' k \<longleftrightarrow> k \<noteq> i \<and> viewable ws k \<and> k \<notin> ?M" for k
    using s by (auto simp: in_state_mark)
  have "x \<in> subtree (shape ws) i" if xo: "x \<in> set out" for x
  proof -
    have "reach ?ws1 is_viewable (set (children_of ws i)) x" using xo o(3) by blast
    then obtain c where c: "c \<in> set (children_of ws i)" "x \<in> subtree (shape ws) c" using reach_subtree by fastforce
    then have "(c, i) \<in> child_rel (shape ws)" by (cases "shape ws i") (auto simp: child_rel_def children_of_shape)
    then show ?thesis using c(2) by (auto simp: subtree_def)
  qed
  then have ord: "sorted_wrt (\<lambda>a b. (b, a) \<notin> (child_rel (shape ws))\<^sup>+) (out @ (if viewable ws i then [i] else []))"
    using o(4) not_below_child [OF t] by (auto simp: sorted_wrt_append)
  have "set (out @ (if viewable ws i then [i] else [])) = {k. viewable ws k \<and> \<not> viewable ?ws' k}"
    using o(3) Mv v' by auto
  moreover have "{k. viewable ?ws' k \<and> \<not> viewable ws k} = {}" using v' by blast
  moreover have "distinct (out @ (if viewable ws i then [i] else []))" using o(2,3) iM by auto
  ultimately have "delta_exact ws ?ws' \<lparr>became_viewable = [], became_unviewable = out @ (if viewable ws i then [i] else [])\<rparr>"
    using ord by (simp add: delta_exact_def)
  moreover have "demote_viewable_descendants ?ws1 i = Some (?ws', out)"
    using o(1) by (simp add: demote_viewable_descendants_def ch)
  ultimately show thesis by (rule that [rotated])
qed

lemma unmap_window_ok:
  assumes t: "table_ok (windows t)"
  shows "\<exists>t' tr. unmap_window t i = Some (t', tr) \<and> table_ok (windows t')
    \<and> delta_exact (windows t) (windows t') (delta tr) \<and> shape (windows t') = shape (windows t)
    \<and> (i \<noteq> ROOT_WINDOW \<and> windows t i \<noteq> None \<longrightarrow> in_state (windows t') Unmapped i)
    \<and> (mapping_changed tr \<longleftrightarrow> i \<noteq> ROOT_WINDOW \<and> windows t i \<noteq> None \<and> \<not> in_state (windows t) Unmapped i)"
proof (cases "i = ROOT_WINDOW \<or> windows t i = None")
  case True
  have "delta_exact (windows t) (windows t) delta_default" by (simp add: delta_exact_def delta_default_def)
  then show ?thesis using True t by (auto simp: unmap_window_def transition_default_def)
next
  case False
  then obtain w where w: "windows t i = Some w" and ir: "i \<noteq> ROOT_WINDOW" by auto
  let ?ws = "windows t"
  let ?ws1 = "mark Unmapped {i} ?ws"
  let ?ws' = "mark Unviewable (Collect (reach ?ws1 is_viewable (set (children_of ?ws i)))) ?ws1"
  note tt = table_okD [OF t]
  obtain out where o: "demote_viewable_descendants ?ws1 i = Some (?ws', out)"
      "delta_exact ?ws ?ws' \<lparr>became_viewable = [], became_unviewable = out @ (if viewable ?ws i then [i] else [])\<rparr>"
    using delta_demote [OF tt(1) _ w, of Unmapped] by auto
  have root: "viewable ?ws1 ROOT_WINDOW" using tt(2) ir by (simp add: view_ok_def in_state_mark)
  have "\<not> viewable ?ws1 i" "\<not> in_state ?ws1 Unviewable i" by (simp_all add: in_state_mark)
  then have "view_ok ?ws'"
    using view_ok_demote [of ?ws1 i] tt edges_away [OF tt(2)] root by (simp add: children_of_shape)
  then have "table_ok ?ws'" using tt(1) by (simp add: table_ok_def)
  moreover have "in_state ?ws' Unmapped i"
    using w reach_below_self [of ?ws1 is_viewable i] tt(1) by (simp add: in_state_mark)
  moreover have "unmap_window t i = Some (t\<lparr>windows := ?ws'\<rparr>, \<lparr>mapping_changed = (map_state w \<noteq> Unmapped),
      delta = \<lparr>became_viewable = [], became_unviewable = out @ (if viewable ?ws i then [i] else [])\<rparr>\<rparr>)"
    using w ir o(1) by (simp add: unmap_window_def set_state_mark in_state_def)
  ultimately show ?thesis using o(2) w ir by (simp add: in_state_def)
qed

section \<open>Reparenting\<close>

definition moved_children :: "u32 \<Rightarrow> u32 list \<Rightarrow> u32 list" where
  "moved_children i cs =
     (let rest = filter (\<lambda>c. c \<noteq> i) cs in insert_at (cow_aware_top_index rest) i rest)"

lemma set_moved_children: "set (moved_children i cs) = insert i (set cs)"
  by (auto simp: moved_children_def Let_def)

lemma distinct_moved_children: "distinct cs \<Longrightarrow> distinct (moved_children i cs)"
  by (simp add: moved_children_def Let_def)

lemma relink_apply:
  assumes "ws i = Some w" and "rp_window r = i" and "rp_parent r \<noteq> i" and "ws (rp_parent r) = Some pw"
    and "parent w \<noteq> rp_parent r \<longrightarrow> i \<notin> set (children pw)" and "parent w \<noteq> i"
  shows "relink r w ws =
    (\<lambda>k. if k = i then Some (w\<lparr>parent := rp_parent r, wx := rp_x r, wy := rp_y r\<rparr>)
         else if k = rp_parent r then Some (pw\<lparr>children := moved_children i (children pw)\<rparr>)
         else if k = parent w then map_option (\<lambda>p. p\<lparr>children := filter (\<lambda>c. c \<noteq> i) (children p)\<rparr>) (ws k)
         else ws k)"
proof -
  have "filter (\<lambda>c. c \<noteq> i) (children pw) = children pw" if "parent w \<noteq> rp_parent r"
    using assms(5) that by (simp add: filter_id_conv) blast
  then show ?thesis
    using assms(1-4,6)
    by (auto simp: fun_eq_iff relink_def Let_def modify_window_apply insert_child_def moved_children_def)
qed

lemma in_state_relink [simp]: "in_state (relink r w ws) s k = in_state ws s k"
  by (auto simp: relink_def Let_def modify_window_apply in_state_def insert_child_def split: option.splits)

lemma shape_relink:
  assumes "ws i = Some w" and "rp_window r = i" and "rp_parent r \<noteq> i" and "ws (rp_parent r) = Some pw"
    and "parent w \<noteq> rp_parent r \<longrightarrow> i \<notin> set (children pw)" and "parent w \<noteq> i"
  shows "shape (relink r w ws) =
    move_subtree (shape ws) i (parent w) (rp_parent r) (moved_children i (children pw))"
  unfolding relink_apply [OF assms]
  using assms(1-4,6) by (auto simp: fun_eq_iff shape_def move_subtree_def split: option.splits)

lemma check_reparent_ok:
  assumes t: "tree_shape (shape ws)" and c: "check_reparent_window ws r = Inr u"
  obtains w pw where "ws (rp_window r) = Some w" "ws (rp_parent r) = Some pw" "rp_window r \<noteq> ROOT_WINDOW"
    "rp_parent r \<notin> subtree (shape ws) (rp_window r)"
proof -
  have c': "rp_window r \<noteq> ROOT_WINDOW" "rp_window r \<noteq> rp_parent r" "\<not> is_descendant_of ws (rp_parent r) (rp_window r)"
    using c by (auto simp: check_reparent_window_def split: if_splits)
  moreover obtain w pw where w: "ws (rp_window r) = Some w" "ws (rp_parent r) = Some pw"
    using c by (auto simp: check_reparent_window_def split: if_splits)
  ultimately have "rp_parent r \<notin> subtree (shape ws) (rp_window r)"
    using is_descendant_of_iff [OF t, of "rp_parent r" "rp_window r"] by (auto simp: subtree_def dest: rtranclD)
  from that [OF w c'(1) this] show thesis .
qed

lemma delta_exact_cong: "(\<And>k. viewable ws k = viewable ws1 k) \<Longrightarrow> delta_exact ws1 ws' d = delta_exact ws ws' d"
  by (simp add: delta_exact_def)

lemma relink_tree:
  assumes tt: "tree_shape (shape ws)" "view_ok ws" and w: "ws (rp_window r) = Some w"
    and pw: "ws (rp_parent r) = Some pw" and ir: "rp_window r \<noteq> ROOT_WINDOW"
    and ns: "rp_parent r \<notin> subtree (shape ws) (rp_window r)"
  shows "tree_shape (shape (relink r w ws))"
    and "shape (relink r w ws) k = Some (p, cs) \<Longrightarrow> k \<noteq> ROOT_WINDOW \<Longrightarrow> k \<noteq> rp_window r \<Longrightarrow> edge_ok (relink r w ws) k p"
    and "shape (relink r w ws) (rp_window r) = Some (rp_parent r, children w)"
proof -
  let ?i = "rp_window r"
  have sh: "shape ws ?i = Some (parent w, children w)" "shape ws (rp_parent r) = Some (parent pw, children pw)"
    using w pw by (simp_all add: shape_def)
  have ne: "rp_parent r \<noteq> ?i" using ns by auto
  have pi: "parent w \<noteq> ?i" using tree_parent_self [OF tt(1)] sh(1) ir by metis
  have "parent w \<noteq> rp_parent r \<longrightarrow> ?i \<notin> set (children pw)"
    using tree_listed [OF tt(1) sh(2), of ?i] sh(1) by auto
  note sr = shape_relink [OF w refl ne pw this pi]
  show "tree_shape (shape (relink r w ws))" unfolding sr
    using tree_move [OF tt(1) sh(1) ir sh(2) ns, of "moved_children ?i (children pw)"]
      set_moved_children distinct_moved_children tree_distinct [OF tt(1) sh(2)] by blast
  show "edge_ok (relink r w ws) k p"
    if k: "shape (relink r w ws) k = Some (p, cs)" "k \<noteq> ROOT_WINDOW" "k \<noteq> ?i"
  proof -
    have "\<exists>cs'. shape ws k = Some (p, cs')"
      using k(1,3) unfolding sr move_subtree_def by (cases "shape ws k") auto
    then show ?thesis using edge_okD [OF tt(2) _ k(2)] by (auto simp: edge_ok_def)
  qed
  show "shape (relink r w ws) ?i = Some (rp_parent r, children w)"
    unfolding sr using sh(1) pi ne by (simp add: move_subtree_def)
qed

lemma reparent_window_ok:
  assumes t: "table_ok (windows t)" and c: "check_reparent_window (windows t) r = Inr u"
  shows "\<exists>t' res. reparent_window t r = Some (Inr (t', res)) \<and> table_ok (windows t')
    \<and> delta_exact (windows t) (windows t') (rr_delta res)
    \<and> (\<exists>cs. shape (windows t') (rp_window r) = Some (rp_parent r, cs))"
proof -
  let ?ws = "windows t" and ?i = "rp_window r"
  note tt = table_okD [OF t]
  obtain w pw where w: "?ws ?i = Some w" and pw: "?ws (rp_parent r) = Some pw" and ir: "?i \<noteq> ROOT_WINDOW"
      and ns: "rp_parent r \<notin> subtree (shape ?ws) ?i"
    using check_reparent_ok [OF tt(1) c] by blast
  let ?ws1 = "relink r w ?ws"
  note rl = relink_tree [OF tt w pw ir ns]
  have root: "viewable ?ws ROOT_WINDOW" using tt(2) by (simp add: view_ok_def)
  have wi: "in_state ?ws s ?i \<longleftrightarrow> map_state w = s" for s using w by (simp add: in_state_def)
  have w1: "\<exists>w1. ?ws1 ?i = Some w1" using rl(3) by (auto simp: shape_eq)
  have edges: "edge_ok (mark s {?i} ?ws1) k p"
    if "shape ?ws1 k = Some (p, cs)" "k \<noteq> ROOT_WINDOW" "k \<noteq> ?i" "p \<noteq> ?i" for s k p cs
    using rl(2) [OF that(1-3)] that(3,4) by (simp add: edge_ok_def in_state_mark)
  have dc: "delta_exact ?ws1 ws' d = delta_exact ?ws ws' d" for ws' d by (rule delta_exact_cong) simp
  consider (un) "map_state w = Unmapped" | (up) "map_state w \<noteq> Unmapped" "viewable ?ws (rp_parent r)"
    | (dn) "map_state w \<noteq> Unmapped" "\<not> viewable ?ws (rp_parent r)" by blast
  then show ?thesis
  proof cases
    case un
    have m: "mark Unmapped {?i} ?ws1 = ?ws1" using un wi by (intro mark_id) simp
    have "edge_ok ?ws1 k p" if "shape ?ws1 k = Some (p, cs)" "k \<noteq> ROOT_WINDOW" for k p cs
      using rl(2) [OF that] un wi by (cases "k = ?i") (auto simp: edge_ok_def)
    then have "table_ok ?ws1" using rl(1) root by (simp add: table_ok_def view_ok_def)
    moreover have "delta_exact ?ws ?ws1 \<lparr>became_viewable = [], became_unviewable = []\<rparr>" by (simp add: delta_exact_def)
    ultimately show ?thesis using c w un rl(3) m
      by (simp add: reparent_window_def Let_def set_state_mark)
  next
    case up
    let ?ws2 = "mark Viewable {?i} ?ws1"
    let ?ws' = "mark Viewable (Collect (reach ?ws2 is_mapped (set (children_of ?ws1 ?i)))) ?ws2"
    obtain out where o: "promote_unviewable_descendants ?ws2 ?i = Some (?ws', out)"
        "delta_exact ?ws1 ?ws' \<lparr>became_viewable = (if viewable ?ws1 ?i then [] else [?i]) @ out, became_unviewable = []\<rparr>"
      using delta_promote [OF rl(1)] promote_spec_children [of ?ws2 ?i] rl(1) w1 by auto
    have "viewable ?ws2 ROOT_WINDOW" "viewable ?ws2 ?i" using root ir w1 by (auto simp: in_state_mark)
    moreover have "viewable ?ws2 p" if "shape ?ws2 ?i = Some (p, cs)" for p cs
      using that rl(3) up(2) w1 by (auto simp: in_state_mark)
    ultimately have "view_ok ?ws'"
      using view_ok_promote [of ?ws2 ?i] rl(1) edges by simp
    then have "table_ok ?ws'" using rl(1) by (simp add: table_ok_def)
    then show ?thesis using c w up o rl(3) wi
      by (simp add: reparent_window_def Let_def set_state_mark dc)
  next
    case dn
    let ?ws2 = "mark Unviewable {?i} ?ws1"
    let ?ws' = "mark Unviewable (Collect (reach ?ws2 is_viewable (set (children_of ?ws1 ?i)))) ?ws2"
    obtain out where o: "demote_viewable_descendants ?ws2 ?i = Some (?ws', out)"
        "delta_exact ?ws1 ?ws' \<lparr>became_viewable = [], became_unviewable = out @ (if viewable ?ws1 ?i then [?i] else [])\<rparr>"
      using delta_demote [OF rl(1), of Unviewable] w1 by auto
    have "viewable ?ws2 ROOT_WINDOW" "\<not> viewable ?ws2 ?i" using root ir by (auto simp: in_state_mark)
    moreover have "\<not> viewable ?ws2 p" if "shape ?ws2 ?i = Some (p, cs)" for p cs
      using that rl(3) dn(2) by (auto simp: in_state_mark)
    ultimately have "view_ok ?ws'"
      using view_ok_demote [of ?ws2 ?i] rl(1) edges by simp
    then have "table_ok ?ws'" using rl(1) by (simp add: table_ok_def)
    then show ?thesis using c w dn o rl(3) wi
      by (simp add: reparent_window_def Let_def set_state_mark dc)
  qed
qed

end
