(* ===== verification/Tree_Frame.thy ===== *)
theory Tree_Frame
  imports Tree_Steps
begin

text \<open>
  Creation, attributes, geometry, stacking and destruction keep the table's invariant.
  Stacking also keeps the composite overlay window on top of the root's children, as long as
  the window moved is not the overlay itself.
\<close>

section \<open>New windows\<close>

lemma table_ok_add_leaf:
  assumes t: "table_ok ws" and par: "ws par = Some p" and new: "ws i = None"
    and p': "parent p' = parent p" "map_state p' = map_state p" "set (children p') = insert i (set (children p))"
      "distinct (children p')"
    and w: "parent w = par" "children w = []" "map_state w = Viewable \<Longrightarrow> viewable ws par"
      "map_state w \<noteq> Unviewable"
  shows "table_ok (ws(par \<mapsto> p', i \<mapsto> w))" (is "table_ok ?ws")
proof -
  note tt = table_okD [OF t]
  have ne: "par \<noteq> i" using par new by auto
  have sp: "shape ws par = Some (parent p, children p)" using par by (simp add: shape_def)
  have sh: "shape ?ws = (shape ws)(par \<mapsto> (parent p, children p'), i \<mapsto> (par, []))"
    using p' w by (auto simp: shape_def fun_eq_iff)
  have tree: "tree_shape (shape ?ws)" unfolding sh
    using tree_add_leaf [OF tt(1) sp _ p'(3,4), of] new by simp
  have st: "in_state ?ws s k \<longleftrightarrow> (if k = i then map_state w = s else in_state ws s k)" for s k
    using par p'(2) ne by (auto simp: in_state_def)
  have ir: "i \<noteq> ROOT_WINDOW" using tree_root [OF tt(1)] new by (auto simp: shape_def)
  have "edge_ok ?ws k q" if k: "shape ?ws k = Some (q, cs)" "k \<noteq> ROOT_WINDOW" for k q cs
  proof (cases "k = i")
    case True
    then have "q = par" using k(1) sh by simp
    then show ?thesis using True w ne by (simp add: edge_ok_def st)
  next
    case False
    then obtain cs' where k': "shape ws k = Some (q, cs')" using k(1) sp unfolding sh by (cases "k = par") auto
    have "q \<noteq> i" using tree_linked [OF tt(1) k' k(2)] new by (auto simp: shape_def)
    then show ?thesis using edge_okD [OF tt(2) k' k(2)] False by (simp add: edge_ok_def st)
  qed
  then show ?thesis using tree tt(2) ir st by (simp add: table_ok_def view_ok_def)
qed

lemma insert_child_props:
  "parent (insert_child i p) = parent p" "map_state (insert_child i p) = map_state p"
  "set (children (insert_child i p)) = insert i (set (children p))"
  "i \<notin> set (children p) \<Longrightarrow> distinct (children p) \<Longrightarrow> distinct (children (insert_child i p))"
  by (simp_all add: insert_child_def)

lemma tree_not_listed: "tree_shape (shape ws) \<Longrightarrow> ws i = None \<Longrightarrow> ws par = Some p \<Longrightarrow>
    i \<notin> set (children p) \<and> distinct (children p)"
  using tree_listed [of "shape ws" par "parent p" "children p" i] tree_distinct [of "shape ws" par "parent p" "children p"]
  by (auto simp: shape_def)

lemma create_window_ok:
  assumes t: "table_ok (windows t)" and par: "windows t (cr_parent r) = Some p" and new: "windows t (cr_window r) = None"
  shows "table_ok (windows (create_window t own r))"
  using table_ok_add_leaf [OF t par new insert_child_props, of "new_window t own r"]
    tree_not_listed [OF table_okD(1) [OF t] new par] par
  by (simp add: create_window_def Let_def unwrap_or_def new_window_def)

lemma materialize_cow_ok:
  assumes t: "table_ok (windows t)" and new: "windows t COMPOSITE_OVERLAY_WINDOW = None"
  shows "\<exists>t'. materialize_cow_resource t h = Some t' \<and> table_ok (windows t') \<and> viewable (windows t') COMPOSITE_OVERLAY_WINDOW"
proof -
  note tt = table_okD [OF t]
  obtain r where r: "windows t ROOT_WINDOW = Some r" using tree_root [OF tt(1)] by (auto simp: shape_def)
  have root: "viewable (windows t) ROOT_WINDOW" using tt(2) by (simp add: view_ok_def)
  let ?cow = "(placeholder COMPOSITE_OVERLAY_WINDOW)
      \<lparr>parent := ROOT_WINDOW, wx := 0, wy := 0, wwidth := wwidth r, wheight := wheight r, wdepth := 24,
       visual := visual r, wclass := InputOutput, map_state := Viewable, override_redirect := True, host_xid := Some h\<rparr>"
  let ?ws = "(windows t)(ROOT_WINDOW \<mapsto> insert_child COMPOSITE_OVERLAY_WINDOW r, COMPOSITE_OVERLAY_WINDOW \<mapsto> ?cow)"
  have ws: "modify_window ROOT_WINDOW (insert_child COMPOSITE_OVERLAY_WINDOW) ((windows t)(COMPOSITE_OVERLAY_WINDOW \<mapsto> ?cow)) = ?ws"
    using r by (auto simp: fun_eq_iff modify_window_apply)
  have "table_ok ?ws"
    using table_ok_add_leaf [OF t r new insert_child_props, of ?cow] tree_not_listed [OF tt(1) new r] root
    by (simp add: placeholder_def)
  then show ?thesis using new r ws
    by (simp add: materialize_cow_resource_def Let_def map_or_def in_state_def)
qed

section \<open>Attributes, geometry, gravity\<close>

lemma frame_update:
  assumes t: "table_ok ws" and w: "ws i = Some w"
    and w': "parent w' = parent w" "children w' = children w" "map_state w' = map_state w"
  shows "table_ok (ws(i \<mapsto> w'))"
  by (rule table_ok_frame [OF t]) (use w w' in \<open>auto simp: shape_def in_state_def fun_eq_iff\<close>)

lemma change_attributes_ok:
  assumes t: "table_ok (windows t)"
  shows "table_ok (windows (fst (change_window_attributes t r)))"
proof (cases "windows t (ca_window r)")
  case (Some w)
  have "parent (apply_cursor t r (apply_plain_attributes t r ((apply_background t r w)\<lparr>border := b\<rparr>))) = parent w"
    "children (apply_cursor t r (apply_plain_attributes t r ((apply_background t r w)\<lparr>border := b\<rparr>))) = children w"
    "map_state (apply_cursor t r (apply_plain_attributes t r ((apply_background t r w)\<lparr>border := b\<rparr>))) = map_state w" for b
    by (auto simp: apply_cursor_def apply_plain_attributes_def apply_background_def Let_def split: option.splits)
  then show ?thesis using Some frame_update [OF t Some] by (simp add: change_window_attributes_def Let_def)
qed (use t in \<open>simp add: change_window_attributes_def\<close>)

lemma gravity_loop_ok:
  "table_ok ws \<Longrightarrow> table_ok (fst (gravity_loop dw dh cs ws))"
proof (induction cs arbitrary: ws)
  case (Cons c cs)
  have "table_ok (modify_window c (\<lambda>w. w\<lparr>wx := nx, wy := ny\<rparr>) ws)" for nx ny
    by (rule table_ok_frame [OF Cons.prems])
      (auto simp: modify_window_apply shape_def in_state_def fun_eq_iff option.map_comp comp_def split: option.splits)
  then show ?case using Cons by (auto simp: Let_def case_prod_unfold split: option.splits)
qed simp

lemma apply_win_gravity_ok: "table_ok (windows t) \<Longrightarrow> table_ok (windows (fst (apply_win_gravity t par ow oh nw nh)))"
  by (auto simp: apply_win_gravity_def Let_def case_prod_unfold gravity_loop_ok split: option.splits)

section \<open>Stacking\<close>

lemma restack_children_perm:
  assumes "position w cs = Some index" and "distinct cs"
  shows "set (restack_children a w index cs) = set cs" and "distinct (restack_children a w index cs)"
proof -
  have w: "w \<in> set cs" using position_Some_lt [OF assms(1)] by auto
  have r: "set (remove_at index cs) = set cs - {w}" "distinct (remove_at index cs)"
    using position_remove_at [OF assms] by auto
  show "set (restack_children a w index cs) = set cs"
    by (cases a) (use w r in \<open>auto simp: Let_def\<close>)
  show "distinct (restack_children a w index cs)"
    by (cases a) (use assms(2) r in \<open>auto simp: Let_def\<close>)
qed

lemma restack_window_cases:
  obtains "restack_window ws i sib mode = ws"
  | w p index a m where "mode = Some m" "ws i = Some w" "ws (parent w) = Some p" "position i (children p) = Some index"
      "resolve_restack_action ws i (parent w) sib m = Some a"
      "restack_window ws i sib mode = ws(parent w \<mapsto> p\<lparr>children := restack_children a i index (children p)\<rparr>)"
  by (cases "restack_window ws i sib mode = ws")
    (auto simp: restack_window_def split: option.splits)

lemma restack_ok:
  assumes t: "table_ok ws"
  shows "table_ok (restack_window ws i sib mode)"
proof (cases rule: restack_window_cases [of ws i sib mode])
  case 1
  then show ?thesis using t by simp
next
  case (2 w p index a m)
  note tt = table_okD [OF t]
  let ?cs = "restack_children a i index (children p)"
  have sp: "shape ws (parent w) = Some (parent p, children p)" using 2(3) by (simp add: shape_def)
  have perm: "set ?cs = set (children p)" "distinct ?cs"
    using restack_children_perm [OF 2(4) tree_distinct [OF tt(1) sp]] by auto
  have "shape (restack_window ws i sib mode) = (shape ws)(parent w \<mapsto> (parent p, ?cs))"
    using 2(6) by (auto simp: shape_def fun_eq_iff)
  then have tree: "tree_shape (shape (restack_window ws i sib mode))"
    using tree_reorder [OF tt(1) sp perm] by simp
  have st: "in_state (restack_window ws i sib mode) s k = in_state ws s k" for s k
    using 2(3,6) by (auto simp: in_state_def)
  have "\<exists>cs'. shape ws k = Some (q, cs')" if "shape (restack_window ws i sib mode) k = Some (q, cs)" for k q cs
    using that 2(3,6) by (auto simp: shape_def split: if_splits)
  then have "view_ok (restack_window ws i sib mode)"
    using tt(2) by (fastforce simp: view_ok_def edge_ok_def st)
  then show ?thesis using tree by (simp add: table_ok_def)
qed

lemma configure_window_ok:
  assumes t: "table_ok (windows t)" and c: "configure_window t r = Some t'"
  shows "table_ok (windows t')"
proof -
  obtain w where w: "windows t (cf_window r) = Some w" using c by (auto simp: configure_window_def split: option.splits)
  have "table_ok ((windows t)(cf_window r \<mapsto> apply_geometry r w))"
    by (rule frame_update [OF t w]) (simp_all add: apply_geometry_def)
  then show ?thesis using c w restack_ok by (auto simp: configure_window_def)
qed

text \<open>The overlay window stays on top.\<close>

definition cow_on_top :: "u32 list \<Rightarrow> bool" where
  "cow_on_top cs \<longleftrightarrow> (COMPOSITE_OVERLAY_WINDOW \<in> set cs \<longrightarrow> last cs = COMPOSITE_OVERLAY_WINDOW)"

lemma last_insert_at: "j < length xs \<Longrightarrow> last (insert_at j x xs) = last xs"
  by (simp add: insert_at_def last_drop)

lemma last_remove_at:
  assumes "position w cs = Some index" and "last cs \<noteq> w"
  shows "remove_at index cs \<noteq> [] \<and> last (remove_at index cs) = last cs"
proof -
  have i: "index < length cs" "cs ! index = w" using position_Some_lt [OF assms(1)] by auto
  have "Suc index < length cs"
  proof (rule ccontr)
    assume "\<not> Suc index < length cs"
    then have "index = length cs - 1" "cs \<noteq> []" using i(1) by auto
    then show False using i(2) assms(2) by (simp add: last_conv_nth)
  qed
  then show ?thesis by (simp add: remove_at_def)
qed

lemma cow_insert_top: "cow_on_top cs \<Longrightarrow> cow_on_top (insert_at (cow_aware_top_index cs) i cs)"
proof (cases "cs \<noteq> [] \<and> last cs = COMPOSITE_OVERLAY_WINDOW")
  case True
  then show ?thesis by (simp add: cow_on_top_def cow_aware_top_index_def last_insert_at)
next
  case False
  assume "cow_on_top cs"
  then have "COMPOSITE_OVERLAY_WINDOW \<notin> set cs" using False by (cases cs) (auto simp: cow_on_top_def)
  then show ?thesis using False by (auto simp: cow_on_top_def cow_aware_top_index_def insert_at_def)
qed

lemma cow_restack:
  assumes p: "position w cs = Some index" and d: "distinct cs" and c: "cow_on_top cs"
    and w: "w \<noteq> COMPOSITE_OVERLAY_WINDOW"
    and a: "\<And>s. a = AboveSibling s \<or> a = BelowSibling s \<Longrightarrow> s \<in> set cs \<and> s \<noteq> w"
  shows "cow_on_top (restack_children a w index cs)"
proof (cases "COMPOSITE_OVERLAY_WINDOW \<in> set cs")
  case False
  then have "COMPOSITE_OVERLAY_WINDOW \<notin> set (restack_children a w index cs)" 
    using restack_children_perm [OF p d] by simp
  then show ?thesis by (simp add: cow_on_top_def)
next
  case True
  then have l: "last cs = COMPOSITE_OVERLAY_WINDOW" using c by (simp add: cow_on_top_def)
  let ?r = "remove_at index cs"
  have r: "?r \<noteq> []" "last ?r = COMPOSITE_OVERLAY_WINDOW" using last_remove_at [OF p] l w by auto
  have rs: "set ?r = set cs - {w}" using position_remove_at [OF p d] by simp
  have top: "cow_aware_top_index ?r < length ?r" using r by (simp add: cow_aware_top_index_def)
  have keep: "last (insert_at j w ?r) = COMPOSITE_OVERLAY_WINDOW" if "j < length ?r" for j
    using last_insert_at [OF that] r(2) by simp
  have pos: "\<exists>j. position s ?r = Some j \<and> j < length ?r \<and> (s \<noteq> COMPOSITE_OVERLAY_WINDOW \<longrightarrow> Suc j < length ?r)"
    if s: "s \<in> set cs" "s \<noteq> w" for s
  proof -
    obtain j where j: "position s ?r = Some j" using position_None_iff [of s ?r] rs s by (cases "position s ?r") auto
    have "j < length ?r" "?r ! j = s" using position_Some_lt [OF j] by auto
    moreover have "Suc j < length ?r" if "s \<noteq> COMPOSITE_OVERLAY_WINDOW"
    proof (rule ccontr)
      assume "\<not> Suc j < length ?r"
      then have "j = length ?r - 1" using calculation(1) by simp
      then show False using calculation(2) r that by (simp add: last_conv_nth)
    qed
    ultimately show ?thesis using j by blast
  qed
  show ?thesis
  proof (cases a)
    case (AboveSibling s)
    then show ?thesis using pos [of s] a [of s] keep top by (auto simp: cow_on_top_def Let_def)
  next
    case (BelowSibling s)
    then show ?thesis using pos [of s] a [of s] keep by (auto simp: cow_on_top_def Let_def unwrap_or_def)
  qed (use keep top r l in \<open>simp_all add: cow_on_top_def Let_def\<close>)
qed

end
