(* ===== verification/Tree_Destroy.thy ===== *)
theory Tree_Destroy
  imports Tree_Frame
begin

text \<open>
  Destroying windows. A plan names exactly the subtree of its window, every window once, with
  its parent, inferiors before superiors; on the table it was made from it is never stale, and
  applying it removes exactly those windows and keeps the invariant.
\<close>

section \<open>Plans\<close>

definition crush_spec :: "window_map \<Rightarrow> u32 list \<Rightarrow> u32 \<Rightarrow> bool" where
  "crush_spec ws ids k \<longleftrightarrow>
     (\<exists>out. crush_list ws ids k = Some out
       \<and> distinct (map fst out) \<and> set (map fst out) = (\<Union>i \<in> set ids. subtree (shape ws) i)
       \<and> (\<forall>(x, p) \<in> set out. \<exists>cs. shape ws x = Some (p, cs))
       \<and> sorted_wrt (\<lambda>a b. (b, a) \<notin> (child_rel (shape ws))\<^sup>+) (map fst out)
       \<and> (ids \<noteq> [] \<longrightarrow> out \<noteq> [] \<and> last out = (last ids, k)))"

lemma subtree_unfold:
  assumes "shape ws i = Some (p, cs)"
  shows "subtree (shape ws) i = insert i (\<Union>c \<in> set cs. subtree (shape ws) c)"
proof -
  have "(c, i) \<in> child_rel (shape ws) \<longleftrightarrow> c \<in> set cs" for c
    using assms by (auto simp: child_rel_def)
  then show ?thesis unfolding subtree_def
    by (auto elim: rtranclE intro: rtrancl_into_rtrancl)
qed

lemma crush_Nil [simp]: "crush_list ws [] k = Some []"
  by (subst crush_list.simps) simp

lemma crush_Cons:
  "ws i = Some w \<Longrightarrow> crush_list ws (i # rest) k =
     Option.bind (crush_list ws (rev (children w)) i)
       (\<lambda>out. Option.bind (crush_list ws rest k) (\<lambda>others. Some (out @ (i, k) # others)))"
  by (subst crush_list.simps) (simp add: Option.bind_assoc)

lemma crush_spec_list:
  assumes t: "tree_shape (shape ws)"
    and IH: "\<And>i w. i \<in> set ids \<Longrightarrow> ws i = Some w \<Longrightarrow> crush_spec ws (rev (children w)) i"
    and k: "\<And>i. i \<in> set ids \<Longrightarrow> (i, k) \<in> child_rel (shape ws)" and d: "distinct ids"
  shows "crush_spec ws ids k"
  using IH k d
proof (induction ids)
  case Nil
  show ?case by (simp add: crush_spec_def)
next
  case (Cons i ids)
  let ?R = "child_rel (shape ws)"
  obtain cs where "shape ws i = Some (k, cs)" using tree_child [OF t Cons.prems(2)] by auto
  then obtain w where w: "ws i = Some w" "parent w = k" by (auto simp: shape_eq)
  have sub: "subtree (shape ws) i = insert i (\<Union>c \<in> set (children w). subtree (shape ws) c)"
    using w(1) by (intro subtree_unfold) (simp add: shape_def)
  obtain out where o: "crush_list ws (rev (children w)) i = Some out" "distinct (map fst out)"
      "set (map fst out) = (\<Union>c \<in> set (children w). subtree (shape ws) c)"
      "\<forall>(x, p) \<in> set out. \<exists>cs. shape ws x = Some (p, cs)"
      "sorted_wrt (\<lambda>a b. (b, a) \<notin> ?R\<^sup>+) (map fst out)"
    using Cons.prems(1) [of i w] w by (auto simp: crush_spec_def)
  obtain others where r: "crush_list ws ids k = Some others" "distinct (map fst others)"
      "set (map fst others) = (\<Union>i \<in> set ids. subtree (shape ws) i)"
      "\<forall>(x, p) \<in> set others. \<exists>cs. shape ws x = Some (p, cs)"
      "sorted_wrt (\<lambda>a b. (b, a) \<notin> ?R\<^sup>+) (map fst others)" "ids \<noteq> [] \<longrightarrow> others \<noteq> [] \<and> last others = (last ids, k)"
    using Cons by (auto simp: crush_spec_def)
  let ?all = "out @ (i, k) # others"
  have eq: "crush_list ws (i # ids) k = Some ?all" using crush_Cons [of ws i w ids k] w(1) o(1) r(1) by simp
  have sl: "sibling_list (shape ws) (i # ids)" using Cons.prems by (auto simp: sibling_list_def)
  have in1: "x \<in> subtree (shape ws) i" if "x \<in> set (map fst out)" for x using that o(3) sub by blast
  have ni: "i \<notin> set (map fst out)"
  proof
    assume "i \<in> set (map fst out)"
    then obtain c where "c \<in> set (children w)" "i \<in> subtree (shape ws) c" using o(3) by blast
    moreover have "(c, i) \<in> ?R" using calculation(1) w(1) by (auto simp: child_rel_def shape_def)
    ultimately have "(i, i) \<in> ?R\<^sup>+" by (auto simp: subtree_def)
    then show False using tree_acyclic [OF t] by (simp add: acyclic_def)
  qed
  have disj: "x \<notin> set (map fst others)" if x: "x \<in> subtree (shape ws) i" for x
  proof
    assume "x \<in> set (map fst others)"
    then obtain j where j: "j \<in> set ids" "x \<in> subtree (shape ws) j" using r(3) by blast
    then have "i = j" using siblings_disjoint [OF t _ _ x j(2)] Cons.prems(2) by auto
    then show False using j(1) Cons.prems(3) by simp
  qed
  have dist: "distinct (map fst ?all)" using o(2) r(2) ni disj in1 by (auto simp del: set_map) 
  have set: "set (map fst ?all) = (\<Union>i \<in> set (i # ids). subtree (shape ws) i)"
    using o(3) r(3) sub by auto
  have par: "\<forall>(x, p) \<in> set ?all. \<exists>cs. shape ws x = Some (p, cs)"
    using o(4) r(4) w by (auto simp: shape_def)
  have "(b, a) \<notin> ?R\<^sup>+" if ab: "a \<in> subtree (shape ws) i" "b \<in> set (map fst others)" for a b
  proof -
    obtain j where "j \<in> set ids" "b \<in> subtree (shape ws) j" using ab(2) r(3) by blast
    then show ?thesis using siblings_below(2) [OF t sl ab(1)] by blast
  qed
  moreover have "(i, a) \<notin> ?R\<^sup>+" if "a \<in> set (map fst out)" for a
    using not_below_child [OF t in1 [OF that]] .
  ultimately have ord: "sorted_wrt (\<lambda>a b. (b, a) \<notin> ?R\<^sup>+) (map fst ?all)"
    using o(5) r(5) in1 by (simp add: sorted_wrt_append del: set_map)
  have "last ?all = (last (i # ids), k)" using r(1,6) by (cases "ids = []") auto
  then show ?case unfolding crush_spec_def
    using eq dist set par ord by (intro exI [of _ ?all]) simp
qed

lemma crush_spec_window:
  assumes t: "tree_shape (shape ws)"
  shows "ws i = Some w \<Longrightarrow> crush_spec ws (rev (children w)) i"
proof (induction i arbitrary: w rule: wf_induct_rule [OF tree_wf [OF t]])
  case (1 i)
  have ch: "(c, i) \<in> child_rel (shape ws)" if "c \<in> set (rev (children w))" for c
    using that 1(2) by (auto simp: child_rel_def shape_def)
  have "distinct (rev (children w))"
    using tree_distinct [OF t, of i] 1(2) by (simp add: shape_def)
  then show ?case using crush_spec_list [OF t, of "rev (children w)" i] 1(1) ch by blast
qed

lemma plan_destroy_ok:
  assumes t: "tree_shape (shape ws)" and i: "ws i = Some w" "i \<noteq> ROOT_WINDOW"
  obtains p where "plan_destroy ws i = Some (Some p)"
    "distinct (map fst (plan_windows p))" "set (map fst (plan_windows p)) = subtree (shape ws) i"
    "\<forall>(x, q) \<in> set (plan_windows p). \<exists>cs. shape ws x = Some (q, cs)"
    "sorted_wrt (\<lambda>a b. (b, a) \<notin> (child_rel (shape ws))\<^sup>+) (map fst (plan_windows p))"
    "plan_windows p \<noteq> []" "last (plan_windows p) = (i, parent w)"
    "contains_cow p \<longleftrightarrow> COMPOSITE_OVERLAY_WINDOW \<in> subtree (shape ws) i"
proof -
  have si: "shape ws i = Some (parent w, children w)" using i(1) by (simp add: shape_def)
  have "crush_spec ws [i] (parent w)"
    using crush_spec_list [OF t, of "[i]" "parent w"] crush_spec_window [OF t] tree_parent_rel [OF t si i(2)] by simp
  then obtain out where o: "crush_list ws [i] (parent w) = Some out" "distinct (map fst out)"
      "set (map fst out) = subtree (shape ws) i" "\<forall>(x, q) \<in> set out. \<exists>cs. shape ws x = Some (q, cs)"
      "sorted_wrt (\<lambda>a b. (b, a) \<notin> (child_rel (shape ws))\<^sup>+) (map fst out)" "out \<noteq> []" "last out = (i, parent w)"
    by (auto simp: crush_spec_def)
  let ?p = "\<lparr>plan_windows = out, contains_cow = list_ex (\<lambda>(x, _). x = COMPOSITE_OVERLAY_WINDOW) out\<rparr>"
  have "contains_cow ?p \<longleftrightarrow> COMPOSITE_OVERLAY_WINDOW \<in> set (map fst out)"
    by (force simp: list_ex_iff)
  then have "contains_cow ?p \<longleftrightarrow> COMPOSITE_OVERLAY_WINDOW \<in> subtree (shape ws) i" using o(3) by blast
  moreover have "plan_destroy ws i = Some (Some ?p)"
    using i o(1) by (simp add: plan_destroy_def crush_tree_order_def)
  ultimately show thesis using o(2-7) by (intro that [of ?p]) simp_all
qed

section \<open>Applying a plan\<close>

lemma stale_entries_None:
  "\<forall>(x, q) \<in> set es. \<exists>w. ws x = Some w \<and> parent w = q \<and> set (children w) \<subseteq> set planned \<Longrightarrow>
    stale_entries ws planned es = None"
proof (induction es)
  case (Cons e es)
  obtain x q where e: "e = (x, q)" by (cases e)
  then obtain w where w: "ws x = Some w" "parent w = q" "set (children w) \<subseteq> set planned" using Cons.prems by auto
  then have "find (\<lambda>c. c \<notin> set planned) (children w) = None" by (auto simp: find_None_iff)
  then show ?case using w e Cons by simp
qed simp

lemma remove_windows_ok:
  "distinct is \<Longrightarrow> \<forall>i \<in> set is. ws i \<noteq> None \<Longrightarrow>
    \<exists>dropped. remove_windows is ws d = Some (\<lambda>k. if k \<in> set is then None else ws k, dropped)"
proof (induction "is" arbitrary: ws d)
  case (Cons i "is")
  then obtain w where w: "ws i = Some w" by auto
  let ?d = "d @ (case cursor_host w of None \<Rightarrow> [] | Some h \<Rightarrow> [h])"
  have "\<exists>dropped. remove_windows is (ws(i := None)) ?d = Some (\<lambda>k. if k \<in> set is then None else (ws(i := None)) k, dropped)"
    using Cons by (intro Cons.IH) auto
  moreover have "(\<lambda>k. if k \<in> set is then None else (ws(i := None)) k) = (\<lambda>k. if k \<in> set (i # is) then None else ws k)"
    by auto
  ultimately show ?case using w by simp
qed simp

lemma apply_destroy_ok:
  assumes t: "table_ok (windows t)" and i: "windows t i = Some w" "i \<noteq> ROOT_WINDOW"
    and p: "plan_destroy (windows t) i = Some (Some p)"
  shows "\<exists>t'. apply_destroy t p = Inr t' \<and> table_ok (windows t')
    \<and> dom (windows t') = dom (windows t) - subtree (shape (windows t)) i
    \<and> (\<forall>k. k \<notin> subtree (shape (windows t)) i \<longrightarrow> k \<noteq> parent w \<longrightarrow> windows t' k = windows t k)"
proof -
  let ?ws = "windows t" let ?S = "subtree (shape ?ws) i"
  note tt = table_okD [OF t]
  obtain p' where p': "plan_destroy ?ws i = Some (Some p')"
      "distinct (map fst (plan_windows p'))" "set (map fst (plan_windows p')) = ?S"
      "\<forall>(x, q) \<in> set (plan_windows p'). \<exists>cs. shape ?ws x = Some (q, cs)"
      "sorted_wrt (\<lambda>a b. (b, a) \<notin> (child_rel (shape ?ws))\<^sup>+) (map fst (plan_windows p'))"
      "plan_windows p' \<noteq> []" "last (plan_windows p') = (i, parent w)"
      "contains_cow p' \<longleftrightarrow> COMPOSITE_OVERLAY_WINDOW \<in> ?S"
    by (rule plan_destroy_ok [OF tt(1) i])
  then have pp: "p' = p" using p by simp
  note q = p'(2,3,4,6,7) [unfolded pp]
  have si: "shape ?ws i = Some (parent w, children w)" using i(1) by (simp add: shape_def)
  obtain pw where pw: "?ws (parent w) = Some pw" "i \<in> set (children pw)"
    using tree_linked [OF tt(1) si i(2)] by (auto simp: shape_eq)
  have "stale_entries ?ws (map fst (plan_windows p)) (plan_windows p) = None"
  proof (rule stale_entries_None, safe)
    fix x y assume xy: "(x, y) \<in> set (plan_windows p)"
    then obtain cs where "shape ?ws x = Some (y, cs)" using q(3) by blast
    then obtain xw where xw: "?ws x = Some xw" "parent xw = y" by (auto simp: shape_eq)
    have "x \<in> ?S" using xy q(2) by force
    moreover have "(c, x) \<in> child_rel (shape ?ws)" if "c \<in> set (children xw)" for c
      using xw(1) that by (auto simp: child_rel_def shape_def)
    ultimately have "set (children xw) \<subseteq> ?S" using subtree_child by blast
    then show "\<exists>w. ?ws x = Some w \<and> parent w = y \<and> set (children w) \<subseteq> set (map fst (plan_windows p))"
      using xw q(2) by auto
  qed
  then have fresh: "stale_plan_problem ?ws p = None" using q(4,5) pw by (simp add: stale_plan_problem_def)
  let ?ws1 = "modify_window (parent w) (\<lambda>w. w\<lparr>children := filter (\<lambda>c. c \<noteq> i) (children w)\<rparr>) ?ws"
  let ?ws2 = "\<lambda>k. if k \<in> ?S then None else ?ws1 k"
  have all: "\<forall>x \<in> set (map fst (plan_windows p)). ?ws1 x \<noteq> None"
    using q(3) by (auto simp: modify_window_apply shape_eq)
  obtain dropped where rm: "remove_windows (map fst (plan_windows p)) ?ws1 (dropped_cursor_hosts t) = Some (?ws2, dropped)"
    using remove_windows_ok [OF q(1) all, of "dropped_cursor_hosts t", unfolded q(2)] by blast
  have pn: "parent w \<notin> ?S" using parent_not_in_subtree [OF tt(1) si i(2)] .
  have sh: "shape ?ws2 = remove_subtree (shape ?ws) i (parent w)"
    by (auto simp: fun_eq_iff shape_def remove_subtree_def modify_window_apply option.map_comp comp_def)
  have st: "in_state ?ws2 s k \<longleftrightarrow> k \<notin> ?S \<and> in_state ?ws s k" for s k
    by (auto simp: in_state_def modify_window_apply split: option.splits)
  have "edge_ok ?ws2 k x" if k: "shape ?ws2 k = Some (x, cs)" "k \<noteq> ROOT_WINDOW" for k x cs
  proof -
    obtain cs' where k': "shape ?ws k = Some (x, cs')" "k \<notin> ?S"
      using k(1) unfolding sh remove_subtree_def by (auto split: if_splits)
    have "x \<notin> ?S" using not_subtree_parent [OF tt(1) k'(1) k(2) k'(2)] .
    then show ?thesis using edge_okD [OF tt(2) k'(1) k(2)] k'(2) by (simp add: edge_ok_def st)
  qed
  then have "table_ok ?ws2"
    using tree_remove [OF tt(1) si i(2)] tt(2) root_not_in_subtree [OF tt(1) i(2)]
    by (simp add: table_ok_def view_ok_def sh st)
  moreover have "dom ?ws2 = dom ?ws - ?S" by (auto simp: modify_window_apply dom_def)
  moreover have "apply_destroy t p = Inr (t\<lparr>windows := ?ws2, dropped_cursor_hosts := dropped\<rparr>)"
    using fresh q(5) rm by (simp add: apply_destroy_def)
  ultimately show ?thesis by (simp add: modify_window_apply)
qed

end
