(* ===== verification/Tree_Props.thy ===== *)
theory Tree_Props
  imports Tree_Destroy Machines
begin

text \<open>
  What the window table promises, for every table the server can reach: its windows form a
  tree, viewability is the protocol's, every operation returns, and each does what its request
  asks for.
\<close>

section \<open>The table as a machine\<close>

text \<open>
  One operation on the table. The guards are the request handlers': a new window's id is
  unused and its parent exists; the overlay is materialised and plans are applied as their
  handlers do.
\<close>

inductive table_step :: "resource_table \<Rightarrow> resource_table \<Rightarrow> bool" where
  create: "windows t (cr_parent r) \<noteq> None \<Longrightarrow> windows t (cr_window r) = None \<Longrightarrow>
    table_step t (create_window t own r)"
| overlay: "materialize_cow_resource t h = Some t' \<Longrightarrow> table_step t t'"
| attributes: "change_window_attributes t r = (t', rel) \<Longrightarrow> table_step t t'"
| configure: "configure_window t r = Some t' \<Longrightarrow> table_step t t'"
| gravity: "apply_win_gravity t par ow oh nw nh = (t', moved) \<Longrightarrow> table_step t t'"
| circulate: "table_step t (t\<lparr>windows := circulate_child (windows t) child to_top\<rparr>)"
| map: "map_window t i = Some (t', tr) \<Longrightarrow> table_step t t'"
| unmap: "unmap_window t i = Some (t', tr) \<Longrightarrow> table_step t t'"
| reparent: "reparent_window t r = Some (Inr (t', res)) \<Longrightarrow> table_step t t'"
| destroy: "plan_destroy (windows t) i = Some (Some p) \<Longrightarrow> apply_destroy t p = Inr t' \<Longrightarrow> table_step t t'"

abbreviation initial_table :: "resource_table \<Rightarrow> bool" where
  "initial_table t \<equiv> t = resource_table_default"

lemma default_ok: "table_ok (windows resource_table_default)"
proof -
  have sh: "shape (windows resource_table_default) = [ROOT_WINDOW \<mapsto> (ROOT_WINDOW, [])]"
    by (auto simp: shape_def resource_table_default_def root_window_def)
  have "tree_shape (shape (windows resource_table_default))"
    unfolding sh by (rule tree_shapeI) (auto split: if_splits intro: exI [of _ 0])
  moreover have "view_ok (windows resource_table_default)"
    unfolding view_ok_def sh by (auto simp: in_state_def resource_table_default_def root_window_def split: if_splits)
  ultimately show ?thesis by (simp add: table_ok_def)
qed

lemma reparent_result_checked:
  "reparent_window t r = Some (Inr x) \<Longrightarrow> check_reparent_window (windows t) r = Inr ()"
  by (auto simp: reparent_window_def split: sum.splits)

lemma plan_destroy_window:
  "plan_destroy ws i = Some (Some p) \<Longrightarrow> i \<noteq> ROOT_WINDOW \<and> (\<exists>w. ws i = Some w)"
  by (auto simp: plan_destroy_def split: if_splits option.splits)

lemma table_step_ok: "table_ok (windows t) \<Longrightarrow> table_step t t' \<Longrightarrow> table_ok (windows t')"
proof (erule table_step.cases)
  fix s r own assume "table_ok (windows t)" "t = s" "t' = create_window s own r"
    "windows s (cr_parent r) \<noteq> None" "windows s (cr_window r) = None"
  then show ?thesis using create_window_ok by blast
next
  fix s h s' assume "table_ok (windows t)" "t = s" "t' = s'" "materialize_cow_resource s h = Some s'"
  then show ?thesis using materialize_cow_ok [of s h]
    by (cases "windows s COMPOSITE_OVERLAY_WINDOW") (auto simp: materialize_cow_resource_def)
next
  fix s r s' rel assume "table_ok (windows t)" "t = s" "t' = s'" "change_window_attributes s r = (s', rel)"
  then show ?thesis using change_attributes_ok [of s r] by simp
next
  fix s r s' assume "table_ok (windows t)" "t = s" "t' = s'" "configure_window s r = Some s'"
  then show ?thesis using configure_window_ok by blast
next
  fix s par ow oh nw nh s' moved
  assume "table_ok (windows t)" "t = s" "t' = s'" "apply_win_gravity s par ow oh nw nh = (s', moved)"
  then show ?thesis using apply_win_gravity_ok [of s par ow oh nw nh] by simp
next
  fix s child to_top assume "table_ok (windows t)" "t = s" "t' = s\<lparr>windows := circulate_child (windows s) child to_top\<rparr>"
  then show ?thesis using restack_ok by (simp add: circulate_child_def)
next
  fix s i s' tr assume "table_ok (windows t)" "t = s" "t' = s'" "map_window s i = Some (s', tr)"
  then show ?thesis using map_window_ok [of s i] by auto
next
  fix s i s' tr assume "table_ok (windows t)" "t = s" "t' = s'" "unmap_window s i = Some (s', tr)"
  then show ?thesis using unmap_window_ok [of s i] by auto
next
  fix s r s' res assume "table_ok (windows t)" "t = s" "t' = s'" "reparent_window s r = Some (Inr (s', res))"
  then show ?thesis using reparent_window_ok [of s r "()"] reparent_result_checked [of s r] by auto
next
  fix s i p s' assume "table_ok (windows t)" "t = s" "t' = s'"
    "plan_destroy (windows s) i = Some (Some p)" "apply_destroy s p = Inr s'"
  then show ?thesis using apply_destroy_ok [of s i _ p] plan_destroy_window [of "windows s" i p] by auto
qed

interpretation table: invariant_machine initial_table table_step "\<lambda>t. table_ok (windows t)"
  by unfold_locales (auto simp: default_ok intro: table_step_ok)

section \<open>Examples\<close>

text \<open>A client's window with one child, both unmapped, made by the operations themselves.\<close>

definition plain_request :: "u32 \<Rightarrow> u32 \<Rightarrow> create_window_request" where
  "plain_request i par = \<lparr>cr_depth = 0, cr_window = i, cr_parent = par, cr_x = 10, cr_y = 20,
     cr_width = 100, cr_height = 50, cr_border_width = 1, cr_class = 0, cr_visual = 0,
     cr_background_pixmap = None, cr_background_pixel = None, cr_border_pixmap = None,
     cr_border_pixel = None, cr_bit_gravity = None, cr_win_gravity = None, cr_backing_store = None,
     cr_backing_planes = None, cr_backing_pixel = None, cr_override_redirect = None,
     cr_save_under = None, cr_do_not_propagate_mask = None, cr_colormap = None, cr_cursor = None\<rparr>"

definition table1 :: resource_table where
  "table1 = create_window resource_table_default 1 (plain_request 0x200 ROOT_WINDOW)"

definition table2 :: resource_table where
  "table2 = create_window table1 1 (plain_request 0x201 0x200)"

lemma table2_lookup:
  "\<exists>w. windows table1 0x200 = Some w \<and> parent w = ROOT_WINDOW \<and> map_state w = Unmapped"
  "windows table1 0x201 = None" "windows table1 ROOT_WINDOW \<noteq> None"
  "\<exists>w. windows table2 0x200 = Some w \<and> parent w = ROOT_WINDOW \<and> map_state w = Unmapped \<and> children w = [0x201]"
  "\<exists>w. windows table2 0x201 = Some w \<and> parent w = 0x200 \<and> map_state w = Unmapped \<and> children w = []"
  "\<exists>w. windows table2 ROOT_WINDOW = Some w \<and> children w = [0x200]"
  by (simp_all add: table1_def table2_def create_window_def plain_request_def Let_def unwrap_or_def
      resource_table_default_def root_window_def new_window_def insert_child_def cow_aware_top_index_def insert_at_def)

lemma reachable_table1: "reachable initial_table table_step table1"
  unfolding table1_def
  by (rule reachable.step [OF reachable.initial], simp, rule table_step.create)
    (simp_all add: plain_request_def resource_table_default_def)

lemma reachable_table2: "reachable initial_table table_step table2"
proof -
  have "table_step table1 table2"
    unfolding table2_def using table2_lookup(1,2)
    by (intro table_step.create) (auto simp: plain_request_def)
  then show ?thesis by (rule reachable.step [OF reachable_table1])
qed

lemma table1_ok: "table_ok (windows table1)"
  by (rule table.reachable_inv [OF reachable_table1])

lemma table2_ok: "table_ok (windows table2)"
  by (rule table.reachable_inv [OF reachable_table2])

lemma not_descendant: "tree_shape (shape ws) \<Longrightarrow> ws k = None \<Longrightarrow> \<not> is_descendant_of ws k a"
  unfolding is_descendant_of_def by (subst descendant_loop.simps) simp

section \<open>Positions and hit tests\<close>

lemma absolute_loop_linear:
  "absolute_loop n ws k ax ay = (ax + fst (absolute_loop n ws k 0 0), ay + snd (absolute_loop n ws k 0 0))"
proof (induction n arbitrary: k ax ay)
  case (Suc n)
  show ?case
  proof (cases "k = ROOT_WINDOW \<or> ws k = None")
    case False
    then obtain w where w: "ws k = Some w" by auto
    let ?dx = "sint (wx w) + uint (border_width w)" and ?dy = "sint (wy w) + uint (border_width w)"
    have "absolute_loop n ws (parent w) (ax + ?dx) (ay + ?dy) =
        (ax + ?dx + fst (absolute_loop n ws (parent w) 0 0), ay + ?dy + snd (absolute_loop n ws (parent w) 0 0))"
      by (rule Suc.IH)
    moreover have "absolute_loop n ws (parent w) ?dx ?dy =
        (?dx + fst (absolute_loop n ws (parent w) 0 0), ?dy + snd (absolute_loop n ws (parent w) 0 0))"
      by (rule Suc.IH)
    ultimately show ?thesis using False w by (simp add: Let_def)
  qed auto
qed simp

lemma absolute_loop_enough:
  "at_depth (shape ws) d k \<Longrightarrow> d \<le> n \<Longrightarrow> d \<le> m \<Longrightarrow> absolute_loop n ws k ax ay = absolute_loop m ws k ax ay"
proof (induction d arbitrary: k n m ax ay)
  case 0
  then show ?case by (cases n; cases m) simp_all
next
  case (Suc d)
  then obtain p cs where p: "shape ws k = Some (p, cs)" "at_depth (shape ws) d p" "k \<noteq> ROOT_WINDOW"
    by (auto split: option.splits)
  then obtain w where w: "ws k = Some w" "at_depth (shape ws) d (parent w)" "k \<noteq> ROOT_WINDOW"
    by (auto simp: shape_eq)
  obtain n' m' where nm: "n = Suc n'" "m = Suc m'" using Suc.prems(2,3) by (metis Suc_le_D)
  then show ?case using w Suc.IH [OF w(2), of n' m'] Suc.prems(2,3) by (simp add: Let_def)
qed

lemma absolute_position_step:
  assumes t: "table_ok ws" and d: "at_depth (shape ws) (Suc d) k" "d < 256" and w: "ws k = Some w"
  shows "window_absolute_position ws k =
    (fst (window_absolute_position ws (parent w)) + sint (wx w) + uint (border_width w),
     snd (window_absolute_position ws (parent w)) + sint (wy w) + uint (border_width w))"
proof -
  have k: "k \<noteq> ROOT_WINDOW" "at_depth (shape ws) d (parent w)" using d(1) w by (auto simp: shape_def)
  have pk: "parent w \<noteq> k" using tree_parent_self [OF table_okD(1) [OF t], of k] w k(1) by (auto simp: shape_def)
  let ?dx = "sint (wx w) + uint (border_width w)" and ?dy = "sint (wy w) + uint (border_width w)"
  have "absolute_loop 256 ws k 0 0 = absolute_loop 255 ws (parent w) ?dx ?dy"
    using k(1) w pk by (simp add: numeral_eq_Suc Let_def)
  also have "\<dots> = absolute_loop 256 ws (parent w) ?dx ?dy"
    using absolute_loop_enough [OF k(2)] d(2) by simp
  also have "\<dots> = (?dx + fst (absolute_loop 256 ws (parent w) 0 0), ?dy + snd (absolute_loop 256 ws (parent w) 0 0))"
    by (rule absolute_loop_linear)
  finally have "absolute_loop 256 ws k 0 0 =
      (?dx + fst (absolute_loop 256 ws (parent w) 0 0), ?dy + snd (absolute_loop 256 ws (parent w) 0 0))" .
  moreover have "absolute_loop 256 ws ROOT_WINDOW 0 0 = (0, 0)" by (simp add: numeral_eq_Suc)
  ultimately show ?thesis using k(1) by (auto simp: window_absolute_position_def)
qed

lemma sint_diff_i16:
  assumes "i16_min \<le> sint a - sint b - sint c" and "sint a - sint b - sint c \<le> i16_max"
  shows "sint (a - b - c :: i16) = sint a - sint b - sint c"
proof -
  have "a - b - c = word_of_int (sint a - sint b - sint c)" by simp
  then show ?thesis using sint_word_of_int_i16 [OF assms] by simp
qed

lemma sint_border_delta:
  assumes "uint (border_width w) \<le> i16_max"
  shows "sint (border_delta w) = uint (border_width w)"
proof -
  have "i16_min \<le> uint (border_width w)" using uint_u16_bounds(1) [of "border_width w"] by linarith
  then show ?thesis using sint_word_of_int_i16 [OF _ assms] assms by (simp add: border_delta_def)
qed

lemma i16_edge_id:
  assumes "uint v + sint bw \<le> i16_max" and "0 \<le> sint bw"
  shows "i16_edge v bw = uint v + sint bw"
proof -
  have "0 \<le> uint v" by simp
  then have "uint v \<le> i16_max" "i16_min \<le> uint v + sint bw" using assms by linarith+
  then show ?thesis using assms(1) by (simp add: i16_edge_def clamp_def)
qed

lemma hit_test_agrees:
  assumes w: "uint (wwidth w) + uint (border_width w) \<le> i16_max" "uint (wheight w) + uint (border_width w) \<le> i16_max"
    and x: "i16_min \<le> sint px - sint (wx w) - uint (border_width w)" "sint px - sint (wx w) - uint (border_width w) \<le> i16_max"
    and y: "i16_min \<le> sint py - sint (wy w) - uint (border_width w)" "sint py - sint (wy w) - uint (border_width w) \<le> i16_max"
  shows "(case to_content_coords w px py of (cx, cy) \<Rightarrow> outer_contains_content_point w cx cy) \<longleftrightarrow>
    (case window_bounding_box w of (x0, y0, x1, y1) \<Rightarrow> x0 \<le> sint px \<and> sint px < x1 \<and> y0 \<le> sint py \<and> sint py < y1)"
proof -
  have nn: "0 \<le> uint (wwidth w)" "0 \<le> uint (border_width w)" by simp_all
  then have "uint (border_width w) \<le> i16_max" using w(1) by linarith
  note bw = sint_border_delta [OF this]
  have cx: "sint (px - wx w - border_delta w) = sint px - sint (wx w) - uint (border_width w)"
    using sint_diff_i16 [of px "wx w" "border_delta w"] x bw by simp
  have cy: "sint (py - wy w - border_delta w) = sint py - sint (wy w) - uint (border_width w)"
    using sint_diff_i16 [of py "wy w" "border_delta w"] y bw by simp
  have e: "i16_edge (wwidth w) (border_delta w) = uint (wwidth w) + uint (border_width w)"
    "i16_edge (wheight w) (border_delta w) = uint (wheight w) + uint (border_width w)"
    using i16_edge_id [of _ "border_delta w"] w bw by simp_all
  show ?thesis
    by (simp add: to_content_coords_def outer_contains_content_point_def window_bounding_box_def Let_def cx cy e bw)
      linarith
qed

section \<open>Properties\<close>

text \<open>
  C5. Every table the server can reach from its initial one by window operations is sound:
  parents and child lists agree, no list repeats a window, every window is a finite number of
  steps below the root, and viewability obeys the protocol's rule at every edge.
\<close>

theorem reachable_tables_ok: "reachable initial_table table_step t \<Longrightarrow> table_ok (windows t)"
  by (rule table.reachable_inv)

theorem reachable_tables_ok_witness: "table_ok (windows table2)"
  by (rule reachable_tables_ok [OF reachable_table2])

text \<open>
  In a sound table \<open>map_state == Viewable\<close> is X11's definition: the window and all its
  ancestors are mapped.
\<close>

theorem viewable_means_mapped_ancestors:
  assumes "table_ok ws" and "ws k \<noteq> None"
  shows "in_state ws Viewable k \<longleftrightarrow> (\<forall>a. (k, a) \<in> (child_rel (shape ws))\<^sup>* \<longrightarrow> \<not> in_state ws Unmapped a)"
  by (rule viewable_iff [OF assms])

theorem viewable_means_mapped_ancestors_witness:
  "in_state (windows table2) Viewable 0x201 \<longleftrightarrow>
    (\<forall>a. (0x201, a) \<in> (child_rel (shape (windows table2)))\<^sup>* \<longrightarrow> \<not> in_state (windows table2) Unmapped a)"
  by (rule viewable_means_mapped_ancestors [OF table2_ok]) (use table2_lookup in auto)

text \<open>
  C6. \<open>map_window\<close> returns, leaves a sound table in which the window is mapped, and reports
  exactly the windows that became viewable, each once, parents before children; it reports a
  mapping change exactly when the window was unmapped.
\<close>

theorem map_window_correct:
  assumes "table_ok (windows t)"
  shows "\<exists>t' tr. map_window t i = Some (t', tr) \<and> table_ok (windows t')
    \<and> delta_exact (windows t) (windows t') (delta tr) \<and> shape (windows t') = shape (windows t)
    \<and> \<not> in_state (windows t') Unmapped i
    \<and> (mapping_changed tr \<longleftrightarrow> in_state (windows t) Unmapped i)"
  by (rule map_window_ok [OF assms])

theorem map_window_correct_witness:
  "\<exists>t' tr. map_window table2 0x200 = Some (t', tr) \<and> table_ok (windows t') \<and> mapping_changed tr"
proof -
  have "in_state (windows table2) Unmapped 0x200" using table2_lookup(4) by (auto simp: in_state_def)
  then show ?thesis using map_window_correct [OF table2_ok, of "0x200"] by blast
qed

text \<open>
  C7. \<open>unmap_window\<close> returns, leaves a sound table in which the window, unless it is the root, is
  unmapped, and reports exactly the windows that stopped being viewable, children before
  parents.
\<close>

theorem unmap_window_correct:
  assumes "table_ok (windows t)"
  shows "\<exists>t' tr. unmap_window t i = Some (t', tr) \<and> table_ok (windows t')
    \<and> delta_exact (windows t) (windows t') (delta tr) \<and> shape (windows t') = shape (windows t)
    \<and> (i \<noteq> ROOT_WINDOW \<and> windows t i \<noteq> None \<longrightarrow> in_state (windows t') Unmapped i)
    \<and> (mapping_changed tr \<longleftrightarrow> i \<noteq> ROOT_WINDOW \<and> windows t i \<noteq> None \<and> \<not> in_state (windows t) Unmapped i)"
  by (rule unmap_window_ok [OF assms])

theorem unmap_window_correct_witness:
  "\<exists>t' tr. unmap_window table2 0x201 = Some (t', tr) \<and> in_state (windows t') Unmapped 0x201"
proof -
  have "windows table2 0x201 \<noteq> None" using table2_lookup(5) by auto
  then show ?thesis using unmap_window_correct [OF table2_ok, of "0x201"] by auto
qed

text \<open>
  The bounded walk of \<open>is_descendant_of\<close> decides whether a window is a proper inferior of
  another: on a sound table its bound, the number of windows, never cuts a walk short.
\<close>

theorem is_descendant_of_correct:
  assumes "table_ok ws" and "ws k \<noteq> None"
  shows "is_descendant_of ws k a \<longleftrightarrow> (k, a) \<in> (child_rel (shape ws))\<^sup>+"
  using assms by (intro is_descendant_of_iff) (auto dest: table_okD)

theorem is_descendant_of_correct_witness:
  "is_descendant_of (windows table2) 0x201 0x200 \<longleftrightarrow> (0x201, 0x200) \<in> (child_rel (shape (windows table2)))\<^sup>+"
  by (rule is_descendant_of_correct [OF table2_ok]) (use table2_lookup in auto)

text \<open>
  C8. \<open>reparent_window\<close> returns on a sound table. It refuses with \<open>BadMatch\<close> exactly the root,
  the window itself and its inferiors as new parent, with \<open>BadWindow\<close> an unknown window; otherwise
  the window hangs under its new parent, the table is sound (no cycle can be made) and the
  viewability changes of the whole subtree are reported exactly.
\<close>

theorem reparent_window_correct:
  assumes "table_ok (windows t)"
  shows "case reparent_window t r of
      None \<Rightarrow> False
    | Some (Inl BadMatch) \<Rightarrow> rp_window r = ROOT_WINDOW \<or> rp_window r = rp_parent r
        \<or> (rp_parent r, rp_window r) \<in> (child_rel (shape (windows t)))\<^sup>+
    | Some (Inl BadWindow) \<Rightarrow> windows t (rp_window r) = None \<or> windows t (rp_parent r) = None
    | Some (Inr (t', res)) \<Rightarrow> table_ok (windows t') \<and> delta_exact (windows t) (windows t') (rr_delta res)
        \<and> (\<exists>cs. shape (windows t') (rp_window r) = Some (rp_parent r, cs))
        \<and> (rp_parent r, rp_window r) \<notin> (child_rel (shape (windows t)))\<^sup>*"
proof (cases "check_reparent_window (windows t) r")
  case (Inr u)
  note tt = table_okD [OF assms]
  obtain w pw where "rp_parent r \<notin> subtree (shape (windows t)) (rp_window r)" by (rule check_reparent_ok [OF tt(1) Inr])
  then show ?thesis using reparent_window_ok [OF assms Inr] by (auto simp: subtree_def)
next
  case (Inl e)
  then have "reparent_window t r = Some (Inl e)" by (simp add: reparent_window_def)
  then show ?thesis
    using Inl is_descendant_of_iff [OF table_okD(1) [OF assms], of "rp_parent r" "rp_window r"]
      not_descendant [OF table_okD(1) [OF assms], of "rp_parent r" "rp_window r"]
    by (auto simp: check_reparent_window_def split: if_splits)
qed

theorem reparent_window_correct_witness:
  "case reparent_window table2 \<lparr>rp_window = 0x201, rp_parent = ROOT_WINDOW, rp_x = 0, rp_y = 0\<rparr> of
      None \<Rightarrow> False
    | Some (Inl BadMatch) \<Rightarrow> (ROOT_WINDOW, 0x201) \<in> (child_rel (shape (windows table2)))\<^sup>+
    | Some (Inl BadWindow) \<Rightarrow> windows table2 0x201 = None \<or> windows table2 ROOT_WINDOW = None
    | Some (Inr (t', res)) \<Rightarrow> table_ok (windows t')"
  using reparent_window_correct [OF table2_ok, of "\<lparr>rp_window = 0x201, rp_parent = ROOT_WINDOW, rp_x = 0, rp_y = 0\<rparr>"]
  by (auto split: option.splits sum.splits reparent_window_error.splits)



text \<open>
  Restacking, in any stack mode, changes nothing but the order of the window among its
  siblings, and keeps the composite overlay window on top when it is not the window moved (the
  handler refuses a sibling that is the window itself).
\<close>

theorem restack_keeps_overlay_on_top:
  assumes t: "table_ok ws" and i: "i \<noteq> COMPOSITE_OVERLAY_WINDOW" "sib \<noteq> Some i"
    and r: "ws ROOT_WINDOW = Some r" "cow_on_top (children r)"
  shows "\<exists>r'. restack_window ws i sib mode ROOT_WINDOW = Some r' \<and> cow_on_top (children r')
      \<and> set (children r') = set (children r) \<and> distinct (children r')"
    (is "\<exists>r'. ?ws ROOT_WINDOW = Some r' \<and> _")
proof (cases rule: restack_window_cases [of ws i sib mode])
  case 1
  then show ?thesis using r tree_distinct [OF table_okD(1) [OF t], of ROOT_WINDOW] by (simp add: shape_def)
next
  case (2 w p index a m)
  have d: "distinct (children q)" if "ws k = Some q" for k q
    using tree_distinct [OF table_okD(1) [OF t], of k] that by (simp add: shape_def)
  show ?thesis
  proof (cases "parent w = ROOT_WINDOW")
    case False
    then show ?thesis using 2(6) r d [OF r(1)] by simp
  next
    case True
    then have pr: "p = r" using 2(3) r(1) by simp
    have "s \<in> set (children p) \<and> s \<noteq> i" if "a = AboveSibling s \<or> a = BelowSibling s" for s
      using 2(3,5) that i(2) by (auto simp: resolve_restack_action_def split: option.splits if_splits)
    then have "cow_on_top (restack_children a i index (children p))"
      using cow_restack [OF 2(4) d [OF 2(3)] _ i(1)] r(2) pr by blast
    then show ?thesis using 2(6) True pr restack_children_perm [OF 2(4) d [OF 2(3)]] by simp
  qed
qed

theorem restack_keeps_overlay_on_top_witness:
  "\<exists>r'. restack_window (windows table2) 0x200 None (Some 1) ROOT_WINDOW = Some r' \<and> cow_on_top (children r')"
proof -
  obtain r where "windows table2 ROOT_WINDOW = Some r" "children r = [0x200]" using table2_lookup(6) by auto
  then show ?thesis
    using restack_keeps_overlay_on_top [OF table2_ok, of "0x200" None r "Some 1"] by (auto simp: cow_on_top_def)
qed

text \<open>
  The two hit tests agree: translating a point into a window's content space and testing the
  border-inclusive box there is the same as testing its bounding box in the parent, for windows
  and points whose \<open>INT16\<close> differences do not wrap; and translating a point down and up again is
  the identity, wrapping or not.
\<close>

theorem hit_tests_agree:
  assumes "uint (wwidth w) + uint (border_width w) \<le> i16_max" and "uint (wheight w) + uint (border_width w) \<le> i16_max"
    and "i16_min \<le> sint px - sint (wx w) - uint (border_width w)" and "sint px - sint (wx w) - uint (border_width w) \<le> i16_max"
    and "i16_min \<le> sint py - sint (wy w) - uint (border_width w)" and "sint py - sint (wy w) - uint (border_width w) \<le> i16_max"
  shows "((case to_content_coords w px py of (cx, cy) \<Rightarrow> outer_contains_content_point w cx cy) \<longleftrightarrow>
      (case window_bounding_box w of (x0, y0, x1, y1) \<Rightarrow> x0 \<le> sint px \<and> sint px < x1 \<and> y0 \<le> sint py \<and> sint py < y1))
    \<and> (case to_content_coords w qx qy of (cx, cy) \<Rightarrow> to_parent_coords w cx cy) = (qx, qy)
    \<and> (case to_parent_coords w qx qy of (cx, cy) \<Rightarrow> to_content_coords w cx cy) = (qx, qy)"
  using hit_test_agrees [OF assms] by (simp add: to_content_coords_def to_parent_coords_def Let_def)

theorem hit_tests_agree_witness:
  "(case to_content_coords root_window 5 7 of (cx, cy) \<Rightarrow> outer_contains_content_point root_window cx cy) \<longleftrightarrow>
   (case window_bounding_box root_window of (x0, y0, x1, y1) \<Rightarrow> x0 \<le> sint (5 :: i16) \<and> sint (5 :: i16) < x1 \<and> y0 \<le> sint (7 :: i16) \<and> sint (7 :: i16) < y1)"
  using hit_tests_agree [of root_window 5 7] by (simp add: root_window_def)

text \<open>
  Screen positions compose: a window's absolute position is its parent's plus its own
  offset and border width, down to the depth limit of the walk.
\<close>

theorem absolute_position_composes:
  assumes "table_ok ws" and "at_depth (shape ws) (Suc d) k" and "d < 256" and "ws k = Some w"
  shows "window_absolute_position ws k =
    (fst (window_absolute_position ws (parent w)) + sint (wx w) + uint (border_width w),
     snd (window_absolute_position ws (parent w)) + sint (wy w) + uint (border_width w))"
  by (rule absolute_position_step [OF assms])

theorem absolute_position_composes_witness:
  "\<exists>w. windows table2 0x201 = Some w \<and> window_absolute_position (windows table2) 0x201 =
    (fst (window_absolute_position (windows table2) 0x200) + sint (wx w) + uint (border_width w),
     snd (window_absolute_position (windows table2) 0x200) + sint (wy w) + uint (border_width w))"
proof -
  obtain w v where w: "windows table2 0x201 = Some w" "parent w = 0x200"
      and v: "windows table2 0x200 = Some v" "parent v = ROOT_WINDOW"
    using table2_lookup(4,5) by auto
  then have "at_depth (shape (windows table2)) (Suc (Suc 0)) 0x201" by (simp add: shape_def)
  then show ?thesis using absolute_position_composes [OF table2_ok _ _ w(1)] w by simp
qed

end
