(* ===== verification/Resource_Inv.thy ===== *)
theory Resource_Inv
  imports Cleanup Tree_Props
begin

text \<open>
  The invariants of the resource table under all of its operations: exact reference counts of
  fonts and host glyph sets, well-formed graphics contexts, and the window tree. The window
  operations change only the windows and the dropped cursors; the others change the windows'
  attributes at most.
\<close>

section \<open>Frames\<close>

definition same_counted :: "resource_table \<Rightarrow> resource_table \<Rightarrow> bool" where
  "same_counted t t' \<longleftrightarrow> fonts t' = fonts t \<and> gcs t' = gcs t \<and> default_font t' = default_font t
     \<and> font_objects t' = font_objects t \<and> next_font_ref t' = next_font_ref t
     \<and> released_fonts t' = released_fonts t
     \<and> glyphsets t' = glyphsets t \<and> host_glyphset_refcounts t' = host_glyphset_refcounts t"

lemma fonts_with_cong:
  assumes "fonts t' = fonts t" "gc_fonts t' = gc_fonts t" "default_font t' = default_font t"
    "font_objects t' = font_objects t" "next_font_ref t' = next_font_ref t"
  shows "fonts_with P t' \<longleftrightarrow> fonts_with P t"
  using assms by (simp add: fonts_with_def font_users_def font_count_def)

lemma same_countedD:
  assumes "same_counted t t'"
  shows "fonts_with P t' \<longleftrightarrow> fonts_with P t" "glyphs_with Q t' \<longleftrightarrow> glyphs_with Q t" "gcs_ok t' \<longleftrightarrow> gcs_ok t"
    "owed_fonts t' = owed_fonts t"
proof -
  have g: "gc_fonts t' = gc_fonts t" "glyph_hosts t' = glyph_hosts t"
    using assms by (simp_all add: same_counted_def gc_fonts_def glyph_hosts_def)
  show "fonts_with P t' \<longleftrightarrow> fonts_with P t"
    by (rule fonts_with_cong) (use assms g in \<open>simp_all add: same_counted_def\<close>)
  show "glyphs_with Q t' \<longleftrightarrow> glyphs_with Q t" "gcs_ok t' \<longleftrightarrow> gcs_ok t" "owed_fonts t' = owed_fonts t"
    using assms g by (simp_all add: same_counted_def glyphs_with_def gcs_ok_def owed_fonts_def live_hosts_def)
qed

lemma same_counted_windows: "same_counted t (t\<lparr>windows := ws, dropped_cursor_hosts := d\<rparr>)"
  by (simp add: same_counted_def)

lemma table_step_frame: "table_step t t' \<Longrightarrow> same_counted t t'"
  by (erule table_step.cases)
    (auto simp: same_counted_def create_window_def materialize_cow_resource_def change_window_attributes_def
      configure_window_def apply_win_gravity_def map_window_def unmap_window_def reparent_window_def
      apply_destroy_def Let_def case_prod_unfold split: option.splits if_splits sum.splits Option.bind_splits prod.splits)

text \<open>Changing attributes that are neither links nor map states keeps the tree.\<close>

lemma map_windows_ok:
  assumes "table_ok ws" "\<And>w. parent (f w) = parent w \<and> children (f w) = children w \<and> map_state (f w) = map_state w"
  shows "table_ok (\<lambda>i. map_option f (ws i))"
  by (rule table_ok_frame [OF assms(1)])
    (use assms(2) in \<open>auto simp: shape_def in_state_def fun_eq_iff option.map_comp comp_def split: option.splits\<close>)

lemma modify_window_table_ok:
  assumes "table_ok ws" "\<And>w. parent (f w) = parent w \<and> children (f w) = children w \<and> map_state (f w) = map_state w"
  shows "table_ok (modify_window i f ws)"
  by (rule table_ok_frame [OF assms(1)])
    (use assms(2) in \<open>auto simp: shape_def in_state_def fun_eq_iff option.map_comp comp_def tree_simps split: option.splits\<close>)

section \<open>Removing entries from a map\<close>

lemma set_extract_if: "(i, x) \<in> set (extract_if p keys m) \<longleftrightarrow> i \<in> set keys \<and> m i = Some x \<and> p x"
  by (force simp: extract_if_def split: Option.bind_splits if_splits)

lemma drop_if_Some: "drop_if p m i = Some x \<longleftrightarrow> m i = Some x \<and> \<not> p x"
  by (cases "m i") (auto simp: drop_if_def)

definition hits :: "('a \<Rightarrow> bool) \<Rightarrow> ('a \<Rightarrow> 'k option) \<Rightarrow> 'k \<Rightarrow> 'a option \<Rightarrow> bool" where
  "hits p f k v \<longleftrightarrow> (\<exists>x. v = Some x \<and> p x \<and> f x = Some k)"

lemma count_extracted:
  "count (mset (flatten (map (\<lambda>x. f (snd x)) (extract_if p keys m)))) k = length (filter (\<lambda>i. hits p f k (m i)) keys)"
proof (induction keys)
  case (Cons i keys)
  have "extract_if p (i # keys) m =
      (case m i of Some x \<Rightarrow> if p x then [(i, x)] else [] | None \<Rightarrow> []) @ extract_if p keys m"
    by (cases "m i") (simp_all add: extract_if_def flatten_def List.map_filter_simps)
  then show ?case using Cons.IH
    by (cases "m i") (auto simp: hits_def flatten_def List.map_filter_simps split: option.splits)
qed (simp add: extract_if_def flatten_def List.map_filter_simps)

lemma occ_drop_if:
  assumes "distinct keys" "set keys = dom m"
  shows "occ (\<lambda>i. Option.bind (m i) f) k = occ (\<lambda>i. Option.bind (drop_if p m i) f) k
    + count (mset (flatten (map (\<lambda>x. f (snd x)) (extract_if p keys m)))) k"
proof -
  let ?A = "{i. Option.bind (drop_if p m i) f = Some k}" and ?B = "{i \<in> set keys. hits p f k (m i)}"
  have "{i. Option.bind (m i) f = Some k} = ?A \<union> ?B"
    unfolding assms(2) by (auto simp: drop_if_def hits_def bind_eq_Some_conv split: if_splits)
  moreover have "?A \<inter> ?B = {}" by (auto simp: drop_if_def hits_def bind_eq_Some_conv)
  moreover have "card ?B = length (filter (\<lambda>i. hits p f k (m i)) keys)"
    using distinct_card [of "filter (\<lambda>i. hits p f k (m i)) keys"] assms(1) by simp
  ultimately show ?thesis by (simp add: occ_def count_extracted card_Un_disjoint)
qed

section \<open>A client's fonts and glyph sets\<close>

lemma unref_fonts_with: "fonts_with (mset ks + P) t \<Longrightarrow> fonts_with P (unref_fonts t ks)"
  by (induction t ks rule: unref_fonts.induct) (simp_all add: unref_font_with)

lemma unref_fonts_owed: "fonts_with (mset ks + P) t \<Longrightarrow> owed_fonts (unref_fonts t ks) = owed_fonts t"
  by (induction t ks rule: unref_fonts.induct) (simp_all add: unref_font_with unref_font_owed fonts_finite)

lemma close_fonts_ok: "fonts_ok t \<Longrightarrow> fonts_ok (close_fonts t is) \<and> owed_fonts (close_fonts t is) = owed_fonts t"
  by (induction t "is" rule: close_fonts.induct) (simp_all add: close_font_ok close_font_owed)

lemma remove_gcs_with:
  assumes "fonts_ok t" "distinct keys" "set keys = dom (gcs t)"
  shows "fonts_with (mset (fst (snd (remove_gcs_of t keys cl)))) (fst (remove_gcs_of t keys cl))"
proof -
  let ?t' = "t\<lparr>gcs := drop_if (\<lambda>g. gc_owner g = cl) (gcs t)\<rparr>"
  let ?refs = "flatten (map (\<lambda>x. gc_font (snd x)) (extract_if (\<lambda>g. gc_owner g = cl) keys (gcs t)))"
  have "font_users t k = font_users ?t' k + count (mset ?refs) k" for k
    using occ_drop_if [OF assms(2,3), of gc_font k "\<lambda>g. gc_owner g = cl"]
    by (simp add: font_users_def gc_fonts_def)
  then have "fonts_with (mset ?refs) ?t'" using assms(1) by (simp add: fonts_with_def font_count_def)
  then show ?thesis by (simp add: remove_gcs_of_def Let_def comp_def)
qed

lemma release_glyphs_with: "glyphs_with (mset hs + P) t \<Longrightarrow> glyphs_with P (fst (release_glyphs t hs))"
proof (induction hs arbitrary: t)
  case (Cons h hs)
  have "glyphs_with (mset hs + P) (fst (release_host_glyphset_ref t h))"
    by (rule release_ref_with) (use Cons.prems in simp)
  from Cons.IH [OF this] show ?case by (simp add: case_prod_unfold)
qed simp

text \<open>Each host glyph set without a user left is freed once, no other is.\<close>

lemma release_glyphs_freed:
  "glyphs_with (mset hs + P) t \<Longrightarrow>
    count (mset (snd (release_glyphs t hs))) h = (if h \<in> set hs \<and> occ (glyph_hosts t) h + count P h = 0 then 1 else 0)"
proof (induction hs arbitrary: t)
  case (Cons x hs)
  let ?t1 = "fst (release_host_glyphset_ref t x)"
  have p: "glyphs_with (add_mset x (mset hs + P)) t" using Cons.prems by simp
  have last: "snd (release_host_glyphset_ref t x) \<longleftrightarrow> occ (glyph_hosts t) x + count (mset hs + P) x = 0"
    by (rule release_ref_last [OF p])
  have IH: "count (mset (snd (release_glyphs ?t1 hs))) h = (if h \<in> set hs \<and> occ (glyph_hosts ?t1) h + count P h = 0 then 1 else 0)"
    by (rule Cons.IH [OF release_ref_with [OF p]])
  have c: "count (mset (snd (release_glyphs t (x # hs)))) h =
      (if snd (release_host_glyphset_ref t x) \<and> x = h then 1 else 0) + count (mset (snd (release_glyphs ?t1 hs))) h"
    by (auto simp: case_prod_unfold)
  show ?case
  proof (cases "x = h")
    case True
    then have "snd (release_host_glyphset_ref t x) \<longleftrightarrow> h \<notin> set hs \<and> occ (glyph_hosts t) h + count P h = 0"
      using last count_eq_zero_iff [of "mset hs" h] by (auto simp del: count_eq_zero_iff)
    then show ?thesis unfolding c IH using True by (auto simp flip: count_greater_zero_iff)
  next
    case False
    then show ?thesis unfolding c IH by simp
  qed
qed simp

lemma remove_glyphsets_with:
  assumes "glyphs_ok t" "distinct keys" "set keys = dom (glyphsets t)"
  shows "glyphs_with (mset (map (\<lambda>x. host_glyphset_xid (snd x)) (extract_if (\<lambda>g. gs_client g = cl) keys (glyphsets t))))
    (t\<lparr>glyphsets := drop_if (\<lambda>g. gs_client g = cl) (glyphsets t)\<rparr>)"
proof -
  let ?t' = "t\<lparr>glyphsets := drop_if (\<lambda>g. gs_client g = cl) (glyphsets t)\<rparr>"
  let ?e = "extract_if (\<lambda>g. gs_client g = cl) keys (glyphsets t)"
  have g: "glyph_hosts s = (\<lambda>i. Option.bind (glyphsets s i) (\<lambda>x. Some (host_glyphset_xid x)))" for s
    by (simp add: glyph_hosts_def map_option_case bind_map_option fun_eq_iff split: option.splits)
  have f: "flatten (map (\<lambda>x. Some (host_glyphset_xid (snd x))) ?e) = map (\<lambda>x. host_glyphset_xid (snd x)) ?e"
    by (simp add: flatten_def List.map_filter_def comp_def)
  have "occ (glyph_hosts t) k = occ (glyph_hosts ?t') k + count (mset (map (\<lambda>x. host_glyphset_xid (snd x)) ?e)) k" for k
    using occ_drop_if [OF assms(2,3), of "\<lambda>x. Some (host_glyphset_xid x)" k "\<lambda>g. gs_client g = cl"]
    unfolding g f by simp
  then show ?thesis using assms(1) by (simp add: glyphs_with_def)
qed

section \<open>Removing a client\<close>

text \<open>The fields the loops leave alone.\<close>

lemma unref_font_frame [simp]:
  "windows (unref_font t k) = windows t" "pixmaps (unref_font t k) = pixmaps t" "gcs (unref_font t k) = gcs t"
  "cursors (unref_font t k) = cursors t" "colormaps (unref_font t k) = colormaps t"
  "pictures (unref_font t k) = pictures t" "glyphsets (unref_font t k) = glyphsets t"
  "host_glyphset_refcounts (unref_font t k) = host_glyphset_refcounts t"
  "dri3_syncobjs (unref_font t k) = dri3_syncobjs t"
  "dropped_cursor_hosts (unref_font t k) = dropped_cursor_hosts t"
  by (simp_all add: unref_font_def Let_def split: option.splits)

definition same_but_fonts :: "resource_table \<Rightarrow> resource_table \<Rightarrow> bool" where
  "same_but_fonts t t' \<longleftrightarrow> windows t' = windows t \<and> pixmaps t' = pixmaps t \<and> gcs t' = gcs t \<and> cursors t' = cursors t
     \<and> colormaps t' = colormaps t \<and> pictures t' = pictures t \<and> glyphsets t' = glyphsets t
     \<and> host_glyphset_refcounts t' = host_glyphset_refcounts t \<and> dri3_syncobjs t' = dri3_syncobjs t
     \<and> dropped_cursor_hosts t' = dropped_cursor_hosts t"

lemma unref_fonts_frame: "same_but_fonts t (unref_fonts t ks)"
  by (induction t ks rule: unref_fonts.induct) (simp_all add: same_but_fonts_def)

lemma close_fonts_frame: "same_but_fonts t (close_fonts t is)"
proof (induction t "is" rule: close_fonts.induct)
  case (2 t i "is")
  moreover have "same_but_fonts t (fst (close_font t i))"
    by (simp add: same_but_fonts_def close_font_def split: option.splits)
  ultimately show ?case by (simp add: same_but_fonts_def)
qed (simp add: same_but_fonts_def)

lemma release_glyphs_frame:
  "\<exists>c. fst (release_glyphs t hs) = t\<lparr>host_glyphset_refcounts := c\<rparr>"
proof (induction hs arbitrary: t)
  case Nil
  show ?case by (rule exI [of _ "host_glyphset_refcounts t"]) simp
next
  case (Cons h hs)
  have "\<exists>c. fst (release_host_glyphset_ref t h) = t\<lparr>host_glyphset_refcounts := c\<rparr>"
  proof (cases "host_glyphset_refcounts t h")
    case None
    then show ?thesis by (intro exI [of _ "host_glyphset_refcounts t"]) (simp add: release_host_glyphset_ref_def)
  next
    case (Some n)
    then show ?thesis by (cases "n > 1") (auto simp: release_host_glyphset_ref_def)
  qed
  then obtain c where c: "fst (release_host_glyphset_ref t h) = t\<lparr>host_glyphset_refcounts := c\<rparr>" by blast
  then show ?case using Cons.IH [of "t\<lparr>host_glyphset_refcounts := c\<rparr>"] by (auto simp: case_prod_unfold)
qed

text \<open>The states between the phases of the removal.\<close>

definition after_cursors :: "resource_table \<Rightarrow> table_order \<Rightarrow> u32 \<Rightarrow> resource_table" where
  "after_cursors t od cl =
     (let t2 = fst (remove_gcs_of (fst (remove_pixmaps_of t (ord_pixmaps od) cl)) (ord_gcs od) cl)
      in fst (remove_cursors_of (t2\<lparr>colormaps := drop_if (\<lambda>c. cm_owner c = cl) (colormaps t2)\<rparr>) (ord_cursors od) cl))"

definition after_fonts :: "resource_table \<Rightarrow> table_order \<Rightarrow> u32 \<Rightarrow> resource_table" where
  "after_fonts t od cl =
     (let t5 = unref_fonts (after_cursors t od cl)
                 (fst (snd (remove_gcs_of (fst (remove_pixmaps_of t (ord_pixmaps od) cl)) (ord_gcs od) cl)))
      in close_fonts t5 (font_ids_owned_by t5 (ord_fonts od) cl))"

lemma after_fonts_frame: "same_but_fonts (after_cursors t od cl) (after_fonts t od cl)"
proof -
  let ?t4 = "after_cursors t od cl"
  let ?t5 = "unref_fonts ?t4 (fst (snd (remove_gcs_of (fst (remove_pixmaps_of t (ord_pixmaps od) cl)) (ord_gcs od) cl)))"
  have "same_but_fonts ?t4 ?t5" "same_but_fonts ?t5 (after_fonts t od cl)"
    unfolding after_fonts_def Let_def by (rule unref_fonts_frame, rule close_fonts_frame)
  then show ?thesis by (simp add: same_but_fonts_def)
qed

lemma remove_glyphsets_frame:
  "\<exists>c. fst (remove_glyphsets_of t keys cl) =
    t\<lparr>glyphsets := drop_if (\<lambda>g. gs_client g = cl) (glyphsets t), host_glyphset_refcounts := c\<rparr>"
  unfolding remove_glyphsets_of_def by (rule release_glyphs_frame)

lemma removal_phases:
  fixes t od cl
  defines "r \<equiv> remove_non_window_resources_owned_by t od cl"
  defines "t8 \<equiv> (after_fonts t od cl)\<lparr>released_fonts := [],
    pictures := drop_if (\<lambda>p. pic_client p = cl) (pictures (after_fonts t od cl))\<rparr>"
  defines "g \<equiv> remove_glyphsets_of t8 (ord_glyphsets od) cl"
  shows "fst r = (fst g)\<lparr>dri3_syncobjs := drop_if (\<lambda>own. own = cl) (dri3_syncobjs (fst g))\<rparr>"
    and "closed_fonts (snd r) = released_fonts (after_fonts t od cl)"
    and "freed_glyphsets (snd r) = snd g"
  unfolding r_def g_def t8_def
  by (simp_all add: remove_non_window_resources_owned_by_def after_fonts_def after_cursors_def
      take_released_fonts_def Let_def case_prod_unfold)

lemma after_cursors_fields:
  fixes t od cl
  defines "s \<equiv> after_cursors t od cl"
  shows "gcs s = drop_if (\<lambda>g. gc_owner g = cl) (gcs t)"
    and "pixmaps s = drop_if (\<lambda>p. pm_owner p = cl) (pixmaps t)"
    and "colormaps s = drop_if (\<lambda>c. cm_owner c = cl) (colormaps t)"
    and "cursors s = drop_if (\<lambda>c. cur_owner c = cl) (cursors t)"
    and "fonts s = fonts t" "font_objects s = font_objects t" "default_font s = default_font t"
    and "next_font_ref s = next_font_ref t" "released_fonts s = released_fonts t"
    and "glyphsets s = glyphsets t" "host_glyphset_refcounts s = host_glyphset_refcounts t"
    and "pictures s = pictures t" "dri3_syncobjs s = dri3_syncobjs t"
    and "\<exists>f. windows s = (\<lambda>i. map_option f (windows t i)) \<and> (\<forall>w. \<exists>l. f w = w\<lparr>composite_named_pixmaps := l\<rparr>)"
proof -
  have "\<exists>f. windows t = (\<lambda>i. map_option f (windows t i)) \<and> (\<forall>w. \<exists>l. f w = w\<lparr>composite_named_pixmaps := l\<rparr>)"
  proof (intro exI [of _ id] conjI allI)
    show "\<exists>l. id w = w\<lparr>composite_named_pixmaps := l\<rparr>" for w :: window
      by (rule exI [of _ "composite_named_pixmaps w"]) simp
  qed (simp add: option.map_id)
  then show "\<exists>f. windows s = (\<lambda>i. map_option f (windows t i)) \<and> (\<forall>w. \<exists>l. f w = w\<lparr>composite_named_pixmaps := l\<rparr>)"
    unfolding s_def after_cursors_def remove_pixmaps_of_def remove_gcs_of_def remove_cursors_of_def Let_def
    by (auto simp: forget_composite_names_def)
qed (simp_all add: s_def after_cursors_def remove_pixmaps_of_def remove_gcs_of_def remove_cursors_of_def
    forget_composite_names_def Let_def)

lemma removal_inv:
  fixes cl :: u32
  assumes f: "fonts_ok t" and g: "glyphs_ok t" and x: "gcs_ok t" and w: "table_ok (windows t)" and od: "orders od t"
  defines "r \<equiv> remove_non_window_resources_owned_by t od cl"
  shows "fonts_ok (fst r)" "glyphs_ok (fst r)" "gcs_ok (fst r)" "table_ok (windows (fst r))"
    and "owed_fonts t = owed_fonts (fst r) + mset (closed_fonts (snd r))"
proof -
  let ?t1 = "fst (remove_pixmaps_of t (ord_pixmaps od) cl)"
  let ?refs = "fst (snd (remove_gcs_of ?t1 (ord_gcs od) cl))"
  let ?t4 = "after_cursors t od cl" and ?t5 = "unref_fonts (after_cursors t od cl) ?refs" and ?t6 = "after_fonts t od cl"
  let ?t8 = "?t6\<lparr>released_fonts := [], pictures := drop_if (\<lambda>p. pic_client p = cl) (pictures ?t6)\<rparr>"
  let ?g = "remove_glyphsets_of ?t8 (ord_glyphsets od) cl"
  have t1: "same_counted t ?t1"
    by (simp add: same_counted_def remove_pixmaps_of_def forget_composite_names_def Let_def)
  have "fonts_with (mset ?refs) (fst (remove_gcs_of ?t1 (ord_gcs od) cl))"
    by (rule remove_gcs_with) (use f t1 od in \<open>auto simp: same_countedD(1) [OF t1] orders_def same_counted_def\<close>)
  moreover have "fonts_with P ?t4 \<longleftrightarrow> fonts_with P (fst (remove_gcs_of ?t1 (ord_gcs od) cl))" for P
    by (rule fonts_with_cong) (simp_all add: after_cursors_def remove_cursors_of_def gc_fonts_def Let_def)
  ultimately have t4: "fonts_with (mset ?refs) ?t4" by simp
  have o4: "owed_fonts ?t4 = owed_fonts t"
    by (simp add: owed_fonts_def live_hosts_def after_cursors_fields)
  have t5: "fonts_ok ?t5" "owed_fonts ?t5 = owed_fonts t"
    using unref_fonts_with [of ?refs "{#}" ?t4] unref_fonts_owed [of ?refs "{#}" ?t4] t4 o4 by simp_all
  have t6: "fonts_ok ?t6" "owed_fonts ?t6 = owed_fonts t"
    using close_fonts_ok [OF t5(1)] t5(2) by (simp_all add: after_fonts_def Let_def)
  note s6 = after_fonts_frame [of t od cl]
  have gl8: "glyphsets ?t8 = glyphsets t" "host_glyphset_refcounts ?t8 = host_glyphset_refcounts t"
    using s6 by (simp_all add: same_but_fonts_def after_cursors_fields)
  then have g8: "glyphs_ok ?t8" using g by (simp add: glyphs_with_def glyph_hosts_def)
  have g9: "glyphs_ok (fst ?g)"
    unfolding remove_glyphsets_of_def
    by (rule release_glyphs_with [of _ "{#}", simplified])
      (rule remove_glyphsets_with [OF g8], use od gl8 in \<open>simp_all add: orders_def\<close>)
  obtain c where c: "fst ?g = ?t8\<lparr>glyphsets := drop_if (\<lambda>g. gs_client g = cl) (glyphsets ?t8), host_glyphset_refcounts := c\<rparr>"
    using remove_glyphsets_frame by blast
  have r: "fst r = (fst ?g)\<lparr>dri3_syncobjs := drop_if (\<lambda>own. own = cl) (dri3_syncobjs (fst ?g))\<rparr>"
    "closed_fonts (snd r) = released_fonts ?t6"
    unfolding r_def by (rule removal_phases)+
  show "glyphs_ok (fst r)" using g9 unfolding r(1) by (simp add: glyphs_with_def glyph_hosts_def)
  have same: "fonts (fst r) = fonts ?t6" "gcs (fst r) = gcs ?t6" "default_font (fst r) = default_font ?t6"
    "font_objects (fst r) = font_objects ?t6" "next_font_ref (fst r) = next_font_ref ?t6"
    "windows (fst r) = windows ?t6" "released_fonts (fst r) = []"
    unfolding r(1) c by simp_all
  show "fonts_ok (fst r)" using t6(1) fonts_with_cong [OF same(1) _ same(3-5)] same(2) by (simp add: gc_fonts_def)
  show "owed_fonts t = owed_fonts (fst r) + mset (closed_fonts (snd r))"
    unfolding t6(2) [symmetric] r(2) by (simp add: owed_fonts_def live_hosts_def same)
  have "gcs (fst r) = drop_if (\<lambda>g. gc_owner g = cl) (gcs t)"
    using s6 same(2) by (simp add: same_but_fonts_def after_cursors_fields)
  then show "gcs_ok (fst r)" using x by (auto simp: gcs_ok_def drop_if_Some)
  obtain h where h: "windows ?t4 = (\<lambda>i. map_option h (windows t i))" "\<forall>v. \<exists>l. h v = v\<lparr>composite_named_pixmaps := l\<rparr>"
    using after_cursors_fields(14) by blast
  have "parent (h v) = parent v \<and> children (h v) = children v \<and> map_state (h v) = map_state v" for v
    using h(2) [rule_format, of v] by auto
  from map_windows_ok [OF w this] show "table_ok (windows (fst r))"
    using s6 h(1) same(6) by (simp add: same_but_fonts_def)
qed

section \<open>The table under all operations\<close>

inductive resource_step :: "resource_table \<Rightarrow> resource_table \<Rightarrow> bool" where
  window_op: "table_step t t' \<Longrightarrow> resource_step t t'"
| install: "resource_step t (install_font t own i nam host ms)"
| close: "resource_step t (fst (close_font t i))"
| released: "resource_step t (fst (take_released_fonts t))"
| all_fonts: "resource_step t (fst (take_all_fonts t keys))"
| gc_font: "resource_step t (set_gc_font t g i)"
| new_gc: "gcs t (cg_gc r) = None \<Longrightarrow> resource_step t (create_gc t own r)"
| change_gc: "resource_step t (fst (change_gc t c))"
| copy_gc: "resource_step t (fst (copy_gc t src dst vm))"
| free_gc: "resource_step t (fst (free_gc t i))"
| dashes: "resource_step t (set_dashes t i off ds)"
| clip: "resource_step t (fst (set_clip_rectangles t sr))"
| clip_org: "resource_step t (set_gc_clip_origin t i x y)"
| unclip: "resource_step t (fst (clear_gc_clip t i))"
| glyphs: "resource_step t (create_glyphset t i s)"
| free_glyphs: "resource_step t (fst (free_glyphset t i))"
| ref_glyphs: "resource_step t (fst (reference_glyphset t cl i j))"
| disconnect: "orders od t \<Longrightarrow> resource_step t (fst (remove_non_window_resources_owned_by t od cl))"
| set_prop: "resource_step t (set_window_property t i atom v)"
| delete_prop: "resource_step t (fst (delete_window_property t i atom))"
| new_pixmap: "resource_step t (create_pixmap t own pr)"
| name_pixmap: "resource_step t (mark_pixmap_composite_name t i)"
| free_pixmap: "resource_step t (fst (free_pixmap t i))"
| host_pixmap: "resource_step t (fst (set_pixmap_host_xid t i h))"
| pixmap_size: "resource_step t (fst (update_pixmap_geometry t i wd ht dp))"
| defer_ref: "resource_step t (defer_name_ref t h)"
| drop_ref: "resource_step t (host_pixmap_freed t h)"
| new_picture: "resource_step t (create_picture t i ps)"
| free_picture: "resource_step t (fst (free_picture t i))"
| window_pictures: "resource_step t (fst (remove_pictures_on_windows t keys ws))"
| new_cursor: "resource_step t (create_cursor t own i)"
| glyph_cursor: "resource_step t (create_glyph_cursor t own i)"
| host_cursor: "resource_step t (set_cursor_host_xid t i h)"
| name_cursor: "resource_step t (set_cursor_name_atom t i atom)"
| retarget: "resource_step t (fst (retarget_cursor_host t h i))"
| unreferenced: "resource_step t (fst (take_unreferenced_cursor_hosts t))"
| free_cursor: "resource_step t (fst (free_cursor t i))"
| freed_host: "resource_step t (cursor_host_released t h)"
| anim_cursor: "resource_step t (set_cursor_anim t i)"
| new_sync: "resource_step t (fst (register_dri3_syncobj t i own))"
| free_sync: "resource_step t (fst (remove_dri3_syncobj t i))"
| visual_host: "resource_step t (fst (set_visual_host_xid t i h))"
| new_colormap: "resource_step t (create_colormap t own i vis)"
| colormap_host: "resource_step t (fst (set_colormap_host_xid t i h))"
| free_colormap: "resource_step t (fst (free_colormap t i))"

definition resources_ok :: "resource_table \<Rightarrow> bool" where
  "resources_ok t \<longleftrightarrow> fonts_ok t \<and> glyphs_ok t \<and> gcs_ok t \<and> table_ok (windows t)"

text \<open>Operations on the other maps.\<close>

lemma same_counted_ok: "resources_ok t \<Longrightarrow> same_counted t t' \<Longrightarrow> table_ok (windows t') \<Longrightarrow> resources_ok t'"
  by (simp add: resources_ok_def same_countedD)

lemmas plain_op_defs = create_pixmap_def mark_pixmap_composite_name_def modify_pixmap_def set_pixmap_host_xid_def
  update_pixmap_geometry_def defer_name_ref_def host_pixmap_freed_def create_picture_def free_picture_def
  remove_pictures_on_windows_def create_cursor_def create_glyph_cursor_def set_cursor_host_xid_def
  modify_cursor_def set_cursor_name_atom_def take_unreferenced_cursor_hosts_def free_cursor_def
  cursor_host_released_def set_cursor_anim_def register_dri3_syncobj_def remove_dri3_syncobj_def
  set_visual_host_xid_def create_colormap_def set_colormap_host_xid_def free_colormap_def

lemma plain_op_ok:
  assumes "resources_ok t" "same_counted t t' \<and> windows t' = windows t"
  shows "resources_ok t'"
  using assms(2) by (intro same_counted_ok [OF assms(1)]) (use assms(1) in \<open>auto simp: resources_ok_def\<close>)

lemma window_attribute_op_ok:
  assumes "resources_ok t" "same_counted t t'" "windows t' = (\<lambda>i. map_option (f i) (windows t i))"
    "\<And>i w. parent (f i w) = parent w \<and> children (f i w) = children w \<and> map_state (f i w) = map_state w"
  shows "resources_ok t'"
proof (rule same_counted_ok [OF assms(1,2)])
  have "table_ok (windows t)" using assms(1) by (simp add: resources_ok_def)
  then show "table_ok (windows t')" unfolding assms(3)
    by (rule table_ok_frame) (use assms(4) in \<open>auto simp: shape_def in_state_def fun_eq_iff option.map_comp comp_def split: option.splits\<close>)
qed

lemma gc_op_ok:
  assumes "resources_ok t" "fonts_ok t'" "gcs_ok t'" "windows t' = windows t" "glyphsets t' = glyphsets t"
    "host_glyphset_refcounts t' = host_glyphset_refcounts t"
  shows "resources_ok t'"
  using assms by (simp add: resources_ok_def glyphs_with_def glyph_hosts_def)

definition same_but_glyphs :: "resource_table \<Rightarrow> resource_table \<Rightarrow> bool" where
  "same_but_glyphs t t' \<longleftrightarrow> windows t' = windows t \<and> gcs t' = gcs t \<and> fonts t' = fonts t
     \<and> font_objects t' = font_objects t \<and> default_font t' = default_font t \<and> next_font_ref t' = next_font_ref t"

lemma glyph_op_ok:
  assumes "resources_ok t" "glyphs_ok t'" "same_but_glyphs t t'"
  shows "resources_ok t'"
proof -
  have "fonts_ok t' \<longleftrightarrow> fonts_ok t"
    by (rule fonts_with_cong) (use assms(3) in \<open>simp_all add: same_but_glyphs_def gc_fonts_def\<close>)
  then show ?thesis using assms by (simp add: resources_ok_def gcs_ok_def same_but_glyphs_def)
qed

lemma glyph_ops_same:
  "same_but_glyphs t (create_glyphset t i s)" "same_but_glyphs t (fst (free_glyphset t i))"
proof -
  have rel: "same_but_glyphs t (fst (release_host_glyphset_ref t h))" for t h
    by (simp add: same_but_glyphs_def release_host_glyphset_ref_def split: option.splits)
  show "same_but_glyphs t (create_glyphset t i s)"
    using rel [of "t\<lparr>glyphsets := (glyphsets t)(i := None)\<rparr>"]
    by (simp add: create_glyphset_def add_host_glyphset_ref_def Let_def same_but_glyphs_def split: option.splits)
  show "same_but_glyphs t (fst (free_glyphset t i))"
    using rel [of "t\<lparr>glyphsets := (glyphsets t)(i := None)\<rparr>"]
    by (simp add: free_glyphset_def same_but_glyphs_def case_prod_unfold split: option.splits)
qed

definition same_but_gcs :: "resource_table \<Rightarrow> resource_table \<Rightarrow> bool" where
  "same_but_gcs t t' \<longleftrightarrow> windows t' = windows t \<and> glyphsets t' = glyphsets t
     \<and> host_glyphset_refcounts t' = host_glyphset_refcounts t"

lemma font_ref_frame [simp]:
  "windows (ref_opt t v) = windows t" "glyphsets (ref_opt t v) = glyphsets t"
  "host_glyphset_refcounts (ref_opt t v) = host_glyphset_refcounts t"
  "windows (unref_opt t v) = windows t" "glyphsets (unref_opt t v) = glyphsets t"
  "host_glyphset_refcounts (unref_opt t v) = host_glyphset_refcounts t"
  by (cases v; simp add: ref_opt_def unref_opt_def ref_font_def split: option.splits)+

lemma font_slot_frame [simp]:
  "windows (set_gc_font_ref t g v) = windows t" "glyphsets (set_gc_font_ref t g v) = glyphsets t"
  "host_glyphset_refcounts (set_gc_font_ref t g v) = host_glyphset_refcounts t"
  "windows (set_font_slot_default t v) = windows t" "glyphsets (set_font_slot_default t v) = glyphsets t"
  "host_glyphset_refcounts (set_font_slot_default t v) = host_glyphset_refcounts t"
  by (simp_all add: set_gc_font_ref_def set_font_slot_default_def Let_def split: option.splits)

lemma gc_ops_same:
  "same_but_gcs t (install_font t own i nam host ms)"
  "same_but_gcs t (fst (close_font t i))" "same_but_gcs t (fst (take_released_fonts t))"
  "same_but_gcs t (fst (take_all_fonts t keys))" "same_but_gcs t (set_gc_font t g i)"
  "same_but_gcs t (create_gc t own r)" "same_but_gcs t (fst (change_gc t c))"
  "same_but_gcs t (fst (copy_gc t src dst vm))" "same_but_gcs t (fst (free_gc t i))"
  "same_but_gcs t (fst (modify_gc t i f))"
  unfolding same_but_gcs_def
  subgoal by (simp add: install_font_def Let_def)
  subgoal by (simp add: close_font_def split: option.splits)
  subgoal by (simp add: take_released_fonts_def)
  subgoal by (simp add: take_all_fonts_def)
  subgoal by (simp add: set_gc_font_def split: option.splits)
  subgoal by (simp add: create_gc_def Let_def)
  subgoal by (simp add: change_gc_def Let_def split: option.splits)
  subgoal by (simp add: copy_gc_def Let_def split: option.splits)
  subgoal by (simp add: free_gc_def split: option.splits)
  subgoal by (simp add: modify_gc_def split: option.splits)
  done

lemma same_but_gcs_ok:
  "resources_ok t \<Longrightarrow> same_but_gcs t t' \<Longrightarrow> fonts_ok t' \<Longrightarrow> gcs_ok t' \<Longrightarrow> resources_ok t'"
  by (rule gc_op_ok) (simp_all add: same_but_gcs_def)

lemma gcs_ok_cong: "gcs t' = gcs t \<Longrightarrow> gcs_ok t' = gcs_ok t"
  by (simp add: gcs_ok_def)

lemma font_ops_gcs:
  "gcs (install_font t own i nam host ms) = gcs t" "gcs (fst (close_font t i)) = gcs t"
  "gcs (fst (take_released_fonts t)) = gcs t"
  by (simp_all add: install_font_def set_font_slot_default_def close_font_def take_released_fonts_def Let_def
      split: option.splits)

lemma font_ops_gcs_ok:
  "gcs_ok t \<Longrightarrow> gcs_ok (fst (take_all_fonts t keys))" "gcs_ok t \<Longrightarrow> gcs_ok (set_gc_font t g i)"
  subgoal by (auto simp: gcs_ok_def take_all_fonts_def small_changes_ok)
  subgoal by (simp add: set_gc_font_def set_gc_font_ref_gcs_ok split: option.splits)
  done

text \<open>Each operation keeps the invariant.\<close>

lemmas font_ops_fonts_ok = install_font_ok close_font_ok take_released_fonts_ok take_all_fonts_ok set_gc_font_ok
  create_gc_fonts change_gc_fonts copy_gc_fonts free_gc_fonts

lemmas gc_ops_gcs_ok = font_ops_gcs_ok create_gc_gcs_ok change_gc_gcs_ok copy_gc_gcs_ok free_gc_gcs_ok
  gcs_ok_cong [OF font_ops_gcs(1)] gcs_ok_cong [OF font_ops_gcs(2)] gcs_ok_cong [OF font_ops_gcs(3)]

lemma font_gc_steps_ok:
  assumes t: "resources_ok t"
  shows "resources_ok (install_font t own i nam host ms)" "resources_ok (fst (close_font t i))"
    "resources_ok (fst (take_released_fonts t))" "resources_ok (fst (take_all_fonts t keys))"
    "resources_ok (set_gc_font t g i)" "gcs t (cg_gc r) = None \<Longrightarrow> resources_ok (create_gc t own r)"
    "resources_ok (fst (change_gc t c))" "resources_ok (fst (copy_gc t src dst vm))"
    "resources_ok (fst (free_gc t i))"
proof -
  have f: "fonts_ok t" and g: "gcs_ok t" using t by (simp_all add: resources_ok_def)
  note rules = same_but_gcs_ok [OF t] and facts = font_ops_fonts_ok gc_ops_gcs_ok gc_ops_same f g
  show "resources_ok (install_font t own i nam host ms)" by (rule rules) (simp_all add: facts)
  show "resources_ok (fst (close_font t i))" by (rule rules) (simp_all add: facts)
  show "resources_ok (fst (take_released_fonts t))" by (rule rules) (simp_all add: facts)
  show "resources_ok (fst (take_all_fonts t keys))" by (rule rules) (simp_all add: facts)
  show "resources_ok (set_gc_font t g i)" by (rule rules) (simp_all add: facts)
  show "resources_ok (create_gc t own r)" if "gcs t (cg_gc r) = None" by (rule rules) (simp_all add: facts that)
  show "resources_ok (fst (change_gc t c))" by (rule rules) (simp_all add: facts)
  show "resources_ok (fst (copy_gc t src dst vm))" by (rule rules) (simp_all add: facts)
  show "resources_ok (fst (free_gc t i))" by (rule rules) (simp_all add: facts)
qed

lemma modify_gc_step_ok:
  assumes "resources_ok t" "\<And>g. gc_font (f g) = gc_font g" "\<And>g. gc_ok g \<Longrightarrow> gc_ok (f g)"
  shows "resources_ok (fst (modify_gc t i f))"
  using assms by (intro same_but_gcs_ok [OF assms(1) gc_ops_same(10)])
    (simp_all add: resources_ok_def modify_gc_fonts modify_gc_gcs_ok)

lemma small_gc_steps_ok:
  assumes "resources_ok t"
  shows "resources_ok (set_dashes t i off ds)" "resources_ok (fst (set_clip_rectangles t sr))"
    "resources_ok (set_gc_clip_origin t i x y)" "resources_ok (fst (clear_gc_clip t i))"
  unfolding set_dashes_def set_clip_rectangles_def set_gc_clip_origin_def clear_gc_clip_def
  by (rule modify_gc_step_ok [OF assms]; simp add: small_changes_ok dashed_def clip_to_def clip_origin_def unclipped_def Let_def
      gc_ok_def)+

lemma glyph_steps_ok:
  assumes t: "resources_ok t"
  shows "resources_ok (create_glyphset t i s)" "resources_ok (fst (free_glyphset t i))"
    "resources_ok (fst (reference_glyphset t cl i j))"
proof -
  have g: "glyphs_ok t" using t by (simp add: resources_ok_def)
  show c: "resources_ok (create_glyphset t i s)" for i s
    by (rule glyph_op_ok [OF t create_glyphset_ok [OF g] glyph_ops_same(1)])
  show "resources_ok (fst (reference_glyphset t cl i j))"
    by (simp add: reference_glyphset_def t c split: option.splits)
  show "resources_ok (fst (free_glyphset t i))"
    by (rule glyph_op_ok [OF t free_glyphset_ok [OF g] glyph_ops_same(2)])
qed

lemma attribute_steps_ok:
  assumes t: "resources_ok t"
  shows "resources_ok (set_window_property t i atom v)" "resources_ok (fst (delete_window_property t i atom))"
    "resources_ok (fst (free_pixmap t j))" "resources_ok (fst (retarget_cursor_host t h j))"
proof -
  have w: "table_ok (windows t)" using t by (simp add: resources_ok_def)
  show "resources_ok (set_window_property t i atom v)" unfolding set_window_property_def
    by (rule same_counted_ok [OF t]) (simp_all add: same_counted_def modify_window_table_ok [OF w])
  show "resources_ok (fst (delete_window_property t i atom))" unfolding delete_window_property_def
    by (rule same_counted_ok [OF t]) (simp_all add: same_counted_def modify_window_table_ok [OF w])
  have "table_ok (windows (fst (free_pixmap t j)))"
    by (auto simp: free_pixmap_def forget_composite_names_def Let_def w intro!: map_windows_ok [OF w] split: option.splits)
  then show "resources_ok (fst (free_pixmap t j))"
    by (rule same_counted_ok [OF t, rotated])
      (simp add: same_counted_def free_pixmap_def forget_composite_names_def Let_def split: option.splits)
  have "table_ok (windows (fst (retarget_cursor_host t h j)))"
    by (auto simp: retarget_cursor_host_def w intro!: map_windows_ok [OF w] split: option.splits)
  then show "resources_ok (fst (retarget_cursor_host t h j))"
    by (rule same_counted_ok [OF t, rotated]) (simp add: same_counted_def retarget_cursor_host_def split: option.splits)
qed

lemma plain_steps_frame:
  "same_counted t (create_pixmap t own pr) \<and> windows (create_pixmap t own pr) = windows t"
  "same_counted t (mark_pixmap_composite_name t i) \<and> windows (mark_pixmap_composite_name t i) = windows t"
  "same_counted t (fst (set_pixmap_host_xid t i h)) \<and> windows (fst (set_pixmap_host_xid t i h)) = windows t"
  "same_counted t (fst (update_pixmap_geometry t i wd ht dp)) \<and> windows (fst (update_pixmap_geometry t i wd ht dp)) = windows t"
  "same_counted t (defer_name_ref t h) \<and> windows (defer_name_ref t h) = windows t"
  "same_counted t (host_pixmap_freed t h) \<and> windows (host_pixmap_freed t h) = windows t"
  "same_counted t (create_picture t i ps) \<and> windows (create_picture t i ps) = windows t"
  "same_counted t (fst (free_picture t i)) \<and> windows (fst (free_picture t i)) = windows t"
  "same_counted t (fst (remove_pictures_on_windows t keys ws)) \<and> windows (fst (remove_pictures_on_windows t keys ws)) = windows t"
  "same_counted t (create_cursor t own i) \<and> windows (create_cursor t own i) = windows t"
  "same_counted t (create_glyph_cursor t own i) \<and> windows (create_glyph_cursor t own i) = windows t"
  "same_counted t (set_cursor_host_xid t i h) \<and> windows (set_cursor_host_xid t i h) = windows t"
  "same_counted t (set_cursor_name_atom t i atom) \<and> windows (set_cursor_name_atom t i atom) = windows t"
  "same_counted t (fst (take_unreferenced_cursor_hosts t)) \<and> windows (fst (take_unreferenced_cursor_hosts t)) = windows t"
  "same_counted t (fst (free_cursor t i)) \<and> windows (fst (free_cursor t i)) = windows t"
  "same_counted t (cursor_host_released t h) \<and> windows (cursor_host_released t h) = windows t"
  "same_counted t (set_cursor_anim t i) \<and> windows (set_cursor_anim t i) = windows t"
  "same_counted t (fst (register_dri3_syncobj t i own)) \<and> windows (fst (register_dri3_syncobj t i own)) = windows t"
  "same_counted t (fst (remove_dri3_syncobj t i)) \<and> windows (fst (remove_dri3_syncobj t i)) = windows t"
  "same_counted t (fst (set_visual_host_xid t i h)) \<and> windows (fst (set_visual_host_xid t i h)) = windows t"
  "same_counted t (create_colormap t own i vis) \<and> windows (create_colormap t own i vis) = windows t"
  "same_counted t (fst (set_colormap_host_xid t i h)) \<and> windows (fst (set_colormap_host_xid t i h)) = windows t"
  "same_counted t (fst (free_colormap t i)) \<and> windows (fst (free_colormap t i)) = windows t"
  by (simp_all add: plain_op_defs same_counted_def Let_def split: option.splits)

lemmas plain_steps_ok = plain_op_ok [OF _ plain_steps_frame(1)] plain_op_ok [OF _ plain_steps_frame(2)]
  plain_op_ok [OF _ plain_steps_frame(3)] plain_op_ok [OF _ plain_steps_frame(4)] plain_op_ok [OF _ plain_steps_frame(5)]
  plain_op_ok [OF _ plain_steps_frame(6)] plain_op_ok [OF _ plain_steps_frame(7)] plain_op_ok [OF _ plain_steps_frame(8)]
  plain_op_ok [OF _ plain_steps_frame(9)] plain_op_ok [OF _ plain_steps_frame(10)] plain_op_ok [OF _ plain_steps_frame(11)]
  plain_op_ok [OF _ plain_steps_frame(12)] plain_op_ok [OF _ plain_steps_frame(13)] plain_op_ok [OF _ plain_steps_frame(14)]
  plain_op_ok [OF _ plain_steps_frame(15)] plain_op_ok [OF _ plain_steps_frame(16)] plain_op_ok [OF _ plain_steps_frame(17)]
  plain_op_ok [OF _ plain_steps_frame(18)] plain_op_ok [OF _ plain_steps_frame(19)] plain_op_ok [OF _ plain_steps_frame(20)]
  plain_op_ok [OF _ plain_steps_frame(21)] plain_op_ok [OF _ plain_steps_frame(22)] plain_op_ok [OF _ plain_steps_frame(23)]

lemma resource_step_ok: "resource_step t t' \<Longrightarrow> resources_ok t \<Longrightarrow> resources_ok t'"
proof (induction rule: resource_step.induct)
  case (window_op t t')
  have "table_ok (windows t')"
    by (rule table_step_ok [OF _ window_op.hyps]) (use window_op.prems in \<open>simp add: resources_ok_def\<close>)
  then show ?case by (rule same_counted_ok [OF window_op.prems table_step_frame [OF window_op.hyps]])
next
  case (disconnect od t cl)
  then show ?case using removal_inv [of t od cl] by (simp add: resources_ok_def)
qed (assumption | rule plain_steps_ok font_gc_steps_ok small_gc_steps_ok glyph_steps_ok attribute_steps_ok)+

lemma default_resources_ok: "resources_ok resource_table_default"
proof -
  have "gc_fonts resource_table_default = Map.empty" "glyph_hosts resource_table_default = Map.empty"
    by (simp_all add: gc_fonts_def glyph_hosts_def resource_table_default_def)
  then show ?thesis using default_ok
    by (simp add: resources_ok_def fonts_with_def tracks_def font_users_def glyphs_with_def gcs_ok_def)
      (simp add: resource_table_default_def font_count_def)
qed

interpretation resources: invariant_machine initial_table resource_step resources_ok
  by unfold_locales (auto simp: default_resources_ok intro: resource_step_ok)

end
