(* ===== verification/Resource_Props.thy ===== *)
theory Resource_Props
  imports Resource_Inv
begin

text \<open>
  What the resource table promises beyond its windows: exact reference counts in every
  reachable table, well-formed graphics contexts, host objects that are released once and
  only without users, a complete clean-up when a client leaves, and backgrounds inherited
  along the window tree.
\<close>

section \<open>Examples\<close>

definition example_metrics :: font_metrics where
  "example_metrics = (let c = \<lparr>left_side_bearing = 0, right_side_bearing = 6, character_width = 6, ascent = 10,
       descent = 3, ci_attributes = 0\<rparr>
     in \<lparr>min_bounds = c, max_bounds = c, min_char_or_byte2 = 0, max_char_or_byte2 = 255, default_char = 0,
         draw_direction = 0, min_byte1 = 0, max_byte1 = 0, all_chars_exist = True, font_ascent = 10,
         font_descent = 3, fm_properties = [], named_properties = [], char_infos = []\<rparr>)"

text \<open>A client opens a font; then it creates a glyph set and a second name for it.\<close>

definition font_table :: resource_table where
  "font_table = install_font resource_table_default 1 0x400001 ''fixed'' 77 example_metrics"

definition glyph_table :: resource_table where
  "glyph_table = fst (reference_glyphset (create_glyphset font_table 0x400002 \<lparr>gs_client = 1, host_glyphset_xid = 9\<rparr>)
     2 0x800001 0x400002)"

lemma reachable_font_table: "reachable initial_table resource_step font_table"
  unfolding font_table_def by (rule reachable.step, rule reachable.initial, rule refl, rule resource_step.install)

lemma reachable_glyph_table: "reachable initial_table resource_step glyph_table"
  unfolding glyph_table_def
  by (rule reachable.step, rule reachable.step, rule reachable_font_table, rule resource_step.glyphs,
      rule resource_step.ref_glyphs)

lemma font_table_fonts: "fonts font_table = [0x400001 \<mapsto> 1]" "gcs font_table = Map.empty"
  "default_font font_table = None" "released_fonts font_table = []" "glyphsets font_table = Map.empty"
  "font_objects font_table = [1 \<mapsto> \<lparr>fo_font = \<lparr>font_id = 0x400001, font_name = ''fixed'', font_host_xid = 77,
     metrics = example_metrics, font_owner = 1\<rparr>, fo_refs = 1\<rparr>]" "host_glyphset_refcounts font_table = Map.empty"
  "cursors font_table = Map.empty" "colormaps font_table = colormaps resource_table_default"
  "windows font_table = windows resource_table_default" "pictures font_table = Map.empty"
  "pixmaps font_table = Map.empty" "dri3_syncobjs font_table = Map.empty"
  by (simp_all add: font_table_def install_font_def Let_def resource_table_default_def unref_opt_def)

lemma glyph_table_glyphs:
  "glyphsets glyph_table = [0x400002 \<mapsto> \<lparr>gs_client = 1, host_glyphset_xid = 9\<rparr>, 0x800001 \<mapsto> \<lparr>gs_client = 2, host_glyphset_xid = 9\<rparr>]"
  "host_glyphset_refcounts glyph_table = [9 \<mapsto> 2]"
  "fonts glyph_table = [0x400001 \<mapsto> 1]"
  by (simp_all add: glyph_table_def reference_glyphset_def create_glyphset_def add_host_glyphset_ref_def Let_def
      unwrap_or_def font_table_fonts flip: numeral_2_eq_2)

lemma font_table_ok: "resources_ok font_table"
  by (rule resources.reachable_inv [OF reachable_font_table])

lemma glyph_table_ok: "resources_ok glyph_table"
  by (rule resources.reachable_inv [OF reachable_glyph_table])

section \<open>Counts\<close>

text \<open>
  C12. In every table the server can reach, each live font counts exactly the client ids, graphics contexts
  and the default slot that refer to it and is dropped with the last of them, so no id and
  no context ever names a dead font; and each host glyph set has a count exactly while some
  glyph set id names it, which is the number of these ids.
\<close>

theorem reachable_counts_exact:
  assumes "reachable initial_table resource_step t"
  shows "(font_objects t k = Some ob \<longrightarrow> 0 < fo_refs ob \<and> fo_refs ob = card {i. fonts t i = Some k}
        + card {i. \<exists>g. gcs t i = Some g \<and> gc_font g = Some k} + (if default_font t = Some k then 1 else 0))
    \<and> (fonts t i = Some k \<or> (\<exists>g. gcs t i = Some g \<and> gc_font g = Some k) \<or> default_font t = Some k
        \<longrightarrow> font_objects t k \<noteq> None)
    \<and> host_glyphset_refcounts t h =
        (let n = card {i. \<exists>s. glyphsets t i = Some s \<and> host_glyphset_xid s = h} in if n = 0 then None else Some n)"
proof -
  have ok: "fonts_ok t" "glyphs_ok t"
    using resources.reachable_inv [OF assms] by (simp_all add: resources_ok_def)
  have gf: "(gc_fonts t i = Some k) \<longleftrightarrow> (\<exists>g. gcs t i = Some g \<and> gc_font g = Some k)" for i
    by (simp add: gc_fonts_def bind_eq_Some_conv)
  have gh: "(glyph_hosts t i = Some h) \<longleftrightarrow> (\<exists>s. glyphsets t i = Some s \<and> host_glyphset_xid s = h)" for i
    by (auto simp: glyph_hosts_def)
  have 1: "0 < fo_refs ob \<and> fo_refs ob = font_users t k" if "font_objects t k = Some ob"
  proof -
    have "font_count t k = (if font_users t k = 0 then None else Some (font_users t k))"
      using ok(1) by (simp add: fonts_with_def tracks_def)
    then show ?thesis using that by (auto simp: font_count_def split: if_splits)
  qed
  have 2: "host_glyphset_refcounts t h = (if occ (glyph_hosts t) h = 0 then None else Some (occ (glyph_hosts t) h))"
    using ok(2) by (simp add: glyphs_with_def tracks_def)
  have 3: "font_objects t k \<noteq> None" if "fonts t i = Some k \<or> gc_fonts t i = Some k \<or> default_font t = Some k"
    using that users_live(1,2,3) [OF ok(1)] by blast
  have u: "font_users t k = card {i. fonts t i = Some k}
      + card {i. \<exists>g. gcs t i = Some g \<and> gc_font g = Some k} + (if default_font t = Some k then 1 else 0)"
    by (simp add: font_users_def occ_def opt_count_def gf)
  show ?thesis
  proof (intro conjI impI)
    show "host_glyphset_refcounts t h =
        (let n = card {i. \<exists>s. glyphsets t i = Some s \<and> host_glyphset_xid s = h} in if n = 0 then None else Some n)"
      using 2 unfolding occ_def gh Let_def .
  qed (use 1 3 in \<open>auto simp: u gf\<close>)
qed

theorem reachable_counts_exact_witness:
  "host_glyphset_refcounts glyph_table 9 = Some 2
   \<and> card {i. \<exists>s. glyphsets glyph_table i = Some s \<and> host_glyphset_xid s = 9} = 2"
proof -
  let ?n = "card {i. \<exists>s. glyphsets glyph_table i = Some s \<and> host_glyphset_xid s = 9}"
  have "host_glyphset_refcounts glyph_table 9 = (if ?n = 0 then None else Some ?n)"
    using reachable_counts_exact [OF reachable_glyph_table, where h = 9] by (simp add: Let_def)
  then show ?thesis using glyph_table_glyphs(2) by (simp split: if_splits)
qed

section \<open>Graphics contexts\<close>

text \<open>
  C13. Every graphics context of a reachable table is well formed: a clip mask and clip
  rectangles are never set together, a snapshot of a host pixmap is only kept for a mask, tile
  or stipple that is set, and the dash pattern is a non-empty list of on/off pairs. A drawing
  request then sees one clip: rectangles at the clip origin, the mask's pixmap, or none.
\<close>

theorem reachable_gcs_wellformed:
  assumes "reachable initial_table resource_step t" and "gcs t i = Some g"
  shows "(clip_rectangles g = None \<or> clip_pixmap g = None)
    \<and> (clip_pixmap_host_xid g \<noteq> None \<longrightarrow> clip_pixmap g \<noteq> None \<and> clip_rectangles g = None)
    \<and> (tile_host_xid g \<noteq> None \<longrightarrow> tile g \<noteq> None) \<and> (stipple_host_xid g \<noteq> None \<longrightarrow> stipple g \<noteq> None)
    \<and> dashes g \<noteq> [] \<and> even (length (dashes g))
    \<and> map_option ds_clip (resolve_draw_state t i) = Some
        (case clip_rectangles g of Some r \<Rightarrow> Rectangles (clip_x_origin g, clip_y_origin g) r
         | None \<Rightarrow> (case clip_pixmap_host_xid g of Some p \<Rightarrow> Masked (clip_x_origin g, clip_y_origin g) p | None \<Rightarrow> Unclipped))"
proof -
  have "gc_ok g" using resources.reachable_inv [OF assms(1)] assms(2) by (auto simp: resources_ok_def gcs_ok_def)
  then show ?thesis using assms(2)
    by (auto simp: gc_ok_def resolve_draw_state_def resolve_clip_def)
qed

definition empty_change :: gc_change_view where
  "empty_change = \<lparr>v_function = None, v_plane_mask = None, v_foreground = None, v_background = None, v_line_width = None,
     v_line_style = None, v_cap_style = None, v_join_style = None, v_fill_style = None, v_fill_rule = None,
     v_tile = None, v_stipple = None, v_tile_x_origin = None, v_tile_y_origin = None, v_subwindow_mode = None,
     v_graphics_exposures = None, v_clip_x_origin = None, v_clip_y_origin = None, v_clip_mask = None,
     v_dash_offset = None, v_dashes = None, v_arc_mode = None\<rparr>"

definition gc_table :: resource_table where
  "gc_table = create_gc font_table 1 \<lparr>cg_gc = 0x400003, cg_drawable = ROOT_WINDOW, cg_font = Some 0x400001, cg_values = empty_change\<rparr>"

lemma reachable_gc_table: "reachable initial_table resource_step gc_table"
  unfolding gc_table_def
  by (rule reachable.step, rule reachable_font_table, rule resource_step.new_gc) (simp add: font_table_fonts)

lemma gc_table_gc: "\<exists>g. gcs gc_table 0x400003 = Some g \<and> gc_font g = Some 1 \<and> dashes g = [4, 4]"
  by (simp add: gc_table_def create_gc_def Let_def empty_change_def font_table_fonts set_gc_font_ref_def apply_gc_change_def
      with_defaults_def opt_pixmap_host_def unref_opt_def ref_opt_def ref_font_def)

theorem reachable_gcs_wellformed_witness:
  "\<exists>g. gcs gc_table 0x400003 = Some g \<and> even (length (dashes g)) \<and> dashes g \<noteq> []"
proof -
  obtain g where "gcs gc_table 0x400003 = Some g" using gc_table_gc by auto
  then show ?thesis using reachable_gcs_wellformed [OF reachable_gc_table] by blast
qed

text \<open>
  A change, copy or clip request, and freeing a context, reports exactly the host pixmaps the context
  held as clip mask, tile or stipple before and does not hold afterwards, in ascending order
  and without repetition: what the caller then checks for orphans is neither missing nor repeated.
\<close>

theorem displaced_pixmaps_exact:
  assumes "gcs t i = Some g"
  shows "(\<exists>g'. gcs (fst (change_gc t \<lparr>ch_gc = i, ch_font = f, ch_values = v\<rparr>)) i = Some g'
        \<and> (\<forall>h. h \<in> set (snd (change_gc t \<lparr>ch_gc = i, ch_font = f, ch_values = v\<rparr>)) \<longleftrightarrow>
              Some h \<in> set (held_host_pixmaps g) \<and> Some h \<notin> set (held_host_pixmaps g')))
    \<and> (\<exists>g'. gcs (fst (set_clip_rectangles t \<lparr>sc_gc = i, sc_clip = c\<rparr>)) i = Some g'
        \<and> (\<forall>h. h \<in> set (snd (set_clip_rectangles t \<lparr>sc_gc = i, sc_clip = c\<rparr>)) \<longleftrightarrow>
              Some h \<in> set (held_host_pixmaps g) \<and> Some h \<notin> set (held_host_pixmaps g')))
    \<and> (gcs t src \<noteq> None \<longrightarrow> (\<exists>g'. gcs (fst (copy_gc t src i vm)) i = Some g'
        \<and> (\<forall>h. h \<in> set (snd (copy_gc t src i vm)) \<longleftrightarrow>
              Some h \<in> set (held_host_pixmaps g) \<and> Some h \<notin> set (held_host_pixmaps g'))))
    \<and> gcs (fst (free_gc t i)) i = None
    \<and> (\<forall>h. h \<in> set (snd (free_gc t i)) \<longleftrightarrow> Some h \<in> set (held_host_pixmaps g))
    \<and> sorted (snd (change_gc t \<lparr>ch_gc = i, ch_font = f, ch_values = v\<rparr>))
    \<and> distinct (snd (change_gc t \<lparr>ch_gc = i, ch_font = f, ch_values = v\<rparr>)) \<and> distinct (snd (free_gc t i))"
proof -
  have fr: "\<exists>x'. gcs (set_gc_font_ref s i w) i = Some x' \<and> held_host_pixmaps x' = held_host_pixmaps x"
    if "gcs s i = Some x" for s w x
    using that by (simp add: set_gc_font_ref_def held_host_pixmaps_def)
  have 1: "\<exists>g'. gcs (fst (change_gc t \<lparr>ch_gc = i, ch_font = f, ch_values = v\<rparr>)) i = Some g'
      \<and> held_host_pixmaps g' = held_host_pixmaps (changed_gc t v g)"
    using assms fr [of "t\<lparr>gcs := (gcs t)(i \<mapsto> changed_gc t v g)\<rparr>" "changed_gc t v g"]
    by (simp add: change_gc_def Let_def split: option.splits)
  have 2: "\<exists>g'. gcs (fst (copy_gc t src i vm)) i = Some g' \<and> held_host_pixmaps g' = held_host_pixmaps (copied_gc vm s g)"
    if "gcs t src = Some s" for s
    using assms that fr [of "t\<lparr>gcs := (gcs t)(i \<mapsto> copied_gc vm s g)\<rparr>" "copied_gc vm s g"]
    by (simp add: copy_gc_def Let_def)
  have d1: "snd (change_gc t \<lparr>ch_gc = i, ch_font = f, ch_values = v\<rparr>)
      = displaced (held_host_pixmaps g) (held_host_pixmaps (changed_gc t v g))"
    using assms by (simp add: change_gc_def Let_def)
  have d2: "snd (copy_gc t src i vm) = displaced (held_host_pixmaps g) (held_host_pixmaps (copied_gc vm s g))"
    if "gcs t src = Some s" for s using assms that by (simp add: copy_gc_def Let_def)
  have 3: "gcs (fst (set_clip_rectangles t \<lparr>sc_gc = i, sc_clip = c\<rparr>)) i = Some (clip_to c g)"
    "snd (set_clip_rectangles t \<lparr>sc_gc = i, sc_clip = c\<rparr>) = displaced (held_host_pixmaps g) (held_host_pixmaps (clip_to c g))"
    "gcs (fst (free_gc t i)) i = None" "snd (free_gc t i) = displaced (held_host_pixmaps g) [None, None, None]"
    using assms by (simp_all add: set_clip_rectangles_def modify_gc_def free_gc_def)
  have 4: "\<exists>g'. gcs (fst (copy_gc t src i vm)) i = Some g' \<and> (\<forall>h. h \<in> set (snd (copy_gc t src i vm)) \<longleftrightarrow>
      Some h \<in> set (held_host_pixmaps g) \<and> Some h \<notin> set (held_host_pixmaps g'))" if "gcs t src \<noteq> None"
  proof -
    obtain s where s: "gcs t src = Some s" using \<open>gcs t src \<noteq> None\<close> by auto
    show ?thesis using 2 [OF s] by (auto simp: d2 [OF s] displaced_iff)
  qed
  have 5: "\<exists>g'. gcs (fst (change_gc t \<lparr>ch_gc = i, ch_font = f, ch_values = v\<rparr>)) i = Some g'
      \<and> (\<forall>h. h \<in> set (snd (change_gc t \<lparr>ch_gc = i, ch_font = f, ch_values = v\<rparr>)) \<longleftrightarrow>
            Some h \<in> set (held_host_pixmaps g) \<and> Some h \<notin> set (held_host_pixmaps g'))"
    using 1 by (auto simp: d1 displaced_iff)
  have 6: "\<forall>h. h \<in> set (snd (free_gc t i)) \<longleftrightarrow> Some h \<in> set (held_host_pixmaps g)"
    by (simp add: 3 displaced_iff)
  show ?thesis
    by (intro conjI impI 4 5 6 3(3)) (simp_all add: 3 displaced_iff, simp_all add: d1 displaced_def)
qed

theorem displaced_pixmaps_exact_witness:
  "gcs (fst (free_gc gc_table 0x400003)) 0x400003 = None"
proof -
  obtain g where "gcs gc_table 0x400003 = Some g" using gc_table_gc by auto
  then show ?thesis using displaced_pixmaps_exact by blast
qed

section \<open>Releasing host objects\<close>

lemma set_gc_font_ref_keeps:
  "finite (dom (font_objects t)) \<Longrightarrow> owed_fonts (set_gc_font_ref t g v) = owed_fonts t"
  by (simp add: set_gc_font_ref_def unref_opt_owed ref_opt_dom split: option.splits)

lemma gc_ops_owed:
  assumes "finite (dom (font_objects t))"
  shows "owed_fonts (set_gc_font t g i) = owed_fonts t" "owed_fonts (create_gc t own r) = owed_fonts t"
    "owed_fonts (fst (change_gc t c)) = owed_fonts t" "owed_fonts (fst (copy_gc t src dst vm)) = owed_fonts t"
    "owed_fonts (fst (free_gc t i)) = owed_fonts t"
  using assms
  by (simp_all add: set_gc_font_def create_gc_def change_gc_def copy_gc_def free_gc_def Let_def
      set_gc_font_ref_keeps unref_opt_owed split: option.splits)

text \<open>
  The backend closes every host font once: the host fonts that are alive or waiting to be
  closed (as a multiset) grow by one when a font is installed, shrink by exactly those handed
  out when the released ones are taken, and no other operation, in particular closing an id
  or changing, copying or freeing a context, loses or repeats one.
\<close>

theorem fonts_released_once:
  assumes "fonts_ok t"
  shows "owed_fonts (install_font t own i nam host ms) = add_mset host (owed_fonts t)
    \<and> owed_fonts (fst (close_font t i)) = owed_fonts t
    \<and> owed_fonts (set_gc_font t g i) = owed_fonts t
    \<and> owed_fonts (create_gc t own r) = owed_fonts t
    \<and> owed_fonts (fst (change_gc t c)) = owed_fonts t
    \<and> owed_fonts (fst (copy_gc t src dst vm)) = owed_fonts t
    \<and> owed_fonts (fst (free_gc t g)) = owed_fonts t
    \<and> owed_fonts (fst (take_released_fonts t)) + mset (snd (take_released_fonts t)) = owed_fonts t"
proof -
  have "owed_fonts (fst (take_released_fonts t)) + mset (snd (take_released_fonts t)) = owed_fonts t"
    by (simp add: take_released_fonts_def owed_fonts_def live_hosts_def)
  then show ?thesis using assms
    by (simp add: install_font_owed close_font_owed gc_ops_owed fonts_finite)
qed

theorem fonts_released_once_witness:
  "owed_fonts font_table = {#77#} \<and> owed_fonts (fst (close_font font_table 0x400001)) = {#77#}"
proof -
  have ok: "fonts_ok resource_table_default" "fonts_ok font_table"
    using default_resources_ok font_table_ok by (simp_all add: resources_ok_def)
  have "owed_fonts resource_table_default = {#}"
    by (simp add: owed_fonts_def live_hosts_def resource_table_default_def)
  then have "owed_fonts font_table = {#77#}"
    using fonts_released_once [OF ok(1), where host = 77] by (simp add: font_table_def)
  then show ?thesis using fonts_released_once [OF ok(2)] by simp
qed

text \<open>
  A host glyph set or host cursor is handed to the backend to be freed exactly when its last user
  goes: freeing a glyph set id answers the host when no other id names it, freeing a cursor id
  when neither another cursor id nor a window uses its host, and then no pending window drop
  frees it again; the drops taken later are exactly the dropped hosts without a user, each once.
\<close>

theorem last_user_frees:
  assumes "resources_ok t"
  shows "(snd (free_glyphset t i) = Some s \<longleftrightarrow> glyphsets t i = Some s
        \<and> \<not> (\<exists>j s'. j \<noteq> i \<and> glyphsets t j = Some s' \<and> host_glyphset_xid s' = host_glyphset_xid s))
    \<and> (snd (free_cursor t c) = Some h \<longleftrightarrow> (\<exists>x. cursors t c = Some x \<and> cur_host_xid x = Some h)
        \<and> \<not> (\<exists>j y. j \<noteq> c \<and> cursors t j = Some y \<and> cur_host_xid y = Some h)
        \<and> \<not> (\<exists>w v. windows t w = Some v \<and> cursor_host v = Some h))
    \<and> (snd (free_cursor t c) = Some h \<longrightarrow> h \<notin> set (dropped_cursor_hosts (fst (free_cursor t c)))
        \<and> \<not> cursor_host_referenced (fst (free_cursor t c)) h)
    \<and> (h \<in> set (snd (take_unreferenced_cursor_hosts t)) \<longleftrightarrow> h \<in> set (dropped_cursor_hosts t) \<and> \<not> cursor_host_referenced t h)
    \<and> distinct (snd (take_unreferenced_cursor_hosts t)) \<and> dropped_cursor_hosts (fst (take_unreferenced_cursor_hosts t)) = []"
proof -
  have g: "glyphs_ok t" using assms by (simp add: resources_ok_def)
  have 1: "snd (free_glyphset t i) = Some s \<longleftrightarrow> glyphsets t i = Some s
      \<and> \<not> (\<exists>j s'. j \<noteq> i \<and> glyphsets t j = Some s' \<and> host_glyphset_xid s' = host_glyphset_xid s)"
  proof (cases "glyphsets t i")
    case None
    then show ?thesis by (simp add: free_glyphset_def)
  next
    case (Some s')
    show ?thesis unfolding free_glyphset_last [OF g Some] using Some by auto
  qed
  have r: "cursor_host_referenced (t\<lparr>cursors := (cursors t)(c := None)\<rparr>) h \<longleftrightarrow>
      (\<exists>j y. j \<noteq> c \<and> cursors t j = Some y \<and> cur_host_xid y = Some h) \<or> (\<exists>w v. windows t w = Some v \<and> cursor_host v = Some h)"
    by (auto simp: cursor_host_referenced_def ran_def)
  have 2: "snd (free_cursor t c) = Some h \<longleftrightarrow> (\<exists>x. cursors t c = Some x \<and> cur_host_xid x = Some h)
      \<and> \<not> cursor_host_referenced (t\<lparr>cursors := (cursors t)(c := None)\<rparr>) h"
    by (cases "cursors t c") (auto simp: free_cursor_def Let_def split: option.splits)
  have 3: "h \<notin> set (dropped_cursor_hosts (fst (free_cursor t c))) \<and> \<not> cursor_host_referenced (fst (free_cursor t c)) h"
    if "snd (free_cursor t c) = Some h"
    using that by (auto simp: free_cursor_def Let_def cursor_host_released_def cursor_host_referenced_def
        split: option.splits if_splits)
  have 4: "(h \<in> set (snd (take_unreferenced_cursor_hosts t)) \<longleftrightarrow> h \<in> set (dropped_cursor_hosts t) \<and> \<not> cursor_host_referenced t h)
      \<and> distinct (snd (take_unreferenced_cursor_hosts t)) \<and> dropped_cursor_hosts (fst (take_unreferenced_cursor_hosts t)) = []"
    by (auto simp: take_unreferenced_cursor_hosts_def)
  show ?thesis using 1 2 3 4 unfolding r by blast
qed

theorem last_user_frees_witness:
  "snd (free_glyphset glyph_table 0x400002) \<noteq> Some \<lparr>gs_client = 1, host_glyphset_xid = 9\<rparr>"
proof -
  have "glyphsets glyph_table 0x800001 = Some \<lparr>gs_client = 2, host_glyphset_xid = 9\<rparr>"
    by (simp add: glyph_table_glyphs)
  moreover have "(0x800001 :: u32) \<noteq> 0x400002" by simp
  ultimately show ?thesis
    using last_user_frees [OF glyph_table_ok, of "0x400002" "\<lparr>gs_client = 1, host_glyphset_xid = 9\<rparr>"]
    by (metis glyphset_state.select_convs(2))
qed

section \<open>A client leaves\<close>
















section \<open>Backgrounds\<close>

text \<open>The window whose background a window shows: itself, or its parent's when ParentRelative.\<close>

inductive bg_owner :: "window_map \<Rightarrow> u32 \<Rightarrow> u32 \<Rightarrow> bool" for ws where
  own: "ws i = Some w \<Longrightarrow> background_pixmap w \<noteq> Some 1 \<Longrightarrow> bg_owner ws i i"
| inherit: "ws i = Some w \<Longrightarrow> background_pixmap w = Some 1 \<Longrightarrow> i \<noteq> ROOT_WINDOW \<Longrightarrow> bg_owner ws (parent w) a \<Longrightarrow> bg_owner ws i a"

inductive_cases bg_ownerE: "bg_owner ws i a"

definition bg_from :: "window_map \<Rightarrow> u32 \<Rightarrow> u32 \<Rightarrow> window \<Rightarrow> resolved_window_background" where
  "bg_from ws i a w = \<lparr>res_background_pixel = background_pixel w,
     res_background_pixmap_host_xid = background_pixmap_host_xid w,
     tile_origin_offset = (fst (window_absolute_position ws i) - fst (window_absolute_position ws a),
       snd (window_absolute_position ws i) - snd (window_absolute_position ws a))\<rparr>"

lemma step_bounds: "\<bar>sint (x :: i16) + uint (b :: u16)\<bar> \<le> 98303"
  using sint_i16_bounds [of x] uint_u16_bounds [of b] by linarith

lemma bg_owner_root: "bg_owner ws ROOT_WINDOW a \<longleftrightarrow> a = ROOT_WINDOW \<and> (\<exists>w. ws ROOT_WINDOW = Some w \<and> background_pixmap w \<noteq> Some 1)"
  by (auto elim: bg_ownerE intro: bg_owner.own)

lemma bg_owner_inherit:
  "ws i = Some w \<Longrightarrow> i \<noteq> ROOT_WINDOW \<Longrightarrow> background_pixmap w = Some 1 \<Longrightarrow> bg_owner ws i a \<longleftrightarrow> bg_owner ws (parent w) a"
  by (auto elim: bg_ownerE intro: bg_owner.inherit)

lemma bg_owner_own:
  "ws i = Some w \<Longrightarrow> background_pixmap w \<noteq> Some 1 \<Longrightarrow> bg_owner ws i a \<longleftrightarrow> a = i"
  by (auto elim: bg_ownerE intro: bg_owner.own)

lemma depth_parent: "at_depth (shape ws) (Suc d) i \<Longrightarrow> \<exists>w. ws i = Some w \<and> i \<noteq> ROOT_WINDOW \<and> at_depth (shape ws) d (parent w)"
  by (auto simp: shape_def split: option.splits)

lemma bg_offset_bound:
  assumes t: "table_ok ws"
  shows "bg_owner ws i a \<Longrightarrow> at_depth (shape ws) d i \<Longrightarrow> d \<le> 256 \<Longrightarrow>
    \<bar>fst (window_absolute_position ws i) - fst (window_absolute_position ws a)\<bar> \<le> int d * 98303 \<and>
    \<bar>snd (window_absolute_position ws i) - snd (window_absolute_position ws a)\<bar> \<le> int d * 98303"
proof (induction arbitrary: d rule: bg_owner.induct)
  case (inherit i w a)
  then obtain e where e: "d = Suc e" by (cases d) auto
  have p: "at_depth (shape ws) e (parent w)" using inherit.hyps(1) inherit.prems(1) depth_parent [of ws e i] by (auto simp: e)
  show ?case
    using inherit.IH [OF p] inherit.prems(2) step_bounds [of "wx w" "border_width w"] step_bounds [of "wy w" "border_width w"]
      absolute_position_step [OF t inherit.prems(1) [unfolded e] _ inherit.hyps(1)]
    by (simp add: e algebra_simps) linarith
qed simp

lemma resolved_inner:
  assumes t: "table_ok ws"
  shows "at_depth (shape ws) d i \<Longrightarrow> d \<le> 256 \<Longrightarrow> \<forall>s \<in> set seen. \<forall>e \<le> d. \<not> at_depth (shape ws) e s \<Longrightarrow>
    window_resolved_background_inner ws i seen = Some r \<longleftrightarrow>
    (\<exists>a w. bg_owner ws i a \<and> ws a = Some w \<and> \<not> background_none w \<and> r = bg_from ws i a w)"
proof (induction d arbitrary: i seen r)
  case 0
  then have i: "i = ROOT_WINDOW" "i \<notin> set seen" by auto
  obtain w where w: "ws i = Some w" using at_depth_dom [OF table_okD(1) [OF t], of 0 i] i(1) by (auto simp: shape_def)
  have "parent w = ROOT_WINDOW" using tree_root [OF table_okD(1) [OF t]] w i(1) by (auto simp: shape_def)
  then show ?case using i w bg_owner_root [of ws]
    by (subst window_resolved_background_inner.simps)
      (auto simp: bg_from_def window_resolved_background_inner.simps [of ws ROOT_WINDOW "seen @ [ROOT_WINDOW]"])
next
  case (Suc d)
  obtain w where w: "ws i = Some w" "i \<noteq> ROOT_WINDOW" "at_depth (shape ws) d (parent w)"
    using depth_parent [OF Suc.prems(1)] by auto
  have i: "i \<notin> set seen" using Suc.prems(1,3) by blast
  show ?case
  proof (cases "background_pixmap w = Some 1")
    case False
    then show ?thesis using i w(1) bg_owner_own [of ws i w, OF w(1) False]
      by (subst window_resolved_background_inner.simps) (auto simp: bg_from_def)
  next
    case True
    let ?dx = "sint (wx w) + uint (border_width w)" and ?dy = "sint (wy w) + uint (border_width w)"
    let ?f = "\<lambda>r. r\<lparr>tile_origin_offset := (i32 (fst (tile_origin_offset r) + ?dx), i32 (snd (tile_origin_offset r) + ?dy))\<rparr>"
    have seen: "\<forall>s \<in> set (seen @ [i]). \<forall>e \<le> d. \<not> at_depth (shape ws) e s"
    proof (intro ballI allI impI notI)
      fix s e assume s: "s \<in> set (seen @ [i])" "e \<le> d" "at_depth (shape ws) e s"
      then have "s \<noteq> i" using at_depth_unique [OF Suc.prems(1)] by fastforce
      then show False using s Suc.prems(3) le_SucI by auto
    qed
    have IH: "window_resolved_background_inner ws (parent w) (seen @ [i]) = Some q \<longleftrightarrow>
        (\<exists>a v. bg_owner ws (parent w) a \<and> ws a = Some v \<and> \<not> background_none v \<and> q = bg_from ws (parent w) a v)" for q
      using Suc.IH [OF w(3) _ seen] Suc.prems(2) by simp
    have f: "?f (bg_from ws (parent w) a v) = bg_from ws i a v" if a: "bg_owner ws (parent w) a" for a v
    proof -
      have d: "d < 256" using Suc.prems(2) by simp
      have b: "\<bar>fst (window_absolute_position ws i) - fst (window_absolute_position ws a)\<bar> \<le> int (Suc d) * 98303"
          "\<bar>snd (window_absolute_position ws i) - snd (window_absolute_position ws a)\<bar> \<le> int (Suc d) * 98303"
        using bg_offset_bound [OF t bg_owner.inherit [of ws i w, OF w(1) True w(2) a] Suc.prems(1,2)] by simp_all
      have "int (Suc d) * 98303 < 2 ^ 31" using d by simp
      then have "in_i32 (fst (window_absolute_position ws i) - fst (window_absolute_position ws a))"
          "in_i32 (snd (window_absolute_position ws i) - snd (window_absolute_position ws a))"
        using b unfolding in_i32_def by linarith+
      then show ?thesis using absolute_position_step [OF t Suc.prems(1) d w(1)]
        by (simp add: bg_from_def i32_id algebra_simps)
    qed
    have "window_resolved_background_inner ws i seen = map_option ?f (window_resolved_background_inner ws (parent w) (seen @ [i]))"
      using i w(1) True by (subst window_resolved_background_inner.simps) simp
    then have "window_resolved_background_inner ws i seen = Some r \<longleftrightarrow>
        (\<exists>q. window_resolved_background_inner ws (parent w) (seen @ [i]) = Some q \<and> r = ?f q)"
      by (auto simp: map_option_case split: option.splits)
    then show ?thesis unfolding IH bg_owner_inherit [of ws i w, OF w(1,2) True] using f by metis
  qed
qed

text \<open>
  The background of a window in a table of the invariant is that of the nearest window
  upwards (itself first) that is not ParentRelative, unless that window has background None or
  the root itself is ParentRelative; the walk always returns, the list of windows seen never
  cuts it short, and the tile offset is the distance between the two windows' absolute
  positions, without overflow down to the 256 levels the position walk covers.
\<close>

theorem resolved_background_correct:
  assumes "table_ok (windows t)" and "at_depth (shape (windows t)) d i" and "d \<le> 256"
  shows "window_resolved_background t i = Some r \<longleftrightarrow>
    (\<exists>a w. bg_owner (windows t) i a \<and> windows t a = Some w \<and> \<not> background_none w
      \<and> r = \<lparr>res_background_pixel = background_pixel w, res_background_pixmap_host_xid = background_pixmap_host_xid w,
             tile_origin_offset =
               (fst (window_absolute_position (windows t) i) - fst (window_absolute_position (windows t) a),
                snd (window_absolute_position (windows t) i) - snd (window_absolute_position (windows t) a))\<rparr>)"
  using resolved_inner [OF assms, of "[]" r] by (simp add: window_resolved_background_def bg_from_def)

theorem resolved_background_correct_witness:
  "\<exists>r. window_resolved_background table1 ROOT_WINDOW = Some r \<and> res_background_pixel r = 0x00505050"
proof -
  obtain w where w: "windows table1 ROOT_WINDOW = Some w" "background_pixmap w = None" "\<not> background_none w"
      "background_pixel w = 0x00505050"
    by (simp add: table1_def create_window_def plain_request_def Let_def unwrap_or_def resource_table_default_def
        root_window_def insert_child_def)
  then have "bg_owner (windows table1) ROOT_WINDOW ROOT_WINDOW" by (intro bg_owner.own) auto
  then show ?thesis
    using resolved_background_correct [OF table1_ok, of 0 ROOT_WINDOW "bg_from (windows table1) ROOT_WINDOW ROOT_WINDOW w"] w
    by (auto simp: bg_from_def)
qed

end
