(* ===== verification/Composite_Redirects.thy ===== *)
theory Composite_Redirects
  imports Machines
begin

text \<open>
  The COMPOSITE redirect bookkeeping of \<open>crates/yserver-core/src/composite_redirects.rs\<close>: for
  every window the records of the clients that redirect it, and for every parent the records
  of the clients that redirect its children. A redirect of the children adds one record to
  each child's own list, so undoing it, creating a child, reparenting one and a client's
  disconnect all have to find those records again.

  Where the source iterates over a \<open>HashMap\<close> the order of its keys is an argument.
\<close>

section \<open>Records\<close>

datatype composite_redirect_mode = Manual | Automatic

record redirect_record =
  rr_mode :: composite_redirect_mode
  rr_owner :: u32

text \<open>The error of a redirect (\<open>ManualTaken\<close>).\<close>

datatype redirect_error = ManualTaken

record composite_redirects =
  rd_windows :: "u32 \<rightharpoonup> redirect_record list"
  rd_subwindows :: "u32 \<rightharpoonup> redirect_record list"

definition redirects_default :: composite_redirects where
  "redirects_default = \<lparr>rd_windows = Map.empty, rd_subwindows = Map.empty\<rparr>"

abbreviation is_manual :: "redirect_record \<Rightarrow> bool" where
  "is_manual r \<equiv> rr_mode r = Manual"

definition update_of :: "redirect_record list \<Rightarrow> composite_redirect_mode option" where
  "update_of records =
     (if records = [] then None else if list_ex is_manual records then Some Manual else Some Automatic)"

text \<open>\<open>iter().position(p)\<close>.\<close>

fun position_by :: "('a \<Rightarrow> bool) \<Rightarrow> 'a list \<Rightarrow> nat option" where
  "position_by p [] = None"
| "position_by p (x # xs) = (if p x then Some 0 else map_option Suc (position_by p xs))"

definition remove_one :: "(u32 \<rightharpoonup> redirect_record list) \<Rightarrow> u32 \<Rightarrow> u32 \<Rightarrow> composite_redirect_mode \<Rightarrow>
    (u32 \<rightharpoonup> redirect_record list) \<times> bool" where
  "remove_one m win own md =
     (case m win of
        None \<Rightarrow> (m, False)
      | Some l \<Rightarrow>
          (case position_by (\<lambda>r. rr_owner r = own \<and> rr_mode r = md) l of
             None \<Rightarrow> (m, False)
           | Some i \<Rightarrow>
               let l' = remove_at i l in
               ((if l' = [] then m(win := None) else m(win \<mapsto> l')), True)))"

section \<open>Queries\<close>

definition window_mode :: "composite_redirects \<Rightarrow> u32 \<Rightarrow> composite_redirect_mode option" where
  "window_mode s win = Option.bind (rd_windows s win) update_of"

definition subwindows_mode :: "composite_redirects \<Rightarrow> u32 \<Rightarrow> composite_redirect_mode option" where
  "subwindows_mode s par = Option.bind (rd_subwindows s par) update_of"

definition window_records :: "composite_redirects \<Rightarrow> u32 \<Rightarrow> redirect_record list" where
  "window_records s win = (case rd_windows s win of None \<Rightarrow> [] | Some l \<Rightarrow> l)"

definition subwindows_records :: "composite_redirects \<Rightarrow> u32 \<Rightarrow> redirect_record list" where
  "subwindows_records s par = (case rd_subwindows s par of None \<Rightarrow> [] | Some l \<Rightarrow> l)"

definition subwindows_parents_of :: "composite_redirects \<Rightarrow> u32 list \<Rightarrow> u32 \<Rightarrow> u32 list" where
  "subwindows_parents_of s keys own =
     sort (filter (\<lambda>par. list_ex (\<lambda>r. rr_owner r = own) (subwindows_records s par)) keys)"

definition redirects_is_empty :: "composite_redirects \<Rightarrow> bool" where
  "redirects_is_empty s \<longleftrightarrow> rd_windows s = Map.empty \<and> rd_subwindows s = Map.empty"

section \<open>Operations\<close>

definition redirect_window ::
  "composite_redirects \<Rightarrow> u32 \<Rightarrow> redirect_record \<Rightarrow> composite_redirects \<times> (redirect_error + unit)" where
  "redirect_window s win r =
     (let l = window_records s win in
      if is_manual r \<and> list_ex is_manual l
      then (s\<lparr>rd_windows := (if l = [] then (rd_windows s)(win := None) else (rd_windows s)(win \<mapsto> l))\<rparr>, Inl ManualTaken)
      else (s\<lparr>rd_windows := (rd_windows s)(win \<mapsto> r # l)\<rparr>, Inr ()))"

definition unredirect_window ::
  "composite_redirects \<Rightarrow> u32 \<Rightarrow> u32 \<Rightarrow> composite_redirect_mode \<Rightarrow> composite_redirects \<times> bool" where
  "unredirect_window s win own md =
     (let (m, ok) = remove_one (rd_windows s) win own md in (s\<lparr>rd_windows := m\<rparr>, ok))"

text \<open>The undo loop: \<open>for undo in &children[..done]\<close>.\<close>

fun undo_redirects :: "composite_redirects \<Rightarrow> u32 list \<Rightarrow> u32 \<Rightarrow> composite_redirect_mode \<Rightarrow> composite_redirects" where
  "undo_redirects s [] own md = s"
| "undo_redirects s (c # cs) own md = undo_redirects (fst (unredirect_window s c own md)) cs own md"

text \<open>\<open>for (done, child) in children.iter().enumerate()\<close>; \<open>dn\<close> is \<open>children[..done]\<close>.\<close>

fun redirect_children :: "composite_redirects \<Rightarrow> u32 list \<Rightarrow> u32 list \<Rightarrow> redirect_record \<Rightarrow>
    composite_redirects \<times> (redirect_error + unit)" where
  "redirect_children s dn [] r = (s, Inr ())"
| "redirect_children s dn (c # cs) r =
     (case redirect_window s c r of
        (s', Inl err) \<Rightarrow> (undo_redirects s' dn (rr_owner r) (rr_mode r), Inl err)
      | (s', Inr _) \<Rightarrow> redirect_children s' (dn @ [c]) cs r)"

definition redirect_subwindows :: "composite_redirects \<Rightarrow> u32 \<Rightarrow> u32 list \<Rightarrow> redirect_record \<Rightarrow>
    composite_redirects \<times> (redirect_error + unit)" where
  "redirect_subwindows s par cs r =
     (if is_manual r \<and> list_ex is_manual (subwindows_records s par) then (s, Inl ManualTaken)
      else case redirect_children s [] cs r of
             (s', Inl err) \<Rightarrow> (s', Inl err)
           | (s', Inr _) \<Rightarrow>
               (s'\<lparr>rd_subwindows := (rd_subwindows s')(par \<mapsto> r # subwindows_records s' par)\<rparr>, Inr ()))"

definition unredirect_subwindows :: "composite_redirects \<Rightarrow> u32 \<Rightarrow> u32 list \<Rightarrow> u32 \<Rightarrow>
    composite_redirect_mode \<Rightarrow> composite_redirects \<times> bool" where
  "unredirect_subwindows s par cs own md =
     (let (m, ok) = remove_one (rd_subwindows s) par own md in
      if \<not> ok then (s\<lparr>rd_subwindows := m\<rparr>, False)
      else (undo_redirects (s\<lparr>rd_subwindows := m\<rparr>) cs own md, True))"

fun redirect_all :: "composite_redirects \<Rightarrow> u32 \<Rightarrow> redirect_record list \<Rightarrow> composite_redirects" where
  "redirect_all s child [] = s"
| "redirect_all s child (r # rs) = redirect_all (fst (redirect_window s child r)) child rs"

definition redirect_new_subwindow :: "composite_redirects \<Rightarrow> u32 \<Rightarrow> u32 \<Rightarrow> composite_redirects" where
  "redirect_new_subwindow s par child = redirect_all s child (subwindows_records s par)"

text \<open>The two loops of a reparent, which stop at their first failure.\<close>

fun unredirect_until :: "composite_redirects \<Rightarrow> u32 \<Rightarrow> redirect_record list \<Rightarrow> composite_redirects" where
  "unredirect_until s child [] = s"
| "unredirect_until s child (r # rs) =
     (case unredirect_window s child (rr_owner r) (rr_mode r) of
        (s', ok) \<Rightarrow> if \<not> ok then s' else unredirect_until s' child rs)"

fun redirect_until :: "composite_redirects \<Rightarrow> u32 \<Rightarrow> redirect_record list \<Rightarrow> composite_redirects" where
  "redirect_until s child [] = s"
| "redirect_until s child (r # rs) =
     (case redirect_window s child r of
        (s', Inl _) \<Rightarrow> s'
      | (s', Inr _) \<Rightarrow> redirect_until s' child rs)"

definition reparent_subwindow :: "composite_redirects \<Rightarrow> u32 \<Rightarrow> u32 \<Rightarrow> u32 \<Rightarrow> composite_redirects" where
  "reparent_subwindow s old_parent new_parent child =
     (let s' = unredirect_until s child (subwindows_records s old_parent)
      in redirect_until s' child (subwindows_records s' new_parent))"

fun forget_windows :: "composite_redirects \<Rightarrow> u32 list \<Rightarrow> composite_redirects" where
  "forget_windows s [] = s"
| "forget_windows s (w # ws) =
     forget_windows (s\<lparr>rd_windows := (rd_windows s)(w := None), rd_subwindows := (rd_subwindows s)(w := None)\<rparr>) ws"

text \<open>\<open>list.retain(|r| r.owner != owner)\<close> on one entry, and whether the entry stays.\<close>

definition retain_others :: "u32 \<Rightarrow> redirect_record list option \<Rightarrow> redirect_record list option" where
  "retain_others own e =
     Option.bind e (\<lambda>l. let l' = filter (\<lambda>r. rr_owner r \<noteq> own) l in if l' = [] then None else Some l')"

definition forget_client :: "composite_redirects \<Rightarrow> u32 list \<Rightarrow> u32 \<Rightarrow>
    composite_redirects \<times> (u32 \<times> composite_redirect_mode option) list" where
  "forget_client s keys own =
     (\<lparr>rd_windows = (\<lambda>w. retain_others own (rd_windows s w)),
       rd_subwindows = (\<lambda>w. retain_others own (rd_subwindows s w))\<rparr>,
      map (\<lambda>w. (w, update_of (window_records s w)))
        (filter (\<lambda>w. length (filter (\<lambda>r. rr_owner r \<noteq> own) (window_records s w)) \<noteq> length (window_records s w)) keys))"

section \<open>One list of records\<close>

text \<open>What a client sees of one list: removing a record is \<^const>\<open>remove1\<close>.\<close>

lemma position_by_record:
  "(\<lambda>r. rr_owner r = own \<and> rr_mode r = md) = (\<lambda>r. r = \<lparr>rr_mode = md, rr_owner = own\<rparr>)"
  by (rule ext) (auto intro: redirect_record.equality)

lemma position_by_eq: "position_by (\<lambda>r. r = x) l = position x l"
  by (induction l) auto

lemma remove_at_position: "position x l = Some i \<Longrightarrow> remove_at i l = remove1 x l"
proof (induction l arbitrary: i)
  case (Cons y l)
  then show ?case by (auto simp: remove_at_def split: if_splits)
qed simp

text \<open>An entry of the map, absent for the empty list.\<close>

definition entry_of :: "'a list \<Rightarrow> 'a list option" where
  "entry_of l = (if l = [] then None else Some l)"

lemma entry_of_simps [simp]: "entry_of [] = None" "l \<noteq> [] \<Longrightarrow> entry_of l = Some l"
  by (auto simp: entry_of_def)

lemma remove_one_eq:
  "remove_one m win own md =
     (let l = (case m win of None \<Rightarrow> [] | Some l \<Rightarrow> l); x = \<lparr>rr_mode = md, rr_owner = own\<rparr> in
      if x \<in> set l then (m(win := entry_of (remove1 x l)), True) else (m, False))"
  unfolding remove_one_def position_by_record position_by_eq
  by (auto simp: Let_def entry_of_def remove_at_position simp flip: position_None_iff split: option.splits)

section \<open>The invariant\<close>

text \<open>No entry is empty and no list has two Manual records.\<close>

definition records_ok :: "redirect_record list \<Rightarrow> bool" where
  "records_ok l \<longleftrightarrow> length (filter is_manual l) \<le> 1"

definition entries_ok :: "(u32 \<rightharpoonup> redirect_record list) \<Rightarrow> bool" where
  "entries_ok m \<longleftrightarrow> (\<forall>w l. m w = Some l \<longrightarrow> l \<noteq> [] \<and> records_ok l)"

definition redirects_ok :: "composite_redirects \<Rightarrow> bool" where
  "redirects_ok s \<longleftrightarrow> entries_ok (rd_windows s) \<and> entries_ok (rd_subwindows s)"

lemma records_ok_Nil [simp]: "records_ok []"
  by (simp add: records_ok_def)

lemma records_ok_Cons: "records_ok (r # l) \<longleftrightarrow> records_ok l \<and> \<not> (is_manual r \<and> list_ex is_manual l)"
  by (auto simp: records_ok_def list_ex_iff filter_empty_conv le_Suc_eq)

lemma records_ok_remove1: "records_ok l \<Longrightarrow> records_ok (remove1 x l)"
proof -
  have "length (filter is_manual (remove1 x l)) \<le> length (filter is_manual l)"
    by (induction l) auto
  then show "records_ok l \<Longrightarrow> records_ok (remove1 x l)" by (simp add: records_ok_def)
qed

lemma records_ok_filter: "records_ok l \<Longrightarrow> records_ok (filter p l)"
proof -
  have "length (filter is_manual (filter p l)) \<le> length (filter is_manual l)"
    by (induction l) auto
  then show "records_ok l \<Longrightarrow> records_ok (filter p l)" by (simp add: records_ok_def)
qed

lemma entries_ok_upd: "entries_ok m \<Longrightarrow> records_ok l \<Longrightarrow> entries_ok (m(w := entry_of l))"
  by (auto simp: entries_ok_def entry_of_def)

lemma entries_ok_None: "entries_ok m \<Longrightarrow> entries_ok (m(w := None))"
  using entries_ok_upd [of m "[]" w] by simp

lemma entries_ok_records: "entries_ok m \<Longrightarrow> records_ok (case m w of None \<Rightarrow> [] | Some l \<Rightarrow> l)"
  by (auto simp: entries_ok_def split: option.splits)

lemma entries_ok_Some: "entries_ok m \<Longrightarrow> records_ok (r # l) \<Longrightarrow> entries_ok (m(w \<mapsto> r # l))"
  using entries_ok_upd [of m "r # l" w] by simp

lemma remove_one_ok: "entries_ok m \<Longrightarrow> entries_ok (fst (remove_one m w own md))"
  unfolding remove_one_eq by (auto simp: Let_def intro: entries_ok_upd records_ok_remove1 entries_ok_records)

lemma entry_of_records: "entries_ok m \<Longrightarrow> entry_of (case m w of None \<Rightarrow> [] | Some l \<Rightarrow> l) = m w"
  by (auto simp: entries_ok_def entry_of_def split: option.splits)

lemma redirects_okD:
  "redirects_ok s \<Longrightarrow> records_ok (window_records s w)"
  "redirects_ok s \<Longrightarrow> records_ok (subwindows_records s w)"
  "redirects_ok s \<Longrightarrow> entry_of (window_records s w) = rd_windows s w"
  "redirects_ok s \<Longrightarrow> entry_of (subwindows_records s w) = rd_subwindows s w"
  by (simp_all add: redirects_ok_def window_records_def subwindows_records_def entries_ok_records entry_of_records)

section \<open>The operations on lists of records\<close>

text \<open>A refused redirect leaves the state as it was.\<close>

lemma redirect_window_cases:
  assumes "rd_windows s w \<noteq> Some []"
  shows "redirect_window s w r =
    (if is_manual r \<and> list_ex is_manual (window_records s w) then (s, Inl ManualTaken)
     else (s\<lparr>rd_windows := (rd_windows s)(w \<mapsto> r # window_records s w)\<rparr>, Inr ()))"
proof (cases "is_manual r \<and> list_ex is_manual (window_records s w)")
  case True
  then have ne: "window_records s w \<noteq> []" by auto
  then have "rd_windows s w = Some (window_records s w)" by (auto simp: window_records_def split: option.splits)
  then have "(rd_windows s)(w \<mapsto> window_records s w) = rd_windows s" by auto
  then show ?thesis using True ne by (simp add: redirect_window_def Let_def)
qed (auto simp: redirect_window_def Let_def)

lemma redirects_ok_entry [simp]: "redirects_ok s \<Longrightarrow> rd_windows s w \<noteq> Some []"
  by (auto simp: redirects_ok_def entries_ok_def)

lemma redirect_window_ok: "redirects_ok s \<Longrightarrow> redirects_ok (fst (redirect_window s w r))"
  by (subst redirect_window_cases) (auto simp: redirects_ok_def records_ok_Cons window_records_def
      intro!: entries_ok_Some entries_ok_records)

lemma unredirect_window_eq:
  "unredirect_window s w own md =
     (let x = \<lparr>rr_mode = md, rr_owner = own\<rparr> in
      if x \<in> set (window_records s w)
      then (s\<lparr>rd_windows := (rd_windows s)(w := entry_of (remove1 x (window_records s w)))\<rparr>, True)
      else (s, False))"
  by (simp add: unredirect_window_def remove_one_eq Let_def window_records_def)

lemma unredirect_window_ok: "redirects_ok s \<Longrightarrow> redirects_ok (fst (unredirect_window s w own md))"
  by (simp add: unredirect_window_def case_prod_unfold Let_def redirects_ok_def remove_one_ok)

lemma undo_redirects_ok: "redirects_ok s \<Longrightarrow> redirects_ok (undo_redirects s cs own md)"
  by (induction s cs own md rule: undo_redirects.induct) (simp_all add: unredirect_window_ok)

lemma redirect_children_ok: "redirects_ok s \<Longrightarrow> redirects_ok (fst (redirect_children s dn cs r))"
proof (induction cs arbitrary: s dn)
  case (Cons c cs)
  then show ?case using redirect_window_ok [of s c r]
    by (auto simp: undo_redirects_ok split: prod.splits sum.splits)
qed simp

lemma redirect_window_frame: "rd_subwindows (fst (redirect_window s w r)) = rd_subwindows s"
  by (simp add: redirect_window_def Let_def)

lemma unredirect_window_frame [simp]: "rd_subwindows (fst (unredirect_window s w own md)) = rd_subwindows s"
  by (simp add: unredirect_window_def case_prod_unfold Let_def)

lemma undo_redirects_frame [simp]: "rd_subwindows (undo_redirects s cs own md) = rd_subwindows s"
  by (induction s cs own md rule: undo_redirects.induct) simp_all

lemma redirect_children_frame: "rd_subwindows (fst (redirect_children s dn cs r)) = rd_subwindows s"
proof (induction cs arbitrary: s dn)
  case (Cons c cs)
  show ?case using redirect_window_frame [of s c r] Cons.IH
    by (auto split: prod.splits sum.splits)
qed simp

lemma redirect_subwindows_ok: "redirects_ok s \<Longrightarrow> redirects_ok (fst (redirect_subwindows s par cs r))"
  using redirect_children_ok [of s "[]" cs r] redirect_children_frame [of s "[]" cs r]
  by (auto simp: redirect_subwindows_def redirects_ok_def records_ok_Cons subwindows_records_def
      intro!: entries_ok_Some entries_ok_records split: prod.splits sum.splits)

lemma unredirect_subwindows_ok: "redirects_ok s \<Longrightarrow> redirects_ok (fst (unredirect_subwindows s par cs own md))"
proof -
  assume "redirects_ok s"
  then have "redirects_ok (s\<lparr>rd_subwindows := fst (remove_one (rd_subwindows s) par own md)\<rparr>)"
    by (simp add: redirects_ok_def remove_one_ok)
  then show ?thesis by (simp add: unredirect_subwindows_def case_prod_unfold Let_def undo_redirects_ok)
qed

lemma redirect_all_ok: "redirects_ok s \<Longrightarrow> redirects_ok (redirect_all s child rs)"
  by (induction s child rs rule: redirect_all.induct) (simp_all add: redirect_window_ok)

lemma unredirect_until_ok: "redirects_ok s \<Longrightarrow> redirects_ok (unredirect_until s child rs)"
proof (induction rs arbitrary: s)
  case (Cons r rs)
  then show ?case using unredirect_window_ok [of s child "rr_owner r" "rr_mode r"] by (auto split: prod.splits)
qed simp

lemma redirect_until_ok: "redirects_ok s \<Longrightarrow> redirects_ok (redirect_until s child rs)"
proof (induction rs arbitrary: s)
  case (Cons r rs)
  then show ?case using redirect_window_ok [of s child r] by (auto split: prod.splits sum.splits)
qed simp

lemma reparent_subwindow_ok: "redirects_ok s \<Longrightarrow> redirects_ok (reparent_subwindow s old_parent new_parent child)"
  by (simp add: reparent_subwindow_def Let_def redirect_until_ok unredirect_until_ok)

lemma forget_windows_ok: "redirects_ok s \<Longrightarrow> redirects_ok (forget_windows s ws)"
  by (induction s ws rule: forget_windows.induct) (simp_all add: redirects_ok_def entries_ok_None)

lemma retain_others_ok: "entries_ok m \<Longrightarrow> entries_ok (\<lambda>w. retain_others own (m w))"
  by (auto simp: entries_ok_def retain_others_def Let_def records_ok_filter split: Option.bind_splits if_splits)

lemma forget_client_ok: "redirects_ok s \<Longrightarrow> redirects_ok (fst (forget_client s keys own))"
  by (simp add: forget_client_def redirects_ok_def retain_others_ok)

section \<open>Redirecting the children\<close>

text \<open>The state after one record was pushed on the list of each child in \<open>cs\<close>.\<close>

definition pushed :: "composite_redirects \<Rightarrow> u32 list \<Rightarrow> redirect_record \<Rightarrow> composite_redirects" where
  "pushed s cs r = s\<lparr>rd_windows := (\<lambda>w. if w \<in> set cs
     then Some (replicate (count_list cs w) r @ window_records s w) else rd_windows s w)\<rparr>"

lemma pushed_Nil [simp]: "pushed s [] r = s"
  by (simp add: pushed_def)

lemma pushed_records [simp]: "window_records (pushed s cs r) w = replicate (count_list cs w) r @ window_records s w"
  by (auto simp: pushed_def window_records_def count_notin)

lemma pushed_frame [simp]: "rd_subwindows (pushed s cs r) = rd_subwindows s"
  by (simp add: pushed_def)

lemma pushed_entry: "redirects_ok s \<Longrightarrow> rd_windows (pushed s cs r) w \<noteq> Some []"
  by (auto simp: pushed_def count_list_0_iff)

lemma push_one:
  "(pushed s dn r)\<lparr>rd_windows := (rd_windows (pushed s dn r))(c \<mapsto> r # window_records (pushed s dn r) c)\<rparr>
    = pushed s (dn @ [c]) r"
  by (auto simp: pushed_def window_records_def count_notin fun_eq_iff intro!: composite_redirects.equality)

lemma unredirect_pushed:
  assumes "redirects_ok s"
  shows "fst (unredirect_window (pushed s (c # cs) r) c (rr_owner r) (rr_mode r)) = pushed s cs r"
proof -
  have r: "\<lparr>rr_mode = rr_mode r, rr_owner = rr_owner r\<rparr> = r" by simp
  have e: "entry_of (replicate (count_list cs c) r @ window_records s c) = rd_windows (pushed s cs r) c"
    using redirects_okD(3) [OF assms, of c] by (auto simp: pushed_def count_notin entry_of_def count_list_0_iff)
  have "fst (unredirect_window (pushed s (c # cs) r) c (rr_owner r) (rr_mode r)) =
      (pushed s (c # cs) r)\<lparr>rd_windows := (rd_windows (pushed s (c # cs) r))(c := rd_windows (pushed s cs r) c)\<rparr>"
    by (simp add: unredirect_window_eq r e)
  also have "\<dots> = pushed s cs r"
    by (auto simp: pushed_def fun_eq_iff intro!: composite_redirects.equality)
  finally show ?thesis .
qed

lemma undo_pushed: "redirects_ok s \<Longrightarrow> undo_redirects (pushed s cs r) cs (rr_owner r) (rr_mode r) = s"
  by (induction cs) (simp_all add: unredirect_pushed)

definition children_refuse :: "composite_redirects \<Rightarrow> u32 list \<Rightarrow> redirect_record \<Rightarrow> bool" where
  "children_refuse s cs r \<longleftrightarrow>
     is_manual r \<and> (\<not> distinct cs \<or> (\<exists>c \<in> set cs. list_ex is_manual (window_records s c)))"

lemma redirect_children_pushed:
  assumes "redirects_ok s"
  shows "\<not> children_refuse s dn r \<Longrightarrow> redirect_children (pushed s dn r) dn cs r =
    (if children_refuse s (dn @ cs) r then (s, Inl ManualTaken) else (pushed s (dn @ cs) r, Inr ()))"
proof (induction cs arbitrary: dn)
  case (Cons c cs)
  have refuse: "is_manual r \<and> list_ex is_manual (window_records (pushed s dn r) c) \<longleftrightarrow> children_refuse s (dn @ [c]) r"
    using Cons.prems by (auto simp: children_refuse_def list_ex_iff count_list_0_iff)
  note step = redirect_window_cases [OF pushed_entry [OF assms], of dn r c r, unfolded push_one refuse]
  show ?case
  proof (cases "children_refuse s (dn @ [c]) r")
    case True
    then have "children_refuse s (dn @ c # cs) r" by (auto simp: children_refuse_def)
    then show ?thesis using True by (simp add: step undo_pushed [OF assms])
  next
    case False
    then show ?thesis using Cons.IH [OF False] by (simp add: step)
  qed
qed simp

lemma redirect_subwindows_eq:
  assumes "redirects_ok s"
  shows "redirect_subwindows s par cs r =
    (if is_manual r \<and> list_ex is_manual (subwindows_records s par) \<or> children_refuse s cs r
     then (s, Inl ManualTaken)
     else ((pushed s cs r)\<lparr>rd_subwindows := (rd_subwindows s)(par \<mapsto> r # subwindows_records s par)\<rparr>, Inr ()))"
proof -
  have e: "\<not> children_refuse s [] r" by (simp add: children_refuse_def)
  show ?thesis using redirect_children_pushed [OF assms e, of cs]
    by (auto simp: redirect_subwindows_def subwindows_records_def)
qed

lemma unredirect_after_redirect:
  assumes ok: "redirects_ok s" and "redirect_subwindows s par cs r = (s', Inr ())"
  shows "unredirect_subwindows s' par cs (rr_owner r) (rr_mode r) = (s, True)"
proof -
  have s': "s' = (pushed s cs r)\<lparr>rd_subwindows := (rd_subwindows s)(par \<mapsto> r # subwindows_records s par)\<rparr>"
    using assms by (simp add: redirect_subwindows_eq split: if_splits)
  have r: "\<lparr>rr_mode = rr_mode r, rr_owner = rr_owner r\<rparr> = r" by simp
  have "(rd_subwindows s)(par := entry_of (subwindows_records s par)) = rd_subwindows s"
    using redirects_okD(4) [OF ok, of par] by simp
  then have "remove_one (rd_subwindows s') par (rr_owner r) (rr_mode r) = (rd_subwindows s, True)"
    by (simp add: s' remove_one_eq r)
  moreover have "s'\<lparr>rd_subwindows := rd_subwindows s\<rparr> = pushed s cs r"
    by (simp add: s' pushed_def)
  ultimately show ?thesis by (simp add: unredirect_subwindows_def undo_pushed [OF ok])
qed

section \<open>A child follows its parent\<close>

lemma window_mode_eq: "window_mode s w = update_of (window_records s w)"
  by (simp add: window_mode_def window_records_def update_of_def split: option.splits)

lemma subwindows_mode_eq: "subwindows_mode s w = update_of (subwindows_records s w)"
  by (simp add: subwindows_mode_def subwindows_records_def update_of_def split: option.splits)

lemma update_of_rev [simp]: "update_of (rev l) = update_of l"
  by (simp add: update_of_def)

definition with_records :: "composite_redirects \<Rightarrow> u32 \<Rightarrow> redirect_record list \<Rightarrow> composite_redirects" where
  "with_records s w l = s\<lparr>rd_windows := (rd_windows s)(w := entry_of l)\<rparr>"

lemma with_records_records [simp]:
  "window_records (with_records s w l) v = (if v = w then l else window_records s v)"
  by (simp add: with_records_def window_records_def entry_of_def)

lemma with_records_frame [simp]: "rd_subwindows (with_records s w l) = rd_subwindows s"
  by (simp add: with_records_def)

lemma with_records_same: "redirects_ok s \<Longrightarrow> with_records s w (window_records s w) = s"
  by (simp add: with_records_def redirects_okD(3))

lemma redirect_window_with:
  "redirect_window (with_records s w l) w r =
    (if is_manual r \<and> list_ex is_manual l then (with_records s w l, Inl ManualTaken)
     else (with_records s w (r # l), Inr ()))"
  by (subst redirect_window_cases) (auto simp: with_records_def entry_of_def window_records_def)

lemma unredirect_window_with:
  "unredirect_window (with_records s w l) w (rr_owner r) (rr_mode r) =
    (if r \<in> set l then (with_records s w (remove1 r l), True) else (with_records s w l, False))"
proof -
  have r: "\<lparr>rr_mode = rr_mode r, rr_owner = rr_owner r\<rparr> = r" by simp
  show ?thesis by (simp add: unredirect_window_eq Let_def r) (simp add: with_records_def)
qed

lemma push_accepted:
  assumes "records_ok (r # rs @ l)"
  shows "records_ok (rs @ r # l)" and "redirect_window (with_records s w l) w r = (with_records s w (r # l), Inr ())"
proof -
  show "records_ok (rs @ r # l)" using assms by (simp add: records_ok_def split: if_splits)
  have "\<not> (is_manual r \<and> list_ex is_manual l)" using assms by (auto simp: records_ok_Cons)
  then show "redirect_window (with_records s w l) w r = (with_records s w (r # l), Inr ())"
    unfolding redirect_window_with by (rule if_not_P)
qed

lemma redirect_until_with:
  "records_ok (rs @ l) \<Longrightarrow> redirect_until (with_records s w l) w rs = with_records s w (rev rs @ l)"
proof (induction rs arbitrary: l)
  case (Cons r rs)
  then show ?case using Cons.IH push_accepted(1) [of r rs l] push_accepted(2) [of r rs l s w] by simp
qed simp

lemma redirect_all_with:
  "records_ok (rs @ l) \<Longrightarrow> redirect_all (with_records s w l) w rs = with_records s w (rev rs @ l)"
proof (induction rs arbitrary: l)
  case (Cons r rs)
  then show ?case using Cons.IH push_accepted(1) [of r rs l] push_accepted(2) [of r rs l s w] by simp
qed simp

lemma unredirect_until_with:
  "mset rs = mset l \<Longrightarrow> unredirect_until (with_records s w l) w rs = with_records s w []"
proof (induction rs arbitrary: l)
  case (Cons r rs)
  then have m: "r \<in> set l" "mset rs = mset (remove1 r l)"
    by (metis list.set_intros(1) set_mset_mset) (use Cons.prems in \<open>metis add_mset_remove_trivial mset.simps(2) mset_remove1\<close>)
  show ?case using Cons.IH [OF m(2)] m(1) by (simp add: unredirect_window_with)
qed simp

lemma new_subwindow_records:
  assumes "redirects_ok s" "window_records s child = []"
  shows "redirect_new_subwindow s par child = with_records s child (rev (subwindows_records s par))"
  using redirect_all_with [of "subwindows_records s par" "[]" s child] redirects_okD(2) [OF assms(1), of par]
    with_records_same [OF assms(1), of child] assms(2)
  by (simp add: redirect_new_subwindow_def)

lemma reparent_records:
  assumes "redirects_ok s" "mset (window_records s child) = mset (subwindows_records s old_parent)"
  shows "reparent_subwindow s old_parent new_parent child = with_records s child (rev (subwindows_records s new_parent))"
proof -
  have u: "unredirect_until s child (subwindows_records s old_parent) = with_records s child []"
    using unredirect_until_with [OF assms(2) [symmetric], of s child] with_records_same [OF assms(1), of child] by simp
  have "subwindows_records (with_records s child []) new_parent = subwindows_records s new_parent"
    by (simp add: subwindows_records_def)
  then show ?thesis
    using redirect_until_with [of "subwindows_records s new_parent" "[]" s child]
      redirects_okD(2) [OF assms(1), of new_parent]
    by (simp add: reparent_subwindow_def Let_def u)
qed

section \<open>Disconnects\<close>

lemma forget_client_records:
  "window_records (fst (forget_client s keys own)) w = filter (\<lambda>r. rr_owner r \<noteq> own) (window_records s w)"
  "subwindows_records (fst (forget_client s keys own)) w = filter (\<lambda>r. rr_owner r \<noteq> own) (subwindows_records s w)"
  by (auto simp: forget_client_def window_records_def subwindows_records_def retain_others_def Let_def split: option.splits)

lemma filter_shorter: "length (filter p l) \<noteq> length l \<longleftrightarrow> (\<exists>x \<in> set l. \<not> p x)"
  by (metis filter_True filter_id_conv length_filter_less nat_neq_iff)

lemma forget_client_changed:
  "set (snd (forget_client s keys own)) =
     {(w, window_mode s w) | w. w \<in> set keys \<and> (\<exists>r \<in> set (window_records s w). rr_owner r = own)}"
  by (auto simp: forget_client_def filter_shorter window_mode_eq)

section \<open>The bookkeeping as a machine\<close>

inductive redirect_step :: "composite_redirects \<Rightarrow> composite_redirects \<Rightarrow> bool" where
  redirect: "redirect_step s (fst (redirect_window s w r))"
| unredirect: "redirect_step s (fst (unredirect_window s w own md))"
| redirect_sub: "redirect_step s (fst (redirect_subwindows s par cs r))"
| unredirect_sub: "redirect_step s (fst (unredirect_subwindows s par cs own md))"
| new_sub: "redirect_step s (redirect_new_subwindow s par child)"
| reparent_sub: "redirect_step s (reparent_subwindow s old_parent new_parent child)"
| forget_win: "redirect_step s (forget_windows s ws)"
| forget: "redirect_step s (fst (forget_client s keys own))"

abbreviation initial_redirects :: "composite_redirects \<Rightarrow> bool" where
  "initial_redirects s \<equiv> s = redirects_default"

lemma redirects_default_ok: "redirects_ok redirects_default"
  by (simp add: redirects_ok_def redirects_default_def entries_ok_def)

lemma redirect_step_ok: "redirects_ok s \<Longrightarrow> redirect_step s s' \<Longrightarrow> redirects_ok s'"
  by (erule redirect_step.cases)
    (simp_all add: redirect_window_ok unredirect_window_ok redirect_subwindows_ok unredirect_subwindows_ok
      redirect_new_subwindow_def redirect_all_ok reparent_subwindow_ok forget_windows_ok forget_client_ok)

interpretation redirects: invariant_machine initial_redirects redirect_step redirects_ok
  by unfold_locales (auto simp: redirects_default_ok intro: redirect_step_ok)

section \<open>Properties\<close>

text \<open>One client redirects the children of a window manually.\<close>

definition redirects1 :: composite_redirects where
  "redirects1 = fst (redirect_subwindows redirects_default 0x100 [0x201, 0x200] \<lparr>rr_mode = Manual, rr_owner = 7\<rparr>)"

lemma redirects1_eq:
  "redirects1 = \<lparr>rd_windows = [0x201 \<mapsto> [\<lparr>rr_mode = Manual, rr_owner = 7\<rparr>], 0x200 \<mapsto> [\<lparr>rr_mode = Manual, rr_owner = 7\<rparr>]],
     rd_subwindows = [0x100 \<mapsto> [\<lparr>rr_mode = Manual, rr_owner = 7\<rparr>]]\<rparr>"
  by (simp add: redirects1_def redirect_subwindows_def redirect_window_def window_records_def
      subwindows_records_def redirects_default_def Let_def)

lemma reachable_redirects1: "reachable initial_redirects redirect_step redirects1"
  unfolding redirects1_def by (rule reachable.step, rule reachable.initial, rule refl, rule redirect_step.redirect_sub)

lemma redirects1_ok: "redirects_ok redirects1"
  by (rule redirects.reachable_inv [OF reachable_redirects1])

text \<open>
  C10. Whatever sequence of redirects, unredirects, window creations, reparents, destructions
  and disconnects the server goes through, no window and no parent ever has two Manual records
  (one client at most owns the manual redirect), no list is left empty in the map, so a
  window has a mode exactly when it has an entry, and that mode is Manual exactly when some
  client redirects it manually.
\<close>

theorem reachable_redirects_ok:
  assumes "reachable initial_redirects redirect_step s"
  shows "length (filter is_manual (window_records s w)) \<le> 1
    \<and> length (filter is_manual (subwindows_records s w)) \<le> 1
    \<and> (window_mode s w = None \<longleftrightarrow> rd_windows s w = None)
    \<and> (subwindows_mode s w = None \<longleftrightarrow> rd_subwindows s w = None)
    \<and> (window_mode s w = Some Manual \<longleftrightarrow> (\<exists>own. \<lparr>rr_mode = Manual, rr_owner = own\<rparr> \<in> set (window_records s w)))"
proof -
  have ok: "redirects_ok s" by (rule redirects.reachable_inv [OF assms])
  have ex: "list_ex is_manual l \<longleftrightarrow> (\<exists>own. \<lparr>rr_mode = Manual, rr_owner = own\<rparr> \<in> set l)" for l
  proof -
    have "r = \<lparr>rr_mode = Manual, rr_owner = rr_owner r\<rparr>" if "is_manual r" for r :: redirect_record
      using that by (auto intro: redirect_record.equality)
    then show ?thesis unfolding list_ex_iff by (metis redirect_record.select_convs(1))
  qed
  show ?thesis
    using redirects_okD(1,2) [OF ok, of w] redirects_okD(3,4) [OF ok, of w, symmetric] ex [of "window_records s w"]
    by (auto simp: records_ok_def window_mode_eq subwindows_mode_eq update_of_def entry_of_def split: if_splits)
qed

theorem reachable_redirects_ok_witness:
  "window_mode redirects1 0x200 = Some Manual \<and> length (filter is_manual (window_records redirects1 0x200)) \<le> 1"
  using reachable_redirects_ok [OF reachable_redirects1, of "0x200"]
  by (simp add: redirects1_eq window_mode_def update_of_def)

text \<open>
  C11. Redirecting the children of a window is all or nothing. It is refused exactly when the
  redirect is Manual and the parent's children are already redirected manually, or one of the
  children is (or is listed twice), and then the undo loop leaves the whole state as it was; otherwise the
  record is the newest on the parent's list and on every child's, and nothing else changes.
\<close>

theorem redirect_subwindows_all_or_nothing:
  assumes "redirects_ok s"
  shows "redirect_subwindows s par cs r =
    (if is_manual r \<and> (subwindows_mode s par = Some Manual \<or> \<not> distinct cs \<or> (\<exists>c \<in> set cs. window_mode s c = Some Manual))
     then (s, Inl ManualTaken)
     else (\<lparr>rd_windows = (\<lambda>w. if w \<in> set cs then Some (replicate (count_list cs w) r @ window_records s w) else rd_windows s w),
            rd_subwindows = (rd_subwindows s)(par \<mapsto> r # subwindows_records s par)\<rparr>, Inr ()))"
proof -
  have man: "list_ex is_manual l \<longleftrightarrow> update_of l = Some Manual" for l
    by (auto simp: update_of_def)
  have c: "is_manual r \<and> list_ex is_manual (subwindows_records s par) \<or> children_refuse s cs r \<longleftrightarrow>
      is_manual r \<and> (subwindows_mode s par = Some Manual \<or> \<not> distinct cs \<or> (\<exists>c \<in> set cs. window_mode s c = Some Manual))"
    unfolding man children_refuse_def window_mode_eq subwindows_mode_eq by blast
  have p: "(pushed s cs r)\<lparr>rd_subwindows := m\<rparr> =
      \<lparr>rd_windows = (\<lambda>w. if w \<in> set cs then Some (replicate (count_list cs w) r @ window_records s w) else rd_windows s w),
       rd_subwindows = m\<rparr>" for m
    by (simp add: pushed_def)
  show ?thesis unfolding redirect_subwindows_eq [OF assms] c p by (rule refl)
qed

theorem redirect_subwindows_all_or_nothing_witness:
  "redirect_subwindows redirects1 0x300 [0x202, 0x200] \<lparr>rr_mode = Manual, rr_owner = 8\<rparr> = (redirects1, Inl ManualTaken)"
  using redirect_subwindows_all_or_nothing [OF redirects1_ok, of "0x300" "[0x202, 0x200]" "\<lparr>rr_mode = Manual, rr_owner = 8\<rparr>"]
  by (simp add: redirects1_eq window_mode_def update_of_def)

text \<open>
  Undoing a redirect of the children with the same owner and mode finds every record again:
  the state is exactly the one before the redirect.
\<close>

theorem redirect_subwindows_round_trip:
  assumes "redirects_ok s" and "redirect_subwindows s par cs r = (s', Inr ())"
  shows "unredirect_subwindows s' par cs (rr_owner r) (rr_mode r) = (s, True)"
  by (rule unredirect_after_redirect [OF assms])

theorem redirect_subwindows_round_trip_witness:
  "unredirect_subwindows redirects1 0x100 [0x201, 0x200] 7 Manual = (redirects_default, True)"
  using redirect_subwindows_round_trip [OF redirects_default_ok, of "0x100" "[0x201, 0x200]" "\<lparr>rr_mode = Manual, rr_owner = 7\<rparr>" redirects1]
  by (simp add: redirects1_def redirect_subwindows_def redirect_window_def window_records_def
      subwindows_records_def redirects_default_def Let_def)

text \<open>
  A window follows its parent: a new child has exactly the records of its parent's
  subwindows list and so its mode, and a child that had exactly those of its old parent has,
  after a reparent, exactly those of the new one (no record of the old parent's redirect is
  left and no accepted redirect is lost); no other window's records change.
\<close>

theorem child_follows_parent:
  assumes "redirects_ok s"
  shows "(window_records s child = [] \<longrightarrow>
      window_records (redirect_new_subwindow s par child) child = rev (subwindows_records s par)
      \<and> window_mode (redirect_new_subwindow s par child) child = subwindows_mode s par)
    \<and> (mset (window_records s child) = mset (subwindows_records s par) \<longrightarrow>
      window_records (reparent_subwindow s par par' child) child = rev (subwindows_records s par')
      \<and> window_mode (reparent_subwindow s par par' child) child = subwindows_mode s par'
      \<and> (\<forall>w. w \<noteq> child \<longrightarrow> window_records (reparent_subwindow s par par' child) w = window_records s w))"
  using new_subwindow_records [OF assms, of child par] reparent_records [OF assms, of child par par']
  by (simp add: window_mode_eq subwindows_mode_eq)

theorem child_follows_parent_witness:
  "window_mode (redirect_new_subwindow redirects1 0x100 0x202) 0x202 = Some Manual
   \<and> window_records (reparent_subwindow redirects1 0x100 0x300 0x200) 0x200 = []"
proof -
  have e: "window_records redirects1 0x202 = []"
    "mset (window_records redirects1 0x200) = mset (subwindows_records redirects1 0x100)"
    "subwindows_mode redirects1 0x100 = Some Manual" "subwindows_records redirects1 0x300 = []"
    by (simp_all add: redirects1_eq window_records_def subwindows_records_def subwindows_mode_def update_of_def)
  show ?thesis
    using child_follows_parent [OF redirects1_ok, of "0x202" "0x100"] child_follows_parent [OF redirects1_ok, of "0x200" "0x100" "0x300"]
    unfolding e by (simp add: e(1) flip: e(2))
qed

text \<open>
  When a client disconnects, each list keeps exactly the other clients' records, in order,
  and the windows reported are those that had a record of the client, each once with the mode
  it had, so that the backing of every window whose mode may have changed is checked again.
\<close>

theorem forget_client_complete:
  assumes "redirects_ok s" and "distinct keys" and "set keys = dom (rd_windows s)"
  shows "window_records (fst (forget_client s keys own)) w = filter (\<lambda>r. rr_owner r \<noteq> own) (window_records s w)
    \<and> subwindows_records (fst (forget_client s keys own)) w = filter (\<lambda>r. rr_owner r \<noteq> own) (subwindows_records s w)
    \<and> distinct (map fst (snd (forget_client s keys own)))
    \<and> ((w, md) \<in> set (snd (forget_client s keys own)) \<longleftrightarrow>
         md = window_mode s w \<and> (\<exists>r \<in> set (window_records s w). rr_owner r = own))
    \<and> (window_mode (fst (forget_client s keys own)) w \<noteq> window_mode s w \<longrightarrow>
         w \<in> fst ` set (snd (forget_client s keys own)))"
proof -
  have k: "w \<in> set keys" if "r \<in> set (window_records s w)" for r
    using that unfolding assms(3) by (cases "rd_windows s w") (auto simp: window_records_def)
  have ch: "(w, md) \<in> set (snd (forget_client s keys own)) \<longleftrightarrow>
      md = window_mode s w \<and> (\<exists>r \<in> set (window_records s w). rr_owner r = own)" for md
    using k by (auto simp: forget_client_changed)
  moreover have "distinct (map fst (snd (forget_client s keys own)))"
    using assms(2) by (simp add: forget_client_def comp_def)
  moreover have "w \<in> fst ` set (snd (forget_client s keys own))"
    if "window_mode (fst (forget_client s keys own)) w \<noteq> window_mode s w"
  proof -
    have "\<exists>r \<in> set (window_records s w). rr_owner r = own"
      using that by (metis (mono_tags, lifting) filter_True forget_client_records(1) window_mode_eq)
    then have "(w, window_mode s w) \<in> set (snd (forget_client s keys own))" by (simp add: ch)
    then show ?thesis by force
  qed
  ultimately show ?thesis by (simp only: forget_client_records) blast
qed

theorem forget_client_complete_witness:
  "window_records (fst (forget_client redirects1 [0x200, 0x201] 7)) 0x200 = []
   \<and> (0x200, Some Manual) \<in> set (snd (forget_client redirects1 [0x200, 0x201] 7))"
  using forget_client_complete [OF redirects1_ok, of "[0x200, 0x201]" 7 "0x200" "Some Manual"]
  by (auto simp: redirects1_eq window_records_def window_mode_def update_of_def)

end
