(* ===== verification/Clip_Lists.thy ===== *)
theory Clip_Lists
  imports Region_Props Tree_Props Composite_Redirects
begin

text \<open>
  What of every window shows (\<open>core_loop/clip_list.rs\<close>): the universe its children are cut
  from, its clip list and the visible part of its border, computed from the window tree, the
  shapes and the COMPOSITE redirects with the region operations. The scene has the parts
  of the server state the computation reads. The two recursions, up the parents (\<open>universe\<close>) and
  down the children (\<open>walk\<close>), are \<open>partial_function (option)\<close>; on the tables of the
  invariant they return.
\<close>

record shape_window_state =
  bounding :: "region option"
  clip_shape :: "region option"
  input_shape :: "region option"

record clip_scene =
  cs_windows :: window_map
  cs_redirects :: composite_redirects
  cs_shapes :: "u32 \<rightharpoonup> shape_window_state"

definition RECTLIMIT :: nat where
  "RECTLIMIT = 25"

section \<open>Lists of rectangles\<close>

definition rects_intersect :: "region_rect list \<Rightarrow> region_rect list \<Rightarrow> region_rect list" where
  "rects_intersect a b = to_rects (intersect (from_rects a) (from_rects b))"

definition rects_subtract :: "region_rect list \<Rightarrow> region_rect list \<Rightarrow> region_rect list" where
  "rects_subtract a b = to_rects (subtract (from_rects a) (from_rects b))"

definition rects_translate :: "region_rect list \<Rightarrow> int \<Rightarrow> int \<Rightarrow> region_rect list" where
  "rects_translate rs dx dy =
     map (\<lambda>r. r\<lparr>rx := word_of_int (clamp i16_min i16_max (sint (rx r) + dx)),
                ry := word_of_int (clamp i16_min i16_max (sint (ry r) + dy))\<rparr>) rs"

definition rects_contain :: "region_rect list \<Rightarrow> region_rect \<Rightarrow> bool" where
  "rects_contain rgn r \<longleftrightarrow> rwidth r = 0 \<or> rheight r = 0
     \<or> is_empty (subtract (from_rects [r]) (from_rects rgn))"

section \<open>Windows\<close>

definition clip_viewable :: "clip_scene \<Rightarrow> u32 \<Rightarrow> bool" where
  "clip_viewable s w \<longleftrightarrow> w = ROOT_WINDOW
     \<or> map_or False (\<lambda>win. map_state win = Viewable \<and> wclass win = InputOutput) (cs_windows s w)"

definition transparent :: "clip_scene \<Rightarrow> u32 \<Rightarrow> bool" where
  "transparent s w \<longleftrightarrow> window_mode (cs_redirects s) w = Some Manual"

definition redirected :: "clip_scene \<Rightarrow> u32 \<Rightarrow> bool" where
  "redirected s w \<longleftrightarrow> window_mode (cs_redirects s) w \<noteq> None"

definition outer_of :: "window \<Rightarrow> region_rect" where
  "outer_of win = (let bw2 = u16_saturating_mul (border_width win) 2 in
     \<lparr>rx = wx win, ry = wy win, rwidth = u16_saturating_add (wwidth win) bw2,
      rheight = u16_saturating_add (wheight win) bw2\<rparr>)"

definition border_size :: "clip_scene \<Rightarrow> u32 \<Rightarrow> region" where
  "border_size s w =
     (case cs_windows s w of
        None \<Rightarrow> region_default
      | Some win \<Rightarrow>
          let outer = rect (outer_of win) in
          (case Option.bind (cs_shapes s w) bounding of
             Some shp \<Rightarrow>
               let bw = uint (border_width win)
               in intersect outer (translate shp (sint (wx win) + bw) (sint (wy win) + bw))
           | None \<Rightarrow> outer))"

definition border_size_in_parent :: "clip_scene \<Rightarrow> u32 \<Rightarrow> region_rect list" where
  "border_size_in_parent s w = to_rects (border_size s w)"

definition win_size :: "clip_scene \<Rightarrow> u32 \<Rightarrow> region" where
  "win_size s w =
     (case cs_windows s w of
        None \<Rightarrow> region_default
      | Some win \<Rightarrow>
          let r0 = rect \<lparr>rx = 0, ry = 0, rwidth = wwidth win, rheight = wheight win\<rparr> in
          (case cs_shapes s w of
             None \<Rightarrow> r0
           | Some sh \<Rightarrow> foldl intersect r0 (flatten [bounding sh, clip_shape sh])))"

definition content_offset :: "clip_scene \<Rightarrow> u32 \<Rightarrow> (int \<times> int \<times> int) option" where
  "content_offset s w =
     map_option (\<lambda>c. let bw = uint (border_width c) in (sint (wx c) + bw, sint (wy c) + bw, bw)) (cs_windows s w)"

section \<open>Universes\<close>

text \<open>The loop over the siblings stacked above, which stops when nothing is left.\<close>

fun subtract_above :: "clip_scene \<Rightarrow> u32 list \<Rightarrow> u32 list \<Rightarrow> region \<Rightarrow> region" where
  "subtract_above s also_transparent [] u = u"
| "subtract_above s also_transparent (c # cs) u =
     (if is_empty u then u
      else subtract_above s also_transparent cs
             (if clip_viewable s c \<and> \<not> transparent s c \<and> c \<notin> set also_transparent
              then subtract u (border_size s c) else u))"

definition uncovered_in_child_space :: "clip_scene \<Rightarrow> region \<Rightarrow> u32 \<Rightarrow> u32 \<Rightarrow> u32 list \<Rightarrow> region" where
  "uncovered_in_child_space s parent_universe par child also_transparent =
     (case content_offset s child of
        None \<Rightarrow> region_default
      | Some (dx, dy, _) \<Rightarrow>
          let siblings = children_of (cs_windows s) par;
              u = (case position child siblings of
                     None \<Rightarrow> parent_universe
                   | Some k \<Rightarrow> subtract_above s also_transparent (drop (k + 1) siblings) parent_universe)
          in translate u (- dx) (- dy))"

definition child_universe :: "clip_scene \<Rightarrow> region \<Rightarrow> u32 \<Rightarrow> u32 \<Rightarrow> u32 list \<Rightarrow> region" where
  "child_universe s parent_universe par child also_transparent =
     (if \<not> clip_viewable s child then region_default
      else if redirected s child then win_size s child
      else if is_empty parent_universe then region_default
      else intersect (uncovered_in_child_space s parent_universe par child also_transparent) (win_size s child))"

definition root_universe :: "clip_scene \<Rightarrow> region" where
  "root_universe s = map_or region_default
     (\<lambda>r. rect \<lparr>rx = 0, ry = 0, rwidth = wwidth r, rheight = wheight r\<rparr>) (cs_windows s ROOT_WINDOW)"

partial_function (option) universe :: "clip_scene \<Rightarrow> u32 \<Rightarrow> region option" where
  "universe s w =
     (if \<not> clip_viewable s w then Some region_default
      else if w = ROOT_WINDOW then Some (root_universe s)
      else if redirected s w then Some (win_size s w)
      else case cs_windows s w of
             None \<Rightarrow> Some region_default
           | Some win \<Rightarrow> Option.bind (universe s (parent win)) (\<lambda>u. Some (child_universe s u (parent win) w [])))"

definition not_clipped_by_children :: "clip_scene \<Rightarrow> u32 \<Rightarrow> region_rect list option" where
  "not_clipped_by_children s w = map_option to_rects (universe s w)"

definition not_clipped_by_children_while :: "clip_scene \<Rightarrow> u32 \<Rightarrow> u32 list \<Rightarrow> region_rect list option" where
  "not_clipped_by_children_while s w still_redirected =
     (case cs_windows s w of
        None \<Rightarrow> Some []
      | Some win \<Rightarrow>
          if w = ROOT_WINDOW \<or> redirected s w then not_clipped_by_children s w
          else map_option (\<lambda>u. to_rects (child_universe s u (parent win) w still_redirected)) (universe s (parent win)))"

definition border_ring :: "clip_scene \<Rightarrow> u32 \<Rightarrow> region option" where
  "border_ring s w =
     (if w = ROOT_WINDOW \<or> \<not> clip_viewable s w then Some region_default
      else case cs_windows s w of
             None \<Rightarrow> Some region_default
           | Some win \<Rightarrow>
               (case content_offset s w of
                  None \<Rightarrow> Some region_default
                | Some (dx, dy, bw) \<Rightarrow>
                    if bw = 0 then Some region_default
                    else let own = translate (border_size s w) (- dx) (- dy) in
                         map_option (\<lambda>clip. subtract clip (win_size s w))
                           (if redirected s w then Some own
                            else map_option (\<lambda>u. intersect (uncovered_in_child_space s u (parent win) w []) own)
                                   (universe s (parent win)))))"

section \<open>Splitting a universe among the children\<close>

record child_clip =
  cc_window :: u32
  cc_universe :: region
  cc_ring :: region

text \<open>One child's share.\<close>

definition child_share :: "clip_scene \<Rightarrow> bool \<Rightarrow> region \<Rightarrow> u32 \<Rightarrow> int \<times> int \<times> int \<Rightarrow> child_clip" where
  "child_share s borders uncovered c off =
     (let (dx, dy, bw) = off;
          size = border_size s c;
          win = win_size s c;
          border_clip = translate (if redirected s c then size else intersect uncovered size) (- dx) (- dy)
      in \<lparr>cc_window = c, cc_universe = (if redirected s c then win else intersect border_clip win),
          cc_ring = (if borders \<and> bw \<noteq> 0 then subtract border_clip win else region_default)\<rparr>)"

text \<open>The loop, over the children with their indices, top-most first.\<close>

fun split_loop :: "clip_scene \<Rightarrow> bool \<Rightarrow> (nat \<Rightarrow> u32 \<Rightarrow> region \<Rightarrow> bool) \<Rightarrow> (nat \<times> u32) list \<Rightarrow> region \<Rightarrow> region \<times> child_clip list" where
  "split_loop s borders want [] uncovered = (uncovered, [])"
| "split_loop s borders want ((i, c) # cs) uncovered =
     (if \<not> clip_viewable s c then split_loop s borders want cs uncovered
      else case content_offset s c of
             None \<Rightarrow> split_loop s borders want cs uncovered
           | Some off \<Rightarrow>
               let size = border_size s c;
                   mine = (if want i c size then [child_share s borders uncovered c off] else []);
                   rest = split_loop s borders want cs
                     (if \<not> is_empty uncovered \<and> \<not> transparent s c then subtract uncovered size else uncovered)
               in (fst rest, mine @ snd rest))"

definition split_universe :: "clip_scene \<Rightarrow> u32 \<Rightarrow> region \<Rightarrow> bool \<Rightarrow> (nat \<Rightarrow> u32 \<Rightarrow> region \<Rightarrow> bool) \<Rightarrow> region \<times> child_clip list" where
  "split_universe s par u borders want =
     split_loop s borders want (rev (List.enumerate 0 (children_of (cs_windows s) par))) u"

section \<open>Clip lists\<close>

type_synonym clip_entry = "u32 \<times> region \<times> region"

fun subtract_children :: "clip_scene \<Rightarrow> u32 list \<Rightarrow> region \<Rightarrow> region" where
  "subtract_children s [] r = r"
| "subtract_children s (c # cs) r =
     (if is_empty r then r
      else subtract_children s cs (if clip_viewable s c \<and> \<not> transparent s c then subtract r (border_size s c) else r))"

definition clip_list :: "clip_scene \<Rightarrow> u32 \<Rightarrow> region_rect list option" where
  "clip_list s w = map_option (\<lambda>u. to_rects (subtract_children s (children_of (cs_windows s) w) u)) (universe s w)"

text \<open>\<open>walk\<close> on each of a list of shares in turn; the source's call is on one window.\<close>

partial_function (option) walk_list :: "clip_scene \<Rightarrow> bool \<Rightarrow> child_clip list \<Rightarrow> clip_entry list option" where
  "walk_list s borders ks =
     (case ks of [] \<Rightarrow> Some []
      | k # rest \<Rightarrow>
          if \<not> clip_viewable s (cc_window k) then walk_list s borders rest
          else (let sp = split_universe s (cc_window k) (cc_universe k) borders (\<lambda>_ _ _. True)
                in Option.bind (walk_list s borders (snd sp))
                     (\<lambda>below. Option.bind (walk_list s borders rest)
                        (\<lambda>others. Some ((cc_window k, fst sp, cc_ring k) # below @ others)))))"

definition walk :: "clip_scene \<Rightarrow> u32 \<Rightarrow> region \<Rightarrow> region \<Rightarrow> bool \<Rightarrow> clip_entry list option" where
  "walk s w u ring borders = walk_list s borders [\<lparr>cc_window = w, cc_universe = u, cc_ring = ring\<rparr>]"

definition without_rings :: "clip_entry list \<Rightarrow> (u32 \<times> region_rect list) list" where
  "without_rings entries = map (\<lambda>(w, clip, _). (w, to_rects clip)) entries"

definition subtree_clip_lists :: "clip_scene \<Rightarrow> u32 \<Rightarrow> (u32 \<times> region_rect list) list option" where
  "subtree_clip_lists s w =
     Option.bind (universe s w) (\<lambda>u. map_option without_rings (walk s w u region_default False))"

text \<open>
  Siblings mapped together: each top takes its universe out of the map of shares, so a repeated
  top is walked once.
\<close>

fun take_universes :: "(u32 \<rightharpoonup> region) \<Rightarrow> u32 list \<Rightarrow> child_clip list" where
  "take_universes m [] = []"
| "take_universes m (t # ts) =
     (case m t of
        None \<Rightarrow> take_universes m ts
      | Some u \<Rightarrow> \<lparr>cc_window = t, cc_universe = u, cc_ring = region_default\<rparr> # take_universes (m(t := None)) ts)"

fun each_subtree :: "clip_scene \<Rightarrow> u32 list \<Rightarrow> (u32 \<times> region_rect list) list option" where
  "each_subtree s [] = Some []"
| "each_subtree s (t # ts) =
     Option.bind (subtree_clip_lists s t) (\<lambda>a. Option.bind (each_subtree s ts) (\<lambda>b. Some (a @ b)))"

definition subtrees_clip_lists :: "clip_scene \<Rightarrow> u32 list \<Rightarrow> (u32 \<times> region_rect list) list option" where
  "subtrees_clip_lists s tops =
     (let par = (case tops of [] \<Rightarrow> None | t # _ \<Rightarrow> map_option parent (cs_windows s t));
          siblings = (length tops > 1
            \<and> list_all (\<lambda>t. t \<noteq> ROOT_WINDOW \<and> map_option parent (cs_windows s t) = par) tops)
      in case (par, siblings) of
           (Some p, True) \<Rightarrow>
             Option.bind (universe s p) (\<lambda>u.
               let kids = snd (split_universe s p u False (\<lambda>_ c _. c \<in> set tops));
                   universes = map_of (rev (map (\<lambda>k. (cc_window k, cc_universe k)) kids))
               in map_option without_rings (walk_list s False (take_universes universes tops)))
         | _ \<Rightarrow> each_subtree s tops)"

section \<open>Changes\<close>

definition outer_rect :: "clip_scene \<Rightarrow> u32 \<Rightarrow> region_rect option" where
  "outer_rect s w = map_option outer_of (cs_windows s w)"

definition overlaps :: "region_rect \<Rightarrow> region_rect \<Rightarrow> bool" where
  "overlaps a b \<longleftrightarrow>
     sint (rx a) < sint (rx b) + uint (rwidth b) \<and> sint (rx b) < sint (rx a) + uint (rwidth a)
     \<and> sint (ry a) < sint (ry b) + uint (rheight b) \<and> sint (ry b) < sint (ry a) + uint (rheight a)"

text \<open>The parent's entry, then its wanted children with their subtrees.\<close>

definition layer_entries :: "clip_scene \<Rightarrow> u32 \<Rightarrow> (nat \<Rightarrow> u32 \<Rightarrow> region \<Rightarrow> bool) \<Rightarrow> clip_entry list option" where
  "layer_entries s par want =
     Option.bind (universe s par) (\<lambda>u.
       let sp = split_universe s par u True want in
       Option.bind (border_ring s par) (\<lambda>ring.
         Option.bind (walk_list s True (snd sp)) (\<lambda>below. Some ((par, fst sp, ring) # below))))"

definition clip_entries_under :: "clip_scene \<Rightarrow> u32 \<Rightarrow> clip_entry list option" where
  "clip_entries_under s w =
     (case cs_windows s w of
        None \<Rightarrow> Some []
      | Some win \<Rightarrow>
          let footprint = border_size s w;
              pos = position w (children_of (cs_windows s) (parent win))
          in layer_entries s (parent win)
               (\<lambda>i _ size. map_or False (\<lambda>k. i < k) pos \<and> \<not> is_empty (intersect size footprint)))"

definition clip_entries_of :: "clip_scene \<Rightarrow> u32 \<Rightarrow> u32 set \<Rightarrow> clip_entry list option" where
  "clip_entries_of s par members = layer_entries s par (\<lambda>_ c _. c \<in> members)"

record tree_change =
  tc_parent :: u32
  tc_members :: "u32 set"
  tc_before :: "clip_entry list"

text \<open>The outer \<open>None\<close> is divergence, the inner one the source's.\<close>

definition begin_change :: "clip_scene \<Rightarrow> u32 \<Rightarrow> region_rect option \<Rightarrow> tree_change option option" where
  "begin_change s w to_rect_opt =
     (if w = ROOT_WINDOW \<or> \<not> clip_viewable s w then Some None
      else case cs_windows s w of
             None \<Rightarrow> Some None
           | Some win \<Rightarrow>
               let extent = outer_of win # flatten [to_rect_opt];
                   members = set (filter (\<lambda>c. c = w \<or> (clip_viewable s c
                      \<and> map_or False (\<lambda>r. list_ex (\<lambda>e. overlaps r e) extent) (outer_rect s c)))
                      (children_of (cs_windows s) (parent win)))
               in map_option (\<lambda>b. Some \<lparr>tc_parent = parent win, tc_members = members, tc_before = b\<rparr>)
                    (clip_entries_of s (parent win) members))"

record exposure =
  ex_window :: u32
  ex_region :: "region_rect list"
  ex_border :: "region_rect list"

text \<open>\<open>index.entry(w).or_insert(i)\<close>: the first entry of a window.\<close>

definition entry_for :: "clip_entry list \<Rightarrow> u32 \<Rightarrow> clip_entry option" where
  "entry_for entries w = List.find (\<lambda>e. fst e = w) entries"

definition newly_exposed :: "clip_entry list \<Rightarrow> clip_entry list \<Rightarrow> u32 option \<Rightarrow> exposure list" where
  "newly_exposed earlier later whole =
     flatten (map (\<lambda>(w, rgn, ring).
       let old = entry_for earlier w;
           rgn' = (case old of
                     Some (_, old_region, _) \<Rightarrow> if Some w \<noteq> whole then subtract rgn old_region else rgn
                   | None \<Rightarrow> rgn);
           bord = (case old of Some (_, _, old_ring) \<Rightarrow> subtract ring old_ring | None \<Rightarrow> ring)
       in if \<not> is_empty rgn' \<or> \<not> is_empty bord
          then Some \<lparr>ex_window = w, ex_region = to_rects rgn', ex_border = to_rects bord\<rparr> else None) later)"

definition exposed :: "tree_change \<Rightarrow> clip_scene \<Rightarrow> u32 option \<Rightarrow> exposure list option" where
  "exposed ch s whole =
     map_option (\<lambda>later. newly_exposed (tc_before ch) later whole) (clip_entries_of s (tc_parent ch) (tc_members ch))"

end
