(* ===== verification/Clip_Regions.thy ===== *)
theory Clip_Regions
  imports Clip_Lists
begin

text \<open>
  The pixels of the clip regions. Every region of the computation is canonical and small, so
  that the set meaning of the region operations applies to all of them and no translation
  leaves \<open>i32\<close>.
\<close>

section \<open>Small regions\<close>

definition square :: "int \<Rightarrow> (int \<times> int) set" where
  "square n = {(x, y). - n \<le> x \<and> x < n \<and> - n \<le> y \<and> y < n}"

definition fine :: "int \<Rightarrow> region \<Rightarrow> bool" where
  "fine n r \<longleftrightarrow> canonical_region r \<and> points r \<subseteq> square n"

lemma square_mono: "n \<le> m \<Longrightarrow> square n \<subseteq> square m"
  by (auto simp: square_def)

lemma fine_mono: "fine n r \<Longrightarrow> n \<le> m \<Longrightarrow> fine m r"
  using square_mono by (auto simp: fine_def)

lemma fine_default [simp]: "fine n region_default"
  by (simp add: fine_def canonical.meaning)

lemma fine_canonical: "fine n r \<Longrightarrow> canonical_region r"
  by (simp add: fine_def)

lemma is_empty_iff: "canonical_region r \<Longrightarrow> is_empty r \<longleftrightarrow> points r = {}"
  using canonical.empty_iff [of r] by (cases r) (auto simp: is_empty_def region_default_def)

lemma box_corners:
  assumes "has_area b" "box_pts b \<subseteq> square n"
  shows "- n \<le> bx1 b \<and> bx2 b \<le> n \<and> - n \<le> by1 b \<and> by2 b \<le> n \<and> bx1 b \<le> n \<and> - n \<le> bx2 b \<and> by1 b \<le> n \<and> - n \<le> by2 b"
proof -
  have "(bx1 b, by1 b) \<in> box_pts b" "(bx2 b - 1, by2 b - 1) \<in> box_pts b"
    using assms(1) by (auto simp: box_pts_def has_area_def)
  then have "(bx1 b, by1 b) \<in> square n" "(bx2 b - 1, by2 b - 1) \<in> square n" using assms(2) by blast+
  then show ?thesis by (auto simp: square_def)
qed

lemma fine_moves:
  assumes "fine n r" "n + \<bar>dx\<bar> < 2 ^ 31" "n + \<bar>dy\<bar> < 2 ^ 31"
  shows "moves_in_i32 r dx dy"
  unfolding moves_in_i32_def
proof
  fix b assume b: "b \<in> set (boxes r)"
  then have "has_area b" using assms(1) banded_has_area by (auto simp: fine_def region_ok_def)
  moreover have "box_pts b \<subseteq> square n" using assms(1) b by (auto simp: fine_def points_def pts_def)
  ultimately show "in_i32 (bx1 b + dx) \<and> in_i32 (bx2 b + dx) \<and> in_i32 (by1 b + dy) \<and> in_i32 (by2 b + dy)"
    using box_corners [of b n] assms(2,3) unfolding in_i32_def by linarith
qed

lemma fine_translate:
  assumes "fine n r" "n + \<bar>dx\<bar> < 2 ^ 31" "n + \<bar>dy\<bar> < 2 ^ 31"
  shows "canonical_region (translate r dx dy)" and "(x, y) \<in> points (translate r dx dy) \<longleftrightarrow> (x - dx, y - dy) \<in> points r"
  using translate_ok [OF _ fine_moves [OF assms], of 1] assms(1) by (simp_all add: fine_def)

lemma fine_ops:
  "fine n a \<Longrightarrow> canonical_region b \<Longrightarrow> fine n (intersect a b)"
  "canonical_region a \<Longrightarrow> fine n b \<Longrightarrow> fine n (intersect a b)"
  "fine n a \<Longrightarrow> canonical_region b \<Longrightarrow> fine n (subtract a b)"
  by (auto simp: fine_def canonical.meaning)

section \<open>Sizes\<close>

definition rect_pts :: "region_rect \<Rightarrow> (int \<times> int) set" where
  "rect_pts r = {(x, y). sint (rx r) \<le> x \<and> x < sint (rx r) + uint (rwidth r)
     \<and> sint (ry r) \<le> y \<and> y < sint (ry r) + uint (rheight r)}"

lemma rect_ok: "canonical_region (rect r)" "points (rect r) = rect_pts r"
  by (auto simp: rect_def Let_def region_ok_def banded_box region_default_def points_def has_area_def
      box_pts_def rect_pts_def)

lemma rect_fine: "fine 131072 (rect r)"
proof -
  have "rect_pts r \<subseteq> square 131072"
    using sint_i16_bounds [of "rx r"] sint_i16_bounds [of "ry r"] uint_u16_bounds [of "rwidth r"] uint_u16_bounds [of "rheight r"]
    by (auto simp: rect_pts_def square_def)
  then show ?thesis by (simp add: fine_def rect_ok)
qed

text \<open>Shapes are canonical regions of moderate extent; the windows form a tree.\<close>

definition shape_fine :: "shape_window_state \<Rightarrow> bool" where
  "shape_fine sh \<longleftrightarrow> (\<forall>r \<in> set (flatten [bounding sh, clip_shape sh]). fine (2 ^ 30) r)"

definition scene_ok :: "clip_scene \<Rightarrow> bool" where
  "scene_ok s \<longleftrightarrow> table_ok (cs_windows s) \<and> (\<forall>w sh. cs_shapes s w = Some sh \<longrightarrow> shape_fine sh)"

lemma scene_okD: "scene_ok s \<Longrightarrow> table_ok (cs_windows s)" "scene_ok s \<Longrightarrow> cs_shapes s w = Some sh \<Longrightarrow> shape_fine sh"
  by (auto simp: scene_ok_def)

lemma offset_small: "\<bar>sint (x :: i16) + uint (b :: u16)\<bar> < 131072"
  using sint_i16_bounds [of x] uint_u16_bounds [of b] by linarith

definition shape_pts :: "clip_scene \<Rightarrow> u32 \<Rightarrow> (shape_window_state \<Rightarrow> region option) \<Rightarrow> (int \<times> int) set" where
  "shape_pts s w f = (case Option.bind (cs_shapes s w) f of None \<Rightarrow> UNIV | Some r \<Rightarrow> points r)"

lemma border_size_ok:
  assumes "scene_ok s"
  shows "fine 131072 (border_size s w)"
    and "cs_windows s w = Some win \<Longrightarrow> (x, y) \<in> points (border_size s w) \<longleftrightarrow> (x, y) \<in> rect_pts (outer_of win)
      \<and> (x - (sint (wx win) + uint (border_width win)), y - (sint (wy win) + uint (border_width win))) \<in> shape_pts s w bounding"
    and "cs_windows s w = None \<Longrightarrow> points (border_size s w) = {}"
proof -
  have tr: "canonical_region (translate r (sint (wx win) + uint (border_width win)) (sint (wy win) + uint (border_width win)))"
    "(x, y) \<in> points (translate r (sint (wx win) + uint (border_width win)) (sint (wy win) + uint (border_width win)))
      \<longleftrightarrow> (x - (sint (wx win) + uint (border_width win)), y - (sint (wy win) + uint (border_width win))) \<in> points r"
    if "Option.bind (cs_shapes s w) bounding = Some r" for r x y win
  proof -
    have f: "fine (2 ^ 30) r"
      using that assms by (auto simp: scene_ok_def shape_fine_def bind_eq_Some_conv)
    have "2 ^ 30 + \<bar>sint (wx win) + uint (border_width win)\<bar> < 2 ^ 31" "2 ^ 30 + \<bar>sint (wy win) + uint (border_width win)\<bar> < 2 ^ 31"
      using offset_small [of "wx win" "border_width win"] offset_small [of "wy win" "border_width win"] by simp_all
    from fine_translate [OF f this] show "canonical_region (translate r (sint (wx win) + uint (border_width win)) (sint (wy win) + uint (border_width win)))"
      "(x, y) \<in> points (translate r (sint (wx win) + uint (border_width win)) (sint (wy win) + uint (border_width win)))
      \<longleftrightarrow> (x - (sint (wx win) + uint (border_width win)), y - (sint (wy win) + uint (border_width win))) \<in> points r" by simp_all
  qed
  show "fine 131072 (border_size s w)"
    unfolding border_size_def Let_def
    by (auto split: option.splits intro!: rect_fine fine_ops(1) [OF rect_fine] tr(1))
  show "(x, y) \<in> points (border_size s w) \<longleftrightarrow> (x, y) \<in> rect_pts (outer_of win)
      \<and> (x - (sint (wx win) + uint (border_width win)), y - (sint (wy win) + uint (border_width win))) \<in> shape_pts s w bounding"
    if "cs_windows s w = Some win"
  proof (cases "Option.bind (cs_shapes s w) bounding")
    case None
    then show ?thesis using that by (simp add: border_size_def Let_def shape_pts_def rect_ok)
  next
    case (Some r)
    then show ?thesis using that tr(1) [OF Some, of win] tr(2) [OF Some, of x y win]
      canonical.meaning(3) [OF rect_ok(1) tr(1) [OF Some, of win]] by (simp add: border_size_def Let_def shape_pts_def rect_ok canonical.meaning)
  qed
  show "cs_windows s w = None \<Longrightarrow> points (border_size s w) = {}"
    by (simp add: border_size_def canonical.meaning)
qed

definition content_pts :: "window \<Rightarrow> (int \<times> int) set" where
  "content_pts win = {(x, y). 0 \<le> x \<and> x < uint (wwidth win) \<and> 0 \<le> y \<and> y < uint (wheight win)}"

lemma win_size_ok:
  assumes "scene_ok s"
  shows "fine 65536 (win_size s w)"
    and "cs_windows s w = Some win \<Longrightarrow> points (win_size s w) = content_pts win \<inter> shape_pts s w bounding \<inter> shape_pts s w clip_shape"
    and "cs_windows s w = None \<Longrightarrow> points (win_size s w) = {}"
proof -
  let ?r0 = "\<lambda>win. rect \<lparr>rx = 0, ry = 0, rwidth = wwidth win, rheight = wheight win\<rparr>"
  have r0: "points (?r0 win) = content_pts win" "fine 65536 (?r0 win)" for win
    using uint_u16_bounds [of "wwidth win"] uint_u16_bounds [of "wheight win"]
    by (auto simp: fine_def rect_ok rect_pts_def content_pts_def square_def)
  have sh: "canonical_region r" if "cs_shapes s w = Some st" "bounding st = Some r \<or> clip_shape st = Some r" for st r
    using assms that by (auto simp: scene_ok_def shape_fine_def fine_def)
  have w: "win_size s w = (case cs_windows s w of None \<Rightarrow> region_default | Some win \<Rightarrow>
      (case cs_shapes s w of None \<Rightarrow> ?r0 win | Some st \<Rightarrow>
        (case bounding st of None \<Rightarrow> (case clip_shape st of None \<Rightarrow> ?r0 win | Some c \<Rightarrow> intersect (?r0 win) c)
         | Some b \<Rightarrow> (case clip_shape st of None \<Rightarrow> intersect (?r0 win) b | Some c \<Rightarrow> intersect (intersect (?r0 win) b) c))))"
    by (simp add: win_size_def Let_def flatten_def List.map_filter_simps split: option.splits)
  show "fine 65536 (win_size s w)"
    unfolding w by (auto simp: r0 split: option.splits intro!: fine_ops(1) sh)
  show "points (win_size s w) = content_pts win \<inter> shape_pts s w bounding \<inter> shape_pts s w clip_shape" if "cs_windows s w = Some win"
    using that sh r0(2) [of win] unfolding w
    by (auto simp: r0 shape_pts_def canonical.meaning fine_def split: option.splits)
  show "cs_windows s w = None \<Longrightarrow> points (win_size s w) = {}"
    by (simp add: win_size_def canonical.meaning)
qed

section \<open>Covering\<close>

text \<open>What the viewable, opaque windows of a list cover in their parent.\<close>

definition covers :: "clip_scene \<Rightarrow> u32 list \<Rightarrow> u32 list \<Rightarrow> (int \<times> int) set" where
  "covers s also_transparent cs =
     (\<Union>c \<in> {c \<in> set cs. clip_viewable s c \<and> \<not> transparent s c \<and> c \<notin> set also_transparent}. points (border_size s c))"

lemma covers_simps [simp]:
  "covers s t [] = {}"
  "covers s t (c # cs) = (if clip_viewable s c \<and> \<not> transparent s c \<and> c \<notin> set t then points (border_size s c) else {}) \<union> covers s t cs"
  "covers s t (cs @ ds) = covers s t cs \<union> covers s t ds"
  by (auto simp: covers_def)

lemma covers_rev [simp]: "covers s t (rev cs) = covers s t cs"
  by (simp add: covers_def)

lemma subtract_above_ok:
  assumes "scene_ok s"
  shows "fine n u \<Longrightarrow> fine n (subtract_above s t cs u) \<and> points (subtract_above s t cs u) = points u - covers s t cs"
proof (induction cs arbitrary: u)
  case (Cons c cs)
  note b = fine_canonical [OF border_size_ok(1) [OF assms]]
  let ?on = "clip_viewable s c \<and> \<not> transparent s c \<and> c \<notin> set t"
  let ?u = "if ?on then subtract u (border_size s c) else u"
  have u: "fine n ?u" "points ?u = points u - (if ?on then points (border_size s c) else {})"
    using Cons.prems b by (auto simp: fine_ops canonical.meaning fine_canonical)
  show ?case
  proof (cases "is_empty u")
    case True
    then show ?thesis using Cons.prems by (simp add: is_empty_iff [OF fine_canonical])
  next
    case False
    then have "subtract_above s t (c # cs) u = subtract_above s t cs ?u" by simp
    then show ?thesis using Cons.IH [OF u(1)] u(2) by auto
  qed
qed simp

lemma subtract_children_eq: "subtract_children s cs u = subtract_above s [] cs u"
  by (induction s cs u rule: subtract_children.induct) simp_all

end
