(* ===== verification/Clip_Walk.thy ===== *)
theory Clip_Walk
  imports Clip_Regions
begin

text \<open>
  The recursions of the clip lists. A pixel-wise specification, \<open>visible\<close>, says what of a window is
  not hidden by its ancestors' edges or by what is stacked above; \<open>universe\<close> computes it on
  every table of the invariant, the layer split gives each child what it would compute for
  itself, and the walk visits each viewable inferior once.
\<close>

section \<open>The specification of a universe\<close>

definition above :: "clip_scene \<Rightarrow> u32 \<Rightarrow> u32 \<Rightarrow> u32 list" where
  "above s par c = (case position c (children_of (cs_windows s) par) of
     None \<Rightarrow> [] | Some k \<Rightarrow> drop (k + 1) (children_of (cs_windows s) par))"

inductive visible :: "clip_scene \<Rightarrow> u32 \<Rightarrow> int \<times> int \<Rightarrow> bool" for s where
  root: "cs_windows s ROOT_WINDOW = Some win \<Longrightarrow> p \<in> content_pts win \<Longrightarrow> visible s ROOT_WINDOW p"
| alone: "w \<noteq> ROOT_WINDOW \<Longrightarrow> clip_viewable s w \<Longrightarrow> redirected s w \<Longrightarrow> p \<in> points (win_size s w) \<Longrightarrow> visible s w p"
| inside: "w \<noteq> ROOT_WINDOW \<Longrightarrow> clip_viewable s w \<Longrightarrow> \<not> redirected s w \<Longrightarrow> cs_windows s w = Some win
    \<Longrightarrow> content_offset s w = Some (dx, dy, bw) \<Longrightarrow> visible s (parent win) (x + dx, y + dy)
    \<Longrightarrow> (x + dx, y + dy) \<notin> covers s [] (above s (parent win) w)
    \<Longrightarrow> (x, y) \<in> points (win_size s w) \<Longrightarrow> visible s w (x, y)"

inductive_cases visible_elim: "visible s w p"

lemma visible_root: "visible s ROOT_WINDOW p \<longleftrightarrow> (\<exists>win. cs_windows s ROOT_WINDOW = Some win \<and> p \<in> content_pts win)"
  by (auto elim: visible_elim intro: root)

lemma visible_hidden: "\<not> clip_viewable s w \<Longrightarrow> \<not> visible s w p"
  by (auto elim: visible_elim simp: clip_viewable_def)

lemma visible_alone: "w \<noteq> ROOT_WINDOW \<Longrightarrow> clip_viewable s w \<Longrightarrow> redirected s w \<Longrightarrow> visible s w p \<longleftrightarrow> p \<in> points (win_size s w)"
  by (auto elim: visible_elim intro: alone)

lemma visible_inside:
  "w \<noteq> ROOT_WINDOW \<Longrightarrow> clip_viewable s w \<Longrightarrow> \<not> redirected s w \<Longrightarrow> cs_windows s w = Some win
    \<Longrightarrow> content_offset s w = Some (dx, dy, bw) \<Longrightarrow>
    visible s w (x, y) \<longleftrightarrow> visible s (parent win) (x + dx, y + dy)
      \<and> (x + dx, y + dy) \<notin> covers s [] (above s (parent win) w) \<and> (x, y) \<in> points (win_size s w)"
  by (rule iffI, erule visible_elim) (auto intro: inside)

section \<open>One step down\<close>

lemma content_offset_small: "content_offset s c = Some (dx, dy, bw) \<Longrightarrow> \<bar>dx\<bar> < 131072 \<and> \<bar>dy\<bar> < 131072"
  using offset_small by (auto simp: content_offset_def Let_def)

lemma down_ok:
  assumes "fine 131072 u" "content_offset s c = Some (dx, dy, bw)"
  shows "canonical_region (translate u (- dx) (- dy))"
    and "(x, y) \<in> points (translate u (- dx) (- dy)) \<longleftrightarrow> (x + dx, y + dy) \<in> points u"
  using fine_translate [OF assms(1), of "- dx" "- dy"] content_offset_small [OF assms(2)] by auto

lemma uncovered_ok:
  assumes s: "scene_ok s" and u: "fine 131072 u" and off: "content_offset s c = Some (dx, dy, bw)"
  shows "canonical_region (uncovered_in_child_space s u par c t)"
    and "(x, y) \<in> points (uncovered_in_child_space s u par c t)
      \<longleftrightarrow> (x + dx, y + dy) \<in> points u \<and> (x + dx, y + dy) \<notin> covers s t (above s par c)"
proof -
  have e: "uncovered_in_child_space s u par c t = translate (subtract_above s t (above s par c) u) (- dx) (- dy)"
    by (cases "position c (children_of (cs_windows s) par)") (auto simp: uncovered_in_child_space_def off above_def Let_def simp del: position_None_iff)
  note a = subtract_above_ok [OF s u, of t "above s par c"]
  show "canonical_region (uncovered_in_child_space s u par c t)"
    "(x, y) \<in> points (uncovered_in_child_space s u par c t)
      \<longleftrightarrow> (x + dx, y + dy) \<in> points u \<and> (x + dx, y + dy) \<notin> covers s t (above s par c)"
    unfolding e using down_ok [OF conjunct1 [OF a] off] a by simp_all
qed

lemma child_universe_ok:
  assumes s: "scene_ok s" and u: "fine 131072 u"
    and c: "clip_viewable s c" "\<not> redirected s c" and off: "content_offset s c = Some (dx, dy, bw)"
  shows "fine 131072 (child_universe s u par c t)"
    and "(x, y) \<in> points (child_universe s u par c t) \<longleftrightarrow>
      (x + dx, y + dy) \<in> points u \<and> (x + dx, y + dy) \<notin> covers s t (above s par c) \<and> (x, y) \<in> points (win_size s c)"
proof -
  note un = uncovered_ok [OF s u off, where par = par and t = t]
  have w: "fine 131072 (win_size s c)" using win_size_ok(1) [OF s] by (rule fine_mono) simp
  show "fine 131072 (child_universe s u par c t)"
    using c un(1) w by (simp add: child_universe_def fine_ops)
  show "(x, y) \<in> points (child_universe s u par c t) \<longleftrightarrow>
      (x + dx, y + dy) \<in> points u \<and> (x + dx, y + dy) \<notin> covers s t (above s par c) \<and> (x, y) \<in> points (win_size s c)"
    using c un is_empty_iff [OF fine_canonical [OF u]] fine_canonical [OF w]
    by (auto simp: child_universe_def canonical.meaning)
qed

section \<open>Universes\<close>

lemma universe_unfold:
  assumes "clip_viewable s w" "w \<noteq> ROOT_WINDOW" "\<not> redirected s w" "cs_windows s w = Some win"
  shows "universe s w = map_option (\<lambda>u. child_universe s u (parent win) w []) (universe s (parent win))"
  using assms by (subst universe.simps) (simp add: map_option_case split: bind_splits option.splits)

lemma universe_depth:
  assumes s: "scene_ok s"
  shows "at_depth (shape (cs_windows s)) n w \<Longrightarrow>
    \<exists>u. universe s w = Some u \<and> fine 131072 u \<and> points u = {p. visible s w p}"
proof (induction n arbitrary: w)
  case 0
  then have w: "w = ROOT_WINDOW" by simp
  have "universe s w = Some (root_universe s)" by (subst universe.simps) (simp add: w clip_viewable_def)
  moreover have "fine 131072 (root_universe s)" by (cases "cs_windows s ROOT_WINDOW") (simp_all add: root_universe_def map_or_def rect_fine)
  moreover have "points (root_universe s) = {p. visible s w p}"
    by (cases "cs_windows s ROOT_WINDOW")
      (auto simp: root_universe_def map_or_def w visible_root content_pts_def rect_ok rect_pts_def canonical.meaning)
  ultimately show ?case by blast
next
  case (Suc n)
  from Suc.prems obtain win where win: "cs_windows s w = Some win" "w \<noteq> ROOT_WINDOW" "at_depth (shape (cs_windows s)) n (parent win)"
    by (cases "shape (cs_windows s) w") (auto simp: shape_eq)
  then obtain dx dy bw where off: "content_offset s w = Some (dx, dy, bw)" by (auto simp: content_offset_def Let_def)
  note w = win_size_ok(1) [OF s, of w]
  consider "\<not> clip_viewable s w" | "clip_viewable s w" "redirected s w" | "clip_viewable s w" "\<not> redirected s w" by blast
  then show ?case
  proof cases
    case 1
    then have "universe s w = Some region_default" by (subst universe.simps) simp
    then show ?thesis using visible_hidden [OF 1] by (simp add: canonical.meaning)
  next
    case 2
    then have "universe s w = Some (win_size s w)" by (subst universe.simps) (simp add: win)
    then show ?thesis using visible_alone [OF win(2) 2] fine_mono [OF w] by simp
  next
    case 3
    from Suc.IH [OF win(3)] obtain u where u: "universe s (parent win) = Some u" "fine 131072 u"
      "points u = {p. visible s (parent win) p}" by blast
    note c = child_universe_ok [OF s u(2) 3 off, where par = "parent win" and t = "[]"]
    have "universe s w = Some (child_universe s u (parent win) w [])"
      using universe_unfold [OF 3(1) win(2) 3(2) win(1)] u(1) by simp
    then show ?thesis using c visible_inside [OF win(2) 3 win(1) off] u(3) by auto
  qed
qed

lemma universe_ok:
  assumes s: "scene_ok s" and "cs_windows s w \<noteq> None"
  shows "\<exists>u. universe s w = Some u \<and> fine 131072 u \<and> points u = {p. visible s w p}"
proof -
  obtain win where "cs_windows s w = Some win" using assms(2) by blast
  then have "shape (cs_windows s) w = Some (parent win, children win)" by (simp add: shape_def)
  then obtain n where "at_depth (shape (cs_windows s)) n w"
    using tree_depth [OF table_okD(1) [OF scene_okD(1) [OF s]]] by blast
  then show ?thesis by (rule universe_depth [OF s])
qed

section \<open>Splitting a layer\<close>

abbreviation after_child :: "clip_scene \<Rightarrow> u32 \<Rightarrow> region \<Rightarrow> region" where
  "after_child s c u \<equiv> if \<not> is_empty u \<and> \<not> transparent s c then subtract u (border_size s c) else u"

lemma split_loop_skip:
  "\<not> clip_viewable s c \<or> content_offset s c = None \<Longrightarrow> split_loop s b want ((i, c) # L) u = split_loop s b want L u"
  by (cases "content_offset s c") auto

lemma split_loop_take:
  "clip_viewable s c \<Longrightarrow> content_offset s c = Some off \<Longrightarrow> split_loop s b want ((i, c) # L) u =
    (fst (split_loop s b want L (after_child s c u)),
     (if want i c (border_size s c) then [child_share s b u c off] else []) @ snd (split_loop s b want L (after_child s c u)))"
  by (simp add: Let_def)

lemma split_loop_left:
  assumes s: "scene_ok s"
  shows "fine n u \<Longrightarrow> fine n (fst (split_loop s b want L u))
    \<and> points (fst (split_loop s b want L u)) = points u - covers s [] (map snd L)"
proof (induction L arbitrary: u)
  case (Cons ic L)
  obtain i c where ic: "ic = (i, c)" by (cases ic)
  note bs = fine_canonical [OF border_size_ok(1) [OF s]]
  have u: "fine n (after_child s c u)" "points (after_child s c u) = points u - (if transparent s c then {} else points (border_size s c))"
    using Cons.prems bs by (auto simp: fine_ops canonical.meaning fine_canonical is_empty_iff [OF fine_canonical])
  have none: "points (border_size s c) = {}" if "content_offset s c = None"
    using that border_size_ok(3) [OF s] by (simp add: content_offset_def)
  show ?case
  proof (cases "clip_viewable s c \<and> content_offset s c \<noteq> None")
    case True
    then obtain off where "content_offset s c = Some off" by blast
    then show ?thesis using split_loop_take [of s c off b want i L u] Cons.IH [OF u(1)] u(2) True by (auto simp: ic simp del: split_loop.simps)
  next
    case False
    then have "split_loop s b want (ic # L) u = split_loop s b want L u" unfolding ic by (intro split_loop_skip) blast
    moreover have "clip_viewable s c \<Longrightarrow> points (border_size s c) = {}" using False none by blast
    ultimately show ?thesis using Cons.IH [OF Cons.prems] by (auto simp: ic simp del: split_loop.simps)
  qed
qed simp

lemma split_loop_windows:
  "map cc_window (snd (split_loop s b want L u)) =
    map snd (filter (\<lambda>(i, c). clip_viewable s c \<and> content_offset s c \<noteq> None \<and> want i c (border_size s c)) L)"
proof (induction L arbitrary: u)
  case (Cons ic L)
  obtain i c where ic: "ic = (i, c)" by (cases ic)
  have w: "cc_window (child_share s b u c off) = c" for off by (cases off) (simp add: child_share_def Let_def)
  show ?case
  proof (cases "clip_viewable s c \<and> content_offset s c \<noteq> None")
    case True
    then obtain off where "content_offset s c = Some off" by blast
    then show ?thesis using split_loop_take [of s c off b want i L u] Cons.IH True w [of off]
      by (cases off) (simp add: ic del: split_loop.simps)
  next
    case False
    then have "split_loop s b want (ic # L) u = split_loop s b want L u" unfolding ic by (intro split_loop_skip) blast
    then show ?thesis using Cons.IH False by (auto simp: ic simp del: split_loop.simps)
  qed
qed simp

lemma split_loop_shares:
  assumes s: "scene_ok s"
  shows "fine n u \<Longrightarrow> k \<in> set (snd (split_loop s b want L u)) \<Longrightarrow>
    \<exists>pre i c post off u'. L = pre @ (i, c) # post \<and> clip_viewable s c \<and> content_offset s c = Some off
      \<and> k = child_share s b u' c off \<and> fine n u' \<and> points u' = points u - covers s [] (map snd pre)"
proof (induction L arbitrary: u)
  case (Cons ic L)
  obtain i c where ic: "ic = (i, c)" by (cases ic)
  let ?u = "fst (split_loop s b want [ic] u)"
  have u: "fine n ?u" "points ?u = points u - covers s [] [c]"
    using split_loop_left [OF s Cons.prems(1), of b want "[ic]"] unfolding ic by auto
  have "k \<in> set (snd (split_loop s b want L ?u))
      \<or> clip_viewable s c \<and> (\<exists>off. content_offset s c = Some off \<and> k = child_share s b u c off)"
  proof (cases "clip_viewable s c \<and> content_offset s c \<noteq> None")
    case True
    then obtain off where off: "content_offset s c = Some off" by blast
    show ?thesis using Cons.prems(2) True off split_loop_take [of s c off b want i L u] split_loop_take [of s c off b want i "[]" u]
      by (auto simp: ic simp del: split_loop.simps(2) split: if_splits)
  next
    case False
    then have "split_loop s b want (ic # L') u = split_loop s b want L' u" for L' unfolding ic by (intro split_loop_skip) blast
    then show ?thesis using Cons.prems(2) by simp
  qed
  then show ?case
  proof
    assume "k \<in> set (snd (split_loop s b want L ?u))"
    from Cons.IH [OF u(1) this] obtain pre i' c' post off u' where r: "L = pre @ (i', c') # post" "clip_viewable s c'"
      "content_offset s c' = Some off" "k = child_share s b u' c' off" "fine n u'" "points u' = points ?u - covers s [] (map snd pre)"
      by blast
    have "ic # L = (ic # pre) @ (i', c') # post" "points u' = points u - covers s [] (map snd (ic # pre))"
      using r(1,6) u(2) by (auto simp: ic)
    then show ?thesis using r(2-5) by blast
  next
    assume "clip_viewable s c \<and> (\<exists>off. content_offset s c = Some off \<and> k = child_share s b u c off)"
    moreover have "ic # L = [] @ (i, c) # L" "points u = points u - covers s [] (map snd [])" by (simp_all add: ic)
    ultimately show ?thesis using Cons.prems(1) by blast
  qed
qed simp

lemma rev_enumerate_split:
  assumes "rev (List.enumerate 0 cs) = pre @ (i, c) # post" "distinct cs"
  shows "position c cs = Some i" "drop (i + 1) cs = rev (map snd pre)"
proof -
  have e: "List.enumerate 0 cs = rev post @ (i, c) # rev pre" using arg_cong [OF assms(1), of rev] by simp
  have cs: "cs = map snd (rev post) @ c # rev (map snd pre)"
    using arg_cong [OF e, of "map snd"] by (simp add: rev_map)
  have "List.enumerate 0 cs ! length post = (i, c)" "length post < length cs"
    unfolding e using cs by (simp_all add: nth_append)
  then have i: "i = length post" by (simp add: nth_enumerate_eq)
  show "drop (i + 1) cs = rev (map snd pre)" by (subst cs) (simp add: i)
  have "c \<in> set cs" using cs by (metis in_set_conv_decomp)
  then obtain j where j: "position c cs = Some j" by (meson not_None_eq position_None_iff)
  have "cs ! length post = c" by (subst cs) (simp add: nth_append)
  then show "position c cs = Some i" using j position_Some_lt [OF j] i \<open>length post < length cs\<close> assms(2)
    by (metis nth_eq_iff_index_eq)
qed

section \<open>A child's share is what it computes for itself\<close>

text \<open>The outer width saturates at 65535, so that the content of a wider window may reach beyond it.\<close>

definition narrow :: "clip_scene \<Rightarrow> u32 \<Rightarrow> bool" where
  "narrow s w \<longleftrightarrow> (case cs_windows s w of None \<Rightarrow> True
     | Some win \<Rightarrow> uint (wwidth win) + uint (border_width win) \<le> 65535 \<and> uint (wheight win) + uint (border_width win) \<le> 65535)"

lemma inside_saturated:
  "0 \<le> x \<Longrightarrow> x < w \<Longrightarrow> 0 \<le> b \<Longrightarrow> w + b \<le> (65535 :: int) \<Longrightarrow> x + b < min 65535 (w + min 65535 (b * 2))"
  by (auto simp: min_def)

lemma content_in_outer:
  assumes s: "scene_ok s" and n: "narrow s c" and off: "content_offset s c = Some (dx, dy, bw)" and p: "(x, y) \<in> points (win_size s c)"
  shows "(x + dx, y + dy) \<in> points (border_size s c)"
proof -
  obtain win where win: "cs_windows s c = Some win" "dx = sint (wx win) + uint (border_width win)" "dy = sint (wy win) + uint (border_width win)"
    using off by (auto simp: content_offset_def Let_def)
  have p: "(x, y) \<in> content_pts win" "(x, y) \<in> shape_pts s c bounding" using p win_size_ok(2) [OF s win(1)] by auto
  have "uint (wwidth win) + uint (border_width win) \<le> 65535" "uint (wheight win) + uint (border_width win) \<le> 65535"
    using n win(1) by (simp_all add: narrow_def)
  note inside = inside_saturated [OF _ _ uint_u16_bounds(1) this(1)] inside_saturated [OF _ _ uint_u16_bounds(1) this(2)]
  have "(x + dx, y + dy) \<in> rect_pts (outer_of win)"
    using inside(1) [of x] inside(2) [of y] \<open>(x, y) \<in> content_pts win\<close> uint_u16_bounds(1) [of "border_width win"]
    by (simp add: rect_pts_def outer_of_def Let_def uint_u16_saturating_add uint_u16_saturating_mul content_pts_def win(2,3) add.commute add.left_commute)
  then show ?thesis using \<open>(x, y) \<in> shape_pts s c bounding\<close> border_size_ok(2) [OF s win(1), of "x + dx" "y + dy"] win(2,3) by simp
qed

lemma split_universe_share:
  assumes s: "scene_ok s" and u: "fine 131072 u" and par: "cs_windows s par \<noteq> None"
    and k: "k \<in> set (snd (split_universe s par u b want))"
  obtains c off u' where "c \<in> set (children_of (cs_windows s) par)" "clip_viewable s c" "content_offset s c = Some off"
    "k = child_share s b u' c off" "fine 131072 u'" "points u' = points u - covers s [] (above s par c)"
proof -
  from split_loop_shares [OF s u k [unfolded split_universe_def]] obtain pre i c post off u'
    where r: "rev (List.enumerate 0 (children_of (cs_windows s) par)) = pre @ (i, c) # post" "clip_viewable s c"
      "content_offset s c = Some off" "k = child_share s b u' c off" "fine 131072 u'" "points u' = points u - covers s [] (map snd pre)"
    by blast
  obtain pw where pw: "cs_windows s par = Some pw" using par by blast
  have "distinct (children_of (cs_windows s) par)"
    using tree_distinct [OF table_okD(1) [OF scene_okD(1) [OF s]], of par] pw by (simp add: children_of_shape shape_def)
  note p = rev_enumerate_split [OF r(1) this]
  have "covers s [] (above s par c) = covers s [] (map snd pre)" using p by (simp add: above_def)
  moreover have "c \<in> set (children_of (cs_windows s) par)" using p(1) position_Some_lt nth_mem by metis
  ultimately show thesis using that r(2-6) by simp
qed

lemma share_universe:
  assumes s: "scene_ok s" and u: "fine 131072 u" and u': "fine 131072 u'" "points u' = points u - covers s [] (above s par c)"
    and c: "clip_viewable s c" "content_offset s c = Some off" "narrow s c"
  shows "cc_universe (child_share s b u' c off) = child_universe s u par c []"
proof (cases "redirected s c")
  case True
  then show ?thesis using c(1) by (cases off) (simp add: child_share_def Let_def child_universe_def)
next
  case False
  obtain dx dy bw where off: "off = (dx, dy, bw)" by (cases off)
  note bs = fine_canonical [OF border_size_ok(1) [OF s]] and ws = fine_canonical [OF win_size_ok(1) [OF s]]
  have clip: "fine 131072 (intersect u' (border_size s c))" "points (intersect u' (border_size s c)) = points u' \<inter> points (border_size s c)"
    using u'(1) bs by (simp_all add: fine_ops canonical.meaning fine_canonical)
  note d = down_ok [OF clip(1), of s c dx dy bw]
  note cu = child_universe_ok [OF s u c(1) False, of dx dy bw, where par = par and t = "[]"]
  let ?l = "intersect (translate (intersect u' (border_size s c)) (- dx) (- dy)) (win_size s c)"
  have "?l = child_universe s u par c []"
  proof (rule canonical.ext)
    show "canonical_region ?l" using d(1) c(2) off ws by (simp add: canonical.meaning)
    show "canonical_region (child_universe s u par c [])" using fine_canonical [OF cu(1)] c(2) off by simp
    show "points ?l = points (child_universe s u par c [])"
      using d c(2) off ws cu(2) content_in_outer [OF s c(3)] clip(2) u'(2) by (auto simp: canonical.meaning)
  qed
  then show ?thesis using False by (simp add: child_share_def Let_def off)
qed

lemma share_ring:
  assumes s: "scene_ok s" and u: "fine 131072 u" "universe s (parent win) = Some u"
    and u': "fine 131072 u'" "points u' = points u - covers s [] (above s (parent win) c)"
    and c: "clip_viewable s c" "content_offset s c = Some off" "cs_windows s c = Some win" "c \<noteq> ROOT_WINDOW"
  shows "border_ring s c = Some (cc_ring (child_share s True u' c off))"
proof -
  obtain dx dy bw where off: "off = (dx, dy, bw)" by (cases off)
  note bs = border_size_ok(1) [OF s, of c] and ws = fine_canonical [OF win_size_ok(1) [OF s]]
  have clip: "fine 131072 (intersect u' (border_size s c))" "points (intersect u' (border_size s c)) = points u' \<inter> points (border_size s c)"
    using u'(1) fine_canonical [OF bs] by (simp_all add: fine_ops canonical.meaning fine_canonical)
  note d = down_ok [OF clip(1), of s c dx dy bw] and db = down_ok [OF bs, of s c dx dy bw]
  note un = uncovered_ok [OF s u(1), of c dx dy bw, where par = "parent win" and t = "[]"]
  have "intersect (uncovered_in_child_space s u (parent win) c []) (translate (border_size s c) (- dx) (- dy))
      = translate (intersect u' (border_size s c)) (- dx) (- dy)" (is "?l = ?r")
  proof (rule canonical.ext)
    show "canonical_region ?l" "canonical_region ?r" using d(1) db(1) un(1) c(2) off by (simp_all add: canonical.meaning)
    show "points ?l = points ?r" using d db un c(2) off clip(2) u'(2) by (auto simp: canonical.meaning)
  qed
  then show ?thesis using c u(2) by (simp add: border_ring_def child_share_def Let_def off)
qed

section \<open>The walk\<close>

definition walked :: "clip_scene \<Rightarrow> u32 \<Rightarrow> u32 set" where
  "walked s w = {c. (c, w) \<in> {(c, p). (c, p) \<in> child_rel (shape (cs_windows s)) \<and> clip_viewable s c}\<^sup>*}"

lemma walked_self: "w \<in> walked s w"
  by (simp add: walked_def)

lemma walked_unfold:
  "walked s w = insert w (\<Union>c \<in> {c. (c, w) \<in> child_rel (shape (cs_windows s)) \<and> clip_viewable s c}. walked s c)"
  unfolding walked_def by (auto elim: rtranclE intro: rtrancl_into_rtrancl)

lemma walked_subtree: "walked s w \<subseteq> subtree (shape (cs_windows s)) w"
proof -
  have "{(c, p). (c, p) \<in> child_rel (shape (cs_windows s)) \<and> clip_viewable s c}\<^sup>* \<subseteq> (child_rel (shape (cs_windows s)))\<^sup>*"
    by (rule rtrancl_mono) auto
  then show ?thesis by (auto simp: walked_def subtree_def)
qed

lemma walk_list_Nil [simp]: "walk_list s b [] = Some []"
  by (subst walk_list.simps) simp

lemma walk_list_Cons:
  "walk_list s b (k # rest) =
     (if \<not> clip_viewable s (cc_window k) then walk_list s b rest
      else Option.bind (walk_list s b (snd (split_universe s (cc_window k) (cc_universe k) b (\<lambda>_ _ _. True))))
             (\<lambda>below. Option.bind (walk_list s b rest)
                (\<lambda>others. Some ((cc_window k, fst (split_universe s (cc_window k) (cc_universe k) b (\<lambda>_ _ _. True)), cc_ring k) # below @ others))))"
  by (subst walk_list.simps) (simp add: Let_def)

lemma walk_list_concat:
  "\<forall>k \<in> set ks. walk_list s b [k] = Some (f k) \<Longrightarrow> walk_list s b ks = Some (concat (map f ks))"
proof (induction ks)
  case (Cons k ks)
  then have "walk_list s b ks = Some (concat (map f ks))" "walk_list s b [k] = Some (f k)" by simp_all
  then show ?case by (auto simp: walk_list_Cons split: if_splits bind_splits)
qed simp

definition entry_ok :: "clip_scene \<Rightarrow> bool \<Rightarrow> clip_entry \<Rightarrow> bool" where
  "entry_ok s b e = (case e of (c, r, ring) \<Rightarrow>
     universe s c \<noteq> None \<and> r = subtract_children s (children_of (cs_windows s) c) (the (universe s c))
     \<and> (if b then border_ring s c = Some ring else ring = region_default))"

lemma split_universe_left:
  assumes s: "scene_ok s" and u: "fine 131072 u"
  shows "fst (split_universe s w u b want) = subtract_children s (children_of (cs_windows s) w) u"
proof -
  let ?L = "rev (List.enumerate 0 (children_of (cs_windows s) w))"
  have "covers s [] (map snd ?L) = covers s [] (children_of (cs_windows s) w)" by (simp add: rev_map [symmetric])
  then show ?thesis unfolding subtract_children_eq split_universe_def
    using split_loop_left [OF s u, of b want ?L] subtract_above_ok [OF s u, of "[]" "children_of (cs_windows s) w"]
    by (auto simp: fine_def intro: canonical.ext)
qed

lemma split_universe_windows:
  assumes "table_ok (cs_windows s)" and "cs_windows s w \<noteq> None"
  shows "map cc_window (snd (split_universe s w u b (\<lambda>_ c _. want c))) =
    rev (filter (\<lambda>c. clip_viewable s c \<and> want c) (children_of (cs_windows s) w))"
proof -
  let ?cs = "children_of (cs_windows s) w"
  have in_table: "content_offset s c \<noteq> None" if "c \<in> set ?cs" for c
    using that assms tree_listed [OF table_okD(1) [OF assms(1)], of w _ ?cs c]
    by (auto simp: content_offset_def Let_def children_of_shape shape_def split: option.splits)
  have "map snd (filter (\<lambda>(i, c). clip_viewable s c \<and> content_offset s c \<noteq> None \<and> want c) (rev L))
      = rev (filter (\<lambda>c. clip_viewable s c \<and> content_offset s c \<noteq> None \<and> want c) (map snd L))" for L :: "(nat \<times> u32) list"
    by (induction L) auto
  then have "map cc_window (snd (split_universe s w u b (\<lambda>_ c _. want c))) =
      rev (filter (\<lambda>c. clip_viewable s c \<and> content_offset s c \<noteq> None \<and> want c) ?cs)"
    by (simp add: split_universe_def split_loop_windows)
  also have "filter (\<lambda>c. clip_viewable s c \<and> content_offset s c \<noteq> None \<and> want c) ?cs = filter (\<lambda>c. clip_viewable s c \<and> want c) ?cs"
    using in_table by (auto intro: filter_cong)
  finally show ?thesis .
qed

lemma share_ok:
  assumes s: "scene_ok s" and n: "\<forall>c. narrow s c" and w: "cs_windows s w \<noteq> None"
    and u: "universe s w = Some u" and k: "k \<in> set (snd (split_universe s w u b want))"
  shows "(cc_window k, w) \<in> child_rel (shape (cs_windows s)) \<and> clip_viewable s (cc_window k)
    \<and> universe s (cc_window k) = Some (cc_universe k)
    \<and> (if b then border_ring s (cc_window k) = Some (cc_ring k) else cc_ring k = region_default)"
proof -
  have uf: "fine 131072 u" using universe_ok [OF s w] u by auto
  from split_universe_share [OF s uf w k] obtain c off u' where c: "c \<in> set (children_of (cs_windows s) w)" "clip_viewable s c"
    "content_offset s c = Some off" and k': "k = child_share s b u' c off" and u': "fine 131072 u'" "points u' = points u - covers s [] (above s w c)" .
  obtain dx dy bw where off: "off = (dx, dy, bw)" by (cases off)
  have kw: "cc_window k = c" by (simp add: k' child_share_def Let_def off)
  have rel: "(c, w) \<in> child_rel (shape (cs_windows s))"
    using c(1) by (cases "shape (cs_windows s) w") (auto simp: child_rel_def children_of_shape)
  then obtain win where win: "cs_windows s c = Some win" "parent win = w" "c \<noteq> ROOT_WINDOW"
    using tree_child [OF table_okD(1) [OF scene_okD(1) [OF s]]] by (metis shape_eq)
  have "universe s c = Some (child_universe s u w c [])"
  proof (cases "redirected s c")
    case True
    then show ?thesis using c(2) win by (subst universe.simps) (simp add: child_universe_def)
  qed (use universe_unfold [OF c(2) win(3) _ win(1)] u win(2) in simp)
  then have un: "universe s c = Some (cc_universe k)"
    using share_universe [OF s uf u' c(2,3)] n k' by simp
  have "if b then border_ring s c = Some (cc_ring k) else cc_ring k = region_default"
    using share_ring [OF s uf _ u'(1) _ c(2,3) win(1,3)] u win(2) u'(2) k' by (auto simp: child_share_def Let_def off)
  then show ?thesis using rel c(2) un kw by simp
qed

text \<open>The entries of a set of disjoint subtrees.\<close>

definition walks :: "clip_scene \<Rightarrow> bool \<Rightarrow> child_clip list \<Rightarrow> clip_entry list \<Rightarrow> bool" where
  "walks s b ks L \<longleftrightarrow> walk_list s b ks = Some L \<and> distinct (map fst L)
     \<and> fst ` set L = (\<Union>k \<in> set ks. walked s (cc_window k)) \<and> (\<forall>e \<in> set L. entry_ok s b e)"

lemma walks_siblings:
  assumes t: "tree_shape (shape (cs_windows s))" and d: "distinct (map cc_window ks)"
    and sib: "\<forall>k \<in> set ks. (cc_window k, w) \<in> child_rel (shape (cs_windows s))"
    and each: "\<forall>k \<in> set ks. \<exists>L. walks s b [k] L"
  shows "\<exists>L. walks s b ks L"
  using d sib each
proof (induction ks)
  case (Cons k ks)
  then obtain L M where L: "walks s b [k] L" and M: "walks s b ks M" by auto
  have "walk_list s b (k # ks) = Some (L @ M)"
    using L M by (auto simp: walks_def walk_list_Cons split: if_splits bind_splits)
  moreover have "walked s (cc_window k) \<inter> walked s (cc_window j) = {}" if "j \<in> set ks" for j
  proof -
    have "cc_window k \<noteq> cc_window j" using Cons.prems(1) that by auto
    then show ?thesis using siblings_disjoint [OF t, of "cc_window k" w "cc_window j"] Cons.prems(2) that walked_subtree [of s] by auto
  qed
  then have "fst ` set L \<inter> fst ` set M = {}" using L M by (auto simp: walks_def)
  ultimately have "walks s b (k # ks) (L @ M)" using L M by (auto simp: walks_def image_Un)
  then show ?case by blast
next
  case Nil
  have "walks s b [] []" by (simp add: walks_def)
  then show ?case by blast
qed

lemma walks_window:
  assumes s: "scene_ok s" and n: "\<forall>c. narrow s c"
  shows "cs_windows s w \<noteq> None \<Longrightarrow> clip_viewable s w \<Longrightarrow> universe s w = Some u
    \<Longrightarrow> (if b then border_ring s w = Some ring else ring = region_default)
    \<Longrightarrow> \<exists>L. walks s b [\<lparr>cc_window = w, cc_universe = u, cc_ring = ring\<rparr>] L"
proof (induction w arbitrary: u ring rule: wf_induct_rule [OF tree_wf [OF table_okD(1) [OF scene_okD(1) [OF s]]]])
  case (1 w)
  note t = table_okD(1) [OF scene_okD(1) [OF s]]
  let ?sp = "split_universe s w u b (\<lambda>_ _ _. True)" and ?k = "\<lparr>cc_window = w, cc_universe = u, cc_ring = ring\<rparr>"
  note sh = share_ok [OF s n "1.prems"(1,3), where b = b and want = "\<lambda>_ _ _. True"]
  have "\<exists>L. walks s b [k] L" if k: "k \<in> set (snd ?sp)" for k
  proof -
    note f = sh [OF k]
    have "cs_windows s (cc_window k) \<noteq> None" using tree_child [OF t] f by (metis option.discI shape_None)
    then have "\<exists>L. walks s b [\<lparr>cc_window = cc_window k, cc_universe = cc_universe k, cc_ring = cc_ring k\<rparr>] L"
      using "1.IH" [of "cc_window k" "cc_universe k" "cc_ring k"] f by blast
    then show ?thesis by (cases k) simp
  qed
  moreover have win: "map cc_window (snd ?sp) = rev (filter (clip_viewable s) (children_of (cs_windows s) w))"
    using split_universe_windows [OF scene_okD(1) [OF s] "1.prems"(1), where want = "\<lambda>_. True"] by simp
  moreover have "distinct (children_of (cs_windows s) w)"
    using tree_distinct [OF t, of w] by (auto simp: children_of_shape split: option.splits)
  ultimately obtain M where M: "walks s b (snd ?sp) M"
    using walks_siblings [OF t, of "snd ?sp" w b] sh by auto
  let ?L = "(w, fst ?sp, ring) # M"
  have kids: "cc_window ` set (snd ?sp) = {c. (c, w) \<in> child_rel (shape (cs_windows s)) \<and> clip_viewable s c}"
    using arg_cong [OF win, of set] "1.prems"(1) by (auto simp: child_rel_def children_of_shape shape_def split: option.splits)
  have "walk_list s b [?k] = Some ?L" using M "1.prems"(2) by (simp add: walk_list_Cons walks_def)
  moreover have below: "fst ` set M = (\<Union>c \<in> {c. (c, w) \<in> child_rel (shape (cs_windows s)) \<and> clip_viewable s c}. walked s c)"
    unfolding kids [symmetric] using M by (simp add: walks_def)
  then have "w \<notin> fst ` set M" using walked_subtree [of s] not_below_child [OF t] by blast
  moreover have "entry_ok s b (w, fst ?sp, ring)"
    using "1.prems" split_universe_left [OF s, of u w b] universe_ok [OF s "1.prems"(1)] by (auto simp: entry_ok_def)
  ultimately have "walks s b [?k] ?L"
    using M below walked_unfold [of s w] by (auto simp: walks_def)
  then show ?case by blast
qed

end
