(* ===== verification/Clip_Changes.thy ===== *)
theory Clip_Changes
  imports Clip_Walk
begin

text \<open>
  Changes of one window. \<open>TreeChange\<close> takes the clip lists of a window's parent and of
  the siblings that the window meets before or after the change, with their subtrees. No other
  clip list depends on the change, so that the difference it reports is all that the change
  exposes.
\<close>

section \<open>Siblings mapped together\<close>

lemma walk_list_split:
  "walk_list s b (k # ks) = Option.bind (walk_list s b [k]) (\<lambda>l. Option.bind (walk_list s b ks) (\<lambda>m. Some (l @ m)))"
  by (simp add: walk_list_Cons split: bind_splits)

lemma take_universes_each:
  assumes "distinct ts" and "\<forall>t \<in> set ts. (case m t of None \<Rightarrow> \<not> clip_viewable s t | Some u \<Rightarrow> universe s t = Some u)"
  shows "map_option without_rings (walk_list s False (take_universes m ts)) = each_subtree s ts"
  using assms
proof (induction ts arbitrary: m)
  case Nil
  then show ?case by (simp add: without_rings_def)
next
  case (Cons t ts)
  show ?case
  proof (cases "m t")
    case None
    then have "\<not> clip_viewable s t" using Cons.prems(2) by simp
    then have "subtree_clip_lists s t = Some []"
      by (simp add: subtree_clip_lists_def universe.simps [of s t] walk_def walk_list_Cons without_rings_def)
    then show ?thesis using Cons.IH [of m] Cons.prems None by (auto split: bind_splits option.splits)
  next
    case (Some u)
    let ?k = "\<lparr>cc_window = t, cc_universe = u, cc_ring = region_default\<rparr>"
    have "\<forall>t' \<in> set ts. (case (m(t := None)) t' of None \<Rightarrow> \<not> clip_viewable s t' | Some u \<Rightarrow> universe s t' = Some u)"
      using Cons.prems by (auto split: option.splits)
    then have "map_option without_rings (walk_list s False (take_universes (m(t := None)) ts)) = each_subtree s ts"
      using Cons.IH Cons.prems(1) by simp
    moreover have "subtree_clip_lists s t = map_option without_rings (walk_list s False [?k])"
      using Cons.prems(2) Some by (simp add: subtree_clip_lists_def walk_def)
    ultimately show ?thesis using walk_list_split [of s False ?k "take_universes (m(t := None)) ts"] Some
      by (auto simp: without_rings_def split: bind_splits)
  qed
qed

lemma subtrees_each:
  assumes s: "scene_ok s" and n: "\<forall>c. narrow s c" and d: "distinct tops"
  shows "subtrees_clip_lists s tops = each_subtree s tops"
proof (cases "\<exists>p. length tops > 1 \<and> map_option parent (cs_windows s (hd tops)) = Some p
    \<and> list_all (\<lambda>t. t \<noteq> ROOT_WINDOW \<and> map_option parent (cs_windows s t) = Some p) tops")
  case False
  let ?par = "case tops of [] \<Rightarrow> None | t # _ \<Rightarrow> map_option parent (cs_windows s t)"
  let ?sib = "length tops > 1 \<and> list_all (\<lambda>t. t \<noteq> ROOT_WINDOW \<and> map_option parent (cs_windows s t) = ?par) tops"
  have "?par = None \<or> \<not> ?sib" using False by (cases tops) auto
  moreover have "?par = None \<Longrightarrow> subtrees_clip_lists s tops = each_subtree s tops"
    by (simp only: subtrees_clip_lists_def Let_def prod.case option.case)
  moreover have "\<not> ?sib \<Longrightarrow> subtrees_clip_lists s tops = each_subtree s tops"
    unfolding subtrees_clip_lists_def Let_def
    by (cases ?par) (simp_all only: prod.case option.case bool.case)
  ultimately show ?thesis by blast
next
  case True
  then obtain p where p: "length tops > 1" "map_option parent (cs_windows s (hd tops)) = Some p"
    "list_all (\<lambda>t. t \<noteq> ROOT_WINDOW \<and> map_option parent (cs_windows s t) = Some p) tops" by blast
  note t = table_okD(1) [OF scene_okD(1) [OF s]]
  have rel: "(t, p) \<in> child_rel (shape (cs_windows s))" if "t \<in> set tops" for t
    using that p(3) tree_parent_rel [OF t] by (auto simp: list_all_iff shape_def)
  then have pw: "cs_windows s p \<noteq> None" using p(1) by (cases tops) (auto simp: child_rel_def shape_def)
  then obtain u where u: "universe s p = Some u" using universe_ok [OF s] by blast
  let ?kids = "snd (split_universe s p u False (\<lambda>_ c _. c \<in> set tops))"
  let ?m = "map_of (rev (map (\<lambda>k. (cc_window k, cc_universe k)) ?kids))"
  have win: "map cc_window ?kids = rev (filter (\<lambda>c. clip_viewable s c \<and> c \<in> set tops) (children_of (cs_windows s) p))"
    by (rule split_universe_windows [OF scene_okD(1) [OF s] pw])
  have "case ?m c of None \<Rightarrow> \<not> clip_viewable s c | Some u \<Rightarrow> universe s c = Some u" if c: "c \<in> set tops" for c
  proof (cases "?m c")
    case None
    then have "c \<notin> set (map cc_window ?kids)" by (auto simp: map_of_eq_None_iff image_image)
    moreover have "c \<in> set (children_of (cs_windows s) p)"
      using rel [OF c] by (auto simp: child_rel_def children_of_shape)
    ultimately have "\<not> clip_viewable s c" using c unfolding win by simp
    then show ?thesis by (simp only: None option.case) simp
  next
    case (Some v)
    then have "(c, v) \<in> set (map (\<lambda>k. (cc_window k, cc_universe k)) ?kids)" using map_of_SomeD [OF Some] by (simp only: set_rev)
    then have "universe s c = Some v" using share_ok [OF s n pw u] by auto
    then show ?thesis by (simp only: Some option.case)
  qed
  then have "map_option without_rings (walk_list s False (take_universes ?m tops)) = each_subtree s tops"
    using take_universes_each [OF d] by blast
  moreover have "subtrees_clip_lists s tops = map_option without_rings (walk_list s False (take_universes ?m tops))"
  proof -
    have par: "(case tops of [] \<Rightarrow> None | t # _ \<Rightarrow> map_option parent (cs_windows s t)) = Some p"
      using p(1,2) by (cases tops) auto
    have sib: "(length tops > 1 \<and> list_all (\<lambda>t. t \<noteq> ROOT_WINDOW \<and> map_option parent (cs_windows s t) = Some p) tops) = True"
      using p by simp
    show ?thesis unfolding subtrees_clip_lists_def Let_def par sib by (simp only: prod.case option.case bool.case u bind.simps)
  qed
  ultimately show ?thesis by simp
qed

section \<open>A change of one window\<close>

text \<open>
  \<open>s'\<close> is \<open>s\<close> after a change of the geometry, stacking or shape of \<open>w\<close>.
\<close>

definition window_geometry :: "window \<Rightarrow> i16 \<times> i16 \<times> u16 \<times> u16 \<times> u16" where
  "window_geometry win = (wx win, wy win, wwidth win, wheight win, border_width win)"

definition changed_at :: "clip_scene \<Rightarrow> clip_scene \<Rightarrow> u32 \<Rightarrow> bool" where
  "changed_at s s' w \<longleftrightarrow> cs_redirects s' = cs_redirects s
     \<and> (\<forall>c. map_option (\<lambda>x. (parent x, map_state x, wclass x)) (cs_windows s' c) = map_option (\<lambda>x. (parent x, map_state x, wclass x)) (cs_windows s c)
        \<and> filter (\<lambda>d. d \<noteq> w) (children_of (cs_windows s') c) = filter (\<lambda>d. d \<noteq> w) (children_of (cs_windows s) c)
        \<and> (c \<noteq> w \<longrightarrow> cs_shapes s' c = cs_shapes s c \<and> map_option window_geometry (cs_windows s' c) = map_option window_geometry (cs_windows s c)))"

lemma changedD:
  assumes "changed_at s s' w"
  shows "cs_redirects s' = cs_redirects s"
    and "map_option (\<lambda>x. (parent x, map_state x, wclass x)) (cs_windows s' c) = map_option (\<lambda>x. (parent x, map_state x, wclass x)) (cs_windows s c)"
    and "filter (\<lambda>d. d \<noteq> w) (children_of (cs_windows s') c) = filter (\<lambda>d. d \<noteq> w) (children_of (cs_windows s) c)"
    and "c \<noteq> w \<Longrightarrow> cs_shapes s' c = cs_shapes s c"
    and "c \<noteq> w \<Longrightarrow> map_option window_geometry (cs_windows s' c) = map_option window_geometry (cs_windows s c)"
  using assms unfolding changed_at_def by blast+

lemma changed_parent: "changed_at s s' w \<Longrightarrow> map_option parent (cs_windows s' c) = map_option parent (cs_windows s c)"
  using changedD(2) [of s s' w c] by (cases "cs_windows s c"; cases "cs_windows s' c") simp_all

lemma changed_None: "changed_at s s' w \<Longrightarrow> cs_windows s' c = None \<longleftrightarrow> cs_windows s c = None"
  by (drule changed_parent [of s s' w c]) (metis map_option_is_None)

lemma changed_modes:
  assumes "changed_at s s' w"
  shows "transparent s' c = transparent s c" "redirected s' c = redirected s c" "clip_viewable s' c = clip_viewable s c"
proof -
  show "transparent s' c = transparent s c" "redirected s' c = redirected s c"
    by (simp_all add: transparent_def redirected_def changedD(1) [OF assms])
  have "map_option (\<lambda>x. (parent x, map_state x, wclass x)) (cs_windows s' c) = map_option (\<lambda>x. (parent x, map_state x, wclass x)) (cs_windows s c)"
    by (rule changedD(2) [OF assms])
  then show "clip_viewable s' c = clip_viewable s c"
    by (cases "cs_windows s c"; cases "cs_windows s' c") (simp_all add: clip_viewable_def map_or_def)
qed

lemma changed_sizes:
  assumes "changed_at s s' w" and "c \<noteq> w"
  shows "border_size s' c = border_size s c" "win_size s' c = win_size s c" "content_offset s' c = content_offset s c"
    "map_option outer_of (cs_windows s' c) = map_option outer_of (cs_windows s c)"
proof -
  note sh = changedD(4) [OF assms] and g = changedD(5) [OF assms]
  consider "cs_windows s c = None" "cs_windows s' c = None"
    | a b where "cs_windows s c = Some a" "cs_windows s' c = Some b" "wx b = wx a" "wy b = wy a" "wwidth b = wwidth a"
      "wheight b = wheight a" "border_width b = border_width a"
    using g by (cases "cs_windows s c"; cases "cs_windows s' c") (auto simp: window_geometry_def)
  note c = this
  show "border_size s' c = border_size s c"
    by (rule c) (simp_all only: border_size_def outer_of_def sh option.case)
  show "win_size s' c = win_size s c"
    by (rule c) (simp_all only: win_size_def sh option.case)
  show "content_offset s' c = content_offset s c"
    by (rule c) (simp_all only: content_offset_def Let_def option.map)
  show "map_option outer_of (cs_windows s' c) = map_option outer_of (cs_windows s c)"
    by (rule c) (simp_all only: outer_of_def option.map)
qed

lemma changed_children:
  assumes "changed_at s s' w" and "w \<notin> set (children_of (cs_windows s) c)" "w \<notin> set (children_of (cs_windows s') c)"
  shows "children_of (cs_windows s') c = children_of (cs_windows s) c"
proof -
  have "filter (\<lambda>d. d \<noteq> w) xs = xs" if "w \<notin> set xs" for xs :: "u32 list" using that by (induction xs) auto
  then show ?thesis using changedD(3) [OF assms(1), of c] assms(2,3) by simp
qed

lemma above_dropWhile: "above s q c = tl (dropWhile (\<lambda>d. d \<noteq> c) (children_of (cs_windows s) q))"
proof -
  have "(case position c xs of None \<Rightarrow> [] | Some k \<Rightarrow> drop (k + 1) xs) = tl (dropWhile (\<lambda>d. d \<noteq> c) xs)" for xs :: "u32 list"
  proof (induction xs)
    case (Cons x xs)
    then show ?case by (cases "position c xs") (auto simp del: position_None_iff)
  qed simp
  then show ?thesis by (simp add: above_def)
qed

lemma changed_above:
  assumes "changed_at s s' w" and "c \<noteq> w"
  shows "set (above s' q c) - {w} = set (above s q c) - {w}"
proof -
  have "filter P (tl (dropWhile (\<lambda>d. d \<noteq> c) xs)) = tl (dropWhile (\<lambda>d. d \<noteq> c) (filter P xs))" if "P c" for P and xs :: "u32 list"
    using that by (induction xs) auto
  from this [of "\<lambda>d. d \<noteq> w"] have "filter (\<lambda>d. d \<noteq> w) (above s' q c) = filter (\<lambda>d. d \<noteq> w) (above s q c)"
    using changedD(3) [OF assms(1), of q] assms(2) by (simp add: above_dropWhile)
  from arg_cong [OF this, of set] show ?thesis by auto
qed

text \<open>What the others cover stays.\<close>

lemma changed_covers:
  assumes ch: "changed_at s s' w" and "set xs' - {w} = set xs - {w}"
    and out: "w \<in> set xs \<Longrightarrow> p \<notin> points (border_size s w)" "w \<in> set xs' \<Longrightarrow> p \<notin> points (border_size s' w)"
  shows "p \<in> covers s' t xs' \<longleftrightarrow> p \<in> covers s t xs"
proof -
  have "p \<in> covers s' t xs' \<longleftrightarrow> (\<exists>c \<in> set xs' - {w}. clip_viewable s' c \<and> \<not> transparent s' c \<and> c \<notin> set t \<and> p \<in> points (border_size s' c))"
    using out(2) by (auto simp: covers_def)
  also have "\<dots> \<longleftrightarrow> (\<exists>c \<in> set xs - {w}. clip_viewable s c \<and> \<not> transparent s c \<and> c \<notin> set t \<and> p \<in> points (border_size s c))"
    unfolding assms(2) using changed_modes [OF ch] changed_sizes(1) [OF ch] by auto
  also have "\<dots> \<longleftrightarrow> p \<in> covers s t xs" using out(1) by (auto simp: covers_def)
  finally show ?thesis .
qed

lemma not_overlaps: "\<not> overlaps a b \<Longrightarrow> rect_pts a \<inter> rect_pts b = {}"
  by (auto simp: overlaps_def rect_pts_def)

lemma border_size_outer: "scene_ok s \<Longrightarrow> cs_windows s c = Some win \<Longrightarrow> points (border_size s c) \<subseteq> rect_pts (outer_of win)"
  using border_size_ok(2) by auto

text \<open>The windows a snapshot must hold: \<open>w\<close> and the siblings that \<open>w\<close> meets.\<close>

definition touched :: "clip_scene \<Rightarrow> clip_scene \<Rightarrow> u32 \<Rightarrow> u32 \<Rightarrow> u32 set \<Rightarrow> bool" where
  "touched s s' w par M \<longleftrightarrow> w \<in> M \<and> (\<forall>c win. c \<in> set (children_of (cs_windows s) par) - M \<longrightarrow> clip_viewable s c \<longrightarrow> cs_windows s c = Some win
     \<longrightarrow> rect_pts (outer_of win) \<inter> (points (border_size s w) \<union> points (border_size s' w)) = {})"

lemma children_parent:
  assumes "scene_ok s" and "c \<in> set (children_of (cs_windows s) q)"
  shows "\<exists>win. cs_windows s c = Some win \<and> parent win = q \<and> c \<noteq> ROOT_WINDOW"
  using assms tree_listed [OF table_okD(1) [OF scene_okD(1) [OF assms(1)]], of q]
  by (cases "shape (cs_windows s) q") (auto simp: children_of_shape shape_eq)

lemma above_subset: "set (above s q c) \<subseteq> set (children_of (cs_windows s) q)"
  by (auto simp: above_def dest: in_set_dropD split: option.splits)

lemma inside_untouched:
  assumes s: "scene_ok s" "scene_ok s'" and n: "narrow s d" and ch: "changed_at s s' w" and t: "touched s s' w par M"
    and w: "map_option parent (cs_windows s w) = Some par"
    and d: "cs_windows s d = Some win" "d \<in> set (children_of (cs_windows s) (parent win))" "d \<notin> M" "clip_viewable s d"
    and off: "content_offset s d = Some (dx, dy, bw)" and p: "(x, y) \<in> points (win_size s d)"
  shows "(x + dx, y + dy) \<in> covers s' [] (above s' (parent win) d) \<longleftrightarrow> (x + dx, y + dy) \<in> covers s [] (above s (parent win) d)"
proof (rule changed_covers [OF ch changed_above [OF ch]])
  show "d \<noteq> w" using d(3) t by (auto simp: touched_def)
  have w': "map_option parent (cs_windows s' w) = Some par" using changed_parent [OF ch, of w] w by simp
  have in_d: "(x + dx, y + dy) \<in> rect_pts (outer_of win)"
    using content_in_outer [OF s(1) n off p] border_size_outer [OF s(1) d(1)] by blast
  have "(x + dx, y + dy) \<notin> points (border_size s w) \<union> points (border_size s' w)" if "parent win = par"
    using t d that in_d unfolding touched_def by blast
  moreover have "parent win = par" if "w \<in> set (above s (parent win) d)"
    using that above_subset children_parent [OF s(1), of w "parent win"] w by fastforce
  moreover have "parent win = par" if "w \<in> set (above s' (parent win) d)"
    using that above_subset children_parent [OF s(2), of w "parent win"] w' by fastforce
  ultimately show "w \<in> set (above s (parent win) d) \<Longrightarrow> (x + dx, y + dy) \<notin> points (border_size s w)"
    "w \<in> set (above s' (parent win) d) \<Longrightarrow> (x + dx, y + dy) \<notin> points (border_size s' w)" by blast+
qed

lemma untouched_visible:
  assumes s: "scene_ok s" "scene_ok s'" and n: "\<forall>c. narrow s c" and ch: "changed_at s s' w" and t: "touched s s' w par M"
    and w: "map_option parent (cs_windows s w) = Some par" "w \<noteq> ROOT_WINDOW"
  shows "at_depth (shape (cs_windows s)) k d \<Longrightarrow> \<forall>m \<in> M. d \<notin> subtree (shape (cs_windows s)) m \<Longrightarrow> visible s' d p \<longleftrightarrow> visible s d p"
proof (induction k arbitrary: d p)
  case 0
  then show ?case using changedD(5) [OF ch, of ROOT_WINDOW] w(2)
    by (cases "cs_windows s ROOT_WINDOW"; cases "cs_windows s' ROOT_WINDOW")
      (auto simp: visible_root content_pts_def window_geometry_def)
next
  case (Suc k)
  note tr = table_okD(1) [OF scene_okD(1) [OF s(1)]]
  from Suc.prems(1) obtain win where win: "cs_windows s d = Some win" "d \<noteq> ROOT_WINDOW" "at_depth (shape (cs_windows s)) k (parent win)"
    by (cases "shape (cs_windows s) d") (auto simp: shape_eq)
  then obtain win' where win': "cs_windows s' d = Some win'" "parent win' = parent win"
    using changed_parent [OF ch, of d] by auto
  have rel: "(d, parent win) \<in> child_rel (shape (cs_windows s))"
    using tree_parent_rel [OF tr, of d "parent win" "children win"] win by (simp add: shape_def)
  have dM: "d \<notin> M" using Suc.prems(2) by (auto simp: subtree_def)
  then have dw: "d \<noteq> w" using t by (auto simp: touched_def)
  have "\<forall>m \<in> M. parent win \<notin> subtree (shape (cs_windows s)) m"
    using Suc.prems(2) rel by (auto simp: subtree_def intro: converse_rtrancl_into_rtrancl)
  note IH = Suc.IH [OF win(3) this]
  note sz = changed_sizes [OF ch dw] and md = changed_modes [OF ch, of d]
  obtain dx dy bw where off: "content_offset s d = Some (dx, dy, bw)" using win(1) by (auto simp: content_offset_def Let_def)
  obtain x y where p: "p = (x, y)" by (cases p)
  consider "\<not> clip_viewable s d" | "clip_viewable s d" "redirected s d" | "clip_viewable s d" "\<not> redirected s d" by blast
  then show ?case
  proof cases
    case 1
    then show ?thesis using visible_hidden [of s d] visible_hidden [of s' d] md by simp
  next
    case 2
    then show ?thesis using visible_alone [OF win(2)] md sz by simp
  next
    case 3
    have "d \<in> set (children_of (cs_windows s) (parent win))" using rel by (auto simp: child_rel_def children_of_shape)
    note c = inside_untouched [OF s spec [OF n] ch t w(1) win(1) this dM 3(1) off, of x y]
    show ?thesis
      using visible_inside [OF win(2) 3 win(1) off, of x y] visible_inside [OF win(2) _ _ win'(1), of dx dy bw x y] 3 md sz off win'(2) IH c p
      by auto
  qed
qed

section \<open>What a snapshot holds\<close>

definition clip_region :: "clip_scene \<Rightarrow> u32 \<Rightarrow> region" where
  "clip_region s w = subtract_children s (children_of (cs_windows s) w) (the (universe s w))"

lemma clip_region_ok:
  assumes "scene_ok s" and "cs_windows s w \<noteq> None"
  shows "canonical_region (clip_region s w)"
    and "points (clip_region s w) = {p. visible s w p} - covers s [] (children_of (cs_windows s) w)"
    and "clip_list s w = Some (to_rects (clip_region s w))"
proof -
  from universe_ok [OF assms] obtain u where u: "universe s w = Some u" "fine 131072 u" "points u = {p. visible s w p}" by blast
  note a = subtract_above_ok [OF assms(1) u(2), of "[]" "children_of (cs_windows s) w"]
  show "canonical_region (clip_region s w)"
    "points (clip_region s w) = {p. visible s w p} - covers s [] (children_of (cs_windows s) w)"
    "clip_list s w = Some (to_rects (clip_region s w))"
    using a u by (auto simp: clip_region_def subtract_children_eq fine_def clip_list_def)
qed

lemma untouched_clip_region:
  assumes s: "scene_ok s" "scene_ok s'" and n: "\<forall>c. narrow s c" and ch: "changed_at s s' w" and t: "touched s s' w par M"
    and w: "map_option parent (cs_windows s w) = Some par" "w \<noteq> ROOT_WINDOW"
    and d: "cs_windows s d \<noteq> None" "d \<noteq> par" "\<forall>m \<in> M. d \<notin> subtree (shape (cs_windows s)) m"
  shows "clip_region s' d = clip_region s d"
proof (rule canonical.ext)
  have d': "cs_windows s' d \<noteq> None" using d(1) changed_None [OF ch] by simp
  note r = clip_region_ok [OF s(1) d(1)] and r' = clip_region_ok [OF s(2) d']
  show "canonical_region (clip_region s' d)" "canonical_region (clip_region s d)" by (rule r' r)+
  obtain k where k: "at_depth (shape (cs_windows s)) k d"
    using d(1) tree_depth [OF table_okD(1) [OF scene_okD(1) [OF s(1)]], of d] by (auto simp: shape_def)
  have "w \<notin> set (children_of (cs_windows s) d)" using children_parent [OF s(1)] w(1) d(2) by fastforce
  moreover have "w \<notin> set (children_of (cs_windows s') d)"
    using children_parent [OF s(2)] changed_parent [OF ch, of w] w(1) d(2) by fastforce
  ultimately have "children_of (cs_windows s') d = children_of (cs_windows s) d" "w \<notin> set (children_of (cs_windows s) d)"
    using changed_children [OF ch] by auto
  then have "p \<in> covers s' [] (children_of (cs_windows s') d) \<longleftrightarrow> p \<in> covers s [] (children_of (cs_windows s) d)" for p
    using changed_covers [OF ch, of "children_of (cs_windows s') d" "children_of (cs_windows s) d"] by simp
  then show "points (clip_region s' d) = points (clip_region s d)"
    using r(2) r'(2) untouched_visible [OF s n ch t w k d(3)] by auto
qed

lemma border_ring_returns:
  assumes "scene_ok s" and "cs_windows s w \<noteq> None"
  shows "border_ring s w \<noteq> None"
proof (cases "w = ROOT_WINDOW")
  case False
  obtain win where win: "cs_windows s w = Some win" using assms(2) by blast
  then have "(w, parent win) \<in> child_rel (shape (cs_windows s))"
    using tree_parent_rel [OF table_okD(1) [OF scene_okD(1) [OF assms(1)]], of w "parent win" "children win"] False by (simp add: shape_def)
  then have "cs_windows s (parent win) \<noteq> None" by (auto simp: child_rel_def shape_def)
  then obtain u where "universe s (parent win) = Some u" using universe_ok [OF assms(1)] by blast
  then show ?thesis by (auto simp: border_ring_def win Let_def content_offset_def)
qed (simp add: border_ring_def)

definition snapshot :: "clip_scene \<Rightarrow> u32 \<Rightarrow> u32 set \<Rightarrow> u32 set" where
  "snapshot s par M = insert par (\<Union>c \<in> {c \<in> set (children_of (cs_windows s) par). clip_viewable s c \<and> c \<in> M}. walked s c)"

lemma clip_entries_ok:
  assumes s: "scene_ok s" and n: "\<forall>c. narrow s c" and par: "cs_windows s par \<noteq> None"
  shows "\<exists>L. clip_entries_of s par M = Some L \<and> distinct (map fst L) \<and> fst ` set L = snapshot s par M \<and> (\<forall>e \<in> set L. entry_ok s True e)"
proof -
  note t = table_okD(1) [OF scene_okD(1) [OF s]]
  obtain u where u: "universe s par = Some u" "fine 131072 u" using universe_ok [OF s par] by blast
  obtain ring where ring: "border_ring s par = Some ring" using border_ring_returns [OF s par] by blast
  let ?sp = "split_universe s par u True (\<lambda>_ c _. c \<in> M)"
  note sh = share_ok [OF s n par u(1), where b = True and want = "\<lambda>_ c _. c \<in> M"]
  have win: "map cc_window (snd ?sp) = rev (filter (\<lambda>c. clip_viewable s c \<and> c \<in> M) (children_of (cs_windows s) par))"
    by (rule split_universe_windows [OF scene_okD(1) [OF s] par])
  have "distinct (children_of (cs_windows s) par)"
    using tree_distinct [OF t, of par] by (auto simp: children_of_shape split: option.splits)
  then have "distinct (map cc_window (snd ?sp))" unfolding win by simp
  moreover have "\<exists>L. walks s True [k] L" if "k \<in> set (snd ?sp)" for k
  proof -
    note f = sh [OF that]
    have "cs_windows s (cc_window k) \<noteq> None" using tree_child [OF t] f by (metis option.discI shape_None)
    then have "\<exists>L. walks s True [\<lparr>cc_window = cc_window k, cc_universe = cc_universe k, cc_ring = cc_ring k\<rparr>] L"
      using walks_window [OF s n, of "cc_window k" "cc_universe k" True "cc_ring k"] f by simp
    then show ?thesis by (cases k) simp
  qed
  ultimately obtain M' where M': "walks s True (snd ?sp) M'" using walks_siblings [OF t, of "snd ?sp" par True] sh by auto
  have kids: "cc_window ` set (snd ?sp) = {c \<in> set (children_of (cs_windows s) par). clip_viewable s c \<and> c \<in> M}"
    using arg_cong [OF win, of set] by auto
  have below: "insert par (fst ` set M') = snapshot s par M"
    using M' unfolding snapshot_def kids [symmetric] by (simp add: walks_def)
  have "par \<notin> fst ` set M'"
  proof
    assume "par \<in> fst ` set M'"
    then obtain k where "k \<in> set (snd ?sp)" "par \<in> walked s (cc_window k)" using M' by (auto simp: walks_def)
    then show False using sh walked_subtree [of s] not_below_child [OF t] by blast
  qed
  moreover have "entry_ok s True (par, fst ?sp, ring)"
    using split_universe_left [OF s u(2)] u(1) ring by (simp add: entry_ok_def)
  moreover have "clip_entries_of s par M = Some ((par, fst ?sp, ring) # M')"
    using M' by (simp add: clip_entries_of_def layer_entries_def Let_def u(1) ring walks_def)
  ultimately show ?thesis using M' below by (auto simp: walks_def)
qed

section \<open>The difference\<close>

text \<open>X11 gives an \<open>InputOnly\<close> window no \<open>InputOutput\<close> children.\<close>

definition classes_ok :: "clip_scene \<Rightarrow> bool" where
  "classes_ok s \<longleftrightarrow> (\<forall>c q. (c, q) \<in> child_rel (shape (cs_windows s)) \<longrightarrow> clip_viewable s c \<longrightarrow> clip_viewable s q)"

lemma viewable_walked:
  assumes c: "classes_ok s" and "d \<in> subtree (shape (cs_windows s)) m"
  shows "clip_viewable s d \<Longrightarrow> clip_viewable s m \<and> d \<in> walked s m"
  using assms(2) unfolding subtree_def walked_def mem_Collect_eq
proof (induction rule: converse_rtrancl_induct)
  case (step d q)
  then show ?case using c by (auto simp: classes_ok_def intro: converse_rtrancl_into_rtrancl)
qed simp

lemma child_rel_parent:
  assumes "scene_ok s"
  shows "(c, q) \<in> child_rel (shape (cs_windows s)) \<longleftrightarrow> c \<noteq> ROOT_WINDOW \<and> map_option parent (cs_windows s c) = Some q"
proof
  assume "(c, q) \<in> child_rel (shape (cs_windows s))"
  then show "c \<noteq> ROOT_WINDOW \<and> map_option parent (cs_windows s c) = Some q"
    using tree_child [OF table_okD(1) [OF scene_okD(1) [OF assms]]] by (fastforce simp: shape_def)
next
  assume "c \<noteq> ROOT_WINDOW \<and> map_option parent (cs_windows s c) = Some q"
  then show "(c, q) \<in> child_rel (shape (cs_windows s))"
    using tree_parent_rel [OF table_okD(1) [OF scene_okD(1) [OF assms]], of c q] by (auto simp: shape_def)
qed

lemma changed_snapshot:
  assumes s: "scene_ok s" "scene_ok s'" and ch: "changed_at s s' w"
  shows "snapshot s' par M = snapshot s par M"
proof -
  have r: "child_rel (shape (cs_windows s')) = child_rel (shape (cs_windows s))"
    using child_rel_parent [OF s(1)] child_rel_parent [OF s(2)] changed_parent [OF ch] by auto
  have k: "set (children_of (cs_windows x) par) = {c. (c, par) \<in> child_rel (shape (cs_windows x))}" for x
    by (cases "shape (cs_windows x) par") (auto simp: child_rel_def children_of_shape simp del: shape_None)
  show ?thesis by (simp add: snapshot_def walked_def k r changed_modes [OF ch])
qed

lemma entry_for_found:
  assumes "distinct (map fst L)" and "(w, r, g) \<in> set L"
  shows "entry_for L w = Some (w, r, g)"
  using assms by (induction L) (force simp: entry_for_def)+

definition gained :: "clip_scene \<Rightarrow> clip_scene \<Rightarrow> u32 option \<Rightarrow> u32 \<Rightarrow> region" where
  "gained s s' whole d = (if whole = Some d then clip_region s' d else subtract (clip_region s' d) (clip_region s d))"

lemma newly_exposed_ok:
  assumes L: "distinct (map fst L)" "\<forall>e \<in> set L. entry_ok s True e" and M: "distinct (map fst M)" "\<forall>e \<in> set M. entry_ok s' True e"
    and same: "fst ` set L = fst ` set M"
  shows "distinct (map ex_window (newly_exposed L M whole))"
    and "\<forall>e \<in> set (newly_exposed L M whole). ex_window e \<in> fst ` set M \<and> ex_region e = to_rects (gained s s' whole (ex_window e))
      \<and> ex_border e = to_rects (subtract (the (border_ring s' (ex_window e))) (the (border_ring s (ex_window e))))"
    and "\<forall>d \<in> fst ` set M. d \<notin> ex_window ` set (newly_exposed L M whole) \<longrightarrow> is_empty (gained s s' whole d)"
proof -
  let ?b = "\<lambda>d. subtract (the (border_ring s' d)) (the (border_ring s d))"
  let ?on = "\<lambda>e. \<not> is_empty (gained s s' whole (fst e)) \<or> \<not> is_empty (?b (fst e))"
  let ?x = "\<lambda>e. \<lparr>ex_window = fst e, ex_region = to_rects (gained s s' whole (fst e)), ex_border = to_rects (?b (fst e))\<rparr>"
  have step: "(case e of (w, rgn, ring) \<Rightarrow>
       let old = entry_for L w;
           rgn' = (case old of Some (_, old_region, _) \<Rightarrow> if Some w \<noteq> whole then subtract rgn old_region else rgn | None \<Rightarrow> rgn);
           bord = (case old of Some (_, _, old_ring) \<Rightarrow> subtract ring old_ring | None \<Rightarrow> ring)
       in if \<not> is_empty rgn' \<or> \<not> is_empty bord
          then Some \<lparr>ex_window = w, ex_region = to_rects rgn', ex_border = to_rects bord\<rparr> else None)
     = (if ?on e then Some (?x e) else None)" if e: "e \<in> set M" for e
  proof -
    obtain w rgn ring where we: "e = (w, rgn, ring)" by (cases e)
    have "w \<in> fst ` set L" using e we same by force
    then obtain r0 g0 where old: "(w, r0, g0) \<in> set L" by force
    have "rgn = clip_region s' w" "border_ring s' w = Some ring" using M(2) e we by (auto simp: entry_ok_def clip_region_def)
    moreover have "r0 = clip_region s w" "border_ring s w = Some g0" using L(2) old by (auto simp: entry_ok_def clip_region_def)
    ultimately show ?thesis using entry_for_found [OF L(1) old] we by (simp add: Let_def gained_def)
  qed
  have E: "newly_exposed L M whole = map ?x (filter ?on M)"
  proof -
    have "newly_exposed L M whole = flatten (map (\<lambda>e. if ?on e then Some (?x e) else None) M)"
      unfolding newly_exposed_def using step by (intro arg_cong [where f = flatten] map_cong) simp_all
    also have "\<dots> = map ?x (filter ?on M)" by (induction M) (auto simp: flatten_def List.map_filter_simps)
    finally show ?thesis .
  qed
  have "map ex_window (newly_exposed L M whole) = map fst (filter ?on M)" unfolding E by simp
  then show "distinct (map ex_window (newly_exposed L M whole))" using M(1) by (simp add: distinct_map_filter)
  show "\<forall>e \<in> set (newly_exposed L M whole). ex_window e \<in> fst ` set M \<and> ex_region e = to_rects (gained s s' whole (ex_window e))
      \<and> ex_border e = to_rects (?b (ex_window e))" unfolding E by auto
  show "\<forall>d \<in> fst ` set M. d \<notin> ex_window ` set (newly_exposed L M whole) \<longrightarrow> is_empty (gained s s' whole d)"
    unfolding E by (force simp: image_iff)
qed

text \<open>The members \<open>begin\<close> chooses are enough.\<close>

abbreviation members_of :: "clip_scene \<Rightarrow> u32 \<Rightarrow> window \<Rightarrow> region_rect option \<Rightarrow> u32 set" where
  "members_of s w win to_rect_opt \<equiv> set (filter (\<lambda>c. c = w \<or> (clip_viewable s c
     \<and> map_or False (\<lambda>r. list_ex (\<lambda>e. overlaps r e) (outer_of win # flatten [to_rect_opt])) (outer_rect s c)))
     (children_of (cs_windows s) (parent win)))"

lemma members_touched:
  assumes s: "scene_ok s" "scene_ok s'" and w: "cs_windows s w = Some win" "cs_windows s' w = Some win'" "w \<noteq> ROOT_WINDOW"
    and goes: "outer_of win' = outer_of win \<or> to_rect_opt = Some (outer_of win')"
  shows "touched s s' w (parent win) (members_of s w win to_rect_opt)"
  unfolding touched_def
proof (intro conjI allI impI)
  have "(w, parent win) \<in> child_rel (shape (cs_windows s))" using child_rel_parent [OF s(1)] w by simp
  then have "w \<in> set (children_of (cs_windows s) (parent win))" by (auto simp: child_rel_def children_of_shape)
  then show "w \<in> members_of s w win to_rect_opt" by simp
  fix c cwin
  assume c: "c \<in> set (children_of (cs_windows s) (parent win)) - members_of s w win to_rect_opt" "clip_viewable s c" "cs_windows s c = Some cwin"
  then have "\<not> overlaps (outer_of cwin) (outer_of win)" "\<not> overlaps (outer_of cwin) (outer_of win')"
    using goes by (auto simp: outer_rect_def map_or_def list_ex_iff)
  then show "rect_pts (outer_of cwin) \<inter> (points (border_size s w) \<union> points (border_size s' w)) = {}"
    using not_overlaps border_size_outer [OF s(1) w(1)] border_size_outer [OF s(2) w(2)] by blast
qed

lemma change_exposes:
  assumes s: "scene_ok s" "scene_ok s'" and n: "\<forall>c. narrow s c" "\<forall>c. narrow s' c" and cl: "classes_ok s" and ch: "changed_at s s' w"
    and w: "cs_windows s w = Some win" "cs_windows s' w = Some win'" "w \<noteq> ROOT_WINDOW" "clip_viewable s w"
    and goes: "outer_of win' = outer_of win \<or> to_rect_opt = Some (outer_of win')" and whole: "whole = None \<or> whole = Some w"
  shows "\<exists>chg E. begin_change s w to_rect_opt = Some (Some chg) \<and> exposed chg s' whole = Some E \<and> distinct (map ex_window E)
    \<and> (\<forall>e \<in> set E. ex_region e = to_rects (gained s s' whole (ex_window e))
      \<and> ex_border e = to_rects (subtract (the (border_ring s' (ex_window e))) (the (border_ring s (ex_window e)))))
    \<and> (\<forall>d. cs_windows s d \<noteq> None \<longrightarrow> d \<notin> ex_window ` set E \<longrightarrow> points (gained s s' whole d) = {})"
proof -
  let ?M = "members_of s w win to_rect_opt" and ?p = "parent win"
  have "(w, ?p) \<in> child_rel (shape (cs_windows s))" using child_rel_parent [OF s(1)] w by simp
  then have p: "cs_windows s ?p \<noteq> None" by (auto simp: child_rel_def shape_def)
  then have p': "cs_windows s' ?p \<noteq> None" using changed_None [OF ch] by simp
  from clip_entries_ok [OF s(1) n(1) p, of ?M] obtain L where L: "clip_entries_of s ?p ?M = Some L" "distinct (map fst L)"
    "fst ` set L = snapshot s ?p ?M" "\<forall>e \<in> set L. entry_ok s True e" by blast
  from clip_entries_ok [OF s(2) n(2) p', of ?M] obtain N where N: "clip_entries_of s' ?p ?M = Some N" "distinct (map fst N)"
    "fst ` set N = snapshot s' ?p ?M" "\<forall>e \<in> set N. entry_ok s' True e" by blast
  have in_snap: "x \<in> snapshot s ?p ?M" if "m \<in> ?M" "clip_viewable s m" "x \<in> walked s m" for x m
    using that unfolding snapshot_def set_filter by blast
  let ?E = "newly_exposed L N whole"
  have sn: "fst ` set N = snapshot s ?p ?M" using N(3) changed_snapshot [OF s ch] by simp
  note ne = newly_exposed_ok [OF L(2,4) N(2,4), of whole] L(3) sn
  have "begin_change s w to_rect_opt = Some (Some \<lparr>tc_parent = ?p, tc_members = ?M, tc_before = L\<rparr>)"
    unfolding begin_change_def Let_def by (simp only: w(1,3,4) L(1) option.case option.map if_False simp_thms)
  moreover have "exposed \<lparr>tc_parent = ?p, tc_members = ?M, tc_before = L\<rparr> s' whole = Some ?E"
    by (simp only: exposed_def tree_change.simps N(1) option.map)
  moreover have "points (gained s s' whole d) = {}" if d: "cs_windows s d \<noteq> None" "d \<notin> ex_window ` set ?E" for d
  proof -
    have d': "cs_windows s' d \<noteq> None" using d(1) changed_None [OF ch] by simp
    note r = clip_region_ok [OF s(1) d(1)] and r' = clip_region_ok [OF s(2) d']
    have g: "canonical_region (gained s s' whole d)" "points (gained s s' whole d) = (if whole = Some d then points (clip_region s' d) else points (clip_region s' d) - points (clip_region s d))"
      using r(1) r'(1) by (simp_all add: gained_def canonical.meaning)
    consider "d \<in> snapshot s ?p ?M" | "\<not> clip_viewable s d" | "d \<notin> snapshot s ?p ?M" "clip_viewable s d" by blast
    then show ?thesis
    proof cases
      case 1
      then show ?thesis using ne(3) L(3) sn d(2) is_empty_iff [OF g(1)] by simp
    next
      case 2
      then show ?thesis using g(2) r'(2) visible_hidden [of s' d] changed_modes(3) [OF ch] by simp
    next
      case 3
      have "d \<notin> subtree (shape (cs_windows s)) m" if "m \<in> ?M" for m
        using 3 viewable_walked [OF cl _ 3(2), of m] in_snap [OF that, of d] by blast
      moreover have "d \<noteq> ?p" using 3(1) by (auto simp: snapshot_def)
      ultimately have "clip_region s' d = clip_region s d"
        using untouched_clip_region [OF s n(1) ch members_touched [OF s w(1-3) goes] _ w(3) d(1)] w(1) by simp
      moreover have "w \<in> ?M" using members_touched [OF s w(1-3) goes] unfolding touched_def by (rule conjunct1)
      then have "whole \<noteq> Some d" using whole 3 in_snap [of w w] walked_self by blast
      ultimately show ?thesis using g(2) by simp
    qed
  qed
  ultimately show ?thesis using ne(1,2) L(3) sn by blast
qed

end
