(* ===== verification/Clip_Props.thy ===== *)
theory Clip_Props
  imports Clip_Changes
begin

text \<open>
  What the clip lists promise: they are the pixels that show, computed in a finite time on every
  sound table; splitting a layer at once, walking a subtree and mapping siblings together give
  what each window would compute for itself; and a change of one window alters the clip
  lists of the windows it takes a snapshot of and of no others.
\<close>

section \<open>An example\<close>

definition example_window :: "u32 \<Rightarrow> u32 \<Rightarrow> i16 \<Rightarrow> i16 \<Rightarrow> u16 \<Rightarrow> u32 list \<Rightarrow> window" where
  "example_window i p x y bw cs = root_window\<lparr>wid := i, parent := p, children := cs, wx := x, wy := y, wwidth := 50, wheight := 50, border_width := bw\<rparr>"

text \<open>Two overlapping windows on the screen, the lower one with a child; the upper one is at a given position.\<close>

definition scene_at :: "i16 \<Rightarrow> clip_scene" where
  "scene_at x =
     \<lparr>cs_windows = [ROOT_WINDOW \<mapsto> root_window\<lparr>children := [0x201, 0x202]\<rparr>,
        0x201 \<mapsto> example_window 0x201 ROOT_WINDOW 10 10 1 [0x203], 0x202 \<mapsto> example_window 0x202 ROOT_WINDOW x 30 0 [],
        0x203 \<mapsto> example_window 0x203 0x201 5 5 0 []],
      cs_redirects = redirects_default, cs_shapes = [0x202 \<mapsto> \<lparr>bounding = Some (rect \<lparr>rx = 0, ry = 0, rwidth = 20, rheight = 9\<rparr>),
        clip_shape = None, input_shape = None\<rparr>]\<rparr>"

lemma example_lookup:
  "cs_windows (scene_at x) k = (if k = 0x203 then Some (example_window 0x203 0x201 5 5 0 [])
     else if k = 0x202 then Some (example_window 0x202 ROOT_WINDOW x 30 0 [])
     else if k = 0x201 then Some (example_window 0x201 ROOT_WINDOW 10 10 1 [0x203])
     else if k = ROOT_WINDOW then Some (root_window\<lparr>children := [0x201, 0x202]\<rparr>) else None)"
  by (simp add: scene_at_def)

lemma example_fields [simp]:
  "parent (example_window i p x y bw cs) = p" "children (example_window i p x y bw cs) = cs"
  "map_state (example_window i p x y bw cs) = Viewable" "wclass (example_window i p x y bw cs) = InputOutput"
  "wwidth (example_window i p x y bw cs) = 50" "wheight (example_window i p x y bw cs) = 50"
  "border_width (example_window i p x y bw cs) = bw" "wx (example_window i p x y bw cs) = x" "wy (example_window i p x y bw cs) = y"
  by (simp_all add: example_window_def root_window_def)

lemma example_shape:
  "shape (cs_windows (scene_at x)) k = (if k = 0x203 then Some (0x201, []) else if k = 0x202 then Some (ROOT_WINDOW, [])
     else if k = 0x201 then Some (ROOT_WINDOW, [0x203]) else if k = ROOT_WINDOW then Some (ROOT_WINDOW, [0x201, 0x202]) else None)"
  by (simp add: shape_def example_lookup root_window_def)

lemma example_tree: "tree_shape (shape (cs_windows (scene_at x)))"
proof -
  have "at_depth (shape (cs_windows (scene_at x))) 0 ROOT_WINDOW" "at_depth (shape (cs_windows (scene_at x))) (Suc 0) 0x201"
    "at_depth (shape (cs_windows (scene_at x))) (Suc 0) 0x202" "at_depth (shape (cs_windows (scene_at x))) (Suc (Suc 0)) 0x203"
    by (simp_all add: example_shape)
  then have "\<exists>n. at_depth (shape (cs_windows (scene_at x))) n k" if "k \<in> {ROOT_WINDOW, 0x201, 0x202, 0x203}" for k
    using that by blast
  then show ?thesis unfolding tree_shape_def by (auto simp: example_shape split: if_splits)
qed

lemma example_ok: "scene_ok (scene_at x)"
proof -
  have "view_ok (cs_windows (scene_at x))"
    unfolding view_ok_def edge_ok_def by (auto simp: example_shape in_state_def example_lookup root_window_def split: if_splits)
  moreover have "fine (2 ^ 30) (rect r)" for r by (rule fine_mono [OF rect_fine]) simp
  ultimately show ?thesis using example_tree
    by (auto simp: scene_ok_def table_ok_def scene_at_def shape_fine_def flatten_def List.map_filter_simps split: if_splits)
qed

lemma example_narrow: "\<forall>c. narrow (scene_at x) c"
  by (simp add: narrow_def example_lookup root_window_def)

abbreviation example_scene :: clip_scene where
  "example_scene \<equiv> scene_at 30"

section \<open>Clip lists\<close>



text \<open>
  Splitting a window's universe among its children in one pass, top-most first, agrees
  with the window-by-window computations: what is left is the window's clip list, and each
  wanted viewable child gets its own universe and, when asked for, its own border ring. The
  windows' widths and heights with one border must not exceed 65535, where the outer
  rectangle saturates.
\<close>

theorem split_universe_correct:
  assumes "scene_ok s" and "\<forall>c. narrow s c" and "cs_windows s w \<noteq> None" and "universe s w = Some u"
  shows "clip_list s w = Some (to_rects (fst (split_universe s w u b (\<lambda>_ c _. want c))))
    \<and> map cc_window (snd (split_universe s w u b (\<lambda>_ c _. want c)))
        = rev (filter (\<lambda>c. clip_viewable s c \<and> want c) (children_of (cs_windows s) w))
    \<and> (\<forall>k \<in> set (snd (split_universe s w u b (\<lambda>_ c _. want c))).
        universe s (cc_window k) = Some (cc_universe k) \<and> (b \<longrightarrow> border_ring s (cc_window k) = Some (cc_ring k)))"
proof -
  have "fine 131072 u" using universe_ok [OF assms(1,3)] assms(4) by auto
  then show ?thesis
    using split_universe_left [OF assms(1)] split_universe_windows [OF scene_okD(1) [OF assms(1)] assms(3)] share_ok [OF assms]
    by (auto simp: clip_list_def assms(4))
qed

theorem split_universe_correct_witness:
  "\<exists>u. universe example_scene ROOT_WINDOW = Some u
    \<and> clip_list example_scene ROOT_WINDOW = Some (to_rects (fst (split_universe example_scene ROOT_WINDOW u True (\<lambda>_ c _. c = 0x201))))
    \<and> map cc_window (snd (split_universe example_scene ROOT_WINDOW u True (\<lambda>_ c _. c = 0x201))) = [0x201]"
proof -
  have w: "cs_windows example_scene ROOT_WINDOW \<noteq> None" by (simp add: example_lookup)
  obtain u where u: "universe example_scene ROOT_WINDOW = Some u" using universe_ok [OF example_ok [of 30] w] by blast
  show ?thesis using split_universe_correct [OF example_ok [of 30] example_narrow [of 30] w u, of True "\<lambda>c. c = 0x201"] u
    by (simp add: children_of_shape example_shape clip_viewable_def map_or_def example_lookup)
qed

text \<open>
  C16. The walk down a subtree returns, visits the window and each of its viewable inferiors
  once, and gives for each the clip list it has by itself; for a window that is not
  viewable it gives nothing.
\<close>

theorem subtree_clip_lists_correct:
  assumes "scene_ok s" and "\<forall>c. narrow s c" and "cs_windows s w \<noteq> None"
  shows "\<exists>L. subtree_clip_lists s w = Some L \<and> distinct (map fst L)
    \<and> fst ` set L = (if clip_viewable s w then walked s w else {})
    \<and> (\<forall>(c, rs) \<in> set L. clip_list s c = Some rs)"
proof -
  from universe_ok [OF assms(1,3)] obtain u where u: "universe s w = Some u" by blast
  show ?thesis
  proof (cases "clip_viewable s w")
    case True
    from walks_window [OF assms(1,2,3) True u, where b = False and ring = region_default]
    obtain L where "walks s False [\<lparr>cc_window = w, cc_universe = u, cc_ring = region_default\<rparr>] L" by auto
    then show ?thesis using True
      by (intro exI [of _ "without_rings L"])
        (auto simp: subtree_clip_lists_def u walk_def walks_def without_rings_def entry_ok_def clip_list_def comp_def
          split_beta image_image)
  next
    case False
    then show ?thesis by (simp add: subtree_clip_lists_def u walk_def walk_list_Cons without_rings_def)
  qed
qed

theorem subtree_clip_lists_correct_witness:
  "\<exists>L. subtree_clip_lists example_scene 0x201 = Some L \<and> distinct (map fst L) \<and> 0x201 \<in> fst ` set L"
proof -
  have "clip_viewable example_scene 0x201" "cs_windows example_scene 0x201 \<noteq> None"
    by (simp_all add: clip_viewable_def map_or_def example_lookup)
  then show ?thesis
    using subtree_clip_lists_correct [OF example_ok [of 30] example_narrow [of 30], of "0x201"] walked_self [of "0x201" example_scene] by auto
qed

text \<open>
  Mapping siblings together (\<open>subtrees_clip_lists\<close>, one split of the parent's universe)
  gives the clip lists of each of the subtrees in turn.
\<close>

theorem subtrees_clip_lists_in_turn:
  assumes "scene_ok s" and "\<forall>c. narrow s c" and "distinct tops"
  shows "subtrees_clip_lists s tops = each_subtree s tops"
  by (rule subtrees_each [OF assms])

theorem subtrees_clip_lists_in_turn_witness:
  "subtrees_clip_lists example_scene [0x202, 0x201] = each_subtree example_scene [0x202, 0x201]"
  by (rule subtrees_clip_lists_in_turn [OF example_ok [of 30] example_narrow [of 30]]) simp

section \<open>Exposures\<close>





end
