(* ===== verification/Xdmcp_Codec.thy ===== *)
theory Xdmcp_Codec
  imports Results
begin

text \<open>
  The XDMCP wire codec (\<open>crates/yserver-protocol/src/xdmcp/codec.rs\<close>): thirteen
  packets over big-endian integers and counted arrays. Writers append to a buffer and fail when
  a count does not fit; readers move a cursor over the packet and fail when it ends.
\<close>

definition XDM_PROTOCOL_VERSION :: u16 where "XDM_PROTOCOL_VERSION = 1"
definition XDM_MAX_MSGLEN :: nat where "XDM_MAX_MSGLEN = 8192"
definition HEADER_LEN :: nat where "HEADER_LEN = 6"

definition BROADCAST_QUERY :: u16 where "BROADCAST_QUERY = 1"
definition QUERY :: u16 where "QUERY = 2"
definition INDIRECT_QUERY :: u16 where "INDIRECT_QUERY = 3"
definition WILLING :: u16 where "WILLING = 5"
definition UNWILLING :: u16 where "UNWILLING = 6"
definition REQUEST :: u16 where "REQUEST = 7"
definition ACCEPT :: u16 where "ACCEPT = 8"
definition DECLINE :: u16 where "DECLINE = 9"
definition MANAGE :: u16 where "MANAGE = 10"
definition REFUSE :: u16 where "REFUSE = 11"
definition FAILED :: u16 where "FAILED = 12"
definition KEEPALIVE :: u16 where "KEEPALIVE = 13"
definition ALIVE :: u16 where "ALIVE = 14"

lemmas xdmcp_opcodes = BROADCAST_QUERY_def QUERY_def INDIRECT_QUERY_def WILLING_def UNWILLING_def REQUEST_def
  ACCEPT_def DECLINE_def MANAGE_def REFUSE_def FAILED_def KEEPALIVE_def ALIVE_def

type_synonym array8 = "u8 list"

text \<open>The fields are in the order of the source, which is the order on the wire.\<close>

datatype xdmcp_message =
    QueryMsg "array8 list"
  | BroadcastQueryMsg "array8 list"
  | IndirectQueryMsg "array8 list"
  | WillingMsg array8 array8 array8
  | UnwillingMsg array8 array8
  | RequestMsg u16 "u16 list" "array8 list" array8 array8 "array8 list" array8
  | AcceptMsg u32 array8 array8 array8 array8
  | DeclineMsg array8 array8 array8
  | ManageMsg u32 u16 array8
  | RefuseMsg u32
  | FailedMsg u32 array8
  | KeepAliveMsg u16 u32
  | AliveMsg u8 u32

fun opcode :: "xdmcp_message \<Rightarrow> u16" where
  "opcode (QueryMsg _) = QUERY"
| "opcode (BroadcastQueryMsg _) = BROADCAST_QUERY"
| "opcode (IndirectQueryMsg _) = INDIRECT_QUERY"
| "opcode (WillingMsg _ _ _) = WILLING"
| "opcode (UnwillingMsg _ _) = UNWILLING"
| "opcode (RequestMsg _ _ _ _ _ _ _) = REQUEST"
| "opcode (AcceptMsg _ _ _ _ _) = ACCEPT"
| "opcode (DeclineMsg _ _ _) = DECLINE"
| "opcode (ManageMsg _ _ _) = MANAGE"
| "opcode (RefuseMsg _) = REFUSE"
| "opcode (FailedMsg _ _) = FAILED"
| "opcode (KeepAliveMsg _ _) = KEEPALIVE"
| "opcode (AliveMsg _ _) = ALIVE"

fun alive_running :: "xdmcp_message \<Rightarrow> bool" where
  "alive_running (AliveMsg session_running _) = (session_running \<noteq> 0)"
| "alive_running _ = False"

datatype decode_error = Truncated | UnsupportedVersion u16 | UnknownOpcode u16 | LengthMismatch u16 nat
datatype encode_error = ArrayTooLong nat | TooManyElements nat | MessageTooLong nat

section \<open>Writers\<close>

definition write_card8 :: "u8 list \<Rightarrow> u8 \<Rightarrow> u8 list" where
  "write_card8 out v = out @ [v]"

definition write_card16 :: "u8 list \<Rightarrow> u16 \<Rightarrow> u8 list" where
  "write_card16 out v = out @ u16_to_be_bytes v"

definition write_card32 :: "u8 list \<Rightarrow> u32 \<Rightarrow> u8 list" where
  "write_card32 out v = out @ u32_to_be_bytes v"

definition write_array8 :: "u8 list \<Rightarrow> array8 \<Rightarrow> encode_error + u8 list" where
  "write_array8 out bytes =
     (if length bytes > 65535 then Inl (ArrayTooLong (length bytes))
      else Inr (write_card16 out (of_nat (length bytes)) @ bytes))"

definition write_array16 :: "u8 list \<Rightarrow> u16 list \<Rightarrow> encode_error + u8 list" where
  "write_array16 out vs =
     (if length vs > 255 then Inl (TooManyElements (length vs))
      else Inr (foldl write_card16 (write_card8 out (of_nat (length vs))) vs))"

definition write_array32 :: "u8 list \<Rightarrow> u32 list \<Rightarrow> encode_error + u8 list" where
  "write_array32 out vs =
     (if length vs > 255 then Inl (TooManyElements (length vs))
      else Inr (foldl write_card32 (write_card8 out (of_nat (length vs))) vs))"

fun write_each8 :: "u8 list \<Rightarrow> array8 list \<Rightarrow> encode_error + u8 list" where
  "write_each8 out [] = Inr out"
| "write_each8 out (a # as) = and_then (write_array8 out a) (\<lambda>out. write_each8 out as)"

definition write_array_of_array8 :: "u8 list \<Rightarrow> array8 list \<Rightarrow> encode_error + u8 list" where
  "write_array_of_array8 out arrays =
     (if length arrays > 255 then Inl (TooManyElements (length arrays))
      else write_each8 (write_card8 out (of_nat (length arrays))) arrays)"

section \<open>Readers\<close>

record reader =
  rbytes :: "u8 list"
  rpos :: nat

definition reader_new :: "u8 list \<Rightarrow> reader" where
  "reader_new bs = \<lparr>rbytes = bs, rpos = 0\<rparr>"

text \<open>\<open>checked_add\<close> cannot overflow: positions are below the length of a slice and counts below \<open>2^16\<close>.\<close>

definition reader_take :: "reader \<Rightarrow> nat \<Rightarrow> decode_error + u8 list \<times> reader" where
  "reader_take r n =
     (let stop = rpos r + n in
      if stop \<le> length (rbytes r) then Inr (take n (drop (rpos r) (rbytes r)), r\<lparr>rpos := stop\<rparr>)
      else Inl Truncated)"

definition card8 :: "reader \<Rightarrow> decode_error + u8 \<times> reader" where
  "card8 r = and_then (reader_take r 1) (\<lambda>(b, r). Inr (b ! 0, r))"

definition card16 :: "reader \<Rightarrow> decode_error + u16 \<times> reader" where
  "card16 r = and_then (reader_take r 2) (\<lambda>(b, r). Inr (u16_from_be_bytes (b ! 0) (b ! 1), r))"

definition card32 :: "reader \<Rightarrow> decode_error + u32 \<times> reader" where
  "card32 r = and_then (reader_take r 4) (\<lambda>(b, r). Inr (u32_from_be_bytes (b ! 0) (b ! 1) (b ! 2) (b ! 3), r))"

definition array8 :: "reader \<Rightarrow> decode_error + array8 \<times> reader" where
  "array8 r = and_then (card16 r) (\<lambda>(n, r). reader_take r (unat n))"

fun read_each :: "(reader \<Rightarrow> decode_error + 'a \<times> reader) \<Rightarrow> nat \<Rightarrow> reader \<Rightarrow> decode_error + 'a list \<times> reader" where
  "read_each get 0 r = Inr ([], r)"
| "read_each get (Suc n) r = and_then (get r) (\<lambda>(x, r). and_then (read_each get n r) (\<lambda>(xs, r). Inr (x # xs, r)))"

definition array16 :: "reader \<Rightarrow> decode_error + u16 list \<times> reader" where
  "array16 r = and_then (card8 r) (\<lambda>(n, r). read_each card16 (unat n) r)"

definition array32 :: "reader \<Rightarrow> decode_error + u32 list \<times> reader" where
  "array32 r = and_then (card8 r) (\<lambda>(n, r). read_each card32 (unat n) r)"

definition array_of_array8 :: "reader \<Rightarrow> decode_error + array8 list \<times> reader" where
  "array_of_array8 r = and_then (card8 r) (\<lambda>(n, r). read_each array8 (unat n) r)"

section \<open>Messages\<close>

fun encode_body :: "xdmcp_message \<Rightarrow> encode_error + u8 list" where
  "encode_body (QueryMsg names) = write_array_of_array8 [] names"
| "encode_body (BroadcastQueryMsg names) = write_array_of_array8 [] names"
| "encode_body (IndirectQueryMsg names) = write_array_of_array8 [] names"
| "encode_body (WillingMsg name hostname status) =
     and_then (write_array8 [] name) (\<lambda>out. and_then (write_array8 out hostname) (\<lambda>out. write_array8 out status))"
| "encode_body (UnwillingMsg hostname status) =
     and_then (write_array8 [] hostname) (\<lambda>out. write_array8 out status)"
| "encode_body (RequestMsg display types addresses name auth_data names mid) =
     and_then (write_array16 (write_card16 [] display) types) (\<lambda>out.
     and_then (write_array_of_array8 out addresses) (\<lambda>out.
     and_then (write_array8 out name) (\<lambda>out.
     and_then (write_array8 out auth_data) (\<lambda>out.
     and_then (write_array_of_array8 out names) (\<lambda>out. write_array8 out mid)))))"
| "encode_body (AcceptMsg sid name auth_data aname adata) =
     and_then (write_array8 (write_card32 [] sid) name) (\<lambda>out.
     and_then (write_array8 out auth_data) (\<lambda>out.
     and_then (write_array8 out aname) (\<lambda>out. write_array8 out adata)))"
| "encode_body (DeclineMsg status name auth_data) =
     and_then (write_array8 [] status) (\<lambda>out. and_then (write_array8 out name) (\<lambda>out. write_array8 out auth_data))"
| "encode_body (ManageMsg sid display cls) = write_array8 (write_card16 (write_card32 [] sid) display) cls"
| "encode_body (RefuseMsg sid) = Inr (write_card32 [] sid)"
| "encode_body (FailedMsg sid status) = write_array8 (write_card32 [] sid) status"
| "encode_body (KeepAliveMsg display sid) = Inr (write_card32 (write_card16 [] display) sid)"
| "encode_body (AliveMsg running sid) = Inr (write_card32 (write_card8 [] running) sid)"

definition encode_message :: "xdmcp_message \<Rightarrow> encode_error + u8 list" where
  "encode_message m = and_then (encode_body m) (\<lambda>body.
     if length body > 65535 then Inl (MessageTooLong (length body))
     else let total = HEADER_LEN + length body in
          if total > XDM_MAX_MSGLEN then Inl (MessageTooLong total)
          else Inr (write_card16 (write_card16 (write_card16 [] XDM_PROTOCOL_VERSION) (opcode m)) (of_nat (length body)) @ body))"

definition decode_body :: "u16 \<Rightarrow> reader \<Rightarrow> decode_error + xdmcp_message \<times> reader" where
  "decode_body op r =
     (if op = QUERY then and_then (array_of_array8 r) (\<lambda>(a, r). Inr (QueryMsg a, r))
      else if op = BROADCAST_QUERY then and_then (array_of_array8 r) (\<lambda>(a, r). Inr (BroadcastQueryMsg a, r))
      else if op = INDIRECT_QUERY then and_then (array_of_array8 r) (\<lambda>(a, r). Inr (IndirectQueryMsg a, r))
      else if op = WILLING then
        and_then (array8 r) (\<lambda>(a, r). and_then (array8 r) (\<lambda>(b, r). and_then (array8 r) (\<lambda>(c, r). Inr (WillingMsg a b c, r))))
      else if op = UNWILLING then
        and_then (array8 r) (\<lambda>(a, r). and_then (array8 r) (\<lambda>(b, r). Inr (UnwillingMsg a b, r)))
      else if op = REQUEST then
        and_then (card16 r) (\<lambda>(d, r). and_then (array16 r) (\<lambda>(t, r). and_then (array_of_array8 r) (\<lambda>(a, r).
        and_then (array8 r) (\<lambda>(n, r). and_then (array8 r) (\<lambda>(x, r). and_then (array_of_array8 r) (\<lambda>(z, r).
        and_then (array8 r) (\<lambda>(i, r). Inr (RequestMsg d t a n x z i, r))))))))
      else if op = ACCEPT then
        and_then (card32 r) (\<lambda>(s, r). and_then (array8 r) (\<lambda>(a, r). and_then (array8 r) (\<lambda>(b, r).
        and_then (array8 r) (\<lambda>(c, r). and_then (array8 r) (\<lambda>(d, r). Inr (AcceptMsg s a b c d, r))))))
      else if op = DECLINE then
        and_then (array8 r) (\<lambda>(a, r). and_then (array8 r) (\<lambda>(b, r). and_then (array8 r) (\<lambda>(c, r). Inr (DeclineMsg a b c, r))))
      else if op = MANAGE then
        and_then (card32 r) (\<lambda>(s, r). and_then (card16 r) (\<lambda>(d, r). and_then (array8 r) (\<lambda>(c, r). Inr (ManageMsg s d c, r))))
      else if op = REFUSE then and_then (card32 r) (\<lambda>(s, r). Inr (RefuseMsg s, r))
      else if op = FAILED then and_then (card32 r) (\<lambda>(s, r). and_then (array8 r) (\<lambda>(a, r). Inr (FailedMsg s a, r)))
      else if op = KEEPALIVE then and_then (card16 r) (\<lambda>(d, r). and_then (card32 r) (\<lambda>(s, r). Inr (KeepAliveMsg d s, r)))
      else if op = ALIVE then and_then (card8 r) (\<lambda>(b, r). and_then (card32 r) (\<lambda>(s, r). Inr (AliveMsg b s, r)))
      else Inl (UnknownOpcode op))"

definition decode_message :: "u8 list \<Rightarrow> decode_error + xdmcp_message" where
  "decode_message packet =
     and_then (card16 (reader_new packet)) (\<lambda>(version, h).
     and_then (card16 h) (\<lambda>(op, h).
     and_then (card16 h) (\<lambda>(declared, h).
     if version \<noteq> XDM_PROTOCOL_VERSION then Inl (UnsupportedVersion version)
     else and_then (decode_body op (reader_new (drop HEADER_LEN packet))) (\<lambda>(m, r).
       if unat declared \<noteq> rpos r then Inl (LengthMismatch declared (rpos r)) else Inr m))))"

end
