(* ===== verification/Xdmcp_State.thy ===== *)
theory Xdmcp_State
  imports Xdmcp_Codec Machines
begin

text \<open>
  The display side of XDMCP (\<open>crates/yserver-protocol/src/xdmcp/state.rs\<close>): a machine that takes
  packets, timer expiries and the comings and goings of clients, and answers with actions. A
  method that takes \<open>&mut self\<close> and returns actions is a function from the machine to the
  machine and the actions.
\<close>

type_synonym secs = u32
type_synonym client_id = u32

text \<open>A socket address is only compared: the octets of the host and the port.\<close>

type_synonym socket_addr = "u8 list \<times> u16"

definition XDM_MIN_RTX :: u32 where "XDM_MIN_RTX = 2"
definition XDM_MAX_RTX :: u32 where "XDM_MAX_RTX = 32"
definition XDM_RTX_LIMIT :: u32 where "XDM_RTX_LIMIT = 7"
definition XDM_KA_RTX_LIMIT :: u32 where "XDM_KA_RTX_LIMIT = 4"
definition XDM_DEF_DORMANCY :: u32 where "XDM_DEF_DORMANCY = 3 * 60"

lemmas xdm_limits = XDM_MIN_RTX_def XDM_MAX_RTX_def XDM_RTX_LIMIT_def XDM_KA_RTX_LIMIT_def XDM_DEF_DORMANCY_def

definition MIT_MAGIC_COOKIE_1 :: array8 where "MIT_MAGIC_COOKIE_1 = ascii ''MIT-MAGIC-COOKIE-1''"
definition UNWILLING_MESSAGE :: array8 where "UNWILLING_MESSAGE = ascii ''Host unwilling''"

datatype xdmcp_state = Query | Broadcast | Indirect | CollectQuery | CollectBroadcastQuery | CollectIndirectQuery
  | StartConnection | AwaitRequestResponse | AwaitManageResponse | Manage | RunSession | Off | KeepAlive | AwaitAliveResponse

datatype initial_mode = QueryMode | BroadcastMode | IndirectMode

fun mode_state :: "initial_mode \<Rightarrow> xdmcp_state" where
  "mode_state QueryMode = Query"
| "mode_state BroadcastMode = Broadcast"
| "mode_state IndirectMode = Indirect"

record xdmcp_config =
  initial_mode :: initial_mode
  once :: bool
  display_number :: u16
  display_class :: array8
  manufacturer_display_id :: array8
  authentication_names :: "array8 list"
  authorization_names :: "array8 list"
  connection_types :: "u16 list"
  connection_addresses :: "array8 list"
  manager_address :: "socket_addr option"

definition config_query :: "u16 \<Rightarrow> xdmcp_config" where
  "config_query n = \<lparr>initial_mode = QueryMode, once = False, display_number = n, display_class = ascii ''MIT-unspecified'',
     manufacturer_display_id = [], authentication_names = [], authorization_names = [MIT_MAGIC_COOKIE_1],
     connection_types = [], connection_addresses = [], manager_address = None\<rparr>"

datatype packet_destination = Manager | ToBroadcast | SelectedHost socket_addr
datatype renew_cause = SessionEnded | KeepAliveTimedOut | AliveSaysSessionDead | RetransmissionsExhausted
datatype fatal_kind = ManagerUnwilling | AuthenticationFailure | SessionDeclined | SessionFailed
datatype terminate_reason = Fatal fatal_kind array8 | OneSession renew_cause

datatype xdmcp_action =
    Send packet_destination xdmcp_message
  | SetTimer secs
  | CancelTimer
  | InstallCookie array8 array8
  | ClearCookie
  | ResetGeneration renew_cause
  | Terminate terminate_reason

datatype xdmcp_event =
    Start
  | Packet socket_addr xdmcp_message
  | UndecodablePacket
  | TimerExpired
  | SessionClientEstablished client_id
  | SessionClientDisconnected client_id

record xdmcp_machine =
  config :: xdmcp_config
  mstate :: xdmcp_state
  session_id :: u32
  timeout_rtx :: u32
  selected_host :: "socket_addr option"
  session_client :: "client_id option"
  authentication_name :: array8

type_synonym reaction = "xdmcp_machine \<times> xdmcp_action list"

definition machine_new :: "xdmcp_config \<Rightarrow> xdmcp_machine" where
  "machine_new c = \<lparr>config = c, mstate = mode_state (initial_mode c), session_id = 0, timeout_rtx = 0,
     selected_host = None, session_client = None, authentication_name = []\<rparr>"

section \<open>Sending\<close>

text \<open>\<open>checked_shl\<close> fails from 32 on; the shift itself drops what leaves the word.\<close>

definition retransmit_seconds :: "u32 \<Rightarrow> u32" where
  "retransmit_seconds n =
     (if n < 32 \<and> XDM_MIN_RTX \<le> push_bit (unat n) XDM_MIN_RTX \<and> push_bit (unat n) XDM_MIN_RTX \<le> XDM_MAX_RTX
      then push_bit (unat n) XDM_MIN_RTX else XDM_MAX_RTX)"

definition sent_in :: "xdmcp_machine \<Rightarrow> (packet_destination \<times> xdmcp_message) option" where
  "sent_in m = (let c = config m in
     case mstate m of
       Query \<Rightarrow> Some (Manager, QueryMsg (authentication_names c))
     | Broadcast \<Rightarrow> Some (ToBroadcast, BroadcastQueryMsg (authentication_names c))
     | Indirect \<Rightarrow> Some (Manager, IndirectQueryMsg (authentication_names c))
     | StartConnection \<Rightarrow> map_option (\<lambda>h. (SelectedHost h, RequestMsg (display_number c) (connection_types c)
           (connection_addresses c) (authentication_name m) [] (authorization_names c) (manufacturer_display_id c))) (selected_host m)
     | Manage \<Rightarrow> map_option (\<lambda>h. (SelectedHost h, ManageMsg (session_id m) (display_number c) (display_class c))) (selected_host m)
     | KeepAlive \<Rightarrow> map_option (\<lambda>h. (SelectedHost h, KeepAliveMsg (display_number c) (session_id m))) (selected_host m)
     | _ \<Rightarrow> None)"

fun after_send :: "xdmcp_state \<Rightarrow> xdmcp_state" where
  "after_send Query = CollectQuery"
| "after_send Broadcast = CollectBroadcastQuery"
| "after_send Indirect = CollectIndirectQuery"
| "after_send StartConnection = AwaitRequestResponse"
| "after_send Manage = AwaitManageResponse"
| "after_send KeepAlive = AwaitAliveResponse"
| "after_send s = s"

definition send_packet :: "xdmcp_machine \<Rightarrow> reaction" where
  "send_packet m = (m\<lparr>mstate := after_send (mstate m)\<rparr>,
     (case sent_in m of Some (d, msg) \<Rightarrow> [Send d msg] | None \<Rightarrow> []) @ [SetTimer (retransmit_seconds (timeout_rtx m))])"

text \<open>The actions so far, then a method.\<close>

definition extend :: "xdmcp_action list \<Rightarrow> reaction \<Rightarrow> reaction" where
  "extend as r = (fst r, as @ snd r)"

section \<open>Life cycle\<close>

definition start :: "xdmcp_machine \<Rightarrow> reaction" where
  "start m = extend [CancelTimer] (send_packet (m\<lparr>mstate := mode_state (initial_mode (config m)), timeout_rtx := 0\<rparr>))"

definition open_display :: "xdmcp_machine \<Rightarrow> client_id \<Rightarrow> reaction" where
  "open_display m c =
     (if mstate m \<noteq> AwaitManageResponse then (m, [])
      else (m\<lparr>mstate := RunSession, session_client := Some c\<rparr>, [SetTimer XDM_DEF_DORMANCY]))"

definition close_display :: "xdmcp_machine \<Rightarrow> client_id \<Rightarrow> reaction" where
  "close_display m c =
     (if \<not> (mstate m = RunSession \<or> mstate m = AwaitAliveResponse) \<or> session_client m \<noteq> Some c then (m, [])
      else let m1 = m\<lparr>session_client := None, mstate := mode_state (initial_mode (config m))\<rparr> in
           if once (config m) then (m1\<lparr>mstate := Off\<rparr>, [Terminate (OneSession SessionEnded)])
           else (m1, [ResetGeneration SessionEnded]))"

section \<open>Timers\<close>

definition dead_session :: "xdmcp_machine \<Rightarrow> renew_cause \<Rightarrow> reaction" where
  "dead_session m cause =
     (let m1 = m\<lparr>mstate := mode_state (initial_mode (config m)), timeout_rtx := 0, session_client := None\<rparr> in
      if once (config m) then (m1\<lparr>mstate := Off\<rparr>, [CancelTimer, Terminate (OneSession cause)])
      else extend [CancelTimer, ResetGeneration cause] (send_packet m1))"

fun retry_state :: "xdmcp_state \<Rightarrow> xdmcp_state" where
  "retry_state CollectQuery = Query"
| "retry_state CollectBroadcastQuery = Broadcast"
| "retry_state CollectIndirectQuery = Indirect"
| "retry_state AwaitRequestResponse = StartConnection"
| "retry_state AwaitManageResponse = Manage"
| "retry_state AwaitAliveResponse = KeepAlive"
| "retry_state s = s"

definition timeout :: "xdmcp_machine \<Rightarrow> reaction" where
  "timeout m =
     (let m1 = m\<lparr>timeout_rtx := timeout_rtx m + 1\<rparr> in
      if mstate m1 = AwaitAliveResponse \<and> timeout_rtx m1 \<ge> XDM_KA_RTX_LIMIT then dead_session m1 KeepAliveTimedOut
      else if timeout_rtx m1 \<ge> XDM_RTX_LIMIT then
        if once (config m) then (m1\<lparr>mstate := Off\<rparr>, [Terminate (OneSession RetransmissionsExhausted)])
        else dead_session m1 RetransmissionsExhausted
      else send_packet (m1\<lparr>mstate := retry_state (mstate m1)\<rparr>))"

definition timer_expired :: "xdmcp_machine \<Rightarrow> reaction" where
  "timer_expired m =
     (if mstate m = RunSession then send_packet (m\<lparr>mstate := KeepAlive\<rparr>) else timeout m)"

definition fatal :: "xdmcp_machine \<Rightarrow> fatal_kind \<Rightarrow> array8 \<Rightarrow> reaction" where
  "fatal m kind status = (m\<lparr>mstate := Off\<rparr>, [Terminate (Fatal kind status)])"

section \<open>Receiving\<close>

definition accept_for_state :: "xdmcp_machine \<Rightarrow> xdmcp_machine" where
  "accept_for_state m = m\<lparr>timeout_rtx := 0\<rparr>"

definition recv_unwilling :: "xdmcp_machine \<Rightarrow> socket_addr \<Rightarrow> reaction" where
  "recv_unwilling m from_addr =
     (if mstate m \<noteq> CollectQuery then (m, [])
      else if manager_address (config m) \<noteq> Some from_addr then (m, [])
      else fatal m ManagerUnwilling UNWILLING_MESSAGE)"

definition set_authentication :: "xdmcp_machine \<Rightarrow> array8 \<Rightarrow> xdmcp_machine" where
  "set_authentication m offered =
     (if list_ex (\<lambda>n. n = offered) (authentication_names (config m)) then m\<lparr>authentication_name := offered\<rparr> else m)"

definition select_host :: "xdmcp_machine \<Rightarrow> socket_addr \<Rightarrow> array8 \<Rightarrow> reaction" where
  "select_host m from_addr name =
     send_packet (set_authentication ((accept_for_state m)\<lparr>mstate := StartConnection, selected_host := Some from_addr\<rparr>) name)"

definition add_host :: "xdmcp_machine \<Rightarrow> socket_addr \<Rightarrow> array8 \<Rightarrow> reaction" where
  "add_host m from_addr name = select_host m from_addr name"

definition recv_willing :: "xdmcp_machine \<Rightarrow> socket_addr \<Rightarrow> array8 \<Rightarrow> reaction" where
  "recv_willing m from_addr name =
     (case mstate m of
        CollectQuery \<Rightarrow> select_host m from_addr name
      | CollectBroadcastQuery \<Rightarrow> add_host m from_addr name
      | CollectIndirectQuery \<Rightarrow> add_host m from_addr name
      | _ \<Rightarrow> (m, []))"

definition check_authentication :: "xdmcp_machine \<Rightarrow> array8 \<Rightarrow> array8 \<Rightarrow> bool" where
  "check_authentication m name bytes =
     (if name \<noteq> authentication_name m then False else authentication_name m = [])"

definition recv_accept :: "xdmcp_machine \<Rightarrow> u32 \<Rightarrow> array8 \<Rightarrow> array8 \<Rightarrow> array8 \<Rightarrow> array8 \<Rightarrow> reaction" where
  "recv_accept m sid name bytes auth_name auth_data =
     (if mstate m \<noteq> AwaitRequestResponse then (m, [])
      else if \<not> check_authentication m name bytes then fatal m AuthenticationFailure name
      else if auth_name \<noteq> MIT_MAGIC_COOKIE_1 \<or> auth_data = [] then (m, [ClearCookie])
      else extend [InstallCookie auth_name auth_data]
             (send_packet ((accept_for_state m)\<lparr>session_id := sid, mstate := Manage\<rparr>)))"

definition recv_decline :: "xdmcp_machine \<Rightarrow> array8 \<Rightarrow> array8 \<Rightarrow> array8 \<Rightarrow> reaction" where
  "recv_decline m status name bytes =
     (if \<not> check_authentication m name bytes then (m, []) else fatal m SessionDeclined status)"

definition recv_refuse :: "xdmcp_machine \<Rightarrow> u32 \<Rightarrow> reaction" where
  "recv_refuse m sid =
     (if mstate m \<noteq> AwaitManageResponse \<or> sid \<noteq> session_id m then (m, [])
      else extend [ClearCookie] (send_packet ((accept_for_state m)\<lparr>mstate := StartConnection\<rparr>)))"

definition recv_failed :: "xdmcp_machine \<Rightarrow> u32 \<Rightarrow> array8 \<Rightarrow> reaction" where
  "recv_failed m sid status =
     (if mstate m \<noteq> AwaitManageResponse \<or> sid \<noteq> session_id m then (m, []) else fatal m SessionFailed status)"

definition recv_alive :: "xdmcp_machine \<Rightarrow> u8 \<Rightarrow> u32 \<Rightarrow> reaction" where
  "recv_alive m running sid =
     (if mstate m \<noteq> AwaitAliveResponse then (m, [])
      else if running \<noteq> 0 \<and> sid = session_id m
      then ((accept_for_state m)\<lparr>mstate := RunSession\<rparr>, [SetTimer XDM_DEF_DORMANCY])
      else dead_session m AliveSaysSessionDead)"

fun receive :: "xdmcp_machine \<Rightarrow> socket_addr \<Rightarrow> xdmcp_message \<Rightarrow> reaction" where
  "receive m from_addr (WillingMsg name _ _) = recv_willing m from_addr name"
| "receive m from_addr (UnwillingMsg _ _) = recv_unwilling m from_addr"
| "receive m from_addr (AcceptMsg sid name bytes auth_name auth_data) = recv_accept m sid name bytes auth_name auth_data"
| "receive m from_addr (DeclineMsg status name bytes) = recv_decline m status name bytes"
| "receive m from_addr (RefuseMsg sid) = recv_refuse m sid"
| "receive m from_addr (FailedMsg sid status) = recv_failed m sid status"
| "receive m from_addr (AliveMsg running sid) = recv_alive m running sid"
| "receive m from_addr _ = (m, [])"

fun handle_event :: "xdmcp_machine \<Rightarrow> xdmcp_event \<Rightarrow> reaction" where
  "handle_event m Start = start m"
| "handle_event m UndecodablePacket = (m, [])"
| "handle_event m (Packet from_addr msg) = receive m from_addr msg"
| "handle_event m TimerExpired = timer_expired m"
| "handle_event m (SessionClientEstablished c) = open_display m c"
| "handle_event m (SessionClientDisconnected c) = close_display m c"

definition handle :: "xdmcp_machine \<Rightarrow> xdmcp_event \<Rightarrow> reaction" where
  "handle m ev = (if mstate m = Off then (m, []) else handle_event m ev)"

end
