(* ===== verification/Xdmcp_Wire.thy ===== *)
theory Xdmcp_Wire
  imports Xdmcp_Codec
begin

text \<open>
  What goes over the wire. \<open>codec\<close> is the contract of a writer and a reader of the same field: a
  partial function gives the bytes of a value, the writer appends exactly these and fails where
  there are none, and the reader succeeds exactly on them. Counted lists of a
  field have it when the field has it; each field type of XDMCP is an interpretation.
\<close>

definition reads :: "reader \<Rightarrow> u8 list \<Rightarrow> reader \<Rightarrow> bool" where
  "reads r p r' \<longleftrightarrow> r' = r\<lparr>rpos := rpos r + length p\<rparr> \<and> rpos r + length p \<le> length (rbytes r)
     \<and> take (length p) (drop (rpos r) (rbytes r)) = p"

lemma reads_Nil: "rpos r \<le> length (rbytes r) \<Longrightarrow> reads r [] r' \<longleftrightarrow> r' = r"
  by (auto simp: reads_def)

lemma reads_append: "reads r (p @ q) r'' \<longleftrightarrow> (\<exists>r'. reads r p r' \<and> reads r' q r'')"
proof -
  have "take (length p + length q) xs = p @ q \<longleftrightarrow> take (length p) xs = p \<and> take (length q) (drop (length p) xs) = q"
    if "length p + length q \<le> length xs" for xs :: "u8 list"
    using that by (metis add_leD1 append_eq_conv_conj append_take_drop_id drop_take length_take min.absorb2 take_add take_drop)
  from this [of "drop (rpos r) (rbytes r)"] show ?thesis
    by (auto simp: reads_def add.assoc add.commute)
qed

lemma reads_pos: "reads r p r' \<Longrightarrow> rpos r' = rpos r + length p \<and> rpos r' \<le> length (rbytes r') \<and> rbytes r' = rbytes r"
  by (auto simp: reads_def)

lemma reads_new: "reads (reader_new bs) p r' \<longleftrightarrow> r' = \<lparr>rbytes = bs, rpos = length p\<rparr> \<and> (\<exists>rest. bs = p @ rest)"
  by (auto simp: reads_def reader_new_def) (metis append_take_drop_id)

lemma reader_take_iff: "reader_take r n = Inr (p, r') \<longleftrightarrow> reads r p r' \<and> length p = n"
  by (auto simp: reader_take_def reads_def Let_def)

fun codes :: "('a \<Rightarrow> u8 list option) \<Rightarrow> 'a list \<Rightarrow> u8 list option" where
  "codes code [] = Some []"
| "codes code (x # xs) = Option.bind (code x) (\<lambda>p. Option.bind (codes code xs) (\<lambda>q. Some (p @ q)))"

definition counted :: "('a \<Rightarrow> u8 list option) \<Rightarrow> 'a list \<Rightarrow> u8 list option" where
  "counted code xs = (if length xs > 255 then None else map_option (\<lambda>p. of_nat (length xs) # p) (codes code xs))"

locale codec =
  fixes put :: "u8 list \<Rightarrow> 'a \<Rightarrow> encode_error + u8 list"
    and get :: "reader \<Rightarrow> decode_error + 'a \<times> reader"
    and code :: "'a \<Rightarrow> u8 list option"
  assumes put_code: "put out x = Inr out' \<longleftrightarrow> (\<exists>p. code x = Some p \<and> out' = out @ p)"
    and get_code: "get r = Inr (x, r') \<longleftrightarrow> (\<exists>p. code x = Some p \<and> reads r p r')"
begin

lemma get_put: "put [] x = Inr bs \<Longrightarrow> get (reader_new (bs @ rest)) = Inr (x, \<lparr>rbytes = bs @ rest, rpos = length bs\<rparr>)"
  by (auto simp: put_code get_code reads_new)

lemma put_get: "get r = Inr (x, r') \<Longrightarrow> \<exists>p. put out x = Inr (out @ p) \<and> reads r p r'"
  by (auto simp: put_code get_code)

lemma read_each_code:
  "rpos r \<le> length (rbytes r) \<Longrightarrow>
    read_each get n r = Inr (xs, r') \<longleftrightarrow> length xs = n \<and> (\<exists>p. codes code xs = Some p \<and> reads r p r')"
proof (induction n arbitrary: r xs)
  case 0
  then show ?case by (auto simp: reads_Nil)
next
  case (Suc n)
  have "read_each get (Suc n) r = Inr (xs, r') \<longleftrightarrow>
      (\<exists>x s ys. get r = Inr (x, s) \<and> read_each get n s = Inr (ys, r') \<and> xs = x # ys)"
    by (auto simp: and_then_Inr)
  also have "\<dots> \<longleftrightarrow> (\<exists>x s ys p. code x = Some p \<and> reads r p s \<and> read_each get n s = Inr (ys, r') \<and> xs = x # ys)"
    by (auto simp: get_code)
  also have "\<dots> \<longleftrightarrow> (\<exists>x s ys p q. code x = Some p \<and> reads r p s \<and> length ys = n \<and> codes code ys = Some q \<and> reads s q r' \<and> xs = x # ys)"
  proof -
    have "read_each get n s = Inr (ys, r') \<longleftrightarrow> length ys = n \<and> (\<exists>q. codes code ys = Some q \<and> reads s q r')" if "reads r p s" for s p ys
      using Suc.IH [of s ys] reads_pos [OF that] by blast
    then show ?thesis by blast
  qed
  also have "\<dots> \<longleftrightarrow> length xs = Suc n \<and> (\<exists>p. codes code xs = Some p \<and> reads r p r')"
    by (cases xs) (auto simp: bind_eq_Some_conv reads_append, blast)
  finally show ?case .
qed

end

section \<open>Integers\<close>

abbreviation code_card8 :: "u8 \<Rightarrow> u8 list option" where "code_card8 v \<equiv> Some [v]"
abbreviation code_card16 :: "u16 \<Rightarrow> u8 list option" where "code_card16 v \<equiv> Some (u16_to_be_bytes v)"
abbreviation code_card32 :: "u32 \<Rightarrow> u8 list option" where "code_card32 v \<equiv> Some (u32_to_be_bytes v)"

lemma list2: "length p = 2 \<longleftrightarrow> (\<exists>a b. p = [a, b])"
  by (auto simp: numeral_2_eq_2 length_Suc_conv)

lemma list4: "length p = 4 \<longleftrightarrow> (\<exists>a b c d. p = [a, b, c, d])"
  by (auto simp: eval_nat_numeral length_Suc_conv)

lemma card8_code: "card8 r = Inr (x, r') \<longleftrightarrow> reads r [x] r'"
  by (auto simp: card8_def and_then_Inr reader_take_iff length_Suc_conv)

lemma card16_code: "card16 r = Inr (x, r') \<longleftrightarrow> reads r (u16_to_be_bytes x) r'"
proof -
  have "card16 r = Inr (x, r') \<longleftrightarrow> (\<exists>a b. reads r [a, b] r' \<and> x = u16_from_be_bytes a b)"
    by (fastforce simp: card16_def and_then_Inr reader_take_iff list2)
  also have "\<dots> \<longleftrightarrow> reads r (u16_to_be_bytes x) r'"
    using u16_to_from u16_be_inverse by (metis u16_to_be_bytes_def)
  finally show ?thesis .
qed

lemma card32_code: "card32 r = Inr (x, r') \<longleftrightarrow> reads r (u32_to_be_bytes x) r'"
proof -
  have "card32 r = Inr (x, r') \<longleftrightarrow> (\<exists>a b c d. reads r [a, b, c, d] r' \<and> x = u32_from_be_bytes a b c d)"
    by (fastforce simp: card32_def and_then_Inr reader_take_iff list4)
  also have "\<dots> \<longleftrightarrow> reads r (u32_to_be_bytes x) r'"
    using u32_to_from u32_be_inverse by (metis u32_to_be_bytes_def)
  finally show ?thesis .
qed

interpretation c8: codec "\<lambda>out v. Inr (write_card8 out v)" card8 code_card8
  by unfold_locales (auto simp: write_card8_def card8_code)

interpretation c16: codec "\<lambda>out v. Inr (write_card16 out v)" card16 code_card16
  by unfold_locales (auto simp: write_card16_def card16_code)

interpretation c32: codec "\<lambda>out v. Inr (write_card32 out v)" card32 code_card32
  by unfold_locales (auto simp: write_card32_def card32_code)

section \<open>Arrays\<close>

definition code_array8 :: "array8 \<Rightarrow> u8 list option" where
  "code_array8 a = (if length a > 65535 then None else Some (u16_to_be_bytes (of_nat (length a)) @ a))"

lemma unat_of_nat_u16 [simp]: "n \<le> 65535 \<Longrightarrow> unat (of_nat n :: u16) = n"
  by (simp add: unat_of_nat)

lemma unat_of_nat_u8 [simp]: "n \<le> 255 \<Longrightarrow> unat (of_nat n :: u8) = n"
  by (simp add: unat_of_nat)

lemma unat_u16_le: "unat (w :: u16) \<le> 65535"
  using unsigned_less [of w, where 'a = nat] by simp

lemma unat_u8_le: "unat (w :: u8) \<le> 255"
  using unsigned_less [of w, where 'a = nat] by simp

interpretation a8: codec write_array8 array8 code_array8
proof unfold_locales
  show "write_array8 out x = Inr out' \<longleftrightarrow> (\<exists>p. code_array8 x = Some p \<and> out' = out @ p)" for out x out'
    by (auto simp: write_array8_def code_array8_def write_card16_def)
  show "array8 r = Inr (x, r') \<longleftrightarrow> (\<exists>p. code_array8 x = Some p \<and> reads r p r')" for r x r'
  proof -
    have "array8 r = Inr (x, r') \<longleftrightarrow> (\<exists>n s. reads r (u16_to_be_bytes n) s \<and> reads s x r' \<and> length x = unat n)"
      by (auto simp: array8_def and_then_Inr card16_code reader_take_iff)
    also have "\<dots> \<longleftrightarrow> length x \<le> 65535 \<and> reads r (u16_to_be_bytes (of_nat (length x)) @ x) r'"
    proof
      assume "\<exists>n s. reads r (u16_to_be_bytes n) s \<and> reads s x r' \<and> length x = unat n"
      then show "length x \<le> 65535 \<and> reads r (u16_to_be_bytes (of_nat (length x)) @ x) r'"
        using unat_u16_le by (auto simp: reads_append)
    next
      assume "length x \<le> 65535 \<and> reads r (u16_to_be_bytes (of_nat (length x)) @ x) r'"
      then show "\<exists>n s. reads r (u16_to_be_bytes n) s \<and> reads s x r' \<and> length x = unat n"
        unfolding reads_append using unat_of_nat_u16 by metis
    qed
    finally show ?thesis by (auto simp: code_array8_def)
  qed
qed

lemma counted_code:
  assumes "codec put get code"
  shows "and_then (card8 r) (\<lambda>(n, r). read_each get (unat n) r) = Inr (xs, r') \<longleftrightarrow> (\<exists>p. counted code xs = Some p \<and> reads r p r')"
proof -
  have "and_then (card8 r) (\<lambda>(n, r). read_each get (unat n) r) = Inr (xs, r')
      \<longleftrightarrow> (\<exists>n s. reads r [n] s \<and> read_each get (unat n) s = Inr (xs, r'))"
    by (auto simp: and_then_Inr card8_code)
  also have "\<dots> \<longleftrightarrow> (\<exists>n s. reads r [n] s \<and> length xs = unat n \<and> (\<exists>p. codes code xs = Some p \<and> reads s p r'))"
  proof -
    have "read_each get (unat n) s = Inr (xs, r') \<longleftrightarrow> length xs = unat n \<and> (\<exists>p. codes code xs = Some p \<and> reads s p r')" if "reads r [n] s" for n s
      using codec.read_each_code [OF assms, of s] reads_pos [OF that] by blast
    then show ?thesis by blast
  qed
  also have "\<dots> \<longleftrightarrow> length xs \<le> 255 \<and> (\<exists>p. codes code xs = Some p \<and> reads r ([of_nat (length xs)] @ p) r')"
  proof
    assume "\<exists>n s. reads r [n] s \<and> length xs = unat n \<and> (\<exists>p. codes code xs = Some p \<and> reads s p r')"
    then obtain n s p where "reads r [n] s" "length xs = unat n" "codes code xs = Some p" "reads s p r'" by blast
    then show "length xs \<le> 255 \<and> (\<exists>p. codes code xs = Some p \<and> reads r ([of_nat (length xs)] @ p) r')"
      unfolding reads_append using unat_u8_le [of n] by auto
  next
    assume "length xs \<le> 255 \<and> (\<exists>p. codes code xs = Some p \<and> reads r ([of_nat (length xs)] @ p) r')"
    then show "\<exists>n s. reads r [n] s \<and> length xs = unat n \<and> (\<exists>p. codes code xs = Some p \<and> reads s p r')"
      unfolding reads_append using unat_of_nat_u8 by metis
  qed
  finally show ?thesis by (auto simp: counted_def)
qed

lemma codes_total: "(\<And>x. f x = Some (g x)) \<Longrightarrow> codes f xs = Some (concat (map g xs))"
  by (induction xs) simp_all

lemma foldl_append: "(\<And>out x. f out x = out @ g x) \<Longrightarrow> foldl f out xs = out @ concat (map g xs)"
  by (induction xs arbitrary: out) simp_all

interpretation a16: codec write_array16 array16 "counted code_card16"
proof unfold_locales
  show "write_array16 out x = Inr out' \<longleftrightarrow> (\<exists>p. counted code_card16 x = Some p \<and> out' = out @ p)" for out x out'
    by (auto simp: write_array16_def counted_def write_card8_def codes_total foldl_append [OF write_card16_def])
  show "array16 r = Inr (x, r') \<longleftrightarrow> (\<exists>p. counted code_card16 x = Some p \<and> reads r p r')" for r x r'
    unfolding array16_def by (rule counted_code [OF c16.codec_axioms])
qed

interpretation a32: codec write_array32 array32 "counted code_card32"
proof unfold_locales
  show "write_array32 out x = Inr out' \<longleftrightarrow> (\<exists>p. counted code_card32 x = Some p \<and> out' = out @ p)" for out x out'
    by (auto simp: write_array32_def counted_def write_card8_def codes_total foldl_append [OF write_card32_def])
  show "array32 r = Inr (x, r') \<longleftrightarrow> (\<exists>p. counted code_card32 x = Some p \<and> reads r p r')" for r x r'
    unfolding array32_def by (rule counted_code [OF c32.codec_axioms])
qed

lemma write_each8_code: "write_each8 out xs = Inr out' \<longleftrightarrow> (\<exists>p. codes code_array8 xs = Some p \<and> out' = out @ p)"
  by (induction xs arbitrary: out) (auto simp: and_then_Inr a8.put_code bind_eq_Some_conv)

interpretation aa8: codec write_array_of_array8 array_of_array8 "counted code_array8"
proof unfold_locales
  show "write_array_of_array8 out x = Inr out' \<longleftrightarrow> (\<exists>p. counted code_array8 x = Some p \<and> out' = out @ p)" for out x out'
    by (auto simp: write_array_of_array8_def counted_def write_card8_def write_each8_code)
  show "array_of_array8 r = Inr (x, r') \<longleftrightarrow> (\<exists>p. counted code_array8 x = Some p \<and> reads r p r')" for r x r'
    unfolding array_of_array8_def by (rule counted_code [OF a8.codec_axioms])
qed

section \<open>Messages\<close>

text \<open>The bytes of a sequence of fields.\<close>

definition cat :: "u8 list option \<Rightarrow> u8 list option \<Rightarrow> u8 list option" where
  "cat a b = Option.bind a (\<lambda>p. Option.bind b (\<lambda>q. Some (p @ q)))"

lemma cat_Some: "cat a b = Some r \<longleftrightarrow> (\<exists>p q. a = Some p \<and> b = Some q \<and> r = p @ q)"
  by (auto simp: cat_def bind_eq_Some_conv)

fun code_body :: "xdmcp_message \<Rightarrow> u8 list option" where
  "code_body (QueryMsg names) = counted code_array8 names"
| "code_body (BroadcastQueryMsg names) = counted code_array8 names"
| "code_body (IndirectQueryMsg names) = counted code_array8 names"
| "code_body (WillingMsg a b c) = cat (code_array8 a) (cat (code_array8 b) (code_array8 c))"
| "code_body (UnwillingMsg a b) = cat (code_array8 a) (code_array8 b)"
| "code_body (RequestMsg d t a n x z i) = cat (code_card16 d) (cat (counted code_card16 t) (cat (counted code_array8 a)
     (cat (code_array8 n) (cat (code_array8 x) (cat (counted code_array8 z) (code_array8 i))))))"
| "code_body (AcceptMsg s a b c d) = cat (code_card32 s) (cat (code_array8 a) (cat (code_array8 b) (cat (code_array8 c) (code_array8 d))))"
| "code_body (DeclineMsg a b c) = cat (code_array8 a) (cat (code_array8 b) (code_array8 c))"
| "code_body (ManageMsg s d c) = cat (code_card32 s) (cat (code_card16 d) (code_array8 c))"
| "code_body (RefuseMsg s) = code_card32 s"
| "code_body (FailedMsg s a) = cat (code_card32 s) (code_array8 a)"
| "code_body (KeepAliveMsg d s) = cat (code_card16 d) (code_card32 s)"
| "code_body (AliveMsg b s) = cat (code_card8 b) (code_card32 s)"

lemmas put_codes = a8.put_code aa8.put_code a16.put_code
lemmas get_codes = a8.get_code aa8.get_code a16.get_code card8_code card16_code card32_code

lemma encode_body_code: "encode_body m = Inr bs \<longleftrightarrow> code_body m = Some bs"
  by (cases m) (auto simp: put_codes and_then_Inr cat_Some write_card8_def write_card16_def write_card32_def)

text \<open>Reading a field, then the rest.\<close>

lemma get_then:
  assumes "\<And>x r'. get r = Inr (x, r') \<longleftrightarrow> (\<exists>p. code x = Some p \<and> reads r p r')"
  shows "and_then (get r) (\<lambda>(x, r). f x r) = Inr y \<longleftrightarrow> (\<exists>x p r'. code x = Some p \<and> reads r p r' \<and> f x r' = Inr y)"
  using assms by (auto simp: and_then_Inr)

lemmas get_thens = get_then [OF a8.get_code] get_then [OF aa8.get_code] get_then [OF a16.get_code]
  get_then [OF c8.get_code] get_then [OF c16.get_code] get_then [OF c32.get_code]

lemma reads_alive: "reads r (x # u32_to_be_bytes y) r'' \<longleftrightarrow> (\<exists>r'. reads r [x] r' \<and> reads r' (u32_to_be_bytes y) r'')"
  using reads_append [of r "[x]" "u32_to_be_bytes y" r''] by simp

lemma decode_body_complete:
  assumes "code_body m = Some p" "reads r p r'"
  shows "decode_body (opcode m) r = Inr (m, r')"
  using assms
  by (cases m; clarsimp simp: decode_body_def xdmcp_opcodes get_thens cat_Some reads_append reads_alive; blast)

lemma decode_body_sound:
  assumes "decode_body op r = Inr (m, r')"
  shows "op = opcode m \<and> (\<exists>p. code_body m = Some p \<and> reads r p r')"
  using assms unfolding decode_body_def
  by (simp only: get_thens split: if_splits; clarsimp simp: cat_Some reads_append reads_alive; blast)

section \<open>Packets\<close>

definition header :: "xdmcp_message \<Rightarrow> u8 list \<Rightarrow> u8 list" where
  "header m body = u16_to_be_bytes XDM_PROTOCOL_VERSION @ u16_to_be_bytes (opcode m) @ u16_to_be_bytes (of_nat (length body))"

lemma u16_to_be_bytes_inject [simp]: "u16_to_be_bytes a = u16_to_be_bytes b \<longleftrightarrow> a = b"
  using u16_be_inverse by (auto simp: u16_to_be_bytes_def) metis

lemma length_header [simp]: "length (header m body) = HEADER_LEN"
  by (simp add: header_def HEADER_LEN_def)

lemma encode_message_code:
  "encode_message m = Inr bs \<longleftrightarrow> (\<exists>body. code_body m = Some body \<and> HEADER_LEN + length body \<le> XDM_MAX_MSGLEN \<and> bs = header m body @ body)"
proof (cases "encode_body m")
  case (Inl e)
  then have "code_body m \<noteq> Some body" for body using encode_body_code [of m body] by simp
  then show ?thesis using Inl by (simp add: encode_message_def)
next
  case (Inr body)
  then have "code_body m = Some body" by (simp add: encode_body_code)
  then show ?thesis using Inr
    by (auto simp: encode_message_def Let_def header_def write_card16_def HEADER_LEN_def XDM_MAX_MSGLEN_def)
qed

lemma read_header:
  "and_then (card16 (reader_new pk)) (\<lambda>(v, h). and_then (card16 h) (\<lambda>(op, h). and_then (card16 h) (\<lambda>(n, h). f v op n))) = Inr y
    \<longleftrightarrow> (\<exists>v op n rest. pk = u16_to_be_bytes v @ u16_to_be_bytes op @ u16_to_be_bytes n @ rest \<and> f v op n = Inr y)"
proof -
  have "and_then (card16 (reader_new pk)) (\<lambda>(v, h). and_then (card16 h) (\<lambda>(op, h). and_then (card16 h) (\<lambda>(n, h). f v op n))) = Inr y
    \<longleftrightarrow> (\<exists>v op n r. reads (reader_new pk) (u16_to_be_bytes v @ u16_to_be_bytes op @ u16_to_be_bytes n) r \<and> f v op n = Inr y)"
    by (simp add: get_thens reads_append) blast
  then show ?thesis by (simp add: reads_new)
qed

lemma decode_message_code:
  "decode_message pk = Inr m \<longleftrightarrow> (\<exists>body rest. code_body m = Some body \<and> length body \<le> 65535 \<and> pk = header m body @ body @ rest)"
proof -
  have "decode_message pk = Inr m \<longleftrightarrow> (\<exists>op n rest. pk = u16_to_be_bytes XDM_PROTOCOL_VERSION @ u16_to_be_bytes op @ u16_to_be_bytes n @ rest
      \<and> (\<exists>r. decode_body op (reader_new rest) = Inr (m, r) \<and> unat n = rpos r))"
  proof -
    have "(if v \<noteq> XDM_PROTOCOL_VERSION then Inl (UnsupportedVersion v)
        else and_then (decode_body op (reader_new rest)) (\<lambda>(m, r). if unat n \<noteq> rpos r then Inl (LengthMismatch n (rpos r)) else Inr m)) = Inr m
      \<longleftrightarrow> v = XDM_PROTOCOL_VERSION \<and> (\<exists>r. decode_body op (reader_new rest) = Inr (m, r) \<and> unat n = rpos r)" for v op n rest
      by (cases "decode_body op (reader_new rest)") (auto split: if_splits)
    then have "decode_message pk = Inr m \<longleftrightarrow> (\<exists>v op n rest. pk = u16_to_be_bytes v @ u16_to_be_bytes op @ u16_to_be_bytes n @ rest
        \<and> v = XDM_PROTOCOL_VERSION \<and> (\<exists>r. decode_body op (reader_new (drop HEADER_LEN pk)) = Inr (m, r) \<and> unat n = rpos r))"
      unfolding decode_message_def read_header by simp
    then show ?thesis by (auto simp: HEADER_LEN_def)
  qed
  also have "\<dots> \<longleftrightarrow> (\<exists>n rest body. pk = u16_to_be_bytes XDM_PROTOCOL_VERSION @ u16_to_be_bytes (opcode m) @ u16_to_be_bytes n @ body @ rest
      \<and> code_body m = Some body \<and> unat n = length body)"
  proof -
    have "(\<exists>r. decode_body op (reader_new rest) = Inr (m, r) \<and> unat n = rpos r)
        \<longleftrightarrow> op = opcode m \<and> (\<exists>body rest'. code_body m = Some body \<and> rest = body @ rest' \<and> unat n = length body)" for op rest n
      using decode_body_sound [of op "reader_new rest" m] decode_body_complete [of m _ "reader_new rest"]
      by (auto simp: reads_new)
    note eq = this
    show ?thesis unfolding eq by blast
  qed
  also have "\<dots> \<longleftrightarrow> (\<exists>body rest. code_body m = Some body \<and> length body \<le> 65535 \<and> pk = header m body @ body @ rest)"
  proof -
    have "unat n = length body \<longleftrightarrow> length body \<le> 65535 \<and> n = of_nat (length body)" for n :: u16 and body :: "u8 list"
      using unat_u16_le [of n] of_nat_unat [of n, where 'a = 16] by (auto simp: word_eq_iff_unsigned [where 'a = nat])
    note eq = this
    show ?thesis unfolding header_def append_assoc eq by blast
  qed
  finally show ?thesis .
qed

lemma decode_encode: "encode_message m = Inr bs \<Longrightarrow> decode_message (bs @ rest) = Inr m"
  by (auto simp: encode_message_code decode_message_code HEADER_LEN_def XDM_MAX_MSGLEN_def)

lemma encode_decode: "decode_message pk = Inr m \<Longrightarrow> encode_message m = Inr bs \<Longrightarrow> \<exists>rest. pk = bs @ rest"
  by (auto simp: encode_message_code decode_message_code)

section \<open>Truncated packets\<close>

lemma reader_take_error: "reader_take r n = Inl e \<Longrightarrow> e = Truncated"
  by (auto simp: reader_take_def Let_def split: if_splits)

lemma and_then_error:
  "and_then v (\<lambda>(x, r). f x r) = Inl e \<Longrightarrow> (\<And>e. v = Inl e \<Longrightarrow> P e) \<Longrightarrow> (\<And>x r e. f x r = Inl e \<Longrightarrow> P e) \<Longrightarrow> P e"
  by (cases v) (auto split: prod.splits)

lemma card_error: "card8 r = Inl e \<Longrightarrow> e = Truncated" "card16 r = Inl e \<Longrightarrow> e = Truncated" "card32 r = Inl e \<Longrightarrow> e = Truncated"
  unfolding card8_def card16_def card32_def by (auto simp: and_then_Inl dest: reader_take_error)

lemma array8_error: "array8 r = Inl e \<Longrightarrow> e = Truncated"
  unfolding array8_def by (auto simp: and_then_Inl dest: reader_take_error card_error)

lemma read_each_error: "(\<And>r e. get r = Inl e \<Longrightarrow> e = Truncated) \<Longrightarrow> read_each get n r = Inl e \<Longrightarrow> e = Truncated"
  by (induction n arbitrary: r) (auto simp: and_then_Inl)

lemma array_error: "array16 r = Inl e \<Longrightarrow> e = Truncated" "array_of_array8 r = Inl e \<Longrightarrow> e = Truncated"
  unfolding array16_def array_of_array8_def
  by (auto simp: and_then_Inl dest: card_error intro: read_each_error [OF card_error(2)] read_each_error [OF array8_error])

lemmas reader_errors = card_error array8_error array_error

lemma decode_body_error: "decode_body (opcode m) r = Inl e \<Longrightarrow> e = Truncated"
  by (cases m; simp add: decode_body_def xdmcp_opcodes; auto simp: and_then_Inl dest: reader_errors)

text \<open>A proper prefix of the body of a message does not parse as another one.\<close>

lemma decode_body_prefix:
  assumes "code_body m = Some body" "n < length body"
  shows "decode_body (opcode m) (reader_new (take n body)) = Inl Truncated"
proof (cases "decode_body (opcode m) (reader_new (take n body))")
  case (Inl e)
  then show ?thesis using decode_body_error by simp
next
  case (Inr y)
  obtain m' r' where y: "y = (m', r')" by (cases y)
  then obtain q where q: "opcode m' = opcode m" "code_body m' = Some q" "reads (reader_new (take n body)) q r'"
    using decode_body_sound [of "opcode m" "reader_new (take n body)" m' r'] Inr by auto
  then obtain rest where rest: "take n body = q @ rest" by (auto simp: reads_new)
  have "body = q @ rest @ drop n body" using rest by (metis append.assoc append_take_drop_id)
  then have "reads (reader_new body) q \<lparr>rbytes = body, rpos = length q\<rparr>" by (auto simp: reads_new)
  then have "decode_body (opcode m) (reader_new body) = Inr (m', \<lparr>rbytes = body, rpos = length q\<rparr>)"
    using decode_body_complete [OF q(2), of "reader_new body"] q(1) by simp
  moreover have "decode_body (opcode m) (reader_new body) = Inr (m, \<lparr>rbytes = body, rpos = length body\<rparr>)"
    by (rule decode_body_complete [OF assms(1)]) (simp add: reads_new)
  ultimately have "length q = length body" by simp
  moreover have "length q \<le> n" using arg_cong [OF rest, of length] by simp
  ultimately show ?thesis using assms(2) by simp
qed

lemma card16_short: "length (rbytes r) < rpos r + 2 \<Longrightarrow> card16 r = Inl Truncated"
  by (simp add: card16_def reader_take_def Let_def)

lemma card16_enough:
  "card16 \<lparr>rbytes = p @ u16_to_be_bytes v @ rest, rpos = length p\<rparr> = Inr (v, \<lparr>rbytes = p @ u16_to_be_bytes v @ rest, rpos = length p + 2\<rparr>)"
  by (simp add: card16_code reads_def)

lemma decode_truncated:
  assumes "encode_message m = Inr bs" "n < length bs"
  shows "decode_message (take n bs) = Inl Truncated"
proof (cases "n < HEADER_LEN")
  case True
  have short: "length (take n bs) < 6" using True assms(2) by (simp add: HEADER_LEN_def)
  consider e where "card16 (reader_new (take n bs)) = Inl e" | v h where "card16 (reader_new (take n bs)) = Inr (v, h)"
    by (cases "card16 (reader_new (take n bs))") auto
  then show ?thesis
  proof cases
    case 1
    then show ?thesis using card_error(2) [OF 1] by (simp add: decode_message_def)
  next
    case 2
    then have h: "rpos h = 2" "rbytes h = take n bs" using reads_pos by (auto simp: card16_code reader_new_def)
    then show ?thesis
    proof (cases "card16 h")
      case (Inl e)
      then show ?thesis using 2 card_error(2) [OF Inl] by (simp add: decode_message_def)
    next
      case (Inr w)
      then obtain op h' where w: "w = (op, h')" by (cases w)
      then have "rpos h' = 4" "rbytes h' = take n bs" using Inr h reads_pos [of h _ h'] by (auto simp: card16_code)
      then have "card16 h' = Inl Truncated" using short by (intro card16_short) simp
      then show ?thesis using 2 Inr w by (simp add: decode_message_def)
    qed
  qed
next
  case False
  obtain body where b: "code_body m = Some body" "HEADER_LEN + length body \<le> XDM_MAX_MSGLEN" "bs = header m body @ body"
    using assms(1) by (auto simp: encode_message_code)
  define k where "k = n - HEADER_LEN"
  have k: "k < length body" "take n bs = header m body @ take k body"
    using False assms(2) b(3) by (auto simp: k_def)
  let ?r = "\<lambda>i. \<lparr>rbytes = header m body @ take k body, rpos = i\<rparr>"
  have "card16 (?r 0) = Inr (XDM_PROTOCOL_VERSION, ?r 2)" "card16 (?r 2) = Inr (opcode m, ?r 4)"
    "card16 (?r 4) = Inr (of_nat (length body), ?r 6)"
    by (simp_all add: card16_code reads_def header_def)
  then show ?thesis using decode_body_prefix [OF b(1) k(1)] unfolding k(2)
    by (simp add: decode_message_def reader_new_def)
qed

end
