(* ===== verification/Xdmcp_Session.thy ===== *)
theory Xdmcp_Session
  imports Xdmcp_State Xdmcp_Wire
begin

text \<open>
  Runs of the XDMCP machine. The actions install, clear or (with the generation) invalidate the
  credential of the session; a run keeps it beside the machine. What holds of every
  reachable pair: the retry budget is never used up, the states that talk to a host have one,
  and a session has a credential.
\<close>

fun credential :: "xdmcp_action \<Rightarrow> (array8 \<times> array8) option \<Rightarrow> (array8 \<times> array8) option" where
  "credential (InstallCookie name bytes) _ = Some (name, bytes)"
| "credential ClearCookie _ = None"
| "credential (ResetGeneration _) _ = None"
| "credential _ c = c"

type_synonym session = "xdmcp_machine \<times> (array8 \<times> array8) option"

definition session_initial :: "session \<Rightarrow> bool" where
  "session_initial s \<longleftrightarrow> (\<exists>c. s = (machine_new c, None))"

inductive session_step :: "session \<Rightarrow> session \<Rightarrow> bool" where
  event: "handle m ev = (m', as) \<Longrightarrow> session_step (m, c) (m', fold credential as c)"

definition in_session :: "xdmcp_state \<Rightarrow> bool" where
  "in_session s \<longleftrightarrow> s = AwaitManageResponse \<or> s = RunSession \<or> s = AwaitAliveResponse"

definition session_ok :: "session \<Rightarrow> bool" where
  "session_ok s = (case s of (m, c) \<Rightarrow>
     (mstate m \<noteq> Off \<longrightarrow> timeout_rtx m < XDM_RTX_LIMIT)
     \<and> mstate m \<notin> {StartConnection, Manage, KeepAlive}
     \<and> (mstate m = AwaitRequestResponse \<or> in_session (mstate m) \<longrightarrow> selected_host m \<noteq> None)
     \<and> (mstate m = RunSession \<or> mstate m = AwaitAliveResponse \<longrightarrow> session_client m \<noteq> None)
     \<and> (in_session (mstate m) \<longrightarrow> (\<exists>bytes. c = Some (MIT_MAGIC_COOKIE_1, bytes) \<and> bytes \<noteq> [])))"

section \<open>One event\<close>

lemma fst_extend [simp]: "fst (extend as r) = fst r" "snd (extend as r) = as @ snd r"
  by (simp_all add: extend_def)

lemma send_packet_simps [simp]:
  "fst (send_packet m) = m\<lparr>mstate := after_send (mstate m)\<rparr>"
  by (simp add: send_packet_def)

lemma credential_send_packet [simp]: "fold credential (snd (send_packet m)) c = c"
  by (simp add: send_packet_def split: option.splits prod.splits)

lemmas xdmcp_methods = start_def open_display_def close_display_def timer_expired_def timeout_def dead_session_def fatal_def
  accept_for_state_def recv_unwilling_def select_host_def add_host_def recv_willing_def recv_accept_def
  recv_decline_def recv_refuse_def recv_failed_def recv_alive_def set_authentication_def Let_def

lemma mode_state_early [simp]:
  "mode_state i \<noteq> StartConnection" "after_send (mode_state i) \<noteq> StartConnection"
  "mode_state i \<noteq> Manage" "after_send (mode_state i) \<noteq> Manage"
  "mode_state i \<noteq> KeepAlive" "after_send (mode_state i) \<noteq> KeepAlive"
  "mode_state i \<noteq> AwaitRequestResponse" "after_send (mode_state i) \<noteq> AwaitRequestResponse"
  "mode_state i \<noteq> AwaitManageResponse" "after_send (mode_state i) \<noteq> AwaitManageResponse"
  "mode_state i \<noteq> RunSession" "after_send (mode_state i) \<noteq> RunSession"
  "mode_state i \<noteq> AwaitAliveResponse" "after_send (mode_state i) \<noteq> AwaitAliveResponse"
  "mode_state i \<noteq> Off" "after_send (mode_state i) \<noteq> Off"
  by (cases i; simp)+

lemma rtx_step: "(n :: u32) < 7 \<Longrightarrow> \<not> 7 \<le> n + 1 \<Longrightarrow> n + 1 < 7"
  by simp

lemma session_ok_step:
  assumes ok: "session_ok (m, c)"
  shows "session_ok (fst (handle m ev), fold credential (snd (handle m ev)) c)"
proof (cases ev)
  case Start
  then show ?thesis using ok
    by (auto simp: handle_def session_ok_def start_def in_session_def xdm_limits)
next
  case (Packet a msg)
  then show ?thesis using ok
    by (cases msg; cases "mstate m") (auto simp: handle_def session_ok_def in_session_def xdm_limits xdmcp_methods)
next
  case TimerExpired
  then show ?thesis using ok
    by (cases "mstate m") (auto simp: handle_def session_ok_def in_session_def xdm_limits xdmcp_methods)
next
  case UndecodablePacket
  then show ?thesis using ok by (auto simp: handle_def)
next
  case (SessionClientEstablished x)
  then show ?thesis using ok by (auto simp: handle_def session_ok_def in_session_def open_display_def)
next
  case (SessionClientDisconnected x)
  then show ?thesis using ok
    by (auto simp: handle_def session_ok_def in_session_def close_display_def Let_def)
qed

interpretation xdmcp: invariant_machine session_initial session_step session_ok
proof unfold_locales
  fix s assume "session_initial s"
  then obtain c where "s = (machine_new c, None)" by (auto simp: session_initial_def)
  then show "session_ok s"
    by (auto simp: session_ok_def machine_new_def in_session_def xdm_limits)
next
  fix s s' assume "session_ok s" "session_step s s'"
  then show "session_ok s'" using session_ok_step by (auto elim!: session_step.cases) (metis fst_conv snd_conv)
qed

section \<open>Runs\<close>

fun run :: "xdmcp_machine \<Rightarrow> xdmcp_event list \<Rightarrow> reaction" where
  "run m [] = (m, [])"
| "run m (ev # evs) = extend (snd (handle m ev)) (run (fst (handle m ev)) evs)"

lemma run_reachable:
  "reachable session_initial session_step (m, c) \<Longrightarrow> reachable session_initial session_step (fst (run m evs), fold credential (snd (run m evs)) c)"
proof (induction evs arbitrary: m c)
  case (Cons ev evs)
  have "session_step (m, c) (fst (handle m ev), fold credential (snd (handle m ev)) c)"
    by (rule session_step.event) simp
  from Cons.IH [OF reachable.step [OF Cons.prems this]] show ?case by simp
qed simp

text \<open>The end of a session: the server resets or stops.\<close>

fun ends :: "xdmcp_action \<Rightarrow> bool" where
  "ends (ResetGeneration _) = True"
| "ends (Terminate _) = True"
| "ends _ = False"

text \<open>How many expiries of the timer the machine bears.\<close>

definition patience :: "xdmcp_machine \<Rightarrow> nat" where
  "patience m = (if mstate m = RunSession then 1 + max 1 (4 - unat (timeout_rtx m))
     else if mstate m = AwaitAliveResponse then max 1 (4 - unat (timeout_rtx m)) else 7 - unat (timeout_rtx m))"

lemma rtx_unat: "(n :: u32) < 7 \<Longrightarrow> unat (n + 1) = unat n + 1"
  by (simp add: unat_word_ariths(1) unsigned_less word_less_nat_alt)

lemma timer_progress:
  assumes ok: "session_ok (m, c)" and on: "mstate m \<noteq> Off" and quiet: "\<not> list_ex ends (snd (handle m TimerExpired))"
  shows "mstate (fst (handle m TimerExpired)) \<noteq> Off \<and> patience (fst (handle m TimerExpired)) < patience m \<and> 0 < patience m"
proof -
  have n: "timeout_rtx m < 7" using ok on by (simp add: session_ok_def xdm_limits)
  then have u: "unat (timeout_rtx m + 1) = unat (timeout_rtx m) + 1" "unat (timeout_rtx m) < 7"
    by (simp_all add: rtx_unat word_less_nat_alt)
  have le: "(k :: u32) \<le> timeout_rtx m + 1 \<longleftrightarrow> unat k \<le> unat (timeout_rtx m) + 1" for k using u by (simp add: word_le_nat_alt)
  show ?thesis using ok on quiet u
    by (cases "mstate m")
      (auto simp: handle_def session_ok_def in_session_def xdm_limits timer_expired_def timeout_def dead_session_def Let_def
        patience_def le split: if_splits)
qed

lemma timer_ends:
  assumes "session_ok (m, c)" and "mstate m \<noteq> Off" and "patience m \<le> n"
  shows "list_ex ends (snd (run m (replicate n TimerExpired)))"
  using assms
proof (induction n arbitrary: m c)
  case 0
  then show ?case using timer_progress [of m c] by (cases "list_ex ends (snd (handle m TimerExpired))")
      (auto simp: patience_def session_ok_def xdm_limits word_less_nat_alt split: if_splits)
next
  case (Suc n)
  show ?case
  proof (cases "list_ex ends (snd (handle m TimerExpired))")
    case False
    note p = timer_progress [OF Suc.prems(1,2) False]
    have "patience (fst (handle m TimerExpired)) \<le> n" using p Suc.prems(3) by linarith
    from Suc.IH [OF session_ok_step [OF Suc.prems(1)] conjunct1 [OF p] this] show ?thesis by simp
  qed simp
qed

end
