(* ===== verification/Xdmcp_Props.thy ===== *)
theory Xdmcp_Props
  imports Xdmcp_Session
begin

text \<open>
  What XDMCP promises: packets mean what was encoded, sessions are authorised, retries are
  bounded in number and delay, a silent manager ends the wait, and no stray packet disturbs a
  running session.
\<close>

section \<open>Packets\<close>

text \<open>
  C18. A datagram decodes to a message that can be encoded exactly when it begins with the
  encoding of that message: decoding inverts encoding, with or without trailing bytes, and
  accepts no second spelling of a message.
\<close>

theorem xdmcp_codec_exact:
  "(\<exists>bs rest. encode_message m = Inr bs \<and> pk = bs @ rest) \<longleftrightarrow> decode_message pk = Inr m \<and> (\<exists>bs. encode_message m = Inr bs)"
  using decode_encode encode_decode by blast

text \<open>
  Every proper prefix of an encoded packet is refused as truncated, whatever its fields are.
\<close>

theorem xdmcp_truncated:
  assumes "encode_message m = Inr bs" and "n < length bs"
  shows "decode_message (take n bs) = Inl Truncated"
  by (rule decode_truncated [OF assms])

theorem xdmcp_truncated_witness:
  "encode_message (RefuseMsg 5) = Inr [0, 1, 0, 11, 0, 4, 0, 0, 0, 5] \<and> decode_message (take 9 [0, 1, 0, 11, 0, 4, 0, 0, 0, 5]) = Inl Truncated"
proof
  show e: "encode_message (RefuseMsg 5) = Inr [0, 1, 0, 11, 0, 4, 0, 0, 0, 5]"
    by (simp add: encode_message_def write_card16_def write_card32_def u16_to_be_bytes_def u32_to_be_bytes_def HEADER_LEN_def
        XDM_MAX_MSGLEN_def XDM_PROTOCOL_VERSION_def REFUSE_def Let_def)
  show "decode_message (take 9 [0, 1, 0, 11, 0, 4, 0, 0, 0, 5]) = Inl Truncated"
    by (rule xdmcp_truncated [OF e]) simp
qed

section \<open>Sessions\<close>

text \<open>A display that queries a manager and is accepted.\<close>

definition example_manager :: socket_addr where
  "example_manager = ([10, 0, 0, 1], 177)"

definition accepted_events :: "xdmcp_event list" where
  "accepted_events = [Start, Packet example_manager (WillingMsg [] [] []), Packet example_manager (AcceptMsg 5 [] [] MIT_MAGIC_COOKIE_1 [7])]"

definition accepted_machine :: xdmcp_machine where
  "accepted_machine = fst (run (machine_new (config_query 0)) accepted_events)"

lemma accepted_machine_state:
  "accepted_machine = (machine_new (config_query 0))\<lparr>mstate := AwaitManageResponse, session_id := 5, selected_host := Some example_manager\<rparr>"
  by (simp add: accepted_machine_def accepted_events_def handle_def machine_new_def config_query_def xdmcp_methods check_authentication_def)

lemma accepted_reachable: "reachable session_initial session_step (accepted_machine, Some (MIT_MAGIC_COOKIE_1, [7]))"
proof -
  have i: "reachable session_initial session_step (machine_new (config_query 0), None)"
    by (rule reachable.initial) (auto simp: session_initial_def)
  have "fold credential (snd (run (machine_new (config_query 0)) accepted_events)) None = Some (MIT_MAGIC_COOKIE_1, [7])"
    by (simp add: accepted_events_def handle_def machine_new_def config_query_def xdmcp_methods check_authentication_def)
  then show ?thesis using run_reachable [OF i, of accepted_events] by (simp add: accepted_machine_def)
qed

text \<open>
  C19. In every reachable state of the machine a session, offered or running, has a host and a
  non-empty \<open>MIT-MAGIC-COOKIE-1\<close> credential that no later action has cleared, a running one has
  its client, and outside of one event no state is left that has yet to send.
\<close>

theorem xdmcp_sessions_authorised:
  assumes "reachable session_initial session_step (m, c)"
  shows "session_ok (m, c)"
  by (rule xdmcp.reachable_inv [OF assms])

theorem xdmcp_sessions_authorised_witness: "session_ok (accepted_machine, Some (MIT_MAGIC_COOKIE_1, [7]))"
  by (rule xdmcp_sessions_authorised [OF accepted_reachable])

lemma retransmit_seconds_small: "retransmit_seconds n \<in> {2, 4, 8, 16, 32}"
proof (cases "n < 32")
  case True
  then have "unat n \<in> set [0..<32]" by (simp add: word_less_nat_alt)
  then have "push_bit (unat n) (2 :: u32) \<in> {2, 4, 8, 16, 32} \<or> 32 < push_bit (unat n) (2 :: u32) \<or> push_bit (unat n) (2 :: u32) < 2"
    by (simp add: upt_rec push_bit_eq_mult; elim disjE; simp)
  then show ?thesis by (auto simp: retransmit_seconds_def xdm_limits)
qed (simp add: retransmit_seconds_def xdm_limits)

lemma timer_of_send_packet: "SetTimer t \<in> set (snd (send_packet m)) \<Longrightarrow> t \<in> {2, 4, 8, 16, 32}"
  using retransmit_seconds_small [of "timeout_rtx m"] by (auto simp: send_packet_def split: option.splits prod.splits)

lemma timer_of_dead_session: "SetTimer t \<in> set (snd (dead_session m cause)) \<Longrightarrow> t \<in> {2, 4, 8, 16, 32}"
  by (auto simp: dead_session_def Let_def dest: timer_of_send_packet split: if_splits)

lemmas timer_of = timer_of_send_packet timer_of_dead_session

lemma timer_of_receive: "SetTimer t \<in> set (snd (receive m a msg)) \<Longrightarrow> t \<in> {2, 4, 8, 16, 32, XDM_DEF_DORMANCY}"
  by (cases msg) (auto simp: recv_willing_def add_host_def select_host_def recv_unwilling_def recv_accept_def
      recv_decline_def recv_refuse_def recv_failed_def recv_alive_def fatal_def dest: timer_of split: xdmcp_state.splits if_splits)

lemma timer_of_handle: "SetTimer t \<in> set (snd (handle m ev)) \<Longrightarrow> t \<in> {2, 4, 8, 16, 32, XDM_DEF_DORMANCY}"
  by (cases ev) (auto simp: handle_def start_def timer_expired_def timeout_def open_display_def close_display_def Let_def
      dest: timer_of timer_of_receive split: if_splits)

text \<open>
  Every timer a reachable machine sets is for 2, 4, 8, 16 or 32 seconds, doubling with the
  number of retransmissions and capped, or for the dormancy of a running session; the
  counter stays below 7 as long as the machine runs, so that it cannot overflow.
\<close>

theorem xdmcp_timers_bounded:
  assumes "reachable session_initial session_step (m, c)" and "mstate m \<noteq> Off"
  shows "timeout_rtx m < XDM_RTX_LIMIT
    \<and> {t. SetTimer t \<in> set (snd (handle m ev))} \<subseteq> {2, 4, 8, 16, 32, XDM_DEF_DORMANCY}"
  using xdmcp.reachable_inv [OF assms(1)] assms(2) timer_of_handle [of _ m ev] by (auto simp: session_ok_def)

theorem xdmcp_timers_bounded_witness:
  "timeout_rtx accepted_machine < XDM_RTX_LIMIT \<and> {t. SetTimer t \<in> set (snd (handle accepted_machine TimerExpired))} \<subseteq> {2, 4, 8, 16, 32, XDM_DEF_DORMANCY}"
  by (rule xdmcp_timers_bounded [OF accepted_reachable]) (simp add: accepted_machine_state)

text \<open>
  C20. Against a silent manager the wait ends: from every reachable state that is not off, seven
  expiries of the timer in a row make the machine stop the server or reset the generation.
\<close>

theorem xdmcp_gives_up:
  assumes "reachable session_initial session_step (m, c)" and "mstate m \<noteq> Off"
  shows "list_ex ends (snd (run m (replicate 7 TimerExpired)))"
proof -
  have ok: "session_ok (m, c)" by (rule xdmcp.reachable_inv [OF assms(1)])
  then have "timeout_rtx m < 7" using assms(2) by (simp add: session_ok_def xdm_limits)
  then have "patience m \<le> 7" by (auto simp: patience_def)
  then show ?thesis by (rule timer_ends [OF ok assms(2)])
qed

theorem xdmcp_gives_up_witness: "list_ex ends (snd (run accepted_machine (replicate 7 TimerExpired)))"
  by (rule xdmcp_gives_up [OF accepted_reachable]) (simp add: accepted_machine_state)

text \<open>
  No packet disturbs a running session but a \<open>Decline\<close> that passes the authentication check;
  and in any state a packet that the machine does not act on leaves the retry budget
  as it was, so that a manager that answers badly cannot keep the display waiting.
\<close>

theorem xdmcp_packets_harmless:
  "(mstate m = RunSession \<longrightarrow> handle m (Packet a msg) \<noteq> (m, []) \<longrightarrow> (\<exists>st n b. msg = DeclineMsg st n b \<and> check_authentication m n b))
    \<and> (mstate (fst (handle m (Packet a msg))) = mstate m \<longrightarrow> fst (handle m (Packet a msg)) = m)"
proof
  show "mstate m = RunSession \<longrightarrow> handle m (Packet a msg) \<noteq> (m, []) \<longrightarrow> (\<exists>st n b. msg = DeclineMsg st n b \<and> check_authentication m n b)"
    by (cases msg) (auto simp: handle_def recv_willing_def recv_unwilling_def recv_accept_def recv_decline_def recv_refuse_def
        recv_failed_def recv_alive_def)
  show "mstate (fst (handle m (Packet a msg))) = mstate m \<longrightarrow> fst (handle m (Packet a msg)) = m"
    by (cases msg; cases "mstate m") (auto simp: handle_def xdmcp_methods)
qed

theorem xdmcp_packets_harmless_witness:
  "fst (handle accepted_machine (Packet example_manager (UnwillingMsg [] []))) = accepted_machine"
  using xdmcp_packets_harmless [of accepted_machine example_manager "UnwillingMsg [] []"]
  by (simp add: handle_def recv_unwilling_def accepted_machine_state)

text \<open>
  The retry budget is not renewed when the session client connects: a session whose \<open>Manage\<close> was
  retransmitted three times dies with the first \<open>KeepAlive\<close> that is not answered, not with the
  fourth.
\<close>

lemma keepalive_after_slow_manage:
  assumes "mstate m = RunSession" "timeout_rtx m = 3" "\<not> once (config m)"
  shows "ResetGeneration KeepAliveTimedOut \<in> set (snd (run m [TimerExpired, TimerExpired]))"
  using assms by (simp add: handle_def timer_expired_def timeout_def dead_session_def Let_def xdm_limits)

theorem keepalive_budget_inherited:
  "ResetGeneration KeepAliveTimedOut \<in> set (snd (run accepted_machine
     (replicate 3 TimerExpired @ [SessionClientEstablished 1, TimerExpired, TimerExpired])))"
proof -
  have "\<not> (7 :: u32) \<le> 1" by (simp add: word_le_nat_alt)
  then show ?thesis
    by (simp add: numeral_3_eq_3 accepted_machine_state machine_new_def config_query_def handle_def timer_expired_def timeout_def
        open_display_def dead_session_def Let_def xdm_limits)
qed

end
