(* ===== verification/Wire.thy ===== *)
theory Wire
  imports Results
begin

text \<open>
  Integers on the wire in the client's byte order
  (\<open>crates/yserver-protocol/src/x11/wire.rs\<close>). Readers take the bytes from the position they
  are given to the end, as the source slices them; every caller checks the length first.
  Signed 64-bit values are \<^typ>\<open>int\<close>, with the wrap-around written out.
\<close>

datatype client_byte_order = LittleEndian | BigEndian

definition u16_from_le_bytes :: "u8 \<Rightarrow> u8 \<Rightarrow> u16" where
  "u16_from_le_bytes a b = u16_from_be_bytes b a"

definition u32_from_le_bytes :: "u8 \<Rightarrow> u8 \<Rightarrow> u8 \<Rightarrow> u8 \<Rightarrow> u32" where
  "u32_from_le_bytes a b c d = u32_from_be_bytes d c b a"

definition read_u16 :: "client_byte_order \<Rightarrow> u8 list \<Rightarrow> u16" where
  "read_u16 bo bs = (case bo of LittleEndian \<Rightarrow> u16_from_le_bytes (bs ! 0) (bs ! 1)
     | BigEndian \<Rightarrow> u16_from_be_bytes (bs ! 0) (bs ! 1))"

definition read_u32 :: "client_byte_order \<Rightarrow> u8 list \<Rightarrow> u32" where
  "read_u32 bo bs = (case bo of LittleEndian \<Rightarrow> u32_from_le_bytes (bs ! 0) (bs ! 1) (bs ! 2) (bs ! 3)
     | BigEndian \<Rightarrow> u32_from_be_bytes (bs ! 0) (bs ! 1) (bs ! 2) (bs ! 3))"

definition read_u32_le :: "u8 list \<Rightarrow> u32" where
  "read_u32_le bs = u32_from_le_bytes (bs ! 0) (bs ! 1) (bs ! 2) (bs ! 3)"

definition write_u16 :: "client_byte_order \<Rightarrow> u8 list \<Rightarrow> u16 \<Rightarrow> u8 list" where
  "write_u16 bo out v = (case bo of LittleEndian \<Rightarrow> out @ rev (u16_to_be_bytes v) | BigEndian \<Rightarrow> out @ u16_to_be_bytes v)"

definition write_u32 :: "client_byte_order \<Rightarrow> u8 list \<Rightarrow> u32 \<Rightarrow> u8 list" where
  "write_u32 bo out v = (case bo of LittleEndian \<Rightarrow> out @ rev (u32_to_be_bytes v) | BigEndian \<Rightarrow> out @ u32_to_be_bytes v)"

definition fixed_reply :: "client_byte_order \<Rightarrow> u16 \<Rightarrow> u8 \<Rightarrow> u32 \<Rightarrow> u8 list" where
  "fixed_reply bo sequence data len = write_u32 bo (write_u16 bo [1, data] sequence) len"

text \<open>\<open>n.next_multiple_of(4)\<close>.\<close>

definition next_multiple_of_4 :: "nat \<Rightarrow> nat" where
  "next_multiple_of_4 n = (n + 3) div 4 * 4"

lemma length_write [simp]:
  "length (write_u16 bo out v) = length out + 2" "length (write_u32 bo out w) = length out + 4"
  by (cases bo; simp add: write_u16_def write_u32_def)+

lemma write_append: "write_u16 bo (a @ b) v = a @ write_u16 bo b v" "write_u32 bo (a @ b) w = a @ write_u32 bo b w"
  by (cases bo; simp add: write_u16_def write_u32_def)+

lemma write_prefix: "write_u16 bo out v = out @ write_u16 bo [] v" "write_u32 bo out w = out @ write_u32 bo [] w"
  by (cases bo; simp add: write_u16_def write_u32_def)+

lemma read_write_u16 [simp]: "read_u16 bo (write_u16 bo [] v @ rest) = v"
  by (cases bo) (simp_all add: read_u16_def write_u16_def u16_to_be_bytes_def u16_from_le_bytes_def u16_be_inverse)

lemma read_write_u32 [simp]: "read_u32 bo (write_u32 bo [] v @ rest) = v"
  by (cases bo) (simp_all add: read_u32_def write_u32_def u32_to_be_bytes_def u32_from_le_bytes_def u32_be_inverse)

lemma read_u32_le: "read_u32_le bs = read_u32 LittleEndian bs"
  by (simp add: read_u32_le_def read_u32_def)

section \<open>The codes of X errors\<close>

definition BAD_REQUEST :: u8 where "BAD_REQUEST = 1"
definition BAD_VALUE :: u8 where "BAD_VALUE = 2"
definition BAD_MATCH :: u8 where "BAD_MATCH = 8"
definition BAD_ACCESS :: u8 where "BAD_ACCESS = 10"
definition BAD_LENGTH :: u8 where "BAD_LENGTH = 16"

section \<open>Signed 64-bit values\<close>

definition in_i64 :: "int \<Rightarrow> bool" where
  "in_i64 v \<longleftrightarrow> - (2 ^ 63) \<le> v \<and> v < 2 ^ 63"

definition i64 :: "int \<Rightarrow> int" where
  "i64 v = signed_take_bit 63 v"

definition checked_add :: "int \<Rightarrow> int \<Rightarrow> int option" where
  "checked_add a b = (if in_i64 (a + b) then Some (a + b) else None)"

definition checked_sub :: "int \<Rightarrow> int \<Rightarrow> int option" where
  "checked_sub a b = (if in_i64 (a - b) then Some (a - b) else None)"

definition overflowing_add :: "int \<Rightarrow> int \<Rightarrow> int \<times> bool" where
  "overflowing_add a b = (i64 (a + b), \<not> in_i64 (a + b))"

text \<open>\<open>(i64::from(hi) << 32) | i64::from(lo)\<close>, and the two halves \<open>(v >> 32) as u32\<close>, \<open>v as u32\<close>.\<close>

definition int64 :: "u32 \<Rightarrow> u32 \<Rightarrow> int" where
  "int64 hi lo = push_bit 32 (sint hi) OR uint lo"

definition hi32 :: "int \<Rightarrow> u32" where
  "hi32 v = word_of_int (drop_bit 32 v)"

definition lo32 :: "int \<Rightarrow> u32" where
  "lo32 v = word_of_int v"

lemma in_i64_i64 [simp]: "in_i64 (i64 v)"
  using signed_take_bit_int_greater_eq_minus_exp [of 63 v] signed_take_bit_int_less_exp [of 63 v]
  by (simp add: i64_def in_i64_def)

lemma checked_add_in: "checked_add a b = Some c \<Longrightarrow> in_i64 c"
  by (auto simp: checked_add_def split: if_splits)

lemma int64_sum: "int64 hi lo = sint hi * 2 ^ 32 + uint lo"
proof -
  have "push_bit 32 (sint hi) AND uint lo = 0"
  proof (rule bit_eqI)
    fix n
    show "bit (push_bit 32 (sint hi) AND uint lo) n = bit (0 :: int) n"
      by (simp add: bit_and_iff bit_push_bit_iff bit_uint_iff)
  qed
  then have "push_bit 32 (sint hi) + uint lo = push_bit 32 (sint hi) OR uint lo" by (rule disjunctive_add_eq_or)
  then show ?thesis by (simp add: int64_def push_bit_eq_mult)
qed

lemma in_i64_sum: "- (2 ^ 31) \<le> a \<Longrightarrow> a < 2 ^ 31 \<Longrightarrow> 0 \<le> b \<Longrightarrow> b < 2 ^ 32 \<Longrightarrow> in_i64 (a * 2 ^ 32 + b)"
  by (simp add: in_i64_def)

lemma in_i64_int64 [simp]: "in_i64 (int64 hi lo)"
  unfolding int64_sum
  by (rule in_i64_sum) (use sint_ge [of hi] sint_lt [of hi] uint_lt2p [of lo] in simp_all)

lemma int64_halves: "in_i64 v \<Longrightarrow> int64 (hi32 v) (lo32 v) = v"
proof -
  assume "in_i64 v"
  then have "- (2 ^ 31) \<le> v div 2 ^ 32" "v div 2 ^ 32 < 2 ^ 31" by (auto simp: in_i64_def)
  then have "signed_take_bit 31 (v div 2 ^ 32) = v div 2 ^ 32" by (simp add: signed_take_bit_int_eq_self)
  then show ?thesis
    by (simp add: int64_sum hi32_def lo32_def sint_sbintrunc' uint_word_of_int drop_bit_eq_div)
qed

end
