(* ===== verification/Sync_Wire.thy ===== *)
theory Sync_Wire
  imports Wire
begin

text \<open>
  The SYNC extension on the wire (\<open>crates/yserver-protocol/src/x11/sync.rs\<close>): request
  codes, parsers, the trigger tests, replies and events.
\<close>

definition INITIALIZE :: u8 where "INITIALIZE = 0"
definition LIST_SYSTEM_COUNTERS :: u8 where "LIST_SYSTEM_COUNTERS = 1"
definition CREATE_COUNTER :: u8 where "CREATE_COUNTER = 2"
definition SET_COUNTER :: u8 where "SET_COUNTER = 3"
definition CHANGE_COUNTER :: u8 where "CHANGE_COUNTER = 4"
definition QUERY_COUNTER :: u8 where "QUERY_COUNTER = 5"
definition DESTROY_COUNTER :: u8 where "DESTROY_COUNTER = 6"
definition AWAIT :: u8 where "AWAIT = 7"
definition CREATE_ALARM :: u8 where "CREATE_ALARM = 8"
definition CHANGE_ALARM :: u8 where "CHANGE_ALARM = 9"
definition QUERY_ALARM :: u8 where "QUERY_ALARM = 10"
definition DESTROY_ALARM :: u8 where "DESTROY_ALARM = 11"
definition SET_PRIORITY :: u8 where "SET_PRIORITY = 12"
definition GET_PRIORITY :: u8 where "GET_PRIORITY = 13"
definition CREATE_FENCE :: u8 where "CREATE_FENCE = 14"
definition TRIGGER_FENCE :: u8 where "TRIGGER_FENCE = 15"
definition RESET_FENCE :: u8 where "RESET_FENCE = 16"
definition DESTROY_FENCE :: u8 where "DESTROY_FENCE = 17"
definition QUERY_FENCE :: u8 where "QUERY_FENCE = 18"
definition AWAIT_FENCE :: u8 where "AWAIT_FENCE = 19"

lemmas sync_opcodes = INITIALIZE_def LIST_SYSTEM_COUNTERS_def CREATE_COUNTER_def SET_COUNTER_def CHANGE_COUNTER_def
  QUERY_COUNTER_def DESTROY_COUNTER_def AWAIT_def CREATE_ALARM_def CHANGE_ALARM_def QUERY_ALARM_def DESTROY_ALARM_def
  SET_PRIORITY_def GET_PRIORITY_def CREATE_FENCE_def TRIGGER_FENCE_def RESET_FENCE_def DESTROY_FENCE_def
  QUERY_FENCE_def AWAIT_FENCE_def

definition SERVERTIME_COUNTER :: u32 where "SERVERTIME_COUNTER = 0x106"
definition IDLETIME_COUNTER :: u32 where "IDLETIME_COUNTER = 0x107"
definition IDLETIME_DEVICE_VCP :: u32 where "IDLETIME_DEVICE_VCP = 0x108"
definition IDLETIME_DEVICE_VCK :: u32 where "IDLETIME_DEVICE_VCK = 0x109"

lemmas system_counters = SERVERTIME_COUNTER_def IDLETIME_COUNTER_def IDLETIME_DEVICE_VCP_def IDLETIME_DEVICE_VCK_def

definition VALUE_TYPE_ABSOLUTE :: u32 where "VALUE_TYPE_ABSOLUTE = 0"
definition VALUE_TYPE_RELATIVE :: u32 where "VALUE_TYPE_RELATIVE = 1"
definition TEST_POSITIVE_TRANSITION :: u32 where "TEST_POSITIVE_TRANSITION = 0"
definition TEST_NEGATIVE_TRANSITION :: u32 where "TEST_NEGATIVE_TRANSITION = 1"
definition TEST_POSITIVE_COMPARISON :: u32 where "TEST_POSITIVE_COMPARISON = 2"
definition TEST_NEGATIVE_COMPARISON :: u32 where "TEST_NEGATIVE_COMPARISON = 3"
definition ALARM_STATE_ACTIVE :: u8 where "ALARM_STATE_ACTIVE = 0"
definition ALARM_STATE_INACTIVE :: u8 where "ALARM_STATE_INACTIVE = 1"
definition ALARM_STATE_DESTROYED :: u8 where "ALARM_STATE_DESTROYED = 2"
definition CA_COUNTER :: u32 where "CA_COUNTER = 1"
definition CA_VALUE_TYPE :: u32 where "CA_VALUE_TYPE = 2"
definition CA_VALUE :: u32 where "CA_VALUE = 4"
definition CA_TEST_TYPE :: u32 where "CA_TEST_TYPE = 8"
definition CA_DELTA :: u32 where "CA_DELTA = 16"
definition CA_EVENTS :: u32 where "CA_EVENTS = 32"
definition COUNTER_NOTIFY_KIND :: u8 where "COUNTER_NOTIFY_KIND = 0"
definition ALARM_NOTIFY_KIND :: u8 where "ALARM_NOTIFY_KIND = 1"
definition BAD_COUNTER :: u8 where "BAD_COUNTER = 0"
definition BAD_ALARM :: u8 where "BAD_ALARM = 1"
definition BAD_FENCE :: u8 where "BAD_FENCE = 2"
definition WAIT_CONDITION_LEN :: nat where "WAIT_CONDITION_LEN = 28"
definition SYNC_MAJOR_VERSION :: u8 where "SYNC_MAJOR_VERSION = 3"
definition SYNC_MINOR_VERSION :: u8 where "SYNC_MINOR_VERSION = 1"

lemmas test_types = TEST_POSITIVE_TRANSITION_def TEST_NEGATIVE_TRANSITION_def TEST_POSITIVE_COMPARISON_def TEST_NEGATIVE_COMPARISON_def
lemmas value_types = VALUE_TYPE_ABSOLUTE_def VALUE_TYPE_RELATIVE_def
lemmas alarm_states = ALARM_STATE_ACTIVE_def ALARM_STATE_INACTIVE_def ALARM_STATE_DESTROYED_def
lemmas ca_bits = CA_COUNTER_def CA_VALUE_TYPE_def CA_VALUE_def CA_TEST_TYPE_def CA_DELTA_def CA_EVENTS_def

section \<open>Requests\<close>

record wait_condition =
  wc_counter :: u32
  wc_value_type :: u32
  wc_wait_value :: int
  wc_test_type :: u32
  wc_event_threshold :: int

definition read_i64_ordered :: "client_byte_order \<Rightarrow> u8 list \<Rightarrow> int" where
  "read_i64_ordered bo bs = int64 (read_u32 bo bs) (read_u32 bo (drop 4 bs))"

text \<open>\<open>chunks_exact(n)\<close>: what is left at the end is dropped.\<close>

function chunks_exact :: "nat \<Rightarrow> 'a list \<Rightarrow> 'a list list" where
  "chunks_exact n xs = (if n = 0 \<or> length xs < n then [] else take n xs # chunks_exact n (drop n xs))"
  by pat_completeness auto
termination by (relation "measure (\<lambda>(n, xs). length xs)") auto

declare chunks_exact.simps [simp del]

definition parse_wait_condition :: "client_byte_order \<Rightarrow> u8 list \<Rightarrow> wait_condition" where
  "parse_wait_condition bo c = \<lparr>wc_counter = read_u32 bo c, wc_value_type = read_u32 bo (drop 4 c),
     wc_wait_value = read_i64_ordered bo (drop 8 c), wc_test_type = read_u32 bo (drop 16 c),
     wc_event_threshold = read_i64_ordered bo (drop 20 c)\<rparr>"

definition parse_await :: "client_byte_order \<Rightarrow> u8 list \<Rightarrow> wait_condition list option" where
  "parse_await bo body =
     (if length body mod WAIT_CONDITION_LEN \<noteq> 0 then None
      else Some (map (parse_wait_condition bo) (chunks_exact WAIT_CONDITION_LEN body)))"

text \<open>The other requests are read as little-endian, whatever the client's byte order.\<close>

definition read_i64 :: "u8 list \<Rightarrow> u8 list \<Rightarrow> int" where
  "read_i64 hi lo = int64 (read_u32_le hi) (read_u32_le lo)"

definition parse_counter_value :: "u8 list \<Rightarrow> (u32 \<times> int) option" where
  "parse_counter_value body =
     (if length body < 12 then None else Some (read_u32_le body, read_i64 (drop 4 body) (drop 8 body)))"

definition parse_resource :: "u8 list \<Rightarrow> u32 option" where
  "parse_resource body = (if length body < 4 then None else Some (read_u32_le body))"

definition parse_alarm_with_mask :: "u8 list \<Rightarrow> (u32 \<times> u32) option" where
  "parse_alarm_with_mask body = (if length body < 8 then None else Some (read_u32_le body, read_u32_le (drop 4 body)))"

text \<open>\<open>u32::count_ones\<close>.\<close>

definition count_ones :: "u32 \<Rightarrow> nat" where
  "count_ones w = length (filter (bit w) [0..<32])"

definition alarm_request_len :: "u32 \<Rightarrow> nat" where
  "alarm_request_len vmask = 8 + 4 * (count_ones vmask + count_ones (vmask AND (CA_VALUE OR CA_DELTA)))"

record create_fence_request =
  cf_drawable :: u32
  cf_fence :: u32
  cf_initially_triggered :: bool

definition parse_create_fence :: "u8 list \<Rightarrow> create_fence_request option" where
  "parse_create_fence body =
     (if length body < 12 then None
      else Some \<lparr>cf_drawable = read_u32_le body, cf_fence = read_u32_le (drop 4 body), cf_initially_triggered = (body ! 8 \<noteq> 0)\<rparr>)"

definition parse_await_fence :: "client_byte_order \<Rightarrow> u8 list \<Rightarrow> u32 list option" where
  "parse_await_fence bo body =
     (if length body mod 4 \<noteq> 0 then None else Some (map (read_u32 bo) (chunks_exact 4 body)))"

section \<open>Triggers\<close>

definition trigger_fires :: "u32 \<Rightarrow> int \<Rightarrow> int \<Rightarrow> int \<Rightarrow> bool" where
  "trigger_fires test_type old_v new_v wait =
     (if test_type = TEST_POSITIVE_TRANSITION then old_v < wait \<and> new_v \<ge> wait
      else if test_type = TEST_NEGATIVE_TRANSITION then old_v > wait \<and> new_v \<le> wait
      else if test_type = TEST_POSITIVE_COMPARISON then new_v \<ge> wait
      else if test_type = TEST_NEGATIVE_COMPARISON then new_v \<le> wait
      else False)"

definition comparison_satisfied :: "u32 \<Rightarrow> int \<Rightarrow> int \<Rightarrow> bool" where
  "comparison_satisfied test_type v wait =
     (if test_type = TEST_POSITIVE_TRANSITION \<or> test_type = TEST_POSITIVE_COMPARISON then v \<ge> wait
      else if test_type = TEST_NEGATIVE_TRANSITION \<or> test_type = TEST_NEGATIVE_COMPARISON then v \<le> wait
      else False)"

section \<open>Replies and events\<close>

definition write_i64 :: "client_byte_order \<Rightarrow> u8 list \<Rightarrow> int \<Rightarrow> u8 list" where
  "write_i64 bo out v = write_u32 bo (write_u32 bo out (hi32 v)) (lo32 v)"

definition sync_fixed_reply :: "client_byte_order \<Rightarrow> u16 \<Rightarrow> u32 \<Rightarrow> u8 list" where
  "sync_fixed_reply bo sequence len = write_u32 bo (write_u16 bo [1, 0] sequence) len"

definition encode_counter_notify_event ::
  "client_byte_order \<Rightarrow> u8 \<Rightarrow> u16 \<Rightarrow> u32 \<Rightarrow> int \<Rightarrow> int \<Rightarrow> u32 \<Rightarrow> u16 \<Rightarrow> bool \<Rightarrow> u8 list" where
  "encode_counter_notify_event bo first_event sequence counter wait_value counter_value time following destroyed =
     (let out = [first_event + COUNTER_NOTIFY_KIND, COUNTER_NOTIFY_KIND];
          out = write_u16 bo out sequence;
          out = write_u32 bo out counter;
          out = write_i64 bo out wait_value;
          out = write_i64 bo out counter_value;
          out = write_u32 bo out time;
          out = write_u16 bo out following
      in out @ [if destroyed then 1 else 0, 0])"

definition encode_alarm_notify_event ::
  "client_byte_order \<Rightarrow> u8 \<Rightarrow> u16 \<Rightarrow> u32 \<Rightarrow> int \<Rightarrow> int \<Rightarrow> u32 \<Rightarrow> u8 \<Rightarrow> u8 list" where
  "encode_alarm_notify_event bo first_event sequence alarm counter_value alarm_value time st =
     (let out = [first_event + ALARM_NOTIFY_KIND, ALARM_NOTIFY_KIND];
          out = write_u16 bo out sequence;
          out = write_u32 bo out alarm;
          out = write_i64 bo out counter_value;
          out = write_i64 bo out alarm_value;
          out = write_u32 bo out time
      in out @ [st] @ replicate 3 0)"

definition encode_query_fence_reply :: "client_byte_order \<Rightarrow> u16 \<Rightarrow> bool \<Rightarrow> u8 list" where
  "encode_query_fence_reply bo sequence triggered =
     sync_fixed_reply bo sequence 0 @ [if triggered then 1 else 0] @ replicate 23 0"

definition encode_initialize_reply :: "client_byte_order \<Rightarrow> u16 \<Rightarrow> u8 \<Rightarrow> u8 \<Rightarrow> u8 list" where
  "encode_initialize_reply bo sequence major minor =
     write_u16 bo (sync_fixed_reply bo sequence 0 @ [major, minor]) 0 @ replicate 20 0"

definition encode_query_counter_reply :: "client_byte_order \<Rightarrow> u16 \<Rightarrow> int \<Rightarrow> u8 list" where
  "encode_query_counter_reply bo sequence v = write_i64 bo (sync_fixed_reply bo sequence 0) v @ replicate 16 0"

definition encode_query_alarm_reply ::
  "client_byte_order \<Rightarrow> u16 \<Rightarrow> u32 \<Rightarrow> int \<Rightarrow> u32 \<Rightarrow> int \<Rightarrow> bool \<Rightarrow> u8 \<Rightarrow> u8 list" where
  "encode_query_alarm_reply bo sequence counter wait_value test_type delta events st =
     (let out = sync_fixed_reply bo sequence 2;
          out = write_u32 bo out counter;
          out = write_u32 bo out VALUE_TYPE_ABSOLUTE;
          out = write_i64 bo out wait_value;
          out = write_u32 bo out test_type;
          out = write_i64 bo out delta
      in out @ [if events then 1 else 0, st, 0, 0])"

definition encode_get_priority_reply :: "client_byte_order \<Rightarrow> u16 \<Rightarrow> int \<Rightarrow> u8 list" where
  "encode_get_priority_reply bo sequence priority =
     write_u32 bo (sync_fixed_reply bo sequence 0) (word_of_int priority) @ replicate 20 0"

definition SYSTEM_COUNTERS :: "(u32 \<times> int \<times> u8 list) list" where
  "SYSTEM_COUNTERS = [(IDLETIME_DEVICE_VCK, 4, ascii ''DEVICEIDLETIME 3''),
     (IDLETIME_DEVICE_VCP, 4, ascii ''DEVICEIDLETIME 2''),
     (IDLETIME_COUNTER, 4, ascii ''IDLETIME''), (SERVERTIME_COUNTER, 4, ascii ''SERVERTIME'')]"

definition encode_system_counter :: "client_byte_order \<Rightarrow> u32 \<times> int \<times> u8 list \<Rightarrow> u8 list" where
  "encode_system_counter bo e = (case e of (counter, resolution_ms, name) \<Rightarrow>
     let out = write_u16 bo (write_i64 bo (write_u32 bo [] counter) resolution_ms) (of_nat (length name)) @ name
     in out @ replicate (next_multiple_of_4 (14 + length name) - length out) 0)"

definition encode_list_system_counters_reply :: "client_byte_order \<Rightarrow> u16 \<Rightarrow> u8 list" where
  "encode_list_system_counters_reply bo sequence =
     (let payload_len = sum_list (map (\<lambda>(_, _, name). next_multiple_of_4 (14 + length name)) SYSTEM_COUNTERS);
          out = sync_fixed_reply bo sequence (of_nat (payload_len div 4));
          out = write_u32 bo out (of_nat (length SYSTEM_COUNTERS)) @ replicate 20 0
      in out @ concat (map (encode_system_counter bo) SYSTEM_COUNTERS))"

section \<open>Lengths\<close>

lemma length_write_i64 [simp]: "length (write_i64 bo out v) = length out + 8"
  by (simp add: write_i64_def)

lemma length_sync_fixed_reply [simp]: "length (sync_fixed_reply bo q n) = 8"
  by (simp add: sync_fixed_reply_def)

lemma read_write_i64 [simp]: "in_i64 v \<Longrightarrow> read_i64_ordered bo (write_i64 bo [] v @ rest) = v"
  by (simp add: read_i64_ordered_def write_i64_def write_prefix(2) [of _ "write_u32 bo [] (hi32 v)"] int64_halves)

end
