(* ===== verification/Hash_Maps.thy ===== *)
theory Hash_Maps
  imports Prelude "HOL-Library.AList"
begin

text \<open>
  Hash tables and loops over them. A \<open>HashMap\<close> is the list of its entries, in an order nothing
  may depend on: code that acts on several entries collects their keys, sorts them
  (\<open>sort_unstable\<close>) and then acts on one key after the other. The contract of such an action,
  the locale \<open>keyed_sweep\<close>, is that it changes no entry but its own.
\<close>

type_synonym ('k, 'v) hash_map = "('k \<times> 'v) list"

abbreviation lookup :: "('k, 'v) hash_map \<Rightarrow> 'k \<Rightarrow> 'v option" where
  "lookup \<equiv> map_of"

abbreviation insert_key :: "'k \<Rightarrow> 'v \<Rightarrow> ('k, 'v) hash_map \<Rightarrow> ('k, 'v) hash_map" where
  "insert_key k v m \<equiv> AList.update k v m"

abbreviation remove_key :: "'k \<Rightarrow> ('k, 'v) hash_map \<Rightarrow> ('k, 'v) hash_map" where
  "remove_key k m \<equiv> AList.delete k m"

text \<open>\<open>if let Some(v) = m.get_mut(&k) { *v = f(v) }\<close>.\<close>

definition modify_key :: "'k \<Rightarrow> ('v \<Rightarrow> 'v) \<Rightarrow> ('k, 'v) hash_map \<Rightarrow> ('k, 'v) hash_map" where
  "modify_key k f m = (case lookup m k of None \<Rightarrow> m | Some v \<Rightarrow> insert_key k (f v) m)"

text \<open>\<open>values_mut()\<close>, and the sorted keys of the entries that satisfy a test.\<close>

definition modify_values :: "('v \<Rightarrow> 'v) \<Rightarrow> ('k, 'v) hash_map \<Rightarrow> ('k, 'v) hash_map" where
  "modify_values f m = map (\<lambda>(k, v). (k, f v)) m"

definition keys_where :: "('v \<Rightarrow> bool) \<Rightarrow> ('k :: linorder, 'v) hash_map \<Rightarrow> 'k list" where
  "keys_where P m = sort (map fst (filter (\<lambda>(k, v). P v) m))"

declare map_of_eq_Some_iff [simp del] Some_eq_map_of_iff [simp del]

abbreviation keys_ok :: "('k, 'v) hash_map \<Rightarrow> bool" where
  "keys_ok m \<equiv> distinct (map fst m)"

lemma lookup_insert [simp]: "lookup (insert_key k v m) = (lookup m)(k \<mapsto> v)"
  by (rule ext) (simp add: update_conv')

lemma lookup_remove [simp]: "lookup (remove_key k m) = (lookup m)(k := None)"
  by (rule ext) (simp add: delete_conv')

lemma lookup_modify [simp]: "lookup (modify_key k f m) = (lookup m)(k := map_option f (lookup m k))"
  by (rule ext) (simp add: modify_key_def split: option.split)

lemma lookup_modify_values [simp]: "lookup (modify_values f m) k = map_option f (lookup m k)"
  by (induction m) (auto simp: modify_values_def)

lemma keys_ok_insert [simp]: "keys_ok m \<Longrightarrow> keys_ok (insert_key k v m)"
  by (rule distinct_update)

lemma keys_ok_remove [simp]: "keys_ok m \<Longrightarrow> keys_ok (remove_key k m)"
  by (simp add: distinct_delete)

lemma keys_ok_modify [simp]: "keys_ok m \<Longrightarrow> keys_ok (modify_key k f m)"
  by (simp add: modify_key_def split: option.split)

lemma keys_ok_modify_values [simp]: "keys_ok m \<Longrightarrow> keys_ok (modify_values f m)"
proof -
  have "map fst (modify_values f m) = map fst m" by (simp add: modify_values_def case_prod_beta')
  then show "keys_ok m \<Longrightarrow> keys_ok (modify_values f m)" by simp
qed

lemma keys_where_iff [simp]: "keys_ok m \<Longrightarrow> k \<in> set (keys_where P m) \<longleftrightarrow> (\<exists>v. lookup m k = Some v \<and> P v)"
  by (force simp: keys_where_def map_of_eq_Some_iff)

lemma distinct_keys_where [simp]: "keys_ok m \<Longrightarrow> distinct (keys_where P m)"
  by (simp add: keys_where_def distinct_map_filter)

lemma sorted_keys_where: "sorted (keys_where P m)"
  by (simp add: keys_where_def)

text \<open>Values that some entry has.\<close>

lemma values_any_iff: "keys_ok m \<Longrightarrow> list_ex P (map snd m) \<longleftrightarrow> (\<exists>k v. lookup m k = Some v \<and> P v)"
  by (force simp: list_ex_iff map_of_eq_Some_iff)

section \<open>Acting on one key after the other\<close>

fun for_each :: "('k \<Rightarrow> 's \<Rightarrow> 's \<times> 'e list) \<Rightarrow> 'k list \<Rightarrow> 's \<Rightarrow> 's \<times> 'e list" where
  "for_each act [] s = (s, [])"
| "for_each act (k # ks) s =
     (let r = act k s; rs = for_each act ks (fst r) in (fst rs, snd r @ snd rs))"

lemma for_each_keeps: "(\<And>k s. f (fst (act k s)) = f s) \<Longrightarrow> f (fst (for_each act ks s)) = f s"
  by (induction ks arbitrary: s) (simp_all add: Let_def)

lemma for_each_inv: "(\<And>k s. P s \<Longrightarrow> P (fst (act k s))) \<Longrightarrow> P s \<Longrightarrow> P (fst (for_each act ks s))"
  by (induction ks arbitrary: s) (simp_all add: Let_def)

locale keyed_sweep =
  fixes look :: "'s \<Rightarrow> 'k \<Rightarrow> 'v option" and act :: "'k \<Rightarrow> 's \<Rightarrow> 's \<times> 'e list" and own :: "'v \<Rightarrow> 'v option"
  assumes other_kept: "k' \<noteq> k \<Longrightarrow> look (fst (act k s)) k' = look s k'"
    and own_entry: "look (fst (act k s)) k = Option.bind (look s k) own"
begin

lemma sweep:
  "distinct ks \<Longrightarrow> look (fst (for_each act ks s)) k = (if k \<in> set ks then Option.bind (look s k) own else look s k)"
proof (induction ks arbitrary: s)
  case (Cons x ks)
  then show ?case by (cases "k = x") (simp_all add: Let_def own_entry other_kept)
qed simp

end

end
