(* ===== verification/Sync_Await.thy ===== *)
theory Sync_Await
  imports Sync_Wire Hash_Maps
begin

text \<open>
  SYNC counters, fences, alarms and suspended clients
  (\<open>crates/yserver-core/src/core_loop/sync_await.rs\<close>, and the alarm triggers of
  \<open>process_request/sync_ext.rs\<close>). Every function takes the state to the state and the
  events and backend calls it makes, in order; log output is left out. What the
  server reads from outside (the clock, the idle times, the memory of DRI3 fences) is the record
  \<open>sync_env\<close>, one reading for the whole of a request.
\<close>

declare map_of_eq_Some_iff [simp del] Some_eq_map_of_iff [simp del]

record sync_env =
  now_ms :: u32
  idle_ms :: "u32 \<Rightarrow> int"
  shm_triggered :: "u32 \<Rightarrow> bool option"

record sync_counter =
  ctr_owner :: u32
  ctr_value :: int

record sync_fence =
  fnc_owner :: u32
  fnc_triggered :: bool

record sync_alarm =
  alm_owner :: u32
  alm_counter :: u32
  alm_wait_value :: int
  alm_value_type :: u32
  alm_raw_wait :: int
  alm_delta :: int
  alm_test_type :: u32
  alm_check_type :: u32
  alm_events :: bool
  alm_state :: u8
  alm_event_clients :: "u32 list"

datatype sync_await_condition =
    CounterCond u32 u32 int int
  | FenceCond u32

fun cond_object :: "sync_await_condition \<Rightarrow> u32" where
  "cond_object (CounterCond counter _ _ _) = counter"
| "cond_object (FenceCond fence) = fence"

record sync_state =
  sync_counters :: "(u32, sync_counter) hash_map"
  sync_alarms :: "(u32, sync_alarm) hash_map"
  sync_fences :: "(u32, sync_fence) hash_map"
  sync_awaits :: "(u32, sync_await_condition list) hash_map"
  sync_servertime_last :: "int option"
  idletime_last_evaluated :: "(u32, int) hash_map"

text \<open>
  Events to clients (fields in the order of the encoders, without byte order and sequence number)
  and calls of the backend. The events of one client's await are contiguous.
\<close>

datatype sync_effect =
    CounterNotify u32 u32 int int u32 u16 bool
  | AlarmNotify "u32 list" u32 int int u32 u8
  | Dri3TriggerFence u32
  | Dri3ResetFence u32
  | Dri3DestroyFence u32

type_synonym sync_step = "sync_state \<times> sync_effect list"

section \<open>Counters\<close>

definition is_idletime_counter :: "u32 \<Rightarrow> bool" where
  "is_idletime_counter c \<longleftrightarrow> c = IDLETIME_COUNTER \<or> c = IDLETIME_DEVICE_VCP \<or> c = IDLETIME_DEVICE_VCK"

definition is_system_counter :: "u32 \<Rightarrow> bool" where
  "is_system_counter c \<longleftrightarrow> c = SERVERTIME_COUNTER \<or> is_idletime_counter c"

definition counter_value :: "sync_env \<Rightarrow> sync_state \<Rightarrow> u32 \<Rightarrow> int option" where
  "counter_value env s c =
     (if c = SERVERTIME_COUNTER then Some (uint (now_ms env))
      else if is_idletime_counter c then Some (idle_ms env c)
      else map_option ctr_value (lookup (sync_counters s) c))"

definition client_is_suspended :: "sync_state \<Rightarrow> u32 \<Rightarrow> bool" where
  "client_is_suspended s client \<longleftrightarrow> lookup (sync_awaits s) client \<noteq> None"

definition fence_is_triggered :: "sync_env \<Rightarrow> sync_state \<Rightarrow> u32 \<Rightarrow> bool" where
  "fence_is_triggered env s fence =
     (case shm_triggered env fence of Some b \<Rightarrow> b
      | None \<Rightarrow> (case lookup (sync_fences s) fence of Some f \<Rightarrow> fnc_triggered f | None \<Rightarrow> False))"

section \<open>Awaits\<close>

text \<open>What one condition reports when the await fires: object, wait value, value, destroyed.\<close>

definition reached :: "u32 \<Rightarrow> int \<Rightarrow> int \<Rightarrow> bool" where
  "reached test_type diff threshold =
     (if test_type = TEST_POSITIVE_COMPARISON \<or> test_type = TEST_POSITIVE_TRANSITION then diff \<ge> threshold
      else diff \<le> threshold)"

fun live_event :: "sync_env \<Rightarrow> sync_state \<Rightarrow> sync_await_condition \<Rightarrow> (u32 \<times> int \<times> int \<times> bool) list" where
  "live_event env s (FenceCond _) = []"
| "live_event env s (CounterCond counter test_type test_value threshold) =
     (case counter_value env s counter of None \<Rightarrow> []
      | Some v \<Rightarrow> (case checked_sub v test_value of None \<Rightarrow> []
        | Some diff \<Rightarrow> if reached test_type diff threshold then [(counter, test_value, v, False)] else []))"

fun gone_event :: "int \<Rightarrow> sync_await_condition \<Rightarrow> u32 \<times> int \<times> int \<times> bool" where
  "gone_event last_v (CounterCond counter _ test_value _) = (counter, test_value, last_v, True)"
| "gone_event last_v (FenceCond fence) = (fence, 0, 0, True)"

definition await_event ::
  "sync_env \<Rightarrow> sync_state \<Rightarrow> (u32 \<times> int) option \<Rightarrow> sync_await_condition \<Rightarrow> (u32 \<times> int \<times> int \<times> bool) list" where
  "await_event env s destroyed c =
     (case destroyed of
        Some (gone, last_v) \<Rightarrow> if gone = cond_object c then [gone_event last_v c] else live_event env s c
      | None \<Rightarrow> live_event env s c)"

text \<open>\<open>u16::try_from(n).unwrap_or(u16::MAX)\<close>.\<close>

definition u16_or_max :: "nat \<Rightarrow> u16" where
  "u16_or_max n = (if n < 65536 then of_nat n else 65535)"

definition counter_notifies :: "sync_env \<Rightarrow> u32 \<Rightarrow> (u32 \<times> int \<times> int \<times> bool) list \<Rightarrow> sync_effect list" where
  "counter_notifies env client events =
     map (\<lambda>(i, (object, wait, v, gone)). CounterNotify client object wait v (now_ms env) (u16_or_max (length events - i - 1)) gone)
       (enumerate 0 events)"

definition fire_await :: "sync_env \<Rightarrow> (u32 \<times> int) option \<Rightarrow> u32 \<Rightarrow> sync_state \<Rightarrow> sync_step" where
  "fire_await env destroyed client s =
     (case lookup (sync_awaits s) client of
        None \<Rightarrow> (s, [])
      | Some conditions \<Rightarrow>
          let s1 = s\<lparr>sync_awaits := remove_key client (sync_awaits s)\<rparr>
          in (s1, counter_notifies env client (concat (map (await_event env s1 destroyed) conditions))))"

definition awaiting_clients :: "sync_state \<Rightarrow> (sync_await_condition \<Rightarrow> bool) \<Rightarrow> u32 list" where
  "awaiting_clients s pred = keys_where (list_ex pred) (sync_awaits s)"

fun on_counter :: "u32 \<Rightarrow> sync_await_condition \<Rightarrow> bool" where
  "on_counter counter (CounterCond c _ _ _) = (c = counter)"
| "on_counter counter (FenceCond _) = False"

fun on_fence :: "u32 \<Rightarrow> sync_await_condition \<Rightarrow> bool" where
  "on_fence fence (FenceCond f) = (f = fence)"
| "on_fence fence (CounterCond _ _ _ _) = False"

fun holds_now :: "sync_env \<Rightarrow> sync_state \<Rightarrow> sync_await_condition \<Rightarrow> bool" where
  "holds_now env s (CounterCond counter test_type test_value _) =
     (case counter_value env s counter of Some v \<Rightarrow> trigger_fires test_type v v test_value | None \<Rightarrow> False)"
| "holds_now env s (FenceCond fence) = fence_is_triggered env s fence"

fun read_system_counter :: "sync_env \<Rightarrow> sync_await_condition \<Rightarrow> sync_state \<Rightarrow> sync_state" where
  "read_system_counter env (CounterCond counter _ _ _) s =
     (if counter = SERVERTIME_COUNTER then s\<lparr>sync_servertime_last := Some (uint (now_ms env))\<rparr>
      else if is_idletime_counter counter
      then s\<lparr>idletime_last_evaluated := insert_key counter (idle_ms env counter) (idletime_last_evaluated s)\<rparr>
      else s)"
| "read_system_counter env (FenceCond _) s = s"

definition begin_await :: "sync_env \<Rightarrow> u32 \<Rightarrow> sync_await_condition list \<Rightarrow> sync_state \<Rightarrow> sync_step" where
  "begin_await env client conditions s =
     (let s1 = fold (read_system_counter env) conditions s;
          already = list_ex (holds_now env s1) conditions;
          s2 = s1\<lparr>sync_awaits := insert_key client conditions (sync_awaits s1)\<rparr>
      in if already then fire_await env None client s2 else (s2, []))"

section \<open>Alarms\<close>

definition send_alarm_notify :: "sync_env \<Rightarrow> u32 \<Rightarrow> int \<Rightarrow> sync_state \<Rightarrow> sync_effect list" where
  "send_alarm_notify env alarm_id v s =
     (case lookup (sync_alarms s) alarm_id of
        None \<Rightarrow> []
      | Some a \<Rightarrow>
          let recipients = (if alm_events a then [alm_owner a] else []) @ alm_event_clients a
          in if recipients = [] then []
             else [AlarmNotify recipients alarm_id v (alm_wait_value a) (now_ms env) (alm_state a)])"

definition select_alarm_events :: "u32 \<Rightarrow> bool \<Rightarrow> sync_alarm \<Rightarrow> sync_alarm" where
  "select_alarm_events client want a =
     (if client = alm_owner a then a\<lparr>alm_events := want\<rparr>
      else let present = client \<in> set (alm_event_clients a) in
           if want \<and> \<not> present then a\<lparr>alm_event_clients := client # alm_event_clients a\<rparr>
           else if \<not> want \<and> present then a\<lparr>alm_event_clients := filter (\<lambda>c. c \<noteq> client) (alm_event_clients a)\<rparr>
           else a)"

text \<open>
  The re-arming loop, with the number of rounds the guard leaves: \<open>None\<close> when the wait value
  overflows.
\<close>

definition REARM_GUARD :: nat where "REARM_GUARD = 1000000"

fun rearm :: "u32 \<Rightarrow> int \<Rightarrow> int \<Rightarrow> nat \<Rightarrow> int \<Rightarrow> int option" where
  "rearm check_type v delta 0 w = Some w"
| "rearm check_type v delta (Suc n) w =
     (if comparison_satisfied check_type v w
      then (case checked_add w delta of Some w' \<Rightarrow> rearm check_type v delta n w' | None \<Rightarrow> None)
      else Some w)"

definition next_wait :: "sync_alarm \<Rightarrow> int \<Rightarrow> int \<times> u8" where
  "next_wait a v =
     (let is_comparison = (alm_test_type a = TEST_POSITIVE_COMPARISON \<or> alm_test_type a = TEST_NEGATIVE_COMPARISON) in
      if alm_counter a = 0 \<or> alm_delta a = 0 \<and> is_comparison then (alm_wait_value a, ALARM_STATE_INACTIVE)
      else if alm_delta a = 0 then (alm_wait_value a, ALARM_STATE_ACTIVE)
      else (case rearm (alm_check_type a) v (alm_delta a) REARM_GUARD (alm_wait_value a) of
              None \<Rightarrow> (alm_wait_value a, ALARM_STATE_INACTIVE)
            | Some w \<Rightarrow> (w, ALARM_STATE_ACTIVE)))"

definition alarm_trigger_fired :: "sync_env \<Rightarrow> int \<Rightarrow> u32 \<Rightarrow> sync_state \<Rightarrow> sync_step" where
  "alarm_trigger_fired env v alarm_id s =
     (case lookup (sync_alarms s) alarm_id of
        None \<Rightarrow> (s, [])
      | Some a \<Rightarrow>
          if alm_state a \<noteq> ALARM_STATE_ACTIVE then (s, [])
          else let (new_wait, new_state) = next_wait a v;
                   s1 = s\<lparr>sync_alarms := modify_key alarm_id (\<lambda>a. a\<lparr>alm_state := new_state\<rparr>) (sync_alarms s)\<rparr>;
                   events = send_alarm_notify env alarm_id v s1
               in (s1\<lparr>sync_alarms := modify_key alarm_id (\<lambda>a. a\<lparr>alm_wait_value := new_wait\<rparr>) (sync_alarms s1)\<rparr>, events))"

definition evaluate_alarms_for_counter :: "sync_env \<Rightarrow> u32 \<Rightarrow> int \<Rightarrow> int \<Rightarrow> sync_state \<Rightarrow> sync_step" where
  "evaluate_alarms_for_counter env counter old_v new_v s =
     (let candidates = keys_where (\<lambda>a. alm_counter a = counter \<and> alm_state a = ALARM_STATE_ACTIVE
            \<and> trigger_fires (alm_check_type a) old_v new_v (alm_wait_value a)) (sync_alarms s)
      in for_each (alarm_trigger_fired env new_v) candidates s)"

definition check_new_alarm_trigger :: "sync_env \<Rightarrow> u32 \<Rightarrow> u32 \<Rightarrow> sync_state \<Rightarrow> sync_step" where
  "check_new_alarm_trigger env alarm_id counter s =
     (let now_value = (case counter_value env s counter of Some v \<Rightarrow> v | None \<Rightarrow> 0);
          s1 = (if counter = SERVERTIME_COUNTER then s\<lparr>sync_servertime_last := Some now_value\<rparr> else s);
          holds = (case lookup (sync_alarms s1) alarm_id of
                     Some a \<Rightarrow> trigger_fires (alm_check_type a) now_value now_value (alm_wait_value a) | None \<Rightarrow> False)
      in if holds then alarm_trigger_fired env now_value alarm_id s1 else (s1, []))"

section \<open>Changes\<close>

text \<open>Doing one step after another.\<close>

definition followed_by :: "sync_step \<Rightarrow> (sync_state \<Rightarrow> sync_step) \<Rightarrow> sync_step" where
  "followed_by r f = (let r2 = f (fst r) in (fst r2, snd r @ snd r2))"

fun fires_on_change :: "u32 \<Rightarrow> int \<Rightarrow> int \<Rightarrow> sync_await_condition \<Rightarrow> bool" where
  "fires_on_change counter old_v new_v (CounterCond c test_type test_value _) =
     (c = counter \<and> trigger_fires test_type old_v new_v test_value)"
| "fires_on_change counter old_v new_v (FenceCond _) = False"

definition counter_changed :: "sync_env \<Rightarrow> u32 \<Rightarrow> int \<Rightarrow> int \<Rightarrow> sync_state \<Rightarrow> sync_step" where
  "counter_changed env counter old_v new_v s =
     followed_by (evaluate_alarms_for_counter env counter old_v new_v s)
       (\<lambda>s1. for_each (fire_await env None) (awaiting_clients s1 (fires_on_change counter old_v new_v)) s1)"

definition destroy_alarm :: "sync_env \<Rightarrow> u32 \<Rightarrow> sync_state \<Rightarrow> sync_step" where
  "destroy_alarm env alarm_id s =
     (case lookup (sync_alarms s) alarm_id of
        None \<Rightarrow> (s, [])
      | Some a \<Rightarrow>
          let s1 = s\<lparr>sync_alarms := modify_key alarm_id (\<lambda>a. a\<lparr>alm_state := ALARM_STATE_DESTROYED\<rparr>) (sync_alarms s)\<rparr>;
              v = (if alm_counter a = 0 then 0 else (case counter_value env s1 (alm_counter a) of Some v \<Rightarrow> v | None \<Rightarrow> 0))
          in (s1\<lparr>sync_alarms := remove_key alarm_id (sync_alarms s1)\<rparr>, send_alarm_notify env alarm_id v s1))"

definition release_client_alarms :: "sync_env \<Rightarrow> u32 \<Rightarrow> sync_state \<Rightarrow> sync_step" where
  "release_client_alarms env client s =
     (let s1 = s\<lparr>sync_alarms := modify_values (\<lambda>a. a\<lparr>alm_event_clients := filter (\<lambda>c. c \<noteq> client) (alm_event_clients a)\<rparr>) (sync_alarms s)\<rparr>
      in for_each (destroy_alarm env) (keys_where (\<lambda>a. alm_owner a = client) (sync_alarms s1)) s1)"

definition deactivate_alarm :: "sync_env \<Rightarrow> int \<Rightarrow> u32 \<Rightarrow> sync_state \<Rightarrow> sync_step" where
  "deactivate_alarm env last_v alarm_id s =
     (case lookup (sync_alarms s) alarm_id of
        None \<Rightarrow> (s, [])
      | Some _ \<Rightarrow>
          let s1 = s\<lparr>sync_alarms := modify_key alarm_id (\<lambda>a. a\<lparr>alm_state := ALARM_STATE_INACTIVE\<rparr>) (sync_alarms s)\<rparr>
          in (s1\<lparr>sync_alarms := modify_key alarm_id (\<lambda>a. a\<lparr>alm_counter := 0\<rparr>) (sync_alarms s1)\<rparr>,
              send_alarm_notify env alarm_id last_v s1))"

definition counter_destroyed :: "sync_env \<Rightarrow> u32 \<Rightarrow> int \<Rightarrow> sync_state \<Rightarrow> sync_step" where
  "counter_destroyed env counter last_v s =
     followed_by (for_each (deactivate_alarm env last_v) (keys_where (\<lambda>a. alm_counter a = counter) (sync_alarms s)) s)
       (\<lambda>s1. for_each (fire_await env (Some (counter, last_v))) (awaiting_clients s1 (on_counter counter)) s1)"

definition fence_triggered :: "sync_env \<Rightarrow> u32 \<Rightarrow> sync_state \<Rightarrow> sync_step" where
  "fence_triggered env fence s =
     (case lookup (sync_fences s) fence of
        None \<Rightarrow> (s, [])
      | Some _ \<Rightarrow>
          let s1 = s\<lparr>sync_fences := modify_key fence (\<lambda>f. f\<lparr>fnc_triggered := True\<rparr>) (sync_fences s)\<rparr>
          in for_each (fire_await env None) (awaiting_clients s1 (on_fence fence)) s1)"

definition fence_destroyed :: "sync_env \<Rightarrow> u32 \<Rightarrow> sync_state \<Rightarrow> sync_step" where
  "fence_destroyed env fence s =
     for_each (fire_await env (Some (fence, 0))) (awaiting_clients s (on_fence fence)) s"

section \<open>Clocks\<close>

definition counter_awaited :: "sync_state \<Rightarrow> u32 \<Rightarrow> bool" where
  "counter_awaited s counter \<longleftrightarrow> list_ex (list_ex (on_counter counter)) (map snd (sync_awaits s))"

definition alarm_watches :: "u32 \<Rightarrow> sync_alarm \<Rightarrow> bool" where
  "alarm_watches counter a \<longleftrightarrow> alm_counter a = counter \<and> alm_state a = ALARM_STATE_ACTIVE"

definition servertime_watched :: "sync_state \<Rightarrow> bool" where
  "servertime_watched s \<longleftrightarrow>
     list_ex (alarm_watches SERVERTIME_COUNTER) (map snd (sync_alarms s)) \<or> counter_awaited s SERVERTIME_COUNTER"

definition evaluate_servertime :: "sync_env \<Rightarrow> sync_state \<Rightarrow> sync_step" where
  "evaluate_servertime env s =
     (if \<not> servertime_watched s then (s\<lparr>sync_servertime_last := None\<rparr>, [])
      else let now = uint (now_ms env);
               old_v = (case sync_servertime_last s of Some v \<Rightarrow> v | None \<Rightarrow> now);
               s1 = s\<lparr>sync_servertime_last := Some now\<rparr>
           in if old_v \<noteq> now then counter_changed env SERVERTIME_COUNTER old_v now s1 else (s1, []))"

definition idletime_awaited :: "sync_state \<Rightarrow> u32 \<Rightarrow> bool" where
  "idletime_awaited s counter \<longleftrightarrow> counter_awaited s counter"

definition evaluate_idletime :: "sync_env \<Rightarrow> u32 \<Rightarrow> sync_state \<Rightarrow> sync_step" where
  "evaluate_idletime env counter s =
     (if \<not> list_ex (alarm_watches counter) (map snd (sync_alarms s)) \<and> \<not> idletime_awaited s counter then (s, [])
      else let current_idle = idle_ms env counter;
               old_idle = (case lookup (idletime_last_evaluated s) counter of Some v \<Rightarrow> v | None \<Rightarrow> 0);
               s1 = s\<lparr>idletime_last_evaluated := insert_key counter current_idle (idletime_last_evaluated s)\<rparr>
           in counter_changed env counter old_idle current_idle s1)"

text \<open>The passes after a poll and on input are skipped while a client suspends the screen saver.\<close>

definition evaluate_idletime_alarms_post_poll :: "sync_env \<Rightarrow> bool \<Rightarrow> sync_state \<Rightarrow> sync_step" where
  "evaluate_idletime_alarms_post_poll env saver_suspended s =
     (if saver_suspended then (s, [])
      else for_each (evaluate_idletime env) [IDLETIME_COUNTER, IDLETIME_DEVICE_VCP, IDLETIME_DEVICE_VCK] s)"

definition idle_reset :: "sync_env \<Rightarrow> u32 \<Rightarrow> int \<Rightarrow> sync_state \<Rightarrow> sync_step" where
  "idle_reset env counter prior_idle_ms s =
     (let r = counter_changed env counter prior_idle_ms 0 s
      in ((fst r)\<lparr>idletime_last_evaluated := insert_key counter 0 (idletime_last_evaluated (fst r))\<rparr>, snd r))"

definition evaluate_idletime_negative_alarms_on_input_wake ::
  "sync_env \<Rightarrow> bool \<Rightarrow> u8 \<Rightarrow> int \<Rightarrow> int \<Rightarrow> sync_state \<Rightarrow> sync_step" where
  "evaluate_idletime_negative_alarms_on_input_wake env saver_suspended device_id prior_global prior_device s =
     (if saver_suspended then (s, [])
      else followed_by (idle_reset env IDLETIME_COUNTER prior_global s)
             (\<lambda>s1. if device_id = 2 then idle_reset env IDLETIME_DEVICE_VCP prior_device s1
                   else if device_id = 3 then idle_reset env IDLETIME_DEVICE_VCK prior_device s1 else (s1, [])))"

end
