(* ===== verification/Sync_Requests.thy ===== *)
theory Sync_Requests
  imports Sync_Await
begin

text \<open>
  The SYNC requests (\<open>crates/yserver-core/src/core_loop/process_request/sync_ext.rs\<close>), the
  disconnect of a client (\<open>process_disconnect.rs\<close>) and the fences DRI3 creates. A request
  answers with an error (its code and value), with the bytes of a reply, or with nothing; a
  reply to a client that is gone is dropped.
\<close>

definition SYNC_FIRST_ERROR :: u8 where "SYNC_FIRST_ERROR = 164"

datatype sync_outcome = Handled | Error u8 u32 | Reply "u8 list"

type_synonym sync_result = "sync_state \<times> sync_outcome \<times> sync_effect list"

definition done_with :: "sync_step \<Rightarrow> sync_result" where
  "done_with r = (fst r, Handled, snd r)"

definition refused :: "sync_state \<Rightarrow> u8 \<times> u32 \<Rightarrow> sync_result" where
  "refused s e = (s, Error (fst e) (snd e), [])"

definition reply_to :: "client_byte_order option \<Rightarrow> u8 list \<Rightarrow> sync_state \<Rightarrow> sync_result" where
  "reply_to client bytes s = (s, (case client of Some _ \<Rightarrow> Reply bytes | None \<Rightarrow> Handled), [])"

section \<open>Lookups\<close>

definition sync_writable_counter :: "sync_state \<Rightarrow> u32 \<Rightarrow> u8 \<times> u32 + int" where
  "sync_writable_counter s counter =
     (if is_system_counter counter then Inl (BAD_ACCESS, counter)
      else (case lookup (sync_counters s) counter of
              Some c \<Rightarrow> Inr (ctr_value c) | None \<Rightarrow> Inl (SYNC_FIRST_ERROR + BAD_COUNTER, counter)))"

definition sync_known_fence :: "sync_state \<Rightarrow> u32 \<Rightarrow> u8 \<times> u32 + unit" where
  "sync_known_fence s fence =
     (if lookup (sync_fences s) fence \<noteq> None then Inr () else Inl (SYNC_FIRST_ERROR + BAD_FENCE, fence))"

definition sync_known_alarm :: "sync_state \<Rightarrow> u32 \<Rightarrow> u8 \<times> u32 + unit" where
  "sync_known_alarm s alarm =
     (if lookup (sync_alarms s) alarm \<noteq> None then Inr () else Inl (SYNC_FIRST_ERROR + BAD_ALARM, alarm))"

text \<open>A request goes on with what a lookup found.\<close>

definition found :: "sync_state \<Rightarrow> u8 \<times> u32 + 'a \<Rightarrow> ('a \<Rightarrow> sync_result) \<Rightarrow> sync_result" where
  "found s r f = (case r of Inl e \<Rightarrow> refused s e | Inr x \<Rightarrow> f x)"

section \<open>Counters\<close>

definition create_counter :: "u32 \<Rightarrow> u8 list \<Rightarrow> sync_state \<Rightarrow> sync_result" where
  "create_counter client body s =
     (case parse_counter_value body of
        None \<Rightarrow> (s, Handled, [])
      | Some (counter, v) \<Rightarrow>
          (s\<lparr>sync_counters := insert_key counter \<lparr>ctr_owner = client, ctr_value = v\<rparr> (sync_counters s)\<rparr>, Handled, []))"

definition write_counter :: "sync_env \<Rightarrow> u32 \<Rightarrow> int \<Rightarrow> int \<Rightarrow> sync_state \<Rightarrow> sync_step" where
  "write_counter env counter old_v new_v s =
     counter_changed env counter old_v new_v
       (s\<lparr>sync_counters := modify_key counter (\<lambda>c. c\<lparr>ctr_value := new_v\<rparr>) (sync_counters s)\<rparr>)"

definition set_counter :: "sync_env \<Rightarrow> u8 list \<Rightarrow> sync_state \<Rightarrow> sync_result" where
  "set_counter env body s =
     (case parse_counter_value body of
        None \<Rightarrow> (s, Handled, [])
      | Some (counter, v) \<Rightarrow> found s (sync_writable_counter s counter) (\<lambda>old_v. done_with (write_counter env counter old_v v s)))"

definition change_counter :: "sync_env \<Rightarrow> u8 list \<Rightarrow> sync_state \<Rightarrow> sync_result" where
  "change_counter env body s =
     (case parse_counter_value body of
        None \<Rightarrow> (s, Handled, [])
      | Some (counter, delta) \<Rightarrow> found s (sync_writable_counter s counter) (\<lambda>old_v.
          case checked_add old_v delta of
            None \<Rightarrow> refused s (BAD_VALUE, hi32 delta)
          | Some new_v \<Rightarrow> done_with (write_counter env counter old_v new_v s)))"

definition query_counter :: "sync_env \<Rightarrow> client_byte_order option \<Rightarrow> client_byte_order \<Rightarrow> u16 \<Rightarrow> u8 list \<Rightarrow> sync_state \<Rightarrow> sync_result" where
  "query_counter env client bo sequence body s =
     (let counter = (case parse_resource body of Some c \<Rightarrow> c | None \<Rightarrow> 0) in
      case counter_value env s counter of
        None \<Rightarrow> refused s (SYNC_FIRST_ERROR + BAD_COUNTER, counter)
      | Some v \<Rightarrow> reply_to client (encode_query_counter_reply bo sequence v) s)"

definition destroy_counter :: "sync_env \<Rightarrow> u8 list \<Rightarrow> sync_state \<Rightarrow> sync_result" where
  "destroy_counter env body s =
     (case parse_resource body of
        None \<Rightarrow> (s, Handled, [])
      | Some counter \<Rightarrow> found s (sync_writable_counter s counter) (\<lambda>last_v.
          done_with (counter_destroyed env counter last_v (s\<lparr>sync_counters := remove_key counter (sync_counters s)\<rparr>))))"

section \<open>Awaits\<close>

definition resolve_wait :: "sync_env \<Rightarrow> sync_state \<Rightarrow> wait_condition \<Rightarrow> u8 \<times> u32 + sync_await_condition" where
  "resolve_wait env s c =
     (case (if wc_counter c = 0 then None else counter_value env s (wc_counter c)) of
        None \<Rightarrow> Inl (SYNC_FIRST_ERROR + BAD_COUNTER, wc_counter c)
      | Some current \<Rightarrow>
          and_then
            (if wc_value_type c = VALUE_TYPE_ABSOLUTE then Inr (wc_wait_value c)
             else if wc_value_type c = VALUE_TYPE_RELATIVE then
               (case checked_add current (wc_wait_value c) of
                  None \<Rightarrow> Inl (BAD_VALUE, hi32 (wc_wait_value c)) | Some v \<Rightarrow> Inr v)
             else Inl (BAD_VALUE, wc_value_type c))
            (\<lambda>test_value.
               if wc_test_type c > TEST_NEGATIVE_COMPARISON then Inl (BAD_VALUE, wc_test_type c)
               else Inr (CounterCond (wc_counter c) (wc_test_type c) test_value (wc_event_threshold c))))"

fun resolve_waits :: "sync_env \<Rightarrow> sync_state \<Rightarrow> wait_condition list \<Rightarrow> u8 \<times> u32 + sync_await_condition list" where
  "resolve_waits env s [] = Inr []"
| "resolve_waits env s (c # cs) =
     and_then (resolve_wait env s c) (\<lambda>w. and_then (resolve_waits env s cs) (\<lambda>ws. Inr (w # ws)))"

definition await :: "sync_env \<Rightarrow> client_byte_order \<Rightarrow> u32 \<Rightarrow> u8 list \<Rightarrow> sync_state \<Rightarrow> sync_result" where
  "await env bo client body s =
     (case parse_await bo body of
        None \<Rightarrow> refused s (BAD_LENGTH, 0)
      | Some conditions \<Rightarrow>
          if conditions = [] then refused s (BAD_VALUE, 0)
          else found s (resolve_waits env s conditions) (\<lambda>waits. done_with (begin_await env client waits s)))"

definition await_fence :: "sync_env \<Rightarrow> client_byte_order \<Rightarrow> u32 \<Rightarrow> u8 list \<Rightarrow> sync_state \<Rightarrow> sync_result" where
  "await_fence env bo client body s =
     (case parse_await_fence bo body of
        None \<Rightarrow> refused s (BAD_LENGTH, 0)
      | Some fences \<Rightarrow>
          if fences = [] then refused s (BAD_VALUE, 0)
          else (case filter (\<lambda>f. lookup (sync_fences s) f = None) fences of
                  f # _ \<Rightarrow> refused s (SYNC_FIRST_ERROR + BAD_FENCE, f)
                | [] \<Rightarrow> done_with (begin_await env client (map FenceCond fences) s)))"

section \<open>Alarms\<close>

text \<open>The value list while it is read: the attributes so far and the words left.\<close>

record alarm_args =
  arg_counter :: u32
  arg_value_type :: u32
  arg_raw_wait :: int
  arg_test_type :: u32
  arg_delta :: int
  arg_select :: "bool option"
  arg_words :: "u32 list"

definition next_word :: "alarm_args \<Rightarrow> u32 \<times> alarm_args" where
  "next_word a = (case arg_words a of [] \<Rightarrow> (0, a) | w # ws \<Rightarrow> (w, a\<lparr>arg_words := ws\<rparr>))"

definition next_int64 :: "alarm_args \<Rightarrow> int \<times> alarm_args" where
  "next_int64 a = (let (hi, a1) = next_word a; (lo, a2) = next_word a1 in (int64 hi lo, a2))"

text \<open>One bit of the mask; \<open>rest\<close> are the mask bits above it.\<close>

definition read_attribute :: "u32 \<Rightarrow> u32 \<Rightarrow> alarm_args \<Rightarrow> u8 \<times> u32 + alarm_args" where
  "read_attribute b rest a =
     (if b = CA_COUNTER then let (w, a) = next_word a in Inr (a\<lparr>arg_counter := w\<rparr>)
      else if b = CA_VALUE_TYPE then let (w, a) = next_word a in Inr (a\<lparr>arg_value_type := w\<rparr>)
      else if b = CA_VALUE then let (v, a) = next_int64 a in Inr (a\<lparr>arg_raw_wait := v\<rparr>)
      else if b = CA_TEST_TYPE then let (w, a) = next_word a in Inr (a\<lparr>arg_test_type := w\<rparr>)
      else if b = CA_DELTA then let (v, a) = next_int64 a in Inr (a\<lparr>arg_delta := v\<rparr>)
      else if b = CA_EVENTS then
        let (w, a) = next_word a in if w > 1 then Inl (BAD_VALUE, w) else Inr (a\<lparr>arg_select := Some (w = 1)\<rparr>)
      else Inl (BAD_VALUE, rest))"

fun read_attributes :: "u32 \<Rightarrow> nat list \<Rightarrow> alarm_args \<Rightarrow> u8 \<times> u32 + alarm_args" where
  "read_attributes vmask [] a = Inr a"
| "read_attributes vmask (i # is) a =
     and_then (read_attribute (push_bit i 1) (push_bit (Suc i) (drop_bit (Suc i) vmask)) a) (read_attributes vmask is)"

definition alarm_bits :: "u32 \<Rightarrow> nat list" where
  "alarm_bits vmask = filter (bit vmask) [0..<32]"

definition sign_mismatch :: "u32 \<Rightarrow> int \<Rightarrow> bool" where
  "sign_mismatch test_type delta \<longleftrightarrow>
     (test_type = TEST_POSITIVE_COMPARISON \<or> test_type = TEST_POSITIVE_TRANSITION) \<and> delta < 0
     \<or> (test_type = TEST_NEGATIVE_COMPARISON \<or> test_type = TEST_NEGATIVE_TRANSITION) \<and> delta > 0"

text \<open>
  \<open>SyncInitTrigger\<close>: the last step of \<open>change_alarm_attributes\<close>, on an alarm that has the new
  delta, value type, value and test type. Its result is the alarm as it is left and the error.
\<close>

definition init_counter :: "sync_state \<Rightarrow> u32 \<Rightarrow> alarm_args \<Rightarrow> sync_alarm \<Rightarrow> u8 \<times> u32 + u32" where
  "init_counter s vmask r a =
     (if vmask AND CA_COUNTER \<noteq> 0 then
        if arg_counter r \<noteq> 0 \<and> \<not> is_system_counter (arg_counter r) \<and> lookup (sync_counters s) (arg_counter r) = None
        then Inl (SYNC_FIRST_ERROR + BAD_COUNTER, arg_counter r) else Inr (arg_counter r)
      else Inr (alm_counter a))"

definition init_wait_value ::
  "u32 \<Rightarrow> u32 \<Rightarrow> alarm_args \<Rightarrow> int option \<Rightarrow> sync_alarm \<Rightarrow> sync_alarm \<times> (u8 \<times> u32 + unit)" where
  "init_wait_value alarm_id vmask r current a =
     (if vmask AND CA_VALUE_TYPE \<noteq> 0 \<and> arg_value_type r \<noteq> VALUE_TYPE_ABSOLUTE \<and> arg_value_type r \<noteq> VALUE_TYPE_RELATIVE
      then (a, Inl (BAD_VALUE, arg_value_type r))
      else if vmask AND (CA_VALUE_TYPE OR CA_VALUE) = 0 then (a, Inr ())
      else if arg_value_type r = VALUE_TYPE_ABSOLUTE then (a\<lparr>alm_wait_value := arg_raw_wait r\<rparr>, Inr ())
      else (case current of
              None \<Rightarrow> (a, Inl (BAD_MATCH, alarm_id))
            | Some v \<Rightarrow>
                let (total, overflow) = overflowing_add v (arg_raw_wait r); a1 = a\<lparr>alm_wait_value := total\<rparr>
                in (a1, if overflow then Inl (BAD_VALUE, hi32 (arg_raw_wait r)) else Inr ())))"

definition init_trigger ::
  "sync_env \<Rightarrow> sync_state \<Rightarrow> u32 \<Rightarrow> u32 \<Rightarrow> alarm_args \<Rightarrow> sync_alarm \<Rightarrow> sync_alarm \<times> (u8 \<times> u32 + unit)" where
  "init_trigger env s alarm_id vmask r a =
     (case init_counter s vmask r a of
        Inl e \<Rightarrow> (a, Inl e)
      | Inr new_counter \<Rightarrow>
          let current = (if new_counter = 0 then None else counter_value env s new_counter)
          in (case init_wait_value alarm_id vmask r current a of
                (a1, Inl e) \<Rightarrow> (a1, Inl e)
              | (a1, Inr _) \<Rightarrow>
                  if vmask AND CA_TEST_TYPE \<noteq> 0 \<and> arg_test_type r > TEST_NEGATIVE_COMPARISON
                  then (a1, Inl (BAD_VALUE, arg_test_type r))
                  else let a2 = (if vmask AND CA_TEST_TYPE \<noteq> 0 then a1\<lparr>alm_check_type := arg_test_type r\<rparr> else a1)
                       in (a2\<lparr>alm_counter := new_counter, alm_state := ALARM_STATE_ACTIVE\<rparr>, Inr ())))"

definition change_alarm_attributes ::
  "sync_env \<Rightarrow> sync_state \<Rightarrow> u32 \<Rightarrow> u32 \<Rightarrow> u32 \<Rightarrow> u32 list \<Rightarrow> sync_alarm \<Rightarrow> sync_alarm \<times> (u8 \<times> u32 + unit)" where
  "change_alarm_attributes env s alarm_id client vmask values a =
     (case read_attributes vmask (alarm_bits vmask)
             \<lparr>arg_counter = alm_counter a, arg_value_type = alm_value_type a, arg_raw_wait = alm_raw_wait a,
              arg_test_type = alm_test_type a, arg_delta = alm_delta a, arg_select = None, arg_words = values\<rparr> of
        Inl e \<Rightarrow> (a, Inl e)
      | Inr r \<Rightarrow>
          let a1 = (case arg_select r of Some want \<Rightarrow> select_alarm_events client want a | None \<Rightarrow> a) in
          if vmask AND (CA_DELTA OR CA_TEST_TYPE) \<noteq> 0 \<and> sign_mismatch (arg_test_type r) (arg_delta r)
          then (a1, Inl (BAD_MATCH, alarm_id))
          else init_trigger env s alarm_id vmask r
                 (a1\<lparr>alm_delta := arg_delta r, alm_value_type := arg_value_type r, alm_raw_wait := arg_raw_wait r,
                     alm_test_type := arg_test_type r\<rparr>))"

definition alarm_value_words :: "u8 list \<Rightarrow> u32 list" where
  "alarm_value_words body = map read_u32_le (chunks_exact 4 (drop 8 body))"

definition sync_alarm_default :: sync_alarm where
  "sync_alarm_default = \<lparr>alm_owner = 0, alm_counter = 0, alm_wait_value = 0, alm_value_type = 0, alm_raw_wait = 0, alm_delta = 0,
     alm_test_type = 0, alm_check_type = 0, alm_events = False, alm_state = 0, alm_event_clients = []\<rparr>"

definition new_alarm :: "u32 \<Rightarrow> sync_alarm" where
  "new_alarm client = sync_alarm_default\<lparr>alm_owner := client, alm_state := ALARM_STATE_INACTIVE, alm_events := True,
     alm_test_type := TEST_POSITIVE_COMPARISON, alm_check_type := TEST_POSITIVE_COMPARISON, alm_delta := 1\<rparr>"

definition create_alarm :: "sync_env \<Rightarrow> u32 \<Rightarrow> u8 list \<Rightarrow> sync_state \<Rightarrow> sync_result" where
  "create_alarm env client body s =
     (case parse_alarm_with_mask body of
        None \<Rightarrow> refused s (BAD_LENGTH, 0)
      | Some (alarm, vmask) \<Rightarrow>
          if length body \<noteq> alarm_request_len vmask then refused s (BAD_LENGTH, alarm)
          else (case change_alarm_attributes env s alarm client vmask (alarm_value_words body) (new_alarm client) of
                  (a, Inl e) \<Rightarrow> refused s e
                | (a, Inr _) \<Rightarrow>
                    if alm_counter a = 0
                    then (s\<lparr>sync_alarms := insert_key alarm (a\<lparr>alm_state := ALARM_STATE_INACTIVE\<rparr>) (sync_alarms s)\<rparr>, Handled, [])
                    else done_with (check_new_alarm_trigger env alarm (alm_counter a)
                           (s\<lparr>sync_alarms := insert_key alarm a (sync_alarms s)\<rparr>))))"

definition change_alarm :: "sync_env \<Rightarrow> u32 \<Rightarrow> u8 list \<Rightarrow> sync_state \<Rightarrow> sync_result" where
  "change_alarm env client body s =
     (case parse_alarm_with_mask body of
        None \<Rightarrow> refused s (BAD_LENGTH, 0)
      | Some (alarm, vmask) \<Rightarrow> found s (sync_known_alarm s alarm) (\<lambda>_.
          if length body \<noteq> alarm_request_len vmask then refused s (BAD_LENGTH, alarm)
          else (case lookup (sync_alarms s) alarm of
                  None \<Rightarrow> (s, Handled, [])
                | Some a0 \<Rightarrow>
                    (case change_alarm_attributes env s alarm client vmask (alarm_value_words body) a0 of
                       (a, Inl e) \<Rightarrow> refused (s\<lparr>sync_alarms := insert_key alarm a (sync_alarms s)\<rparr>) e
                     | (a, Inr _) \<Rightarrow>
                         let s1 = s\<lparr>sync_alarms := insert_key alarm a (sync_alarms s)\<rparr>
                         in done_with (if alm_counter a = 0 then alarm_trigger_fired env 0 alarm s1
                                       else check_new_alarm_trigger env alarm (alm_counter a) s1)))))"

definition query_alarm :: "client_byte_order option \<Rightarrow> client_byte_order \<Rightarrow> u16 \<Rightarrow> u8 list \<Rightarrow> sync_state \<Rightarrow> sync_result" where
  "query_alarm client bo sequence body s =
     (if length body \<noteq> 4 then refused s (BAD_LENGTH, 0)
      else let alarm_id = (case parse_resource body of Some i \<Rightarrow> i | None \<Rightarrow> 0) in
        found s (sync_known_alarm s alarm_id) (\<lambda>_.
          let a = (case lookup (sync_alarms s) alarm_id of Some a \<Rightarrow> a | None \<Rightarrow> sync_alarm_default)
          in reply_to client (encode_query_alarm_reply bo sequence (alm_counter a) (alm_wait_value a) (alm_test_type a)
               (alm_delta a) (alm_events a) (alm_state a)) s))"

definition destroy_alarm_request :: "sync_env \<Rightarrow> u8 list \<Rightarrow> sync_state \<Rightarrow> sync_result" where
  "destroy_alarm_request env body s =
     (if length body \<noteq> 4 then refused s (BAD_LENGTH, 0)
      else let alarm = (case parse_resource body of Some i \<Rightarrow> i | None \<Rightarrow> 0) in
        found s (sync_known_alarm s alarm) (\<lambda>_. done_with (destroy_alarm env alarm s)))"

section \<open>Fences\<close>

definition insert_fence :: "u32 \<Rightarrow> u32 \<Rightarrow> bool \<Rightarrow> sync_state \<Rightarrow> sync_state" where
  "insert_fence client fence triggered s =
     s\<lparr>sync_fences := insert_key fence \<lparr>fnc_owner = client, fnc_triggered = triggered\<rparr> (sync_fences s)\<rparr>"

definition create_fence :: "u32 \<Rightarrow> u8 list \<Rightarrow> sync_state \<Rightarrow> sync_result" where
  "create_fence client body s =
     (case parse_create_fence body of
        None \<Rightarrow> (s, Handled, [])
      | Some req \<Rightarrow> (insert_fence client (cf_fence req) (cf_initially_triggered req) s, Handled, []))"

text \<open>The other fence requests act on a fence they name and know.\<close>

definition with_fence :: "u8 list \<Rightarrow> sync_state \<Rightarrow> (u32 \<Rightarrow> sync_result) \<Rightarrow> sync_result" where
  "with_fence body s f =
     (case parse_resource body of
        None \<Rightarrow> (s, Handled, [])
      | Some fence \<Rightarrow> found s (sync_known_fence s fence) (\<lambda>_. f fence))"

definition remove_fence :: "sync_env \<Rightarrow> u32 \<Rightarrow> sync_state \<Rightarrow> sync_step" where
  "remove_fence env fence s =
     followed_by (fence_destroyed env fence s)
       (\<lambda>s1. (s1\<lparr>sync_fences := remove_key fence (sync_fences s1)\<rparr>, [Dri3DestroyFence fence]))"

definition destroy_fence :: "sync_env \<Rightarrow> u8 list \<Rightarrow> sync_state \<Rightarrow> sync_result" where
  "destroy_fence env body s = with_fence body s (\<lambda>fence. done_with (remove_fence env fence s))"

definition trigger_fence :: "sync_env \<Rightarrow> u8 list \<Rightarrow> sync_state \<Rightarrow> sync_result" where
  "trigger_fence env body s =
     with_fence body s (\<lambda>fence. done_with (followed_by (s, [Dri3TriggerFence fence]) (fence_triggered env fence)))"

definition reset_fence :: "sync_env \<Rightarrow> u8 list \<Rightarrow> sync_state \<Rightarrow> sync_result" where
  "reset_fence env body s =
     with_fence body s (\<lambda>fence.
       if \<not> fence_is_triggered env s fence then refused s (BAD_MATCH, fence)
       else (s\<lparr>sync_fences := modify_key fence (\<lambda>f. f\<lparr>fnc_triggered := False\<rparr>) (sync_fences s)\<rparr>, Handled, [Dri3ResetFence fence]))"

definition query_fence :: "sync_env \<Rightarrow> client_byte_order option \<Rightarrow> client_byte_order \<Rightarrow> u16 \<Rightarrow> u8 list \<Rightarrow> sync_state \<Rightarrow> sync_result" where
  "query_fence env client bo sequence body s =
     (let fence = (case parse_resource body of Some f \<Rightarrow> f | None \<Rightarrow> 0) in
      found s (sync_known_fence s fence) (\<lambda>_.
        reply_to client (encode_query_fence_reply bo sequence (fence_is_triggered env s fence)) s))"

section \<open>Dispatch\<close>

text \<open>\<open>client\<close> is the byte order of the client, \<open>None\<close> when it is gone.\<close>

definition handle_sync_request ::
  "sync_env \<Rightarrow> client_byte_order option \<Rightarrow> u32 \<Rightarrow> u16 \<Rightarrow> u8 \<Rightarrow> u8 list \<Rightarrow> sync_state \<Rightarrow> sync_result" where
  "handle_sync_request env client client_id sequence minor body s =
     (let bo = (case client of Some bo \<Rightarrow> bo | None \<Rightarrow> LittleEndian) in
      if minor = INITIALIZE then reply_to client (encode_initialize_reply bo sequence SYNC_MAJOR_VERSION SYNC_MINOR_VERSION) s
      else if minor = LIST_SYSTEM_COUNTERS then reply_to client (encode_list_system_counters_reply bo sequence) s
      else if minor = CREATE_COUNTER then create_counter client_id body s
      else if minor = SET_COUNTER then set_counter env body s
      else if minor = CHANGE_COUNTER then change_counter env body s
      else if minor = QUERY_COUNTER then query_counter env client bo sequence body s
      else if minor = DESTROY_COUNTER then destroy_counter env body s
      else if minor = AWAIT then await env bo client_id body s
      else if minor = CREATE_ALARM then create_alarm env client_id body s
      else if minor = CHANGE_ALARM then change_alarm env client_id body s
      else if minor = QUERY_ALARM then query_alarm client bo sequence body s
      else if minor = DESTROY_ALARM then destroy_alarm_request env body s
      else if minor = CREATE_FENCE then create_fence client_id body s
      else if minor = DESTROY_FENCE then destroy_fence env body s
      else if minor = TRIGGER_FENCE then trigger_fence env body s
      else if minor = RESET_FENCE then reset_fence env body s
      else if minor = QUERY_FENCE then query_fence env client bo sequence body s
      else if minor = AWAIT_FENCE then await_fence env bo client_id body s
      else if minor = SET_PRIORITY then (s, Handled, [])
      else if minor = GET_PRIORITY then reply_to client (encode_get_priority_reply bo sequence 0) s
      else refused s (BAD_REQUEST, 0))"

section \<open>Disconnect\<close>

text \<open>The sorted pairs of identifier and value are in the order of the identifiers.\<close>

definition remove_counter :: "sync_env \<Rightarrow> u32 \<times> int \<Rightarrow> sync_state \<Rightarrow> sync_step" where
  "remove_counter env cv s =
     counter_destroyed env (fst cv) (snd cv) (s\<lparr>sync_counters := remove_key (fst cv) (sync_counters s)\<rparr>)"

definition dead_counters :: "u32 \<Rightarrow> sync_state \<Rightarrow> (u32 \<times> int) list" where
  "dead_counters client s =
     sort_key fst (map (\<lambda>(i, c). (i, ctr_value c)) (filter (\<lambda>(_, c). ctr_owner c = client) (sync_counters s)))"

definition disconnect_sync :: "sync_env \<Rightarrow> u32 \<Rightarrow> sync_state \<Rightarrow> sync_step" where
  "disconnect_sync env client s =
     (let s1 = s\<lparr>sync_awaits := remove_key client (sync_awaits s)\<rparr>;
          r2 = release_client_alarms env client s1;
          r3 = followed_by r2 (\<lambda>s. for_each (remove_counter env) (dead_counters client s) s)
      in followed_by r3 (\<lambda>s. for_each (remove_fence env) (keys_where (\<lambda>f. fnc_owner f = client) (sync_fences s)) s))"

end
