(* ===== verification/Sync_Sweeps.thy ===== *)
theory Sync_Sweeps
  imports Sync_Requests
begin

text \<open>
  What each step of SYNC changes and keeps. The loops over suspended clients, alarms and
  fences are sweeps (\<open>keyed_sweep\<close>): resuming a client, firing, deactivating or destroying
  an alarm and removing a fence touch no entry but their own.
\<close>

named_theorems sync_frame \<open>tables a step leaves alone\<close>

section \<open>One client, alarm or fence\<close>

lemma fire_await_frame [sync_frame]:
  "sync_counters (fst (fire_await env d c s)) = sync_counters s"
  "sync_alarms (fst (fire_await env d c s)) = sync_alarms s"
  "sync_fences (fst (fire_await env d c s)) = sync_fences s"
  "sync_servertime_last (fst (fire_await env d c s)) = sync_servertime_last s"
  "idletime_last_evaluated (fst (fire_await env d c s)) = idletime_last_evaluated s"
  by (simp_all add: fire_await_def Let_def split: option.split)

lemma fire_await_awaits: "sync_awaits (fst (fire_await env d c s)) = remove_key c (sync_awaits s)"
  by (auto simp: fire_await_def Let_def delete_id map_of_eq_None_iff split: option.split)

definition fired_alarm :: "int \<Rightarrow> sync_alarm \<Rightarrow> sync_alarm" where
  "fired_alarm v a = (if alm_state a \<noteq> ALARM_STATE_ACTIVE then a
     else a\<lparr>alm_state := snd (next_wait a v), alm_wait_value := fst (next_wait a v)\<rparr>)"

lemma alarm_trigger_fired_frame [sync_frame]:
  "sync_counters (fst (alarm_trigger_fired env v i s)) = sync_counters s"
  "sync_awaits (fst (alarm_trigger_fired env v i s)) = sync_awaits s"
  "sync_fences (fst (alarm_trigger_fired env v i s)) = sync_fences s"
  "sync_servertime_last (fst (alarm_trigger_fired env v i s)) = sync_servertime_last s"
  "idletime_last_evaluated (fst (alarm_trigger_fired env v i s)) = idletime_last_evaluated s"
  by (simp_all add: alarm_trigger_fired_def Let_def case_prod_beta split: option.split)

lemma alarm_trigger_fired_alarms:
  "lookup (sync_alarms (fst (alarm_trigger_fired env v i s))) =
     (lookup (sync_alarms s))(i := map_option (fired_alarm v) (lookup (sync_alarms s) i))"
  by (rule ext) (simp add: alarm_trigger_fired_def fired_alarm_def Let_def case_prod_beta split: option.split)

lemma alarm_trigger_fired_keys: "keys_ok (sync_alarms s) \<Longrightarrow> keys_ok (sync_alarms (fst (alarm_trigger_fired env v i s)))"
  by (simp add: alarm_trigger_fired_def Let_def case_prod_beta split: option.split)

definition deactivated :: "sync_alarm \<Rightarrow> sync_alarm" where
  "deactivated a = a\<lparr>alm_state := ALARM_STATE_INACTIVE, alm_counter := 0\<rparr>"

lemma deactivate_alarm_frame [sync_frame]:
  "sync_counters (fst (deactivate_alarm env v i s)) = sync_counters s"
  "sync_awaits (fst (deactivate_alarm env v i s)) = sync_awaits s"
  "sync_fences (fst (deactivate_alarm env v i s)) = sync_fences s"
  by (simp_all add: deactivate_alarm_def Let_def split: option.split)

lemma deactivate_alarm_alarms:
  "lookup (sync_alarms (fst (deactivate_alarm env v i s))) =
     (lookup (sync_alarms s))(i := map_option deactivated (lookup (sync_alarms s) i))"
  by (rule ext) (simp add: deactivate_alarm_def deactivated_def Let_def split: option.split)

lemma deactivate_alarm_keys: "keys_ok (sync_alarms s) \<Longrightarrow> keys_ok (sync_alarms (fst (deactivate_alarm env v i s)))"
  by (simp add: deactivate_alarm_def Let_def split: option.split)

lemma destroy_alarm_frame [sync_frame]:
  "sync_counters (fst (destroy_alarm env i s)) = sync_counters s"
  "sync_awaits (fst (destroy_alarm env i s)) = sync_awaits s"
  "sync_fences (fst (destroy_alarm env i s)) = sync_fences s"
  by (simp_all add: destroy_alarm_def Let_def split: option.split)

lemma destroy_alarm_alarms: "lookup (sync_alarms (fst (destroy_alarm env i s))) = (lookup (sync_alarms s))(i := None)"
  by (rule ext) (simp add: destroy_alarm_def Let_def split: option.split)

lemma destroy_alarm_keys: "keys_ok (sync_alarms s) \<Longrightarrow> keys_ok (sync_alarms (fst (destroy_alarm env i s)))"
  by (simp add: destroy_alarm_def Let_def split: option.split)

interpretation resume: keyed_sweep "\<lambda>s. lookup (sync_awaits s)" "fire_await env d" "\<lambda>_. None" for env d
  by unfold_locales (simp_all add: fire_await_awaits)

interpretation fire: keyed_sweep "\<lambda>s. lookup (sync_alarms s)" "alarm_trigger_fired env v" "\<lambda>a. Some (fired_alarm v a)" for env v
  by unfold_locales (simp_all add: alarm_trigger_fired_alarms map_conv_bind_option comp_def)

interpretation deactivate: keyed_sweep "\<lambda>s. lookup (sync_alarms s)" "deactivate_alarm env v" "\<lambda>a. Some (deactivated a)" for env v
  by unfold_locales (simp_all add: deactivate_alarm_alarms map_conv_bind_option comp_def)

interpretation destroy: keyed_sweep "\<lambda>s. lookup (sync_alarms s)" "destroy_alarm env" "\<lambda>_. None" for env
  by unfold_locales (simp_all add: destroy_alarm_alarms)

section \<open>Sweeps\<close>

lemma fst_followed_by [simp]: "fst (followed_by r f) = fst (f (fst r))" "snd (followed_by r f) = snd r @ snd (f (fst r))"
  by (simp_all add: followed_by_def Let_def)

lemma sweep_frame [sync_frame]:
  "sync_counters (fst (for_each (fire_await env d) ks s)) = sync_counters s"
  "sync_alarms (fst (for_each (fire_await env d) ks s)) = sync_alarms s"
  "sync_fences (fst (for_each (fire_await env d) ks s)) = sync_fences s"
  "sync_counters (fst (for_each (alarm_trigger_fired env v) ks s)) = sync_counters s"
  "sync_awaits (fst (for_each (alarm_trigger_fired env v) ks s)) = sync_awaits s"
  "sync_fences (fst (for_each (alarm_trigger_fired env v) ks s)) = sync_fences s"
  "sync_counters (fst (for_each (deactivate_alarm env v) ks s)) = sync_counters s"
  "sync_awaits (fst (for_each (deactivate_alarm env v) ks s)) = sync_awaits s"
  "sync_fences (fst (for_each (deactivate_alarm env v) ks s)) = sync_fences s"
  "sync_counters (fst (for_each (destroy_alarm env) ks s)) = sync_counters s"
  "sync_awaits (fst (for_each (destroy_alarm env) ks s)) = sync_awaits s"
  "sync_fences (fst (for_each (destroy_alarm env) ks s)) = sync_fences s"
  by (rule for_each_keeps, simp add: sync_frame)+

text \<open>The keys stay distinct.\<close>

definition tables_ok :: "sync_state \<Rightarrow> bool" where
  "tables_ok s \<longleftrightarrow> keys_ok (sync_counters s) \<and> keys_ok (sync_alarms s) \<and> keys_ok (sync_fences s) \<and> keys_ok (sync_awaits s)"

lemma tables_ok_sweep [simp]:
  "tables_ok s \<Longrightarrow> tables_ok (fst (for_each (fire_await env d) ks s))"
  "tables_ok s \<Longrightarrow> tables_ok (fst (for_each (alarm_trigger_fired env v) ks s))"
  "tables_ok s \<Longrightarrow> tables_ok (fst (for_each (deactivate_alarm env v) ks s))"
  "tables_ok s \<Longrightarrow> tables_ok (fst (for_each (destroy_alarm env) ks s))"
  by (erule for_each_inv [rotated],
      simp add: tables_ok_def sync_frame fire_await_awaits alarm_trigger_fired_keys deactivate_alarm_keys destroy_alarm_keys)+

lemma tables_okD [simp]:
  assumes "tables_ok s"
  shows "keys_ok (sync_counters s)" "keys_ok (sync_alarms s)" "keys_ok (sync_fences s)" "keys_ok (sync_awaits s)"
  using assms by (simp_all add: tables_ok_def)

lemma tables_ok_update [simp]:
  assumes "tables_ok s"
  shows "keys_ok fs \<Longrightarrow> tables_ok (s\<lparr>sync_fences := fs\<rparr>)" "keys_ok cs \<Longrightarrow> tables_ok (s\<lparr>sync_counters := cs\<rparr>)"
    "keys_ok as \<Longrightarrow> tables_ok (s\<lparr>sync_alarms := as\<rparr>)" "keys_ok ws \<Longrightarrow> tables_ok (s\<lparr>sync_awaits := ws\<rparr>)"
    "tables_ok (s\<lparr>sync_servertime_last := t\<rparr>)" "tables_ok (s\<lparr>idletime_last_evaluated := l\<rparr>)"
  using assms unfolding tables_ok_def by simp_all

text \<open>Resuming the clients that wait for something: exactly those leave the table.\<close>

lemma resume_awaits:
  assumes "keys_ok (sync_awaits s)"
  shows "lookup (sync_awaits (fst (for_each (fire_await env d) (awaiting_clients s P) s))) c =
     (case lookup (sync_awaits s) c of Some conds \<Rightarrow> if list_ex P conds then None else Some conds | None \<Rightarrow> None)"
  using assms by (cases "lookup (sync_awaits s) c") (simp_all add: resume.sweep awaiting_clients_def)

lemma counter_changed_frame [sync_frame]:
  "sync_counters (fst (counter_changed env k old_v new_v s)) = sync_counters s"
  "sync_fences (fst (counter_changed env k old_v new_v s)) = sync_fences s"
  by (simp_all add: counter_changed_def evaluate_alarms_for_counter_def sync_frame)

lemma counter_changed_awaits:
  assumes "tables_ok s"
  shows "lookup (sync_awaits (fst (counter_changed env k old_v new_v s))) c =
     (case lookup (sync_awaits s) c of
        Some conds \<Rightarrow> if list_ex (fires_on_change k old_v new_v) conds then None else Some conds | None \<Rightarrow> None)"
  using assms by (simp add: counter_changed_def resume_awaits evaluate_alarms_for_counter_def sync_frame split: option.split)

lemma counter_changed_alarms:
  assumes "tables_ok s"
  shows "lookup (sync_alarms (fst (counter_changed env k old_v new_v s))) i =
     map_option (\<lambda>a. if alm_counter a = k \<and> trigger_fires (alm_check_type a) old_v new_v (alm_wait_value a) then fired_alarm new_v a else a)
       (lookup (sync_alarms s) i)"
  using assms by (cases "lookup (sync_alarms s) i")
    (auto simp: counter_changed_def evaluate_alarms_for_counter_def sync_frame fire.sweep fired_alarm_def)

lemma tables_ok_counter_changed [simp]: "tables_ok s \<Longrightarrow> tables_ok (fst (counter_changed env k old_v new_v s))"
  by (simp add: counter_changed_def evaluate_alarms_for_counter_def)

lemma counter_destroyed_frame [sync_frame]:
  "sync_counters (fst (counter_destroyed env k v s)) = sync_counters s"
  "sync_fences (fst (counter_destroyed env k v s)) = sync_fences s"
  by (simp_all add: counter_destroyed_def sync_frame)

lemma counter_destroyed_awaits:
  assumes "tables_ok s"
  shows "lookup (sync_awaits (fst (counter_destroyed env k v s))) c =
     (case lookup (sync_awaits s) c of Some conds \<Rightarrow> if list_ex (on_counter k) conds then None else Some conds | None \<Rightarrow> None)"
  using assms by (simp add: counter_destroyed_def resume_awaits sync_frame split: option.split)

lemma counter_destroyed_alarms:
  assumes "tables_ok s"
  shows "lookup (sync_alarms (fst (counter_destroyed env k v s))) i =
     map_option (\<lambda>a. if alm_counter a = k then deactivated a else a) (lookup (sync_alarms s) i)"
  using assms by (cases "lookup (sync_alarms s) i") (auto simp: counter_destroyed_def sync_frame deactivate.sweep)

lemma tables_ok_counter_destroyed [simp]: "tables_ok s \<Longrightarrow> tables_ok (fst (counter_destroyed env k v s))"
  by (simp add: counter_destroyed_def)

lemma fence_destroyed_frame [sync_frame]:
  "sync_counters (fst (fence_destroyed env f s)) = sync_counters s"
  "sync_alarms (fst (fence_destroyed env f s)) = sync_alarms s"
  "sync_fences (fst (fence_destroyed env f s)) = sync_fences s"
  by (simp_all add: fence_destroyed_def sync_frame)

lemma remove_fence_frame [sync_frame]:
  "sync_counters (fst (remove_fence env f s)) = sync_counters s"
  "sync_alarms (fst (remove_fence env f s)) = sync_alarms s"
  by (simp_all add: remove_fence_def sync_frame)

lemma remove_fence_fences: "sync_fences (fst (remove_fence env f s)) = remove_key f (sync_fences s)"
  by (simp add: remove_fence_def sync_frame)

lemma remove_fence_awaits:
  assumes "tables_ok s"
  shows "lookup (sync_awaits (fst (remove_fence env f s))) c =
     (case lookup (sync_awaits s) c of Some conds \<Rightarrow> if list_ex (on_fence f) conds then None else Some conds | None \<Rightarrow> None)"
  using assms by (simp add: remove_fence_def fence_destroyed_def resume_awaits split: option.split)

lemma tables_ok_remove_fence [simp]: "tables_ok s \<Longrightarrow> tables_ok (fst (remove_fence env f s))"
proof -
  assume "tables_ok s"
  then have "tables_ok (fst (fence_destroyed env f s))" by (simp add: fence_destroyed_def)
  then show ?thesis by (simp add: remove_fence_def)
qed

interpretation drop_fence: keyed_sweep "\<lambda>s. lookup (sync_fences s)" "remove_fence env" "\<lambda>_. None" for env
  by unfold_locales (simp_all add: remove_fence_fences)

lemma fence_triggered_frame [sync_frame]:
  "sync_counters (fst (fence_triggered env f s)) = sync_counters s"
  "sync_alarms (fst (fence_triggered env f s)) = sync_alarms s"
  by (simp_all add: fence_triggered_def sync_frame Let_def split: option.split)

lemma fence_triggered_fences:
  "lookup (sync_fences (fst (fence_triggered env f s))) g =
     (if g = f then map_option (fnc_triggered_update (\<lambda>_. True)) (lookup (sync_fences s) f) else lookup (sync_fences s) g)"
  by (simp add: fence_triggered_def sync_frame Let_def split: option.split)

lemma fence_triggered_awaits:
  assumes "tables_ok s"
  shows "lookup (sync_awaits (fst (fence_triggered env f s))) c =
     (case lookup (sync_awaits s) c of
        Some conds \<Rightarrow> if lookup (sync_fences s) f \<noteq> None \<and> list_ex (on_fence f) conds then None else Some conds | None \<Rightarrow> None)"
  using assms by (auto simp: fence_triggered_def resume_awaits Let_def split: option.split)

lemma tables_ok_fence_triggered [simp]: "tables_ok s \<Longrightarrow> tables_ok (fst (fence_triggered env f s))"
  by (simp add: fence_triggered_def Let_def split: option.split)

end
