(* ===== verification/Sync_Inv.thy ===== *)
theory Sync_Inv
  imports Sync_Sweeps Machines
begin

declare map_of_eq_Some_iff [simp del] Some_eq_map_of_iff [simp del]

text \<open>
  The invariant of SYNC. Alarms and awaits name only counters and fences that exist, alarms are
  well formed, and no suspended client has a condition that already holds: whatever made
  it hold has resumed the client. Fences whose state is in memory shared with the client
  (\<open>shared\<close>) are the exception the source documents.
\<close>

definition alarm_ok :: "(u32 \<Rightarrow> sync_counter option) \<Rightarrow> sync_alarm \<Rightarrow> bool" where
  "alarm_ok cs a \<longleftrightarrow>
     (alm_state a = ALARM_STATE_ACTIVE \<or> alm_state a = ALARM_STATE_INACTIVE)
     \<and> alm_check_type a \<le> TEST_NEGATIVE_COMPARISON
     \<and> in_i64 (alm_wait_value a) \<and> in_i64 (alm_raw_wait a) \<and> in_i64 (alm_delta a)
     \<and> (alm_counter a = 0 \<or> is_system_counter (alm_counter a) \<or> cs (alm_counter a) \<noteq> None)
     \<and> alm_owner a \<notin> set (alm_event_clients a) \<and> distinct (alm_event_clients a)"

definition counterless_inactive :: "sync_alarm \<Rightarrow> bool" where
  "counterless_inactive a \<longleftrightarrow> (alm_counter a = 0 \<longrightarrow> alm_state a = ALARM_STATE_INACTIVE)"

fun cond_ok :: "u32 set \<Rightarrow> (u32 \<Rightarrow> sync_counter option) \<Rightarrow> (u32 \<Rightarrow> sync_fence option) \<Rightarrow> sync_await_condition \<Rightarrow> bool" where
  "cond_ok shared cs fs (CounterCond c test_type test_value _) =
     (test_type \<le> TEST_NEGATIVE_COMPARISON
      \<and> (is_system_counter c
         \<or> (case cs c of Some ctr \<Rightarrow> \<not> trigger_fires test_type (ctr_value ctr) (ctr_value ctr) test_value | None \<Rightarrow> False)))"
| "cond_ok shared cs fs (FenceCond f) = (case fs f of Some fnc \<Rightarrow> f \<in> shared \<or> \<not> fnc_triggered fnc | None \<Rightarrow> False)"

definition sync_ok :: "u32 set \<Rightarrow> sync_state \<Rightarrow> bool" where
  "sync_ok shared s \<longleftrightarrow> tables_ok s
     \<and> (\<forall>i c. lookup (sync_counters s) i = Some c \<longrightarrow> in_i64 (ctr_value c))
     \<and> (\<forall>i a. lookup (sync_alarms s) i = Some a \<longrightarrow> alarm_ok (lookup (sync_counters s)) a \<and> counterless_inactive a)
     \<and> (\<forall>c conds. lookup (sync_awaits s) c = Some conds \<longrightarrow>
          conds \<noteq> [] \<and> (\<forall>x \<in> set conds. cond_ok shared (lookup (sync_counters s)) (lookup (sync_fences s)) x))"

definition env_ok :: "u32 set \<Rightarrow> sync_env \<Rightarrow> bool" where
  "env_ok shared env \<longleftrightarrow> (\<forall>f. f \<notin> shared \<longrightarrow> shm_triggered env f = None) \<and> (\<forall>c. in_i64 (idle_ms env c))"

lemma sync_okI:
  assumes "tables_ok s"
    and "\<And>i c. lookup (sync_counters s) i = Some c \<Longrightarrow> in_i64 (ctr_value c)"
    and "\<And>i a. lookup (sync_alarms s) i = Some a \<Longrightarrow> alarm_ok (lookup (sync_counters s)) a \<and> counterless_inactive a"
    and "\<And>c conds. lookup (sync_awaits s) c = Some conds \<Longrightarrow>
          conds \<noteq> [] \<and> (\<forall>x \<in> set conds. cond_ok shared (lookup (sync_counters s)) (lookup (sync_fences s)) x)"
  shows "sync_ok shared s"
  using assms unfolding sync_ok_def by blast

lemma sync_okD:
  assumes "sync_ok shared s"
  shows "tables_ok s"
    and "lookup (sync_counters s) i = Some c \<Longrightarrow> in_i64 (ctr_value c)"
    and "lookup (sync_alarms s) i = Some a \<Longrightarrow> alarm_ok (lookup (sync_counters s)) a"
    and "lookup (sync_alarms s) i = Some a \<Longrightarrow> counterless_inactive a"
    and "lookup (sync_awaits s) k = Some conds \<Longrightarrow> conds \<noteq> []"
    and "lookup (sync_awaits s) k = Some conds \<Longrightarrow> x \<in> set conds \<Longrightarrow>
          cond_ok shared (lookup (sync_counters s)) (lookup (sync_fences s)) x"
  using assms unfolding sync_ok_def by blast+

section \<open>Alarms\<close>

lemma rearm_in: "in_i64 w \<Longrightarrow> rearm ct v d n w = Some w' \<Longrightarrow> in_i64 w'"
  by (induction ct v d n w arbitrary: w' rule: rearm.induct) (auto split: if_splits option.splits dest: checked_add_in)

lemma next_wait_ok:
  assumes "alarm_ok cs a"
  shows "in_i64 (fst (next_wait a v))" and "snd (next_wait a v) \<in> {ALARM_STATE_ACTIVE, ALARM_STATE_INACTIVE}"
    and "alm_counter a = 0 \<Longrightarrow> snd (next_wait a v) = ALARM_STATE_INACTIVE"
  using assms by (auto simp: next_wait_def Let_def alarm_ok_def split: option.splits dest: rearm_in)

lemma fired_alarm_ok:
  assumes "alarm_ok cs a"
  shows "alarm_ok cs (fired_alarm v a)" and "counterless_inactive (fired_alarm v a)"
  using assms next_wait_ok [OF assms, of v]
  by (auto simp: fired_alarm_def alarm_ok_def counterless_inactive_def)

lemma deactivated_ok: "alarm_ok cs a \<Longrightarrow> alarm_ok cs (deactivated a) \<and> counterless_inactive (deactivated a)"
  by (simp add: deactivated_def alarm_ok_def counterless_inactive_def)

lemma select_alarm_events_ok: "alarm_ok cs a \<Longrightarrow> alarm_ok cs (select_alarm_events c w a)"
  by (auto simp: select_alarm_events_def alarm_ok_def Let_def)

lemma select_alarm_events_keeps:
  "alm_counter (select_alarm_events c w a) = alm_counter a" "alm_state (select_alarm_events c w a) = alm_state a"
  by (simp_all add: select_alarm_events_def Let_def)

definition args_ok :: "alarm_args \<Rightarrow> bool" where
  "args_ok r \<longleftrightarrow> in_i64 (arg_raw_wait r) \<and> in_i64 (arg_delta r)"

lemma next_word_keeps: "args_ok (snd (next_word a)) = args_ok a"
  by (simp add: next_word_def args_ok_def split: list.split)

lemma read_attribute_ok: "read_attribute b rest a = Inr r \<Longrightarrow> args_ok a \<Longrightarrow> args_ok r"
  by (auto simp: read_attribute_def next_int64_def next_word_def args_ok_def Let_def split: if_splits list.splits prod.splits)

lemma read_attributes_ok: "read_attributes m is a = Inr r \<Longrightarrow> args_ok a \<Longrightarrow> args_ok r"
  by (induction m "is" a rule: read_attributes.induct) (auto simp: and_then_Inr dest: read_attribute_ok)

lemma init_wait_value_ok:
  assumes "init_wait_value i m r current a = (a', res)" and "args_ok r" and "alarm_ok cs a"
  shows "alarm_ok cs a'" and "alm_counter a' = alm_counter a" and "alm_state a' = alm_state a"
  using assms by (auto simp: init_wait_value_def Let_def overflowing_add_def args_ok_def alarm_ok_def
      split: if_splits option.splits prod.splits)

lemma init_trigger_ok:
  assumes "init_trigger env s i m r a = (a', res)" and "args_ok r" and "alarm_ok (lookup (sync_counters s)) a"
  shows "alarm_ok (lookup (sync_counters s)) a'" and "res = Inl e \<Longrightarrow> alm_counter a' = alm_counter a \<and> alm_state a' = alm_state a"
proof -
  let ?cs = "lookup (sync_counters s)"
  have "alarm_ok ?cs a' \<and> (res = Inl e \<longrightarrow> alm_counter a' = alm_counter a \<and> alm_state a' = alm_state a)"
  proof (cases "init_counter s m r a")
    case (Inl x)
    then show ?thesis using assms by (simp add: init_trigger_def)
  next
    case (Inr k)
    have k: "k = 0 \<or> is_system_counter k \<or> ?cs k \<noteq> None"
      using Inr assms(3) by (auto simp: init_counter_def alarm_ok_def split: if_splits)
    obtain a1 res1 where w: "init_wait_value i m r (if k = 0 then None else counter_value env s k) a = (a1, res1)" by force
    note ok = init_wait_value_ok [OF w assms(2,3)]
    show ?thesis
    proof (cases res1)
      case (Inl x)
      then show ?thesis using assms(1) \<open>init_counter s m r a = Inr k\<close> w ok by (simp add: init_trigger_def)
    next
      case (Inr u)
      then show ?thesis using assms(1) \<open>init_counter s m r a = Inr k\<close> w ok k
        by (auto simp: init_trigger_def Let_def alarm_ok_def split: if_splits)
    qed
  qed
  then show "alarm_ok ?cs a'" and "res = Inl e \<Longrightarrow> alm_counter a' = alm_counter a \<and> alm_state a' = alm_state a" by simp_all
qed

lemma change_alarm_attributes_ok:
  assumes "change_alarm_attributes env s i c m vs a = (a', res)" and "alarm_ok (lookup (sync_counters s)) a"
  shows "alarm_ok (lookup (sync_counters s)) a'" and "res = Inl e \<Longrightarrow> alm_counter a' = alm_counter a \<and> alm_state a' = alm_state a"
proof -
  let ?cs = "lookup (sync_counters s)"
  let ?r0 = "\<lparr>arg_counter = alm_counter a, arg_value_type = alm_value_type a, arg_raw_wait = alm_raw_wait a,
              arg_test_type = alm_test_type a, arg_delta = alm_delta a, arg_select = None, arg_words = vs\<rparr>"
  have r0: "args_ok ?r0" using assms(2) by (simp add: args_ok_def alarm_ok_def)
  have "alarm_ok ?cs a' \<and> (res = Inl e \<longrightarrow> alm_counter a' = alm_counter a \<and> alm_state a' = alm_state a)"
  proof (cases "read_attributes m (alarm_bits m) ?r0")
    case (Inl x)
    then show ?thesis using assms by (simp add: change_alarm_attributes_def)
  next
    case (Inr r)
    have r: "args_ok r" by (rule read_attributes_ok [OF Inr r0])
    define a1 where "a1 = (case arg_select r of Some want \<Rightarrow> select_alarm_events c want a | None \<Rightarrow> a)"
    have a1: "alarm_ok ?cs a1" "alm_counter a1 = alm_counter a" "alm_state a1 = alm_state a"
      using assms(2) by (simp_all add: a1_def select_alarm_events_ok select_alarm_events_keeps split: option.split)
    define a2 where "a2 = a1\<lparr>alm_delta := arg_delta r, alm_value_type := arg_value_type r, alm_raw_wait := arg_raw_wait r,
                     alm_test_type := arg_test_type r\<rparr>"
    have a2: "alarm_ok ?cs a2" "alm_counter a2 = alm_counter a" "alm_state a2 = alm_state a"
      using a1 r by (simp_all add: a2_def alarm_ok_def args_ok_def)
    show ?thesis
    proof (cases "m AND (CA_DELTA OR CA_TEST_TYPE) \<noteq> 0 \<and> sign_mismatch (arg_test_type r) (arg_delta r)")
      case True
      then show ?thesis using assms(1) Inr a1 by (simp add: change_alarm_attributes_def a1_def [symmetric])
    next
      case False
      then have "init_trigger env s i m r a2 = (a', res)"
        using assms(1) Inr by (simp add: change_alarm_attributes_def a1_def [symmetric] a2_def [symmetric] del: de_Morgan_conj)
      from init_trigger_ok [OF this r a2(1)] show ?thesis using a2 by auto
    qed
  qed
  then show "alarm_ok ?cs a'" and "res = Inl e \<Longrightarrow> alm_counter a' = alm_counter a \<and> alm_state a' = alm_state a" by simp_all
qed

end
