(* ===== verification/Sync_Machine.thy ===== *)
theory Sync_Machine
  imports Sync_Inv
begin

text \<open>
  Every step keeps the invariant of SYNC: the requests, a client's disconnect, fences that DRI3
  creates and Present triggers, and the passes over the system counters.
\<close>

section \<open>Changes\<close>

text \<open>A step that changes no counter and no fence, only fires alarms and resumes clients.\<close>

lemma sync_ok_frame:
  assumes ok: "sync_ok shared s" and t: "tables_ok s'"
    and same: "sync_counters s' = sync_counters s" "sync_fences s' = sync_fences s"
    and alarms: "\<And>i a. lookup (sync_alarms s') i = Some a \<Longrightarrow> alarm_ok (lookup (sync_counters s)) a \<and> counterless_inactive a"
    and awaits: "\<And>c conds. lookup (sync_awaits s') c = Some conds \<Longrightarrow> lookup (sync_awaits s) c = Some conds"
  shows "sync_ok shared s'"
proof (rule sync_okI [OF t])
  fix c conds assume "lookup (sync_awaits s') c = Some conds"
  from awaits [OF this] show "conds \<noteq> [] \<and> (\<forall>x \<in> set conds. cond_ok shared (lookup (sync_counters s')) (lookup (sync_fences s')) x)"
    using sync_okD(5,6) [OF ok] same by auto
qed (use sync_okD(2) [OF ok] alarms same in auto)

lemma sync_ok_counter_changed:
  assumes ok: "sync_ok shared s"
  shows "sync_ok shared (fst (counter_changed env k old_v new_v s))"
proof -
  note d = sync_okD [OF ok]
  show ?thesis
  proof (rule sync_ok_frame [OF ok])
    fix i a assume "lookup (sync_alarms (fst (counter_changed env k old_v new_v s))) i = Some a"
    then obtain a0 where "lookup (sync_alarms s) i = Some a0" "a = a0 \<or> a = fired_alarm new_v a0"
      by (auto simp: counter_changed_alarms [OF d(1)] split: if_splits)
    then show "alarm_ok (lookup (sync_counters s)) a \<and> counterless_inactive a"
      using d(3,4) fired_alarm_ok by blast
  qed (use d(1) in \<open>auto simp: sync_frame counter_changed_awaits split: option.splits if_splits\<close>)
qed

lemma trigger_stays_quiet: "\<not> trigger_fires tt old_v new_v w \<Longrightarrow> \<not> trigger_fires tt new_v new_v w"
  by (auto simp: trigger_fires_def split: if_splits)

text \<open>
  Writing a counter: the conditions on it that the change does not fire do not hold at the new
  value either.
\<close>

lemma sync_ok_write_counter:
  assumes ok: "sync_ok shared s" and c: "lookup (sync_counters s) k = Some c" "ctr_value c = old_v" and new: "in_i64 new_v"
  shows "sync_ok shared (fst (write_counter env k old_v new_v s))"
proof -
  note d = sync_okD [OF ok]
  let ?s = "s\<lparr>sync_counters := modify_key k (ctr_value_update (\<lambda>_. new_v)) (sync_counters s)\<rparr>"
  have t: "tables_ok ?s" using d(1) by simp
  have [simp]: "lookup (sync_counters ?s) j = None \<longleftrightarrow> lookup (sync_counters s) j = None" for j using c by simp
  have alarm: "alarm_ok (lookup (sync_counters ?s)) a \<longleftrightarrow> alarm_ok (lookup (sync_counters s)) a" for a
    by (simp add: alarm_ok_def)
  have cond: "cond_ok shared (lookup (sync_counters ?s)) fs x"
    if "cond_ok shared (lookup (sync_counters s)) fs x" "\<not> fires_on_change k old_v new_v x" for fs x
    using that c trigger_stays_quiet by (cases x) (auto split: if_splits option.splits)
  show ?thesis
  proof (rule sync_okI)
    show "tables_ok (fst (write_counter env k old_v new_v s))" using t by (simp add: write_counter_def)
  next
    fix i c' assume "lookup (sync_counters (fst (write_counter env k old_v new_v s))) i = Some c'"
    then show "in_i64 (ctr_value c')" using d(2) new by (auto simp: write_counter_def sync_frame split: if_splits)
  next
    fix i a assume "lookup (sync_alarms (fst (write_counter env k old_v new_v s))) i = Some a"
    then obtain a0 where "lookup (sync_alarms s) i = Some a0" "a = a0 \<or> a = fired_alarm new_v a0"
      by (auto simp: write_counter_def counter_changed_alarms [OF t] split: if_splits)
    then show "alarm_ok (lookup (sync_counters (fst (write_counter env k old_v new_v s)))) a \<and> counterless_inactive a"
      using d(3,4) fired_alarm_ok alarm by (simp add: write_counter_def sync_frame) blast
  next
    fix cl conds assume "lookup (sync_awaits (fst (write_counter env k old_v new_v s))) cl = Some conds"
    then have "lookup (sync_awaits s) cl = Some conds" "\<not> list_ex (fires_on_change k old_v new_v) conds"
      by (auto simp: write_counter_def counter_changed_awaits [OF t] split: option.splits if_splits)
    then show "conds \<noteq> [] \<and> (\<forall>x \<in> set conds. cond_ok shared (lookup (sync_counters (fst (write_counter env k old_v new_v s))))
        (lookup (sync_fences (fst (write_counter env k old_v new_v s)))) x)"
      using d(5,6) cond by (auto simp: write_counter_def sync_frame list_ex_iff)
  qed
qed

text \<open>Removing a counter: nothing names it any more.\<close>

lemma sync_ok_remove_counter:
  assumes ok: "sync_ok shared s"
  shows "sync_ok shared (fst (remove_counter env (k, v) s))"
proof -
  note d = sync_okD [OF ok]
  let ?s = "s\<lparr>sync_counters := remove_key k (sync_counters s)\<rparr>"
  let ?t = "fst (remove_counter env (k, v) s)"
  have t: "tables_ok ?s" using d(1) by simp
  have cs: "lookup (sync_counters ?t) = (lookup (sync_counters s))(k := None)" "sync_fences ?t = sync_fences s"
    by (rule ext, simp add: remove_counter_def sync_frame, simp add: remove_counter_def sync_frame)
  show ?thesis
  proof (rule sync_okI)
    show "tables_ok ?t" using t by (simp add: remove_counter_def)
  next
    fix i c assume "lookup (sync_counters ?t) i = Some c"
    then show "in_i64 (ctr_value c)" using d(2) by (auto simp: cs split: if_splits)
  next
    fix i a assume "lookup (sync_alarms ?t) i = Some a"
    then obtain a0 where a0: "lookup (sync_alarms s) i = Some a0" "a = (if alm_counter a0 = k then deactivated a0 else a0)"
      by (auto simp: remove_counter_def counter_destroyed_alarms [OF t])
    have "alarm_ok (lookup (sync_counters s)) a0" "counterless_inactive a0" using d(3,4) a0 by blast+
    then show "alarm_ok (lookup (sync_counters ?t)) a \<and> counterless_inactive a"
      using a0(2) by (auto simp: cs alarm_ok_def counterless_inactive_def deactivated_def split: if_splits)
  next
    fix cl conds assume "lookup (sync_awaits ?t) cl = Some conds"
    then have c: "lookup (sync_awaits s) cl = Some conds" "\<not> list_ex (on_counter k) conds"
      by (auto simp: remove_counter_def counter_destroyed_awaits [OF t] split: option.splits if_splits)
    have "cond_ok shared (lookup (sync_counters ?t)) (lookup (sync_fences ?t)) x" if "x \<in> set conds" for x
      using d(6) [OF c(1) that] c(2) that by (cases x) (auto simp: cs list_ex_iff)
    then show "conds \<noteq> [] \<and> (\<forall>x \<in> set conds. cond_ok shared (lookup (sync_counters ?t)) (lookup (sync_fences ?t)) x)"
      using d(5) c(1) by blast
  qed
qed

text \<open>Fences.\<close>

lemma sync_ok_fences:
  assumes ok: "sync_ok shared s" and t: "tables_ok s'"
    and same: "sync_counters s' = sync_counters s" "sync_alarms s' = sync_alarms s"
    and awaits: "\<And>c conds. lookup (sync_awaits s') c = Some conds \<Longrightarrow> lookup (sync_awaits s) c = Some conds"
    and fences: "\<And>c conds f. lookup (sync_awaits s') c = Some conds \<Longrightarrow> FenceCond f \<in> set conds \<Longrightarrow>
       cond_ok shared (lookup (sync_counters s)) (lookup (sync_fences s')) (FenceCond f)"
  shows "sync_ok shared s'"
proof (rule sync_okI)
  note d = sync_okD [OF ok]
  fix c conds assume c: "lookup (sync_awaits s') c = Some conds"
  have "cond_ok shared (lookup (sync_counters s)) (lookup (sync_fences s')) x" if "x \<in> set conds" for x
    using d(6) [OF awaits [OF c] that] fences [OF c] that by (cases x) auto
  then show "conds \<noteq> [] \<and> (\<forall>x \<in> set conds. cond_ok shared (lookup (sync_counters s')) (lookup (sync_fences s')) x)"
    using d(5) awaits [OF c] same by auto
qed (use sync_okD [OF ok] t same in auto)

lemma sync_ok_fence_triggered:
  assumes ok: "sync_ok shared s"
  shows "sync_ok shared (fst (fence_triggered env f s))"
proof -
  note d = sync_okD [OF ok]
  show ?thesis
  proof (rule sync_ok_fences [OF ok])
    fix c conds g assume "lookup (sync_awaits (fst (fence_triggered env f s))) c = Some conds" and g: "FenceCond g \<in> set conds"
    then have c: "lookup (sync_awaits s) c = Some conds" "lookup (sync_fences s) f \<noteq> None \<Longrightarrow> \<not> list_ex (on_fence f) conds"
      by (auto simp: fence_triggered_awaits [OF d(1)] split: option.splits if_splits)
    have "cond_ok shared (lookup (sync_counters s)) (lookup (sync_fences s)) (FenceCond g)" by (rule d(6) [OF c(1) g])
    then show "cond_ok shared (lookup (sync_counters s)) (lookup (sync_fences (fst (fence_triggered env f s)))) (FenceCond g)"
      using c(2) bspec [OF _ g, of "\<lambda>x. \<not> on_fence f x"] by (auto simp: fence_triggered_fences list_ex_iff split: option.splits)
  qed (use d(1) in \<open>auto simp: sync_frame fence_triggered_awaits split: option.splits if_splits\<close>)
qed

lemma sync_ok_remove_fence:
  assumes ok: "sync_ok shared s"
  shows "sync_ok shared (fst (remove_fence env f s))"
proof -
  note d = sync_okD [OF ok]
  show ?thesis
  proof (rule sync_ok_fences [OF ok])
    fix c conds g assume "lookup (sync_awaits (fst (remove_fence env f s))) c = Some conds" and g: "FenceCond g \<in> set conds"
    then have c: "lookup (sync_awaits s) c = Some conds" "\<not> list_ex (on_fence f) conds"
      by (auto simp: remove_fence_awaits [OF d(1)] split: option.splits if_splits)
    have "cond_ok shared (lookup (sync_counters s)) (lookup (sync_fences s)) (FenceCond g)" by (rule d(6) [OF c(1) g])
    then show "cond_ok shared (lookup (sync_counters s)) (lookup (sync_fences (fst (remove_fence env f s)))) (FenceCond g)"
      using c(2) bspec [OF _ g, of "\<lambda>x. \<not> on_fence f x"] by (auto simp: remove_fence_fences list_ex_iff split: option.splits)
  qed (use d(1) in \<open>auto simp: sync_frame remove_fence_awaits split: option.splits if_splits\<close>)
qed

lemma sync_ok_insert_fence:
  assumes ok: "sync_ok shared s" and "lookup (sync_fences s) f = None"
  shows "sync_ok shared (insert_fence c f b s)"
proof (rule sync_ok_fences [OF ok])
  fix cl conds g assume "lookup (sync_awaits (insert_fence c f b s)) cl = Some conds" "FenceCond g \<in> set conds"
  then have "cond_ok shared (lookup (sync_counters s)) (lookup (sync_fences s)) (FenceCond g)"
    using sync_okD(6) [OF ok] by (auto simp: insert_fence_def simp del: cond_ok.simps)
  then show "cond_ok shared (lookup (sync_counters s)) (lookup (sync_fences (insert_fence c f b s))) (FenceCond g)"
    using assms(2) by (auto simp: insert_fence_def split: option.splits)
qed (use sync_okD(1) [OF ok] in \<open>auto simp: insert_fence_def\<close>)

lemma sync_ok_reset_fence:
  assumes ok: "sync_ok shared s"
  shows "sync_ok shared (s\<lparr>sync_fences := modify_key f (fnc_triggered_update (\<lambda>_. False)) (sync_fences s)\<rparr>)"
proof (rule sync_ok_fences [OF ok])
  let ?s = "s\<lparr>sync_fences := modify_key f (fnc_triggered_update (\<lambda>_. False)) (sync_fences s)\<rparr>"
  fix cl conds g assume "lookup (sync_awaits ?s) cl = Some conds" "FenceCond g \<in> set conds"
  then have "cond_ok shared (lookup (sync_counters s)) (lookup (sync_fences s)) (FenceCond g)"
    using sync_okD(6) [OF ok] by (auto simp del: cond_ok.simps)
  then show "cond_ok shared (lookup (sync_counters s)) (lookup (sync_fences ?s)) (FenceCond g)"
    by (auto split: option.splits)
qed (use sync_okD(1) [OF ok] in auto)

section \<open>Awaits\<close>

lemma read_system_counter_frame [sync_frame]:
  "sync_counters (read_system_counter env x s) = sync_counters s" "sync_alarms (read_system_counter env x s) = sync_alarms s"
  "sync_fences (read_system_counter env x s) = sync_fences s" "sync_awaits (read_system_counter env x s) = sync_awaits s"
  by (cases x; simp)+

lemma read_system_counters_frame [sync_frame]:
  "sync_counters (fold (read_system_counter env) xs s) = sync_counters s"
  "sync_alarms (fold (read_system_counter env) xs s) = sync_alarms s"
  "sync_fences (fold (read_system_counter env) xs s) = sync_fences s"
  "sync_awaits (fold (read_system_counter env) xs s) = sync_awaits s"
  by (induction xs arbitrary: s) (simp_all add: sync_frame)

text \<open>A condition that may be awaited: what it names exists and its test is a test.\<close>

fun cond_names :: "sync_env \<Rightarrow> sync_state \<Rightarrow> sync_await_condition \<Rightarrow> bool" where
  "cond_names env s (CounterCond c test_type _ _) = (test_type \<le> TEST_NEGATIVE_COMPARISON \<and> counter_value env s c \<noteq> None)"
| "cond_names env s (FenceCond f) = (lookup (sync_fences s) f \<noteq> None)"

lemma quiet_cond_ok:
  assumes "env_ok shared env" and "cond_names env s x" and "\<not> holds_now env s x"
  shows "cond_ok shared (lookup (sync_counters s)) (lookup (sync_fences s)) x"
  using assms by (cases x)
    (auto simp: env_ok_def counter_value_def is_system_counter_def fence_is_triggered_def split: if_splits option.splits)

lemma same_tables_holds:
  assumes "sync_counters s' = sync_counters s" and "sync_fences s' = sync_fences s"
  shows "holds_now env s' x = holds_now env s x"
proof -
  have "counter_value env s' k = counter_value env s k" for k by (simp add: counter_value_def assms(1))
  moreover have "fence_is_triggered env s' f = fence_is_triggered env s f" for f unfolding fence_is_triggered_def assms(2) by (rule refl)
  ultimately show ?thesis by (cases x) simp_all
qed

lemma sync_ok_begin_await:
  assumes ok: "sync_ok shared s" and env: "env_ok shared env" and ne: "conds \<noteq> []" and names: "\<forall>x \<in> set conds. cond_names env s x"
  shows "sync_ok shared (fst (begin_await env c conds s))"
proof -
  note d = sync_okD [OF ok]
  define s1 where "s1 = fold (read_system_counter env) conds s"
  define s2 where "s2 = s1\<lparr>sync_awaits := insert_key c conds (sync_awaits s1)\<rparr>"
  have f: "sync_counters s1 = sync_counters s" "sync_alarms s1 = sync_alarms s" "sync_fences s1 = sync_fences s" "sync_awaits s1 = sync_awaits s"
    by (simp_all add: s1_def sync_frame)
  have t1: "tables_ok s1" using d(1) f unfolding tables_ok_def by simp
  have t2: "tables_ok s2" using t1 by (simp add: s2_def)
  show ?thesis
  proof (cases "list_ex (holds_now env s1) conds")
    case True
    then have r: "fst (begin_await env c conds s) = fst (fire_await env None c s2)"
      by (simp add: begin_await_def Let_def s1_def [symmetric] s2_def [symmetric])
    have t3: "tables_ok (fst (fire_await env None c s2))" using tables_ok_sweep(1) [OF t2, of env None "[c]"] by (simp add: Let_def)
    show ?thesis unfolding r
      by (rule sync_ok_frame [OF ok t3]) (use d(3,4) in \<open>auto simp: sync_frame fire_await_awaits s2_def f split: if_splits\<close>)
  next
    case False
    then have r: "fst (begin_await env c conds s) = s2"
      by (simp add: begin_await_def Let_def s1_def [symmetric] s2_def [symmetric])
    have "cond_ok shared (lookup (sync_counters s)) (lookup (sync_fences s)) x" if "x \<in> set conds" for x
      using quiet_cond_ok [OF env] names that False same_tables_holds [OF f(1,3)] by (auto simp: list_ex_iff)
    then show ?thesis unfolding r
      by (intro sync_okI) (use d t2 ne in \<open>auto simp: s2_def f split: if_splits\<close>)
  qed
qed

lemma resolve_wait_names: "resolve_wait env s w = Inr x \<Longrightarrow> cond_names env s x"
  by (auto simp: resolve_wait_def and_then_Inr split: option.splits if_splits)

lemma resolve_waits_names: "resolve_waits env s ws = Inr xs \<Longrightarrow> length xs = length ws \<and> (\<forall>x \<in> set xs. cond_names env s x)"
  by (induction ws arbitrary: xs) (auto simp: and_then_Inr dest: resolve_wait_names)

end
