(* ===== verification/Sync_Runs.thy ===== *)
theory Sync_Runs
  imports Sync_Machine
begin

text \<open>
  The SYNC machine: what the server does to the state of SYNC, and that every reachable state
  satisfies the invariant. New counters and fences have identifiers that are not in use, which
  the protocol asks of clients and \<open>CreateCounter\<close> and \<open>CreateFence\<close> do not check.
\<close>

section \<open>Requests\<close>

lemma sync_ok_fire_new:
  assumes ok: "sync_ok shared s" and a: "alarm_ok (lookup (sync_counters s)) a"
  shows "sync_ok shared (fst (alarm_trigger_fired env v i (s\<lparr>sync_alarms := insert_key i a (sync_alarms s), sync_servertime_last := t\<rparr>)))"
proof (rule sync_ok_frame [OF ok])
  let ?s = "s\<lparr>sync_alarms := insert_key i a (sync_alarms s), sync_servertime_last := t\<rparr>"
  show "tables_ok (fst (alarm_trigger_fired env v i ?s))"
    using tables_ok_sweep(2) [of ?s env v "[i]"] sync_okD(1) [OF ok] by (simp add: Let_def)
  fix j b assume "lookup (sync_alarms (fst (alarm_trigger_fired env v i ?s))) j = Some b"
  then have "b = fired_alarm v a \<or> lookup (sync_alarms s) j = Some b"
    by (auto simp: alarm_trigger_fired_alarms split: if_splits)
  then show "alarm_ok (lookup (sync_counters s)) b \<and> counterless_inactive b"
    using fired_alarm_ok [OF a] sync_okD(3,4) [OF ok] by blast
qed (simp_all add: sync_frame)

lemma sync_ok_put_alarm:
  assumes ok: "sync_ok shared s" and "alarm_ok (lookup (sync_counters s)) a" and "counterless_inactive a"
  shows "sync_ok shared (s\<lparr>sync_alarms := insert_key i a (sync_alarms s), sync_servertime_last := t\<rparr>)"
  by (rule sync_ok_frame [OF ok]) (use assms(2,3) sync_okD [OF ok] in \<open>auto split: if_splits\<close>)

lemma same_servertime: "s = s\<lparr>sync_servertime_last := sync_servertime_last s\<rparr>" for s :: sync_state
  by simp

lemma put_alarm_keeps_clock:
  "s\<lparr>sync_alarms := as\<rparr> = s\<lparr>sync_alarms := as, sync_servertime_last := sync_servertime_last s\<rparr>" for s :: sync_state
  by simp

lemma sync_ok_check_new:
  assumes ok: "sync_ok shared s" and a: "alarm_ok (lookup (sync_counters s)) a" and k: "alm_counter a \<noteq> 0"
  shows "sync_ok shared (fst (check_new_alarm_trigger env i k (s\<lparr>sync_alarms := insert_key i a (sync_alarms s)\<rparr>)))"
proof -
  have c: "counterless_inactive a" using k by (simp add: counterless_inactive_def)
  have "\<exists>v t. fst (check_new_alarm_trigger env i k (s\<lparr>sync_alarms := insert_key i a (sync_alarms s)\<rparr>))
      \<in> {fst (alarm_trigger_fired env v i (s\<lparr>sync_alarms := insert_key i a (sync_alarms s), sync_servertime_last := t\<rparr>)),
         s\<lparr>sync_alarms := insert_key i a (sync_alarms s), sync_servertime_last := t\<rparr>}"
    unfolding check_new_alarm_trigger_def Let_def
    by (auto split: if_splits) (metis put_alarm_keeps_clock)+
  then show ?thesis using sync_ok_fire_new [OF ok a] sync_ok_put_alarm [OF ok a c] by (auto simp del: insert_iff)
qed

lemma new_alarm_ok: "alarm_ok cs (new_alarm c)" "counterless_inactive (new_alarm c)"
  by (simp_all add: new_alarm_def sync_alarm_default_def alarm_ok_def counterless_inactive_def in_i64_def test_types)

lemma sync_ok_create_alarm: "sync_ok shared s \<Longrightarrow> sync_ok shared (fst (create_alarm env c body s))"
proof -
  assume ok: "sync_ok shared s"
  show ?thesis
  proof (cases "\<exists>i m a. parse_alarm_with_mask body = Some (i, m) \<and> length body = alarm_request_len m
      \<and> change_alarm_attributes env s i c m (alarm_value_words body) (new_alarm c) = (a, Inr ())")
    case True
    then obtain i m a where p: "parse_alarm_with_mask body = Some (i, m)" "length body = alarm_request_len m"
      and ch: "change_alarm_attributes env s i c m (alarm_value_words body) (new_alarm c) = (a, Inr ())" by blast
    note a = change_alarm_attributes_ok(1) [OF ch new_alarm_ok(1)]
    have inactive: "alarm_ok (lookup (sync_counters s)) (a\<lparr>alm_state := ALARM_STATE_INACTIVE\<rparr>)"
      "counterless_inactive (a\<lparr>alm_state := ALARM_STATE_INACTIVE\<rparr>)"
      using a by (simp_all add: alarm_ok_def counterless_inactive_def)
    show ?thesis
      using p ch sync_ok_check_new [OF ok a] sync_ok_put_alarm [OF ok inactive, where i = i and t = "sync_servertime_last s"]
      by (simp add: create_alarm_def done_with_def)
  next
    case False
    then have "fst (create_alarm env c body s) = s"
      by (auto simp: create_alarm_def refused_def split: option.splits prod.splits sum.splits)
    then show ?thesis using ok by simp
  qed
qed

lemma sync_ok_change_alarm: "sync_ok shared s \<Longrightarrow> sync_ok shared (fst (change_alarm env c body s))"
proof -
  assume ok: "sync_ok shared s"
  show ?thesis
  proof (cases "\<exists>i m a0. parse_alarm_with_mask body = Some (i, m) \<and> lookup (sync_alarms s) i = Some a0 \<and> length body = alarm_request_len m")
    case True
    then obtain i m a0 where p: "parse_alarm_with_mask body = Some (i, m)" "length body = alarm_request_len m"
      and a0: "lookup (sync_alarms s) i = Some a0" by blast
    obtain a res where ch: "change_alarm_attributes env s i c m (alarm_value_words body) a0 = (a, res)" by force
    note a = change_alarm_attributes_ok [OF ch sync_okD(3) [OF ok a0]]
    show ?thesis
    proof (cases res)
      case (Inl e)
      then have "counterless_inactive a" using a(2) sync_okD(4) [OF ok a0] by (simp add: counterless_inactive_def)
      then show ?thesis using p a0 ch Inl sync_ok_put_alarm [OF ok a(1), where i = i and t = "sync_servertime_last s"]
        by (simp add: change_alarm_def found_def sync_known_alarm_def refused_def)
    next
      case (Inr u)
      then show ?thesis using p a0 ch sync_ok_check_new [OF ok a(1)] sync_ok_fire_new [OF ok a(1), where env = env and v = 0 and i = i and t = "sync_servertime_last s"]
        by (simp add: change_alarm_def found_def sync_known_alarm_def done_with_def Let_def)
    qed
  next
    case False
    then have "fst (change_alarm env c body s) = s"
      by (auto simp: change_alarm_def found_def sync_known_alarm_def refused_def split: option.splits prod.splits sum.splits)
    then show ?thesis using ok by simp
  qed
qed

lemma sync_ok_destroy_alarm: "sync_ok shared s \<Longrightarrow> sync_ok shared (fst (destroy_alarm env i s))"
proof (rule sync_ok_frame)
  assume ok: "sync_ok shared s"
  show "tables_ok (fst (destroy_alarm env i s))"
    using tables_ok_sweep(4) [OF sync_okD(1) [OF ok], of env "[i]"] by (simp add: Let_def)
  fix j a assume "lookup (sync_alarms (fst (destroy_alarm env i s))) j = Some a"
  then show "alarm_ok (lookup (sync_counters s)) a \<and> counterless_inactive a"
    using sync_okD(3,4) [OF ok] by (auto simp: destroy_alarm_alarms split: if_splits)
qed (auto simp: sync_frame)

lemma sync_ok_create_counter:
  assumes ok: "sync_ok shared s" and fresh: "\<And>k v. parse_counter_value body = Some (k, v) \<Longrightarrow> lookup (sync_counters s) k = None"
  shows "sync_ok shared (fst (create_counter c body s))"
proof (cases "parse_counter_value body")
  case (Some kv)
  obtain k v where kv: "kv = (k, v)" by force
  note f = fresh [OF Some [unfolded kv]]
  note d = sync_okD [OF ok]
  let ?c = "\<lparr>ctr_owner = c, ctr_value = v\<rparr>"
  have v: "in_i64 v" using Some kv by (auto simp: parse_counter_value_def read_i64_def split: if_splits)
  have cond: "cond_ok shared ((lookup (sync_counters s))(k \<mapsto> ?c)) fs x" if "cond_ok shared (lookup (sync_counters s)) fs x" for fs x
    using that f by (cases x) (auto split: option.splits)
  have alarm: "alarm_ok ((lookup (sync_counters s))(k \<mapsto> ?c)) a" if "alarm_ok (lookup (sync_counters s)) a" for a
    using that by (auto simp: alarm_ok_def)
  have r: "fst (create_counter c body s) = s\<lparr>sync_counters := insert_key k ?c (sync_counters s)\<rparr>"
    using Some kv by (simp add: create_counter_def)
  show ?thesis unfolding r
    by (rule sync_okI) (use d v in \<open>auto split: if_splits intro: cond alarm\<close>)
qed (simp add: create_counter_def ok)

definition fresh_request :: "u8 \<Rightarrow> u8 list \<Rightarrow> sync_state \<Rightarrow> bool" where
  "fresh_request minor body s \<longleftrightarrow>
     (minor = CREATE_COUNTER \<longrightarrow> (case parse_counter_value body of Some (k, _) \<Rightarrow> lookup (sync_counters s) k = None | None \<Rightarrow> True))
     \<and> (minor = CREATE_FENCE \<longrightarrow> (case parse_create_fence body of Some r \<Rightarrow> lookup (sync_fences s) (cf_fence r) = None | None \<Rightarrow> True))"

lemma found_ok: "sync_ok shared s \<Longrightarrow> (\<And>x. r = Inr x \<Longrightarrow> sync_ok shared (fst (f x))) \<Longrightarrow> sync_ok shared (fst (found s r f))"
  by (simp add: found_def refused_def split: sum.split)

lemma with_fence_ok: "sync_ok shared s \<Longrightarrow> (\<And>x. sync_ok shared (fst (f x))) \<Longrightarrow> sync_ok shared (fst (with_fence body s f))"
  by (simp add: with_fence_def found_ok split: option.split)

lemma parse_counter_value_in: "parse_counter_value body = Some (k, v) \<Longrightarrow> in_i64 v"
  by (auto simp: parse_counter_value_def read_i64_def split: if_splits)

lemma writable_counter: "sync_writable_counter s k = Inr v \<Longrightarrow> \<exists>c. lookup (sync_counters s) k = Some c \<and> ctr_value c = v"
  by (auto simp: sync_writable_counter_def split: if_splits option.splits)

lemma sync_ok_write_request:
  assumes "sync_ok shared s" and "sync_writable_counter s k = Inr old_v" and "in_i64 new_v"
  shows "sync_ok shared (fst (write_counter env k old_v new_v s))"
  using assms writable_counter [OF assms(2)] sync_ok_write_counter by blast

lemma sync_ok_await:
  assumes ok: "sync_ok shared s" and env: "env_ok shared env"
  shows "sync_ok shared (fst (await env bo c body s))"
  unfolding await_def
  by (auto simp: refused_def done_with_def ok split: option.split
      intro!: found_ok sync_ok_begin_await [OF ok env] dest!: resolve_waits_names)

lemma sync_ok_await_fence:
  assumes ok: "sync_ok shared s" and env: "env_ok shared env"
  shows "sync_ok shared (fst (await_fence env bo c body s))"
  unfolding await_fence_def
  by (auto simp: refused_def done_with_def ok filter_empty_conv split: option.split list.split intro!: sync_ok_begin_await [OF ok env])

lemma sync_ok_request:
  assumes ok: "sync_ok shared s" and env: "env_ok shared env" and fresh: "fresh_request minor body s"
  shows "sync_ok shared (fst (handle_sync_request env client c sq minor body s))"
proof -
  have reply: "sync_ok shared (fst (reply_to client bytes s))" for bytes using ok by (simp add: reply_to_def)
  have setc: "sync_ok shared (fst (set_counter env body s))"
    unfolding set_counter_def
    by (auto simp: done_with_def ok split: option.split intro!: found_ok sync_ok_write_request dest: parse_counter_value_in)
  have changec: "sync_ok shared (fst (change_counter env body s))"
    unfolding change_counter_def
    by (auto simp: done_with_def ok refused_def split: option.split intro!: found_ok sync_ok_write_request dest: checked_add_in)
  have queryc: "sync_ok shared (fst (query_counter env client bo sq body s))" for bo
    using ok reply by (simp add: query_counter_def Let_def refused_def split: option.split)
  have destroyc: "sync_ok shared (fst (destroy_counter env body s))"
    using sync_ok_remove_counter [OF ok, of env]
    by (auto simp: destroy_counter_def done_with_def ok remove_counter_def split: option.split intro!: found_ok)
  have querya: "sync_ok shared (fst (query_alarm client bo sq body s))" for bo
    using ok reply by (auto simp: query_alarm_def Let_def refused_def intro!: found_ok)
  have destroya: "sync_ok shared (fst (destroy_alarm_request env body s))"
    using sync_ok_destroy_alarm [OF ok] by (auto simp: destroy_alarm_request_def Let_def refused_def done_with_def ok intro!: found_ok)
  have destroyf: "sync_ok shared (fst (destroy_fence env body s))"
    using sync_ok_remove_fence [OF ok] by (auto simp: destroy_fence_def done_with_def intro!: with_fence_ok ok)
  have triggerf: "sync_ok shared (fst (trigger_fence env body s))"
    using sync_ok_fence_triggered [OF ok] by (auto simp: trigger_fence_def done_with_def intro!: with_fence_ok ok)
  have resetf: "sync_ok shared (fst (reset_fence env body s))"
    using sync_ok_reset_fence [OF ok] by (auto simp: reset_fence_def refused_def ok intro!: with_fence_ok)
  have queryf: "sync_ok shared (fst (query_fence env client bo sq body s))" for bo
    using ok reply by (auto simp: query_fence_def Let_def intro!: found_ok)
  have createc: "sync_ok shared (fst (create_counter c body s))" if "minor = CREATE_COUNTER"
    using fresh that by (intro sync_ok_create_counter [OF ok]) (auto simp: fresh_request_def)
  have createf: "sync_ok shared (fst (create_fence c body s))" if "minor = CREATE_FENCE"
    using fresh that sync_ok_insert_fence [OF ok] by (auto simp: fresh_request_def create_fence_def ok split: option.split)
  note all = reply setc changec queryc destroyc querya destroya destroyf triggerf resetf queryf createc createf
    sync_ok_await [OF ok env] sync_ok_await_fence [OF ok env] sync_ok_create_alarm [OF ok] sync_ok_change_alarm [OF ok]
  show ?thesis unfolding handle_sync_request_def Let_def by (simp add: all ok refused_def)
qed

section \<open>Clocks\<close>

lemma sync_ok_clocks [simp]:
  "sync_ok shared (s\<lparr>sync_servertime_last := t\<rparr>) = sync_ok shared s"
  "sync_ok shared (s\<lparr>idletime_last_evaluated := l\<rparr>) = sync_ok shared s"
  unfolding sync_ok_def tables_ok_def by simp_all

lemma sync_ok_evaluate_servertime: "sync_ok shared s \<Longrightarrow> sync_ok shared (fst (evaluate_servertime env s))"
  by (simp add: evaluate_servertime_def Let_def sync_ok_counter_changed)

lemma sync_ok_evaluate_idletime: "sync_ok shared s \<Longrightarrow> sync_ok shared (fst (evaluate_idletime env k s))"
  by (simp add: evaluate_idletime_def Let_def sync_ok_counter_changed)

lemma sync_ok_post_poll: "sync_ok shared s \<Longrightarrow> sync_ok shared (fst (evaluate_idletime_alarms_post_poll env b s))"
  unfolding evaluate_idletime_alarms_post_poll_def
  using for_each_inv [of "sync_ok shared" "evaluate_idletime env", OF sync_ok_evaluate_idletime] by (simp del: for_each.simps)

lemma sync_ok_idle_reset: "sync_ok shared s \<Longrightarrow> sync_ok shared (fst (idle_reset env k v s))"
  by (simp add: idle_reset_def Let_def sync_ok_counter_changed)

lemma sync_ok_input_wake:
  "sync_ok shared s \<Longrightarrow> sync_ok shared (fst (evaluate_idletime_negative_alarms_on_input_wake env b dev g l s))"
  by (simp add: evaluate_idletime_negative_alarms_on_input_wake_def sync_ok_idle_reset)

section \<open>Disconnect\<close>

lemma sync_ok_release_alarms:
  assumes ok: "sync_ok shared s"
  shows "sync_ok shared (fst (release_client_alarms env c s))"
proof -
  let ?s = "s\<lparr>sync_alarms := modify_values (\<lambda>a. a\<lparr>alm_event_clients := filter (\<lambda>x. x \<noteq> c) (alm_event_clients a)\<rparr>) (sync_alarms s)\<rparr>"
  have "sync_ok shared ?s"
    by (rule sync_ok_frame [OF ok])
      (use sync_okD(1) [OF ok] in \<open>auto simp: alarm_ok_def counterless_inactive_def dest: sync_okD(3,4) [OF ok]\<close>)
  then show ?thesis
    unfolding release_client_alarms_def Let_def by (rule for_each_inv [rotated]) (rule sync_ok_destroy_alarm)
qed

lemma sync_ok_disconnect:
  assumes ok: "sync_ok shared s"
  shows "sync_ok shared (fst (disconnect_sync env c s))"
proof -
  have "sync_ok shared (s\<lparr>sync_awaits := remove_key c (sync_awaits s)\<rparr>)"
    by (rule sync_ok_frame [OF ok]) (use sync_okD [OF ok] in \<open>auto split: if_splits\<close>)
  then have "sync_ok shared (fst (release_client_alarms env c (s\<lparr>sync_awaits := remove_key c (sync_awaits s)\<rparr>)))"
    by (rule sync_ok_release_alarms)
  then show ?thesis unfolding disconnect_sync_def Let_def fst_followed_by
    by (intro for_each_inv [where P = "sync_ok shared"]) (auto intro: sync_ok_remove_fence sync_ok_remove_counter)
qed

text \<open>What a disconnect leaves: the loop over the client's counters.\<close>

lemma remove_counter_frame [sync_frame]: "sync_fences (fst (remove_counter env cv s)) = sync_fences s"
  by (simp add: remove_counter_def sync_frame)

lemma remove_counter_counters: "sync_counters (fst (remove_counter env cv s)) = remove_key (fst cv) (sync_counters s)"
  by (simp add: remove_counter_def sync_frame)

lemma remove_counter_tables [simp]: "tables_ok s \<Longrightarrow> tables_ok (fst (remove_counter env cv s))"
  by (simp add: remove_counter_def)

lemma remove_counter_awaits:
  assumes "tables_ok s"
  shows "lookup (sync_awaits (fst (remove_counter env cv s))) c =
     (case lookup (sync_awaits s) c of Some conds \<Rightarrow> if list_ex (on_counter (fst cv)) conds then None else Some conds | None \<Rightarrow> None)"
  using assms by (simp add: remove_counter_def counter_destroyed_awaits)

lemma remove_counter_alarms:
  assumes "tables_ok s"
  shows "lookup (sync_alarms (fst (remove_counter env cv s))) i =
     map_option (\<lambda>a. if alm_counter a = fst cv then deactivated a else a) (lookup (sync_alarms s) i)"
  using assms by (simp add: remove_counter_def counter_destroyed_alarms)

lemma remove_counters_tables: "tables_ok s \<Longrightarrow> tables_ok (fst (for_each (remove_counter env) cvs s))"
  by (rule for_each_inv) simp_all

lemma remove_counters_fences: "sync_fences (fst (for_each (remove_counter env) cvs s)) = sync_fences s"
  by (rule for_each_keeps) (simp add: sync_frame)

lemma remove_counters_counters:
  "lookup (sync_counters (fst (for_each (remove_counter env) cvs s))) k = (if k \<in> fst ` set cvs then None else lookup (sync_counters s) k)"
  by (induction cvs arbitrary: s) (auto simp: Let_def remove_counter_counters)

lemma remove_counters_awaits:
  "tables_ok s \<Longrightarrow> lookup (sync_awaits (fst (for_each (remove_counter env) cvs s))) c =
       (case lookup (sync_awaits s) c of None \<Rightarrow> None
        | Some conds \<Rightarrow> if list_ex (\<lambda>x. \<exists>k \<in> fst ` set cvs. on_counter k x) conds then None else Some conds)"
proof (induction cvs arbitrary: s)
  case (Cons cv cvs)
  then show ?case by (auto simp: Let_def remove_counter_awaits list_ex_iff split: option.splits if_splits)
qed (simp add: list_ex_iff split: option.split)

lemma remove_counters_alarms:
  "tables_ok s \<Longrightarrow> lookup (sync_alarms (fst (for_each (remove_counter env) cvs s))) i =
       map_option (\<lambda>a. if alm_counter a \<in> fst ` set cvs then deactivated a else a) (lookup (sync_alarms s) i)"
proof (induction cvs arbitrary: s)
  case (Cons cv cvs)
  then show ?case by (cases "lookup (sync_alarms s) i") (auto simp: Let_def remove_counter_alarms deactivated_def)
qed (simp add: option.map_ident)

lemma remove_fences:
  assumes "tables_ok s"
  shows "sync_counters (fst (for_each (remove_fence env) fs s)) = sync_counters s"
    and "sync_alarms (fst (for_each (remove_fence env) fs s)) = sync_alarms s"
    and "lookup (sync_awaits (fst (for_each (remove_fence env) fs s))) c =
       (case lookup (sync_awaits s) c of None \<Rightarrow> None
        | Some conds \<Rightarrow> if list_ex (\<lambda>x. \<exists>f \<in> set fs. on_fence f x) conds then None else Some conds)"
proof -
  show "sync_counters (fst (for_each (remove_fence env) fs s)) = sync_counters s"
    "sync_alarms (fst (for_each (remove_fence env) fs s)) = sync_alarms s"
    by (rule for_each_keeps, simp add: sync_frame)+
  show "lookup (sync_awaits (fst (for_each (remove_fence env) fs s))) c =
       (case lookup (sync_awaits s) c of None \<Rightarrow> None
        | Some conds \<Rightarrow> if list_ex (\<lambda>x. \<exists>f \<in> set fs. on_fence f x) conds then None else Some conds)"
    using assms
  proof (induction fs arbitrary: s)
    case (Cons f fs)
    then show ?case using Cons.IH [of "fst (remove_fence env f s)"]
      by (auto simp: Let_def remove_fence_awaits list_ex_iff split: option.splits if_splits)
  qed (simp add: list_ex_iff split: option.split)
qed

definition counter_of :: "u32 \<Rightarrow> sync_state \<Rightarrow> u32 \<Rightarrow> bool" where
  "counter_of client s k \<longleftrightarrow> (case lookup (sync_counters s) k of Some c \<Rightarrow> ctr_owner c = client | None \<Rightarrow> False)"

definition fence_of :: "u32 \<Rightarrow> sync_state \<Rightarrow> u32 \<Rightarrow> bool" where
  "fence_of client s f \<longleftrightarrow> (case lookup (sync_fences s) f of Some fnc \<Rightarrow> fnc_owner fnc = client | None \<Rightarrow> False)"

lemma dead_counters_of: "keys_ok (sync_counters s) \<Longrightarrow> k \<in> fst ` set (dead_counters c s) \<longleftrightarrow> counter_of c s k"
proof -
  assume k: "keys_ok (sync_counters s)"
  have "k \<in> fst ` set (dead_counters c s) \<longleftrightarrow> (\<exists>v. (k, v) \<in> set (sync_counters s) \<and> ctr_owner v = c)"
    by (force simp: dead_counters_def)
  also have "\<dots> \<longleftrightarrow> (\<exists>v. lookup (sync_counters s) k = Some v \<and> ctr_owner v = c)" using k by (simp add: map_of_eq_Some_iff)
  also have "\<dots> \<longleftrightarrow> counter_of c s k" by (simp add: counter_of_def split: option.split)
  finally show ?thesis .
qed

fun loses :: "u32 \<Rightarrow> sync_state \<Rightarrow> sync_await_condition \<Rightarrow> bool" where
  "loses client s (CounterCond k _ _ _) = counter_of client s k"
| "loses client s (FenceCond f) = fence_of client s f"

definition survivor :: "u32 \<Rightarrow> sync_state \<Rightarrow> sync_alarm \<Rightarrow> sync_alarm option" where
  "survivor client s a = (if alm_owner a = client then None
     else let a' = a\<lparr>alm_event_clients := filter (\<lambda>x. x \<noteq> client) (alm_event_clients a)\<rparr>
          in Some (if counter_of client s (alm_counter a) then deactivated a' else a'))"

lemma release_alarms_frame [sync_frame]:
  "sync_counters (fst (release_client_alarms env c s)) = sync_counters s"
  "sync_fences (fst (release_client_alarms env c s)) = sync_fences s"
  "sync_awaits (fst (release_client_alarms env c s)) = sync_awaits s"
  by (simp_all add: release_client_alarms_def Let_def sync_frame)

lemma release_alarms_alarms:
  assumes "tables_ok s"
  shows "lookup (sync_alarms (fst (release_client_alarms env c s))) i =
    Option.bind (lookup (sync_alarms s) i)
      (\<lambda>a. if alm_owner a = c then None else Some (a\<lparr>alm_event_clients := filter (\<lambda>x. x \<noteq> c) (alm_event_clients a)\<rparr>))"
  using assms by (cases "lookup (sync_alarms s) i") (auto simp: release_client_alarms_def Let_def destroy.sweep)

lemma tables_ok_release: "tables_ok s \<Longrightarrow> tables_ok (fst (release_client_alarms env c s))"
  by (simp add: release_client_alarms_def Let_def)

lemma disconnect_leaves:
  assumes t: "tables_ok s"
  shows "lookup (sync_counters (fst (disconnect_sync env c s))) k = (if counter_of c s k then None else lookup (sync_counters s) k)"
    and "lookup (sync_fences (fst (disconnect_sync env c s))) f = (if fence_of c s f then None else lookup (sync_fences s) f)"
    and "lookup (sync_alarms (fst (disconnect_sync env c s))) i = Option.bind (lookup (sync_alarms s) i) (survivor c s)"
    and "lookup (sync_awaits (fst (disconnect_sync env c s))) w =
       (if w = c then None else case lookup (sync_awaits s) w of None \<Rightarrow> None
        | Some conds \<Rightarrow> if list_ex (loses c s) conds then None else Some conds)"
proof -
  let ?s1 = "s\<lparr>sync_awaits := remove_key c (sync_awaits s)\<rparr>"
  let ?s2 = "fst (release_client_alarms env c ?s1)"
  let ?s3 = "fst (for_each (remove_counter env) (dead_counters c ?s2) ?s2)"
  have t2: "tables_ok ?s2" using t by (simp add: tables_ok_release)
  note r = remove_counters_tables [OF t2, of env "dead_counters c ?s2"] remove_counters_counters [of env "dead_counters c ?s2" ?s2]
    remove_counters_fences [of env "dead_counters c ?s2" ?s2] remove_counters_awaits [OF t2, of env "dead_counters c ?s2"]
    remove_counters_alarms [OF t2, of env "dead_counters c ?s2"]
  have res: "fst (disconnect_sync env c s) = fst (for_each (remove_fence env) (keys_where (\<lambda>f. fnc_owner f = c) (sync_fences ?s3)) ?s3)"
    by (simp add: disconnect_sync_def Let_def)
  note f = remove_fences [OF r(1), of env "keys_where (\<lambda>f. fnc_owner f = c) (sync_fences ?s3)"]
  have cs: "counter_of c ?s2 k = counter_of c s k" for k by (simp add: counter_of_def sync_frame)
  have dead: "k \<in> fst ` set (dead_counters c ?s2) \<longleftrightarrow> counter_of c s k" for k
    using dead_counters_of [of ?s2 k c] t2 cs by simp
  have fs: "g \<in> set (keys_where (\<lambda>f. fnc_owner f = c) (sync_fences ?s3)) \<longleftrightarrow> fence_of c s g" for g
    using t by (auto simp: r(3) sync_frame fence_of_def split: option.split)
  have lost: "(\<exists>k \<in> fst ` set (dead_counters c ?s2). on_counter k x)
      \<or> (\<exists>g \<in> set (keys_where (\<lambda>f. fnc_owner f = c) (sync_fences ?s3)). on_fence g x) \<longleftrightarrow> loses c s x" for x
    by (cases x) (auto simp: dead fs Bex_def simp del: set_sort)
  show "lookup (sync_counters (fst (disconnect_sync env c s))) k = (if counter_of c s k then None else lookup (sync_counters s) k)"
    unfolding res f(1) r(2) dead by (simp add: sync_frame)
  show "lookup (sync_fences (fst (disconnect_sync env c s))) f = (if fence_of c s f then None else lookup (sync_fences s) f)"
    unfolding res using t r(3) fs [of f] by (simp add: drop_fence.sweep sync_frame)
  show "lookup (sync_alarms (fst (disconnect_sync env c s))) i = Option.bind (lookup (sync_alarms s) i) (survivor c s)"
    unfolding res f(2) r(5) dead using t
    by (cases "lookup (sync_alarms s) i") (simp_all add: release_alarms_alarms survivor_def Let_def)
  show "lookup (sync_awaits (fst (disconnect_sync env c s))) w =
       (if w = c then None else case lookup (sync_awaits s) w of None \<Rightarrow> None
        | Some conds \<Rightarrow> if list_ex (loses c s) conds then None else Some conds)"
    unfolding res f(3) r(4) lost [symmetric]
    by (auto simp: sync_frame list_ex_iff split: option.splits)
qed

section \<open>The machine\<close>

definition sync_start :: sync_state where
  "sync_start = \<lparr>sync_counters = [], sync_alarms = [], sync_fences = [], sync_awaits = [], sync_servertime_last = None,
     idletime_last_evaluated = []\<rparr>"

inductive sync_move :: "u32 set \<Rightarrow> sync_state \<Rightarrow> sync_state \<Rightarrow> bool" for shared where
  request: "env_ok shared env \<Longrightarrow> fresh_request minor body s \<Longrightarrow>
    sync_move shared s (fst (handle_sync_request env client c sq minor body s))"
| disconnect: "sync_move shared s (fst (disconnect_sync env c s))"
| dri3_fence: "lookup (sync_fences s) f = None \<Longrightarrow> sync_move shared s (insert_fence c f b s)"
| idle_fence: "sync_move shared s (fst (fence_triggered env f s))"
| servertime: "sync_move shared s (fst (evaluate_servertime env s))"
| post_poll: "sync_move shared s (fst (evaluate_idletime_alarms_post_poll env suspended s))"
| input_wake: "sync_move shared s (fst (evaluate_idletime_negative_alarms_on_input_wake env suspended dev g l s))"

interpretation sync: invariant_machine "\<lambda>s. s = sync_start" "sync_move shared" "sync_ok shared" for shared
proof unfold_locales
  fix s assume "s = sync_start"
  then show "sync_ok shared s" by (simp add: sync_start_def sync_ok_def tables_ok_def)
next
  fix s s' assume ok: "sync_ok shared s" and "sync_move shared s s'"
  from this(2) show "sync_ok shared s'"
    by cases (use ok in \<open>auto intro: sync_ok_request sync_ok_disconnect sync_ok_insert_fence sync_ok_fence_triggered
        sync_ok_evaluate_servertime sync_ok_post_poll sync_ok_input_wake\<close>)
qed

end
