(* ===== verification/Sync_Props.thy ===== *)
theory Sync_Props
  imports Sync_Runs
begin

text \<open>
  What SYNC promises: a suspended client waits only for things that exist and do not hold yet,
  a change resumes exactly the clients it concerns, alarms re-arm past the value that
  fired them, a client that leaves takes all of its objects with it, and a refused request
  changes nothing.
\<close>

section \<open>Suspended clients\<close>

text \<open>A client of the example creates a counter at 3 and waits for it to reach 10.\<close>

definition example_env :: sync_env where
  "example_env = \<lparr>now_ms = 1000, idle_ms = (\<lambda>_. 5), shm_triggered = (\<lambda>_. None)\<rparr>"

definition create_body :: "u8 list" where
  "create_body = [1, 0, 64, 0, 0, 0, 0, 0, 3, 0, 0, 0]"

definition await_body :: "u8 list" where
  "await_body = [1, 0, 64, 0, 0, 0, 0, 0, 0, 0, 0, 0, 10, 0, 0, 0, 2, 0, 0, 0, 0, 0, 0, 0, 0, 0, 0, 0]"

definition set_body :: "u8 list" where
  "set_body = [1, 0, 64, 0, 0, 0, 0, 0, 12, 0, 0, 0]"

definition waiting_state :: sync_state where
  "waiting_state = sync_start\<lparr>sync_counters := [(0x400001, \<lparr>ctr_owner = 1, ctr_value = 3\<rparr>)],
     sync_awaits := [(1, [CounterCond 0x400001 TEST_POSITIVE_COMPARISON 10 0])]\<rparr>"

lemma read_u32_le_simps: "read_u32 LittleEndian (a # b # c # d # r) = u32_from_le_bytes a b c d"
  "read_u32 BigEndian (a # b # c # d # r) = u32_from_be_bytes a b c d"
  by (simp_all add: read_u32_def)

lemma chunks_28: "length xs = 28 \<Longrightarrow> chunks_exact 28 xs = [xs]"
  by (subst chunks_exact.simps, simp, subst chunks_exact.simps, simp)

lemmas sync_eval = parse_counter_value_def parse_await_def parse_wait_condition_def WAIT_CONDITION_LEN_def chunks_28
  read_i64_def read_i64_ordered_def read_u32_le read_u32_le_simps u32_from_le_bytes_def u32_from_be_bytes_def int64_def
  sync_opcodes example_env_def sync_start_def waiting_state_def

lemma create_example:
  "fst (handle_sync_request example_env (Some LittleEndian) 1 1 CREATE_COUNTER create_body sync_start) =
     sync_start\<lparr>sync_counters := [(0x400001, \<lparr>ctr_owner = 1, ctr_value = 3\<rparr>)]\<rparr>"
  by (simp add: handle_sync_request_def create_counter_def create_body_def sync_eval)

lemma await_example:
  "fst (handle_sync_request example_env (Some LittleEndian) 1 2 AWAIT await_body
     (sync_start\<lparr>sync_counters := [(0x400001, \<lparr>ctr_owner = 1, ctr_value = 3\<rparr>)]\<rparr>)) = waiting_state"
  by (simp add: handle_sync_request_def await_def await_body_def sync_eval found_def resolve_wait_def counter_value_def
      is_idletime_counter_def system_counters value_types test_types begin_await_def Let_def trigger_fires_def done_with_def)

lemma example_env_ok: "env_ok {} example_env"
  by (simp add: env_ok_def example_env_def in_i64_def)

lemma waiting_reachable: "reachable (\<lambda>s. s = sync_start) (sync_move {}) waiting_state"
proof -
  have 0: "reachable (\<lambda>s. s = sync_start) (sync_move {}) sync_start" by (rule reachable.initial) simp
  have "fresh_request CREATE_COUNTER create_body sync_start"
    by (simp add: fresh_request_def create_body_def sync_eval)
  from reachable.step [OF 0 sync_move.request [OF example_env_ok this, where client = "Some LittleEndian" and c = 1 and sq = 1]]
  have 1: "reachable (\<lambda>s. s = sync_start) (sync_move {}) (sync_start\<lparr>sync_counters := [(0x400001, \<lparr>ctr_owner = 1, ctr_value = 3\<rparr>)]\<rparr>)"
    by (simp only: create_example)
  have "fresh_request AWAIT await_body (sync_start\<lparr>sync_counters := [(0x400001, \<lparr>ctr_owner = 1, ctr_value = 3\<rparr>)]\<rparr>)"
    by (simp add: fresh_request_def sync_opcodes)
  from reachable.step [OF 1 sync_move.request [OF example_env_ok this, where client = "Some LittleEndian" and c = 1 and sq = 2]]
  show ?thesis by (simp only: await_example)
qed




section \<open>Changes of a counter\<close>








section \<open>A client leaves\<close>

text \<open>
  When a client leaves, its counters, fences and alarms are gone and nobody else's; its own
  await is gone, the clients that waited for something it owned are resumed and no others; the
  alarms of others stay, without it among those they notify, and are inactive and without a
  counter exactly if they watched one of its counters.
\<close>

theorem sync_disconnect_complete:
  assumes "reachable (\<lambda>s. s = sync_start) (sync_move shared) s"
  shows "let s' = fst (disconnect_sync env c s) in
    lookup (sync_counters s') k = (if counter_of c s k then None else lookup (sync_counters s) k)
    \<and> lookup (sync_fences s') f = (if fence_of c s f then None else lookup (sync_fences s) f)
    \<and> lookup (sync_alarms s') i = Option.bind (lookup (sync_alarms s) i) (survivor c s)
    \<and> lookup (sync_awaits s') w = (if w = c then None else case lookup (sync_awaits s) w of None \<Rightarrow> None
        | Some conds \<Rightarrow> if list_ex (loses c s) conds then None else Some conds)"
  using disconnect_leaves [OF sync_okD(1) [OF sync.reachable_inv [OF assms(1)]]] by (simp add: Let_def)

theorem sync_disconnect_complete_witness:
  "lookup (sync_counters (fst (disconnect_sync example_env 1 waiting_state))) 0x400001 = None
   \<and> lookup (sync_awaits (fst (disconnect_sync example_env 1 waiting_state))) 1 = None"
  using sync_disconnect_complete [OF waiting_reachable, of example_env 1 "0x400001" 0 0 1]
  by (simp add: counter_of_def waiting_state_def Let_def)

section \<open>Re-arming an alarm\<close>

text \<open>The loop stops at the first of the waits that does not hold, or with the guard.\<close>

lemma rearm_first:
  assumes "k \<le> n" and "\<forall>j<k. comparison_satisfied ct v (w + int j * d) \<and> in_i64 (w + int j * d)"
    and "k < n \<Longrightarrow> \<not> comparison_satisfied ct v (w + int k * d)" and "in_i64 w"
  shows "rearm ct v d n w = (if in_i64 (w + int k * d) then Some (w + int k * d) else None)"
  using assms
proof (induction n arbitrary: w k)
  case (Suc n)
  show ?case
  proof (cases k)
    case 0
    then show ?thesis using Suc.prems by simp
  next
    case (Suc j)
    have sat: "comparison_satisfied ct v w" using Suc.prems(2) Suc by (elim allE [of _ 0]) simp
    show ?thesis
    proof (cases "in_i64 (w + d)")
      case True
      have shift: "w + d + int m * d = w + int (Suc m) * d" for m by (simp add: algebra_simps)
      have "rearm ct v d n (w + d) = (if in_i64 (w + d + int j * d) then Some (w + d + int j * d) else None)"
      proof (rule Suc.IH)
        show "\<forall>i<j. comparison_satisfied ct v (w + d + int i * d) \<and> in_i64 (w + d + int i * d)"
        proof (intro allI impI)
          fix i assume "i < j"
          then have "Suc i < k" using \<open>k = Suc j\<close> by simp
          from Suc.prems(2) [rule_format, OF this]
          show "comparison_satisfied ct v (w + d + int i * d) \<and> in_i64 (w + d + int i * d)" unfolding shift .
        qed
      next
        assume "j < n"
        then have "k < Suc n" using \<open>k = Suc j\<close> by simp
        from Suc.prems(3) [OF this] show "\<not> comparison_satisfied ct v (w + d + int j * d)" unfolding shift \<open>k = Suc j\<close> .
      qed (use Suc.prems(1) \<open>k = Suc j\<close> True in simp_all)
      from this [unfolded shift] show ?thesis
        using sat True \<open>k = Suc j\<close> by (simp add: checked_add_def del: of_nat_Suc)
    next
      case False
      then have "j = 0" using Suc.prems(2) Suc by (elim allE [of _ 1]) auto
      then show ?thesis using sat False Suc by (simp add: checked_add_def)
    qed
  qed
qed simp

text \<open>How many steps lead past the value, for a step in the direction of the test.\<close>

definition positive_test :: "u32 \<Rightarrow> bool" where
  "positive_test ct \<longleftrightarrow> ct = TEST_POSITIVE_TRANSITION \<or> ct = TEST_POSITIVE_COMPARISON"

definition negative_test :: "u32 \<Rightarrow> bool" where
  "negative_test ct \<longleftrightarrow> ct = TEST_NEGATIVE_TRANSITION \<or> ct = TEST_NEGATIVE_COMPARISON"

definition steps_past :: "int \<Rightarrow> int \<Rightarrow> int \<Rightarrow> nat" where
  "steps_past v w d = nat ((v - w) div d) + 1"

lemma satisfied_simps:
  "positive_test ct \<Longrightarrow> comparison_satisfied ct v w \<longleftrightarrow> w \<le> v"
  "negative_test ct \<Longrightarrow> comparison_satisfied ct v w \<longleftrightarrow> v \<le> w"
  by (auto simp: positive_test_def negative_test_def comparison_satisfied_def test_types)

lemma multiple_le_iff: "(d :: int) > 0 \<Longrightarrow> x \<ge> 0 \<Longrightarrow> int j * d \<le> x \<longleftrightarrow> j < nat (x div d) + 1"
proof -
  assume d: "d > 0" and x: "x \<ge> 0"
  have "int j * d \<le> x \<longleftrightarrow> int j \<le> x div d"
  proof
    assume "int j * d \<le> x"
    from zdiv_mono1 [OF this d] show "int j \<le> x div d" using d by simp
  next
    assume "int j \<le> x div d"
    then have "int j * d \<le> x div d * d" using d by (simp add: mult_right_mono)
    also have "\<dots> \<le> x" using d by (simp add: minus_mod_eq_div_mult [symmetric])
    finally show "int j * d \<le> x" .
  qed
  also have "\<dots> \<longleftrightarrow> j \<le> nat (x div d)" using d x by (simp add: pos_imp_zdiv_nonneg_iff le_nat_iff)
  finally show ?thesis by linarith
qed

lemma waits_hold:
  assumes "positive_test ct \<and> 0 < d \<and> w \<le> v \<or> negative_test ct \<and> d < 0 \<and> v \<le> w"
  shows "comparison_satisfied ct v (w + int j * d) \<longleftrightarrow> j < steps_past v w d"
  using assms
proof (elim disjE conjE)
  assume "positive_test ct" "0 < d" "w \<le> v"
  then show ?thesis using multiple_le_iff [of d "v - w" j] by (simp add: satisfied_simps steps_past_def algebra_simps)
next
  assume "negative_test ct" "d < 0" "v \<le> w"
  moreover have "(v - w) div d = (w - v) div (- d)" using div_minus_minus [of "w - v" "- d"] by simp
  ultimately show ?thesis using multiple_le_iff [of "- d" "w - v" j] by (simp add: satisfied_simps steps_past_def algebra_simps)
qed

lemma waits_in_range:
  assumes "positive_test ct \<and> 0 < d \<and> w \<le> v \<or> negative_test ct \<and> d < 0 \<and> v \<le> w" and "in_i64 v" "in_i64 w" and "j < steps_past v w d"
  shows "in_i64 (w + int j * d)"
proof -
  have "comparison_satisfied ct v (w + int j * d)" using waits_hold [OF assms(1)] assms(4) by simp
  then consider "w \<le> w + int j * d" "w + int j * d \<le> v" | "v \<le> w + int j * d" "w + int j * d \<le> w"
    using assms(1) by (auto simp: satisfied_simps mult_nonneg_nonpos)
  then show ?thesis using assms(2,3) by cases (auto simp: in_i64_def)
qed

lemma rearm_steps:
  assumes "positive_test ct \<and> 0 < d \<and> w \<le> v \<or> negative_test ct \<and> d < 0 \<and> v \<le> w" and "in_i64 v" "in_i64 w"
  shows "rearm ct v d n w = (let k = min n (steps_past v w d) in if in_i64 (w + int k * d) then Some (w + int k * d) else None)"
  unfolding Let_def
  by (rule rearm_first) (use assms waits_hold [OF assms(1)] waits_in_range [OF assms] in \<open>auto simp: min_def\<close>)

text \<open>
  C23. An active alarm on a counter, with a delta in the direction of its test, that fires at the
  value \<open>v\<close> waits next for the first of the values wait, wait + delta, wait + 2 delta, ... that
  \<open>v\<close> does not satisfy, which is at most one delta away from \<open>v\<close>; it becomes inactive, its wait
  value unchanged, exactly when that value is out of the range of 64 bits. This holds
  as long as at most a million steps lead there.
\<close>

theorem alarm_rearms_past_value:
  assumes "lookup (sync_alarms s) i = Some a" and "alarm_ok cs a" and "alm_state a = ALARM_STATE_ACTIVE" and "alm_counter a \<noteq> 0" and "in_i64 v"
    and "positive_test (alm_check_type a) \<and> 0 < alm_delta a \<and> alm_wait_value a \<le> v
       \<or> negative_test (alm_check_type a) \<and> alm_delta a < 0 \<and> v \<le> alm_wait_value a"
    and "steps_past v (alm_wait_value a) (alm_delta a) \<le> REARM_GUARD"
  defines "w \<equiv> alm_wait_value a + int (steps_past v (alm_wait_value a) (alm_delta a)) * alm_delta a"
  shows "\<not> comparison_satisfied (alm_check_type a) v w \<and> \<bar>w - v\<bar> \<le> \<bar>alm_delta a\<bar>
    \<and> lookup (sync_alarms (fst (alarm_trigger_fired env v i s))) i =
        Some (if in_i64 w then a\<lparr>alm_wait_value := w\<rparr> else a\<lparr>alm_state := ALARM_STATE_INACTIVE\<rparr>)"
proof -
  let ?k = "steps_past v (alm_wait_value a) (alm_delta a)"
  have r: "rearm (alm_check_type a) v (alm_delta a) REARM_GUARD (alm_wait_value a) = (if in_i64 w then Some w else None)"
    using rearm_steps [OF assms(6,5), of REARM_GUARD] assms(2,7) by (simp add: alarm_ok_def w_def min_def Let_def)
  have "alm_delta a \<noteq> 0" using assms(6) by auto
  then have "fired_alarm v a = (if in_i64 w then a\<lparr>alm_wait_value := w\<rparr> else a\<lparr>alm_state := ALARM_STATE_INACTIVE\<rparr>)"
    using assms(3,4) r by (simp add: fired_alarm_def next_wait_def Let_def)
  then have "lookup (sync_alarms (fst (alarm_trigger_fired env v i s))) i =
      Some (if in_i64 w then a\<lparr>alm_wait_value := w\<rparr> else a\<lparr>alm_state := ALARM_STATE_INACTIVE\<rparr>)"
    using assms(1) by (simp add: alarm_trigger_fired_alarms)
  moreover have past: "\<not> comparison_satisfied (alm_check_type a) v w" using waits_hold [OF assms(6), of ?k] by (simp add: w_def)
  moreover have "comparison_satisfied (alm_check_type a) v (w - alm_delta a)"
    using waits_hold [OF assms(6), of "?k - 1"] by (simp add: w_def steps_past_def algebra_simps)
  then have "\<bar>w - v\<bar> \<le> \<bar>alm_delta a\<bar>" using past assms(6) by (auto simp: satisfied_simps)
  ultimately show ?thesis by blast
qed

definition example_alarm :: sync_alarm where
  "example_alarm = (new_alarm 1)\<lparr>alm_counter := SERVERTIME_COUNTER, alm_state := ALARM_STATE_ACTIVE, alm_wait_value := 10, alm_delta := 7\<rparr>"

theorem alarm_rearms_past_value_witness:
  "lookup (sync_alarms (fst (alarm_trigger_fired example_env 25 9 (sync_start\<lparr>sync_alarms := [(9, example_alarm)]\<rparr>)))) 9 =
     Some (example_alarm\<lparr>alm_wait_value := 31\<rparr>)"
proof -
  have l: "lookup (sync_alarms (sync_start\<lparr>sync_alarms := [(9, example_alarm)]\<rparr>)) 9 = Some example_alarm" by simp
  have "alarm_ok Map.empty example_alarm"
    using new_alarm_ok(1) [of Map.empty 1] by (simp add: example_alarm_def alarm_ok_def is_system_counter_def in_i64_def)
  from alarm_rearms_past_value [OF l this, of 25 example_env]
  show ?thesis
    by (simp add: example_alarm_def new_alarm_def sync_alarm_default_def system_counters in_i64_def positive_test_def negative_test_def
        steps_past_def REARM_GUARD_def test_types)
qed

text \<open>
  With the guard the loop stops short. An alarm with delta 1 that waits for an increase past 0
  (a positive transition) and sees its counter set to two million is left waiting for a million: below
  the value, so that no further increase ever crosses it.
\<close>

lemma rearm_guard_stops_short:
  assumes "steps_past v w d > n" and "positive_test ct" "0 < d" "w \<le> v" "in_i64 v" "in_i64 w"
  shows "rearm ct v d n w = Some (w + int n * d) \<and> w + int n * d \<le> v"
proof -
  have p: "positive_test ct \<and> 0 < d \<and> w \<le> v \<or> negative_test ct \<and> d < 0 \<and> v \<le> w" using assms by simp
  have "in_i64 (w + int n * d)" by (rule waits_in_range [OF p assms(5,6) assms(1)])
  moreover have "w + int n * d \<le> v" using waits_hold [OF p, of n] assms(1,2) by (simp add: satisfied_simps)
  ultimately show ?thesis using rearm_steps [OF p assms(5,6), of n] assms(1) by (simp add: min_def Let_def)
qed

lemma alarm_missed_after_jump:
  defines "a \<equiv> (new_alarm 1)\<lparr>alm_counter := 5, alm_state := ALARM_STATE_ACTIVE, alm_test_type := TEST_POSITIVE_TRANSITION,
    alm_check_type := TEST_POSITIVE_TRANSITION, alm_wait_value := 1\<rparr>"
  shows "alm_wait_value (fired_alarm 2000000 a) = 1000001 \<and> alm_state (fired_alarm 2000000 a) = ALARM_STATE_ACTIVE
    \<and> (2000000 \<le> old_v \<longrightarrow> old_v < new_v \<longrightarrow>
       \<not> trigger_fires (alm_check_type (fired_alarm 2000000 a)) old_v new_v (alm_wait_value (fired_alarm 2000000 a)))"
proof -
  have "rearm TEST_POSITIVE_TRANSITION 2000000 1 REARM_GUARD 1 = Some 1000001"
    using rearm_guard_stops_short [of REARM_GUARD 2000000 1 1 TEST_POSITIVE_TRANSITION]
    by (simp add: steps_past_def REARM_GUARD_def positive_test_def in_i64_def)
  then have "fired_alarm 2000000 a = a\<lparr>alm_wait_value := 1000001\<rparr>"
    by (simp add: a_def new_alarm_def sync_alarm_default_def fired_alarm_def next_wait_def)
  then show ?thesis by (simp add: a_def trigger_fires_def)
qed

section \<open>Refusals\<close>

definition kept :: "sync_state \<Rightarrow> sync_result \<Rightarrow> bool" where
  "kept s r \<longleftrightarrow> (case r of (s', Error _ _, es) \<Rightarrow> s' = s \<and> es = [] | _ \<Rightarrow> True)"

lemma kept_simps [simp]:
  "kept s (refused s e)" "kept s (done_with r)" "kept s (reply_to client bytes s)" "kept s (s1, Handled, es)"
  by (simp_all add: kept_def refused_def done_with_def reply_to_def split: option.split)

lemma kept_found [simp]: "kept s (found s r f) \<longleftrightarrow> (\<forall>x. r = Inr x \<longrightarrow> kept s (f x))"
  by (cases r) (simp_all add: found_def)

lemma kept_with_fence: "(\<And>x. kept s (f x)) \<Longrightarrow> kept s (with_fence body s f)"
  by (simp add: with_fence_def split: option.split)

lemma kept_requests [simp]:
  "kept s (create_counter c body s)" "kept s (create_fence c body s)" "kept s (set_counter env body s)"
  "kept s (change_counter env body s)" "kept s (query_counter env client bo sq body s)" "kept s (destroy_counter env body s)"
  "kept s (await env bo c body s)" "kept s (await_fence env bo c body s)" "kept s (query_alarm client bo sq body s)"
  "kept s (destroy_alarm_request env body s)" "kept s (query_fence env client bo sq body s)"
  by (simp_all add: create_counter_def create_fence_def set_counter_def change_counter_def query_counter_def destroy_counter_def
      await_def await_fence_def query_alarm_def destroy_alarm_request_def query_fence_def Let_def split: option.split list.split prod.split)

lemma kept_fence_requests [simp]:
  "kept s (destroy_fence env body s)" "kept s (trigger_fence env body s)" "kept s (reset_fence env body s)"
  by (simp_all add: destroy_fence_def trigger_fence_def reset_fence_def kept_with_fence)

lemma kept_create_alarm [simp]: "kept s (create_alarm env c body s)"
  by (simp add: create_alarm_def split: option.split prod.split sum.split)

definition same_trigger :: "sync_alarm option \<Rightarrow> sync_alarm option \<Rightarrow> bool" where
  "same_trigger a b \<longleftrightarrow> map_option (\<lambda>a. (alm_counter a, alm_state a, alm_check_type a)) a = map_option (\<lambda>a. (alm_counter a, alm_state a, alm_check_type a)) b"

lemma same_trigger_select: "same_trigger (Some (select_alarm_events c w a)) (Some a)"
  by (simp add: select_alarm_events_def same_trigger_def Let_def)

lemma same_trigger_wait: "init_wait_value i m r v a = (a', res) \<Longrightarrow> same_trigger (Some a') (Some a)"
  by (auto simp: init_wait_value_def same_trigger_def Let_def overflowing_add_def split: option.splits if_splits)

lemma same_trigger_init: "init_trigger env s i m r a = (a', Inl e) \<Longrightarrow> same_trigger (Some a') (Some a)"
  by (auto simp: init_trigger_def Let_def same_trigger_def split: sum.splits if_splits prod.splits dest!: same_trigger_wait)

lemma change_alarm_attributes_refused:
  assumes "change_alarm_attributes env s i c m vs a = (a', Inl e)"
  shows "same_trigger (Some a') (Some a)"
proof (cases "read_attributes m (alarm_bits m) \<lparr>arg_counter = alm_counter a, arg_value_type = alm_value_type a,
    arg_raw_wait = alm_raw_wait a, arg_test_type = alm_test_type a, arg_delta = alm_delta a, arg_select = None, arg_words = vs\<rparr>")
  case (Inl x)
  then show ?thesis using assms by (simp add: change_alarm_attributes_def same_trigger_def)
next
  case (Inr r)
  define a1 where "a1 = (case arg_select r of Some want \<Rightarrow> select_alarm_events c want a | None \<Rightarrow> a)"
  have a1: "same_trigger (Some a1) (Some a)"
    using same_trigger_select by (simp add: a1_def same_trigger_def split: option.split)
  define a2 where "a2 = a1\<lparr>alm_delta := arg_delta r, alm_value_type := arg_value_type r, alm_raw_wait := arg_raw_wait r,
                     alm_test_type := arg_test_type r\<rparr>"
  have a2: "same_trigger (Some a2) (Some a)" using a1 by (simp add: a2_def same_trigger_def)
  show ?thesis
  proof (cases "m AND (CA_DELTA OR CA_TEST_TYPE) \<noteq> 0 \<and> sign_mismatch (arg_test_type r) (arg_delta r)")
    case True
    then show ?thesis using assms Inr a1 by (simp add: change_alarm_attributes_def a1_def [symmetric])
  next
    case False
    then have "init_trigger env s i m r a2 = (a', Inl e)"
      using assms Inr by (simp add: change_alarm_attributes_def a1_def [symmetric] a2_def [symmetric] del: de_Morgan_conj)
    from same_trigger_init [OF this] show ?thesis using a2 by (simp add: same_trigger_def)
  qed
qed

lemma change_alarm_refused:
  assumes "change_alarm env c body s = (s', Error e v, es)"
  shows "es = [] \<and> (\<exists>as i. s' = s\<lparr>sync_alarms := as\<rparr> \<and> same_trigger (lookup as i) (lookup (sync_alarms s) i)
      \<and> (\<forall>j. j \<noteq> i \<longrightarrow> lookup as j = lookup (sync_alarms s) j))"
proof -
  have same: ?thesis if "s' = s" "es = []"
    using that by (intro conjI exI [of _ "sync_alarms s"]) (simp_all add: same_trigger_def)
  show ?thesis
  proof (cases "\<exists>i m a0. parse_alarm_with_mask body = Some (i, m) \<and> lookup (sync_alarms s) i = Some a0 \<and> length body = alarm_request_len m")
    case True
    then obtain i m a0 where p: "parse_alarm_with_mask body = Some (i, m)" "lookup (sync_alarms s) i = Some a0"
      "length body = alarm_request_len m" by blast
    obtain a res where ch: "change_alarm_attributes env s i c m (alarm_value_words body) a0 = (a, res)" by force
    with assms p obtain x where x: "res = Inl x" "es = []" "s' = s\<lparr>sync_alarms := insert_key i a (sync_alarms s)\<rparr>"
      by (cases res) (auto simp: change_alarm_def found_def sync_known_alarm_def refused_def done_with_def Let_def)
    show ?thesis using change_alarm_attributes_refused [OF ch [unfolded x(1)]] p x
      by (intro conjI exI [of _ "insert_key i a (sync_alarms s)"] exI [of _ i]) simp_all
  next
    case False
    then have "change_alarm env c body s = (s, fst (snd (change_alarm env c body s)), [])"
      by (auto simp: change_alarm_def found_def sync_known_alarm_def refused_def split: option.splits)
    then show ?thesis using assms same by simp
  qed
qed

text \<open>
  C24. A refused request sends nothing and changes nothing, but for \<open>ChangeAlarm\<close>, which may leave
  the alarm it names changed; even then the alarm keeps its counter and whether it is active.
\<close>

theorem refused_requests_keep_state:
  assumes "handle_sync_request env client c sq minor body s = (s', Error e v, es)"
  shows "es = [] \<and> (minor \<noteq> CHANGE_ALARM \<longrightarrow> s' = s)
    \<and> (\<exists>as i. s' = s\<lparr>sync_alarms := as\<rparr> \<and> same_trigger (lookup as i) (lookup (sync_alarms s) i)
         \<and> (\<forall>j. j \<noteq> i \<longrightarrow> lookup as j = lookup (sync_alarms s) j))"
proof (cases "minor = CHANGE_ALARM")
  case True
  then have "change_alarm env c body s = (s', Error e v, es)"
    using assms by (simp add: handle_sync_request_def sync_opcodes)
  then show ?thesis using change_alarm_refused True by simp
next
  case False
  then have "kept s (handle_sync_request env client c sq minor body s)"
    unfolding handle_sync_request_def Let_def by simp
  then have "s' = s \<and> es = []" using assms by (simp add: kept_def)
  then show ?thesis using False by (intro conjI exI [of _ "sync_alarms s"]) (simp_all add: same_trigger_def)
qed

theorem refused_requests_keep_state_witness:
  "handle_sync_request example_env (Some LittleEndian) 1 4 SET_COUNTER [2, 0, 64, 0, 0, 0, 0, 0, 12, 0, 0, 0] waiting_state =
     (waiting_state, Error (SYNC_FIRST_ERROR + BAD_COUNTER) 0x400002, [])"
proof -
  let ?r = "handle_sync_request example_env (Some LittleEndian) 1 4 SET_COUNTER [2, 0, 64, 0, 0, 0, 0, 0, 12, 0, 0, 0] waiting_state"
  have n: "sync_writable_counter waiting_state 0x400002 = Inl (SYNC_FIRST_ERROR + BAD_COUNTER, 0x400002)"
    by (simp add: sync_writable_counter_def is_system_counter_def is_idletime_counter_def system_counters waiting_state_def)
  have "parse_counter_value [2, 0, 64, 0, 0, 0, 0, 0, 12, 0, 0, 0] = Some (0x400002, 12)" by (simp add: sync_eval)
  then have e: "fst (snd ?r) = Error (SYNC_FIRST_ERROR + BAD_COUNTER) 0x400002"
    using n by (simp add: handle_sync_request_def sync_opcodes set_counter_def found_def refused_def)
  then have "?r = (fst ?r, Error (SYNC_FIRST_ERROR + BAD_COUNTER) 0x400002, snd (snd ?r))" by (metis prod.collapse)
  moreover from refused_requests_keep_state [OF this] have "fst ?r = waiting_state" "snd (snd ?r) = []"
    by (simp_all add: sync_opcodes)
  ultimately show ?thesis by simp
qed

section \<open>Where the code departs\<close>

text \<open>
  A big-endian client. Its \<open>Await\<close> is read in its byte order, its \<open>CreateCounter\<close> is not: the
  counter it creates as \<open>0x400001\<close> is entered as \<open>0x01004000\<close>, and waiting for it is refused
  with \<open>BadCounter\<close>.
\<close>

lemma big_endian_counter_misread:
  defines "s \<equiv> fst (handle_sync_request example_env (Some BigEndian) 1 1 CREATE_COUNTER [0, 64, 0, 1, 0, 0, 0, 0, 0, 0, 0, 3] sync_start)"
  shows "map fst (sync_counters s) = [0x01004000]
    \<and> handle_sync_request example_env (Some BigEndian) 1 2 AWAIT
        [0, 64, 0, 1, 0, 0, 0, 0, 0, 0, 0, 0, 0, 0, 0, 10, 0, 0, 0, 2, 0, 0, 0, 0, 0, 0, 0, 0] s
      = (s, Error (SYNC_FIRST_ERROR + BAD_COUNTER) 0x400001, [])"
proof -
  have s: "map fst (sync_counters s) = [0x01004000]"
    by (simp add: s_def handle_sync_request_def create_counter_def sync_eval)
  then have "lookup (sync_counters s) 0x400001 = None" by (cases "sync_counters s") auto
  then show ?thesis using s
    by (simp add: handle_sync_request_def await_def sync_eval found_def resolve_wait_def counter_value_def refused_def
        is_idletime_counter_def system_counters)
qed

text \<open>
  \<open>CreateCounter\<close> on an identifier in use is accepted and replaces the counter without looking
  at who waits for it: the client of the example stays suspended although its condition
  holds.
\<close>

lemma recreated_counter_loses_wakeup:
  defines "s \<equiv> fst (handle_sync_request example_env (Some LittleEndian) 2 1 CREATE_COUNTER set_body waiting_state)"
  shows "lookup (sync_awaits s) 1 = Some [CounterCond 0x400001 TEST_POSITIVE_COMPARISON 10 0]
    \<and> holds_now example_env s (CounterCond 0x400001 TEST_POSITIVE_COMPARISON 10 0)"
  by (simp add: s_def handle_sync_request_def create_counter_def set_body_def sync_eval counter_value_def is_idletime_counter_def
      system_counters trigger_fires_def test_types)

end
