(* ===== verification/Request_Queue.thy ===== *)
theory Request_Queue
  imports Hash_Maps
begin

text \<open>
  The fair request queue of the core loop (\<open>core_loop/run.rs\<close>): one queue of requests per client
  and a ring of the clients that have any. Its abstract view is, for each client, the list of its
  waiting requests. Shown here: the queue's invariant, what each operation does to the view, and
  which client a pop serves.
\<close>

declare map_of_eq_Some_iff [simp del] Some_eq_map_of_iff [simp del]

record request_header =
  hd_opcode :: u8
  hd_data :: u8
  length_units :: u32

text \<open>\<open>accepted_at\<close>, which only telemetry reads, is a time; \<open>attached_fd\<close> a descriptor.\<close>

record deferred_request =
  rq_id :: u32
  rq_sequence :: u16
  accepted_at :: "nat option"
  rq_header :: request_header
  rq_body :: "u8 list"
  attached_fd :: "int option"

record fair_request_queue =
  by_client :: "(u32, deferred_request list) hash_map"
  ready :: "u32 list"
  queued_len :: nat

definition empty_queue :: fair_request_queue where
  "empty_queue = \<lparr>by_client = [], ready = [], queued_len = 0\<rparr>"

definition clear :: "fair_request_queue \<Rightarrow> fair_request_queue" where
  "clear q = q\<lparr>by_client := [], ready := [], queued_len := 0\<rparr>"

definition push_back :: "deferred_request \<Rightarrow> fair_request_queue \<Rightarrow> fair_request_queue" where
  "push_back req q =
     (let queue = (case lookup (by_client q) (rq_id req) of Some l \<Rightarrow> l | None \<Rightarrow> []) in
      q\<lparr>ready := (if queue = [] then ready q @ [rq_id req] else ready q),
        by_client := insert_key (rq_id req) (queue @ [req]) (by_client q),
        queued_len := queued_len q + 1\<rparr>)"

text \<open>\<open>usize::MAX\<close>, at which \<open>saturating_add\<close> stops.\<close>

definition usize_max :: nat where
  "usize_max = 2 ^ 64 - 1"

definition prepend_client :: "deferred_request list \<Rightarrow> fair_request_queue \<Rightarrow> fair_request_queue" where
  "prepend_client requests q =
     (case requests of
        [] \<Rightarrow> q
      | first # _ \<Rightarrow>
          (case lookup (by_client q) (rq_id first) of
             Some existing \<Rightarrow>
               q\<lparr>by_client := insert_key (rq_id first) (requests @ existing) (by_client q),
                 queued_len := min usize_max (queued_len q + length requests)\<rparr>
           | None \<Rightarrow>
               q\<lparr>ready := ready q @ [rq_id first],
                 by_client := insert_key (rq_id first) requests (by_client q),
                 queued_len := min usize_max (queued_len q + length requests)\<rparr>))"

text \<open>The loop of \<open>pop_front_if\<close>: at most as many turns as there are clients in the ring.\<close>

fun pop_turns :: "nat \<Rightarrow> (u32 \<Rightarrow> bool) \<Rightarrow> fair_request_queue \<Rightarrow> fair_request_queue \<times> deferred_request option" where
  "pop_turns 0 is_runnable q = (q, None)"
| "pop_turns (Suc n) is_runnable q =
     (case ready q of
        [] \<Rightarrow> (q, None)
      | client # rest \<Rightarrow>
          if \<not> is_runnable client then pop_turns n is_runnable (q\<lparr>ready := rest @ [client]\<rparr>)
          else
            (case lookup (by_client q) client of
               None \<Rightarrow> pop_turns n is_runnable (q\<lparr>ready := rest\<rparr>)
             | Some [] \<Rightarrow> pop_turns n is_runnable (q\<lparr>ready := rest, by_client := remove_key client (by_client q)\<rparr>)
             | Some (request # remaining) \<Rightarrow>
                 (if remaining \<noteq> []
                  then q\<lparr>ready := rest @ [client], by_client := insert_key client remaining (by_client q),
                         queued_len := queued_len q - 1\<rparr>
                  else q\<lparr>ready := rest, by_client := remove_key client (by_client q),
                         queued_len := queued_len q - 1\<rparr>,
                  Some request)))"

definition pop_front_if :: "(u32 \<Rightarrow> bool) \<Rightarrow> fair_request_queue \<Rightarrow> fair_request_queue \<times> deferred_request option" where
  "pop_front_if is_runnable q = pop_turns (length (ready q)) is_runnable q"

text \<open>
  \<open>release_server_grab_waiters\<close>: the waiters are sorted into one list per client, with the clients
  in the order of their first waiter, and each list goes back ahead of the client's queue. \<open>None\<close>
  is the panic of \<open>expect\<close>.
\<close>

fun group_waiters ::
  "deferred_request list \<Rightarrow> u32 list \<Rightarrow> (u32, deferred_request list) hash_map \<Rightarrow> u32 list \<times> (u32, deferred_request list) hash_map" where
  "group_waiters [] client_order groups = (client_order, groups)"
| "group_waiters (req # rest) client_order groups =
     (case lookup groups (rq_id req) of
        Some l \<Rightarrow> group_waiters rest client_order (insert_key (rq_id req) (l @ [req]) groups)
      | None \<Rightarrow> group_waiters rest (client_order @ [rq_id req]) (insert_key (rq_id req) [req] groups))"

fun restore_groups ::
  "u32 list \<Rightarrow> (u32, deferred_request list) hash_map \<Rightarrow> fair_request_queue \<Rightarrow> fair_request_queue option" where
  "restore_groups [] groups q = Some q"
| "restore_groups (client # rest) groups q =
     (case lookup groups client of
        None \<Rightarrow> None
      | Some l \<Rightarrow> restore_groups rest (remove_key client groups) (prepend_client l q))"

definition release_server_grab_waiters ::
  "fair_request_queue \<Rightarrow> deferred_request list \<Rightarrow> (fair_request_queue \<times> deferred_request list) option" where
  "release_server_grab_waiters q waiters =
     (case group_waiters waiters [] [] of
        (client_order, groups) \<Rightarrow> map_option (\<lambda>q'. (q', [])) (restore_groups client_order groups q))"

section \<open>The abstract view and the invariant\<close>

text \<open>The waiting requests of a client, oldest first.\<close>

definition queued :: "fair_request_queue \<Rightarrow> u32 \<Rightarrow> deferred_request list" where
  "queued q client = (case lookup (by_client q) client of Some l \<Rightarrow> l | None \<Rightarrow> [])"

definition total_requests :: "(u32, deferred_request list) hash_map \<Rightarrow> nat" where
  "total_requests m = sum_list (map (length \<circ> snd) m)"

text \<open>
  Every queue is non-empty and holds only requests of its client, the ring has each client with a
  queue once, and the count is the number of requests.
\<close>

definition queue_ok :: "fair_request_queue \<Rightarrow> bool" where
  "queue_ok q \<longleftrightarrow> keys_ok (by_client q) \<and> distinct (ready q)
     \<and> (\<forall>c. c \<in> set (ready q) \<longleftrightarrow> lookup (by_client q) c \<noteq> None)
     \<and> (\<forall>c l. lookup (by_client q) c = Some l \<longrightarrow> l \<noteq> [] \<and> (\<forall>r \<in> set l. rq_id r = c))
     \<and> queued_len q = total_requests (by_client q)"

definition of_client :: "u32 \<Rightarrow> deferred_request list \<Rightarrow> deferred_request list" where
  "of_client c l = filter (\<lambda>r. rq_id r = c) l"

lemma of_client_simps [simp]:
  "of_client c [] = []" "of_client c (r # l) = (if rq_id r = c then r # of_client c l else of_client c l)"
  "of_client c (l @ l') = of_client c l @ of_client c l'"
  by (simp_all add: of_client_def)

lemma of_client_all: "\<forall>r \<in> set l. rq_id r = c' \<Longrightarrow> of_client c l = (if c = c' then l else [])"
  by (induction l) auto

lemma queue_okD:
  assumes "queue_ok q"
  shows "keys_ok (by_client q)" "distinct (ready q)"
    and "c \<in> set (ready q) \<longleftrightarrow> lookup (by_client q) c \<noteq> None"
    and "lookup (by_client q) c = Some l \<Longrightarrow> l \<noteq> []"
    and "lookup (by_client q) c = Some l \<Longrightarrow> r \<in> set l \<Longrightarrow> rq_id r = c"
    and "queued_len q = total_requests (by_client q)"
  using assms unfolding queue_ok_def by blast+

lemma queue_okI:
  assumes "keys_ok m" "distinct l" "\<And>c. c \<in> set l \<longleftrightarrow> lookup m c \<noteq> None"
    and "\<And>c q. lookup m c = Some q \<Longrightarrow> q \<noteq> []" "\<And>c q. lookup m c = Some q \<Longrightarrow> \<forall>r \<in> set q. rq_id r = c"
    and "n = total_requests m"
  shows "queue_ok (q\<lparr>ready := l, by_client := m, queued_len := n\<rparr>)"
  using assms unfolding queue_ok_def by simp

lemma queue_ok_ready: "queue_ok q \<Longrightarrow> c \<in> set (ready q) \<longleftrightarrow> queued q c \<noteq> []"
  using queue_okD(3,4) by (auto simp: queued_def split: option.split)

lemma queued_id: "queue_ok q \<Longrightarrow> r \<in> set (queued q c) \<Longrightarrow> rq_id r = c"
  by (cases "lookup (by_client q) c") (simp_all add: queued_def queue_okD(5))

lemma empty_queue_ok: "queue_ok empty_queue" "queued empty_queue c = []"
  by (simp_all add: queue_ok_def empty_queue_def total_requests_def queued_def)

subsection \<open>The number of requests\<close>

lemma total_simps [simp]: "total_requests [] = 0" "total_requests ((k, l) # m) = length l + total_requests m"
  by (simp_all add: total_requests_def)

lemma total_insert: "total_requests (insert_key k l m) + length (case lookup m k of Some l' \<Rightarrow> l' | None \<Rightarrow> []) = total_requests m + length l"
  by (induction m) auto

lemma total_insert_simps [simp]:
  "lookup m k = None \<Longrightarrow> total_requests (insert_key k l m) = total_requests m + length l"
  "lookup m k = Some l' \<Longrightarrow> total_requests (insert_key k l m) = total_requests m + length l - length l'"
  using total_insert [of k l m] by simp_all

lemma total_remove_le: "total_requests (remove_key k m) \<le> total_requests m"
  by (induction m) (auto simp: delete_simps)

lemma total_remove:
  "keys_ok m \<Longrightarrow> total_requests (remove_key k m) + length (case lookup m k of Some l' \<Rightarrow> l' | None \<Rightarrow> []) = total_requests m"
proof (induction m)
  case (Cons e m)
  obtain k' l where e: "e = (k', l)" by force
  have "remove_key k m = m" if "k = k'"
    using Cons.prems that e by (intro delete_id) auto
  with Cons e show ?case by (auto simp: delete_simps)
qed simp

lemma total_pos: "lookup m k = Some (r # l) \<Longrightarrow> total_requests (remove_key k m) < total_requests m"
proof (induction m)
  case (Cons e m)
  then show ?case using total_remove_le [of k m] by (cases e) (auto simp: delete_simps split: if_splits)
qed simp

text \<open>Without the invariant, too, a pop leaves fewer requests than there were.\<close>

lemma pop_turns_shrinks:
  "pop_turns n run q = (q', Some r) \<Longrightarrow> total_requests (by_client q') < total_requests (by_client q)"
proof (induction n run q rule: pop_turns.induct)
  case (2 n run q)
  show ?case
  proof (cases "ready q")
    case Nil
    then show ?thesis using 2 by simp
  next
    case (Cons c rest)
    consider "\<not> run c" | "run c" "lookup (by_client q) c = None" | "run c" "lookup (by_client q) c = Some []"
      | r' l where "run c" "lookup (by_client q) c = Some (r' # l)"
      by (metis list.exhaust not_None_eq)
    then show ?thesis
    proof cases
      case 1
      then show ?thesis using 2 Cons by simp
    next
      case 2
      then show ?thesis using "2.IH"(2) [OF Cons] "2.prems" Cons by simp
    next
      case 3
      then show ?thesis using "2.IH"(3) [OF Cons] "2.prems" Cons total_remove_le [of c "by_client q"]
        by (simp add: less_le_trans)
    next
      case 4
      then show ?thesis
        using "2.prems" Cons total_pos [OF 4(2)] total_insert [of c l "by_client q"] by (auto split: if_splits)
    qed
  qed
qed simp

section \<open>What the operations do\<close>

lemma push_back_ok: "queue_ok q \<Longrightarrow> queue_ok (push_back req q)"
  unfolding queue_ok_def push_back_def Let_def
  by (auto split: option.split)

lemma queued_push_back: "queued (push_back req q) c = (if c = rq_id req then queued q c @ [req] else queued q c)"
  by (simp add: push_back_def queued_def Let_def)

lemma ready_push_back: "\<exists>l. ready (push_back req q) = ready q @ l"
  by (simp add: push_back_def Let_def)

lemma prepend_client_ok:
  assumes ok: "queue_ok q" and ids: "\<forall>r \<in> set l. rq_id r = c" and small: "total_requests (by_client q) + length l \<le> usize_max"
  shows "queue_ok (prepend_client l q)"
  using assms unfolding queue_ok_def prepend_client_def
  by (auto split: option.split list.split simp: min_def)

lemma queued_prepend_client:
  "\<forall>r \<in> set l. rq_id r = c' \<Longrightarrow> queued (prepend_client l q) c = (if c = c' then l @ queued q c else queued q c)"
  by (auto simp: prepend_client_def queued_def split: option.split list.split)

lemma ready_prepend_client: "\<exists>l'. ready (prepend_client l q) = ready q @ l'"
  by (simp add: prepend_client_def split: option.split list.split)

lemma total_prepend_client:
  "total_requests (by_client (prepend_client l q)) = total_requests (by_client q) + length l"
  by (auto simp: prepend_client_def split: option.split list.split)

section \<open>What a pop serves\<close>

text \<open>A ring in which nobody may run comes round to where it was.\<close>

lemma pop_turns_nobody:
  "\<forall>c \<in> set (take n (ready q)). \<not> run c \<Longrightarrow> n \<le> length (ready q)
   \<Longrightarrow> pop_turns n run q = (q\<lparr>ready := drop n (ready q) @ take n (ready q)\<rparr>, None)"
proof (induction n arbitrary: q)
  case (Suc n)
  then obtain c rest where r: "ready q = c # rest" by (cases "ready q") auto
  have "take n (rest @ [c]) = take n rest" "drop n (rest @ [c]) = drop n rest @ [c]" using Suc.prems r by auto
  then show ?case using Suc r by simp
qed simp

lemma pop_front_if_none:
  "\<forall>c \<in> set (ready q). \<not> run c \<Longrightarrow> pop_front_if run q = (q, None)"
  unfolding pop_front_if_def by (subst pop_turns_nobody) simp_all

text \<open>Otherwise the first client of the ring that may run is served, and goes to the end of the ring.\<close>

definition serve :: "u32 \<Rightarrow> u32 list \<Rightarrow> fair_request_queue \<Rightarrow> fair_request_queue" where
  "serve c others q =
     (if tl (queued q c) \<noteq> []
      then q\<lparr>ready := others @ [c], by_client := insert_key c (tl (queued q c)) (by_client q), queued_len := queued_len q - 1\<rparr>
      else q\<lparr>ready := others, by_client := remove_key c (by_client q), queued_len := queued_len q - 1\<rparr>)"

lemma pop_turns_first:
  "ready q = xs @ c # ys \<Longrightarrow> \<forall>x \<in> set xs. \<not> run x \<Longrightarrow> run c \<Longrightarrow> queued q c \<noteq> [] \<Longrightarrow> length xs < n
   \<Longrightarrow> pop_turns n run q = (serve c (ys @ xs) q, Some (hd (queued q c)))"
proof (induction xs arbitrary: n q ys)
  case Nil
  then show ?case
    by (cases n) (auto simp: serve_def queued_def neq_Nil_conv split: option.splits)
next
  case (Cons x xs)
  then obtain m where n: "n = Suc m" by (cases n) auto
  have "queued (q\<lparr>ready := l\<rparr>) c = queued q c" for l by (simp add: queued_def)
  then show ?case using Cons.IH [of "q\<lparr>ready := xs @ c # ys @ [x]\<rparr>" "ys @ [x]" m] Cons.prems n
    by (simp add: serve_def)
qed

lemma pop_front_if_first:
  assumes "queue_ok q" and "ready q = xs @ c # ys" and "\<forall>x \<in> set xs. \<not> run x" and "run c"
  shows "pop_front_if run q = (serve c (ys @ xs) q, Some (hd (queued q c)))"
  unfolding pop_front_if_def
  by (rule pop_turns_first) (use assms queue_ok_ready [OF assms(1), of c] in auto)

lemma pop_front_if_cases:
  assumes "queue_ok q"
  obtains (none) "\<forall>c \<in> set (ready q). \<not> run c" "pop_front_if run q = (q, None)"
    | (first) xs c ys where "ready q = xs @ c # ys" "\<forall>x \<in> set xs. \<not> run x" "run c" "queued q c \<noteq> []"
        "pop_front_if run q = (serve c (ys @ xs) q, Some (hd (queued q c)))"
proof (cases "\<exists>c \<in> set (ready q). run c")
  case True
  then obtain xs c ys where "ready q = xs @ c # ys" "run c" "\<forall>x \<in> set xs. \<not> run x"
    using split_list_first_prop by metis
  then show ?thesis using pop_front_if_first [OF assms] queue_ok_ready [OF assms, of c] first by fastforce
qed (use pop_front_if_none none in blast)

lemma queued_serve: "queued (serve c l q) c' = (if c' = c then tl (queued q c) else queued q c')"
  by (simp add: serve_def queued_def)

lemma serve_ok:
  assumes ok: "queue_ok q" and r: "ready q = xs @ c # ys"
  shows "queue_ok (serve c (ys @ xs) q)"
proof -
  from r queue_okD(3) [OF ok, of c] queue_okD(4) [OF ok, of c] obtain h t where
    l: "lookup (by_client q) c = Some (h # t)" by (auto simp: neq_Nil_conv)
  then have qc: "queued q c = h # t" by (simp add: queued_def)
  have sum: "total_requests (remove_key c (by_client q)) = total_requests (by_client q) - Suc (length t)"
    using total_remove [OF queue_okD(1) [OF ok], of c] l by simp
  have mem: "c' \<in> set (ys @ xs) \<longleftrightarrow> c' \<noteq> c \<and> lookup (by_client q) c' \<noteq> None" for c'
    using queue_okD(2) [OF ok] queue_okD(3) [OF ok, of c'] r by auto
  have dis: "distinct (ys @ xs)" "c \<notin> set (ys @ xs)" using queue_okD(2) [OF ok] r by auto
  have ids: "l' \<noteq> []" "\<forall>x \<in> set l'. rq_id x = c'" if "lookup (by_client q) c' = Some l'" for c' l'
    using queue_okD(4,5) [OF ok that] by auto
  have len: "queued_len q = total_requests (by_client q)" and keys: "keys_ok (by_client q)" using queue_okD(1,6) [OF ok] by auto
  show ?thesis
  proof (cases "t = []")
    case True
    have "queue_ok (q\<lparr>ready := ys @ xs, by_client := remove_key c (by_client q), queued_len := queued_len q - 1\<rparr>)"
      by (rule queue_okI) (use len keys sum True mem dis ids in \<open>auto split: if_splits\<close>)
    then show ?thesis using True qc by (simp add: serve_def)
  next
    case False
    have "queue_ok (q\<lparr>ready := (ys @ xs) @ [c], by_client := insert_key c t (by_client q), queued_len := queued_len q - 1\<rparr>)"
    proof (rule queue_okI)
      fix c' show "c' \<in> set ((ys @ xs) @ [c]) \<longleftrightarrow> lookup (insert_key c t (by_client q)) c' \<noteq> None" using mem [of c'] by auto
      fix l' assume "lookup (insert_key c t (by_client q)) c' = Some l'"
      then show "l' \<noteq> []" "\<forall>r \<in> set l'. rq_id r = c'" using ids [of c' l'] ids(2) [OF l] False by (auto split: if_splits)
    qed (use len keys dis l in simp_all)
    then show ?thesis using False qc by (simp add: serve_def)
  qed
qed

lemma pop_front_if_ok: "queue_ok q \<Longrightarrow> queue_ok (fst (pop_front_if run q))"
  by (rule pop_front_if_cases [of q run]) (auto intro: serve_ok)

lemma pop_front_if_some:
  assumes "queue_ok q" and "pop_front_if run q = (q', Some r)"
  shows "run (rq_id r)" "queued q (rq_id r) = r # queued q' (rq_id r)"
    and "c \<noteq> rq_id r \<Longrightarrow> queued q' c = queued q c"
proof -
  from assms have *: "\<exists>c. run c \<and> queued q c \<noteq> [] \<and> r = hd (queued q c) \<and> (\<forall>c'. queued q' c' = (if c' = c then tl (queued q c) else queued q c'))"
    by (cases rule: pop_front_if_cases [OF assms(1), of run]) (auto simp: queued_serve)
  then obtain c0 where c0: "run c0" "queued q c0 \<noteq> []" "r = hd (queued q c0)"
    "\<forall>c'. queued q' c' = (if c' = c0 then tl (queued q c0) else queued q c')" by blast
  then have "rq_id r = c0" using queued_id [OF assms(1), of r c0] by simp
  with c0 show "run (rq_id r)" "queued q (rq_id r) = r # queued q' (rq_id r)"
    "c \<noteq> rq_id r \<Longrightarrow> queued q' c = queued q c" by simp_all
qed

section \<open>Releasing the waiters of a server grab\<close>

text \<open>The groups hold the waiters seen so far, and their clients are listed once.\<close>

definition groups_ok :: "u32 list \<Rightarrow> (u32, deferred_request list) hash_map \<Rightarrow> bool" where
  "groups_ok order groups \<longleftrightarrow> distinct order \<and> (\<forall>c. c \<in> set order \<longleftrightarrow> lookup groups c \<noteq> None)
     \<and> (\<forall>c l. lookup groups c = Some l \<longrightarrow> l \<noteq> [] \<and> (\<forall>r \<in> set l. rq_id r = c))"

definition group_of :: "(u32, deferred_request list) hash_map \<Rightarrow> u32 \<Rightarrow> deferred_request list" where
  "group_of groups c = (case lookup groups c of Some l \<Rightarrow> l | None \<Rightarrow> [])"

lemma group_of_simps [simp]:
  "group_of [] c = []" "lookup groups c = Some l \<Longrightarrow> group_of groups c = l" "lookup groups c = None \<Longrightarrow> group_of groups c = []"
  "group_of (insert_key k l groups) c = (if c = k then l else group_of groups c)"
  "group_of (remove_key k groups) c = (if c = k then [] else group_of groups c)"
  by (simp_all add: group_of_def)

definition group_total :: "u32 list \<Rightarrow> (u32, deferred_request list) hash_map \<Rightarrow> nat" where
  "group_total order groups = sum_list (map (length \<circ> group_of groups) order)"

lemma group_total_simps [simp]:
  "group_total [] groups = 0" "group_total (c # order) groups = length (group_of groups c) + group_total order groups"
  "group_total (order @ order') groups = group_total order groups + group_total order' groups"
  by (simp_all add: group_total_def)

lemma group_total_cong: "(\<And>c. c \<in> set order \<Longrightarrow> group_of groups c = group_of groups' c) \<Longrightarrow> group_total order groups = group_total order groups'"
  by (induction order) auto

lemma group_total_grow:
  "distinct order \<Longrightarrow> c \<in> set order \<Longrightarrow> group_total order (insert_key c (group_of groups c @ [r]) groups) = Suc (group_total order groups)"
proof (induction order)
  case (Cons x order)
  then show ?case
    by (cases "x = c") (auto intro!: group_total_cong)
qed simp

lemma group_waiters_ok:
  "groups_ok order groups \<Longrightarrow> group_waiters ws order groups = (order', groups')
   \<Longrightarrow> groups_ok order' groups' \<and> (\<forall>c. group_of groups' c = group_of groups c @ of_client c ws)"
proof (induction ws order groups rule: group_waiters.induct)
  case (2 req rest order groups)
  show ?case
  proof (cases "lookup groups (rq_id req)")
    case None
    have "groups_ok (order @ [rq_id req]) (insert_key (rq_id req) [req] groups)"
      using "2.prems"(1) None by (auto simp: groups_ok_def)
    then show ?thesis using "2.IH"(1) [OF None] "2.prems"(2) None by auto
  next
    case (Some l)
    have "groups_ok order (insert_key (rq_id req) (l @ [req]) groups)"
      using "2.prems"(1) Some by (auto simp: groups_ok_def)
    then show ?thesis using "2.IH"(2) [OF Some] "2.prems"(2) Some by auto
  qed
qed auto

lemma restore_groups_ok:
  "groups_ok order groups \<Longrightarrow> queue_ok q \<Longrightarrow> total_requests (by_client q) + group_total order groups \<le> usize_max
   \<Longrightarrow> \<exists>q'. restore_groups order groups q = Some q' \<and> queue_ok q' \<and> (\<forall>c. queued q' c = group_of groups c @ queued q c)
     \<and> (\<exists>l. ready q' = ready q @ l)
     \<and> total_requests (by_client q') = total_requests (by_client q) + group_total order groups"
proof (induction order groups q rule: restore_groups.induct)
  case (1 groups q)
  then have "lookup groups c = None" for c by (simp add: groups_ok_def)
  then show ?case using 1 by simp
next
  case (2 client rest groups q)
  have "lookup groups client \<noteq> None" using "2.prems"(1) unfolding groups_ok_def by (metis list.set_intros(1))
  then obtain l where l: "lookup groups client = Some l" by blast
  then have ids: "\<forall>r \<in> set l. rq_id r = client" using "2.prems"(1) by (simp add: groups_ok_def)
  have g: "groups_ok rest (remove_key client groups)" using "2.prems"(1) by (auto simp: groups_ok_def)
  have "client \<notin> set rest" using "2.prems"(1) by (simp add: groups_ok_def)
  then have sum: "group_total rest (remove_key client groups) = group_total rest groups"
    by (auto intro: group_total_cong)
  have ok: "queue_ok (prepend_client l q)" using prepend_client_ok [OF "2.prems"(2) ids] "2.prems"(3) l by simp
  obtain q' where q': "restore_groups rest (remove_key client groups) (prepend_client l q) = Some q'" "queue_ok q'"
    "\<forall>c. queued q' c = group_of (remove_key client groups) c @ queued (prepend_client l q) c"
    "\<exists>m. ready q' = ready (prepend_client l q) @ m"
    "total_requests (by_client q') = total_requests (by_client (prepend_client l q)) + group_total rest groups"
    using "2.IH" [OF l g ok] "2.prems"(3) l sum unfolding total_prepend_client by force
  have "\<exists>m. ready q' = ready q @ m" using q'(4) ready_prepend_client [of l q] by (metis append.assoc)
  then show ?case using q' l by (auto simp: queued_prepend_client [OF ids] total_prepend_client)
qed

lemma group_waiters_sum:
  "groups_ok order groups \<Longrightarrow> group_waiters ws order groups = (order', groups')
   \<Longrightarrow> group_total order' groups' = group_total order groups + length ws"
proof (induction ws order groups rule: group_waiters.induct)
  case (2 req rest order groups)
  show ?case
  proof (cases "lookup groups (rq_id req)")
    case None
    have g: "groups_ok (order @ [rq_id req]) (insert_key (rq_id req) [req] groups)"
      using "2.prems"(1) None by (auto simp: groups_ok_def)
    have "group_total order (insert_key (rq_id req) [req] groups) = group_total order groups"
      using "2.prems"(1) None by (intro group_total_cong) (auto simp: groups_ok_def)
    then show ?thesis using "2.IH"(1) [OF None g] "2.prems"(2) None by simp
  next
    case (Some l)
    have g: "groups_ok order (insert_key (rq_id req) (l @ [req]) groups)"
      using "2.prems"(1) Some by (auto simp: groups_ok_def)
    have "rq_id req \<in> set order" "distinct order" using "2.prems"(1) Some by (auto simp: groups_ok_def)
    then have "group_total order (insert_key (rq_id req) (l @ [req]) groups) = Suc (group_total order groups)"
      using group_total_grow [of order "rq_id req" groups req] Some by simp
    then show ?thesis using "2.IH"(2) [OF Some g] "2.prems"(2) Some by simp
  qed
qed auto

text \<open>
  Released waiters stand ahead of what their clients have queued since, in the order they were
  parked; nothing panics and the invariant holds.
\<close>

lemma release_waiters:
  assumes ok: "queue_ok q" and small: "total_requests (by_client q) + length waiters \<le> usize_max"
  obtains q' where "release_server_grab_waiters q waiters = Some (q', [])" "queue_ok q'"
    "\<And>c. queued q' c = of_client c waiters @ queued q c" "\<exists>l. ready q' = ready q @ l"
    "total_requests (by_client q') = total_requests (by_client q) + length waiters"
proof -
  obtain order groups where g: "group_waiters waiters [] [] = (order, groups)" by force
  have e: "groups_ok [] []" by (simp add: groups_ok_def)
  note go = group_waiters_ok [OF e g] and gs = group_waiters_sum [OF e g]
  obtain q' where "restore_groups order groups q = Some q'" "queue_ok q'"
    "\<forall>c. queued q' c = group_of groups c @ queued q c" "\<exists>l. ready q' = ready q @ l"
    "total_requests (by_client q') = total_requests (by_client q) + length waiters"
    using restore_groups_ok [of order groups q] go gs ok small by auto
  then show ?thesis using that g go by (simp add: release_server_grab_waiters_def)
qed

end
