(* ===== verification/Request_Drain.thy ===== *)
theory Request_Drain
  imports Request_Queue Sync_Await
begin

text \<open>
  The core loop's request side (\<open>core_loop/run.rs\<close>, \<open>run/dri3_export.rs\<close>): which clients may run,
  the requests parked behind asynchronous backend work, \<open>GrabServer\<close> and the drain of the fair
  queue. A request's handler is the parameter \<open>process\<close>; the elapsed time, which the loop reads
  before each turn, is a function of the turn's number.
\<close>

declare map_of_eq_Some_iff [simp del] Some_eq_map_of_iff [simp del]

section \<open>Requests that wait for the backend\<close>

text \<open>\<open>ParkedCrtcConfig\<close> and \<open>ParkedDri3Export\<close>, with the rest of the continuation as a value.\<close>

record 'c parked =
  pk_client_id :: u32
  pk_sequence :: u16
  pk_token :: nat
  pk_completion :: 'c
  pk_request_wire_bytes :: nat

record ('c, 'd) pending_backend_requests =
  crtc_by_token :: "(nat, 'c parked) hash_map"
  crtc_by_client :: "(u32, nat) hash_map"
  dri3_by_token :: "(nat, 'd parked) hash_map"
  dri3_by_client :: "(u32, nat) hash_map"
  xi_config_clients :: "u32 set"

definition no_pending_requests :: "('c, 'd) pending_backend_requests" where
  "no_pending_requests = \<lparr>crtc_by_token = [], crtc_by_client = [], dri3_by_token = [], dri3_by_client = [], xi_config_clients = {}\<rparr>"

definition client_is_blocked :: "('c, 'd) pending_backend_requests \<Rightarrow> u32 \<Rightarrow> bool" where
  "client_is_blocked p client \<longleftrightarrow> lookup (crtc_by_client p) client \<noteq> None
     \<or> lookup (dri3_by_client p) client \<noteq> None \<or> client \<in> xi_config_clients p"

definition block_xi_config :: "u32 \<Rightarrow> ('c, 'd) pending_backend_requests \<Rightarrow> ('c, 'd) pending_backend_requests \<times> bool" where
  "block_xi_config client p = (p\<lparr>xi_config_clients := insert client (xi_config_clients p)\<rparr>, client \<notin> xi_config_clients p)"

definition unblock_xi_config :: "u32 \<Rightarrow> ('c, 'd) pending_backend_requests \<Rightarrow> ('c, 'd) pending_backend_requests" where
  "unblock_xi_config client p = p\<lparr>xi_config_clients := xi_config_clients p - {client}\<rparr>"

datatype park_error = AlreadyPending | ReusedToken

definition park_crtc :: "'c parked \<Rightarrow> ('c, 'd) pending_backend_requests \<Rightarrow> park_error + ('c, 'd) pending_backend_requests" where
  "park_crtc pk p =
     (if lookup (crtc_by_client p) (pk_client_id pk) \<noteq> None \<or> lookup (dri3_by_client p) (pk_client_id pk) \<noteq> None then Inl AlreadyPending
      else if lookup (crtc_by_token p) (pk_token pk) \<noteq> None then Inl ReusedToken
      else Inr (p\<lparr>crtc_by_client := insert_key (pk_client_id pk) (pk_token pk) (crtc_by_client p),
                 crtc_by_token := insert_key (pk_token pk) pk (crtc_by_token p)\<rparr>))"

definition take_crtc :: "nat \<Rightarrow> ('c, 'd) pending_backend_requests \<Rightarrow> ('c, 'd) pending_backend_requests \<times> 'c parked option" where
  "take_crtc token p =
     (case lookup (crtc_by_token p) token of
        None \<Rightarrow> (p, None)
      | Some pk \<Rightarrow> (p\<lparr>crtc_by_token := remove_key token (crtc_by_token p),
                      crtc_by_client := remove_key (pk_client_id pk) (crtc_by_client p)\<rparr>, Some pk))"

definition take_client_crtc :: "u32 \<Rightarrow> ('c, 'd) pending_backend_requests \<Rightarrow> ('c, 'd) pending_backend_requests \<times> nat option" where
  "take_client_crtc client p =
     (case lookup (crtc_by_client p) client of
        None \<Rightarrow> (p, None)
      | Some token \<Rightarrow> (p\<lparr>crtc_by_client := remove_key client (crtc_by_client p),
                         crtc_by_token := remove_key token (crtc_by_token p)\<rparr>, Some token))"

definition take_all_crtc_tokens :: "('c, 'd) pending_backend_requests \<Rightarrow> ('c, 'd) pending_backend_requests \<times> nat list" where
  "take_all_crtc_tokens p = (p\<lparr>crtc_by_client := [], crtc_by_token := []\<rparr>, map fst (crtc_by_token p))"

definition park_dri3 :: "'d parked \<Rightarrow> ('c, 'd) pending_backend_requests \<Rightarrow> park_error + ('c, 'd) pending_backend_requests" where
  "park_dri3 pk p =
     (if lookup (crtc_by_client p) (pk_client_id pk) \<noteq> None \<or> lookup (dri3_by_client p) (pk_client_id pk) \<noteq> None then Inl AlreadyPending
      else if lookup (dri3_by_token p) (pk_token pk) \<noteq> None then Inl ReusedToken
      else Inr (p\<lparr>dri3_by_client := insert_key (pk_client_id pk) (pk_token pk) (dri3_by_client p),
                 dri3_by_token := insert_key (pk_token pk) pk (dri3_by_token p)\<rparr>))"

definition take_dri3 :: "nat \<Rightarrow> ('c, 'd) pending_backend_requests \<Rightarrow> ('c, 'd) pending_backend_requests \<times> 'd parked option" where
  "take_dri3 token p =
     (case lookup (dri3_by_token p) token of
        None \<Rightarrow> (p, None)
      | Some pk \<Rightarrow> (p\<lparr>dri3_by_token := remove_key token (dri3_by_token p),
                      dri3_by_client := remove_key (pk_client_id pk) (dri3_by_client p)\<rparr>, Some pk))"

definition take_client_dri3 :: "u32 \<Rightarrow> ('c, 'd) pending_backend_requests \<Rightarrow> ('c, 'd) pending_backend_requests \<times> nat option" where
  "take_client_dri3 client p =
     (case lookup (dri3_by_client p) client of
        None \<Rightarrow> (p, None)
      | Some token \<Rightarrow> (p\<lparr>dri3_by_client := remove_key client (dri3_by_client p),
                         dri3_by_token := remove_key token (dri3_by_token p)\<rparr>, Some token))"

definition take_all_dri3_tokens :: "('c, 'd) pending_backend_requests \<Rightarrow> ('c, 'd) pending_backend_requests \<times> nat list" where
  "take_all_dri3_tokens p = (p\<lparr>dri3_by_client := [], dri3_by_token := []\<rparr>, map fst (dri3_by_token p))"

section \<open>Which clients may run\<close>

text \<open>
  What the request loop reads of the server's state. \<open>record_recording\<close> are the data connections
  of enabled RECORD contexts, \<open>record_failed\<close> those whose stream write failed, and \<open>write_failed\<close>
  has the flag of each connected client.
\<close>

record ('c, 'd) core_state =
  server_grab_owner :: "u32 option"
  core_sync :: sync_state
  record_recording :: "u32 set"
  record_failed :: "u32 set"
  write_failed :: "(u32, bool) hash_map"
  backend_pending :: "('c, 'd) pending_backend_requests"

definition client_blocks_requests :: "('c, 'd) core_state \<Rightarrow> u32 \<Rightarrow> bool" where
  "client_blocks_requests w client \<longleftrightarrow> client \<in> record_recording w \<or> client \<in> record_failed w"

definition client_runnable :: "('c, 'd) core_state \<Rightarrow> u32 \<Rightarrow> bool" where
  "client_runnable w client \<longleftrightarrow> \<not> client_is_blocked (backend_pending w) client
     \<and> \<not> client_is_suspended (core_sync w) client \<and> \<not> client_blocks_requests w client
     \<and> lookup (write_failed w) client \<noteq> Some True"

definition has_runnable :: "('c, 'd) core_state \<Rightarrow> fair_request_queue \<Rightarrow> bool" where
  "has_runnable w q \<longleftrightarrow> list_ex (client_runnable w) (ready q)"

definition pop_front_unblocked :: "('c, 'd) core_state \<Rightarrow> fair_request_queue \<Rightarrow> fair_request_queue \<times> deferred_request option" where
  "pop_front_unblocked w q = pop_front_if (client_runnable w) q"

lemma pop_front_unblocked_shrinks:
  "(q', Some r) = pop_front_unblocked w q \<Longrightarrow> total_requests (by_client q') < total_requests (by_client q)"
  using pop_turns_shrinks [of "length (ready q)" "client_runnable w" q q' r] by (simp add: pop_front_unblocked_def pop_front_if_def)

section \<open>The server grab\<close>

definition handle_grab_server :: "u32 \<Rightarrow> ('c, 'd) core_state \<Rightarrow> ('c, 'd) core_state" where
  "handle_grab_server client w =
     (if server_grab_owner w = None \<or> server_grab_owner w = Some client then w\<lparr>server_grab_owner := Some client\<rparr> else w)"

definition handle_ungrab_server :: "u32 \<Rightarrow> ('c, 'd) core_state \<Rightarrow> ('c, 'd) core_state" where
  "handle_ungrab_server client w = (if server_grab_owner w = Some client then w\<lparr>server_grab_owner := None\<rparr> else w)"

text \<open>The dispatch of the two grab requests; \<open>other\<close> handles the rest.\<close>

definition dispatch_grabs ::
  "(deferred_request \<Rightarrow> ('c, 'd) core_state \<Rightarrow> ('c, 'd) core_state) \<Rightarrow> deferred_request \<Rightarrow> ('c, 'd) core_state \<Rightarrow> ('c, 'd) core_state" where
  "dispatch_grabs other req w =
     (if hd_opcode (rq_header req) = 36 then handle_grab_server (rq_id req) w
      else if hd_opcode (rq_header req) = 37 then handle_ungrab_server (rq_id req) w
      else other req w)"

text \<open>What a disconnect does to the grab (\<open>process_disconnect\<close>) and to the parked requests.\<close>

definition disconnect_drops_grab :: "u32 \<Rightarrow> ('c, 'd) core_state \<Rightarrow> ('c, 'd) core_state" where
  "disconnect_drops_grab client w = (if server_grab_owner w = Some client then w\<lparr>server_grab_owner := None\<rparr> else w)"

definition drop_pending :: "u32 \<Rightarrow> ('c, 'd) pending_backend_requests \<Rightarrow> ('c, 'd) pending_backend_requests" where
  "drop_pending client p = unblock_xi_config client (fst (take_client_dri3 client (fst (take_client_crtc client p))))"

definition blocked_by_server_grab :: "('c, 'd) core_state \<Rightarrow> deferred_request \<Rightarrow> bool" where
  "blocked_by_server_grab w req = (case server_grab_owner w of None \<Rightarrow> False | Some owner \<Rightarrow> owner \<noteq> rq_id req)"

section \<open>Draining the queue\<close>

definition MAX_REQUESTS_PER_ITER :: nat where
  "MAX_REQUESTS_PER_ITER = 32"

text \<open>In nanoseconds.\<close>

definition REQUEST_TIME_BUDGET :: nat where
  "REQUEST_TIME_BUDGET = 8000000"

definition budget_exhausted :: "nat \<Rightarrow> nat \<Rightarrow> bool" where
  "budget_exhausted remaining elapsed \<longleftrightarrow> remaining = 0 \<or> REQUEST_TIME_BUDGET \<le> elapsed"

text \<open>
  The outcome of a drain: the state, the queue, the waiters, the budget left and the requests it
  processed, oldest first. \<open>None\<close> is a panic.
\<close>

type_synonym ('c, 'd) drained =
  "('c, 'd) core_state \<times> fair_request_queue \<times> deferred_request list \<times> nat \<times> deferred_request list"

function drain_pending_requests ::
  "(deferred_request \<Rightarrow> ('c, 'd) core_state \<Rightarrow> ('c, 'd) core_state) \<Rightarrow> (nat \<Rightarrow> nat) \<Rightarrow> nat \<Rightarrow>
   ('c, 'd) core_state \<Rightarrow> fair_request_queue \<Rightarrow> deferred_request list \<Rightarrow> nat \<Rightarrow> ('c, 'd) drained option" where
  "drain_pending_requests process elapsed turn w q waiters budget =
     (if budget_exhausted budget (elapsed turn) then Some (w, q, waiters, budget, [])
      else
        (case pop_front_unblocked w q of
           (q', None) \<Rightarrow> Some (w, q', waiters, budget, [])
         | (q', Some req) \<Rightarrow>
             if blocked_by_server_grab w req
             then drain_pending_requests process elapsed (turn + 1) w q' (waiters @ [req]) budget
             else
               let w' = process req w in
               (case (if server_grab_owner w' = None then release_server_grab_waiters q' waiters else Some (q', waiters)) of
                  None \<Rightarrow> None
                | Some (q'', waiters') \<Rightarrow>
                    map_option (\<lambda>(w2, q2, ws2, b2, done). (w2, q2, ws2, b2, req # done))
                      (drain_pending_requests process elapsed (turn + 1) w' q'' waiters' (budget - 1)))))"
  by pat_completeness auto

termination
proof (relation "measures [\<lambda>(process, elapsed, turn, w, q, waiters, budget). budget,
    \<lambda>(process, elapsed, turn, w, q, waiters, budget). total_requests (by_client q)]", goal_cases)
  case 1
  show ?case by simp
next
  case 2
  then show ?case using pop_front_unblocked_shrinks by simp
next
  case 3
  then show ?case by (simp add: budget_exhausted_def)
qed

text \<open>
  The top of the core loop's iteration: a grab that was dropped meanwhile lets its waiters go, then
  the backlog is drained.
\<close>

definition start_iteration ::
  "(deferred_request \<Rightarrow> ('c, 'd) core_state \<Rightarrow> ('c, 'd) core_state) \<Rightarrow> (nat \<Rightarrow> nat) \<Rightarrow>
   ('c, 'd) core_state \<Rightarrow> fair_request_queue \<Rightarrow> deferred_request list \<Rightarrow> ('c, 'd) drained option" where
  "start_iteration process elapsed w q waiters =
     (case (if server_grab_owner w = None then release_server_grab_waiters q waiters else Some (q, waiters)) of
        None \<Rightarrow> None
      | Some (q', waiters') \<Rightarrow> drain_pending_requests process elapsed 0 w q' waiters' MAX_REQUESTS_PER_ITER)"

declare drain_pending_requests.simps [simp del]

end
