(* ===== verification/Request_Order.thy ===== *)
theory Request_Order
  imports Request_Drain Machines
begin

text \<open>
  Requests run in each client's order, under the server grab, and every client that may run gets
  its turn: the drain's contract, the core loop's runs and the fairness of the queue.
\<close>

declare map_of_eq_Some_iff [simp del] Some_eq_map_of_iff [simp del]

section \<open>The contract of a drain\<close>

text \<open>All that waits of a client: what the grab parked, then what is queued.\<close>

definition backlog :: "fair_request_queue \<Rightarrow> deferred_request list \<Rightarrow> u32 \<Rightarrow> deferred_request list" where
  "backlog q waiters c = of_client c waiters @ queued q c"

definition waiting :: "fair_request_queue \<Rightarrow> deferred_request list \<Rightarrow> nat" where
  "waiting q waiters = total_requests (by_client q) + length waiters"

text \<open>Nobody waits for a grab that nobody holds, and its owner does not wait.\<close>

definition grab_waiters_ok :: "('c, 'd) core_state \<Rightarrow> deferred_request list \<Rightarrow> bool" where
  "grab_waiters_ok w waiters \<longleftrightarrow>
     (case server_grab_owner w of None \<Rightarrow> waiters = [] | Some c \<Rightarrow> \<forall>r \<in> set waiters. rq_id r \<noteq> c)"

text \<open>A handler gives the grab to nobody but the client it serves.\<close>

definition keeps_grab :: "(deferred_request \<Rightarrow> ('c, 'd) core_state \<Rightarrow> ('c, 'd) core_state) \<Rightarrow> bool" where
  "keeps_grab process \<longleftrightarrow>
     (\<forall>r w. server_grab_owner (process r w) \<in> {server_grab_owner w, None, Some (rq_id r)})"

text \<open>The requests that ran, each in the state the ones before it left.\<close>

fun ran_allowed :: "(deferred_request \<Rightarrow> ('c, 'd) core_state \<Rightarrow> ('c, 'd) core_state) \<Rightarrow> ('c, 'd) core_state \<Rightarrow> deferred_request list \<Rightarrow> bool" where
  "ran_allowed process w [] \<longleftrightarrow> True"
| "ran_allowed process w (r # rs) \<longleftrightarrow>
     client_runnable w (rq_id r) \<and> \<not> blocked_by_server_grab w r \<and> ran_allowed process (process r w) rs"

definition drain_contract ::
  "(deferred_request \<Rightarrow> ('c, 'd) core_state \<Rightarrow> ('c, 'd) core_state) \<Rightarrow> (nat \<Rightarrow> nat) \<Rightarrow>
   ('c, 'd) core_state \<Rightarrow> fair_request_queue \<Rightarrow> deferred_request list \<Rightarrow> nat \<Rightarrow> ('c, 'd) drained \<Rightarrow> bool" where
  "drain_contract process elapsed w q waiters budget d =
     (case d of (w', q', waiters', budget', served) \<Rightarrow>
        queue_ok q' \<and> grab_waiters_ok w' waiters' \<and> w' = fold process served w \<and> ran_allowed process w served
        \<and> (\<forall>c. backlog q waiters c = of_client c served @ backlog q' waiters' c)
        \<and> waiting q' waiters' + length served = waiting q waiters
        \<and> budget' + length served = budget
        \<and> ((\<exists>t. budget_exhausted budget' (elapsed t)) \<or> \<not> has_runnable w' q'))"

lemma pop_front_unblocked_cases:
  assumes ok: "queue_ok q"
  obtains (none) "pop_front_unblocked w q = (q, None)" "\<not> has_runnable w q"
    | (some) q' r where "pop_front_unblocked w q = (q', Some r)" "queue_ok q'" "client_runnable w (rq_id r)"
        "queued q (rq_id r) = r # queued q' (rq_id r)" "\<And>c. c \<noteq> rq_id r \<Longrightarrow> queued q' c = queued q c"
        "Suc (total_requests (by_client q')) = total_requests (by_client q)"
proof (cases rule: pop_front_if_cases [OF ok, of "client_runnable w"])
  case 1
  then show ?thesis using none by (simp add: pop_front_unblocked_def has_runnable_def list_ex_iff)
next
  case (2 xs c ys)
  let ?q = "serve c (ys @ xs) q"
  note p = 2(5) [folded pop_front_unblocked_def] and s = pop_front_if_some [OF ok 2(5)]
  have ok': "queue_ok ?q" by (rule serve_ok [OF ok 2(1)])
  have "queued_len ?q = queued_len q - 1" by (simp add: serve_def)
  moreover have "total_requests (by_client ?q) < total_requests (by_client q)"
    by (rule pop_front_unblocked_shrinks [OF p [symmetric]])
  ultimately have "Suc (total_requests (by_client ?q)) = total_requests (by_client q)"
    using queue_okD(6) [OF ok] queue_okD(6) [OF ok'] by simp
  then show ?thesis using some [OF p ok' s] by blast
qed

lemma release_step:
  assumes ok: "queue_ok q" and small: "waiting q waiters \<le> usize_max"
    and owner: "\<And>c r. server_grab_owner w = Some c \<Longrightarrow> r \<in> set waiters \<Longrightarrow> rq_id r \<noteq> c"
  obtains q' waiters' where
    "(if server_grab_owner w = None then release_server_grab_waiters q waiters else Some (q, waiters)) = Some (q', waiters')"
    "queue_ok q'" "grab_waiters_ok w waiters'" "\<And>c. backlog q' waiters' c = backlog q waiters c"
    "waiting q' waiters' = waiting q waiters" "\<exists>l. ready q' = ready q @ l"
proof (cases "server_grab_owner w")
  case None
  obtain q' where "release_server_grab_waiters q waiters = Some (q', [])" "queue_ok q'"
    "\<And>c. queued q' c = of_client c waiters @ queued q c" "\<exists>l. ready q' = ready q @ l"
    "total_requests (by_client q') = total_requests (by_client q) + length waiters"
    using release_waiters [OF ok] small unfolding waiting_def by blast
  then show ?thesis using that [of q' "[]"] None by (simp add: backlog_def waiting_def grab_waiters_ok_def)
next
  case (Some c)
  then show ?thesis using that [of q waiters] ok owner by (auto simp: grab_waiters_ok_def)
qed

lemma of_client_none: "\<forall>r \<in> set l. rq_id r \<noteq> c \<Longrightarrow> of_client c l = []"
  by (simp add: of_client_def)

lemma keeps_grab_waiters:
  assumes "keeps_grab process" and "grab_waiters_ok w waiters" and "\<not> blocked_by_server_grab w r"
    and "server_grab_owner (process r w) = Some c" and "x \<in> set waiters"
  shows "rq_id x \<noteq> c"
proof -
  have "server_grab_owner (process r w) \<in> {server_grab_owner w, None, Some (rq_id r)}"
    using assms(1) by (simp add: keeps_grab_def)
  then show ?thesis using assms(2-5)
    by (auto simp: grab_waiters_ok_def blocked_by_server_grab_def split: option.splits)
qed

lemma free_client_not_waiting:
  "grab_waiters_ok w waiters \<Longrightarrow> \<not> blocked_by_server_grab w r \<Longrightarrow> of_client (rq_id r) waiters = []"
  by (auto simp: grab_waiters_ok_def blocked_by_server_grab_def of_client_none split: option.splits)

lemma contract_after:
  assumes "drain_contract process elapsed (process r w) q' waiters' budget d"
    and "client_runnable w (rq_id r)" and "\<not> blocked_by_server_grab w r"
    and "\<And>c. backlog q waiters c = of_client c [r] @ backlog q' waiters' c" and "waiting q waiters = Suc (waiting q' waiters')"
  shows "drain_contract process elapsed w q waiters (Suc budget) (case d of (w2, q2, ws2, b2, served) \<Rightarrow> (w2, q2, ws2, b2, r # served))"
  using assms by (auto simp: drain_contract_def split: prod.splits)

lemma drain_meets_contract:
  "keeps_grab process \<Longrightarrow> queue_ok q \<Longrightarrow> grab_waiters_ok w waiters \<Longrightarrow> waiting q waiters \<le> usize_max
    \<Longrightarrow> \<exists>d. drain_pending_requests process elapsed turn w q waiters budget = Some d \<and> drain_contract process elapsed w q waiters budget d"
proof (induction process elapsed turn w q waiters budget rule: drain_pending_requests.induct)
  case (1 process elapsed turn w q waiters budget)
  note step = drain_pending_requests.simps [of process elapsed turn w q waiters budget]
  show ?case
  proof (cases "budget_exhausted budget (elapsed turn)")
    case True
    then show ?thesis using "1.prems" step by (auto simp: drain_contract_def)
  next
    case budget: False
    show ?thesis
    proof (cases rule: pop_front_unblocked_cases [OF "1.prems"(2), of w])
      case 1
      then show ?thesis using "1.prems" budget step by (simp add: drain_contract_def)
    next
      case pop: (2 q' r)
      show ?thesis
      proof (cases "blocked_by_server_grab w r")
        case blocked: True
        have "grab_waiters_ok w (waiters @ [r])" "waiting q' (waiters @ [r]) = waiting q waiters"
          "backlog q' (waiters @ [r]) c = backlog q waiters c" for c
          using "1.prems"(3) blocked pop(4,6) pop(5) [of c]
          by (auto simp: grab_waiters_ok_def blocked_by_server_grab_def waiting_def backlog_def split: option.splits)
        then show ?thesis using "1.IH"(1) [OF budget pop(1) [symmetric] refl blocked] pop(1,2) "1.prems"(1,4) budget blocked step
          by (simp add: drain_contract_def)
      next
        case free: False
        have small: "waiting q' waiters \<le> usize_max" using "1.prems"(4) pop(6) by (simp add: waiting_def)
        obtain q'' ws'' where rel: "(if server_grab_owner (process r w) = None then release_server_grab_waiters q' waiters else Some (q', waiters)) = Some (q'', ws'')"
          and q'': "queue_ok q''" "grab_waiters_ok (process r w) ws''" "\<And>c. backlog q'' ws'' c = backlog q' waiters c" "waiting q'' ws'' = waiting q' waiters"
          using release_step [OF pop(2) small keeps_grab_waiters [OF "1.prems"(1,3) free]] by metis
        obtain d where d: "drain_pending_requests process elapsed (turn + 1) (process r w) q'' ws'' (budget - 1) = Some d"
          "drain_contract process elapsed (process r w) q'' ws'' (budget - 1) d"
          using "1.IH"(2) [OF budget pop(1) [symmetric] refl free refl rel refl "1.prems"(1) q''(1,2)] small q''(4) by auto
        have "backlog q waiters c = of_client c [r] @ backlog q'' ws'' c" for c
          using q''(3) [of c] pop(4) pop(5) [of c] free_client_not_waiting [OF "1.prems"(3) free] by (auto simp: backlog_def)
        moreover have "waiting q waiters = Suc (waiting q'' ws'')" using q''(4) pop(6) by (simp add: waiting_def)
        ultimately have "drain_contract process elapsed w q waiters (Suc (budget - 1)) (case d of (w2, q2, ws2, b2, served) \<Rightarrow> (w2, q2, ws2, b2, r # served))"
          using contract_after [OF d(2) pop(3) free] by blast
        moreover have "Suc (budget - 1) = budget" using budget by (simp add: budget_exhausted_def)
        ultimately show ?thesis using budget pop(1) free rel d(1) step by (simp add: Let_def)
      qed
    qed
  qed
qed

section \<open>Runs of the request loop\<close>

text \<open>
  The loop's state with the history of the requests that arrived and of those that were served. A
  message is a request from a reader thread; after each dispatched message a dropped grab lets its
  waiters go (\<open>after_message\<close>), and when the channel is empty the queue is drained again with what is
  left of the iteration's budget. Between drains anything else may change the state, but not give
  the grab to a client.
\<close>

record ('c, 'd) request_loop =
  rl_state :: "('c, 'd) core_state"
  rl_queue :: fair_request_queue
  rl_waiters :: "deferred_request list"
  rl_arrived :: "deferred_request list"
  rl_served :: "deferred_request list"

definition after_message ::
  "('c, 'd) core_state \<Rightarrow> fair_request_queue \<Rightarrow> deferred_request list \<Rightarrow> deferred_request \<Rightarrow> (fair_request_queue \<times> deferred_request list) option" where
  "after_message w q waiters req =
     (if server_grab_owner w = None then release_server_grab_waiters (push_back req q) waiters else Some (push_back req q, waiters))"

definition loop_start :: "('c, 'd) request_loop \<Rightarrow> bool" where
  "loop_start s \<longleftrightarrow> server_grab_owner (rl_state s) = None \<and> rl_queue s = empty_queue \<and> rl_waiters s = [] \<and> rl_arrived s = [] \<and> rl_served s = []"

inductive loop_step ::
  "(deferred_request \<Rightarrow> ('c, 'd) core_state \<Rightarrow> ('c, 'd) core_state) \<Rightarrow> ('c, 'd) request_loop \<Rightarrow> ('c, 'd) request_loop \<Rightarrow> bool" for process where
  message: "after_message (rl_state s) (rl_queue s) (rl_waiters s) req = Some (q, ws) \<Longrightarrow> waiting (rl_queue s) (rl_waiters s) < usize_max
    \<Longrightarrow> loop_step process s (s\<lparr>rl_queue := q, rl_waiters := ws, rl_arrived := rl_arrived s @ [req]\<rparr>)"
| last_message: "after_message (rl_state s) (rl_queue s) (rl_waiters s) req = Some (q, ws) \<Longrightarrow> waiting (rl_queue s) (rl_waiters s) < usize_max
    \<Longrightarrow> drain_pending_requests process elapsed turn (rl_state s) q ws budget = Some (w', q', ws', b', served)
    \<Longrightarrow> loop_step process s \<lparr>rl_state = w', rl_queue = q', rl_waiters = ws', rl_arrived = rl_arrived s @ [req], rl_served = rl_served s @ served\<rparr>"
| iteration: "start_iteration process elapsed (rl_state s) (rl_queue s) (rl_waiters s) = Some (w', q', ws', b', served)
    \<Longrightarrow> loop_step process s \<lparr>rl_state = w', rl_queue = q', rl_waiters = ws', rl_arrived = rl_arrived s, rl_served = rl_served s @ served\<rparr>"
| elsewhere: "server_grab_owner w' \<in> {server_grab_owner (rl_state s), None} \<Longrightarrow> loop_step process s (s\<lparr>rl_state := w'\<rparr>)"

definition loop_ok :: "('c, 'd) request_loop \<Rightarrow> bool" where
  "loop_ok s \<longleftrightarrow> queue_ok (rl_queue s) \<and> waiting (rl_queue s) (rl_waiters s) \<le> usize_max
     \<and> (\<forall>c r. server_grab_owner (rl_state s) = Some c \<longrightarrow> r \<in> set (rl_waiters s) \<longrightarrow> rq_id r \<noteq> c)
     \<and> (\<forall>c. of_client c (rl_arrived s) = of_client c (rl_served s) @ backlog (rl_queue s) (rl_waiters s) c)"

lemma grab_waiters_owner: "grab_waiters_ok w ws \<Longrightarrow> server_grab_owner w = Some c \<Longrightarrow> r \<in> set ws \<Longrightarrow> rq_id r \<noteq> c"
  by (auto simp: grab_waiters_ok_def)

lemma total_push_back: "queue_ok q \<Longrightarrow> total_requests (by_client (push_back r q)) = Suc (total_requests (by_client q))"
  using queue_okD(6) [of q] queue_okD(6) [OF push_back_ok, of q r] by (simp add: push_back_def Let_def)

lemma after_message_ok:
  assumes ok: "loop_ok s" and small: "waiting (rl_queue s) (rl_waiters s) < usize_max"
  obtains q ws where "after_message (rl_state s) (rl_queue s) (rl_waiters s) req = Some (q, ws)"
    "queue_ok q" "grab_waiters_ok (rl_state s) ws" "waiting q ws \<le> usize_max"
    "\<And>c. backlog q ws c = backlog (rl_queue s) (rl_waiters s) c @ of_client c [req]"
proof -
  let ?q = "push_back req (rl_queue s)"
  have q: "queue_ok ?q" "waiting ?q (rl_waiters s) \<le> usize_max"
    using ok small by (simp_all add: loop_ok_def push_back_ok total_push_back waiting_def)
  obtain q' ws' where "after_message (rl_state s) (rl_queue s) (rl_waiters s) req = Some (q', ws')" "queue_ok q'"
    "grab_waiters_ok (rl_state s) ws'" "\<And>c. backlog q' ws' c = backlog ?q (rl_waiters s) c" "waiting q' ws' = waiting ?q (rl_waiters s)"
    using release_step [OF q, of "rl_state s"] ok unfolding after_message_def loop_ok_def by metis
  then show ?thesis using that q(2) by (simp add: backlog_def queued_push_back)
qed

lemma start_iteration_contract:
  assumes h: "keeps_grab process" and ok: "loop_ok s"
  obtains q ws d where "start_iteration process elapsed (rl_state s) (rl_queue s) (rl_waiters s) = Some d"
    "drain_contract process elapsed (rl_state s) q ws MAX_REQUESTS_PER_ITER d"
    "\<And>c. backlog q ws c = backlog (rl_queue s) (rl_waiters s) c" "waiting q ws = waiting (rl_queue s) (rl_waiters s)"
proof -
  obtain q ws where r: "(if server_grab_owner (rl_state s) = None then release_server_grab_waiters (rl_queue s) (rl_waiters s)
      else Some (rl_queue s, rl_waiters s)) = Some (q, ws)" and q: "queue_ok q" "grab_waiters_ok (rl_state s) ws"
    "\<And>c. backlog q ws c = backlog (rl_queue s) (rl_waiters s) c" "waiting q ws = waiting (rl_queue s) (rl_waiters s)"
    using release_step [of "rl_queue s" "rl_waiters s" "rl_state s"] ok unfolding loop_ok_def by metis
  moreover have "waiting q ws \<le> usize_max" using q(4) ok by (simp add: loop_ok_def)
  ultimately obtain d where "drain_pending_requests process elapsed 0 (rl_state s) q ws MAX_REQUESTS_PER_ITER = Some d"
    "drain_contract process elapsed (rl_state s) q ws MAX_REQUESTS_PER_ITER d"
    using drain_meets_contract [OF h] by blast
  then show ?thesis using that r q by (simp add: start_iteration_def)
qed

lemma loop_ok_drained:
  assumes c: "drain_contract process elapsed w q ws b (w', q', ws', b', served)" and small: "waiting q ws \<le> usize_max"
    and arr: "\<And>c. of_client c arrived = of_client c past @ backlog q ws c"
  shows "loop_ok \<lparr>rl_state = w', rl_queue = q', rl_waiters = ws', rl_arrived = arrived, rl_served = past @ served\<rparr>"
  using c small arr grab_waiters_owner [of w' ws'] unfolding drain_contract_def loop_ok_def by fastforce

text \<open>The contract of the handlers of all other requests: none of them takes the grab.\<close>

locale other_requests =
  fixes other :: "deferred_request \<Rightarrow> ('c, 'd) core_state \<Rightarrow> ('c, 'd) core_state"
  assumes no_grab: "server_grab_owner (other r w) \<in> {server_grab_owner w, None}"
begin

lemma keeps: "keeps_grab (dispatch_grabs other)"
proof -
  have "server_grab_owner (dispatch_grabs other r w) \<in> {server_grab_owner w, None, Some (rq_id r)}" for r w
    using no_grab [of r w] by (auto simp: dispatch_grabs_def handle_grab_server_def handle_ungrab_server_def)
  then show ?thesis by (simp add: keeps_grab_def)
qed

lemma loop_step_ok: "loop_step (dispatch_grabs other) s s' \<Longrightarrow> loop_ok s \<Longrightarrow> loop_ok s'"
proof (induction rule: loop_step.induct)
  case (message s req q ws)
  obtain q2 ws2 where "after_message (rl_state s) (rl_queue s) (rl_waiters s) req = Some (q2, ws2)"
    "queue_ok q2" "grab_waiters_ok (rl_state s) ws2" "waiting q2 ws2 \<le> usize_max"
    "\<And>c. backlog q2 ws2 c = backlog (rl_queue s) (rl_waiters s) c @ of_client c [req]"
    using after_message_ok [OF message(3,2)] by blast
  then show ?case using message grab_waiters_owner [of "rl_state s" ws] by (fastforce simp: loop_ok_def)
next
  case (last_message s req q ws elapsed turn budget w' q' ws' b' served)
  obtain q2 ws2 where m: "after_message (rl_state s) (rl_queue s) (rl_waiters s) req = Some (q2, ws2)"
    "queue_ok q2" "grab_waiters_ok (rl_state s) ws2" "waiting q2 ws2 \<le> usize_max"
    "\<And>c. backlog q2 ws2 c = backlog (rl_queue s) (rl_waiters s) c @ of_client c [req]"
    using after_message_ok [OF last_message(4,2)] by blast
  have "drain_contract (dispatch_grabs other) elapsed (rl_state s) q2 ws2 budget (w', q', ws', b', served)"
    using drain_meets_contract [OF keeps m(2-4), of elapsed turn budget] last_message(1,3) m(1) by simp
  then show ?case by (rule loop_ok_drained) (use m(4,5) last_message(4) in \<open>simp_all add: loop_ok_def\<close>)
next
  case (iteration elapsed s w' q' ws' b' served)
  obtain q ws where d: "drain_contract (dispatch_grabs other) elapsed (rl_state s) q ws MAX_REQUESTS_PER_ITER (w', q', ws', b', served)"
    and q: "\<And>c. backlog q ws c = backlog (rl_queue s) (rl_waiters s) c" "waiting q ws = waiting (rl_queue s) (rl_waiters s)"
    using start_iteration_contract [OF keeps iteration(2), of elapsed] iteration(1) by (metis option.inject)
  show ?case by (rule loop_ok_drained [OF d]) (use q iteration(2) in \<open>simp_all add: loop_ok_def\<close>)
next
  case (elsewhere w' s)
  then show ?case by (auto simp: loop_ok_def)
qed

end

sublocale other_requests \<subseteq> loop: invariant_machine loop_start "loop_step (dispatch_grabs other)" loop_ok
proof
  show "loop_ok s" if "loop_start s" for s
    using that by (simp add: loop_start_def loop_ok_def empty_queue_ok backlog_def waiting_def) (simp add: empty_queue_def)
qed (rule loop_step_ok)

context other_requests
begin

lemma reached_ok: "reachable loop_start (loop_step (dispatch_grabs other)) s \<Longrightarrow> loop_ok s"
  by (rule loop.reachable_inv)

lemma iteration_contract:
  assumes "reachable loop_start (loop_step (dispatch_grabs other)) s"
  obtains q ws d where "start_iteration (dispatch_grabs other) elapsed (rl_state s) (rl_queue s) (rl_waiters s) = Some d"
    "drain_contract (dispatch_grabs other) elapsed (rl_state s) q ws MAX_REQUESTS_PER_ITER d"
  by (rule start_iteration_contract [OF keeps reached_ok [OF assms]]) (rule that)

end

text \<open>A client that leaves drops its grab and takes none.\<close>

interpretation leaving: other_requests "\<lambda>r. disconnect_drops_grab (rq_id r)"
  by unfold_locales (simp add: disconnect_drops_grab_def)

section \<open>Fairness\<close>

text \<open>What may happen to the queue while a client waits for its turn.\<close>

datatype queue_op = Push deferred_request | Release "deferred_request list" | Pop "u32 \<Rightarrow> bool"

fun queue_ops :: "queue_op list \<Rightarrow> fair_request_queue \<Rightarrow> deferred_request list" where
  "queue_ops [] q = []"
| "queue_ops (Push r # ops) q = queue_ops ops (push_back r q)"
| "queue_ops (Release ws # ops) q =
     (case release_server_grab_waiters q ws of None \<Rightarrow> [] | Some (q', _) \<Rightarrow> queue_ops ops q')"
| "queue_ops (Pop run # ops) q =
     (case pop_front_if run q of (q', None) \<Rightarrow> queue_ops ops q' | (q', Some r) \<Rightarrow> r # queue_ops ops q')"

fun pops :: "queue_op list \<Rightarrow> nat" where
  "pops [] = 0"
| "pops (Pop run # ops) = Suc (pops ops)"
| "pops (Push r # ops) = pops ops"
| "pops (Release ws # ops) = pops ops"

fun additions :: "queue_op list \<Rightarrow> nat" where
  "additions [] = 0"
| "additions (Pop run # ops) = additions ops"
| "additions (Push r # ops) = Suc (additions ops)"
| "additions (Release ws # ops) = length ws + additions ops"

definition may_run :: "u32 \<Rightarrow> queue_op \<Rightarrow> bool" where
  "may_run c x = (case x of Pop run \<Rightarrow> run c | _ \<Rightarrow> True)"

lemma turn_comes:
  "queue_ok q \<Longrightarrow> ready q = ahead @ c # behind \<Longrightarrow> list_all (may_run c) ops \<Longrightarrow> length ahead < pops ops
   \<Longrightarrow> total_requests (by_client q) + additions ops \<le> usize_max \<Longrightarrow> \<exists>r \<in> set (queue_ops ops q). rq_id r = c"
proof (induction ops arbitrary: q ahead behind)
  case (Cons x ops)
  show ?case
  proof (cases x)
    case (Push r)
    obtain l where "ready (push_back r q) = ahead @ c # behind @ l" using ready_push_back [of r q] Cons.prems(2) by auto
    then show ?thesis using Cons.IH [of "push_back r q" ahead "behind @ l"] Cons.prems Push
      by (simp add: push_back_ok total_push_back)
  next
    case (Release ws)
    have "total_requests (by_client q) + length ws \<le> usize_max" using Cons.prems(5) Release by simp
    then obtain q' l where "release_server_grab_waiters q ws = Some (q', [])" "queue_ok q'" "ready q' = ready q @ l"
      "total_requests (by_client q') = total_requests (by_client q) + length ws"
      using release_waiters [OF Cons.prems(1)] by metis
    then show ?thesis using Cons.IH [of q' ahead "behind @ l"] Cons.prems Release by simp
  next
    case (Pop run)
    then have run: "run c" using Cons.prems(3) by (simp add: may_run_def)
    show ?thesis
    proof (cases rule: pop_front_if_cases [OF Cons.prems(1), of run])
      case 1
      then show ?thesis using run Cons.prems(2) by auto
    next
      case (2 xs d ys)
      have id: "rq_id (hd (queued q d)) = d" using queued_id [OF Cons.prems(1)] 2(4) by simp
      show ?thesis
      proof (cases "d = c")
        case True
        then show ?thesis using 2(5) Pop id by auto
      next
        case False
        have "distinct (ready q)" by (rule queue_okD(2) [OF Cons.prems(1)])
        then obtain zs where z: "ahead = xs @ d # zs" "ys = zs @ c # behind"
          using 2(1-3) Cons.prems(2) run False by (auto simp: append_eq_append_conv2 append_eq_Cons_conv Cons_eq_append_conv)
        then have "\<exists>l. ready (serve d (ys @ xs) q) = zs @ c # l" by (simp add: serve_def)
        then obtain l where l: "ready (serve d (ys @ xs) q) = zs @ c # l" ..
        have t: "total_requests (by_client (serve d (ys @ xs) q)) \<le> total_requests (by_client q)"
          using pop_turns_shrinks 2(5) by (metis less_imp_le pop_front_if_def)
        have "\<exists>r \<in> set (queue_ops ops (serve d (ys @ xs) q)). rq_id r = c"
          by (rule Cons.IH [OF serve_ok [OF Cons.prems(1) 2(1)] l]) (use Cons.prems Pop z t in simp_all)
        then show ?thesis using 2(5) Pop by simp
      qed
    qed
  qed
qed simp

section \<open>Parked requests\<close>

text \<open>The tables by token and by client agree, and a client has one parked request at most.\<close>

definition parked_agree :: "(nat, 'c parked) hash_map \<Rightarrow> (u32, nat) hash_map \<Rightarrow> bool" where
  "parked_agree bt bc \<longleftrightarrow>
     (\<forall>t pk. lookup bt t = Some pk \<longrightarrow> pk_token pk = t \<and> lookup bc (pk_client_id pk) = Some t)
     \<and> (\<forall>c t. lookup bc c = Some t \<longrightarrow> (\<exists>pk. lookup bt t = Some pk \<and> pk_client_id pk = c))"

definition pending_ok :: "('c, 'd) pending_backend_requests \<Rightarrow> bool" where
  "pending_ok p \<longleftrightarrow> parked_agree (crtc_by_token p) (crtc_by_client p) \<and> parked_agree (dri3_by_token p) (dri3_by_client p)
     \<and> (\<forall>c. lookup (crtc_by_client p) c = None \<or> lookup (dri3_by_client p) c = None)"

lemma parked_agree_park:
  "parked_agree bt bc \<Longrightarrow> lookup bt (pk_token pk) = None \<Longrightarrow> lookup bc (pk_client_id pk) = None
   \<Longrightarrow> parked_agree (insert_key (pk_token pk) pk bt) (insert_key (pk_client_id pk) (pk_token pk) bc)"
  unfolding parked_agree_def by (auto split: if_splits) (metis option.distinct(1))+

lemma parked_agreeD:
  assumes "parked_agree bt bc"
  shows "lookup bt t = Some pk \<Longrightarrow> pk_token pk = t" "lookup bt t = Some pk \<Longrightarrow> lookup bc (pk_client_id pk) = Some t"
    "lookup bc c = Some t \<Longrightarrow> \<exists>pk. lookup bt t = Some pk \<and> pk_client_id pk = c"
  using assms unfolding parked_agree_def by blast+

lemma parked_agree_take:
  assumes ok: "parked_agree bt bc" and t: "lookup bt t = Some pk"
  shows "parked_agree (remove_key t bt) (remove_key (pk_client_id pk) bc)"
proof -
  have "pk_client_id pk' \<noteq> pk_client_id pk" if "lookup bt t' = Some pk'" "t' \<noteq> t" for t' pk'
    using parked_agreeD(2) [OF ok t] parked_agreeD(2) [OF ok that(1)] that(2) by auto
  moreover have "t' \<noteq> t" if "lookup bc c = Some t'" "c \<noteq> pk_client_id pk" for c t'
    using parked_agreeD(3) [OF ok that(1)] t that(2) by auto
  ultimately show ?thesis using ok unfolding parked_agree_def by simp
qed

lemma parked_agree_take_client:
  "parked_agree bt bc \<Longrightarrow> lookup bc c = Some t \<Longrightarrow> parked_agree (remove_key t bt) (remove_key c bc)"
  using parked_agree_take [of bt bc t] parked_agreeD(3) [of bt bc c t] by blast

lemma parked_agree_empty: "parked_agree [] []"
  by (simp add: parked_agree_def)

inductive pending_step :: "('c, 'd) pending_backend_requests \<Rightarrow> ('c, 'd) pending_backend_requests \<Rightarrow> bool" where
  "park_crtc pk p = Inr p' \<Longrightarrow> pending_step p p'"
| "park_dri3 dk p = Inr p' \<Longrightarrow> pending_step p p'"
| "pending_step p (fst (take_crtc t p))"
| "pending_step p (fst (take_dri3 t p))"
| "pending_step p (drop_pending c p)"
| "pending_step p (fst (block_xi_config c p))"
| "pending_step p (unblock_xi_config c p)"
| "pending_step p (fst (take_all_dri3_tokens (fst (take_all_crtc_tokens p))))"

lemma pending_ok_one:
  "pending_ok p \<Longrightarrow> lookup (dri3_by_client p) c = Some t \<Longrightarrow> lookup (crtc_by_client p) c = None"
  unfolding pending_ok_def by (metis option.distinct(1))

lemma pending_ok_take_client:
  "pending_ok p \<Longrightarrow> pending_ok (fst (take_client_crtc c p))" "pending_ok p \<Longrightarrow> pending_ok (fst (take_client_dri3 c p))"
  by (auto simp: pending_ok_def take_client_crtc_def take_client_dri3_def parked_agree_take_client split: option.split)

lemma pending_step_ok: "pending_step p p' \<Longrightarrow> pending_ok p \<Longrightarrow> pending_ok p'"
proof (induction rule: pending_step.induct)
  case (5 p c)
  then have "pending_ok (fst (take_client_dri3 c (fst (take_client_crtc c p))))" by (intro pending_ok_take_client)
  then show ?case by (simp add: drop_pending_def unblock_xi_config_def pending_ok_def)
next
  case (8 p)
  then show ?case by (simp add: pending_ok_def take_all_dri3_tokens_def take_all_crtc_tokens_def parked_agree_empty)
next
  case (1 pk p p')
  then show ?case using pending_ok_one [of p] by (auto simp: pending_ok_def park_crtc_def parked_agree_park split: if_splits)
next
  case (2 dk p p')
  then show ?case using pending_ok_one [of p] by (auto simp: pending_ok_def park_dri3_def parked_agree_park split: if_splits)
qed (simp_all add: pending_ok_def take_crtc_def take_dri3_def block_xi_config_def unblock_xi_config_def parked_agree_take split: option.split)

interpretation parked: invariant_machine "\<lambda>p. p = no_pending_requests" pending_step pending_ok
proof
  show "pending_ok p" if "p = no_pending_requests" for p :: "('c, 'd) pending_backend_requests"
    using that by (simp add: pending_ok_def no_pending_requests_def parked_agree_empty)
qed (rule pending_step_ok)

end
