(* ===== verification/Request_Props.thy ===== *)
theory Request_Props
  imports Request_Order
begin

text \<open>The properties of the request loop, with a small concrete run that witnesses them.\<close>

declare map_of_eq_Some_iff [simp del] Some_eq_map_of_iff [simp del]

definition sample_request :: "u32 \<Rightarrow> u16 \<Rightarrow> u8 \<Rightarrow> deferred_request" where
  "sample_request c n opcode = \<lparr>rq_id = c, rq_sequence = n, accepted_at = None,
     rq_header = \<lparr>hd_opcode = opcode, hd_data = 0, length_units = 1\<rparr>, rq_body = [], attached_fd = None\<rparr>"

definition sample_state :: "(unit, unit) core_state" where
  "sample_state = \<lparr>server_grab_owner = None,
     core_sync = \<lparr>sync_counters = [], sync_alarms = [], sync_fences = [], sync_awaits = [], sync_servertime_last = None,
       idletime_last_evaluated = []\<rparr>,
     record_recording = {}, record_failed = {}, write_failed = [(1, False), (2, False)], backend_pending = no_pending_requests\<rparr>"

definition sample_queue :: fair_request_queue where
  "sample_queue = push_back (sample_request 2 1 14) (push_back (sample_request 1 1 36) empty_queue)"

definition sample_loop :: "(unit, unit) request_loop" where
  "sample_loop = \<lparr>rl_state = sample_state, rl_queue = sample_queue, rl_waiters = [],
     rl_arrived = [sample_request 1 1 36, sample_request 2 1 14], rl_served = []\<rparr>"

definition sample_loop_after :: "(unit, unit) request_loop" where
  "sample_loop_after = \<lparr>rl_state = sample_state\<lparr>server_grab_owner := Some 1\<rparr>, rl_queue = empty_queue,
     rl_waiters = [sample_request 2 1 14], rl_arrived = [sample_request 1 1 36, sample_request 2 1 14],
     rl_served = [sample_request 1 1 36]\<rparr>"

lemmas sample_defs = sample_request_def sample_state_def sample_queue_def sample_loop_def sample_loop_after_def

lemmas request_eval = start_iteration_def drain_pending_requests.simps release_server_grab_waiters_def budget_exhausted_def
  REQUEST_TIME_BUDGET_def MAX_REQUESTS_PER_ITER_def pop_front_unblocked_def pop_front_if_def push_back_def empty_queue_def
  client_runnable_def client_is_blocked_def client_is_suspended_def client_blocks_requests_def no_pending_requests_def
  dispatch_grabs_def handle_grab_server_def blocked_by_server_grab_def

lemma sample_iteration:
  "start_iteration (dispatch_grabs (\<lambda>r w. w)) id sample_state sample_queue []
   = Some (sample_state\<lparr>server_grab_owner := Some 1\<rparr>, empty_queue, [sample_request 2 1 14], 31, [sample_request 1 1 36])"
  by (simp add: sample_defs request_eval)

lemma sample_reachable:
  "reachable loop_start (loop_step (dispatch_grabs (\<lambda>r w. w))) sample_loop"
  "reachable loop_start (loop_step (dispatch_grabs (\<lambda>r w. w))) sample_loop_after"
proof -
  let ?step = "loop_step (dispatch_grabs (\<lambda>r w. w)) :: (unit, unit) request_loop \<Rightarrow> _"
  let ?s0 = "\<lparr>rl_state = sample_state, rl_queue = empty_queue, rl_waiters = [], rl_arrived = [], rl_served = []\<rparr>"
  have s0: "reachable loop_start ?step ?s0"
    by (rule reachable.initial) (simp add: loop_start_def sample_state_def)
  have "?step ?s0 (?s0\<lparr>rl_queue := push_back (sample_request 1 1 36) empty_queue, rl_waiters := [], rl_arrived := [] @ [sample_request 1 1 36]\<rparr>)"
    using loop_step.message [of ?s0 "sample_request 1 1 36"]
    by (simp add: after_message_def sample_state_def release_server_grab_waiters_def waiting_def empty_queue_def usize_max_def)
  from reachable.step [OF s0 this] have s1: "reachable loop_start ?step
      (?s0\<lparr>rl_queue := push_back (sample_request 1 1 36) empty_queue, rl_waiters := [], rl_arrived := [sample_request 1 1 36]\<rparr>)" by simp
  have "?step (?s0\<lparr>rl_queue := push_back (sample_request 1 1 36) empty_queue, rl_waiters := [], rl_arrived := [sample_request 1 1 36]\<rparr>) sample_loop"
    using loop_step.message [of "?s0\<lparr>rl_queue := push_back (sample_request 1 1 36) empty_queue, rl_waiters := [], rl_arrived := [sample_request 1 1 36]\<rparr>" "sample_request 2 1 14"]
    by (simp add: after_message_def sample_state_def sample_loop_def sample_queue_def release_server_grab_waiters_def waiting_def
        empty_queue_def usize_max_def push_back_def)
  from reachable.step [OF s1 this] show s2: "reachable loop_start ?step sample_loop" .
  have "?step sample_loop sample_loop_after"
    using loop_step.iteration [of "dispatch_grabs (\<lambda>r w. w)" id sample_loop] sample_iteration
    by (simp add: sample_loop_def sample_loop_after_def)
  from reachable.step [OF s2 this] show "reachable loop_start ?step sample_loop_after" .
qed

text \<open>
  C25. Requests run in each client's order. In every run of the loop, whatever the other handlers do
  as long as they do not take the grab, the requests of a client that arrived are those that were
  served, then those a server grab holds back, then those in its queue, in the order of arrival.
\<close>

theorem requests_in_order:
  assumes "\<And>r w. server_grab_owner (other r w) \<in> {server_grab_owner w, None}"
    and "reachable loop_start (loop_step (dispatch_grabs other)) s"
  shows "of_client c (rl_arrived s) = of_client c (rl_served s) @ of_client c (rl_waiters s) @ queued (rl_queue s) c"
proof -
  have "other_requests other" using assms(1) by (rule other_requests.intro)
  then have "loop_ok s" using assms(2) by (rule other_requests.reached_ok)
  then show ?thesis by (simp add: loop_ok_def backlog_def)
qed

theorem requests_in_order_witness:
  "rl_waiters sample_loop_after = [sample_request 2 1 14] \<and> rl_served sample_loop_after = [sample_request 1 1 36]
   \<and> of_client 2 (rl_arrived sample_loop_after)
     = of_client 2 (rl_served sample_loop_after) @ of_client 2 (rl_waiters sample_loop_after) @ queued (rl_queue sample_loop_after) 2"
  using requests_in_order [OF _ sample_reachable(2), of 2] by (simp add: sample_loop_after_def)

text \<open>
  C26. An iteration of the loop returns, without a panic, after at most 32 requests; each of them ran
  while its client was allowed to run and no other client held the server grab; and the loop goes
  back to waiting with budget left only when no queued client may run.
\<close>

theorem iteration_serves:
  assumes "\<And>r w. server_grab_owner (other r w) \<in> {server_grab_owner w, None}"
    and "reachable loop_start (loop_step (dispatch_grabs other)) s"
  shows "\<exists>w' q' waiters' budget served.
      start_iteration (dispatch_grabs other) elapsed (rl_state s) (rl_queue s) (rl_waiters s) = Some (w', q', waiters', budget, served)
      \<and> w' = fold (dispatch_grabs other) served (rl_state s) \<and> ran_allowed (dispatch_grabs other) (rl_state s) served
      \<and> budget + length served = 32 \<and> ((\<exists>t. budget_exhausted budget (elapsed t)) \<or> \<not> has_runnable w' q')"
proof -
  have "other_requests other" using assms(1) by (rule other_requests.intro)
  then obtain q ws d where "start_iteration (dispatch_grabs other) elapsed (rl_state s) (rl_queue s) (rl_waiters s) = Some d"
    "drain_contract (dispatch_grabs other) elapsed (rl_state s) q ws MAX_REQUESTS_PER_ITER d"
    using other_requests.iteration_contract assms(2) by blast
  then show ?thesis by (cases d) (auto simp: drain_contract_def MAX_REQUESTS_PER_ITER_def)
qed

theorem iteration_serves_witness:
  "\<exists>w' q' waiters' budget served.
      start_iteration (dispatch_grabs (\<lambda>r w. w)) id (rl_state sample_loop) (rl_queue sample_loop) (rl_waiters sample_loop) = Some (w', q', waiters', budget, served)
      \<and> w' = fold (dispatch_grabs (\<lambda>r w. w)) served (rl_state sample_loop) \<and> ran_allowed (dispatch_grabs (\<lambda>r w. w)) (rl_state sample_loop) served
      \<and> budget + length served = 32 \<and> ((\<exists>t. budget_exhausted budget (id t)) \<or> \<not> has_runnable w' q')"
  by (rule iteration_serves [OF _ sample_reachable(1)]) simp

text \<open>
  C27. Fairness. A client that stays allowed to run is served after at most as many pops as clients
  stand before it in the ring, and one, whatever is pushed or released to the queue meanwhile and
  whichever other clients may run.
\<close>

theorem turn_comes_round:
  assumes "queue_ok q" and "ready q = ahead @ c # behind" and "list_all (may_run c) ops" and "length ahead < pops ops"
    and "total_requests (by_client q) + additions ops \<le> usize_max"
  shows "\<exists>r \<in> set (queue_ops ops q). rq_id r = c"
  using assms by (rule turn_comes)

theorem turn_comes_round_witness:
  "\<exists>r \<in> set (queue_ops [Pop (\<lambda>c. True), Push (sample_request 1 2 14), Pop (\<lambda>c. c = 2)] sample_queue). rq_id r = 2"
proof (rule turn_comes_round [where ahead = "[1]" and behind = "[]"])
  show "queue_ok sample_queue" by (simp add: sample_queue_def push_back_ok empty_queue_ok)
qed (simp_all add: sample_queue_def sample_request_def push_back_def empty_queue_def may_run_def usize_max_def)

text \<open>
  Parked requests. In every reachable state a client has at most one request parked at the
  backend; taking it by its token lets the client run again, and a client that leaves takes its
  parked request with it and leaves the others alone.
\<close>

theorem parked_requests_consistent:
  assumes "reachable (\<lambda>p. p = no_pending_requests) pending_step p"
  shows "(lookup (crtc_by_token p) t = Some pk \<and> pk_client_id pk \<notin> xi_config_clients p
           \<longrightarrow> \<not> client_is_blocked (fst (take_crtc t p)) (pk_client_id pk))
    \<and> \<not> client_is_blocked (drop_pending c p) c
    \<and> (lookup (crtc_by_token p) t = Some pk
           \<longrightarrow> lookup (crtc_by_token (drop_pending c p)) t = (if pk_client_id pk = c then None else Some pk))"
proof -
  have ok: "pending_ok p" using assms by (rule parked.reachable_inv)
  have agree: "parked_agree (crtc_by_token p) (crtc_by_client p)" using ok by (simp add: pending_ok_def)
  have one: "lookup (dri3_by_client p) x = None" if "lookup (crtc_by_client p) x = Some y" for x y
    using ok that unfolding pending_ok_def by (metis option.distinct(1))
  have "\<not> client_is_blocked (fst (take_crtc t p)) (pk_client_id pk)"
    if "lookup (crtc_by_token p) t = Some pk" "pk_client_id pk \<notin> xi_config_clients p"
    using that one [OF parked_agreeD(2) [OF agree that(1)]] by (simp add: client_is_blocked_def take_crtc_def)
  moreover have "\<not> client_is_blocked (drop_pending c p) c"
    by (simp add: drop_pending_def client_is_blocked_def unblock_xi_config_def take_client_dri3_def take_client_crtc_def split: option.split)
  moreover have "lookup (crtc_by_token (drop_pending c p)) t = (if pk_client_id pk = c then None else Some pk)"
    if "lookup (crtc_by_token p) t = Some pk"
    using that parked_agreeD(2) [OF agree that] parked_agreeD(3) [OF agree, of c]
    by (auto simp: drop_pending_def unblock_xi_config_def take_client_dri3_def take_client_crtc_def split: option.split)
  ultimately show ?thesis by blast
qed

definition sample_pending :: "(unit, unit) pending_backend_requests" where
  "sample_pending = no_pending_requests\<lparr>crtc_by_client := [(1, 7)],
     crtc_by_token := [(7, \<lparr>pk_client_id = 1, pk_sequence = 3, pk_token = 7, pk_completion = (), pk_request_wire_bytes = 28\<rparr>)]\<rparr>"

lemma sample_pending_reachable: "reachable (\<lambda>p. p = no_pending_requests) pending_step sample_pending"
proof -
  have "pending_step no_pending_requests sample_pending"
    by (rule pending_step.intros(1) [of "\<lparr>pk_client_id = 1, pk_sequence = 3, pk_token = 7, pk_completion = (), pk_request_wire_bytes = 28\<rparr>"])
      (simp add: park_crtc_def sample_pending_def no_pending_requests_def)
  then show ?thesis by (rule reachable.step [OF reachable.initial [where init = "\<lambda>p. p = no_pending_requests", OF refl]])
qed

theorem parked_requests_consistent_witness:
  "client_is_blocked sample_pending 1 \<and> \<not> client_is_blocked (fst (take_crtc 7 sample_pending)) 1 \<and> \<not> client_is_blocked (drop_pending 1 sample_pending) 1"
  using parked_requests_consistent [OF sample_pending_reachable, of 7 _ 1]
  by (simp add: sample_pending_def no_pending_requests_def client_is_blocked_def take_crtc_def)

end
