(* ===== verification/Byte_Swap.thy ===== *)
theory Byte_Swap
  imports Wire
begin

text \<open>
  Byte swapping by field tables (\<open>x11/wire_swap.rs\<close>): the bodies of requests from big-endian
  clients are turned to little-endian in place, and event templates to the recipient's order. A
  table lists the typed fields of a buffer; the specification, \<open>source_index\<close>, says for each byte
  of the result which byte of the buffer it is.
\<close>

datatype field_kind = U16 | I16 | U32 | I32

fun field_size :: "field_kind \<Rightarrow> nat" where
  "field_size U16 = 2" | "field_size I16 = 2" | "field_size U32 = 4" | "field_size I32 = 4"

text \<open>Offsets are \<open>u16\<close> in the source and used as \<open>usize\<close>.\<close>

datatype field_entry =
    Fixed nat field_kind
  | OpaqueTail nat
  | ElementArrayTail nat field_kind
  | LengthPrefixedBytes nat field_kind nat
  | Custom "client_byte_order \<Rightarrow> u8 list \<Rightarrow> u8 list"

text \<open>\<open>buf[offset..offset + n].reverse()\<close>.\<close>

definition reverse_at :: "nat \<Rightarrow> nat \<Rightarrow> u8 list \<Rightarrow> u8 list" where
  "reverse_at offset n buf = take offset buf @ rev (take n (drop offset buf)) @ drop (offset + n) buf"

definition swap_typed :: "u8 list \<Rightarrow> nat \<Rightarrow> field_kind \<Rightarrow> u8 list" where
  "swap_typed buf offset kind =
     (if offset + field_size kind > length buf then buf else reverse_at offset (field_size kind) buf)"

lemma length_reverse_at [simp]: "offset + n \<le> length buf \<Longrightarrow> length (reverse_at offset n buf) = length buf"
  by (simp add: reverse_at_def)

lemma length_swap_typed [simp]: "length (swap_typed buf offset kind) = length buf"
  by (simp add: swap_typed_def)

lemma field_size_pos [simp]: "0 < field_size kind"
  by (cases kind) simp_all

text \<open>The loop over a uniform array.\<close>

function swap_elements :: "field_kind \<Rightarrow> nat \<Rightarrow> u8 list \<Rightarrow> u8 list" where
  "swap_elements kind off buf =
     (if off + field_size kind \<le> length buf then swap_elements kind (off + field_size kind) (swap_typed buf off kind) else buf)"
  by pat_completeness auto
termination
  by (relation "measure (\<lambda>(kind, off, buf). length buf - off)")
    (simp, metis field_size_pos in_measure length_swap_typed case_prod_conv add_leD1 diff_less_mono2 le_neq_implies_less less_add_same_cancel1 not_add_less1)

declare swap_elements.simps [simp del]

definition apply_entry :: "field_entry \<Rightarrow> client_byte_order \<Rightarrow> u8 list \<Rightarrow> u8 list" where
  "apply_entry entry byte_order buf =
     (case entry of
        Fixed offset kind \<Rightarrow> swap_typed buf offset kind
      | OpaqueTail from \<Rightarrow> buf
      | ElementArrayTail from kind \<Rightarrow> if from \<ge> length buf then buf else swap_elements kind from buf
      | LengthPrefixedBytes length_offset length_kind data_offset \<Rightarrow> swap_typed buf length_offset length_kind
      | Custom f \<Rightarrow> f byte_order buf)"

definition swap_in_place :: "field_entry list \<Rightarrow> client_byte_order \<Rightarrow> u8 list \<Rightarrow> u8 list" where
  "swap_in_place entries byte_order buf =
     (if byte_order = LittleEndian then buf else fold (\<lambda>entry. apply_entry entry byte_order) entries buf)"

section \<open>Which byte goes where\<close>

definition mirror :: "nat \<Rightarrow> nat \<Rightarrow> nat \<Rightarrow> nat" where
  "mirror start n i = start + (n - 1 - (i - start))"

text \<open>The source of byte \<open>i\<close> under one entry in a buffer of \<open>len\<close> bytes; \<open>None\<close> when the entry leaves it alone.\<close>

definition entry_source :: "field_entry \<Rightarrow> nat \<Rightarrow> nat \<Rightarrow> nat option" where
  "entry_source entry len i =
     (case entry of
        Fixed offset kind \<Rightarrow>
          if offset \<le> i \<and> i < offset + field_size kind \<and> offset + field_size kind \<le> len then Some (mirror offset (field_size kind) i) else None
      | LengthPrefixedBytes offset kind _ \<Rightarrow>
          if offset \<le> i \<and> i < offset + field_size kind \<and> offset + field_size kind \<le> len then Some (mirror offset (field_size kind) i) else None
      | ElementArrayTail from kind \<Rightarrow>
          let start = from + (i - from) div field_size kind * field_size kind in
          if from \<le> i \<and> start + field_size kind \<le> len then Some (mirror start (field_size kind) i) else None
      | _ \<Rightarrow> None)"

fun source_index :: "field_entry list \<Rightarrow> nat \<Rightarrow> nat \<Rightarrow> nat" where
  "source_index [] len i = i"
| "source_index (e # es) len i = (case entry_source e len i of Some j \<Rightarrow> j | None \<Rightarrow> source_index es len i)"

text \<open>
  The entries of a table come in the order of their fields, which do not overlap, and only the last
  may be open-ended.
\<close>

fun table_from :: "nat \<Rightarrow> field_entry list \<Rightarrow> bool" where
  "table_from start [] \<longleftrightarrow> True"
| "table_from start (Fixed offset kind # es) \<longleftrightarrow> start \<le> offset \<and> table_from (offset + field_size kind) es"
| "table_from start (LengthPrefixedBytes offset kind data # es) \<longleftrightarrow> start \<le> offset \<and> table_from (offset + field_size kind) es"
| "table_from start (OpaqueTail from # es) \<longleftrightarrow> start \<le> from \<and> es = []"
| "table_from start (ElementArrayTail from kind # es) \<longleftrightarrow> start \<le> from \<and> es = []"
| "table_from start (Custom f # es) \<longleftrightarrow> False"

lemma nth_reverse_at:
  assumes "off + n \<le> length buf" and "i < length buf"
  shows "reverse_at off n buf ! i = buf ! (if off \<le> i \<and> i < off + n then mirror off n i else i)"
proof -
  have "length (take n (drop off buf)) = n" "length (take off buf) = off" using assms(1) by simp_all
  then show ?thesis using assms
    by (auto simp: reverse_at_def nth_append rev_nth mirror_def simp del: length_take intro!: arg_cong [where f = "nth buf"])
qed

lemma nth_swap_typed:
  "i < length buf \<Longrightarrow> swap_typed buf off kind ! i
   = buf ! (if off \<le> i \<and> i < off + field_size kind \<and> off + field_size kind \<le> length buf then mirror off (field_size kind) i else i)"
  by (auto simp: swap_typed_def nth_reverse_at)

lemma length_swap_elements [simp]: "length (swap_elements kind off buf) = length buf"
proof (induction kind off buf rule: swap_elements.induct)
  case (1 kind off buf)
  then show ?case by (subst swap_elements.simps) simp
qed

lemma mirror_bounds: "start \<le> i \<Longrightarrow> i < start + n \<Longrightarrow> start \<le> mirror start n i \<and> mirror start n i < start + n"
  unfolding mirror_def by arith

lemma mirror_mirror [simp]: "start \<le> i \<Longrightarrow> i < start + n \<Longrightarrow> mirror start n (mirror start n i) = i"
  unfolding mirror_def by arith

lemma element_of: "from \<le> i \<Longrightarrow> from + (i - from) div field_size kind * field_size kind \<le> i
    \<and> i < from + (i - from) div field_size kind * field_size kind + field_size kind"
proof -
  assume "from \<le> i"
  moreover have "(i - from) div field_size kind * field_size kind \<le> i - from" by (rule div_times_less_eq_dividend)
  moreover have "i - from < field_size kind + (i - from) div field_size kind * field_size kind"
    by (rule dividend_less_div_times) simp
  ultimately show ?thesis by linarith
qed

lemma array_source_shift:
  assumes "off + field_size kind \<le> i"
  shows "entry_source (ElementArrayTail (off + field_size kind) kind) len i = entry_source (ElementArrayTail off kind) len i"
proof -
  have "(i - off) div field_size kind = Suc ((i - (off + field_size kind)) div field_size kind)"
    using assms div_add_self2 [of "field_size kind" "i - (off + field_size kind)"]
    by (simp add: field_size_pos [THEN less_imp_neq, symmetric])
  then have "off + (i - off) div field_size kind * field_size kind
      = off + field_size kind + (i - (off + field_size kind)) div field_size kind * field_size kind" by simp
  then show ?thesis using assms unfolding entry_source_def field_entry.case Let_def by presburger
qed

lemma nth_swap_elements:
  "i < length buf \<Longrightarrow> swap_elements kind off buf ! i
   = buf ! (case entry_source (ElementArrayTail off kind) (length buf) i of Some j \<Rightarrow> j | None \<Rightarrow> i)"
proof (induction kind off buf rule: swap_elements.induct)
  case (1 kind off buf)
  let ?n = "field_size kind"
  show ?case
  proof (cases "off + ?n \<le> length buf")
    case False
    have "off \<le> i \<Longrightarrow> \<not> off + (i - off) div ?n * ?n + ?n \<le> length buf" using False by linarith
    then have "entry_source (ElementArrayTail off kind) (length buf) i = None"
      by (auto simp: entry_source_def Let_def)
    then show ?thesis using False by (simp add: swap_elements.simps [of kind off buf])
  next
    case True
    have step: "swap_elements kind off buf ! i = swap_elements kind (off + ?n) (swap_typed buf off kind) ! i"
      using True by (simp add: swap_elements.simps [of kind off buf])
    consider "i < off" | "off \<le> i" "i < off + ?n" | "off + ?n \<le> i" by linarith
    then show ?thesis
    proof cases
      case 3
      then have d: "(i - off) div ?n = Suc ((i - (off + ?n)) div ?n)"
        using div_add_self2 [of ?n "i - (off + ?n)"] by (simp add: field_size_pos [THEN less_imp_neq, symmetric])
      let ?s = "off + (i - off) div ?n * ?n"
      have le: "off + ?n \<le> ?s" using d by simp
      have el: "?s \<le> i" "i < ?s + ?n" using element_of [of off i kind] 3 by auto
      let ?src = "entry_source (ElementArrayTail off kind) (length buf) i"
      have same: "entry_source (ElementArrayTail (off + ?n) kind) (length buf) i = ?src"
        by (rule array_source_shift [OF 3])
      have "j \<ge> off + ?n \<and> j < length buf" if "?src = Some j" for j
        using that le mirror_bounds [OF el] unfolding entry_source_def field_entry.case Let_def
        by (auto simp only: option.inject split: if_splits)
      then show ?thesis unfolding step using "1.IH" [OF True] "1.prems" 3 same
        by (auto simp: nth_swap_typed split: option.splits)
    qed (use 1 True step in \<open>auto simp: entry_source_def Let_def nth_swap_typed\<close>)
  qed
qed

lemma length_apply_entry: "(\<forall>f. e \<noteq> Custom f) \<Longrightarrow> length (apply_entry e bo buf) = length buf"
  by (cases e) (simp_all add: apply_entry_def)

lemma nth_apply_entry:
  "(\<forall>f. e \<noteq> Custom f) \<Longrightarrow> i < length buf
   \<Longrightarrow> apply_entry e bo buf ! i = buf ! (case entry_source e (length buf) i of Some j \<Rightarrow> j | None \<Rightarrow> i)"
proof (cases e)
  case (ElementArrayTail a kind)
  assume i: "i < length buf"
  have "entry_source e (length buf) i = None" if "a \<ge> length buf"
    using that i ElementArrayTail by (simp add: entry_source_def)
  then show ?thesis using i ElementArrayTail nth_swap_elements [of i buf kind a] by (auto simp: apply_entry_def)
qed (simp_all add: apply_entry_def entry_source_def nth_swap_typed)

text \<open>An entry moves the bytes of a field among themselves, and does so back again.\<close>

lemma entry_source_field:
  assumes "entry_source e len i = Some j"
  obtains start n where "start \<le> i" "i < start + n" "start + n \<le> len" "j = mirror start n i"
proof (cases e)
  case (ElementArrayTail a kind)
  then show ?thesis using that element_of [of a i kind] assms
    unfolding entry_source_def ElementArrayTail field_entry.case Let_def by (metis option.distinct(1) option.inject)
qed (use assms that in \<open>auto simp: entry_source_def split: if_splits\<close>)

lemma entry_source_less: "entry_source e len i = Some j \<Longrightarrow> j < len"
  using mirror_bounds by (elim entry_source_field) fastforce

lemma same_element: "a + q * n \<le> j \<Longrightarrow> j < a + q * n + n \<Longrightarrow> (j - a) div n = (q :: nat)"
  by (rule div_nat_eqI) (simp_all add: mult.commute le_diff_conv2 less_diff_conv2 add.commute)

lemma entry_source_back: "entry_source e len i = Some j \<Longrightarrow> entry_source e len j = Some i"
proof (cases e)
  case (ElementArrayTail a kind)
  assume src: "entry_source e len i = Some j"
  let ?n = "field_size kind" let ?q = "(i - a) div ?n"
  have le: "a \<le> i" and fits: "a + ?q * ?n + ?n \<le> len" and j: "j = mirror (a + ?q * ?n) ?n i"
    using src le_refl unfolding entry_source_def ElementArrayTail field_entry.case Let_def by (auto split: if_splits)
  note el = element_of [OF le, of kind]
  have jb: "a + ?q * ?n \<le> j" "j < a + ?q * ?n + ?n" using mirror_bounds [of "a + ?q * ?n" i ?n] el j by auto
  then have q: "(j - a) div ?n = ?q" by (rule same_element)
  have "a \<le> j" using jb(1) by linarith
  then show ?thesis using q fits j el unfolding entry_source_def ElementArrayTail field_entry.case Let_def by simp
next
  case (Fixed off kind)
  assume "entry_source e len i = Some j"
  then show ?thesis using Fixed mirror_bounds [of off i "field_size kind"] by (auto simp: entry_source_def split: if_splits)
next
  case (LengthPrefixedBytes off kind d)
  assume "entry_source e len i = Some j"
  then show ?thesis using LengthPrefixedBytes mirror_bounds [of off i "field_size kind"] by (auto simp: entry_source_def split: if_splits)
qed (simp_all add: entry_source_def)

section \<open>Tables\<close>

text \<open>What an entry touches lies between the end of the fields before it and its own end.\<close>

lemma table_from_Cons:
  assumes "table_from s (e # es)"
  obtains t where "\<forall>f. e \<noteq> Custom f" "table_from t es" "s \<le> t"
    "\<And>len i. entry_source e len i \<noteq> None \<Longrightarrow> s \<le> i \<and> (es = [] \<or> i < t)"
proof (cases e)
  case (Fixed off kind)
  show ?thesis by (rule that [of "off + field_size kind"]) (use Fixed assms in \<open>auto simp: entry_source_def split: if_splits\<close>)
next
  case (LengthPrefixedBytes off kind d)
  show ?thesis by (rule that [of "off + field_size kind"]) (use LengthPrefixedBytes assms in \<open>auto simp: entry_source_def split: if_splits\<close>)
next
  case (ElementArrayTail a kind)
  show ?thesis by (rule that [of s]) (use ElementArrayTail assms in \<open>auto simp: entry_source_def Let_def split: if_splits\<close>)
qed (use assms that [of s] in \<open>auto simp: entry_source_def\<close>)

lemma entry_not_below: "table_from s es \<Longrightarrow> e \<in> set es \<Longrightarrow> entry_source e len i \<noteq> None \<Longrightarrow> s \<le> i"
proof (induction es arbitrary: s)
  case (Cons e' es)
  obtain t where t: "table_from t es" "s \<le> t" "entry_source e' len i \<noteq> None \<Longrightarrow> s \<le> i"
    by (rule table_from_Cons [OF Cons.prems(1)]) blast
  then show ?case using Cons.IH [OF t(1)] Cons.prems(2,3) by fastforce
qed simp

lemma source_index_below: "table_from s es \<Longrightarrow> i < s \<Longrightarrow> source_index es len i = i"
proof (induction es arbitrary: s)
  case (Cons e es)
  obtain t where t: "table_from t es" "s \<le> t" "entry_source e len i \<noteq> None \<Longrightarrow> s \<le> i"
    by (rule table_from_Cons [OF Cons.prems(1)]) blast
  then show ?case using Cons.IH [OF t(1)] Cons.prems(2) by (cases "entry_source e len i") auto
qed simp

text \<open>A byte that a table moves is moved by exactly one of its entries.\<close>

lemma source_index_unique:
  "table_from s es \<Longrightarrow> e \<in> set es \<Longrightarrow> entry_source e len i = Some j \<Longrightarrow> source_index es len i = j"
proof (induction es arbitrary: s)
  case (Cons e' es)
  obtain t where t: "table_from t es" "\<And>len i. entry_source e' len i \<noteq> None \<Longrightarrow> s \<le> i \<and> (es = [] \<or> i < t)"
    by (rule table_from_Cons [OF Cons.prems(1)]) blast
  show ?case
  proof (cases "e = e'")
    case False
    then have e: "e \<in> set es" using Cons.prems(2) by simp
    have s: "source_index es len i = j" by (rule Cons.IH [OF t(1) e Cons.prems(3)])
    show ?thesis
    proof (cases "entry_source e' len i")
      case (Some k)
      then have "i < t" using t(2) e by fastforce
      then show ?thesis using entry_not_below [OF t(1) e] Cons.prems(3) by fastforce
    qed (simp add: s)
  qed (use Cons.prems(3) in simp)
qed simp

lemma source_index_moved: "source_index es len i \<noteq> i \<Longrightarrow> \<exists>e \<in> set es. entry_source e len i = Some (source_index es len i)"
  by (induction es) (auto split: option.splits)

lemma source_index_back:
  assumes "table_from s es"
  shows "source_index es len (source_index es len i) = i"
proof (cases "source_index es len i = i")
  case False
  then obtain e where "e \<in> set es" "entry_source e len i = Some (source_index es len i)" using source_index_moved by blast
  then show ?thesis using source_index_unique [OF assms] entry_source_back by blast
qed simp

lemma source_index_less: "i < len \<Longrightarrow> source_index es len i < len"
  using source_index_moved [of es len i] entry_source_less by (cases "source_index es len i = i") auto

text \<open>The table's meaning: the result has the bytes the specification says.\<close>

lemma length_fold_apply: "\<forall>e \<in> set es. \<forall>f. e \<noteq> Custom f \<Longrightarrow> length (fold (\<lambda>e. apply_entry e bo) es buf) = length buf"
  by (induction es arbitrary: buf) (simp_all add: length_apply_entry)

lemma table_no_custom: "table_from s es \<Longrightarrow> e \<in> set es \<Longrightarrow> e \<noteq> Custom f"
proof (induction es arbitrary: s)
  case (Cons e' es)
  obtain t where "\<forall>f. e' \<noteq> Custom f" "table_from t es"
    by (rule table_from_Cons [OF Cons.prems(1)]) blast
  then show ?case using Cons.IH Cons.prems(2) by auto
qed simp

lemma nth_fold_apply:
  "table_from s es \<Longrightarrow> i < length buf \<Longrightarrow> fold (\<lambda>e. apply_entry e bo) es buf ! i = buf ! source_index es (length buf) i"
proof (induction es arbitrary: s buf)
  case (Cons e es)
  obtain t where t: "\<forall>f. e \<noteq> Custom f" "table_from t es" "\<And>len i. entry_source e len i \<noteq> None \<Longrightarrow> s \<le> i \<and> (es = [] \<or> i < t)"
    by (rule table_from_Cons [OF Cons.prems(1)]) blast
  let ?k = "source_index es (length buf) i"
  have k: "?k < length buf" using Cons.prems(2) by (rule source_index_less)
  have "fold (\<lambda>e. apply_entry e bo) (e # es) buf ! i = apply_entry e bo buf ! ?k"
    using Cons.IH [OF t(2), of "apply_entry e bo buf"] Cons.prems(2) length_apply_entry [OF t(1)] by simp
  also have "\<dots> = buf ! (case entry_source e (length buf) ?k of Some j \<Rightarrow> j | None \<Rightarrow> ?k)"
    by (rule nth_apply_entry [OF t(1) k])
  also have "(case entry_source e (length buf) ?k of Some j \<Rightarrow> j | None \<Rightarrow> ?k) = source_index (e # es) (length buf) i"
  proof (cases "?k = i")
    case False
    then obtain e' where e': "e' \<in> set es" "entry_source e' (length buf) i = Some ?k" using source_index_moved by blast
    have "t \<le> ?k" using entry_not_below [OF t(2) e'(1)] entry_source_back [OF e'(2)] by fastforce
    then have "entry_source e (length buf) ?k = None" using t(3) [of "length buf" ?k] e'(1) by fastforce
    moreover have "entry_source e (length buf) i = None"
      using t(3) [of "length buf" i] source_index_below [OF t(2), of i] e'(1) False by fastforce
    ultimately show ?thesis by simp
  qed (auto split: option.split)
  finally show ?case .
qed simp

end
