(* ===== verification/Swap_Tables.thy ===== *)
theory Swap_Tables
  imports Byte_Swap
begin

text \<open>
  The swap tables of the core events (\<open>x11/wire_swap.rs\<close>) and of the request bodies of the core
  protocol, XInput, RANDR and XFree86-VidMode (\<open>x11/request_swap.rs\<close>), the swaps of irregular
  tails, and \<open>swap_request_body\<close>. Offsets do not count the request header. A table is the list of the
  arms of its match, in order.
\<close>

type_synonym swap_arms = "(u8 list \<times> field_entry list) list"

fun match_arm :: "swap_arms \<Rightarrow> u8 \<Rightarrow> field_entry list option" where
  "match_arm [] op = None"
| "match_arm ((ops, entries) # arms) op = (if op \<in> set ops then Some entries else match_arm arms op)"

text \<open>The macros of the source.\<close>

abbreviation u32f :: "nat \<Rightarrow> field_entry" where "u32f off \<equiv> Fixed off U32"
abbreviation u16f :: "nat \<Rightarrow> field_entry" where "u16f off \<equiv> Fixed off U16"
abbreviation i16f :: "nat \<Rightarrow> field_entry" where "i16f off \<equiv> Fixed off I16"

section \<open>Events\<close>

definition core_event_arms_1 :: swap_arms where
  "core_event_arms_1 = [
    ([2, 3, 4, 5, 6], [u16f 2, u32f 4, u32f 8, u32f 12, u32f 16, u16f 20, u16f 22, u16f 24, u16f 26, u16f 28]),
    ([7, 8], [u16f 2, u32f 4, u32f 8, u32f 12, u32f 16, u16f 20, u16f 22, u16f 24, u16f 26, u16f 28]),
    ([9, 10], [u16f 2, u32f 4]),
    ([11], []),
    ([12], [u16f 2, u32f 4, u16f 8, u16f 10, u16f 12, u16f 14, u16f 16]),
    ([13], [u16f 2, u32f 4, u16f 8, u16f 10, u16f 12, u16f 14, u16f 16, u16f 18]),
    ([14], [u16f 2, u32f 4, u16f 8]),
    ([15], [u16f 2, u32f 4]),
    ([16], [u16f 2, u32f 4, u32f 8, u16f 12, u16f 14, u16f 16, u16f 18, u16f 20]),
    ([17], [u16f 2, u32f 4, u32f 8]),
    ([18], [u16f 2, u32f 4, u32f 8]),
    ([19], [u16f 2, u32f 4, u32f 8]),
    ([20], [u16f 2, u32f 4, u32f 8]),
    ([21], [u16f 2, u32f 4, u32f 8, u32f 12, u16f 16, u16f 18]),
    ([22], [u16f 2, u32f 4, u32f 8, u32f 12, u16f 16, u16f 18, u16f 20, u16f 22, u16f 24])]"

definition core_event_arms_2 :: swap_arms where
  "core_event_arms_2 = [
    ([23], [u16f 2, u32f 4, u32f 8, u32f 12, u16f 16, u16f 18, u16f 20, u16f 22, u16f 24, u16f 26]),
    ([24], [u16f 2, u32f 4, u32f 8, u16f 12, u16f 14]),
    ([25], [u16f 2, u32f 4, u16f 8, u16f 10]),
    ([26], [u16f 2, u32f 4, u32f 8]),
    ([27], [u16f 2, u32f 4, u32f 8]),
    ([28], [u16f 2, u32f 4, u32f 8, u32f 12]),
    ([29], [u16f 2, u32f 4, u32f 8, u32f 12]),
    ([30], [u16f 2, u32f 4, u32f 8, u32f 12, u32f 16, u32f 20, u32f 24]),
    ([31], [u16f 2, u32f 4, u32f 8, u32f 12, u32f 16, u32f 20]),
    ([32], [u16f 2, u32f 4, u32f 8]),
    ([33], [u16f 2, u32f 4, u32f 8]),
    ([34], [u16f 2]),
    ([35], [u16f 2])]"

definition core_event_swap_table :: "u8 \<Rightarrow> field_entry list" where
  "core_event_swap_table event_type =
     (case match_arm (core_event_arms_1 @ core_event_arms_2) event_type of Some entries \<Rightarrow> entries | None \<Rightarrow> [])"

section \<open>Irregular tails\<close>

text \<open>\<open>body.get(i)\<close> and \<open>body.get(i..i + 2)\<close> read as a little-endian number.\<close>

definition get_byte :: "u8 list \<Rightarrow> nat \<Rightarrow> u8 option" where
  "get_byte body i = (if i < length body then Some (body ! i) else None)"

definition get_u16_le :: "u8 list \<Rightarrow> nat \<Rightarrow> nat option" where
  "get_u16_le body i = (if i + 2 \<le> length body then Some (unat (read_u16 LittleEndian (drop i body))) else None)"

text \<open>\<open>chunks_exact_mut(4)\<close> with \<open>reverse\<close> on each chunk; a rest of fewer than four bytes stays.\<close>

fun reverse_chunks4 :: "u8 list \<Rightarrow> u8 list" where
  "reverse_chunks4 (a # b # c # d # rest) = d # c # b # a # reverse_chunks4 rest"
| "reverse_chunks4 bs = bs"

text \<open>The same on \<open>body.get_mut(start..stop)\<close>, which is \<open>None\<close> beyond the end.\<close>

definition reverse_chunks_in :: "nat \<Rightarrow> nat \<Rightarrow> u8 list \<Rightarrow> u8 list" where
  "reverse_chunks_in start stop body =
     (if stop > length body then body
      else take start body @ reverse_chunks4 (take (stop - start) (drop start body)) @ drop stop body)"

definition swap_property_data_tail :: "client_byte_order \<Rightarrow> u8 list \<Rightarrow> u8 list" where
  "swap_property_data_tail byte_order body =
     swap_in_place
       (if get_byte body 12 = Some 16 then [ElementArrayTail 20 U16]
        else if get_byte body 12 = Some 32 then [ElementArrayTail 20 U32] else [])
       byte_order body"

definition swap_set_crtc_transform_tail :: "client_byte_order \<Rightarrow> u8 list \<Rightarrow> u8 list" where
  "swap_set_crtc_transform_tail byte_order body =
     (if byte_order = LittleEndian then body
      else
        (case get_u16_le body 40 of
           None \<Rightarrow> body
         | Some filter_len \<Rightarrow>
             let params_start = 44 + (filter_len + 3) div 4 * 4 in
             if params_start > length body then body
             else if (length body - params_start) mod 4 \<noteq> 0 then body
             else reverse_chunks_in params_start (length body) body))"

definition swap_xi_change_feedback_control :: "client_byte_order \<Rightarrow> u8 list \<Rightarrow> u8 list" where
  "swap_xi_change_feedback_control byte_order body =
     swap_in_place
       (if get_byte body 5 = Some 0 then [Fixed 10 U16, Fixed 16 I16, Fixed 18 I16, Fixed 20 U32, Fixed 24 U32]
        else if get_byte body 5 = Some 1 then [Fixed 10 U16, Fixed 14 I16, Fixed 16 I16, Fixed 18 I16] else [])
       byte_order body"

definition swap_xi_change_device_control :: "client_byte_order \<Rightarrow> u8 list \<Rightarrow> u8 list" where
  "swap_xi_change_device_control byte_order body =
     swap_in_place [Fixed 4 U16, Fixed 6 U16, ElementArrayTail 12 U32] byte_order body"

text \<open>The records of XISelectEvents: the two numbers of a record's header, then its mask.\<close>

fun swap_records :: "nat \<Rightarrow> nat \<Rightarrow> u8 list \<Rightarrow> u8 list" where
  "swap_records 0 pos body = body"
| "swap_records (Suc n) pos body =
     (if pos + 4 > length body then body
      else
        let body' = reverse_at (pos + 2) 2 (reverse_at pos 2 body);
            mask_end = pos + 4 + unat (read_u16 LittleEndian (drop (pos + 2) body')) * 4 in
        if mask_end > length body then body' else swap_records n mask_end body')"

definition swap_xi_select_events_records :: "client_byte_order \<Rightarrow> u8 list \<Rightarrow> u8 list" where
  "swap_xi_select_events_records byte_order body =
     (case get_u16_le body 4 of None \<Rightarrow> body | Some num_masks \<Rightarrow> swap_records num_masks 8 body)"

definition swap_xi_passive_grab_modifiers :: "client_byte_order \<Rightarrow> u8 list \<Rightarrow> u8 list" where
  "swap_xi_passive_grab_modifiers byte_order body =
     (case (get_u16_le body 18, get_u16_le body 20) of
        (Some num_modifiers, Some mask_len) \<Rightarrow>
          let modifiers_start = 28 + mask_len * 4 in
          reverse_chunks_in modifiers_start (modifiers_start + num_modifiers * 4) body
      | _ \<Rightarrow> body)"

definition swap_xi_passive_ungrab_modifiers :: "client_byte_order \<Rightarrow> u8 list \<Rightarrow> u8 list" where
  "swap_xi_passive_ungrab_modifiers byte_order body =
     (case get_u16_le body 10 of
        None \<Rightarrow> body
      | Some num_modifiers \<Rightarrow> reverse_chunks_in 16 (16 + num_modifiers * 4) body)"

section \<open>Requests\<close>

definition core_request_arms_1 :: swap_arms where
  "core_request_arms_1 = [
    ([1], [u32f 0, u32f 4, i16f 8, i16f 10, u16f 12, u16f 14, u16f 16, u16f 18, u32f 20, u32f 24, ElementArrayTail 28 U32]),
    ([2], [u32f 0, u32f 4, ElementArrayTail 8 U32]),
    ([3, 4, 5, 6, 8, 9, 10, 11, 13, 14, 15, 21, 23, 38, 79, 81, 82, 83, 95, 113], [u32f 0]),
    ([7], [u32f 0, u32f 4, i16f 8, i16f 10]),
    ([12], [u32f 0, u16f 4, ElementArrayTail 8 U32]),
    ([16], [u16f 0, OpaqueTail 4]),
    ([17], [u32f 0]),
    ([18], [u32f 0, u32f 4, u32f 8, u32f 16, Custom swap_property_data_tail]),
    ([19], [u32f 0, u32f 4]),
    ([20], [u32f 0, u32f 4, u32f 8, u32f 12, u32f 16]),
    ([22], [u32f 0, u32f 4, u32f 8]),
    ([24], [u32f 0, u32f 4, u32f 8, u32f 12, u32f 16]),
    ([25], [u32f 0, u32f 4, OpaqueTail 8]),
    ([26], [u32f 0, u16f 4, u32f 8, u32f 12, u32f 16]),
    ([27], [u32f 0]),
    ([28], [u32f 0, u16f 4, u32f 8, u32f 12, u16f 20]),
    ([29], [u32f 0, u16f 4]),
    ([30], [u32f 0, u32f 4, u16f 8]),
    ([31], [u32f 0, u32f 4]),
    ([32], [u32f 0]),
    ([33], [u32f 0, u16f 4]),
    ([34], [u32f 0, u16f 4]),
    ([35], [u32f 0]),
    ([39], [u32f 0, u32f 4, u32f 8]),
    ([40], [u32f 0, u32f 4, i16f 8, i16f 10]),
    ([41], [u32f 0, u32f 4, i16f 8, i16f 10, u16f 12, u16f 14, i16f 16, i16f 18])]"

definition core_request_arms_2 :: swap_arms where
  "core_request_arms_2 = [
    ([42], [u32f 0, u32f 4]),
    ([45], [u32f 0, u16f 4, OpaqueTail 8]),
    ([46, 47], [u32f 0]),
    ([48], [u32f 0, ElementArrayTail 4 U16]),
    ([49, 50], [u16f 0, u16f 2, OpaqueTail 4]),
    ([51], [u16f 0, OpaqueTail 4]),
    ([53], [u32f 0, u32f 4, u16f 8, u16f 10]),
    ([54], [u32f 0]),
    ([55], [u32f 0, u32f 4, u32f 8, ElementArrayTail 12 U32]),
    ([56], [u32f 0, u32f 4, ElementArrayTail 8 U32]),
    ([57], [u32f 0, u32f 4, u32f 8]),
    ([58], [u32f 0, u16f 4, u16f 6, OpaqueTail 8]),
    ([59], [u32f 0, i16f 4, i16f 6, ElementArrayTail 8 U16]),
    ([60], [u32f 0]),
    ([61], [u32f 0, i16f 4, i16f 6, u16f 8, u16f 10]),
    ([62], [u32f 0, u32f 4, u32f 8, i16f 12, i16f 14, i16f 16, i16f 18, u16f 20, u16f 22]),
    ([63], [u32f 0, u32f 4, u32f 8, i16f 12, i16f 14, i16f 16, i16f 18, u16f 20, u16f 22, u32f 24]),
    ([64, 65, 66, 67, 70], [u32f 0, u32f 4, ElementArrayTail 8 U16]),
    ([68, 71], [u32f 0, u32f 4, ElementArrayTail 8 U16])]"

definition core_request_arms_3 :: swap_arms where
  "core_request_arms_3 = [
    ([69], [u32f 0, u32f 4, u16f 10, ElementArrayTail 12 I16]),
    ([72], [u32f 0, u32f 4, u16f 8, u16f 10, i16f 12, i16f 14, OpaqueTail 16]),
    ([73], [u32f 0, i16f 4, i16f 6, u16f 8, u16f 10, u32f 12]),
    ([74, 75, 76, 77], [u32f 0, u32f 4, i16f 8, i16f 10, OpaqueTail 12]),
    ([78], [u32f 0, u32f 4, u32f 8]),
    ([80], [u32f 0, u32f 4]),
    ([84], [u32f 0, u16f 4, u16f 6, u16f 8]),
    ([85], [u32f 0, u16f 4, OpaqueTail 8]),
    ([86], [u32f 0, u16f 4, u16f 6]),
    ([87], [u32f 0, u16f 4, u16f 6, u16f 8, u16f 10]),
    ([88], [u32f 0, u32f 4, ElementArrayTail 8 U32]),
    ([89], [u32f 0, ElementArrayTail 4 U16]),
    ([90], [u32f 0, u32f 4, u16f 8, OpaqueTail 12]),
    ([91], [u32f 0, ElementArrayTail 4 U32]),
    ([92], [u32f 0, u16f 4, OpaqueTail 8]),
    ([93], [u32f 0, u32f 4, u32f 8, u16f 12, u16f 14, u16f 16, u16f 18, u16f 20, u16f 22, u16f 24, u16f 26]),
    ([94], [u32f 0, u32f 4, u32f 8, u16f 12, u16f 14, u16f 16, u16f 18, u16f 20, u16f 22, u16f 24, u16f 26]),
    ([96], [u32f 0, u16f 4, u16f 6, u16f 8, u16f 10, u16f 12, u16f 14]),
    ([97], [u32f 0, u16f 4, u16f 6]),
    ([98], [u16f 0, OpaqueTail 4]),
    ([100], [ElementArrayTail 4 U32]),
    ([101], []),
    ([102], [u32f 0, ElementArrayTail 4 U32]),
    ([105], [i16f 0, i16f 2, i16f 4]),
    ([107], [i16f 0, i16f 2]),
    ([109], [u16f 2, OpaqueTail 4]),
    ([114], [u32f 0, u16f 4, i16f 6, ElementArrayTail 8 U32])]"

definition core_request_swap_table :: "u8 \<Rightarrow> field_entry list option" where
  "core_request_swap_table opcode = match_arm (core_request_arms_1 @ core_request_arms_2 @ core_request_arms_3) opcode"

definition xi_request_arms_1 :: swap_arms where
  "xi_request_arms_1 = [
    ([1], [u16f 0, OpaqueTail 4]),
    ([2], []),
    ([3, 4], []),
    ([5], []),
    ([6], [u32f 0, u16f 4, ElementArrayTail 8 U32]),
    ([7], [u32f 0]),
    ([8], [u32f 0, u16f 4, ElementArrayTail 8 U32]),
    ([9], [u32f 0]),
    ([10], [u32f 0, u32f 4]),
    ([11, 12], []),
    ([13], [u32f 0, u32f 4, u16f 8, ElementArrayTail 16 U32]),
    ([14], [u32f 0]),
    ([15], [u32f 0, u16f 4, u16f 6, ElementArrayTail 16 U32]),
    ([16], [u32f 0, u16f 4]),
    ([17], [u32f 0, u16f 6, u16f 8, ElementArrayTail 16 U32]),
    ([18], [u32f 0, u16f 4]),
    ([19], [u32f 0]),
    ([20], []),
    ([21], [u32f 0, u32f 4]),
    ([22], []),
    ([23], [u32f 0]),
    ([24], []),
    ([25], [ElementArrayTail 4 U32]),
    ([26], []),
    ([27], []),
    ([28], []),
    ([29], []),
    ([30], []),
    ([31], [u32f 0, u16f 6, OpaqueTail 12]),
    ([32], []),
    ([33], [ElementArrayTail 4 U32]),
    ([34], [u16f 0]),
    ([35], [u16f 0]),
    ([36], []),
    ([37], [u32f 0, u32f 4, u32f 12, OpaqueTail 16]),
    ([38], [u32f 0]),
    ([39], [u32f 0, u32f 4, u32f 8, u32f 12])]"

definition xi_request_arms_2 :: swap_arms where
  "xi_request_arms_2 = [
    ([40], [u32f 0, u16f 4]),
    ([41], [u32f 0, u32f 4, u32f 8, u32f 12, u16f 16, u16f 18, u32f 20, u32f 24, u16f 28]),
    ([42], [u32f 0, u32f 4, u16f 8]),
    ([43], [OpaqueTail 4]),
    ([44], [u32f 0, u16f 4]),
    ([45], [u32f 0]),
    ([46], [u32f 0, u16f 4, Custom swap_xi_select_events_records]),
    ([47], [u16f 0, u16f 2]),
    ([48], [u16f 0]),
    ([49], [u32f 0, u32f 4, u16f 8]),
    ([50], [u16f 0]),
    ([51], [u32f 0, u32f 4, u32f 8, u16f 12, u16f 18]),
    ([52], [u32f 0, u16f 4]),
    ([53], [u32f 0, u16f 4, u32f 8, u32f 12]),
    ([54], [u32f 0, u32f 4, u32f 8, u32f 12, u16f 16, u16f 18, u16f 20, Custom swap_xi_passive_grab_modifiers]),
    ([55], [u32f 0, u32f 4, u16f 8, u16f 10, Custom swap_xi_passive_ungrab_modifiers]),
    ([56], [u16f 0]),
    ([57], [u16f 0, u32f 4, u32f 8, u32f 12, OpaqueTail 16]),
    ([58], [u16f 0, u32f 4]),
    ([59], [u16f 0, u32f 4, u32f 8, u32f 12, u32f 16]),
    ([60], [u32f 0]),
    ([61], [u32f 0, ElementArrayTail 4 U32])]"

definition xi_request_swap_table :: "u8 \<Rightarrow> field_entry list option" where
  "xi_request_swap_table minor = match_arm (xi_request_arms_1 @ xi_request_arms_2) minor"

definition randr_request_arms :: swap_arms where
  "randr_request_arms = [
    ([5, 6, 8, 10, 22, 23, 25, 27, 28, 31, 32, 36], [u32f 0]),
    ([2], [u32f 0, u32f 4, u32f 8, u16f 12, u16f 14, u16f 16]),
    ([4], [u32f 0, u16f 4]),
    ([7], [u32f 0, u16f 4, u16f 6, u32f 8, u32f 12]),
    ([9, 11, 14, 18, 19, 20, 30, 37, 40, 44], [u32f 0, u32f 4]),
    ([15, 41], [u32f 0, u32f 4, u32f 8, u32f 12, u32f 16]),
    ([12, 38], [u32f 0, u32f 4, ElementArrayTail 12 U32]),
    ([13, 39], [u32f 0, u32f 4, u32f 8, u32f 16, Custom swap_property_data_tail]),
    ([17, 46], [u32f 0]),
    ([26], [u32f 0, u32f 4, u32f 8, u32f 12, u32f 16, u32f 20, u32f 24, u32f 28, u32f 32, u32f 36, u16f 40, Custom swap_set_crtc_transform_tail]),
    ([29], [u32f 0, u32f 4, u16f 8, u16f 10, u16f 12, u16f 14, u16f 16, u16f 18, u16f 20, u16f 22, i16f 24, i16f 26, i16f 28, i16f 30]),
    ([21], [u32f 0, u32f 4, u32f 8, i16f 12, i16f 14, u32f 16, u16f 20, ElementArrayTail 24 U32]),
    ([24], [u32f 0, u16f 4, ElementArrayTail 8 U16]),
    ([33, 34, 35], [u32f 0, u32f 4, u32f 8]),
    ([42], [u32f 0]),
    ([43], [u32f 0, u32f 4, u16f 10, i16f 12, i16f 14, u16f 16, u16f 18, u32f 20, u32f 24, ElementArrayTail 28 U32])]"

definition randr_request_swap_table :: "u8 \<Rightarrow> field_entry list option" where
  "randr_request_swap_table minor = match_arm randr_request_arms minor"

definition vidmode_request_arms :: swap_arms where
  "vidmode_request_arms = [
    ([1, 4, 6, 11, 13, 16, 19, 20], [u16f 0]),
    ([5], [Fixed 0 U16, Fixed 2 U16]),
    ([15], [Fixed 0 U16, Fixed 4 U32, Fixed 8 U32, Fixed 12 U32]),
    ([18], [ElementArrayTail 0 U16]),
    ([17], [Fixed 0 U16, Fixed 2 U16]),
    ([14], [Fixed 0 U16, Fixed 2 U16])]"

definition xf86vidmode_request_swap_table :: "u8 \<Rightarrow> field_entry list option" where
  "xf86vidmode_request_swap_table minor = match_arm vidmode_request_arms minor"

definition extension_request_swap_table :: "u8 \<Rightarrow> u8 \<Rightarrow> field_entry list option" where
  "extension_request_swap_table major minor =
     (if major = 128 then randr_request_swap_table minor
      else if major = 137 then xi_request_swap_table minor
      else if major = 153 then xf86vidmode_request_swap_table minor
      else None)"

definition request_swap_table :: "u8 \<Rightarrow> u8 \<Rightarrow> field_entry list option" where
  "request_swap_table major minor =
     (if major < 128 then core_request_swap_table major else extension_request_swap_table major minor)"

definition swap_request_body :: "u8 \<Rightarrow> u8 \<Rightarrow> client_byte_order \<Rightarrow> u8 list \<Rightarrow> u8 list" where
  "swap_request_body major minor byte_order body =
     (if byte_order = LittleEndian then body
      else
        let body1 = (case request_swap_table major minor of Some entries \<Rightarrow> swap_in_place entries byte_order body | None \<Rightarrow> body) in
        if major = 137 \<and> minor = 23 then swap_xi_change_feedback_control byte_order body1
        else if major = 137 \<and> minor = 35 then swap_xi_change_device_control byte_order body1
        else body1)"

unbundle bit_operations_syntax

section \<open>Events on their way to a client\<close>

text \<open>
  \<open>fanout_raw_event_to_clients\<close> for one recipient: the template in the order of its source becomes an
  event in the recipient's order, with the recipient's sequence number.
\<close>

definition reencode_event :: "client_byte_order \<Rightarrow> client_byte_order \<Rightarrow> u16 \<Rightarrow> u8 list \<Rightarrow> u8 list" where
  "reencode_event template_byte_order recipient_order seq event =
     (let entries = core_event_swap_table (event ! 0 AND 0x7f);
          buf = swap_in_place entries recipient_order (swap_in_place entries template_byte_order event);
          seq_bytes = (case recipient_order of LittleEndian \<Rightarrow> rev (u16_to_be_bytes seq) | BigEndian \<Rightarrow> u16_to_be_bytes seq) in
      buf[2 := seq_bytes ! 0, 3 := seq_bytes ! 1])"

end
