(* ===== verification/Swap_Fields.thy ===== *)
theory Swap_Fields
  imports Swap_Tables
begin

text \<open>
  What the swap tables do to typed fields: every table of the source is well formed, the swaps of
  irregular tails leave the fields before them alone, and a field of a swapped body reads
  little-endian as it read big-endian before.
\<close>

section \<open>Typed fields\<close>

text \<open>The typed fields of an entry: where they start and their kind.\<close>

definition field_at :: "field_entry \<Rightarrow> field_kind \<Rightarrow> nat \<Rightarrow> bool" where
  "field_at e kind start =
     (case e of
        Fixed offset k \<Rightarrow> k = kind \<and> start = offset
      | LengthPrefixedBytes offset k _ \<Rightarrow> k = kind \<and> start = offset
      | ElementArrayTail first k \<Rightarrow> k = kind \<and> first \<le> start \<and> (start - first) mod field_size k = 0
      | _ \<Rightarrow> False)"

lemma field_at_source:
  assumes "field_at e kind start" and "start + field_size kind \<le> len" and "d < field_size kind"
  shows "entry_source e len (start + d) = Some (start + (field_size kind - 1 - d))"
proof (cases e)
  case (ElementArrayTail a k)
  then have k: "k = kind" "a \<le> start" "(start - a) mod field_size kind = 0" using assms(1) by (auto simp: field_at_def)
  from k(3) obtain q where "start - a = field_size kind * q" by (auto simp: mod_eq_0_iff_dvd elim: dvdE)
  then have q: "start = a + q * field_size kind" using k(2) by (simp add: mult.commute)
  then have "(start + d - a) div field_size kind = q" using assms(3) by (intro same_element) simp_all
  then show ?thesis using assms(2) k ElementArrayTail q
    by (simp add: entry_source_def Let_def mirror_def)
qed (use assms in \<open>auto simp: field_at_def entry_source_def mirror_def\<close>)

text \<open>A buffer whose field at \<open>start\<close> has its bytes reversed.\<close>

definition field_reversed :: "field_kind \<Rightarrow> nat \<Rightarrow> u8 list \<Rightarrow> u8 list \<Rightarrow> bool" where
  "field_reversed kind start buf buf' \<longleftrightarrow>
     (\<forall>d < field_size kind. buf' ! (start + d) = buf ! (start + (field_size kind - 1 - d)))"

definition other_order :: "client_byte_order \<Rightarrow> client_byte_order" where
  "other_order bo = (case bo of LittleEndian \<Rightarrow> BigEndian | BigEndian \<Rightarrow> LittleEndian)"

lemma less_2_4: "(d < (2 :: nat)) = (d = 0 \<or> d = 1)" "(d < (4 :: nat)) = (d = 0 \<or> d = 1 \<or> d = 2 \<or> d = 3)"
  by auto

lemma read_reversed_u16:
  "field_size kind = 2 \<Longrightarrow> field_reversed kind start buf buf' \<Longrightarrow> start + 2 \<le> length buf \<Longrightarrow> length buf' = length buf
   \<Longrightarrow> read_u16 bo (drop start buf') = read_u16 (other_order bo) (drop start buf)"
  by (cases bo) (auto simp: field_reversed_def read_u16_def other_order_def u16_from_le_bytes_def less_2_4)

lemma all_less_4: "(\<forall>d < (4 :: nat). P d) \<longleftrightarrow> P 0 \<and> P 1 \<and> P 2 \<and> P 3"
  using less_2_4(2) by metis

lemma read_reversed_u32:
  "field_size kind = 4 \<Longrightarrow> field_reversed kind start buf buf' \<Longrightarrow> start + 4 \<le> length buf \<Longrightarrow> length buf' = length buf
   \<Longrightarrow> read_u32 bo (drop start buf') = read_u32 (other_order bo) (drop start buf)"
  by (cases bo) (simp_all add: field_reversed_def all_less_4 read_u32_def other_order_def u32_from_le_bytes_def)

lemma field_reversedI:
  assumes "table_from s es" and "e \<in> set es" and "field_at e kind start" and "start + field_size kind \<le> length buf"
    and "\<And>i. start \<le> i \<Longrightarrow> i < start + field_size kind \<Longrightarrow> buf' ! i = buf ! source_index es (length buf) i"
  shows "field_reversed kind start buf buf'"
  unfolding field_reversed_def
proof (intro allI impI)
  fix d assume d: "d < field_size kind"
  have "source_index es (length buf) (start + d) = start + (field_size kind - 1 - d)"
    by (rule source_index_unique [OF assms(1,2) field_at_source [OF assms(3,4) d]])
  then show "buf' ! (start + d) = buf ! (start + (field_size kind - 1 - d))" using assms(5) [of "start + d"] d by simp
qed

section \<open>Swapping the tail\<close>

text \<open>What may stand last in a table: a swap that keeps the length and all bytes before its own.\<close>

locale tail_swap =
  fixes swap :: "client_byte_order \<Rightarrow> u8 list \<Rightarrow> u8 list" and first :: nat
  assumes len: "length (swap bo buf) = length buf"
    and keeps: "i < first \<Longrightarrow> i < length buf \<Longrightarrow> swap bo buf ! i = buf ! i"

lemma length_reverse_chunks4 [simp]: "length (reverse_chunks4 bs) = length bs"
  by (induction bs rule: reverse_chunks4.induct) simp_all

lemma reverse_chunks_in_tail:
  "start \<le> stop \<Longrightarrow> length (reverse_chunks_in start stop body) = length body"
  "i < start \<Longrightarrow> i < length body \<Longrightarrow> reverse_chunks_in start stop body ! i = body ! i"
  by (auto simp: reverse_chunks_in_def nth_append)

lemma length_swap_in_place: "table_from s es \<Longrightarrow> length (swap_in_place es bo buf) = length buf"
  using length_fold_apply [of es bo buf] table_no_custom [of s es] by (auto simp: swap_in_place_def)

lemma nth_swap_in_place:
  "table_from s es \<Longrightarrow> i < length buf \<Longrightarrow> swap_in_place es BigEndian buf ! i = buf ! source_index es (length buf) i"
  using nth_fold_apply [of s es i buf BigEndian] by (simp add: swap_in_place_def)

lemma swap_in_place_below: "table_from s es \<Longrightarrow> i < s \<Longrightarrow> i < length buf \<Longrightarrow> swap_in_place es bo buf ! i = buf ! i"
  using nth_swap_in_place [of s es i buf] source_index_below [of s es i "length buf"]
  by (cases bo) (simp_all add: swap_in_place_def)

lemma table_tail_swap: "table_from s es \<Longrightarrow> tail_swap (\<lambda>bo buf. swap_in_place es bo buf) s"
  by unfold_locales (simp_all add: length_swap_in_place swap_in_place_below)

interpretation property_data: tail_swap swap_property_data_tail 20
proof
  fix bo buf i
  let ?es = "if get_byte buf 12 = Some 16 then [ElementArrayTail 20 U16]
        else if get_byte buf 12 = Some 32 then [ElementArrayTail 20 U32] else []"
  have t: "table_from 20 ?es" by simp
  show "length (swap_property_data_tail bo buf) = length buf"
    unfolding swap_property_data_tail_def by (rule length_swap_in_place [OF t])
  show "i < 20 \<Longrightarrow> i < length buf \<Longrightarrow> swap_property_data_tail bo buf ! i = buf ! i"
    unfolding swap_property_data_tail_def by (rule swap_in_place_below [OF t])
qed

interpretation crtc_transform: tail_swap swap_set_crtc_transform_tail 44
  by unfold_locales
    (auto simp: swap_set_crtc_transform_tail_def Let_def reverse_chunks_in_tail split: option.split)

interpretation feedback_control: tail_swap swap_xi_change_feedback_control 10
proof
  fix bo buf i
  let ?es = "if get_byte buf 5 = Some 0 then [Fixed 10 U16, Fixed 16 I16, Fixed 18 I16, Fixed 20 U32, Fixed 24 U32]
        else if get_byte buf 5 = Some 1 then [Fixed 10 U16, Fixed 14 I16, Fixed 16 I16, Fixed 18 I16] else []"
  have t: "table_from 10 ?es" by simp
  show "length (swap_xi_change_feedback_control bo buf) = length buf"
    unfolding swap_xi_change_feedback_control_def by (rule length_swap_in_place [OF t])
  show "i < 10 \<Longrightarrow> i < length buf \<Longrightarrow> swap_xi_change_feedback_control bo buf ! i = buf ! i"
    unfolding swap_xi_change_feedback_control_def by (rule swap_in_place_below [OF t])
qed

interpretation device_control: tail_swap swap_xi_change_device_control 4
proof -
  have "tail_swap (\<lambda>bo buf. swap_in_place [Fixed 4 U16, Fixed 6 U16, ElementArrayTail 12 U32] bo buf) 4"
    by (rule table_tail_swap) simp
  then show "tail_swap swap_xi_change_device_control 4" by (simp add: swap_xi_change_device_control_def [abs_def])
qed

lemma swap_records_tail:
  "length (swap_records n pos body) = length body \<and> (i < pos \<longrightarrow> i < length body \<longrightarrow> swap_records n pos body ! i = body ! i)"
proof (induction n pos body rule: swap_records.induct)
  case (2 n pos body)
  show ?case
  proof (cases "pos + 4 > length body")
    case False
    let ?b = "reverse_at (pos + 2) 2 (reverse_at pos 2 body)"
    have "length ?b = length body" "i < pos \<longrightarrow> i < length body \<longrightarrow> ?b ! i = body ! i"
      using False by (simp_all add: nth_reverse_at)
    then show ?thesis using "2.IH" [OF False refl refl] False by (auto simp: Let_def)
  qed simp
qed simp

interpretation select_events: tail_swap swap_xi_select_events_records 8
  by unfold_locales (auto simp: swap_xi_select_events_records_def swap_records_tail split: option.split)

interpretation passive_grab: tail_swap swap_xi_passive_grab_modifiers 28
  by unfold_locales
    (auto simp: swap_xi_passive_grab_modifiers_def Let_def reverse_chunks_in_tail split: option.split)

interpretation passive_ungrab: tail_swap swap_xi_passive_ungrab_modifiers 16
  by unfold_locales
    (auto simp: swap_xi_passive_ungrab_modifiers_def Let_def reverse_chunks_in_tail split: option.split)

section \<open>The tables of the source\<close>

text \<open>A table that turns exactly its fields, wherever the buffer ends.\<close>

definition fields_exact :: "field_entry list \<Rightarrow> bool" where
  "fields_exact t \<longleftrightarrow>
     (\<forall>e \<in> set t. \<forall>kind start buf. field_at e kind start \<longrightarrow> start + field_size kind \<le> length buf
        \<longrightarrow> field_reversed kind start buf (swap_in_place t BigEndian buf))
     \<and> (\<forall>bo buf. length (swap_in_place t bo buf) = length buf)"

lemma exact_plain: "table_from 0 t \<Longrightarrow> fields_exact t"
  unfolding fields_exact_def
  by (auto intro: field_reversedI [where s = 0] simp: nth_swap_in_place length_swap_in_place)

fun ends_by :: "nat \<Rightarrow> field_entry \<Rightarrow> bool" where
  "ends_by first (Fixed offset kind) \<longleftrightarrow> offset + field_size kind \<le> first"
| "ends_by first (LengthPrefixedBytes offset kind data) \<longleftrightarrow> offset + field_size kind \<le> first"
| "ends_by first _ \<longleftrightarrow> False"

lemma field_ends_by: "ends_by first e \<Longrightarrow> field_at e kind start \<Longrightarrow> start + field_size kind \<le> first"
  by (cases e) (auto simp: field_at_def)

context tail_swap
begin

lemma exact_then:
  assumes t: "fields_exact ts" and e: "e \<in> set ts" and below: "ends_by first e" and f: "field_at e kind start" "start + field_size kind \<le> length buf"
  shows "field_reversed kind start buf (swap BigEndian (swap_in_place ts BigEndian buf))"
  using t e f field_ends_by [OF below f(1)] unfolding fields_exact_def field_reversed_def by (simp add: keeps)

lemma exact_tail:
  assumes t: "table_from 0 ts" and below: "\<forall>e \<in> set ts. ends_by first e"
  shows "fields_exact (ts @ [Custom swap])"
proof -
  have ts: "fields_exact ts" by (rule exact_plain [OF t])
  have step: "swap_in_place (ts @ [Custom swap]) BigEndian buf = swap BigEndian (swap_in_place ts BigEndian buf)" for buf
    by (simp add: swap_in_place_def apply_entry_def)
  have "field_reversed kind start buf (swap_in_place (ts @ [Custom swap]) BigEndian buf)"
    if "e \<in> set (ts @ [Custom swap])" "field_at e kind start" "start + field_size kind \<le> length buf" for e kind start buf
    using that below exact_then [OF ts] unfolding step by (auto simp: field_at_def)
  moreover have "length (swap_in_place (ts @ [Custom swap]) bo buf) = length buf" for bo buf
    using length_swap_in_place [OF t] len by (cases bo) (simp_all add: step, simp add: swap_in_place_def)
  ultimately show ?thesis unfolding fields_exact_def by blast
qed

end

lemma match_arm_in: "match_arm arms op = Some t \<Longrightarrow> \<exists>ops. (ops, t) \<in> set arms"
  by (induction arms) (auto split: if_splits)

lemma custom_tables:
  "fields_exact [u32f 0, u32f 4, u32f 8, u32f 16, Custom swap_property_data_tail]"
  "fields_exact [u32f 0, u32f 4, u32f 8, u32f 12, u32f 16, u32f 20, u32f 24, u32f 28, u32f 32, u32f 36, u16f 40, Custom swap_set_crtc_transform_tail]"
  "fields_exact [u32f 0, u16f 4, Custom swap_xi_select_events_records]"
  "fields_exact [u32f 0, u32f 4, u32f 8, u32f 12, u16f 16, u16f 18, u16f 20, Custom swap_xi_passive_grab_modifiers]"
  "fields_exact [u32f 0, u32f 4, u16f 8, u16f 10, Custom swap_xi_passive_ungrab_modifiers]"
  using property_data.exact_tail [of "[u32f 0, u32f 4, u32f 8, u32f 16]"]
    crtc_transform.exact_tail [of "[u32f 0, u32f 4, u32f 8, u32f 12, u32f 16, u32f 20, u32f 24, u32f 28, u32f 32, u32f 36, u16f 40]"]
    select_events.exact_tail [of "[u32f 0, u16f 4]"]
    passive_grab.exact_tail [of "[u32f 0, u32f 4, u32f 8, u32f 12, u16f 16, u16f 18, u16f 20]"]
    passive_ungrab.exact_tail [of "[u32f 0, u32f 4, u16f 8, u16f 10]"]
  by simp_all

abbreviation arms_exact :: "swap_arms \<Rightarrow> bool" where
  "arms_exact arms \<equiv> list_all (\<lambda>(ops, t). fields_exact t) arms"

lemma all_arms_exact:
  "arms_exact core_event_arms_1" "arms_exact core_event_arms_2"
  "arms_exact core_request_arms_1" "arms_exact core_request_arms_2" "arms_exact core_request_arms_3"
  "arms_exact xi_request_arms_1" "arms_exact xi_request_arms_2" "arms_exact randr_request_arms" "arms_exact vidmode_request_arms"
  unfolding core_event_arms_1_def core_event_arms_2_def core_request_arms_1_def core_request_arms_2_def core_request_arms_3_def
    xi_request_arms_1_def xi_request_arms_2_def randr_request_arms_def vidmode_request_arms_def
  by (simp_all add: exact_plain custom_tables)

lemma request_table_exact: "request_swap_table major minor = Some t \<Longrightarrow> fields_exact t"
  using all_arms_exact
  by (auto simp: request_swap_table_def core_request_swap_table_def extension_request_swap_table_def randr_request_swap_table_def
      xi_request_swap_table_def xf86vidmode_request_swap_table_def list_all_iff dest!: match_arm_in split: if_splits)

text \<open>Events end within their tables' last field, which is no array.\<close>

lemma event_arms_plain:
  "list_all (\<lambda>(ops, t). table_from 2 t \<and> (t = [] \<or> hd t = u16f 2 \<and> table_from 4 (tl t))) (core_event_arms_1 @ core_event_arms_2)"
  by (simp add: core_event_arms_1_def core_event_arms_2_def)

lemma event_table_plain:
  "table_from 2 (core_event_swap_table ty)"
  "core_event_swap_table ty = [] \<or> hd (core_event_swap_table ty) = u16f 2 \<and> table_from 4 (tl (core_event_swap_table ty))"
proof -
  let ?arms = "core_event_arms_1 @ core_event_arms_2"
  have "table_from 2 t \<and> (t = [] \<or> hd t = u16f 2 \<and> table_from 4 (tl t))" if m: "match_arm ?arms ty = Some t" for t
  proof -
    obtain ops where "(ops, t) \<in> set ?arms" using match_arm_in [OF m] by blast
    from bspec [OF event_arms_plain [unfolded list_all_iff] this] show ?thesis by (simp only: prod.case)
  qed
  then show "table_from 2 (core_event_swap_table ty)"
    "core_event_swap_table ty = [] \<or> hd (core_event_swap_table ty) = u16f 2 \<and> table_from 4 (tl (core_event_swap_table ty))"
    unfolding core_event_swap_table_def by (cases "match_arm ?arms ty", simp, simp)+
qed

end
