(* ===== verification/Swap_Props.thy ===== *)
theory Swap_Props
  imports Swap_Fields
begin

text \<open>The properties of byte swapping.\<close>

lemma arrays_swapped:
  assumes "length pre = off" and "\<And>v. length (enc v) = field_size kind"
  shows "swap_elements kind off (pre @ concat (map enc vs)) = pre @ concat (map (\<lambda>v. rev (enc v)) vs)"
  using assms(1)
proof (induction vs arbitrary: pre off)
  case Nil
  have "\<not> off + field_size kind \<le> length pre" using Nil field_size_pos [of kind] by linarith
  then show ?case by (simp add: swap_elements.simps [of kind off pre])
next
  case (Cons v vs)
  have "swap_typed (pre @ enc v @ concat (map enc vs)) off kind = (pre @ rev (enc v)) @ concat (map enc vs)"
    using Cons.prems assms(2) [of v] by (simp add: swap_typed_def reverse_at_def)
  then show ?case
    using Cons.IH [of "pre @ rev (enc v)" "off + field_size kind"] Cons.prems assms(2) [of v]
    by (subst swap_elements.simps) simp
qed

lemma property_data_swapped:
  "length pre = 20 \<Longrightarrow> pre ! 12 = 16 \<Longrightarrow> swap_property_data_tail BigEndian (pre @ concat (map u16_to_be_bytes vs)) = pre @ concat (map (\<lambda>v. rev (u16_to_be_bytes v)) vs)"
  "length pre = 20 \<Longrightarrow> pre ! 12 = 32 \<Longrightarrow> swap_property_data_tail BigEndian (pre @ concat (map u32_to_be_bytes ws)) = pre @ concat (map (\<lambda>v. rev (u32_to_be_bytes v)) ws)"
  "length pre = 20 \<Longrightarrow> pre ! 12 = 8 \<Longrightarrow> swap_property_data_tail BigEndian (pre @ bs) = pre @ bs"
proof -
  show "swap_property_data_tail BigEndian (pre @ concat (map u16_to_be_bytes vs)) = pre @ concat (map (\<lambda>v. rev (u16_to_be_bytes v)) vs)"
    if "length pre = 20" "pre ! 12 = 16"
    using that arrays_swapped [of pre 20 u16_to_be_bytes U16 vs]
    by (cases vs) (simp_all add: swap_property_data_tail_def get_byte_def swap_in_place_def apply_entry_def nth_append)
  show "swap_property_data_tail BigEndian (pre @ concat (map u32_to_be_bytes ws)) = pre @ concat (map (\<lambda>v. rev (u32_to_be_bytes v)) ws)"
    if "length pre = 20" "pre ! 12 = 32"
    using that arrays_swapped [of pre 20 u32_to_be_bytes U32 ws]
    by (cases ws) (simp_all add: swap_property_data_tail_def get_byte_def swap_in_place_def apply_entry_def nth_append)
qed (simp add: swap_property_data_tail_def get_byte_def swap_in_place_def nth_append)

lemma fixed_below:
  assumes t: "table_from 0 es" and below: "\<forall>e \<in> set es. ends_by n e" and pre: "length pre = n"
  shows "\<exists>pre'. length pre' = n \<and> (\<forall>i < n. source_index es n i = i \<longrightarrow> pre' ! i = pre ! i)
    \<and> swap_in_place es BigEndian (pre @ rest) = pre' @ rest"
proof -
  let ?r = "swap_in_place es BigEndian (pre @ rest)"
  have len: "length ?r = n + length rest" using length_swap_in_place [OF t] pre by simp
  have same: "entry_source e (n + length rest) i = entry_source e n i" if "e \<in> set es" for e i
    using below that by (cases e) (auto simp: entry_source_def)
  have outside: "entry_source e (n + length rest) i = None" if "e \<in> set es" "n \<le> i" for e i
    using below that by (cases e) (fastforce simp: entry_source_def)+
  have src: "source_index es (n + length rest) i = source_index es n i" for i
    using same by (induction es) (auto split: option.split)
  have high: "source_index es (n + length rest) i = i" if "n \<le> i" for i
    using outside that by (induction es) auto
  have "?r ! i = rest ! (i - n)" if "n \<le> i" "i < length ?r" for i
    using nth_swap_in_place [OF t, of i "pre @ rest"] that len pre high [OF that(1)] by (simp add: nth_append)
  then have "drop n ?r = rest" using len by (intro nth_equalityI) simp_all
  moreover have "take n ?r ! i = pre ! i" if "i < n" "source_index es n i = i" for i
    using nth_swap_in_place [OF t, of i "pre @ rest"] that pre src [of i] by (simp add: nth_append)
  ultimately show ?thesis using len append_take_drop_id [of n ?r] by (intro exI [of _ "take n ?r"]) simp
qed



lemma property_tables:
  "request_swap_table 18 minor = Some ([u32f 0, u32f 4, u32f 8, u32f 16] @ [Custom swap_property_data_tail])"
  "request_swap_table 128 13 = Some ([u32f 0, u32f 4, u32f 8, u32f 16] @ [Custom swap_property_data_tail])"
  "request_swap_table 128 39 = Some ([u32f 0, u32f 4, u32f 8, u32f 16] @ [Custom swap_property_data_tail])"
  by (simp_all add: request_swap_table_def core_request_swap_table_def core_request_arms_1_def
        extension_request_swap_table_def randr_request_swap_table_def randr_request_arms_def)

text \<open>
  Property data. The items of a ChangeProperty request from a big-endian client, in the format
  the request names, are stored in the server's order: 16 and 32 bit items little-endian, bytes as
  they are.
\<close>

theorem property_items_in_server_order:
  assumes "length header = 20" and "major = 18 \<or> major = 128 \<and> minor \<in> {13, 39}"
  shows "(header ! 12 = 8 \<longrightarrow> drop 20 (swap_request_body major minor BigEndian (header @ bs)) = bs)
    \<and> (header ! 12 = 16 \<longrightarrow> drop 20 (swap_request_body major minor BigEndian (header @ concat (map (write_u16 BigEndian []) vs)))
         = concat (map (write_u16 LittleEndian []) vs))
    \<and> (header ! 12 = 32 \<longrightarrow> drop 20 (swap_request_body major minor BigEndian (header @ concat (map (write_u32 BigEndian []) ws)))
         = concat (map (write_u32 LittleEndian []) ws))"
proof -
  let ?es = "[u32f 0, u32f 4, u32f 8, u32f 16]"
  have table: "request_swap_table major minor = Some (?es @ [Custom swap_property_data_tail])"
    using assms(2) property_tables by blast
  have body: "swap_request_body major minor BigEndian b = swap_property_data_tail BigEndian (swap_in_place ?es BigEndian b)" for b
    using assms(2) table by (auto simp: swap_request_body_def swap_in_place_def apply_entry_def)
  have "table_from 0 ?es" "\<forall>e \<in> set ?es. ends_by 20 e" by simp_all
  note fixed = fixed_below [OF this assms(1)]
  have src: "source_index ?es 20 12 = 12" by (simp add: entry_source_def)
  have fixed: "\<exists>pre'. length pre' = 20 \<and> pre' ! 12 = header ! 12 \<and> swap_in_place ?es BigEndian (header @ rest) = pre' @ rest" for rest
  proof -
    obtain pre' where "length pre' = 20" "\<forall>i < 20. source_index ?es 20 i = i \<longrightarrow> pre' ! i = header ! i"
      "swap_in_place ?es BigEndian (header @ rest) = pre' @ rest" using fixed by blast
    then show ?thesis using src by (intro exI [of _ pre']) simp
  qed
  have enc: "write_u16 BigEndian [] = u16_to_be_bytes" "write_u32 BigEndian [] = u32_to_be_bytes"
    "write_u16 LittleEndian [] = (\<lambda>v. rev (u16_to_be_bytes v))" "write_u32 LittleEndian [] = (\<lambda>v. rev (u32_to_be_bytes v))"
    by (simp_all add: fun_eq_iff write_u16_def write_u32_def)
  show ?thesis unfolding body enc
    using fixed [of bs] fixed [of "concat (map u16_to_be_bytes vs)"] fixed [of "concat (map u32_to_be_bytes ws)"]
    by (intro conjI impI) (auto simp: property_data_swapped)
qed

theorem property_items_in_server_order_witness:
  "drop 20 (swap_request_body 18 0 BigEndian
     ([0, 0, 0, 5, 0, 0, 0, 6, 0, 0, 0, 7, 32, 0, 0, 0, 0, 0, 0, 2] @ concat (map (write_u32 BigEndian []) [1, 258])))
   = concat (map (write_u32 LittleEndian []) [1, 258])"
  using property_items_in_server_order [of "[0, 0, 0, 5, 0, 0, 0, 6, 0, 0, 0, 7, 32, 0, 0, 0, 0, 0, 0, 2]" 18 0 "[]" "[]" "[1, 258]"]
  by simp




section \<open>Where the tables and the handlers differ\<close>

text \<open>
  The modifiers of GrabButton are at offset 18 of the body, where its handler reads them; the table
  has them at 20, beyond the body, so they reach the handler with their bytes exchanged.
\<close>

lemma grab_button_modifiers_not_swapped:
  assumes "length body = 20"
  shows "read_u16 LittleEndian (drop 18 (swap_request_body 28 data BigEndian body)) = read_u16 LittleEndian (drop 18 body)"
proof -
  let ?t = "[u32f 0, u16f 4, u32f 8, u32f 12, u16f 20]"
  have t: "table_from 0 ?t" by simp
  have "request_swap_table 28 data = Some ?t"
    by (simp add: request_swap_table_def core_request_swap_table_def core_request_arms_1_def)
  then have "swap_request_body 28 data BigEndian body = swap_in_place ?t BigEndian body" by (simp add: swap_request_body_def)
  moreover have "source_index ?t 20 18 = 18" "source_index ?t 20 19 = 19" by (simp_all add: entry_source_def)
  ultimately show ?thesis
    using nth_swap_in_place [OF t, of 18 body] nth_swap_in_place [OF t, of 19 body] assms length_swap_in_place [OF t, of BigEndian body]
    by (simp add: read_u16_def)
qed

text \<open>
  The characters of QueryTextExtents are pairs of bytes, high byte first, in either byte order; the
  table exchanges them.
\<close>

lemma text_extents_characters_swapped:
  "drop 4 (swap_request_body 48 0 BigEndian [0, 0, 0, 1, 0x30, 0x42, 0, 0]) = [0x42, 0x30, 0, 0]"
proof -
  let ?t = "[u32f 0, ElementArrayTail 4 U16]" and ?b = "[0, 0, 0, 1, 0x30, 0x42, 0, 0] :: u8 list"
  have "request_swap_table 48 0 = Some ?t"
    by (simp add: request_swap_table_def core_request_swap_table_def core_request_arms_1_def core_request_arms_2_def)
  then have "swap_request_body 48 0 BigEndian ?b = swap_in_place ?t BigEndian ?b" by (simp add: swap_request_body_def)
  also have "\<dots> = [1, 0, 0, 0, 0x42, 0x30, 0, 0]"
    by (simp add: swap_in_place_def apply_entry_def swap_typed_def reverse_at_def swap_elements.simps)
  finally show ?thesis by simp
qed

text \<open>
  The records of XIBarrierReleasePointer begin with a 16 bit device, padded; the table turns them as
  32 bit values, and the handler reads every device as 0.
\<close>

lemma barrier_release_device_lost:
  "read_u16 LittleEndian (drop 4 (swap_request_body 137 61 BigEndian [0, 0, 0, 1, 0, 7, 0, 0, 0, 0, 0, 5, 0, 0, 0, 6])) = 0"
proof -
  let ?t = "[u32f 0, ElementArrayTail 4 U32]" and ?b = "[0, 0, 0, 1, 0, 7, 0, 0, 0, 0, 0, 5, 0, 0, 0, 6] :: u8 list"
  have "request_swap_table 137 61 = Some ?t"
    by (simp add: request_swap_table_def extension_request_swap_table_def xi_request_swap_table_def xi_request_arms_1_def xi_request_arms_2_def)
  then have "swap_request_body 137 61 BigEndian ?b = swap_in_place ?t BigEndian ?b" by (simp add: swap_request_body_def)
  also have "\<dots> = [1, 0, 0, 0, 0, 0, 7, 0, 5, 0, 0, 0, 6, 0, 0, 0]"
    by (simp add: swap_in_place_def apply_entry_def swap_typed_def reverse_at_def swap_elements.simps)
  finally show ?thesis by (simp add: read_u16_def u16_from_le_bytes_def u16_from_be_bytes_def)
qed

text \<open>KeymapNotify has no sequence number; its second and third bytes of keys are overwritten with one.\<close>

lemma keymap_notify_overwritten:
  assumes "length event = 32" and "event ! 0 = 11"
  shows "reencode_event src dst seq event ! 2 = (case dst of LittleEndian \<Rightarrow> ucast seq | BigEndian \<Rightarrow> ucast (drop_bit 8 seq))"
  using assms
  by (cases src; cases dst)
    (simp_all add: reencode_event_def core_event_swap_table_def core_event_arms_1_def core_event_arms_2_def swap_in_place_def u16_to_be_bytes_def)

end
