(* ===== verification/Present_Scheduler.thy ===== *)
theory Present_Scheduler
  imports Prelude
begin

text \<open>
  The Present extension's arithmetic on media stream counters (\<open>present_scheduler.rs\<close>): the frame
  a request is for and whether it is due. Counters are 64-bit words; \<open>+\<close> and \<open>-\<close> wrap as in a
  release build.
\<close>

unbundle bit_operations_syntax

type_synonym u64 = "64 word"

definition PRESENT_OPTION_ASYNC :: u32 where "PRESENT_OPTION_ASYNC = 0x1"
definition PRESENT_OPTION_ASYNC_MAY_TEAR :: u32 where "PRESENT_OPTION_ASYNC_MAY_TEAR = 0x10"
definition PRESENT_ALL_ASYNC_OPTIONS :: u32 where
  "PRESENT_ALL_ASYNC_OPTIONS = PRESENT_OPTION_ASYNC OR PRESENT_OPTION_ASYNC_MAY_TEAR"

definition msc_is_after :: "u64 \<Rightarrow> u64 \<Rightarrow> bool" where
  "msc_is_after a b \<longleftrightarrow> 0 < sint (a - b)"

definition effective_target_msc :: "u64 \<Rightarrow> u64 \<Rightarrow> u64 \<Rightarrow> u64 \<Rightarrow> u32 \<Rightarrow> u64" where
  "effective_target_msc target_msc_arg crtc_msc divisor remainder options =
     (let synced = (options AND PRESENT_ALL_ASYNC_OPTIONS) = 0 in
      if msc_is_after target_msc_arg crtc_msc then target_msc_arg
      else if divisor = 0 then (if synced then crtc_msc + 1 else crtc_msc)
      else
        let target = crtc_msc - crtc_msc mod divisor + remainder in
        if msc_is_after target crtc_msc then target
        else if synced \<or> msc_is_after crtc_msc target then target + divisor
        else target)"

datatype msc_due = ExecuteNow | Park

definition classify_msc_due :: "u64 option \<Rightarrow> u64 \<Rightarrow> bool \<Rightarrow> msc_due" where
  "classify_msc_due eff clock_msc flip_in_flight =
     (case eff of
        None \<Rightarrow> ExecuteNow
      | Some e \<Rightarrow>
          if \<not> msc_is_after e clock_msc then ExecuteNow
          else if e = clock_msc + 1 then (if flip_in_flight then Park else ExecuteNow)
          else Park)"

text \<open>Counters less than half the range apart compare as numbers.\<close>

lemma msc_is_after_near: "unat a < 2 ^ 63 \<Longrightarrow> unat b < 2 ^ 63 \<Longrightarrow> msc_is_after a b \<longleftrightarrow> unat b < unat a"
proof -
  assume ab: "unat a < 2 ^ 63" "unat b < 2 ^ 63"
  have "uint a < int (2 ^ 63)" "uint b < int (2 ^ 63)"
    using ab [unfolded unat_eq_nat_uint] by (simp_all only: nat_less_iff [OF uint_ge_0])
  then have u: "uint a < 2 ^ 63" "uint b < 2 ^ 63" by simp_all
  have w: "uint (a - b) = take_bit 64 (uint a - uint b)" 
    using uint_word_ariths(2) [of a b] unfolding take_bit_eq_mod by simp
  have "sint (a - b) = signed_take_bit 63 (uint (a - b))" by (simp add: sint_uint)
  also have "\<dots> = signed_take_bit 63 (uint a - uint b)" unfolding w by (simp add: signed_take_bit_take_bit)
  also have "\<dots> = uint a - uint b"
  proof (rule signed_take_bit_int_eq_self)
    show "- (2 ^ 63) \<le> uint a - uint b" "uint a - uint b < 2 ^ 63"
      using u uint_ge_0 [of a] uint_ge_0 [of b] by linarith+
  qed
  finally have "msc_is_after a b \<longleftrightarrow> uint b < uint a" unfolding msc_is_after_def by linarith
  also have "\<dots> \<longleftrightarrow> unat b < unat a" by (simp only: word_less_def [symmetric] word_less_nat_alt)
  finally show ?thesis .
qed

lemma next_congruent:
  fixes c d r x :: nat
  assumes "r < d" and "x mod d = r"
  shows "c \<le> x \<Longrightarrow> c \<le> c - c mod d + r \<Longrightarrow> c - c mod d + r \<le> x"
    and "c < x \<Longrightarrow> c - c mod d + r \<le> c \<Longrightarrow> c - c mod d + r + d \<le> x"
    and "c \<le> x \<Longrightarrow> c - c mod d + r < c \<Longrightarrow> c - c mod d + r + d \<le> x"
proof -
  have c: "c - c mod d = d * (c div d)" by (simp add: minus_mod_eq_mult_div)
  have x: "x = d * (x div d) + r" using assms(2) by (metis mult_div_mod_eq)
  have cd: "c = d * (c div d) + c mod d" "c mod d < d" using assms(1) by auto
  have up: "d * (c div d) + r + d \<le> x" if "c div d < x div d"
  proof -
    have "d * Suc (c div d) \<le> d * (x div d)" using that by (intro mult_le_mono2) simp
    then show ?thesis using x by simp
  qed
  have le: "c div d \<le> x div d" if "c \<le> x" using that by (rule div_le_mono)
  show "c - c mod d + r \<le> x" if "c \<le> x" "c \<le> c - c mod d + r"
  proof -
    have "d * (c div d) \<le> d * (x div d)" using le that(1) by simp
    then show ?thesis using c x by linarith
  qed
  have same: "x = d * (c div d) + r" if "c \<le> x" "\<not> c div d < x div d" using that le x by simp
  show "c - c mod d + r + d \<le> x" if "c < x" "c - c mod d + r \<le> c"
    using that up same c by (cases "c div d < x div d") auto
  show "c - c mod d + r + d \<le> x" if "c \<le> x" "c - c mod d + r < c"
    using that up same c by (cases "c div d < x div d") auto
qed

text \<open>The first counter from \<open>low\<close> on that a request's divisor and remainder allow.\<close>

definition first_allowed :: "nat \<Rightarrow> nat \<Rightarrow> nat \<Rightarrow> nat \<Rightarrow> bool" where
  "first_allowed low divisor remainder t \<longleftrightarrow>
     low \<le> t \<and> (divisor = 0 \<or> t mod divisor = remainder)
     \<and> (\<forall>x. low \<le> x \<longrightarrow> divisor = 0 \<or> x mod divisor = remainder \<longrightarrow> t \<le> x)"

text \<open>The frame of this period that the remainder names, and the one a period later.\<close>

lemma aligned_frame:
  fixes crtc_msc divisor remainder :: "64 word"
  assumes lim: "unat crtc_msc + 2 * unat divisor < 2 ^ 63 - 1" and r: "unat remainder < unat divisor"
  defines "b \<equiv> crtc_msc - crtc_msc mod divisor + remainder"
  shows "unat b = unat crtc_msc - unat crtc_msc mod unat divisor + unat remainder"
    and "unat (b + divisor) = unat b + unat divisor"
    and "msc_is_after b crtc_msc \<longleftrightarrow> unat crtc_msc < unat b"
    and "msc_is_after crtc_msc b \<longleftrightarrow> unat b < unat crtc_msc"
proof -
  let ?c = "unat crtc_msc" and ?d = "unat divisor" and ?r = "unat remainder"
  have le: "?c - ?c mod ?d \<le> ?c" by simp
  have small: "?c - ?c mod ?d + ?r + ?d < 9223372036854775808" using r lim le by simp
  have "unat (crtc_msc - crtc_msc mod divisor) = ?c - ?c mod ?d"
    by (subst unat_sub) (simp_all add: word_le_nat_alt unat_mod)
  then show base: "unat b = ?c - ?c mod ?d + ?r" using small by (simp add: b_def unat_word_ariths)
  show "unat (b + divisor) = unat b + ?d" using small base by (simp add: unat_word_ariths)
  show "msc_is_after b crtc_msc \<longleftrightarrow> ?c < unat b" "msc_is_after crtc_msc b \<longleftrightarrow> unat b < ?c"
    using msc_is_after_near [of b crtc_msc] msc_is_after_near [of crtc_msc b] base small lim by simp_all
qed

text \<open>
  C30. The frame of a Present request. Away from the wrap-around of the counter, a request for a later
  frame is for that frame; any other is for the first frame that its divisor and remainder allow,
  counting from the next frame when it is synchronised and from this one when it is not.
\<close>

theorem effective_target_correct:
  fixes options :: u32
  assumes "unat target_arg < 2 ^ 63" and "unat crtc_msc + 2 * unat divisor < 2 ^ 63 - 1"
    and "divisor = 0 \<or> remainder < divisor"
  defines "t \<equiv> unat (effective_target_msc target_arg crtc_msc divisor remainder options)"
  shows "if unat crtc_msc < unat target_arg then t = unat target_arg
    else first_allowed (if options AND PRESENT_ALL_ASYNC_OPTIONS = 0 then unat crtc_msc + 1 else unat crtc_msc) (unat divisor) (unat remainder) t"
proof (cases "unat crtc_msc < unat target_arg")
  case True
  then show ?thesis using assms msc_is_after_near [of target_arg crtc_msc] by (simp add: t_def effective_target_msc_def)
next
  case late: False
  have n: "\<not> msc_is_after target_arg crtc_msc" using late assms(1,2) msc_is_after_near [of target_arg crtc_msc] by simp
  have plus1: "unat (crtc_msc + 1) = unat crtc_msc + 1"
    using assms(2) by (simp add: unat_word_ariths)
  show ?thesis
  proof (cases "divisor = 0")
    case True
    then show ?thesis using n late plus1 by (auto simp: t_def effective_target_msc_def first_allowed_def)
  next
    case False
    let ?c = "unat crtc_msc" and ?d = "unat divisor" and ?r = "unat remainder"
    have d: "0 < ?d" "?r < ?d" using False assms(3) by (auto simp: unat_gt_0 word_less_nat_alt)
    note aligned = aligned_frame [OF assms(2) d(2)]
    note base = aligned(1) and plusd = aligned(2) and after = aligned(3,4)
    have mod: "(?c - ?c mod ?d + ?r) mod ?d = ?r" "(?c - ?c mod ?d + ?r + ?d) mod ?d = ?r"
      using d(2) by (simp_all add: minus_mod_eq_mult_div)
    have "?c mod ?d < ?d" "?c mod ?d \<le> ?c" using d(1) by simp_all
    then have up: "?c < ?c - ?c mod ?d + ?r + ?d" by linarith
    note least = next_congruent [OF d(2)]
    show ?thesis
    proof (cases "?c < ?c - ?c mod ?d + ?r")
      case True
      then have "t = ?c - ?c mod ?d + ?r" using False n after base by (simp add: t_def effective_target_msc_def Let_def)
      then show ?thesis using True late d(1) mod(1) least(1) by (auto simp: first_allowed_def)
    next
      case past: False
      show ?thesis
      proof (cases "options AND PRESENT_ALL_ASYNC_OPTIONS = 0 \<or> ?c - ?c mod ?d + ?r < ?c")
        case True
        then have "t = ?c - ?c mod ?d + ?r + ?d" using False past n after base plusd by (auto simp: t_def effective_target_msc_def Let_def)
        then show ?thesis using True past late d(1) mod(2) up least(2,3) by (auto simp: first_allowed_def)
      next
        case now: False
        then have "t = ?c" using False past n after base by (simp add: t_def effective_target_msc_def Let_def)
        then show ?thesis using now past late d(1) mod(1) by (auto simp: first_allowed_def)
      qed
    qed
  qed
qed

theorem effective_target_correct_witness:
  "first_allowed 11 4 2 (unat (effective_target_msc 0 10 4 2 0))"
  using effective_target_correct [of 0 10 4 2 0] by simp

text \<open>
  When a request is due. Away from the wrap-around a request is carried out at once without a
  clock, when its frame has come, or when its frame is the next one and no flip is under way; so a
  synchronised request that is late waits for the next frame at most.
\<close>

theorem due_by_next_frame:
  assumes "unat clock + 1 < 2 ^ 63" and "\<And>e. eff = Some e \<Longrightarrow> unat e < 2 ^ 63"
  shows "(classify_msc_due eff clock flip = ExecuteNow \<longleftrightarrow>
      (case eff of None \<Rightarrow> True | Some e \<Rightarrow> unat e \<le> unat clock \<or> unat e = unat clock + 1 \<and> \<not> flip))
    \<and> (unat target_arg \<le> unat clock \<and> later = clock + 1
        \<longrightarrow> classify_msc_due (Some (effective_target_msc target_arg clock 0 remainder options)) later flip = ExecuteNow)"
proof -
  have plus1: "unat (clock + 1) = unat clock + 1" using assms(1) by (simp add: unat_word_ariths)
  have next_frame: "e = clock + 1 \<longleftrightarrow> unat e = unat clock + 1" for e
    using plus1 by (metis word_unat_eq_iff)
  have "classify_msc_due eff clock flip = ExecuteNow \<longleftrightarrow>
      (case eff of None \<Rightarrow> True | Some e \<Rightarrow> unat e \<le> unat clock \<or> unat e = unat clock + 1 \<and> \<not> flip)"
    using assms msc_is_after_near [of _ clock] next_frame by (auto simp: classify_msc_due_def split: option.split)
  moreover have "classify_msc_due (Some (effective_target_msc target_arg clock 0 remainder options)) (clock + 1) flip = ExecuteNow"
    if "unat target_arg \<le> unat clock"
  proof -
    have n: "\<not> msc_is_after target_arg clock" using that assms(1) msc_is_after_near [of target_arg clock] by simp
    have "\<not> msc_is_after (clock + 1) (clock + 1)" "\<not> msc_is_after clock (clock + 1)"
      using msc_is_after_near [of "clock + 1" "clock + 1"] msc_is_after_near [of clock "clock + 1"] plus1 assms(1) by simp_all
    then show ?thesis using n by (simp add: effective_target_msc_def classify_msc_due_def)
  qed
  ultimately show ?thesis by blast
qed

theorem due_by_next_frame_witness:
  "classify_msc_due (Some 11) 10 True = Park \<and> classify_msc_due (Some 11) 10 False = ExecuteNow
   \<and> classify_msc_due (Some (effective_target_msc 3 10 0 0 0)) 11 True = ExecuteNow"
  using due_by_next_frame [of 10 "Some 11" True 3 11 0 0] due_by_next_frame [of 10 "Some 11" False]
  by simp (metis msc_due.exhaust)

end
