(* ===== verification/Outbound.thy ===== *)
theory Outbound
  imports Hash_Maps
begin

text \<open>
  A client's output (\<open>core_loop/client_io.rs\<close>, with the writable interest of \<open>core_loop/run.rs\<close>):
  bytes are written at once when the socket takes them and queued otherwise, up to a cap; a
  descriptor is queued with the place of the reply it belongs to and goes with that reply's
  first bytes. The operating system is the parameter \<open>sys\<close>: its calls take the state of the world
  and return an \<open>io::Result\<close> with the next one. A \<open>None\<close> is a panic (an index past the end or a
  negative \<open>usize\<close>).
\<close>

declare map_of_eq_Some_iff [simp del] Some_eq_map_of_iff [simp del]

section \<open>State\<close>

datatype error_kind = WouldBlockKind | BrokenPipe | ConnectionReset | ConnectionAborted | Unsupported | OtherKind nat

record io_error =
  err_kind :: error_kind
  raw_os_error :: "int option"

datatype write_outcome = Done | WouldBlock | Disconnect

record 'fd queued_fd =
  qf_at :: nat
  qf_len :: nat
  qf_fd :: 'fd

text \<open>The output fields of \<open>ClientState\<close>.\<close>

record 'fd client_output =
  outbound :: "u8 list"
  outbound_fds :: "'fd queued_fd list"
  watching_writable :: bool
  out_failed :: bool
  out_gone :: bool

text \<open>
  The system's calls: \<open>write\<close> on the transport, \<open>sendmsg\<close> with one descriptor on a Unix socket,
  the duplication of a descriptor, and the change of the poller's interest. \<open>front_len\<close> is how much
  of a \<open>VecDeque\<close> of the given length its first slice holds, which depends on the allocation.
\<close>

record ('w, 'fd) system =
  sys_write :: "'w \<Rightarrow> u8 list \<Rightarrow> (io_error + nat) \<times> 'w"
  sys_sendmsg :: "'w \<Rightarrow> u8 list \<Rightarrow> 'fd \<Rightarrow> (io_error + nat) \<times> 'w"
  sys_dup :: "'w \<Rightarrow> 'fd \<Rightarrow> (io_error + 'fd) \<times> 'w"
  sys_watch :: "'w \<Rightarrow> bool \<Rightarrow> (io_error + unit) \<times> 'w"
  front_len :: "'w \<Rightarrow> nat \<Rightarrow> nat"
  is_unix :: bool
  EMSGSIZE :: int

definition OUTBOUND_CAP :: nat where
  "OUTBOUND_CAP = 4 * 1024 * 1024"

section \<open>Queued descriptors\<close>

definition next_at :: "'fd queued_fd list \<Rightarrow> nat option" where
  "next_at fds = (case fds of [] \<Rightarrow> None | q # _ \<Rightarrow> Some (qf_at q))"

definition sent :: "nat \<Rightarrow> bool \<Rightarrow> 'fd queued_fd list \<Rightarrow> 'fd queued_fd list option" where
  "sent n with_front fds =
     (let rest = (if with_front then tl fds else fds)
      in if list_all (\<lambda>q. n \<le> qf_at q) rest then Some (map (\<lambda>q. q\<lparr>qf_at := qf_at q - n\<rparr>) rest) else None)"

section \<open>Writing\<close>

definition disconnect_kind :: "error_kind \<Rightarrow> bool" where
  "disconnect_kind k \<longleftrightarrow> k = BrokenPipe \<or> k = ConnectionReset \<or> k = ConnectionAborted"

definition unsupported :: io_error where
  "unsupported = \<lparr>err_kind = Unsupported, raw_os_error = None\<rparr>"

definition send_with_fd :: "('w, 'fd) system \<Rightarrow> 'w \<Rightarrow> u8 list \<Rightarrow> 'fd \<Rightarrow> (io_error + nat) \<times> 'w" where
  "send_with_fd sys w chunk fd =
     (if \<not> is_unix sys then (Inl unsupported, w)
      else case sys_sendmsg sys w chunk fd of
        (Inl e, w') \<Rightarrow> if raw_os_error e = Some (EMSGSIZE sys)
                      then (Inl \<lparr>err_kind = WouldBlockKind, raw_os_error = None\<rparr>, w') else (Inl e, w')
      | other \<Rightarrow> other)"

text \<open>\<open>buffer_or_disconnect\<close>: the bytes are queued, unless others are and the cap would be passed.\<close>

definition buffer_or_disconnect :: "'fd client_output \<Rightarrow> u8 list \<Rightarrow> write_outcome \<times> 'fd client_output" where
  "buffer_or_disconnect c bytes =
     (if outbound c \<noteq> [] \<and> length (outbound c) + length bytes > OUTBOUND_CAP then (Disconnect, c)
      else (WouldBlock, c\<lparr>outbound := outbound c @ bytes\<rparr>))"

text \<open>
  One turn of the loop of \<open>drain_outbound_inner\<close>: the chunk, the call, and what becomes of the
  queue. The first component is the value the loop returns, \<open>None\<close> when it goes round again.
\<close>

definition next_chunk :: "nat \<Rightarrow> 'fd client_output \<Rightarrow> u8 list" where
  "next_chunk front c =
     (let with_fd = next_at (outbound_fds c) = Some 0;
          fits = (case outbound_fds c of [] \<Rightarrow> None | q # _ \<Rightarrow> Some (if with_fd then qf_len q else qf_at q));
          n = min front (8 * 1024)
      in take (case fits of None \<Rightarrow> n | Some e \<Rightarrow> min n e) (outbound c))"

definition write_chunk :: "('w, 'fd) system \<Rightarrow> 'w \<Rightarrow> 'fd client_output \<Rightarrow> (io_error + nat) \<times> 'w" where
  "write_chunk sys w c =
     (let chunk = next_chunk (front_len sys w (length (outbound c))) c
      in case outbound_fds c of
           q # _ \<Rightarrow> if next_at (outbound_fds c) = Some 0 then send_with_fd sys w chunk (qf_fd q) else sys_write sys w chunk
         | [] \<Rightarrow> sys_write sys w chunk)"

definition drain_turn :: "('w, 'fd) system \<Rightarrow> 'w \<Rightarrow> 'fd client_output
    \<Rightarrow> ((io_error + write_outcome) option \<times> 'fd client_output \<times> 'w) option" where
  "drain_turn sys w c =
     (case write_chunk sys w c of
        (Inr n, w') \<Rightarrow>
          if n = 0 then Some (Some (Inr Disconnect), c, w')
          else if length (outbound c) < n then None
          else map_option (\<lambda>fds. (None, c\<lparr>outbound := drop n (outbound c), outbound_fds := fds\<rparr>, w'))
                 (sent n (next_at (outbound_fds c) = Some 0) (outbound_fds c))
      | (Inl e, w') \<Rightarrow>
          if err_kind e = WouldBlockKind then Some (Some (Inr WouldBlock), c, w')
          else if disconnect_kind (err_kind e) then Some (Some (Inr Disconnect), c, w')
          else Some (Some (Inl e), c, w'))"

lemma drain_turn_shorter:
  assumes "drain_turn sys w c = Some (None, c', w')"
  shows "length (outbound c') < length (outbound c)"
  using assms by (auto simp: drain_turn_def split: prod.splits sum.splits if_splits)

function drain_outbound_inner :: "('w, 'fd) system \<Rightarrow> 'w \<Rightarrow> 'fd client_output
    \<Rightarrow> ((io_error + write_outcome) \<times> 'fd client_output \<times> 'w) option" where
  "drain_outbound_inner sys w c =
     (if outbound c = [] then Some (Inr Done, c, w)
      else case drain_turn sys w c of
        None \<Rightarrow> None
      | Some (Some r, c', w') \<Rightarrow> Some (r, c', w')
      | Some (None, c', w') \<Rightarrow> drain_outbound_inner sys w' c')"
  by auto
termination
  by (relation "measure (\<lambda>(sys, w, c). length (outbound c))") (auto dest: drain_turn_shorter)

declare drain_outbound_inner.simps [simp del]

definition write_with_fd_inner :: "('w, 'fd) system \<Rightarrow> 'w \<Rightarrow> 'fd client_output \<Rightarrow> u8 list \<Rightarrow> 'fd
    \<Rightarrow> ((io_error + write_outcome) \<times> 'fd client_output \<times> 'w) option" where
  "write_with_fd_inner sys w c bytes fd =
     (if outbound c \<noteq> [] \<and> length (outbound c) + length bytes > OUTBOUND_CAP then Some (Inr Disconnect, c, w)
      else case sys_dup sys w fd of
        (Inl e, w1) \<Rightarrow> Some (Inl e, c, w1)
      | (Inr fd', w1) \<Rightarrow>
          drain_outbound_inner sys w1
            (c\<lparr>outbound_fds := outbound_fds c @ [\<lparr>qf_at = length (outbound c), qf_len = length bytes, qf_fd = fd'\<rparr>],
              outbound := outbound c @ bytes\<rparr>))"

text \<open>\<open>write_or_buffer_inner\<close>, the direct write once the queue is empty first.\<close>

definition direct_write :: "('w, 'fd) system \<Rightarrow> 'w \<Rightarrow> 'fd client_output \<Rightarrow> u8 list
    \<Rightarrow> ((io_error + write_outcome) \<times> 'fd client_output \<times> 'w) option" where
  "direct_write sys w c bytes =
     (case sys_write sys w bytes of
        (Inr n, w') \<Rightarrow>
          if n = length bytes then Some (Inr Done, c, w')
          else if n = 0 then Some (Inr Disconnect, c, w')
          else if length bytes < n then None
          else let (r, c') = buffer_or_disconnect c (drop n bytes) in Some (Inr r, c', w')
      | (Inl e, w') \<Rightarrow>
          if err_kind e = WouldBlockKind then let (r, c') = buffer_or_disconnect c bytes in Some (Inr r, c', w')
          else if disconnect_kind (err_kind e) then Some (Inr Disconnect, c, w')
          else Some (Inl e, c, w'))"

definition write_or_buffer_inner :: "('w, 'fd) system \<Rightarrow> 'w \<Rightarrow> 'fd client_output \<Rightarrow> u8 list
    \<Rightarrow> ((io_error + write_outcome) \<times> 'fd client_output \<times> 'w) option" where
  "write_or_buffer_inner sys w c bytes =
     (if outbound c \<noteq> [] then
        (case drain_outbound_inner sys w c of
           None \<Rightarrow> None
         | Some (Inl e, c', w') \<Rightarrow> Some (Inl e, c', w')
         | Some (Inr Done, c', w') \<Rightarrow> direct_write sys w' c' bytes
         | Some (Inr WouldBlock, c', w') \<Rightarrow> let (r, c'') = buffer_or_disconnect c' bytes in Some (Inr r, c'', w')
         | Some (Inr Disconnect, c', w') \<Rightarrow> Some (Inr Disconnect, c', w'))
      else direct_write sys w c bytes)"

section \<open>The operations of the core loop\<close>

definition note_failure :: "(io_error + write_outcome) \<times> 'fd client_output \<times> 'w \<Rightarrow> (io_error + write_outcome) \<times> 'fd client_output \<times> 'w" where
  "note_failure = (\<lambda>(outcome, c, w).
     (outcome, if outcome \<noteq> Inr Done \<and> outcome \<noteq> Inr WouldBlock then c\<lparr>out_failed := True\<rparr> else c, w))"

definition write_with_fd :: "('w, 'fd) system \<Rightarrow> 'w \<Rightarrow> 'fd client_output \<Rightarrow> u8 list \<Rightarrow> 'fd
    \<Rightarrow> ((io_error + write_outcome) \<times> 'fd client_output \<times> 'w) option" where
  "write_with_fd sys w c bytes fd =
     (if out_gone c then Some (Inr Done, c, w)
      else if out_failed c then Some (Inr Disconnect, c, w)
      else map_option note_failure (write_with_fd_inner sys w c bytes fd))"

definition write_or_buffer :: "('w, 'fd) system \<Rightarrow> 'w \<Rightarrow> 'fd client_output \<Rightarrow> u8 list
    \<Rightarrow> ((io_error + write_outcome) \<times> 'fd client_output \<times> 'w) option" where
  "write_or_buffer sys w c bytes =
     (if out_gone c then Some (Inr Done, c, w)
      else if out_failed c then Some (Inr Disconnect, c, w)
      else map_option note_failure (write_or_buffer_inner sys w c bytes))"

definition drain_outbound :: "('w, 'fd) system \<Rightarrow> 'w \<Rightarrow> 'fd client_output
    \<Rightarrow> ((io_error + write_outcome) \<times> 'fd client_output \<times> 'w) option" where
  "drain_outbound sys w c =
     (if out_gone c then Some (Inr Done, c\<lparr>outbound := [], outbound_fds := []\<rparr>, w)
      else if out_failed c then Some (Inr Disconnect, c, w)
      else map_option note_failure (drain_outbound_inner sys w c))"

definition failed_writers :: "(u32, 'fd client_output) hash_map \<Rightarrow> u32 list" where
  "failed_writers clients = keys_where (\<lambda>c. out_failed c \<and> \<not> out_gone c) clients"

text \<open>
  \<open>reconcile_client_writable_interest\<close> for one client of its loop: the first component tells
  whether the caller has to disconnect the client. (The condition on Windows is left out.)
\<close>

definition reconcile_watch :: "('w, 'fd) system \<Rightarrow> 'w \<Rightarrow> 'fd client_output \<Rightarrow> 'fd client_output \<times> 'w" where
  "reconcile_watch sys w c =
     (let needs_writable = (outbound c \<noteq> [])
      in if needs_writable = watching_writable c then (c, w)
         else case sys_watch sys w needs_writable of
             (Inr _, w') \<Rightarrow> (c\<lparr>watching_writable := needs_writable\<rparr>, w')
           | (Inl _, w') \<Rightarrow> (c, w'))"

definition reconcile_client :: "('w, 'fd) system \<Rightarrow> 'w \<Rightarrow> 'fd client_output \<Rightarrow> (bool \<times> 'fd client_output \<times> 'w) option" where
  "reconcile_client sys w c =
     (if outbound c = [] then Some (False, reconcile_watch sys w c)
      else case drain_outbound sys w c of
        None \<Rightarrow> None
      | Some (r, c', w') \<Rightarrow>
          if r = Inr Done \<or> r = Inr WouldBlock then Some (False, reconcile_watch sys w' c')
          else Some (True, c', w'))"

text \<open>\<open>send_reply_with_fd\<close>, which refuses a transport that cannot pass descriptors.\<close>

definition send_reply_with_fd :: "('w, 'fd) system \<Rightarrow> 'w \<Rightarrow> bool \<Rightarrow> 'fd client_output \<Rightarrow> u8 list \<Rightarrow> 'fd
    \<Rightarrow> ((io_error + unit) \<times> 'fd client_output \<times> 'w) option" where
  "send_reply_with_fd sys w fd_passing c bytes fd =
     (if out_gone c then Some (Inr (), c, w)
      else if \<not> fd_passing then Some (Inl unsupported, c, w)
      else map_option (\<lambda>(r, c', w').
             (case r of
                Inl e \<Rightarrow> Inl e
              | Inr Disconnect \<Rightarrow> Inl \<lparr>err_kind = BrokenPipe, raw_os_error = None\<rparr>
              | Inr _ \<Rightarrow> Inr (), c', w'))
             (write_with_fd sys w c bytes fd))"

end
