(* ===== verification/Outbound_Stream.thy ===== *)
theory Outbound_Stream
  imports Outbound
begin

text \<open>
  A client's output as one stream of bytes, each with the descriptor that arrives with it: what the
  socket took and what is queued. Every operation of \<open>Outbound\<close> moves bytes from the queue to the
  socket or appends to the queue, and changes nothing else of the stream.
\<close>

section \<open>The stream\<close>

type_synonym 'fd stream = "(u8 \<times> 'fd option) list"

text \<open>The bytes of one message, its descriptor with the first.\<close>

fun tagged :: "u8 list \<Rightarrow> 'fd option \<Rightarrow> 'fd stream" where
  "tagged [] fd = []"
| "tagged (b # bs) fd = (b, fd) # map (\<lambda>b. (b, None)) bs"

definition fd_at :: "'fd queued_fd list \<Rightarrow> nat \<Rightarrow> 'fd option" where
  "fd_at fds k = map_option qf_fd (find (\<lambda>q. qf_at q = k) fds)"

fun stream_from :: "nat \<Rightarrow> u8 list \<Rightarrow> 'fd queued_fd list \<Rightarrow> 'fd stream" where
  "stream_from k [] fds = []"
| "stream_from k (b # bs) fds = (b, fd_at fds k) # stream_from (Suc k) bs fds"

definition queued :: "'fd client_output \<Rightarrow> 'fd stream" where
  "queued c = stream_from 0 (outbound c) (outbound_fds c)"

text \<open>The queued descriptors stand in order, each at the first byte of a reply that is queued whole.\<close>

fun fds_ok :: "nat \<Rightarrow> 'fd queued_fd list \<Rightarrow> nat \<Rightarrow> bool" where
  "fds_ok lo [] n \<longleftrightarrow> lo \<le> n"
| "fds_ok lo (q # qs) n \<longleftrightarrow> lo \<le> qf_at q \<and> 0 < qf_len q \<and> fds_ok (qf_at q + qf_len q) qs n"

definition output_ok :: "'fd client_output \<Rightarrow> bool" where
  "output_ok c \<longleftrightarrow> fds_ok 0 (outbound_fds c) (length (outbound c))"

lemma tagged_None: "tagged bs None = map (\<lambda>b. (b, None)) bs"
  by (cases bs) simp_all

lemma tagged_None_append: "tagged (xs @ ys) None = tagged xs None @ tagged ys None"
  by (simp add: tagged_None)

lemma stream_append: "stream_from k (xs @ ys) fds = stream_from k xs fds @ stream_from (k + length xs) ys fds"
  by (induction xs arbitrary: k) simp_all

lemma stream_cong:
  "(\<And>i. k \<le> i \<Longrightarrow> i < k + length bs \<Longrightarrow> fd_at fds i = fd_at fds' i) \<Longrightarrow> stream_from k bs fds = stream_from k bs fds'"
  by (induction bs arbitrary: k) simp_all

lemma stream_plain:
  "(\<And>i. k \<le> i \<Longrightarrow> i < k + length bs \<Longrightarrow> fd_at fds i = None) \<Longrightarrow> stream_from k bs fds = tagged bs None"
  by (induction bs arbitrary: k) (simp_all add: tagged_None)

lemma fds_ok_lower: "fds_ok lo fds n \<Longrightarrow> q \<in> set fds \<Longrightarrow> lo \<le> qf_at q"
  by (induction fds arbitrary: lo) fastforce+

lemma fds_ok_le: "fds_ok lo fds n \<Longrightarrow> lo \<le> n"
  by (induction fds arbitrary: lo) fastforce+

lemma fds_ok_weaken: "fds_ok lo fds n \<Longrightarrow> lo' \<le> lo \<Longrightarrow> fds_ok lo' fds n"
  by (cases fds) auto

lemma fds_ok_end: "fds_ok lo fds n \<Longrightarrow> n \<le> m \<Longrightarrow> fds_ok lo fds m"
  by (induction fds arbitrary: lo) auto

lemma fds_ok_upper: "fds_ok lo fds n \<Longrightarrow> q \<in> set fds \<Longrightarrow> qf_at q < n"
  by (induction fds arbitrary: lo) (auto dest: fds_ok_le)

lemma fds_ok_snoc: "fds_ok lo fds n \<Longrightarrow> 0 < l \<Longrightarrow> fds_ok lo (fds @ [\<lparr>qf_at = n, qf_len = l, qf_fd = fd\<rparr>]) (n + l)"
  by (induction fds arbitrary: lo) auto

lemma fds_ok_shift:
  "fds_ok (lo + n) fds (m + n) \<Longrightarrow> fds_ok lo (map (\<lambda>q. q\<lparr>qf_at := qf_at q - n\<rparr>) fds) m"
  by (induction fds arbitrary: lo) (auto simp: algebra_simps)

lemma fd_at_Nil [simp]: "fd_at [] k = None"
  by (simp add: fd_at_def)

lemma fd_at_Cons: "fd_at (q # qs) k = (if qf_at q = k then Some (qf_fd q) else fd_at qs k)"
  by (simp add: fd_at_def)

lemma fd_at_append: "fd_at (xs @ ys) k = (case fd_at xs k of None \<Rightarrow> fd_at ys k | Some fd \<Rightarrow> Some fd)"
  by (induction xs) (simp_all add: fd_at_Cons)

lemma fd_at_None: "(\<And>q. q \<in> set fds \<Longrightarrow> qf_at q \<noteq> k) \<Longrightarrow> fd_at fds k = None"
  by (induction fds) (simp_all add: fd_at_Cons)

lemma fd_at_before: "fds_ok lo fds n \<Longrightarrow> k < lo \<Longrightarrow> fd_at fds k = None"
  by (rule fd_at_None) (auto dest: fds_ok_lower)

lemma fd_at_after: "fds_ok lo fds n \<Longrightarrow> n \<le> k \<Longrightarrow> fd_at fds k = None"
  by (rule fd_at_None) (auto dest: fds_ok_upper)

lemma fd_at_shift:
  "list_all (\<lambda>q. n \<le> qf_at q) fds \<Longrightarrow> fd_at (map (\<lambda>q. q\<lparr>qf_at := qf_at q - n\<rparr>) fds) k = fd_at fds (k + n)"
  by (induction fds) (auto simp: fd_at_Cons)

lemma stream_shift:
  "list_all (\<lambda>q. n \<le> qf_at q) fds \<Longrightarrow>
     stream_from k bs (map (\<lambda>q. q\<lparr>qf_at := qf_at q - n\<rparr>) fds) = stream_from (k + n) bs fds"
  by (induction bs arbitrary: k) (simp_all add: fd_at_shift)

text \<open>A message appended to the queue.\<close>

lemma stream_push:
  assumes "fds_ok lo fds (length xs)"
  shows "stream_from 0 (xs @ ys) (fds @ [\<lparr>qf_at = length xs, qf_len = l, qf_fd = fd\<rparr>])
         = stream_from 0 xs fds @ tagged ys (Some fd)"
proof -
  let ?fds = "fds @ [\<lparr>qf_at = length xs, qf_len = l, qf_fd = fd\<rparr>]"
  have "stream_from 0 xs ?fds = stream_from 0 xs fds"
    by (rule stream_cong) (simp add: fd_at_append fd_at_Cons split: option.split)
  moreover have "stream_from (length xs) ys ?fds = tagged ys (Some fd)"
  proof (cases ys)
    case (Cons y zs)
    have "fd_at ?fds (length xs) = Some fd"
      using fd_at_after [OF assms] by (simp add: fd_at_append fd_at_Cons)
    moreover have "stream_from (Suc (length xs)) zs ?fds = tagged zs None"
      using fd_at_after [OF assms] by (intro stream_plain) (simp add: fd_at_append fd_at_Cons)
    ultimately show ?thesis using Cons by (simp add: tagged_None)
  qed simp
  ultimately show ?thesis by (simp add: stream_append)
qed

lemma stream_push_plain:
  assumes "fds_ok lo fds (length xs)"
  shows "stream_from 0 (xs @ ys) fds = stream_from 0 xs fds @ tagged ys None"
  using fd_at_after [OF assms] by (simp add: stream_append stream_plain)

section \<open>The system\<close>

text \<open>
  What the code relies on of the system: a call takes a prefix of its bytes, which the peer gets in
  order, the descriptor of a \<open>sendmsg\<close> with the first; a call that fails takes none. \<open>took\<close> is
  what the socket has taken so far.
\<close>

definition stream_socket :: "('w, 'fd) system \<Rightarrow> ('w \<Rightarrow> 'fd stream) \<Rightarrow> bool" where
  "stream_socket sys took \<longleftrightarrow>
     (\<forall>w bs. case sys_write sys w bs of
        (Inr n, w') \<Rightarrow> n \<le> length bs \<and> took w' = took w @ tagged (take n bs) None | (Inl e, w') \<Rightarrow> took w' = took w) \<and>
     (\<forall>w bs fd. case sys_sendmsg sys w bs fd of
        (Inr n, w') \<Rightarrow> n \<le> length bs \<and> took w' = took w @ tagged (take n bs) (Some fd) | (Inl e, w') \<Rightarrow> took w' = took w) \<and>
     (\<forall>w fd. took (snd (sys_dup sys w fd)) = took w) \<and>
     (\<forall>w b. took (snd (sys_watch sys w b)) = took w)"

lemma socket_write:
  assumes "stream_socket sys took"
  shows "sys_write sys w bs = (Inr n, w') \<Longrightarrow> n \<le> length bs \<and> took w' = took w @ tagged (take n bs) None"
    and "sys_write sys w bs = (Inl e, w') \<Longrightarrow> took w' = took w"
  using assms [unfolded stream_socket_def, THEN conjunct1, THEN spec [of _ w], THEN spec [of _ bs]] by simp_all

lemma socket_sendmsg:
  assumes "stream_socket sys took"
  shows "sys_sendmsg sys w bs fd = (Inr n, w') \<Longrightarrow> n \<le> length bs \<and> took w' = took w @ tagged (take n bs) (Some fd)"
    and "sys_sendmsg sys w bs fd = (Inl e, w') \<Longrightarrow> took w' = took w"
  using assms [unfolded stream_socket_def, THEN conjunct2, THEN conjunct1, THEN spec [of _ w], THEN spec [of _ bs],
    THEN spec [of _ fd]] by simp_all

lemma socket_dup: "stream_socket sys took \<Longrightarrow> sys_dup sys w fd = (r, w') \<Longrightarrow> took w' = took w"
  by (simp add: stream_socket_def) (metis snd_conv)

lemma socket_watch: "stream_socket sys took \<Longrightarrow> sys_watch sys w b = (r, w') \<Longrightarrow> took w' = took w"
  by (simp add: stream_socket_def) (metis snd_conv)

lemma socket_send_with_fd:
  assumes "stream_socket sys took"
  shows "send_with_fd sys w bs fd = (Inr n, w') \<Longrightarrow> n \<le> length bs \<and> took w' = took w @ tagged (take n bs) (Some fd)"
    and "send_with_fd sys w bs fd = (Inl e, w') \<Longrightarrow> took w' = took w"
  using socket_sendmsg [OF assms]
  by (auto simp: send_with_fd_def split: prod.splits sum.splits if_splits)

section \<open>Draining the queue\<close>

lemma write_chunk_took:
  assumes "stream_socket sys took"
    and "write_chunk sys w c = (r, w')"
    and "chunk = next_chunk (front_len sys w (length (outbound c))) c"
  shows "case r of Inr n \<Rightarrow> n \<le> length chunk \<and> took w' = took w @ tagged (take n chunk)
             (if next_at (outbound_fds c) = Some 0 then Some (qf_fd (hd (outbound_fds c))) else None)
         | Inl e \<Rightarrow> took w' = took w"
  using assms(2,3) socket_write [OF assms(1)] socket_send_with_fd [OF assms(1)]
  by (cases r) (auto simp: write_chunk_def next_at_def Let_def split: list.splits if_splits)

lemma next_chunk_prefix: "\<exists>k. next_chunk front c = take k (outbound c)"
  by (auto simp: next_chunk_def Let_def)

text \<open>
  A chunk ends before the reply of the next descriptor, or with its own descriptor's reply: what
  it takes off the queue's front carries at most the descriptor sent with it.
\<close>

lemma chunk_taken:
  assumes ok: "output_ok c" and n: "0 < n" "n \<le> length (next_chunk front c)"
    and fd: "fd = (if next_at (outbound_fds c) = Some 0 then Some (qf_fd (hd (outbound_fds c))) else None)"
  shows "\<exists>fds. sent n (next_at (outbound_fds c) = Some 0) (outbound_fds c) = Some fds
      \<and> fds_ok 0 fds (length (outbound c) - n)
      \<and> tagged (take n (next_chunk front c)) fd @ stream_from 0 (drop n (outbound c)) fds = queued c"
proof -
  let ?w = "next_at (outbound_fds c) = Some 0"
  let ?rest = "if ?w then tl (outbound_fds c) else outbound_fds c"
  have len: "n \<le> length (outbound c)"
    using n(2) by (auto simp: next_chunk_def Let_def)
  have take: "take n (next_chunk front c) = take n (outbound c)"
    using next_chunk_prefix [of front c] n(2) by auto
  have rest: "fds_ok n ?rest (length (outbound c))"
    using ok n len by (cases "outbound_fds c")
      (auto simp: output_ok_def next_chunk_def next_at_def Let_def intro: fds_ok_weaken split: if_splits)
  have ge: "list_all (\<lambda>q. n \<le> qf_at q) ?rest"
    using fds_ok_lower [OF rest] by (auto simp: list_all_iff)
  have first: "stream_from 0 (take n (outbound c)) (outbound_fds c) = tagged (take n (outbound c)) fd"
  proof (cases "take n (outbound c)")
    case (Cons b bs)
    have "fd_at (outbound_fds c) 0 = fd"
      using ok fd rest n(1) by (cases "outbound_fds c")
        (auto simp: fd_at_Cons next_at_def output_ok_def intro: fd_at_before)
    moreover have "stream_from (Suc 0) bs (outbound_fds c) = tagged bs None"
    proof (rule stream_plain)
      fix i assume "Suc 0 \<le> i" "i < Suc 0 + length bs"
      then have "0 < i" "i < n" using arg_cong [OF Cons, of length] len by simp_all
      then show "fd_at (outbound_fds c) i = None"
        using fd_at_before [OF rest, of i] by (cases "outbound_fds c") (auto simp: fd_at_Cons next_at_def split: if_splits)
    qed
    ultimately show ?thesis using Cons by (simp add: tagged_None)
  qed (simp del: take_eq_Nil)
  have later: "stream_from n (drop n (outbound c)) ?rest = stream_from n (drop n (outbound c)) (outbound_fds c)"
    using n(1) by (intro stream_cong) (cases "outbound_fds c", auto simp: fd_at_Cons next_at_def)
  let ?fds = "map (\<lambda>q. q\<lparr>qf_at := qf_at q - n\<rparr>) ?rest"
  have "sent n ?w (outbound_fds c) = Some ?fds"
    using ge by (simp add: sent_def)
  moreover have "fds_ok 0 ?fds (length (outbound c) - n)"
    using rest len by (intro fds_ok_shift) simp
  moreover have "tagged (take n (next_chunk front c)) fd @ stream_from 0 (drop n (outbound c)) ?fds = queued c"
    using stream_append [of 0 "take n (outbound c)" "drop n (outbound c)" "outbound_fds c"] len
    by (simp add: take first queued_def later stream_shift [OF ge])
  ultimately show ?thesis by blast
qed

definition same_flags :: "'fd client_output \<Rightarrow> 'fd client_output \<Rightarrow> bool" where
  "same_flags c c' \<longleftrightarrow> out_failed c' = out_failed c \<and> out_gone c' = out_gone c \<and> watching_writable c' = watching_writable c"

lemma same_flags_refl [simp]: "same_flags c c"
  by (simp add: same_flags_def)

lemma same_flags_trans: "same_flags c c' \<Longrightarrow> same_flags c' c'' \<Longrightarrow> same_flags c c''"
  by (simp add: same_flags_def)

lemma drain_turn_stream:
  assumes sock: "stream_socket sys took" and ok: "output_ok c"
  shows "\<exists>r c' w'. drain_turn sys w c = Some (r, c', w') \<and> output_ok c' \<and> same_flags c c'
           \<and> took w' @ queued c' = took w @ queued c \<and> (r = Some (Inr Done) \<longrightarrow> outbound c' = [])"
proof -
  obtain r w' where call: "write_chunk sys w c = (r, w')" by fastforce
  note took = write_chunk_took [OF sock call refl]
  show ?thesis
  proof (cases r)
    case (Inl e)
    then show ?thesis using call took ok by (simp add: drain_turn_def)
  next
    case (Inr n)
    show ?thesis
    proof (cases "n = 0")
      case True
      then show ?thesis using call took ok Inr by (simp add: drain_turn_def)
    next
      case False
      let ?chunk = "next_chunk (front_len sys w (length (outbound c))) c"
      from took Inr have n: "0 < n" "n \<le> length ?chunk" using False by simp_all
      from chunk_taken [OF ok n refl] obtain fds where fds:
        "sent n (next_at (outbound_fds c) = Some 0) (outbound_fds c) = Some fds"
        "fds_ok 0 fds (length (outbound c) - n)"
        "tagged (take n ?chunk) (if next_at (outbound_fds c) = Some 0 then Some (qf_fd (hd (outbound_fds c))) else None)
           @ stream_from 0 (drop n (outbound c)) fds = queued c" by blast
      have "n \<le> length (outbound c)" using n(2) by (auto simp: next_chunk_def Let_def)
      then show ?thesis
        using call took Inr fds n
        by (simp add: drain_turn_def output_ok_def queued_def [of "c\<lparr>outbound := _, outbound_fds := _\<rparr>"] same_flags_def)
    qed
  qed
qed

lemma drain_inner_stream:
  assumes sock: "stream_socket sys took"
  shows "output_ok c \<Longrightarrow> \<exists>r c' w'. drain_outbound_inner sys w c = Some (r, c', w') \<and> output_ok c' \<and> same_flags c c'
           \<and> took w' @ queued c' = took w @ queued c \<and> (r = Inr Done \<longrightarrow> outbound c' = [])"
proof (induction "length (outbound c)" arbitrary: c w rule: less_induct)
  case less
  show ?case
  proof (cases "outbound c = []")
    case True
    then show ?thesis using less.prems by (simp add: drain_outbound_inner.simps)
  next
    case False
    obtain r c' w' where turn: "drain_turn sys w c = Some (r, c', w')" "output_ok c'" "same_flags c c'"
      "took w' @ queued c' = took w @ queued c" "r = Some (Inr Done) \<longrightarrow> outbound c' = []"
      using drain_turn_stream [OF sock less.prems] by blast
    show ?thesis
    proof (cases r)
      case (Some x)
      then show ?thesis using turn False by (simp add: drain_outbound_inner.simps)
    next
      case None
      obtain r2 c2 w2 where "drain_outbound_inner sys w' c' = Some (r2, c2, w2)" "output_ok c2" "same_flags c' c2"
        "took w2 @ queued c2 = took w' @ queued c'" "r2 = Inr Done \<longrightarrow> outbound c2 = []"
        using less.hyps [OF _ turn(2), of w'] drain_turn_shorter [of sys w c c' w'] turn(1) None by auto
      then show ?thesis using turn None False same_flags_trans
        by (subst drain_outbound_inner.simps) auto
    qed
  qed
qed

end
