(* ===== verification/Outbound_Props.thy ===== *)
theory Outbound_Props
  imports Outbound_Stream "HOL-Library.Sublist"
begin

text \<open>
  The properties of a client's output over any sequence of the core loop's operations on it, from
  the client's registration on, and the concrete socket that witnesses them.
\<close>

section \<open>Sequences of operations\<close>

text \<open>\<open>Leave\<close> is the mark that \<open>process_disconnect\<close> sets on a departing client.\<close>

datatype 'fd output_op = Write "u8 list" | WriteFd "u8 list" 'fd | Drain | Reconcile | Leave

definition empty_output :: "'fd client_output" where
  "empty_output = \<lparr>outbound = [], outbound_fds = [], watching_writable = False, out_failed = False, out_gone = False\<rparr>"

definition mark_gone :: "'fd client_output \<Rightarrow> 'fd client_output" where
  "mark_gone c = c\<lparr>out_gone := True\<rparr>"

fun exec_output :: "('w, 'fd) system \<Rightarrow> 'fd output_op \<Rightarrow> 'w \<Rightarrow> 'fd client_output \<Rightarrow> ('fd client_output \<times> 'w) option" where
  "exec_output sys (Write bytes) w c = map_option snd (write_or_buffer sys w c bytes)"
| "exec_output sys (WriteFd bytes fd) w c = map_option snd (write_with_fd sys w c bytes fd)"
| "exec_output sys Drain w c = map_option snd (drain_outbound sys w c)"
| "exec_output sys Reconcile w c = map_option snd (reconcile_client sys w c)"
| "exec_output sys Leave w c = Some (mark_gone c, w)"

text \<open>What an operation adds to the stream the client is to get, while its output is open.\<close>

definition message :: "('w, 'fd) system \<Rightarrow> 'fd output_op \<Rightarrow> 'w \<Rightarrow> 'fd client_output \<Rightarrow> 'fd stream" where
  "message sys op w c =
     (if out_gone c \<or> out_failed c then []
      else case op of
        Write bytes \<Rightarrow> tagged bytes None
      | WriteFd bytes fd \<Rightarrow> (case sys_dup sys w fd of (Inr fd', _) \<Rightarrow> tagged bytes (Some fd') | (Inl _, _) \<Rightarrow> [])
      | _ \<Rightarrow> [])"

fun run_output :: "('w, 'fd) system \<Rightarrow> 'fd output_op list \<Rightarrow> 'w \<Rightarrow> 'fd client_output \<Rightarrow> 'fd stream
    \<Rightarrow> ('fd client_output \<times> 'w \<times> 'fd stream) option" where
  "run_output sys [] w c offered = Some (c, w, offered)"
| "run_output sys (op # ops) w c offered =
     (case exec_output sys op w c of
        None \<Rightarrow> None
      | Some (c', w') \<Rightarrow> run_output sys ops w' c' (offered @ message sys op w c))"

text \<open>A reply that carries a descriptor is not empty; \<open>m\<close> bounds the messages of a run.\<close>

fun op_ok :: "nat \<Rightarrow> 'fd output_op \<Rightarrow> bool" where
  "op_ok m (Write bytes) \<longleftrightarrow> length bytes \<le> m"
| "op_ok m (WriteFd bytes fd) \<longleftrightarrow> bytes \<noteq> [] \<and> length bytes \<le> m"
| "op_ok m _ \<longleftrightarrow> True"

section \<open>Each operation on the stream\<close>

definition accepted :: "io_error + write_outcome \<Rightarrow> bool" where
  "accepted r \<longleftrightarrow> r = Inr Done \<or> r = Inr WouldBlock"

lemma accepted_simps [simp]:
  "accepted (Inr Done)" "accepted (Inr WouldBlock)" "\<not> accepted (Inr Disconnect)" "\<not> accepted (Inl e)"
  by (simp_all add: accepted_def)

text \<open>
  What a write of \<open>msg\<close> does: the queue stays well formed and bounded; an accepted message is
  behind what was queued, and what the socket took is a prefix of the stream in any case.
\<close>

definition appends :: "('w \<Rightarrow> 'fd stream) \<Rightarrow> nat \<Rightarrow> 'fd stream \<Rightarrow> 'w \<Rightarrow> 'fd client_output
    \<Rightarrow> ((io_error + write_outcome) \<times> 'fd client_output \<times> 'w) option \<Rightarrow> bool" where
  "appends took m msg w c res \<longleftrightarrow>
     (\<exists>r c' w'. res = Some (r, c', w') \<and> output_ok c' \<and> same_flags c c'
        \<and> length (outbound c') \<le> max (length (outbound c)) (max OUTBOUND_CAP m)
        \<and> prefix (took w') (took w @ queued c @ msg)
        \<and> (accepted r \<longrightarrow> took w' @ queued c' = took w @ queued c @ msg))"

lemma appendsI:
  assumes "res = Some (r, c', w')" "output_ok c'" "same_flags c c'"
    and "length (outbound c') \<le> max (length (outbound c)) (max OUTBOUND_CAP m)"
    and "took w' @ queued c' @ rest = took w @ queued c @ msg" "accepted r \<Longrightarrow> rest = []"
  shows "appends took m msg w c res"
proof -
  have "prefix (took w') (took w @ queued c @ msg)"
    using assms(5) by (metis prefixI append.assoc)
  then show ?thesis using assms by (auto simp: appends_def)
qed

lemma appends_accepted:
  assumes "res = Some (r, c', w')" "output_ok c'" "same_flags c c'"
    and "length (outbound c') \<le> max (length (outbound c)) (max OUTBOUND_CAP m)"
    and "took w' @ queued c' = took w @ queued c @ msg"
  shows "appends took m msg w c res"
  using assms by (intro appendsI [where rest = "[]"]) auto

lemma appends_refused:
  assumes "res = Some (r, c', w')" "output_ok c'" "same_flags c c'"
    and "length (outbound c') \<le> length (outbound c)"
    and "took w' @ queued c' = took w @ queued c" "\<not> accepted r"
  shows "appends took m msg w c res"
proof (rule appendsI [OF assms(1-3)])
  show "took w' @ queued c' @ msg = took w @ queued c @ msg" using assms(5) by (metis append.assoc)
qed (use assms in auto)

lemma drain_inner_length: "drain_outbound_inner sys w c = Some (r, c', w') \<Longrightarrow> length (outbound c') \<le> length (outbound c)"
proof (induction "length (outbound c)" arbitrary: c w rule: less_induct)
  case less
  show ?case
  proof (cases "outbound c = []")
    case False
    then obtain r1 c1 w1 where turn: "drain_turn sys w c = Some (r1, c1, w1)"
      using less.prems by (auto simp: drain_outbound_inner.simps [of sys w c] split: option.splits)
    show ?thesis
    proof (cases r1)
      case None
      with turn have "length (outbound c1) < length (outbound c)" by (simp add: drain_turn_shorter)
      then show ?thesis
        using less.hyps [of c1 w1] less.prems turn None False by (simp add: drain_outbound_inner.simps [of sys w c])
    next
      case (Some x)
      have "c1 = c" using turn Some by (auto simp: drain_turn_def split: prod.splits sum.splits if_splits)
      then show ?thesis using less.prems turn Some False by (simp add: drain_outbound_inner.simps [of sys w c])
    qed
  qed (use less.prems in \<open>simp add: drain_outbound_inner.simps\<close>)
qed

lemma output_ok_empty: "output_ok c \<Longrightarrow> outbound c = [] \<Longrightarrow> outbound_fds c = [] \<and> queued c = []"
  by (cases "outbound_fds c") (auto simp: output_ok_def queued_def dest: fds_ok_le)

lemma buffer_stream:
  assumes "output_ok c" "buffer_or_disconnect c bytes = (r, c')"
  shows "output_ok c'" "same_flags c c'"
    and "length (outbound c') \<le> max (length (outbound c)) (max OUTBOUND_CAP (length bytes))"
    and "r = WouldBlock \<Longrightarrow> queued c' = queued c @ tagged bytes None"
    and "r \<noteq> WouldBlock \<Longrightarrow> r = Disconnect \<and> c' = c"
  using assms stream_push_plain [of 0 "outbound_fds c" "outbound c" bytes]
  by (auto simp: buffer_or_disconnect_def output_ok_def queued_def same_flags_def intro: fds_ok_end split: if_splits)

lemma direct_write_appends:
  assumes sock: "stream_socket sys took" and ok: "output_ok c" and empty: "outbound c = []" and m: "length bytes \<le> m"
  shows "appends took m (tagged bytes None) w c (direct_write sys w c bytes)"
proof -
  obtain r w' where call: "sys_write sys w bytes = (r, w')" by fastforce
  have none: "queued c = []" using output_ok_empty [OF ok empty] by simp
  have buffered: "buffer_or_disconnect c bs = (WouldBlock, c\<lparr>outbound := bs\<rparr>)" for bs
    using empty by (simp add: buffer_or_disconnect_def)
  have q: "queued (c\<lparr>outbound := bs\<rparr>) = tagged bs None \<and> output_ok (c\<lparr>outbound := bs\<rparr>)" for bs
    using buffer_stream(1,4) [OF ok buffered] none by simp
  note [simp] = direct_write_def call buffered none q
  show ?thesis
  proof (cases r)
    case (Inl e)
    then have "took w' = took w" using socket_write(2) [OF sock] call by blast
    then show ?thesis
      using ok m Inl by (cases "err_kind e = WouldBlockKind")
        (auto intro: appends_accepted [where w' = w'] appends_refused [where w' = w'] simp: same_flags_def)
  next
    case (Inr n)
    have took: "n \<le> length bytes" "took w' = took w @ tagged (take n bytes) None"
      using socket_write(1) [OF sock] call Inr by blast+
    have split: "tagged bytes None = tagged (take n bytes) None @ tagged (drop n bytes) (None :: 'b option)"
      by (simp flip: tagged_None_append)
    consider "n = length bytes" | "n = 0" "n \<noteq> length bytes" | "0 < n" "n < length bytes" using took(1) by linarith
    then show ?thesis
    proof cases
      case 1
      then show ?thesis using Inr took ok by (intro appends_accepted [where r = "Inr Done" and w' = w' and c' = c]) auto
    next
      case 2
      then show ?thesis using Inr took ok by (intro appends_refused [where r = "Inr Disconnect" and w' = w' and c' = c]) auto
    next
      case 3
      then show ?thesis using Inr took m split
        by (intro appends_accepted [where r = "Inr WouldBlock" and w' = w' and c' = "c\<lparr>outbound := drop n bytes\<rparr>"])
          (auto simp: same_flags_def)
    qed
  qed
qed

lemma write_inner_appends:
  assumes sock: "stream_socket sys took" and ok: "output_ok c" and m: "length bytes \<le> m"
  shows "appends took m (tagged bytes None) w c (write_or_buffer_inner sys w c bytes)"
proof (cases "outbound c = []")
  case True
  then show ?thesis using direct_write_appends [OF sock ok True m] by (simp add: write_or_buffer_inner_def)
next
  case False
  obtain r c1 w1 where drain: "drain_outbound_inner sys w c = Some (r, c1, w1)" "output_ok c1" "same_flags c c1"
      "took w1 @ queued c1 = took w @ queued c" "r = Inr Done \<longrightarrow> outbound c1 = []"
    using drain_inner_stream [OF sock ok] by blast
  have len: "length (outbound c1) \<le> length (outbound c)" by (rule drain_inner_length [OF drain(1)])
  have before: "took w @ queued c @ x = took w1 @ queued c1 @ x" for x using drain(4) by (metis append.assoc)
  consider e where "r = Inl e" | "r = Inr Done" | "r = Inr WouldBlock" | "r = Inr Disconnect"
    by (metis sum.exhaust write_outcome.exhaust)
  then show ?thesis
  proof cases
    case 2
    then have "appends took m (tagged bytes None) w1 c1 (direct_write sys w1 c1 bytes)"
      using direct_write_appends [OF sock drain(2) _ m] drain(5) by simp
    then obtain r2 c2 w2 where d: "direct_write sys w1 c1 bytes = Some (r2, c2, w2)" "output_ok c2" "same_flags c1 c2"
        "length (outbound c2) \<le> max (length (outbound c1)) (max OUTBOUND_CAP m)"
        "prefix (took w2) (took w1 @ queued c1 @ tagged bytes None)"
        "accepted r2 \<longrightarrow> took w2 @ queued c2 = took w1 @ queued c1 @ tagged bytes None"
      by (auto simp: appends_def)
    have "write_or_buffer_inner sys w c bytes = Some (r2, c2, w2)"
      using 2 drain(1) d(1) False by (simp add: write_or_buffer_inner_def)
    moreover have "length (outbound c2) \<le> max (length (outbound c)) (max OUTBOUND_CAP m)" using d(4) len by simp
    ultimately show ?thesis using d before [of "tagged bytes None"] same_flags_trans [OF drain(3) d(3)]
      unfolding appends_def by metis
  next
    case 3
    obtain r2 c2 where b: "buffer_or_disconnect c1 bytes = (r2, c2)" by fastforce
    note facts = buffer_stream [OF drain(2) b]
    show ?thesis
    proof (rule appendsI [where rest = "if r2 = WouldBlock then [] else tagged bytes None"])
      show "write_or_buffer_inner sys w c bytes = Some (Inr r2, c2, w1)"
        using 3 drain(1) False b by (simp add: write_or_buffer_inner_def)
    qed (use facts drain len m before same_flags_trans in \<open>auto\<close>)
  qed (use drain False len before in \<open>auto intro!: appendsI [where rest = "tagged bytes None"] simp: write_or_buffer_inner_def\<close>)
qed

lemma write_fd_inner_appends:
  assumes sock: "stream_socket sys took" and ok: "output_ok c" and m: "length bytes \<le> m" and some: "bytes \<noteq> []"
  shows "appends took m (case sys_dup sys w fd of (Inr fd', _) \<Rightarrow> tagged bytes (Some fd') | (Inl _, _) \<Rightarrow> []) w c
    (write_with_fd_inner sys w c bytes fd)"
proof (cases "outbound c \<noteq> [] \<and> length (outbound c) + length bytes > OUTBOUND_CAP")
  case True
  then have "write_with_fd_inner sys w c bytes fd = Some (Inr Disconnect, c, w)" by (simp add: write_with_fd_inner_def)
  then show ?thesis using ok by (rule appends_refused) simp_all
next
  case False
  obtain r w1 where dup: "sys_dup sys w fd = (r, w1)" by fastforce
  have took: "took w1 = took w" by (rule socket_dup [OF sock dup])
  show ?thesis
  proof (cases r)
    case (Inl e)
    then have "write_with_fd_inner sys w c bytes fd = Some (Inl e, c, w1)"
      using False dup by (simp add: write_with_fd_inner_def del: not_less)
    then show ?thesis using ok by (rule appends_refused) (simp_all add: took)
  next
    case (Inr fd')
    let ?q = "\<lparr>qf_at = length (outbound c), qf_len = length bytes, qf_fd = fd'\<rparr>"
    let ?c = "c\<lparr>outbound_fds := outbound_fds c @ [?q], outbound := outbound c @ bytes\<rparr>"
    have ok': "output_ok ?c"
      using ok some fds_ok_snoc [of 0 "outbound_fds c" "length (outbound c)" "length bytes" fd'] by (simp add: output_ok_def)
    have queued: "queued ?c = queued c @ tagged bytes (Some fd')"
      using ok by (simp add: queued_def output_ok_def stream_push)
    obtain r2 c2 w2 where drain: "drain_outbound_inner sys w1 ?c = Some (r2, c2, w2)" "output_ok c2" "same_flags ?c c2"
        "took w2 @ queued c2 = took w1 @ queued ?c"
      using drain_inner_stream [OF sock ok'] by blast
    have "write_with_fd_inner sys w c bytes fd = Some (r2, c2, w2)"
      using False dup Inr drain(1) by (auto simp: write_with_fd_inner_def)
    moreover have "length (outbound c2) \<le> max (length (outbound c)) (max OUTBOUND_CAP m)"
      using drain_inner_length [OF drain(1)] False m by (cases "outbound c = []") auto
    moreover have "same_flags c c2" using drain(3) by (simp add: same_flags_def)
    ultimately show ?thesis using drain(2,4) dup Inr took queued by (intro appends_accepted) simp_all
  qed
qed

lemma drain_inner_appends:
  assumes "stream_socket sys took" "output_ok c"
  shows "appends took m [] w c (drain_outbound_inner sys w c)"
  using drain_inner_stream [OF assms] drain_inner_length by (fastforce intro: appends_accepted)

section \<open>Each operation of the core loop\<close>

text \<open>
  The contract of an operation: no panic, a well-formed queue, flags that are never cleared; while
  the output is open the stream grows by \<open>msg\<close>, whole unless the client is failed or gone
  afterwards, and a closed output sends nothing.
\<close>

definition delivers :: "('w \<Rightarrow> 'fd stream) \<Rightarrow> nat \<Rightarrow> 'fd stream \<Rightarrow> 'w \<Rightarrow> 'fd client_output
    \<Rightarrow> ('fd client_output \<times> 'w) option \<Rightarrow> bool" where
  "delivers took m msg w c res \<longleftrightarrow>
     (\<exists>c' w'. res = Some (c', w') \<and> output_ok c' \<and> (out_failed c \<longrightarrow> out_failed c') \<and> (out_gone c \<longrightarrow> out_gone c')
        \<and> length (outbound c') \<le> max (length (outbound c)) (max OUTBOUND_CAP m)
        \<and> (if out_gone c \<or> out_failed c then took w' = took w
           else prefix (took w') (took w @ queued c @ msg)
             \<and> (\<not> out_failed c' \<and> \<not> out_gone c' \<longrightarrow> took w' @ queued c' = took w @ queued c @ msg)))"

lemma noted_delivers:
  assumes "appends took m msg w c res" "\<not> out_gone c" "\<not> out_failed c"
  shows "delivers took m msg w c (map_option (snd \<circ> note_failure) res)"
proof -
  from assms(1) obtain r c' w' where "res = Some (r, c', w')" "output_ok c'" "same_flags c c'"
      "length (outbound c') \<le> max (length (outbound c)) (max OUTBOUND_CAP m)"
      "prefix (took w') (took w @ queued c @ msg)"
      "accepted r \<longrightarrow> took w' @ queued c' = took w @ queued c @ msg" by (auto simp: appends_def)
  then show ?thesis using assms(2,3)
    by (cases "accepted r")
      (auto simp: delivers_def note_failure_def accepted_def same_flags_def output_ok_def queued_def)
qed

lemma closed_delivers:
  assumes "output_ok c" "out_gone c \<or> out_failed c" "c' = c \<or> c' = c\<lparr>outbound := [], outbound_fds := []\<rparr>"
  shows "delivers took m msg w c (Some (c', w))"
  using assms by (auto simp: delivers_def output_ok_def)

lemma drain_delivers:
  assumes "stream_socket sys took" "output_ok c"
  shows "delivers took m [] w c (map_option snd (drain_outbound sys w c))"
proof (cases "out_gone c \<or> out_failed c")
  case True
  then show ?thesis using assms by (auto simp: drain_outbound_def delivers_def output_ok_def)
next
  case False
  then show ?thesis using noted_delivers [OF drain_inner_appends [OF assms]]
    by (simp add: drain_outbound_def option.map_comp)
qed

lemma reconcile_watch_frame:
  assumes "stream_socket sys took" "reconcile_watch sys w c = (c', w')"
  shows "took w' = took w" "\<exists>b. c' = c\<lparr>watching_writable := b\<rparr>"
  using assms socket_watch [OF assms(1)]
  by (cases c; auto simp: reconcile_watch_def Let_def split: if_splits prod.splits sum.splits)+

lemma delivers_watch:
  assumes "stream_socket sys took" "delivers took m msg w c (Some (c1, w1))"
  shows "delivers took m msg w c (Some (reconcile_watch sys w1 c1))"
  using assms(2) reconcile_watch_frame [OF assms(1), of w1 c1]
  by (cases "reconcile_watch sys w1 c1") (auto simp: delivers_def output_ok_def queued_def)

lemma exec_delivers:
  assumes sock: "stream_socket sys took" and ok: "output_ok c" and op: "op_ok m op"
  shows "delivers took m (message sys op w c) w c (exec_output sys op w c)"
proof (cases op)
  case (Write bytes)
  show ?thesis
  proof (cases "out_gone c \<or> out_failed c")
    case True
    then show ?thesis using Write closed_delivers [OF ok True, of c] by (auto simp: write_or_buffer_def)
  next
    case False
    then show ?thesis using Write op noted_delivers [OF write_inner_appends [OF sock ok]]
      by (simp add: write_or_buffer_def message_def option.map_comp)
  qed
next
  case (WriteFd bytes fd)
  show ?thesis
  proof (cases "out_gone c \<or> out_failed c")
    case True
    then show ?thesis using WriteFd closed_delivers [OF ok True, of c] by (auto simp: write_with_fd_def)
  next
    case False
    then show ?thesis using WriteFd op noted_delivers [OF write_fd_inner_appends [OF sock ok]]
      by (simp add: write_with_fd_def message_def option.map_comp)
  qed
next
  case Drain
  then show ?thesis using drain_delivers [OF sock ok] by (simp add: message_def)
next
  case Reconcile
  have keep: "delivers took m [] w c (Some (c, w))" using ok by (simp add: delivers_def)
  show ?thesis
  proof (cases "outbound c = []")
    case True
    then show ?thesis using Reconcile delivers_watch [OF sock keep] by (simp add: reconcile_client_def message_def)
  next
    case False
    note drain = drain_delivers [OF sock ok, of m w]
    then obtain r c1 w1 where "drain_outbound sys w c = Some (r, c1, w1)" by (auto simp: delivers_def)
    with drain False Reconcile show ?thesis
      using delivers_watch [OF sock, of m "[]" w c c1 w1] by (auto simp: reconcile_client_def message_def)
  qed
next
  case Leave
  then show ?thesis using ok by (auto simp: delivers_def message_def mark_gone_def output_ok_def)
qed

section \<open>Runs\<close>

definition stream_kept :: "('w \<Rightarrow> 'fd stream) \<Rightarrow> nat \<Rightarrow> 'w \<Rightarrow> 'fd client_output \<Rightarrow> 'w \<Rightarrow> 'fd stream \<Rightarrow> bool" where
  "stream_kept took m w0 c w offered \<longleftrightarrow>
     output_ok c \<and> length (outbound c) \<le> max OUTBOUND_CAP m \<and> prefix (took w) (took w0 @ offered)
     \<and> (\<not> out_failed c \<and> \<not> out_gone c \<longrightarrow> took w @ queued c = took w0 @ offered)"

lemma exec_kept:
  assumes "stream_socket sys took" "op_ok m op" "stream_kept took m w0 c w offered"
  obtains c' w' where "exec_output sys op w c = Some (c', w')" "stream_kept took m w0 c' w' (offered @ message sys op w c)"
proof -
  have ok: "output_ok c" using assms(3) by (simp add: stream_kept_def)
  from exec_delivers [OF assms(1) ok assms(2), of w] obtain c' w' where
    res: "exec_output sys op w c = Some (c', w')" and d: "delivers took m (message sys op w c) w c (Some (c', w'))"
    by (auto simp: delivers_def)
  have "stream_kept took m w0 c' w' (offered @ message sys op w c)"
  proof (cases "out_gone c \<or> out_failed c")
    case True
    then show ?thesis using d assms(3) by (auto simp: delivers_def stream_kept_def message_def)
  next
    case False
    then have "took w @ queued c = took w0 @ offered" using assms(3) by (simp add: stream_kept_def)
    then have eq: "took w @ queued c @ msg = took w0 @ offered @ msg" for msg by (metis append.assoc)
    from d False have "prefix (took w') (took w @ queued c @ message sys op w c)"
      "\<not> out_failed c' \<and> \<not> out_gone c' \<longrightarrow> took w' @ queued c' = took w @ queued c @ message sys op w c"
      by (simp_all add: delivers_def)
    then show ?thesis using d assms(3) unfolding eq by (auto simp: delivers_def stream_kept_def)
  qed
  with res show ?thesis by (rule that)
qed

lemma run_kept:
  assumes "stream_socket sys took"
  shows "list_all (op_ok m) ops \<Longrightarrow> stream_kept took m w0 c w offered \<Longrightarrow>
    \<exists>c' w' offered'. run_output sys ops w c offered = Some (c', w', offered') \<and> stream_kept took m w0 c' w' offered'"
proof (induction ops arbitrary: c w offered)
  case (Cons op ops)
  then obtain c1 w1 where "exec_output sys op w c = Some (c1, w1)" "stream_kept took m w0 c1 w1 (offered @ message sys op w c)"
    using exec_kept [OF assms, of m op] by (metis list.pred_inject(2))
  with Cons.IH Cons.prems(1) show ?case by simp
qed simp

lemma fresh_kept: "stream_kept took m w0 empty_output w0 []"
  by (simp add: stream_kept_def empty_output_def output_ok_def queued_def OUTBOUND_CAP_def)

section \<open>A socket that takes bytes\<close>

text \<open>A Unix socket that takes at least one byte of each call, and a poller that accepts every change.\<close>

definition socket_ready :: "('w, 'fd) system \<Rightarrow> bool" where
  "socket_ready sys \<longleftrightarrow> is_unix sys \<and> (\<forall>w n. 0 < n \<longrightarrow> 0 < front_len sys w n)
     \<and> (\<forall>w bs. bs \<noteq> [] \<longrightarrow> (\<exists>n. fst (sys_write sys w bs) = Inr n \<and> 0 < n))
     \<and> (\<forall>w bs fd. bs \<noteq> [] \<longrightarrow> (\<exists>n. fst (sys_sendmsg sys w bs fd) = Inr n \<and> 0 < n))"

definition poller_accepts :: "('w, 'fd) system \<Rightarrow> bool" where
  "poller_accepts sys \<longleftrightarrow> (\<forall>w b. fst (sys_watch sys w b) = Inr ())"






section \<open>A small socket\<close>

text \<open>A socket with room for a number of bytes, and one that takes a byte at a time.\<close>

definition roomy_socket :: "(nat stream \<times> nat, nat) system" where
  "roomy_socket = \<lparr>
     sys_write = (\<lambda>(t, room) bs. if bs \<noteq> [] \<and> room = 0 then (Inl \<lparr>err_kind = WouldBlockKind, raw_os_error = Some 11\<rparr>, (t, room))
       else (Inr (min room (length bs)), (t @ tagged (take room bs) None, room - length bs))),
     sys_sendmsg = (\<lambda>(t, room) bs fd. if bs \<noteq> [] \<and> room = 0 then (Inl \<lparr>err_kind = OtherKind 0, raw_os_error = Some 90\<rparr>, (t, room))
       else (Inr (min room (length bs)), (t @ tagged (take room bs) (Some fd), room - length bs))),
     sys_dup = (\<lambda>w fd. (Inr (fd + 100), w)), sys_watch = (\<lambda>w b. (Inr (), w)),
     front_len = (\<lambda>w n. n), is_unix = True, EMSGSIZE = 90\<rparr>"

definition slow_socket :: "(nat stream, nat) system" where
  "slow_socket = \<lparr>
     sys_write = (\<lambda>t bs. (Inr (min 1 (length bs)), t @ tagged (take 1 bs) None)),
     sys_sendmsg = (\<lambda>t bs fd. (Inr (min 1 (length bs)), t @ tagged (take 1 bs) (Some fd))),
     sys_dup = (\<lambda>w fd. (Inr (fd + 100), w)), sys_watch = (\<lambda>w b. (Inr (), w)),
     front_len = (\<lambda>w n. n), is_unix = True, EMSGSIZE = 90\<rparr>"

lemma sample_sockets:
  "stream_socket roomy_socket fst" "stream_socket slow_socket id" "socket_ready slow_socket" "poller_accepts slow_socket"
  by (auto simp: roomy_socket_def slow_socket_def stream_socket_def socket_ready_def poller_accepts_def min_def split: prod.split)

definition sample_ops :: "nat output_op list" where
  "sample_ops = [Write [1, 2, 3], WriteFd [4, 5] 7, Write [6], Drain]"

lemmas output_eval = run_output.simps exec_output.simps write_or_buffer_def write_or_buffer_inner_def direct_write_def
  write_with_fd_def write_with_fd_inner_def drain_outbound_def drain_outbound_inner.simps drain_turn_def write_chunk_def
  next_chunk_def next_at_def send_with_fd_def sent_def buffer_or_disconnect_def note_failure_def message_def
  empty_output_def OUTBOUND_CAP_def disconnect_kind_def

lemma roomy_run:
  "run_output roomy_socket sample_ops ([], 2) empty_output []
   = Some (\<lparr>outbound = [3, 4, 5, 6], outbound_fds = [\<lparr>qf_at = 1, qf_len = 2, qf_fd = 107\<rparr>],
            watching_writable = False, out_failed = False, out_gone = False\<rparr>,
           (tagged [1, 2] None, 0), tagged [1, 2, 3] None @ tagged [4, 5] (Some 107) @ tagged [6] None)"
  by (simp add: output_eval roomy_socket_def sample_ops_def Let_def)


section \<open>The properties\<close>

text \<open>
  C31. Whatever the server does with a client's output, in any order and with any socket that takes
  bytes in order: no operation panics; what the client gets is a prefix of what was written, each
  descriptor with the first byte of its reply, none lost, doubled or out of order; and while no
  write has failed and the client is not leaving, what the socket took and what is queued are
  together exactly what was written. Replies that carry a descriptor are assumed not to be empty.
\<close>

theorem output_stream_whole:
  assumes "stream_socket sys took" and "list_all (op_ok m) ops"
  shows "\<exists>c w offered. run_output sys ops w0 empty_output [] = Some (c, w, offered)
     \<and> prefix (took w) (took w0 @ offered)
     \<and> (\<not> out_failed c \<and> \<not> out_gone c \<longrightarrow> took w @ queued c = took w0 @ offered)"
  using run_kept [OF assms fresh_kept, of w0] by (auto simp: stream_kept_def)

lemma output_stream_whole_witness:
  "prefix (tagged [1, 2] None) (tagged [1, 2, 3] None @ tagged [4, 5] (Some 107) @ tagged [6] None)
   \<and> tagged [1, 2] None @ queued \<lparr>outbound = [3, 4, 5, 6], outbound_fds = [\<lparr>qf_at = 1, qf_len = 2, qf_fd = 107 :: nat\<rparr>],
        watching_writable = False, out_failed = False, out_gone = False\<rparr>
     = tagged [1, 2, 3] None @ tagged [4, 5] (Some 107) @ tagged [6] None"
  using output_stream_whole [where m = 3, OF sample_sockets(1), of sample_ops "([], 2)"] roomy_run
  by (simp add: sample_ops_def)

text \<open>
  C32. A client's queue never holds more than the cap or its longest message, whichever is more, and
  every descriptor the server keeps for it belongs to a byte that is still queued: an empty queue
  keeps no descriptor open.
\<close>

theorem outbound_bounded:
  assumes "stream_socket sys took" and "list_all (op_ok m) ops"
    and "run_output sys ops w0 empty_output [] = Some (c, w, offered)"
  shows "length (outbound c) \<le> max OUTBOUND_CAP m \<and> (\<forall>q \<in> set (outbound_fds c). qf_at q < length (outbound c))"
  using run_kept [OF assms(1,2) fresh_kept, of w0] assms(3)
  by (auto simp: stream_kept_def output_ok_def dest: fds_ok_upper)

lemma outbound_bounded_witness: "length [3, 4, 5, 6 :: u8] \<le> max OUTBOUND_CAP 3 \<and> (1 :: nat) < length [3, 4, 5, 6 :: u8]"
  using outbound_bounded [where m = 3, OF sample_sockets(1) _ roomy_run] by (simp add: sample_ops_def)



section \<open>Where the comments and the code differ\<close>

text \<open>The first message of an empty queue is queued whatever its size.\<close>

lemma first_message_uncapped:
  "buffer_or_disconnect (empty_output :: nat client_output) (replicate (OUTBOUND_CAP + 1) 0)
   = (WouldBlock, empty_output\<lparr>outbound := replicate (OUTBOUND_CAP + 1) 0\<rparr>)"
  by (simp add: buffer_or_disconnect_def empty_output_def)

text \<open>A reply with a descriptor is queued behind output the socket does not take.\<close>

lemma descriptor_reply_queued:
  "map_option (\<lambda>(r, c, w). (r, outbound c, map qf_fd (outbound_fds c)))
     (send_reply_with_fd roomy_socket ([], 0) True (empty_output\<lparr>outbound := [1]\<rparr>) [4, 5] 7)
   = Some (Inr (), [1, 4, 5], [107])"
  by (simp add: send_reply_with_fd_def output_eval roomy_socket_def Let_def)

end
