(* ===== verification/Crossings.thy ===== *)
theory Crossings
  imports Tree_Shape
begin

text \<open>
  The events of a pointer that changes windows and of a focus that changes (\<open>crossings.rs\<close>):
  EnterNotify and LeaveNotify along the path between two windows, the core FocusOut and FocusIn
  sequence and its XInput 2 counterpart. All are pure functions of the window table. The source's
  \<open>ev\<close> vector, which closures append to, is the list each part returns.
\<close>

section \<open>Events\<close>

definition NOTIFY_ANCESTOR :: u8 where "NOTIFY_ANCESTOR = 0"
definition NOTIFY_VIRTUAL :: u8 where "NOTIFY_VIRTUAL = 1"
definition NOTIFY_INFERIOR :: u8 where "NOTIFY_INFERIOR = 2"
definition NOTIFY_NONLINEAR :: u8 where "NOTIFY_NONLINEAR = 3"
definition NOTIFY_NONLINEAR_VIRTUAL :: u8 where "NOTIFY_NONLINEAR_VIRTUAL = 4"
definition NOTIFY_POINTER :: u8 where "NOTIFY_POINTER = 5"
definition NOTIFY_POINTER_ROOT :: u8 where "NOTIFY_POINTER_ROOT = 6"
definition NOTIFY_DETAIL_NONE :: u8 where "NOTIFY_DETAIL_NONE = 7"

datatype crossing_kind = Enter | Leave

record crossing_event =
  ce_window :: u32
  ce_kind :: crossing_kind
  ce_detail :: u8
  ce_child :: u32

abbreviation crossing :: "u32 \<Rightarrow> crossing_kind \<Rightarrow> u8 \<Rightarrow> u32 \<Rightarrow> crossing_event" where
  "crossing w k d c \<equiv> \<lparr>ce_window = w, ce_kind = k, ce_detail = d, ce_child = c\<rparr>"

record focus_event =
  fe_window :: u32
  focus_in :: bool
  fe_detail :: u8

abbreviation focus_event_of :: "bool \<Rightarrow> u8 \<Rightarrow> u32 \<Rightarrow> focus_event" where
  "focus_event_of i d w \<equiv> \<lparr>fe_window = w, focus_in = i, fe_detail = d\<rparr>"

section \<open>Ancestors\<close>

text \<open>The loop of \<open>ancestor_chain\<close>: what it pushes after the window it starts with.\<close>

function chain_loop :: "window_map \<Rightarrow> u32 \<Rightarrow> nat \<Rightarrow> u32 list" where
  "chain_loop ws current hops =
     (if hops < 256 then
        (case ws current of
           None \<Rightarrow> []
         | Some w \<Rightarrow> if parent w = current then [] else parent w # chain_loop ws (parent w) (hops + 1))
      else [])"
  by pat_completeness auto
termination
  by (relation "measure (\<lambda>(ws, current, hops). 256 - hops)") auto

declare chain_loop.simps [simp del]

definition ancestor_chain :: "window_map \<Rightarrow> u32 \<Rightarrow> u32 list" where
  "ancestor_chain ws start = start # chain_loop ws start 0"

definition lowest_common_ancestor :: "u32 list \<Rightarrow> u32 list \<Rightarrow> u32 option" where
  "lowest_common_ancestor a b = find (\<lambda>w. w \<in> set a) b"

section \<open>Crossings\<close>

text \<open>
  \<open>for (i, w) in chain.iter().enumerate().skip(1)\<close> up to \<open>stop\<close>: each window with the entry
  before it.
\<close>

fun run_until :: "u32 option \<Rightarrow> u32 list \<Rightarrow> (u32 \<times> u32) list" where
  "run_until stop (below # w # rest) = (if Some w = stop then [] else (w, below) # run_until stop (w # rest))"
| "run_until stop _ = []"

definition compute_crossing_chain :: "window_map \<Rightarrow> u32 \<Rightarrow> u32 \<Rightarrow> crossing_event list" where
  "compute_crossing_chain ws from to =
     (if from = to then []
      else
        let from_chain = ancestor_chain ws from; to_chain = ancestor_chain ws to
        in if to \<in> set (drop 1 from_chain) then
             [crossing from Leave NOTIFY_ANCESTOR 0]
             @ map (\<lambda>(w, child). crossing w Leave NOTIFY_VIRTUAL child) (run_until (Some to) from_chain)
             @ [crossing to Enter NOTIFY_INFERIOR 0]
           else if from \<in> set (drop 1 to_chain) then
             [crossing from Leave NOTIFY_INFERIOR 0]
             @ map (\<lambda>(w, child). crossing w Enter NOTIFY_VIRTUAL child) (rev (run_until (Some from) to_chain))
             @ [crossing to Enter NOTIFY_ANCESTOR 0]
           else
             let common = lowest_common_ancestor from_chain to_chain
             in [crossing from Leave NOTIFY_NONLINEAR 0]
                @ map (\<lambda>(w, child). crossing w Leave NOTIFY_NONLINEAR_VIRTUAL child) (run_until common from_chain)
                @ map (\<lambda>(w, child). crossing w Enter NOTIFY_NONLINEAR_VIRTUAL child) (rev (run_until common to_chain))
                @ [crossing to Enter NOTIFY_NONLINEAR 0])"

definition implicit_grab_crossings :: "window_map \<Rightarrow> u32 \<Rightarrow> u32 \<Rightarrow> crossing_event list" where
  "implicit_grab_crossings ws focus grab = compute_crossing_chain ws focus grab"

definition normal_mode_crossings :: "window_map \<Rightarrow> u32 \<Rightarrow> u32 \<Rightarrow> crossing_event list" where
  "normal_mode_crossings ws from to = compute_crossing_chain ws from to"

section \<open>Core focus events\<close>

text \<open>\<open>is_anc\<close> and \<open>is_parent\<close>: the closures are the same.\<close>

definition is_anc :: "window_map \<Rightarrow> u32 \<Rightarrow> u32 \<Rightarrow> bool" where
  "is_anc ws a b \<longleftrightarrow> a \<noteq> b \<and> a \<in> set (drop 1 (ancestor_chain ws b))"

definition special :: "u32 \<Rightarrow> bool" where
  "special r \<longleftrightarrow> r = 0 \<or> r = 1"

text \<open>The loops of the two pointer runs, up to \<open>pwin\<close>, which is included when \<open>inclusive\<close>.\<close>

fun pointer_windows :: "u32 \<Rightarrow> bool \<Rightarrow> u32 list \<Rightarrow> u32 list" where
  "pointer_windows pwin inclusive [] = []"
| "pointer_windows pwin inclusive (w # rest) =
     (if \<not> inclusive \<and> w = pwin then []
      else w # (if inclusive \<and> w = pwin then [] else pointer_windows pwin inclusive rest))"

definition excluded :: "window_map \<Rightarrow> u32 \<Rightarrow> u32 option \<Rightarrow> bool" where
  "excluded ws p exclude \<longleftrightarrow> (case exclude of None \<Rightarrow> False | Some x \<Rightarrow> is_anc ws x p \<or> is_anc ws p x)"

definition out_pointer_run :: "window_map \<Rightarrow> u32 \<Rightarrow> u32 \<Rightarrow> u32 option \<Rightarrow> bool \<Rightarrow> focus_event list" where
  "out_pointer_run ws p pwin_parent exclude inclusive =
     (if \<not> (is_anc ws pwin_parent p \<or> (pwin_parent = p \<and> inclusive)) then []
      else if excluded ws p exclude then []
      else map (focus_event_of False NOTIFY_POINTER) (pointer_windows pwin_parent inclusive (ancestor_chain ws p)))"

definition in_pointer_run :: "window_map \<Rightarrow> u32 \<Rightarrow> u32 \<Rightarrow> u32 option \<Rightarrow> bool \<Rightarrow> focus_event list" where
  "in_pointer_run ws p pwin_parent exclude inclusive =
     (if exclude = Some p \<or> (pwin_parent \<noteq> p \<and> \<not> is_anc ws pwin_parent p) then []
      else if excluded ws p exclude then []
      else map (focus_event_of True NOTIFY_POINTER) (rev (pointer_windows pwin_parent inclusive (ancestor_chain ws p))))"

definition root_detail :: "u32 \<Rightarrow> u8" where
  "root_detail r = (if r = 1 then NOTIFY_POINTER_ROOT else NOTIFY_DETAIL_NONE)"

text \<open>The ancestors of \<open>w\<close> below \<open>stop\<close>, \<open>None\<close> for all of them.\<close>

definition between :: "window_map \<Rightarrow> u32 \<Rightarrow> u32 option \<Rightarrow> u32 list" where
  "between ws w stop = takeWhile (\<lambda>v. Some v \<noteq> stop) (drop 1 (ancestor_chain ws w))"

definition focus_transition_events :: "window_map \<Rightarrow> u32 \<Rightarrow> u32 \<Rightarrow> u32 \<Rightarrow> focus_event list" where
  "focus_transition_events ws a b p =
     (if a = b then []
      else if special a \<and> special b then
        (if a = 1 \<and> b \<noteq> 1 then out_pointer_run ws p ROOT_WINDOW None True else [])
        @ [focus_event_of False (root_detail a) ROOT_WINDOW, focus_event_of True (root_detail b) ROOT_WINDOW]
        @ (if b = 1 then in_pointer_run ws p ROOT_WINDOW None True else [])
      else if special b then
        out_pointer_run ws p a None False
        @ [focus_event_of False NOTIFY_NONLINEAR a]
        @ map (focus_event_of False NOTIFY_NONLINEAR_VIRTUAL) (drop 1 (ancestor_chain ws a))
        @ [focus_event_of True (root_detail b) ROOT_WINDOW]
        @ (if b = 1 then in_pointer_run ws p ROOT_WINDOW None True else [])
      else if special a then
        (if a = 1 then out_pointer_run ws p ROOT_WINDOW None True else [])
        @ [focus_event_of False (root_detail a) ROOT_WINDOW]
        @ (if b \<noteq> ROOT_WINDOW then
             focus_event_of True NOTIFY_NONLINEAR_VIRTUAL ROOT_WINDOW
             # map (focus_event_of True NOTIFY_NONLINEAR_VIRTUAL) (rev (between ws b (Some ROOT_WINDOW)))
           else [])
        @ [focus_event_of True NOTIFY_NONLINEAR b]
        @ in_pointer_run ws p b None False
      else if is_anc ws b a then
        [focus_event_of False NOTIFY_ANCESTOR a]
        @ map (focus_event_of False NOTIFY_VIRTUAL) (between ws a (Some b))
        @ [focus_event_of True NOTIFY_INFERIOR b]
        @ in_pointer_run ws p b (Some a) False
      else if is_anc ws a b then
        out_pointer_run ws p a (Some b) False
        @ [focus_event_of False NOTIFY_INFERIOR a]
        @ map (focus_event_of True NOTIFY_VIRTUAL) (rev (between ws b (Some a)))
        @ [focus_event_of True NOTIFY_ANCESTOR b]
      else
        let common = lowest_common_ancestor (ancestor_chain ws a) (ancestor_chain ws b)
        in out_pointer_run ws p a None False
           @ [focus_event_of False NOTIFY_NONLINEAR a]
           @ map (focus_event_of False NOTIFY_NONLINEAR_VIRTUAL) (between ws a common)
           @ map (focus_event_of True NOTIFY_NONLINEAR_VIRTUAL) (rev (between ws b common))
           @ [focus_event_of True NOTIFY_NONLINEAR b]
           @ in_pointer_run ws p b None False)"

section \<open>XInput 2 focus events\<close>

definition out_run :: "window_map \<Rightarrow> u32 \<Rightarrow> u32 option \<Rightarrow> u8 \<Rightarrow> focus_event list" where
  "out_run ws child ancestor detail =
     (if ancestor = Some child then [] else map (focus_event_of False detail) (between ws child ancestor))"

definition in_run :: "window_map \<Rightarrow> u32 \<Rightarrow> u32 \<Rightarrow> u8 \<Rightarrow> focus_event list" where
  "in_run ws ancestor child detail = map (focus_event_of True detail) (rev (between ws child (Some ancestor)))"

definition device_out_detail :: "u32 \<Rightarrow> u8" where
  "device_out_detail r = (if r = 0 then NOTIFY_DETAIL_NONE else NOTIFY_POINTER_ROOT)"

text \<open>The test of both linear cases on the pointer's window: \<open>upper\<close> above it, and unrelated to the other end.\<close>

definition pointer_aside :: "window_map \<Rightarrow> u32 \<Rightarrow> u32 \<Rightarrow> u32 \<Rightarrow> u32 \<Rightarrow> bool" where
  "pointer_aside ws upper from other p \<longleftrightarrow> is_anc ws upper p \<and> p \<noteq> from \<and> \<not> is_anc ws other p \<and> \<not> is_anc ws p other"

definition device_focus_transition_events :: "window_map \<Rightarrow> u32 \<Rightarrow> u32 \<Rightarrow> u32 \<Rightarrow> focus_event list" where
  "device_focus_transition_events ws from to p =
     (let root = ROOT_WINDOW; push = (\<lambda>w i d. [focus_event_of i d w])
      in if from = to then []
         else if special to then
           (if special from then
              (if from = 1 then push p False NOTIFY_POINTER @ out_run ws p (Some root) NOTIFY_POINTER else [])
              @ push root False (device_out_detail from)
            else
              (if is_anc ws from p then push p False NOTIFY_POINTER @ out_run ws p (Some from) NOTIFY_POINTER else [])
              @ push from False NOTIFY_NONLINEAR
              @ out_run ws from None NOTIFY_NONLINEAR_VIRTUAL)
           @ push root True (device_out_detail to)
           @ (if to = 1 then in_run ws root p NOTIFY_POINTER @ push p True NOTIFY_POINTER else [])
         else if special from then
           (if from = 1 then push p False NOTIFY_POINTER @ out_run ws p (Some root) NOTIFY_POINTER else [])
           @ push root False (device_out_detail from)
           @ (if to \<noteq> root then in_run ws root to NOTIFY_NONLINEAR_VIRTUAL else [])
           @ push to True NOTIFY_NONLINEAR
           @ (if is_anc ws to p then in_run ws to p NOTIFY_POINTER else [])
         else if is_anc ws to from then
           push from False NOTIFY_ANCESTOR
           @ out_run ws from (Some to) NOTIFY_VIRTUAL
           @ push to True NOTIFY_INFERIOR
           @ (if pointer_aside ws to from from p then in_run ws to p NOTIFY_POINTER else [])
         else if is_anc ws from to then
           (if pointer_aside ws from from to p then push p False NOTIFY_POINTER @ out_run ws p (Some from) NOTIFY_POINTER else [])
           @ push from False NOTIFY_INFERIOR
           @ in_run ws from to NOTIFY_VIRTUAL
           @ push to True NOTIFY_ANCESTOR
         else
           let common = lowest_common_ancestor (ancestor_chain ws from) (ancestor_chain ws to)
           in (if is_anc ws from p then out_run ws p (Some from) NOTIFY_POINTER else [])
              @ push from False NOTIFY_NONLINEAR
              @ (if from \<noteq> root then out_run ws from common NOTIFY_NONLINEAR_VIRTUAL else [])
              @ (if to \<noteq> root then (case common of None \<Rightarrow> [] | Some c \<Rightarrow> in_run ws c to NOTIFY_NONLINEAR_VIRTUAL) else [])
              @ push to True NOTIFY_NONLINEAR
              @ (if is_anc ws to p then in_run ws to p NOTIFY_POINTER else []))"

end
