(* ===== verification/Crossing_Paths.thy ===== *)
theory Crossing_Paths
  imports Crossings
begin

text \<open>
  The parent chain of a window of a tree: it holds the window and its ancestors, innermost first,
  each one a child of the next. What the crossings cut out of it, up to an ancestor or up to the
  lowest common ancestor, is a set of windows that the tree alone determines.
\<close>

text \<open>\<open>w\<close> is an inferior of \<open>a\<close>.\<close>

abbreviation inferior :: "window_map \<Rightarrow> u32 \<Rightarrow> u32 \<Rightarrow> bool" where
  "inferior ws w a \<equiv> (w, a) \<in> (child_rel (shape ws))\<^sup>+"

abbreviation within :: "window_map \<Rightarrow> u32 \<Rightarrow> u32 \<Rightarrow> bool" where
  "within ws w a \<equiv> w = a \<or> inferior ws w a"

text \<open>A window of a tree that is at most as deep as \<open>ancestor_chain\<close> walks.\<close>

definition walkable :: "window_map \<Rightarrow> u32 \<Rightarrow> bool" where
  "walkable ws w \<longleftrightarrow> tree_shape (shape ws) \<and> (\<exists>n \<le> 256. at_depth (shape ws) n w)"

lemma walkable_tree: "walkable ws w \<Longrightarrow> tree_shape (shape ws)"
  by (simp add: walkable_def)

lemma inferior_irrefl: "tree_shape (shape ws) \<Longrightarrow> \<not> inferior ws w w"
  using tree_acyclic by (auto simp: acyclic_def)

lemma inferior_trans: "inferior ws a b \<Longrightarrow> inferior ws b c \<Longrightarrow> inferior ws a c"
  by (rule trancl_trans)

lemma inferior_antisym: "tree_shape (shape ws) \<Longrightarrow> inferior ws a b \<Longrightarrow> \<not> inferior ws b a"
  using inferior_irrefl inferior_trans by blast

lemma chain_loop_path:
  assumes t: "tree_shape (shape ws)"
  shows "at_depth (shape ws) n k \<Longrightarrow> hops + n \<le> 256 \<Longrightarrow>
    set (chain_loop ws k hops) = {a. inferior ws k a}
    \<and> sorted_wrt (inferior ws) (k # chain_loop ws k hops)
    \<and> successively (\<lambda>x y. (x, y) \<in> child_rel (shape ws)) (k # chain_loop ws k hops)"
proof (induction n arbitrary: k hops)
  case 0
  then have k: "k = ROOT_WINDOW" by simp
  obtain w where "ws ROOT_WINDOW = Some w" "parent w = ROOT_WINDOW" using tree_root [OF t] by (auto simp: shape_eq)
  then have "chain_loop ws k hops = []" using k by (subst chain_loop.simps) simp
  then show ?case using k root_above [OF t] by simp
next
  case (Suc n)
  then obtain p cs where p: "shape ws k = Some (p, cs)" "at_depth (shape ws) n p" "k \<noteq> ROOT_WINDOW"
    by (auto split: option.splits)
  obtain w where w: "ws k = Some w" "parent w = p" using p(1) by (auto simp: shape_eq)
  have kp: "(k, p) \<in> child_rel (shape ws)" by (rule tree_parent_rel [OF t p(1,3)])
  have "p \<noteq> k" using p(2) Suc.prems(1) at_depth_unique by (metis n_not_Suc_n)
  then have chain: "chain_loop ws k hops = p # chain_loop ws p (hops + 1)"
    using w Suc.prems(2) by (subst chain_loop.simps) simp
  have "hops + 1 + n \<le> 256" using Suc.prems(2) by simp
  note IH = Suc.IH [OF p(2) this]
  note set = IH [THEN conjunct1] and sorted = IH [THEN conjunct2, THEN conjunct1] and linked = IH [THEN conjunct2, THEN conjunct2]
  have all: "set (chain_loop ws k hops) = {a. inferior ws k a}"
    unfolding chain list.set set by (auto simp: above_step [OF t p(1,3)])
  moreover have "sorted_wrt (inferior ws) (k # chain_loop ws k hops)"
  proof -
    have "sorted_wrt (inferior ws) (chain_loop ws k hops)" using sorted unfolding chain .
    moreover have "\<forall>a \<in> set (chain_loop ws k hops). inferior ws k a" by (simp add: all)
    ultimately show ?thesis by simp
  qed
  moreover have "successively (\<lambda>x y. (x, y) \<in> child_rel (shape ws)) (k # chain_loop ws k hops)"
    using linked kp unfolding chain by simp
  ultimately show ?case by blast
qed

lemma chain_eq: "ancestor_chain ws w = w # drop 1 (ancestor_chain ws w)"
  by (simp add: ancestor_chain_def)

lemma drop_chain [simp]: "drop (Suc 0) (ancestor_chain ws w) = chain_loop ws w 0"
  by (simp add: ancestor_chain_def)

lemma chain_facts:
  assumes "walkable ws w"
  shows chain_above: "set (drop 1 (ancestor_chain ws w)) = {a. inferior ws w a}"
    and chain_loop_above: "set (chain_loop ws w 0) = {a. inferior ws w a}"
    and chain_sorted: "sorted_wrt (inferior ws) (ancestor_chain ws w)"
    and chain_linked: "successively (\<lambda>x y. (x, y) \<in> child_rel (shape ws)) (ancestor_chain ws w)"
proof -
  obtain n where n: "tree_shape (shape ws)" "n \<le> 256" "at_depth (shape ws) n w" using assms by (auto simp: walkable_def)
  then have "0 + n \<le> 256" by simp
  note path = chain_loop_path [OF n(1,3) this]
  show above: "set (chain_loop ws w 0) = {a. inferior ws w a}" by (rule path [THEN conjunct1])
  then show "set (drop 1 (ancestor_chain ws w)) = {a. inferior ws w a}" unfolding One_nat_def drop_chain .
  show "sorted_wrt (inferior ws) (ancestor_chain ws w)"
    unfolding ancestor_chain_def by (rule path [THEN conjunct2, THEN conjunct1])
  show "successively (\<lambda>x y. (x, y) \<in> child_rel (shape ws)) (ancestor_chain ws w)"
    unfolding ancestor_chain_def by (rule path [THEN conjunct2, THEN conjunct2])
qed

lemma chain_set: "walkable ws w \<Longrightarrow> set (ancestor_chain ws w) = {a. within ws w a}"
  using chain_loop_above [of ws w] by (auto simp: ancestor_chain_def)

lemma is_anc_iff: "walkable ws b \<Longrightarrow> is_anc ws a b \<longleftrightarrow> inferior ws b a"
  using chain_above [of ws b] inferior_irrefl walkable_tree by (auto simp: is_anc_def)

lemma chain_linear: "walkable ws w \<Longrightarrow> inferior ws w a \<Longrightarrow> inferior ws w b \<Longrightarrow> a = b \<or> inferior ws a b \<or> inferior ws b a"
proof -
  assume w: "walkable ws w" and ab: "inferior ws w a" "inferior ws w b"
  let ?c = "ancestor_chain ws w"
  have "a \<in> set ?c" "b \<in> set ?c" using ab chain_set [OF w] by auto
  then obtain i j where ij: "i < length ?c" "?c ! i = a" "j < length ?c" "?c ! j = b"
    by (auto simp: in_set_conv_nth)
  note sorted = sorted_wrt_nth_less [OF chain_sorted [OF w]]
  consider "i = j" | "i < j" | "j < i" by linarith
  then show ?thesis
  proof cases
    case 1
    with ij have "a = b" by metis
    then show ?thesis ..
  next
    case 2
    from sorted [OF 2 ij(3)] have "inferior ws a b" unfolding ij .
    then show ?thesis by blast
  next
    case 3
    from sorted [OF 3 ij(1)] have "inferior ws b a" unfolding ij .
    then show ?thesis by blast
  qed
qed

section \<open>What is cut out of a chain\<close>

lemma takeWhile_before:
  assumes "sorted_wrt R xs" "x \<in> set xs" "\<And>a. \<not> R a a" "\<And>a b. R a b \<Longrightarrow> \<not> R b a"
  shows "set (takeWhile (\<lambda>v. v \<noteq> x) xs) = {v \<in> set xs. R v x}"
  using assms(1,2)
proof (induction xs)
  case (Cons y ys)
  show ?case
  proof (cases "y = x")
    case True
    then have "\<forall>v \<in> set (y # ys). \<not> R v x" using Cons.prems(1) assms(3,4) by auto
    then show ?thesis using True by auto
  next
    case False
    then show ?thesis using Cons by auto
  qed
qed simp

lemma between_set:
  assumes w: "walkable ws w" and x: "inferior ws w x"
  shows "set (between ws w (Some x)) = {v. inferior ws w v \<and> inferior ws v x}"
proof -
  have t: "tree_shape (shape ws)" by (rule walkable_tree [OF w])
  have "sorted_wrt (inferior ws) (chain_loop ws w 0)" using chain_sorted [OF w] by (simp add: ancestor_chain_def)
  from takeWhile_before [OF this, of x] show ?thesis
    using x chain_loop_above [OF w] inferior_irrefl [OF t] inferior_antisym [OF t] by (auto simp: between_def)
qed

lemma between_all: "walkable ws w \<Longrightarrow> set (between ws w None) = {v. inferior ws w v}"
  using chain_loop_above by (simp add: between_def takeWhile_eq_all_conv [THEN iffD2])

lemma between_self:
  assumes "walkable ws w"
  shows "between ws w (Some w) = drop 1 (ancestor_chain ws w)"
  unfolding between_def using chain_above [OF assms] inferior_irrefl [OF walkable_tree [OF assms]]
  by (subst takeWhile_eq_all_conv) blast

lemma sorted_wrt_takeWhile: "sorted_wrt R xs \<Longrightarrow> sorted_wrt R (takeWhile P xs)"
  by (induction xs) (auto dest: set_takeWhileD)

lemma between_sorted:
  assumes "walkable ws w"
  shows "sorted_wrt (inferior ws) (w # between ws w stop)"
proof -
  have "sorted_wrt (inferior ws) (w # drop 1 (ancestor_chain ws w))" using chain_sorted [OF assms] chain_eq by metis
  then show ?thesis by (auto simp: between_def sorted_wrt_takeWhile dest: set_takeWhileD)
qed

lemma run_until_windows: "map fst (run_until stop (w # rest)) = takeWhile (\<lambda>v. Some v \<noteq> stop) rest"
  by (induction rest arbitrary: w) auto

lemma run_until_between: "map fst (run_until stop (ancestor_chain ws w)) = between ws w stop"
  by (subst chain_eq) (simp add: run_until_windows between_def)

lemma run_until_linked:
  "successively R xs \<Longrightarrow> (w, child) \<in> set (run_until stop xs) \<Longrightarrow> R child w \<and> child \<in> set xs"
  by (induction stop xs rule: run_until.induct) (auto split: if_splits)

lemma run_until_child:
  assumes "walkable ws w" "(v, child) \<in> set (run_until stop (ancestor_chain ws w))"
  shows "(child, v) \<in> child_rel (shape ws) \<and> within ws w child"
  using run_until_linked [OF chain_linked [OF assms(1)] assms(2)] chain_set [OF assms(1)] by auto

lemma depth_within_root: "tree_shape (shape ws) \<Longrightarrow> at_depth (shape ws) n w \<Longrightarrow> within ws w ROOT_WINDOW"
proof (induction n arbitrary: w)
  case (Suc n)
  then obtain p cs where p: "shape ws w = Some (p, cs)" "at_depth (shape ws) n p" "w \<noteq> ROOT_WINDOW"
    by (auto split: option.splits)
  then show ?case using Suc.IH [OF Suc.prems(1) p(2)] above_step [OF Suc.prems(1) p(1,3), of ROOT_WINDOW] by auto
qed simp

lemma within_root: "walkable ws w \<Longrightarrow> within ws w ROOT_WINDOW"
  unfolding walkable_def using depth_within_root by blast

section \<open>The lowest common ancestor\<close>

lemma find_first: "find P xs = Some x \<Longrightarrow> sorted_wrt R xs \<Longrightarrow> y \<in> set xs \<Longrightarrow> P y \<Longrightarrow> y = x \<or> R x y"
  by (induction xs) (auto split: if_splits)

lemma lca_correct:
  assumes a: "walkable ws a" and b: "walkable ws b"
  obtains c where "lowest_common_ancestor (ancestor_chain ws a) (ancestor_chain ws b) = Some c"
    "within ws a c" "within ws b c" "\<And>v. within ws a v \<Longrightarrow> within ws b v \<Longrightarrow> within ws c v"
proof -
  let ?l = "lowest_common_ancestor (ancestor_chain ws a) (ancestor_chain ws b)"
  have "?l \<noteq> None"
    using within_root [OF a] within_root [OF b] by (auto simp: lowest_common_ancestor_def find_None_iff chain_set [OF a] chain_set [OF b])
  then obtain c where c: "?l = Some c" by blast
  then have "c \<in> set (ancestor_chain ws b)" "c \<in> set (ancestor_chain ws a)"
    by (auto simp: lowest_common_ancestor_def find_Some_iff)
  then have "within ws a c" "within ws b c" using chain_set [OF a] chain_set [OF b] by auto
  moreover have "within ws c v" if "within ws a v" "within ws b v" for v
    using find_first [OF c [unfolded lowest_common_ancestor_def] chain_sorted [OF b], of v]
      that chain_set [OF a] chain_set [OF b] by auto
  ultimately show ?thesis using c that by blast
qed

lemma between_common:
  assumes a: "walkable ws a" and c: "inferior ws a c" "within ws b c"
    and low: "\<And>v. within ws a v \<Longrightarrow> within ws b v \<Longrightarrow> within ws c v"
  shows "set (between ws a (Some c)) = {v. inferior ws a v \<and> \<not> within ws b v}"
proof -
  have t: "tree_shape (shape ws)" by (rule walkable_tree [OF a])
  have "inferior ws v c \<longleftrightarrow> \<not> within ws b v" if "inferior ws a v" for v
    using that low [of v] c chain_linear [OF a that c(1)] inferior_antisym [OF t] inferior_irrefl [OF t] inferior_trans
    by metis
  then show ?thesis using between_set [OF a c(1)] by auto
qed

end
