(* ===== verification/Crossing_Props.thy ===== *)
theory Crossing_Props
  imports Crossing_Paths Tree_Props
begin

text \<open>
  What the crossing and focus sequences are, stated with the window tree alone: which windows get
  an event, in which order, with which detail and child.
\<close>

section \<open>One side of a crossing\<close>

definition linear :: "window_map \<Rightarrow> u32 \<Rightarrow> u32 \<Rightarrow> bool" where
  "linear ws a b \<longleftrightarrow> inferior ws a b \<or> inferior ws b a"

text \<open>The protocol's detail on the side of \<open>a\<close>, towards \<open>b\<close>, for \<open>a\<close> itself and the windows passed through.\<close>

definition side_detail :: "window_map \<Rightarrow> u32 \<Rightarrow> u32 \<Rightarrow> u32 \<Rightarrow> u8" where
  "side_detail ws a b w =
     (if w = a then (if inferior ws a b then NOTIFY_ANCESTOR else if inferior ws b a then NOTIFY_INFERIOR else NOTIFY_NONLINEAR)
      else if linear ws a b then NOTIFY_VIRTUAL else NOTIFY_NONLINEAR_VIRTUAL)"

text \<open>
  The events on the side of \<open>a\<close>, from \<open>a\<close> upwards: exactly \<open>a\<close> and its ancestors that do not
  contain \<open>b\<close>, innermost first; a window passed through names its child towards \<open>a\<close>.
\<close>

definition side_correct :: "window_map \<Rightarrow> u32 \<Rightarrow> u32 \<Rightarrow> crossing_event list \<Rightarrow> bool" where
  "side_correct ws a b evs \<longleftrightarrow>
     set (map ce_window evs) = {w. w = a \<or> inferior ws a w \<and> \<not> within ws b w}
     \<and> sorted_wrt (inferior ws) (map ce_window evs)
     \<and> (\<forall>e \<in> set evs. ce_detail e = side_detail ws a b (ce_window e)
          \<and> (if ce_window e = a then ce_child e = 0
             else (ce_child e, ce_window e) \<in> child_rel (shape ws) \<and> within ws a (ce_child e)))"

definition crossing_spec :: "window_map \<Rightarrow> u32 \<Rightarrow> u32 \<Rightarrow> crossing_event list \<Rightarrow> bool" where
  "crossing_spec ws from to ev \<longleftrightarrow>
     (\<exists>leaves enters. ev = leaves @ enters
        \<and> (\<forall>e \<in> set leaves. ce_kind e = Leave) \<and> (\<forall>e \<in> set enters. ce_kind e = Enter)
        \<and> side_correct ws from to leaves \<and> side_correct ws to from (rev enters))"

lemma linear_sym: "linear ws a b \<longleftrightarrow> linear ws b a"
  by (auto simp: linear_def)

lemma side_run:
  assumes a: "walkable ws a" and set: "set (between ws a stop) = {w. inferior ws a w \<and> \<not> within ws b w}"
    and d0: "d0 = side_detail ws a b a" and d: "d = (if linear ws a b then NOTIFY_VIRTUAL else NOTIFY_NONLINEAR_VIRTUAL)"
  shows "side_correct ws a b (crossing a k d0 0 # map (\<lambda>(w, c). crossing w k d c) (run_until stop (ancestor_chain ws a)))"
proof -
  let ?run = "run_until stop (ancestor_chain ws a)"
  have windows: "map ce_window (map (\<lambda>(w, c). crossing w k d c) ?run) = between ws a stop"
    unfolding run_until_between [symmetric] by (simp add: case_prod_beta)
  have other: "w \<noteq> a \<and> (c, w) \<in> child_rel (shape ws) \<and> within ws a c" if "(w, c) \<in> set ?run" for w c
  proof -
    have "w \<in> set (between ws a stop)" using that unfolding run_until_between [symmetric] by force
    then have "inferior ws a w" unfolding set by blast
    then have "w \<noteq> a" using inferior_irrefl [OF walkable_tree [OF a]] by blast
    then show ?thesis using run_until_child [OF a that] by blast
  qed
  let ?evs = "crossing a k d0 0 # map (\<lambda>(w, c). crossing w k d c) ?run"
  have all: "map ce_window ?evs = a # between ws a stop" unfolding list.map windows by simp
  have "ce_detail e = side_detail ws a b (ce_window e)
      \<and> (if ce_window e = a then ce_child e = 0
         else (ce_child e, ce_window e) \<in> child_rel (shape ws) \<and> within ws a (ce_child e))" if e: "e \<in> set ?evs" for e
  proof (cases "e = crossing a k d0 0")
    case False
    with e obtain w c where "e = crossing w k d c" "(w, c) \<in> set ?run" by auto
    with other show ?thesis unfolding side_detail_def d by fastforce
  qed (simp add: d0)
  moreover have "set (map ce_window ?evs) = {w. w = a \<or> inferior ws a w \<and> \<not> within ws b w}"
    unfolding all list.set set by blast
  moreover have "sorted_wrt (inferior ws) (map ce_window ?evs)"
    unfolding all by (rule between_sorted [OF a])
  ultimately show ?thesis unfolding side_correct_def by blast
qed

lemma side_alone:
  assumes a: "walkable ws a" and b: "inferior ws b a" and d0: "d0 = side_detail ws a b a"
  shows "side_correct ws a b [crossing a k d0 0]"
proof -
  have "{w. w = a \<or> inferior ws a w \<and> \<not> within ws b w} = {a}"
    using inferior_trans [OF b] by blast
  then show ?thesis by (simp add: side_correct_def d0)
qed

lemma between_upper:
  assumes "walkable ws a" "inferior ws a b"
  shows "set (between ws a (Some b)) = {w. inferior ws a w \<and> \<not> within ws b w}"
  by (rule between_common [OF assms]) blast+

lemma compute_spec:
  assumes a: "walkable ws a" and b: "walkable ws b" and ne: "a \<noteq> b"
  shows "crossing_spec ws a b (compute_crossing_chain ws a b)"
proof -
  have t: "tree_shape (shape ws)" by (rule walkable_tree [OF a])
  have anc: "b \<in> set (drop 1 (ancestor_chain ws a)) \<longleftrightarrow> inferior ws a b" "a \<in> set (drop 1 (ancestor_chain ws b)) \<longleftrightarrow> inferior ws b a"
    unfolding chain_above [OF a] chain_above [OF b] by simp_all
  note unfold = compute_crossing_chain_def Let_def anc
  have intro: "crossing_spec ws a b (l @ e)"
    if "\<forall>x \<in> set l. ce_kind x = Leave" "\<forall>x \<in> set e. ce_kind x = Enter" "side_correct ws a b l" "side_correct ws b a (rev e)" for l e
    using that by (auto simp: crossing_spec_def)
  consider (up) "inferior ws a b" | (down) "\<not> inferior ws a b" "inferior ws b a" | (apart) "\<not> inferior ws a b" "\<not> inferior ws b a" by blast
  then show ?thesis
  proof cases
    case up
    then have no: "\<not> inferior ws b a" by (rule inferior_antisym [OF t])
    have l: "side_correct ws a b (crossing a Leave NOTIFY_ANCESTOR 0
        # map (\<lambda>(w, c). crossing w Leave NOTIFY_VIRTUAL c) (run_until (Some b) (ancestor_chain ws a)))"
      by (rule side_run [OF a between_upper [OF a up]]) (simp_all add: side_detail_def linear_def up)
    have e: "side_correct ws b a [crossing b Enter NOTIFY_INFERIOR 0]"
      by (rule side_alone [OF b up]) (simp add: side_detail_def up no)
    have "compute_crossing_chain ws a b = (crossing a Leave NOTIFY_ANCESTOR 0
        # map (\<lambda>(w, c). crossing w Leave NOTIFY_VIRTUAL c) (run_until (Some b) (ancestor_chain ws a)))
        @ [crossing b Enter NOTIFY_INFERIOR 0]"
      using ne up by (simp only: unfold if_True if_False append.simps)
    then show ?thesis by (simp only:) (rule intro [OF _ _ l], use e in auto)
  next
    case down
    have l: "side_correct ws a b [crossing a Leave NOTIFY_INFERIOR 0]"
      by (rule side_alone [OF a down(2)]) (simp add: side_detail_def down)
    have e: "side_correct ws b a (crossing b Enter NOTIFY_ANCESTOR 0
        # map (\<lambda>(w, c). crossing w Enter NOTIFY_VIRTUAL c) (run_until (Some a) (ancestor_chain ws b)))"
      by (rule side_run [OF b between_upper [OF b down(2)]]) (simp_all add: side_detail_def linear_def down)
    have "compute_crossing_chain ws a b = [crossing a Leave NOTIFY_INFERIOR 0]
        @ rev (crossing b Enter NOTIFY_ANCESTOR 0
        # map (\<lambda>(w, c). crossing w Enter NOTIFY_VIRTUAL c) (run_until (Some a) (ancestor_chain ws b)))"
      using ne down by (simp only: unfold if_True if_False rev.simps rev_map append_assoc)
    then show ?thesis by (simp only:) (rule intro [OF _ _ l], use e in auto)
  next
    case apart
    obtain c where c: "lowest_common_ancestor (ancestor_chain ws a) (ancestor_chain ws b) = Some c"
      "within ws a c" "within ws b c" "\<And>v. within ws a v \<Longrightarrow> within ws b v \<Longrightarrow> within ws c v"
      using lca_correct [OF a b] by blast
    have up: "inferior ws a c" "inferior ws b c" using c(2,3) apart ne by auto
    have l: "side_correct ws a b (crossing a Leave NOTIFY_NONLINEAR 0
        # map (\<lambda>(w, c). crossing w Leave NOTIFY_NONLINEAR_VIRTUAL c) (run_until (Some c) (ancestor_chain ws a)))"
      by (rule side_run [OF a between_common [OF a up(1) c(3,4)]]) (simp_all add: side_detail_def linear_def apart)
    have e: "side_correct ws b a (crossing b Enter NOTIFY_NONLINEAR 0
        # map (\<lambda>(w, c). crossing w Enter NOTIFY_NONLINEAR_VIRTUAL c) (run_until (Some c) (ancestor_chain ws b)))"
      by (rule side_run [OF b between_common [OF b up(2) c(2) c(4)]]) (simp_all add: side_detail_def linear_def apart)
    have "compute_crossing_chain ws a b = (crossing a Leave NOTIFY_NONLINEAR 0
        # map (\<lambda>(w, c). crossing w Leave NOTIFY_NONLINEAR_VIRTUAL c) (run_until (Some c) (ancestor_chain ws a)))
        @ rev (crossing b Enter NOTIFY_NONLINEAR 0
        # map (\<lambda>(w, c). crossing w Enter NOTIFY_NONLINEAR_VIRTUAL c) (run_until (Some c) (ancestor_chain ws b)))"
      using ne apart by (simp only: unfold if_True if_False rev.simps rev_map append_assoc append.simps c(1))
    then show ?thesis by (simp only:) (rule intro [OF _ _ l], use e in auto)
  qed
qed

section \<open>Focus sequences\<close>

definition as_focus :: "crossing_event \<Rightarrow> focus_event" where
  "as_focus e = focus_event_of (ce_kind e = Enter) (ce_detail e) (ce_window e)"

definition is_pointer :: "focus_event \<Rightarrow> bool" where
  "is_pointer e \<longleftrightarrow> fe_detail e = NOTIFY_POINTER"

lemmas notify_defs = NOTIFY_ANCESTOR_def NOTIFY_VIRTUAL_def NOTIFY_INFERIOR_def NOTIFY_NONLINEAR_def
  NOTIFY_NONLINEAR_VIRTUAL_def NOTIFY_POINTER_def NOTIFY_POINTER_ROOT_def NOTIFY_DETAIL_NONE_def

lemma is_pointer_simps [simp]:
  "is_pointer (focus_event_of i NOTIFY_POINTER w)" "\<not> is_pointer (focus_event_of i NOTIFY_ANCESTOR w)"
  "\<not> is_pointer (focus_event_of i NOTIFY_VIRTUAL w)" "\<not> is_pointer (focus_event_of i NOTIFY_INFERIOR w)"
  "\<not> is_pointer (focus_event_of i NOTIFY_NONLINEAR w)" "\<not> is_pointer (focus_event_of i NOTIFY_NONLINEAR_VIRTUAL w)"
  "\<not> is_pointer (focus_event_of i (root_detail r) w)" "\<not> is_pointer (focus_event_of i (device_out_detail r) w)"
  by (simp_all add: is_pointer_def root_detail_def device_out_detail_def notify_defs)

lemma pointer_filter [simp]:
  "(\<And>w. is_pointer (f w)) \<Longrightarrow> filter is_pointer (map f ws) = map f ws"
  "(\<And>w. \<not> is_pointer (f w)) \<Longrightarrow> filter is_pointer (map f ws) = []"
  "(\<And>w. is_pointer (f w)) \<Longrightarrow> filter (\<lambda>e. \<not> is_pointer e) (map f ws) = []"
  "(\<And>w. \<not> is_pointer (f w)) \<Longrightarrow> filter (\<lambda>e. \<not> is_pointer e) (map f ws) = map f ws"
  by (induction ws) simp_all

lemma pointer_runs_filter [simp]:
  "filter (\<lambda>e. \<not> is_pointer e) (out_pointer_run ws p w x i) = []"
  "filter (\<lambda>e. \<not> is_pointer e) (in_pointer_run ws p w x i) = []"
  "filter (\<lambda>e. \<not> is_pointer e) (out_run ws p f NOTIFY_POINTER) = []"
  "filter (\<lambda>e. \<not> is_pointer e) (in_run ws v p NOTIFY_POINTER) = []"
  by (simp_all add: out_pointer_run_def in_pointer_run_def out_run_def in_run_def)

lemma as_focus_simps [simp]:
  "as_focus (crossing w k d c) = focus_event_of (k = Enter) d w"
  by (simp add: as_focus_def)

lemma as_focus_run [simp]:
  "map as_focus (map (\<lambda>(w, c). crossing w k d c) (run_until stop (ancestor_chain ws a)))
     = map (focus_event_of (k = Enter) d) (between ws a stop)"
  "map as_focus (map (\<lambda>(w, c). crossing w k d c) (rev (run_until stop (ancestor_chain ws a))))
     = map (focus_event_of (k = Enter) d) (rev (between ws a stop))"
  unfolding run_until_between [symmetric] by (auto simp: rev_map)

lemma core_focus_crossings:
  assumes "a \<noteq> b" "\<not> special a" "\<not> special b"
  shows "filter (\<lambda>e. \<not> is_pointer e) (focus_transition_events ws a b p) = map as_focus (compute_crossing_chain ws a b)"
proof -
  have anc: "is_anc ws b a \<longleftrightarrow> b \<in> set (drop 1 (ancestor_chain ws a))" "is_anc ws a b \<longleftrightarrow> a \<in> set (drop 1 (ancestor_chain ws b))"
    using assms(1) by (auto simp: is_anc_def)
  show ?thesis
    using assms by (simp add: focus_transition_events_def compute_crossing_chain_def Let_def anc del: map_map)
qed

lemma device_focus_crossings:
  assumes "a \<noteq> b" "\<not> special a" "\<not> special b" and a: "walkable ws a" and b: "walkable ws b"
  shows "filter (\<lambda>e. \<not> is_pointer e) (device_focus_transition_events ws a b p) = map as_focus (compute_crossing_chain ws a b)"
proof -
  have anc: "is_anc ws b a \<longleftrightarrow> b \<in> set (drop 1 (ancestor_chain ws a))" "is_anc ws a b \<longleftrightarrow> a \<in> set (drop 1 (ancestor_chain ws b))"
    using assms(1) by (auto simp: is_anc_def)
  have root: "a \<noteq> ROOT_WINDOW \<and> b \<noteq> ROOT_WINDOW" if "\<not> is_anc ws b a" "\<not> is_anc ws a b"
    using that within_root [OF a] within_root [OF b] is_anc_iff [OF a] is_anc_iff [OF b] assms(1) by blast
  obtain c where c: "lowest_common_ancestor (ancestor_chain ws a) (ancestor_chain ws b) = Some c" "within ws a c" "within ws b c"
    using lca_correct [OF a b] by blast
  have apart: "c \<noteq> a" if "\<not> is_anc ws a b" using that c(3) is_anc_iff [OF b] assms(1) by blast
  show ?thesis
  proof (cases "is_anc ws b a \<or> is_anc ws a b")
    case True
    then show ?thesis using assms(1-3)
      by (cases "is_anc ws b a")
        (simp_all add: device_focus_transition_events_def compute_crossing_chain_def Let_def anc [symmetric] out_run_def in_run_def
          del: map_map drop_chain One_nat_def)
  next
    case False
    then show ?thesis using assms(1-3) root c(1) apart
      by (simp add: device_focus_transition_events_def compute_crossing_chain_def Let_def anc [symmetric] out_run_def in_run_def
          del: map_map drop_chain One_nat_def)
  qed
qed

section \<open>The windows of the pointer\<close>

text \<open>PointerRoot is above every window, None above none.\<close>

definition below_focus :: "window_map \<Rightarrow> u32 \<Rightarrow> u32 \<Rightarrow> bool" where
  "below_focus ws f w \<longleftrightarrow> f = 1 \<or> f \<noteq> 0 \<and> inferior ws w f"

lemma pointer_windows_outside:
  "\<not> inclusive \<Longrightarrow> pointer_windows x inclusive xs = takeWhile (\<lambda>v. v \<noteq> x) xs"
  by (induction xs) auto

lemma pointer_windows_all:
  "sorted_wrt R xs \<Longrightarrow> (\<And>v. v \<in> set xs \<Longrightarrow> \<not> R x v) \<Longrightarrow> pointer_windows x True xs = xs"
  by (induction xs) (auto simp: neq_Nil_conv)

lemma root_run:
  assumes "walkable ws p"
  shows "out_pointer_run ws p ROOT_WINDOW None True = map (focus_event_of False NOTIFY_POINTER) (ancestor_chain ws p)"
    and "in_pointer_run ws p ROOT_WINDOW None True = map (focus_event_of True NOTIFY_POINTER) (rev (ancestor_chain ws p))"
proof -
  have "is_anc ws ROOT_WINDOW p \<or> ROOT_WINDOW = p" using within_root [OF assms] is_anc_iff [OF assms] by auto
  moreover have "pointer_windows ROOT_WINDOW True (ancestor_chain ws p) = ancestor_chain ws p"
    by (rule pointer_windows_all [OF chain_sorted [OF assms]]) (use root_above [OF walkable_tree [OF assms]] in blast)
  ultimately show "out_pointer_run ws p ROOT_WINDOW None True = map (focus_event_of False NOTIFY_POINTER) (ancestor_chain ws p)"
    "in_pointer_run ws p ROOT_WINDOW None True = map (focus_event_of True NOTIFY_POINTER) (rev (ancestor_chain ws p))"
    by (auto simp: out_pointer_run_def in_pointer_run_def excluded_def)
qed

definition pointer_path :: "window_map \<Rightarrow> u32 \<Rightarrow> u32 \<Rightarrow> u32 list" where
  "pointer_path ws p f = takeWhile (\<lambda>v. v \<noteq> f) (ancestor_chain ws p)"

lemma pointer_path_set:
  assumes p: "walkable ws p" and f: "inferior ws p f"
  shows "set (pointer_path ws p f) = {w. within ws p w \<and> inferior ws w f}"
proof -
  have "f \<in> set (ancestor_chain ws p)" using f chain_set [OF p] by blast
  from takeWhile_before [OF chain_sorted [OF p] this inferior_irrefl [OF walkable_tree [OF p]] inferior_antisym [OF walkable_tree [OF p]]]
  show ?thesis unfolding pointer_path_def chain_set [OF p] by blast
qed

lemma pointer_path_sorted: "walkable ws p \<Longrightarrow> sorted_wrt (inferior ws) (pointer_path ws p f)"
  unfolding pointer_path_def by (rule sorted_wrt_takeWhile [OF chain_sorted])

lemma window_run:
  assumes p: "walkable ws p" and tree: "\<And>x. exclude = Some x \<Longrightarrow> walkable ws x"
  shows "out_pointer_run ws p f exclude False = map (focus_event_of False NOTIFY_POINTER)
      (if inferior ws p f \<and> (\<forall>x. exclude = Some x \<longrightarrow> \<not> linear ws p x) then pointer_path ws p f else [])"
    and "in_pointer_run ws p f exclude False = map (focus_event_of True NOTIFY_POINTER)
      (rev (if inferior ws p f \<and> (\<forall>x. exclude = Some x \<longrightarrow> p \<noteq> x \<and> \<not> linear ws p x) then pointer_path ws p f else []))"
proof -
  have ex: "excluded ws p exclude \<longleftrightarrow> (\<exists>x. exclude = Some x \<and> linear ws p x)"
    using is_anc_iff [OF p] is_anc_iff [OF tree] by (auto simp: excluded_def linear_def split: option.split)
  have self: "pointer_windows p False (ancestor_chain ws p) = []" by (simp add: ancestor_chain_def)
  have irr: "\<not> inferior ws p p" by (rule inferior_irrefl [OF walkable_tree [OF p]])
  show "out_pointer_run ws p f exclude False = map (focus_event_of False NOTIFY_POINTER)
      (if inferior ws p f \<and> (\<forall>x. exclude = Some x \<longrightarrow> \<not> linear ws p x) then pointer_path ws p f else [])"
    by (auto simp: out_pointer_run_def is_anc_iff [OF p] ex pointer_windows_outside pointer_path_def)
  show "in_pointer_run ws p f exclude False = map (focus_event_of True NOTIFY_POINTER)
      (rev (if inferior ws p f \<and> (\<forall>x. exclude = Some x \<longrightarrow> p \<noteq> x \<and> \<not> linear ws p x) then pointer_path ws p f else []))"
    using self irr by (auto simp: in_pointer_run_def is_anc_iff [OF p] ex pointer_windows_outside pointer_path_def)
qed

definition path_to :: "window_map \<Rightarrow> u32 \<Rightarrow> u32 \<Rightarrow> u32 list" where
  "path_to ws p f = (if f = 0 then [] else if f = 1 then ancestor_chain ws p else if inferior ws p f then pointer_path ws p f else [])"

lemma path_to_set:
  assumes "walkable ws p"
  shows "set (path_to ws p f) = {w. within ws p w \<and> below_focus ws f w}"
proof -
  have "inferior ws p f" if "within ws p w" "inferior ws w f" for w
    using that inferior_trans by blast
  then show ?thesis
    using pointer_path_set [OF assms, of f] chain_set [OF assms] by (auto simp: path_to_def below_focus_def)
qed

lemma path_to_sorted: "walkable ws p \<Longrightarrow> sorted_wrt (inferior ws) (path_to ws p f)"
  by (simp add: path_to_def chain_sorted pointer_path_sorted)

definition pointer_outs :: "focus_event list \<Rightarrow> u32 list" where
  "pointer_outs ev = map fe_window (filter (\<lambda>e. is_pointer e \<and> \<not> focus_in e) ev)"

definition pointer_ins :: "focus_event list \<Rightarrow> u32 list" where
  "pointer_ins ev = map fe_window (filter (\<lambda>e. is_pointer e \<and> focus_in e) ev)"

text \<open>Between two windows of one path, the far end's side of the pointer gets no such events.\<close>

definition out_blocked :: "window_map \<Rightarrow> u32 \<Rightarrow> u32 \<Rightarrow> u32 \<Rightarrow> bool" where
  "out_blocked ws a b p \<longleftrightarrow> \<not> special a \<and> \<not> special b \<and> (inferior ws a b \<or> inferior ws b a \<and> linear ws p b)"

definition in_blocked :: "window_map \<Rightarrow> u32 \<Rightarrow> u32 \<Rightarrow> u32 \<Rightarrow> bool" where
  "in_blocked ws a b p \<longleftrightarrow> \<not> special a \<and> \<not> special b \<and> (inferior ws b a \<or> inferior ws a b \<and> (p = a \<or> linear ws p a))"

lemma pointer_parts_append [simp]:
  "pointer_outs (xs @ ys) = pointer_outs xs @ pointer_outs ys" "pointer_ins (xs @ ys) = pointer_ins xs @ pointer_ins ys"
  by (simp_all add: pointer_outs_def pointer_ins_def)

lemma pointer_parts_map [simp]:
  "pointer_outs (map (focus_event_of False NOTIFY_POINTER) ws) = ws" "pointer_ins (map (focus_event_of False NOTIFY_POINTER) ws) = []"
  "pointer_outs (map (focus_event_of True NOTIFY_POINTER) ws) = []" "pointer_ins (map (focus_event_of True NOTIFY_POINTER) ws) = ws"
  "(\<And>w. \<not> is_pointer (focus_event_of i d w)) \<Longrightarrow> pointer_outs (map (focus_event_of i d) ws) = []"
  "(\<And>w. \<not> is_pointer (focus_event_of i d w)) \<Longrightarrow> pointer_ins (map (focus_event_of i d) ws) = []"
  by (induction ws) (simp_all add: pointer_outs_def pointer_ins_def)

lemma pointer_parts_simps [simp]:
  "pointer_outs [] = []" "pointer_ins [] = []"
  "\<not> is_pointer e \<Longrightarrow> pointer_outs (e # ev) = pointer_outs ev" "\<not> is_pointer e \<Longrightarrow> pointer_ins (e # ev) = pointer_ins ev"
  by (simp_all add: pointer_outs_def pointer_ins_def)

lemma focus_pointer_parts:
  assumes p: "walkable ws p" and a: "\<not> special a \<Longrightarrow> walkable ws a" and b: "\<not> special b \<Longrightarrow> walkable ws b" and ne: "a \<noteq> b"
  shows "pointer_outs (focus_transition_events ws a b p) = (if out_blocked ws a b p then [] else path_to ws p a)"
    and "pointer_ins (focus_transition_events ws a b p) = rev (if in_blocked ws a b p then [] else path_to ws p b)"
proof -
  have none: "out_pointer_run ws p f None False = map (focus_event_of False NOTIFY_POINTER) (if inferior ws p f then pointer_path ws p f else [])"
    "in_pointer_run ws p f None False = map (focus_event_of True NOTIFY_POINTER) (rev (if inferior ws p f then pointer_path ws p f else []))" for f
    using window_run [OF p, of None f] by simp_all
  have some: "walkable ws x \<Longrightarrow> out_pointer_run ws p f (Some x) False = map (focus_event_of False NOTIFY_POINTER)
      (if inferior ws p f \<and> \<not> linear ws p x then pointer_path ws p f else [])"
    "walkable ws x \<Longrightarrow> in_pointer_run ws p f (Some x) False = map (focus_event_of True NOTIFY_POINTER)
      (rev (if inferior ws p f \<and> p \<noteq> x \<and> \<not> linear ws p x then pointer_path ws p f else []))" for f x
    using window_run [OF p, of "Some x" f] by simp_all
  consider "special a" "special b" | "\<not> special a" "special b" | "special a" "\<not> special b"
    | "\<not> special a" "\<not> special b" "inferior ws a b" | "\<not> special a" "\<not> special b" "\<not> inferior ws a b" "inferior ws b a"
    | "\<not> special a" "\<not> special b" "\<not> inferior ws a b" "\<not> inferior ws b a" by blast
  then have "pointer_outs (focus_transition_events ws a b p) = (if out_blocked ws a b p then [] else path_to ws p a)
    \<and> pointer_ins (focus_transition_events ws a b p) = rev (if in_blocked ws a b p then [] else path_to ws p b)"
  proof cases
    case 1
    then show ?thesis using ne
      by (auto simp: focus_transition_events_def root_run [OF p] out_blocked_def in_blocked_def path_to_def special_def)
  next
    case 2
    then have "a \<noteq> 0" "a \<noteq> 1" "b = 0 \<or> b = 1" by (auto simp: special_def)
    then show ?thesis using 2 ne
      by (auto simp: focus_transition_events_def root_run [OF p] none some out_blocked_def in_blocked_def path_to_def)
  next
    case 3
    then have "b \<noteq> 0" "b \<noteq> 1" "a = 0 \<or> a = 1" by (auto simp: special_def)
    then show ?thesis using 3 ne
      by (auto simp: focus_transition_events_def root_run [OF p] none some out_blocked_def in_blocked_def path_to_def)
  next
    case 4
    then have "a \<noteq> 0" "a \<noteq> 1" "b \<noteq> 0" "b \<noteq> 1" by (auto simp: special_def)
    moreover have "\<not> inferior ws b a" using 4(3) inferior_antisym walkable_tree [OF p] by blast
    ultimately show ?thesis using 4 ne a
      by (simp add: focus_transition_events_def is_anc_iff none some out_blocked_def in_blocked_def path_to_def)
  next
    case 5
    then have "a \<noteq> 0" "a \<noteq> 1" "b \<noteq> 0" "b \<noteq> 1" by (auto simp: special_def)
    then show ?thesis using 5 ne a b
      by (simp add: focus_transition_events_def is_anc_iff none some out_blocked_def in_blocked_def path_to_def)
  next
    case 6
    then have "a \<noteq> 0" "a \<noteq> 1" "b \<noteq> 0" "b \<noteq> 1" by (auto simp: special_def)
    then show ?thesis using 6 ne a b
      by (simp add: focus_transition_events_def is_anc_iff none some out_blocked_def in_blocked_def path_to_def Let_def)
  qed
  then show "pointer_outs (focus_transition_events ws a b p) = (if out_blocked ws a b p then [] else path_to ws p a)"
    "pointer_ins (focus_transition_events ws a b p) = rev (if in_blocked ws a b p then [] else path_to ws p b)" by blast+
qed

section \<open>A small tree\<close>

text \<open>\<open>0x201\<close> in \<open>0x200\<close> and \<open>0x202\<close> beside it, made by the operations of the window table.\<close>

definition table3 :: resource_table where
  "table3 = create_window table2 1 (plain_request 0x202 ROOT_WINDOW)"

abbreviation windows3 :: window_map where "windows3 \<equiv> windows table3"

lemma table3_lookup:
  "\<exists>w. windows3 0x200 = Some w \<and> parent w = ROOT_WINDOW" "\<exists>w. windows3 0x201 = Some w \<and> parent w = 0x200"
  "\<exists>w. windows3 0x202 = Some w \<and> parent w = ROOT_WINDOW" "windows table2 0x202 = None" "windows table2 ROOT_WINDOW \<noteq> None"
  by (simp_all add: table1_def table2_def table3_def create_window_def plain_request_def Let_def unwrap_or_def
      resource_table_default_def root_window_def new_window_def insert_child_def cow_aware_top_index_def insert_at_def)

lemma table3_ok: "table_ok windows3"
proof -
  have "table_step table2 table3"
    unfolding table3_def using table3_lookup(4,5)
    by (intro table_step.create) (auto simp: plain_request_def)
  then show ?thesis by (intro table.reachable_inv reachable.step [OF reachable_table2])
qed

lemma walkable3: "walkable windows3 0x200" "walkable windows3 0x201" "walkable windows3 0x202"
proof -
  have t: "tree_shape (shape windows3)" using table3_ok by (simp add: table_ok_def)
  have "at_depth (shape windows3) (Suc 0) 0x200" "at_depth (shape windows3) (Suc (Suc 0)) 0x201"
    "at_depth (shape windows3) (Suc 0) 0x202"
    using table3_lookup(1-3) by (auto simp: shape_def)
  moreover have "Suc 0 \<le> 256" "Suc (Suc 0) \<le> 256" by simp_all
  ultimately show "walkable windows3 0x200" "walkable windows3 0x201" "walkable windows3 0x202"
    using t unfolding walkable_def by blast+
qed

section \<open>The properties\<close>

text \<open>
  C34. When the pointer goes from one window of the tree to another, with or without a grab, the
  windows left are the first one and its ancestors that do not contain the second, innermost
  first, and the windows entered are the second one and its ancestors that do not contain the
  first, outermost first, all leaves before all enters; each event has the protocol's detail, and
  a window passed through names the child towards its end of the path. The windows are at most
  256 levels deep.
\<close>

theorem crossings_correct:
  assumes "walkable ws from" and "walkable ws to" and "from \<noteq> to"
  shows "crossing_spec ws from to (normal_mode_crossings ws from to) \<and> crossing_spec ws from to (implicit_grab_crossings ws from to)"
  unfolding normal_mode_crossings_def implicit_grab_crossings_def using compute_spec [OF assms] by simp

lemma crossings_correct_witness:
  "crossing_spec windows3 0x201 0x202 (normal_mode_crossings windows3 0x201 0x202)
   \<and> crossing_spec windows3 0x201 0x202 (implicit_grab_crossings windows3 0x201 0x202)"
  by (rule crossings_correct [OF walkable3(2,3)]) simp

text \<open>
  C35. A focus that moves from one window to another sends the FocusOut and FocusIn events of the
  pointer's crossing of the same path, with the same details in the same order, and besides them
  only events with detail Pointer; the core sequence and the XInput 2 sequence agree on this.
\<close>

theorem focus_follows_crossings:
  assumes "walkable ws a" and "walkable ws b" and "a \<noteq> b" and "\<not> special a" and "\<not> special b"
  shows "filter (\<lambda>e. \<not> is_pointer e) (focus_transition_events ws a b p) = map as_focus (normal_mode_crossings ws a b)
    \<and> filter (\<lambda>e. \<not> is_pointer e) (device_focus_transition_events ws a b p) = map as_focus (normal_mode_crossings ws a b)"
  unfolding normal_mode_crossings_def
  using core_focus_crossings [OF assms(3-5)] device_focus_crossings [OF assms(3-5,1,2)] by simp

lemma focus_follows_crossings_witness:
  "filter (\<lambda>e. \<not> is_pointer e) (focus_transition_events windows3 0x201 0x202 0x200) = map as_focus (normal_mode_crossings windows3 0x201 0x202)
   \<and> filter (\<lambda>e. \<not> is_pointer e) (device_focus_transition_events windows3 0x201 0x202 0x200)
     = map as_focus (normal_mode_crossings windows3 0x201 0x202)"
  by (rule focus_follows_crossings [OF walkable3(2,3)]) (simp_all add: special_def)

text \<open>
  The core events with detail Pointer. A FocusOut goes, innermost first, to the pointer's window
  and its ancestors below the old focus (all of them when that was PointerRoot, none when it was
  None), a FocusIn, outermost first, to those below the new focus. Between two windows of one path
  the upper one's run is left out when the pointer is on that path's line through the lower one,
  and the lower one has none.
\<close>

theorem focus_pointer_windows:
  assumes "walkable ws p" and "\<not> special a \<Longrightarrow> walkable ws a" and "\<not> special b \<Longrightarrow> walkable ws b" and "a \<noteq> b"
  shows "let ev = focus_transition_events ws a b p
    in set (pointer_outs ev) = (if out_blocked ws a b p then {} else {w. within ws p w \<and> below_focus ws a w})
       \<and> sorted_wrt (inferior ws) (pointer_outs ev)
       \<and> set (pointer_ins ev) = (if in_blocked ws a b p then {} else {w. within ws p w \<and> below_focus ws b w})
       \<and> sorted_wrt (inferior ws) (rev (pointer_ins ev))"
  using focus_pointer_parts [OF assms] path_to_set [OF assms(1)] path_to_sorted [OF assms(1)] by (simp add: Let_def)

lemma focus_pointer_windows_witness:
  "set (pointer_outs (focus_transition_events windows3 1 0x200 0x201)) = {w. within windows3 0x201 w}
   \<and> set (pointer_ins (focus_transition_events windows3 1 0x200 0x201)) = {w. within windows3 0x201 w \<and> inferior windows3 w 0x200}"
  using focus_pointer_windows [of windows3 "0x201" 1 "0x200"] walkable3
  by (simp add: special_def Let_def out_blocked_def in_blocked_def below_focus_def)

section \<open>Below the walk's limit\<close>

text \<open>A line of 257 windows below the root, each the only child of the one above.\<close>

definition line_table :: window_map where
  "line_table k =
     (if 0x100 \<le> k \<and> k \<le> 0x201
      then Some (root_window\<lparr>wid := k, parent := if k = 0x100 then k else k - 1, children := if k = 0x201 then [] else [k + 1]\<rparr>)
      else None)"

lemma line_shape:
  "shape line_table k = (if 0x100 \<le> k \<and> k \<le> 0x201
     then Some (if k = 0x100 then k else k - 1, if k = 0x201 then [] else [k + 1]) else None)"
  by (simp add: shape_def line_table_def)

lemma line_depth: "n \<le> 257 \<Longrightarrow> k = 0x100 + word_of_nat n \<Longrightarrow> at_depth (shape line_table) n k"
proof (induction n arbitrary: k)
  case (Suc n)
  then have "unat k = 0x101 + n" by (simp add: unat_word_ariths unat_of_nat)
  then have "0x100 \<le> k" "k \<le> 0x201" "k \<noteq> 0x100" using Suc.prems(1) by (auto simp: word_le_nat_alt)
  moreover have "at_depth (shape line_table) n (k - 1)" using Suc by simp
  ultimately show ?case by (simp add: line_shape [of k])
qed simp

lemma line_tree: "tree_shape (shape line_table)"
proof -
  have "\<exists>n. at_depth (shape line_table) n k" if "0x100 \<le> k" "k \<le> 0x201" for k
  proof (rule exI, rule line_depth)
    have "unat (k - 0x100) = unat k - 0x100" using that by (simp add: unat_sub)
    then show "unat (k - 0x100) \<le> 257" using that by (simp add: word_le_nat_alt)
  qed simp
  moreover have "k + 1 \<noteq> 0x100 \<and> 0x100 \<le> k + 1 \<and> k + 1 \<le> 0x201" if "0x100 \<le> k" "k \<le> 0x201" "k \<noteq> 0x201" for k :: u32
    using that by (auto simp: word_le_nat_alt word_unat_eq_iff unat_word_ariths)
  moreover have "0x100 \<le> k - 1 \<and> k - 1 \<le> 0x201 \<and> k - 1 \<noteq> 0x201" if "0x100 \<le> k" "k \<le> 0x201" "k \<noteq> 0x100" for k :: u32
  proof -
    have "1 \<le> k" using that(1) by (simp add: word_le_nat_alt)
    then have "unat (k - 1) = unat k - 1" by (simp add: unat_sub)
    then show ?thesis using that by (auto simp: word_le_nat_alt word_unat_eq_iff)
  qed
  ultimately show ?thesis by (auto simp: tree_shape_def line_shape)
qed

lemma line_chain: "h \<le> 256 \<Longrightarrow> 0x100 \<notin> set (chain_loop line_table (word_of_nat (0x201 - h)) h)"
proof (induction "256 - h" arbitrary: h)
  case (Suc n)
  let ?k = "word_of_nat (0x201 - h) :: u32"
  have h: "h < 256" using Suc.hyps(2) by simp
  define m where "m = 0x200 - h"
  have m: "0x201 - h = Suc m" "0x201 - Suc h = m" "0x100 < m" "m \<le> 0x200" using h by (simp_all add: m_def)
  have "unat (word_of_nat (Suc m) :: u32) = Suc m" "unat (word_of_nat m :: u32) = m"
    using m by (simp_all add: unat_of_nat del: of_nat_Suc)
  then have k: "0x100 \<le> (word_of_nat (Suc m) :: u32)" "(word_of_nat (Suc m) :: u32) \<le> 0x201"
    "(word_of_nat (Suc m) :: u32) \<noteq> 0x100" "(word_of_nat m :: u32) \<noteq> 0x100"
    using m by (auto simp: word_le_nat_alt word_unat_eq_iff simp del: of_nat_Suc)
  have "(word_of_nat (Suc m) :: u32) - 1 = word_of_nat m" by simp
  then obtain w where w: "line_table (word_of_nat (Suc m)) = Some w" "parent w = word_of_nat m"
    using k by (simp add: line_table_def)
  have "(word_of_nat m :: u32) \<noteq> word_of_nat (Suc m)" by simp
  then have "chain_loop line_table (word_of_nat (Suc m)) h = word_of_nat m # chain_loop line_table (word_of_nat m) (Suc h)"
    using h w by (subst chain_loop.simps) (simp del: of_nat_Suc)
  moreover have "0x100 \<notin> set (chain_loop line_table (word_of_nat m) (Suc h))"
    using Suc.hyps(1) [of "Suc h"] Suc.hyps(2) h unfolding m(2) by simp
  ultimately show ?case using k(4) m(1) by (simp del: of_nat_Suc)
qed (subst chain_loop.simps, simp)

text \<open>
  The pointer goes from the root into the deepest window: the root, an ancestor, is left with the
  detail Nonlinear.
\<close>

lemma deep_window_nonlinear:
  "tree_shape (shape line_table) \<and> inferior line_table 0x201 ROOT_WINDOW
   \<and> hd (normal_mode_crossings line_table ROOT_WINDOW 0x201) = crossing ROOT_WINDOW Leave NOTIFY_NONLINEAR 0"
proof -
  have "at_depth (shape line_table) 257 0x201" by (rule line_depth) simp_all
  then have below: "inferior line_table 0x201 ROOT_WINDOW" using depth_within_root [OF line_tree] by fastforce
  have root: "chain_loop line_table ROOT_WINDOW 0 = []" by (subst chain_loop.simps) (simp add: line_table_def)
  have "ROOT_WINDOW \<notin> set (chain_loop line_table 0x201 0)" using line_chain [of 0] by simp
  then have "hd (normal_mode_crossings line_table ROOT_WINDOW 0x201) = crossing ROOT_WINDOW Leave NOTIFY_NONLINEAR 0"
    using root by (simp add: normal_mode_crossings_def compute_crossing_chain_def Let_def)
  with line_tree below show ?thesis by blast
qed

end
