(* ===== verification/Host_Access.thy ===== *)
theory Host_Access
  imports Wire
begin

text \<open>
  The host access list (\<open>core_loop/host_access.rs\<close>): its entries, the validation and the matching
  of server-interpreted ones, and their encoding for \<open>ListHosts\<close>. The system's user and group
  database is the parameter \<open>resolver\<close>; it also says which texts are IPv6 literals, which the
  source leaves to the standard library's parser.
\<close>

definition FAMILY_INTERNET :: u8 where "FAMILY_INTERNET = 0"
definition FAMILY_DECNET :: u8 where "FAMILY_DECNET = 1"
definition FAMILY_CHAOS :: u8 where "FAMILY_CHAOS = 2"
definition FAMILY_SERVER_INTERPRETED :: u8 where "FAMILY_SERVER_INTERPRETED = 5"
definition FAMILY_INTERNET6 :: u8 where "FAMILY_INTERNET6 = 6"
definition FAMILY_LOCAL_HOST :: u8 where "FAMILY_LOCAL_HOST = 252"

lemmas family_defs = FAMILY_INTERNET_def FAMILY_DECNET_def FAMILY_CHAOS_def FAMILY_SERVER_INTERPRETED_def
  FAMILY_INTERNET6_def FAMILY_LOCAL_HOST_def

definition SI_HOSTNAME_MAXLEN :: nat where "SI_HOSTNAME_MAXLEN = 1025"
definition SI_IPV6_MAXLEN :: nat where "SI_IPV6_MAXLEN = 46"
definition LIST_HOSTS_BYTE_CAP :: nat where "LIST_HOSTS_BYTE_CAP = 2 ^ 20"

section \<open>Entries\<close>

record host_entry =
  he_family :: u8
  he_addr :: "u8 list"

record host_list =
  access_enabled :: bool
  hosts :: "host_entry list"

definition host_list_default :: host_list where
  "host_list_default = \<lparr>access_enabled = True, hosts = []\<rparr>"

definition insert_host :: "host_entry \<Rightarrow> host_list \<Rightarrow> host_list" where
  "insert_host e l = (if e \<in> set (hosts l) then l else l\<lparr>hosts := e # hosts l\<rparr>)"

definition delete_host :: "host_entry \<Rightarrow> host_list \<Rightarrow> host_list" where
  "delete_host e l = l\<lparr>hosts := remove1 e (hosts l)\<rparr>"

datatype bad_value = BadLengthValue | BadFamilyValue

section \<open>Server-interpreted addresses\<close>

datatype si_type = Hostname | Ipv6 | LocalUser | LocalGroup
datatype cred_kind = User | Group

record si_entry =
  si_kind :: si_type
  si_value :: "u8 list"

record name_resolver =
  resolve_uid :: "u8 list \<Rightarrow> u32 option"
  resolve_gid :: "u8 list \<Rightarrow> u32 option"
  is_ipv6_literal :: "u8 list \<Rightarrow> bool"

record peer_cred =
  pc_uid :: u32
  pc_gid :: u32
  pc_pid :: "u32 option"

definition si_parse :: "u8 list \<Rightarrow> si_entry option" where
  "si_parse addr =
     (if 0 \<notin> set addr then None
      else let name = takeWhile (\<lambda>b. b \<noteq> 0) addr; value = drop (length name + 1) addr
           in if name = ascii ''hostname'' then Some \<lparr>si_kind = Hostname, si_value = value\<rparr>
              else if name = ascii ''ipv6'' then Some \<lparr>si_kind = Ipv6, si_value = value\<rparr>
              else if name = ascii ''localuser'' then Some \<lparr>si_kind = LocalUser, si_value = value\<rparr>
              else if name = ascii ''localgroup'' then Some \<lparr>si_kind = LocalGroup, si_value = value\<rparr>
              else None)"

text \<open>The loop of \<open>hostname_is_valid\<close>, with its two flags.\<close>

fun hostname_loop :: "bool \<Rightarrow> bool \<Rightarrow> u8 list \<Rightarrow> bool" where
  "hostname_loop dot_allowed dash_allowed [] \<longleftrightarrow> True"
| "hostname_loop dot_allowed dash_allowed (c # cs) \<longleftrightarrow>
     (if c = 0x2E then dot_allowed \<and> hostname_loop False False cs
      else if c = 0x2D then dash_allowed \<and> hostname_loop False dash_allowed cs
      else if (0x30 \<le> c \<and> c \<le> 0x3A) \<or> (0x61 \<le> c \<and> c \<le> 0x7A) \<or> (0x41 \<le> c \<and> c \<le> 0x5A) then hostname_loop True True cs
      else False)"

definition hostname_is_valid :: "u8 list \<Rightarrow> bool" where
  "hostname_is_valid value \<longleftrightarrow> value \<noteq> [] \<and> length value < SI_HOSTNAME_MAXLEN \<and> hostname_loop False False value"

definition before_nul :: "u8 list \<Rightarrow> u8 list" where
  "before_nul bytes = takeWhile (\<lambda>b. b \<noteq> 0) bytes"

definition ipv6_is_valid :: "name_resolver \<Rightarrow> u8 list \<Rightarrow> bool" where
  "ipv6_is_valid resolver value \<longleftrightarrow>
     3 \<le> length value \<and> length value < SI_IPV6_MAXLEN \<and> is_ipv6_literal resolver (before_nul value)"

section \<open>Numeric ids\<close>

text \<open>\<open>char::to_digit\<close> for the radixes used, at most 16.\<close>

definition to_digit :: "nat \<Rightarrow> u8 \<Rightarrow> nat option" where
  "to_digit radix c =
     (let d = (if 0x30 \<le> c \<and> c \<le> 0x39 then Some (unat c - 0x30)
               else if 0x61 \<le> c \<and> c \<le> 0x7A then Some (unat c - 0x61 + 10)
               else if 0x41 \<le> c \<and> c \<le> 0x5A then Some (unat c - 0x41 + 10)
               else None)
      in case d of None \<Rightarrow> None | Some d \<Rightarrow> if d < radix then Some d else None)"

text \<open>
  The digit loop of \<open>strtol_base0\<close>: the magnitude, whether it ever overflowed \<open>u64\<close>, and the
  number of digits.
\<close>

fun strtol_digits :: "nat \<Rightarrow> u8 list \<Rightarrow> nat \<times> bool \<times> nat \<Rightarrow> nat \<times> bool \<times> nat" where
  "strtol_digits radix [] r = r"
| "strtol_digits radix (c # cs) (magnitude, overflow, digits) =
     (case to_digit radix c of
        None \<Rightarrow> (magnitude, overflow, digits)
      | Some d \<Rightarrow>
          let m = magnitude * radix + d
          in strtol_digits radix cs (if m < 2 ^ 64 then (m, overflow, digits + 1) else (magnitude, True, digits + 1)))"

definition is_space :: "u8 \<Rightarrow> bool" where
  "is_space c \<longleftrightarrow> c \<in> {0x20, 0x09, 0x0A, 0x0B, 0x0C, 0x0D}"

definition strtol_base0 :: "u8 list \<Rightarrow> int option" where
  "strtol_base0 s =
     (let s = dropWhile is_space s;
          (negative, s) = (case s of
             c # rest \<Rightarrow> if c = 0x2D then (True, rest) else if c = 0x2B then (False, rest) else (False, s)
           | [] \<Rightarrow> (False, s));
          (radix, s) = (case s of
             z # x # h # rest \<Rightarrow>
               if z = 0x30 then (if (x = 0x78 \<or> x = 0x58) \<and> to_digit 16 h \<noteq> None then (16, h # rest) else (8, s)) else (10, s)
           | z # rest \<Rightarrow> if z = 0x30 then (8, s) else (10, s)
           | [] \<Rightarrow> (10, s));
          (magnitude, overflow, digits) = strtol_digits radix s (0, False, 0)
      in if digits = 0 \<or> overflow then None
         else let signed = (if negative then - int magnitude else int magnitude)
              in if in_i64 signed then Some signed else None)"

definition parse_cred_id :: "u8 list \<Rightarrow> cred_kind \<Rightarrow> name_resolver \<Rightarrow> int option" where
  "parse_cred_id value kind resolver =
     (let value = before_nul value;
          by_name = map_option uint (case kind of User \<Rightarrow> resolve_uid resolver value | Group \<Rightarrow> resolve_gid resolver value)
      in case value of
           [] \<Rightarrow> by_name
         | c # number \<Rightarrow> if c = 0x23 then strtol_base0 number else by_name)"

section \<open>Validation and matching\<close>

definition value_is_valid :: "name_resolver \<Rightarrow> si_entry \<Rightarrow> bool" where
  "value_is_valid resolver e \<longleftrightarrow>
     (case si_kind e of
        Hostname \<Rightarrow> hostname_is_valid (si_value e)
      | Ipv6 \<Rightarrow> ipv6_is_valid resolver (si_value e)
      | LocalUser \<Rightarrow> parse_cred_id (si_value e) User resolver \<noteq> None
      | LocalGroup \<Rightarrow> parse_cred_id (si_value e) Group resolver \<noteq> None)"

definition check_addr :: "u8 \<Rightarrow> u8 list \<Rightarrow> name_resolver \<Rightarrow> bad_value + unit" where
  "check_addr family addr resolver =
     (let verdict = (\<lambda>valid. if valid then Inr () else Inl BadLengthValue)
      in if family = FAMILY_INTERNET then verdict (length addr = 4)
         else if family = FAMILY_INTERNET6 then verdict (length addr = 16)
         else if family = FAMILY_DECNET \<or> family = FAMILY_CHAOS then verdict False
         else if family = FAMILY_SERVER_INTERPRETED then
           verdict (case si_parse addr of None \<Rightarrow> False | Some e \<Rightarrow> value_is_valid resolver e)
         else Inl BadFamilyValue)"

definition si_matches_local :: "name_resolver \<Rightarrow> peer_cred option \<Rightarrow> host_entry \<Rightarrow> bool" where
  "si_matches_local resolver cred e \<longleftrightarrow>
     he_family e = FAMILY_SERVER_INTERPRETED \<and>
     (case si_parse (he_addr e) of
        None \<Rightarrow> False
      | Some si \<Rightarrow>
          (case cred of
             None \<Rightarrow> False
           | Some cred \<Rightarrow>
               (case si_kind si of
                  LocalUser \<Rightarrow> parse_cred_id (si_value si) User resolver = Some (uint (pc_uid cred))
                | LocalGroup \<Rightarrow> parse_cred_id (si_value si) Group resolver = Some (uint (pc_gid cred))
                | _ \<Rightarrow> False)))"

section \<open>Encoding\<close>

text \<open>The first loop of \<open>encode_entries\<close>: how many entries are listed.\<close>

fun listed :: "host_entry list \<Rightarrow> nat \<Rightarrow> nat \<Rightarrow> nat" where
  "listed [] n bytes = n"
| "listed (h # hs) n bytes =
     (if n = 65535 then n
      else let bytes = bytes + (4 + next_multiple_of_4 (length (he_addr h)))
           in if bytes \<ge> LIST_HOSTS_BYTE_CAP then n + 1 else listed hs (n + 1) bytes)"

definition encode_entry :: "client_byte_order \<Rightarrow> host_entry \<Rightarrow> u8 list" where
  "encode_entry bo h =
     write_u16 bo [he_family h, 0] (if length (he_addr h) \<le> 65535 then of_nat (length (he_addr h)) else 65535)
     @ he_addr h @ replicate (next_multiple_of_4 (length (he_addr h)) - length (he_addr h)) 0"

definition encode_entries :: "host_entry list \<Rightarrow> client_byte_order \<Rightarrow> u16 \<times> u8 list" where
  "encode_entries hs bo = (let n = listed hs 0 0 in (of_nat n, concat (map (encode_entry bo) (take n hs))))"

end
