(* ===== verification/Auth_State.thy ===== *)
theory Auth_State
  imports Host_Access
begin

text \<open>
  Who may connect (\<open>core_loop/auth.rs\<close>, \<open>xauth.rs\<close>, and the three requests of
  \<open>process_request/misc.rs\<close> that change it): the cookies of the \<open>-auth\<close> file, the one session
  cookie of XDMCP, local access and the host access list, all bound to a generation of the server.
  What is read from outside is an argument: the file's time stamp and contents at each read, the
  interface addresses, the name resolver. The counters of generations and credentials, which
  the source bounds by \<open>2 ^ 64\<close>, are natural numbers.
\<close>

section \<open>The authority file\<close>

definition MIT_MAGIC_COOKIE :: "u8 list" where
  "MIT_MAGIC_COOKIE = ascii ''MIT-MAGIC-COOKIE-1''"

record xauth_record =
  xa_family :: u16
  xa_address :: "u8 list"
  xa_number :: "u8 list"
  xa_name :: "u8 list"
  xa_data :: "u8 list"

text \<open>The source's cursor into the bytes is the rest of the list.\<close>

fun read_be_u16 :: "u8 list \<Rightarrow> (u16 \<times> u8 list) option" where
  "read_be_u16 (a # b # rest) = Some (u16_from_be_bytes a b, rest)"
| "read_be_u16 _ = None"

definition read_field :: "u8 list \<Rightarrow> (u8 list \<times> u8 list) option" where
  "read_field bs =
     (case read_be_u16 bs of
        None \<Rightarrow> None
      | Some (len, rest) \<Rightarrow> if unat len \<le> length rest then Some (take (unat len) rest, drop (unat len) rest) else None)"

text \<open>One turn of the loop of \<open>parse_records\<close>.\<close>

definition parse_record :: "u8 list \<Rightarrow> (xauth_record \<times> u8 list) option" where
  "parse_record bs =
     Option.bind (read_be_u16 bs) (\<lambda>(family, bs).
     Option.bind (read_field bs) (\<lambda>(address, bs).
     Option.bind (read_field bs) (\<lambda>(number, bs).
     Option.bind (read_field bs) (\<lambda>(name, bs).
     Option.bind (read_field bs) (\<lambda>(data, bs).
       Some (\<lparr>xa_family = family, xa_address = address, xa_number = number, xa_name = name, xa_data = data\<rparr>, bs))))))"

lemma read_field_shorter: "read_field bs = Some (f, rest) \<Longrightarrow> length rest < length bs"
  by (cases bs rule: read_be_u16.cases) (auto simp: read_field_def split: if_splits)

lemma read_be_u16_shorter: "read_be_u16 bs = Some (v, rest) \<Longrightarrow> length rest < length bs"
  by (cases bs rule: read_be_u16.cases) auto

lemma parse_record_shorter: "parse_record bs = Some (r, rest) \<Longrightarrow> length rest < length bs"
  by (auto simp: parse_record_def bind_eq_Some_conv dest!: read_field_shorter read_be_u16_shorter)

function parse_records :: "u8 list \<Rightarrow> xauth_record list" where
  "parse_records bs =
     (if bs = [] then []
      else case parse_record bs of None \<Rightarrow> [] | Some (r, rest) \<Rightarrow> r # parse_records rest)"
  by auto
termination
  by (relation "measure length") (auto dest: parse_record_shorter)

declare parse_records.simps [simp del]

section \<open>State\<close>

datatype auth_transport = Unix | Tcp

datatype credential_source = FileCookie | SessionCookie

datatype admission = Cookie nat credential_source | HostAccess | Internal

definition REASON_NO_PROTO :: string where
  "REASON_NO_PROTO = ''Authorization required, but no authorization protocol specified'' @ [CHR 0x0A]"

definition REASON_BAD_PROTO :: string where
  "REASON_BAD_PROTO = ''Authorization protocol not supported by server'' @ [CHR 0x0A]"

definition REASON_BAD_COOKIE :: string where
  "REASON_BAD_COOKIE = ''Invalid MIT-MAGIC-COOKIE-1 key''"

record peer_identity =
  transport :: auth_transport
  peer_addr :: "u8 list option"
  peer_cred_of :: "peer_cred option"

text \<open>The configuration in \<open>AuthState\<close>: whether there is an \<open>-auth\<close> file, XDMCP, a TCP listener.\<close>

record auth_config =
  has_auth_file :: bool
  xdmcp :: bool
  tcp_listen :: bool

record session_credential =
  sc_generation :: nat
  sc_cookie :: "u8 list"
  sc_credential :: nat

record auth_inner =
  last_mtime :: "nat option"
  ever_loaded :: bool
  local_open :: bool
  host_acl :: host_list
  generation :: nat
  cookies :: "(nat \<times> u8 list) list"
  next_credential_id :: nat
  session :: "session_credential option"

text \<open>What one reload sees: the modification time, if \<open>stat\<close> succeeds, and the bytes, if the file opens.\<close>

record disk =
  stat_mtime :: "nat option"
  contents :: "u8 list option"

definition build :: "auth_config \<Rightarrow> auth_inner" where
  "build cfg = \<lparr>last_mtime = None, ever_loaded = False, local_open = \<not> xdmcp cfg, host_acl = host_list_default,
     generation = 0, cookies = [], next_credential_id = 1, session = None\<rparr>"

section \<open>Loading the file\<close>

definition should_reload :: "nat option \<Rightarrow> nat option \<Rightarrow> bool \<times> nat option" where
  "should_reload stat lastmod =
     (case stat of
        Some m \<Rightarrow>
          (case lastmod of
             Some lm \<Rightarrow> if m > lm then (True, Some m) else (False, lastmod)
           | None \<Rightarrow> (True, Some m))
      | None \<Rightarrow> if lastmod \<noteq> None then (True, None) else (False, lastmod))"

datatype load_outcome = Loaded "u8 list list" | OpenedEmpty | OpenFailed

definition load_outcome_of :: "u8 list option \<Rightarrow> load_outcome" where
  "load_outcome_of content =
     (case content of
        None \<Rightarrow> OpenFailed
      | Some bytes \<Rightarrow>
          let cookies = map xa_data (filter (\<lambda>r. xa_name r = MIT_MAGIC_COOKIE) (parse_records bytes))
          in if cookies = [] then OpenedEmpty else Loaded cookies)"

definition allocate_credential_id :: "auth_inner \<Rightarrow> nat \<times> auth_inner" where
  "allocate_credential_id s = (next_credential_id s, s\<lparr>next_credential_id := next_credential_id s + 1\<rparr>)"

definition add_cookie :: "u8 list \<Rightarrow> auth_inner \<Rightarrow> auth_inner" where
  "add_cookie c s =
     (if c \<in> snd ` set (cookies s) then s
      else let (credential, s) = allocate_credential_id s in s\<lparr>cookies := cookies s @ [(credential, c)]\<rparr>)"

definition apply_load_outcome :: "bool \<Rightarrow> load_outcome \<Rightarrow> auth_inner \<Rightarrow> auth_inner" where
  "apply_load_outcome using_xdmcp outcome s =
     (case outcome of
        Loaded cs \<Rightarrow> (fold add_cookie cs s)\<lparr>local_open := False, ever_loaded := True\<rparr>
      | OpenedEmpty \<Rightarrow> if \<not> using_xdmcp then s\<lparr>local_open := True\<rparr> else s
      | OpenFailed \<Rightarrow> if \<not> ever_loaded s \<and> \<not> using_xdmcp then s\<lparr>local_open := True\<rparr> else s)"

definition reload_if_needed :: "auth_config \<Rightarrow> disk \<Rightarrow> bool \<Rightarrow> auth_inner \<Rightarrow> auth_inner" where
  "reload_if_needed cfg d force s =
     (let (changed, mtime) = should_reload (stat_mtime d) (last_mtime s);
          s = s\<lparr>last_mtime := mtime\<rparr>
      in if force \<or> changed then apply_load_outcome (xdmcp cfg) (load_outcome_of (contents d)) s else s)"

section \<open>Generations\<close>

datatype access = Current | Stale

definition enter :: "auth_config \<Rightarrow> disk \<Rightarrow> nat \<Rightarrow> auth_inner \<Rightarrow> access \<times> auth_inner" where
  "enter cfg d g s =
     (if g < generation s then (Stale, s)
      else if g > generation s then
        let s = s\<lparr>local_open := False, host_acl := host_list_default, cookies := []\<rparr>;
            s = (if has_auth_file cfg then reload_if_needed cfg d True s else apply_load_outcome (xdmcp cfg) OpenedEmpty s)
        in (Current, s\<lparr>generation := g\<rparr>)
      else (Current, s))"

section \<open>Verdicts\<close>

unbundle bit_operations_syntax

definition ct_eq :: "u8 list \<Rightarrow> u8 list \<Rightarrow> bool" where
  "ct_eq a b \<longleftrightarrow> length a = length b \<and> fold (\<lambda>(x, y) diff. diff OR (x XOR y)) (zip a b) 0 = 0"

definition session_authorizes :: "auth_inner \<Rightarrow> nat \<Rightarrow> u8 list \<Rightarrow> u8 list \<Rightarrow> bool" where
  "session_authorizes s g name data \<longleftrightarrow>
     (case session s of
        None \<Rightarrow> False
      | Some c \<Rightarrow> sc_generation c = g \<and> name = MIT_MAGIC_COOKIE \<and> ct_eq (sc_cookie c) data)"

definition reject_reason :: "u8 list \<Rightarrow> string" where
  "reject_reason name =
     (if name = [] then REASON_NO_PROTO else if name = MIT_MAGIC_COOKIE then REASON_BAD_COOKIE else REASON_BAD_PROTO)"

definition cookie_match :: "auth_config \<Rightarrow> auth_inner \<Rightarrow> auth_transport \<Rightarrow> nat \<Rightarrow> u8 list \<Rightarrow> u8 list
    \<Rightarrow> (nat \<times> credential_source) option" where
  "cookie_match cfg s tr g name data =
     (if session_authorizes s g name data then map_option (\<lambda>c. (sc_credential c, SessionCookie)) (session s)
      else if xdmcp cfg \<and> tr = Tcp then None
      else if name = MIT_MAGIC_COOKIE then
        map_option (\<lambda>(credential, _). (credential, FileCookie)) (find (\<lambda>(_, cookie). ct_eq cookie data) (cookies s))
      else None)"

text \<open>\<open>verdict\<close>: the cookies, and for Unix peers disabled access control or open local access.\<close>

definition verdict_allows :: "auth_config \<Rightarrow> auth_inner \<Rightarrow> auth_transport \<Rightarrow> nat \<Rightarrow> u8 list \<Rightarrow> u8 list \<Rightarrow> bool" where
  "verdict_allows cfg s tr g name data \<longleftrightarrow>
     cookie_match cfg s tr g name data \<noteq> None \<or> tr = Unix \<and> (\<not> access_enabled (host_acl s) \<or> local_open s)"

definition selfhosts :: "auth_config \<Rightarrow> host_entry list \<Rightarrow> host_entry list" where
  "selfhosts cfg own = (if \<not> tcp_listen cfg then [] else own @ [\<lparr>he_family = FAMILY_LOCAL_HOST, he_addr = []\<rparr>])"

definition list_admits_unix :: "auth_config \<Rightarrow> host_entry list \<Rightarrow> name_resolver \<Rightarrow> peer_cred option \<Rightarrow> host_entry list \<Rightarrow> bool" where
  "list_admits_unix cfg own resolver cred hs \<longleftrightarrow>
     hs \<noteq> [] \<and> (list_ex (\<lambda>h. h \<in> set (selfhosts cfg own)) hs \<or> list_ex (si_matches_local resolver cred) hs)"

text \<open>
  \<open>admit_with\<close>. \<open>d1\<close> is what the reload of a new generation sees, \<open>d2\<close> what the lazy one sees, \<open>own\<close>
  our interface addresses.
\<close>

definition admit :: "auth_config \<Rightarrow> disk \<Rightarrow> disk \<Rightarrow> host_entry list \<Rightarrow> name_resolver \<Rightarrow> peer_identity \<Rightarrow> nat \<Rightarrow> u8 list \<Rightarrow> u8 list
    \<Rightarrow> auth_inner \<Rightarrow> (string + admission) \<times> auth_inner" where
  "admit cfg d1 d2 own resolver peer g name data s =
     (let (access, s) = enter cfg d1 g s
      in if access = Stale then
           (case cookie_match cfg s (transport peer) g name data of
              Some (credential, source) \<Rightarrow> Inr (Cookie credential source)
            | None \<Rightarrow> Inl (reject_reason name), s)
         else
           let s = (if has_auth_file cfg then reload_if_needed cfg d2 False s else s)
           in (case cookie_match cfg s (transport peer) g name data of
                 Some (credential, source) \<Rightarrow> Inr (Cookie credential source)
               | None \<Rightarrow>
                   if verdict_allows cfg s (transport peer) g name data then Inr HostAccess
                   else if transport peer \<noteq> Unix then Inl (reject_reason name)
                   else if list_admits_unix cfg own resolver (peer_cred_of peer) (hosts (host_acl s)) then Inr HostAccess
                   else Inl (reject_reason name), s))"

section \<open>Changes\<close>

definition install_session_cookie :: "nat \<Rightarrow> u8 list \<Rightarrow> u8 list \<Rightarrow> auth_inner \<Rightarrow> bool \<times> auth_inner" where
  "install_session_cookie g name data s =
     (if name \<noteq> MIT_MAGIC_COOKIE \<or> data = [] then (False, s\<lparr>session := None\<rparr>)
      else let (credential, s) = allocate_credential_id s
           in (True, s\<lparr>session := Some \<lparr>sc_generation = g, sc_cookie = data, sc_credential = credential\<rparr>\<rparr>))"

definition clear_session_cookie :: "auth_inner \<Rightarrow> auth_inner" where
  "clear_session_cookie s = s\<lparr>session := None\<rparr>"

definition require_tcp_auth_at_startup :: "auth_config \<Rightarrow> disk \<Rightarrow> auth_inner \<Rightarrow> bool \<times> auth_inner" where
  "require_tcp_auth_at_startup cfg d s =
     (if xdmcp cfg then (True, s)
      else if \<not> has_auth_file cfg then (False, s)
      else let s = reload_if_needed cfg d True s in (cookies s \<noteq> [], s))"

datatype host_change_error = ChangeAccess | ChangeValue bad_value

definition change_hosts :: "auth_config \<Rightarrow> disk \<Rightarrow> name_resolver \<Rightarrow> nat \<Rightarrow> bool \<Rightarrow> u8 \<Rightarrow> u8 list \<Rightarrow> auth_inner
    \<Rightarrow> (host_change_error + unit) \<times> auth_inner" where
  "change_hosts cfg d resolver g add family addr s =
     (case (if family \<noteq> FAMILY_LOCAL_HOST then check_addr family addr resolver else Inr ()) of
        Inl e \<Rightarrow> (Inl (ChangeValue e), s)
      | Inr _ \<Rightarrow>
          let entry = \<lparr>he_family = family, he_addr = addr\<rparr>; (access, s) = enter cfg d g s
          in if access = Stale then (Inl ChangeAccess, s)
             else
               let s = (if family = FAMILY_LOCAL_HOST then s\<lparr>local_open := add\<rparr> else s)
               in (Inr (), s\<lparr>host_acl := (if add then insert_host entry else delete_host entry) (host_acl s)\<rparr>))"

definition set_access_enabled :: "auth_config \<Rightarrow> disk \<Rightarrow> nat \<Rightarrow> bool \<Rightarrow> auth_inner \<Rightarrow> (host_change_error + unit) \<times> auth_inner" where
  "set_access_enabled cfg d g enabled s =
     (let (access, s) = enter cfg d g s
      in if access = Stale then (Inl ChangeAccess, s)
         else (Inr (), s\<lparr>host_acl := (host_acl s)\<lparr>access_enabled := enabled\<rparr>\<rparr>))"

definition list_hosts :: "auth_config \<Rightarrow> disk \<Rightarrow> nat \<Rightarrow> auth_inner \<Rightarrow> (bool \<times> host_entry list) \<times> auth_inner" where
  "list_hosts cfg d g s =
     (let (access, s) = enter cfg d g s; l = (if access = Current then host_acl s else host_list_default)
      in ((access_enabled l, hosts l), s))"

section \<open>The requests\<close>

text \<open>
  ChangeHosts, SetAccessControl and ListHosts of a client that is connected: \<open>deny\<close> is what the access
  policies answer, an error code and value or nothing, \<open>is_local\<close> the client's locality. The outcome
  says what the client is sent.
\<close>

datatype request_outcome = Handled | XError u8 u32 | Replied "u8 list" | IoError

definition may_manage_access :: "bool \<Rightarrow> bool" where
  "may_manage_access is_local = is_local"

definition handle_change_hosts :: "auth_config \<Rightarrow> disk \<Rightarrow> name_resolver \<Rightarrow> (u8 \<times> u32) option \<Rightarrow> bool \<Rightarrow> nat \<Rightarrow> u8 \<Rightarrow> u8 list
    \<Rightarrow> auth_inner \<Rightarrow> request_outcome \<times> auth_inner" where
  "handle_change_hosts cfg d resolver deny is_local g mode body s =
     (if mode > 1 then (XError BAD_VALUE (ucast mode), s)
      else case deny of
        Some (code, value) \<Rightarrow> (XError code value, s)
      | None \<Rightarrow>
          if \<not> may_manage_access is_local then (XError BAD_ACCESS 0, s)
          else if length body < 4 then (XError BAD_LENGTH 0, s)
          else
            let family = body ! 0; len = u16_from_le_bytes (body ! 2) (body ! 3)
            in if length body < 4 + unat len then (XError BAD_LENGTH 0, s)
               else
                 (case change_hosts cfg d resolver g (mode = 0) family (take (unat len) (drop 4 body)) s of
                    (Inr _, s) \<Rightarrow> (Handled, s)
                  | (Inl (ChangeValue BadLengthValue), s) \<Rightarrow> (XError BAD_VALUE (ucast len), s)
                  | (Inl (ChangeValue BadFamilyValue), s) \<Rightarrow> (XError BAD_VALUE (ucast family), s)
                  | (Inl ChangeAccess, s) \<Rightarrow> (XError BAD_ACCESS 0, s)))"

definition handle_set_access_control :: "auth_config \<Rightarrow> disk \<Rightarrow> (u8 \<times> u32) option \<Rightarrow> bool \<Rightarrow> nat \<Rightarrow> u8
    \<Rightarrow> auth_inner \<Rightarrow> request_outcome \<times> auth_inner" where
  "handle_set_access_control cfg d deny is_local g mode s =
     (if mode > 1 then (XError BAD_VALUE (ucast mode), s)
      else case deny of
        Some (code, value) \<Rightarrow> (XError code value, s)
      | None \<Rightarrow>
          if \<not> may_manage_access is_local then (XError BAD_ACCESS 0, s)
          else
            (case set_access_enabled cfg d g (mode = 1) s of
               (Inr _, s) \<Rightarrow> (Handled, s)
             | (Inl _, s) \<Rightarrow> (XError BAD_ACCESS 0, s)))"

text \<open>\<open>write_list_hosts_reply\<close>: the bytes, or nothing for an I/O error.\<close>

definition write_list_hosts_reply :: "client_byte_order \<Rightarrow> u16 \<Rightarrow> bool \<Rightarrow> u16 \<Rightarrow> u8 list \<Rightarrow> u8 list option" where
  "write_list_hosts_reply bo seq enabled n_hosts entries =
     (if length entries mod 4 \<noteq> 0 then None
      else if length entries div 4 \<ge> 2 ^ 32 then None
      else let reply = fixed_reply bo seq (of_bool enabled) (of_nat (length entries div 4));
               reply = write_u16 bo reply n_hosts
           in Some (reply @ replicate 22 0 @ entries))"

definition handle_list_hosts :: "auth_config \<Rightarrow> disk \<Rightarrow> (u8 \<times> u32) option \<Rightarrow> client_byte_order \<Rightarrow> u16 \<Rightarrow> nat
    \<Rightarrow> auth_inner \<Rightarrow> request_outcome \<times> auth_inner" where
  "handle_list_hosts cfg d deny bo seq g s =
     (case deny of
        Some (code, value) \<Rightarrow> (XError code value, s)
      | None \<Rightarrow>
          let ((enabled, hs), s) = list_hosts cfg d g s; (n_hosts, entries) = encode_entries hs bo
          in (case write_list_hosts_reply bo seq enabled n_hosts entries of None \<Rightarrow> IoError | Some bytes \<Rightarrow> Replied bytes, s))"

end
