(* ===== verification/Auth_Machine.thy ===== *)
theory Auth_Machine
  imports Auth_State Machines
begin

text \<open>
  The authorization state over any sequence of setups, changes, reads and XDMCP actions, by
  clients of any generation. Two auxiliary components record the generation's history: the cookies
  its reloads of the file decoded, and the changes of the host list its clients made.
\<close>

section \<open>The machine\<close>

datatype acl_change = ListChange bool host_entry | AccessChange bool

record auth_machine =
  am_state :: auth_inner
  am_file :: "u8 list set"
  am_changes :: "acl_change list"

definition file_cookies :: "disk \<Rightarrow> u8 list set" where
  "file_cookies d = (case load_outcome_of (contents d) of Loaded cs \<Rightarrow> set cs | _ \<Rightarrow> {})"

text \<open>What entering a generation does to the record: a newer one starts afresh.\<close>

definition entered :: "auth_config \<Rightarrow> disk \<Rightarrow> nat \<Rightarrow> auth_machine \<Rightarrow> auth_machine" where
  "entered cfg d g m =
     (if g \<le> generation (am_state m) then m
      else m\<lparr>am_state := snd (enter cfg d g (am_state m)), am_file := if has_auth_file cfg then file_cookies d else {}, am_changes := []\<rparr>)"

definition reloaded :: "auth_config \<Rightarrow> disk \<Rightarrow> bool \<Rightarrow> auth_machine \<Rightarrow> auth_machine" where
  "reloaded cfg d force m =
     m\<lparr>am_state := reload_if_needed cfg d force (am_state m),
       am_file := am_file m \<union> (if force \<or> fst (should_reload (stat_mtime d) (last_mtime (am_state m))) then file_cookies d else {})\<rparr>"

definition after_admit :: "auth_config \<Rightarrow> disk \<Rightarrow> disk \<Rightarrow> nat \<Rightarrow> auth_machine \<Rightarrow> auth_machine" where
  "after_admit cfg d1 d2 g m =
     (if g < generation (am_state m) then m
      else if has_auth_file cfg then reloaded cfg d2 False (entered cfg d1 g m) else entered cfg d1 g m)"

inductive auth_step :: "auth_config \<Rightarrow> auth_machine \<Rightarrow> auth_machine \<Rightarrow> bool" for cfg where
  admit: "auth_step cfg m (after_admit cfg d1 d2 g m)"
| change_hosts: "change_hosts cfg d resolver g add family addr (am_state m) = (Inr (), s) \<Longrightarrow>
    auth_step cfg m ((entered cfg d g m)\<lparr>am_state := s,
      am_changes := am_changes (entered cfg d g m) @ [ListChange add \<lparr>he_family = family, he_addr = addr\<rparr>]\<rparr>)"
| set_access: "set_access_enabled cfg d g enabled (am_state m) = (Inr (), s) \<Longrightarrow>
    auth_step cfg m ((entered cfg d g m)\<lparr>am_state := s, am_changes := am_changes (entered cfg d g m) @ [AccessChange enabled]\<rparr>)"
| list_hosts: "auth_step cfg m (entered cfg d g m)"
| install: "auth_step cfg m (m\<lparr>am_state := snd (install_session_cookie g name data (am_state m))\<rparr>)"
| clear: "auth_step cfg m (m\<lparr>am_state := clear_session_cookie (am_state m)\<rparr>)"
| tcp_startup: "\<not> xdmcp cfg \<Longrightarrow> has_auth_file cfg \<Longrightarrow> auth_step cfg m (reloaded cfg d True m)"

definition auth_start :: "auth_config \<Rightarrow> auth_machine \<Rightarrow> bool" where
  "auth_start cfg m \<longleftrightarrow> m = \<lparr>am_state = build cfg, am_file = {}, am_changes = []\<rparr>"

text \<open>The record's state is the code's: what each operation returns is what the step leaves.\<close>

lemma enter_entered:
  "enter cfg d g (am_state m) = (if g < generation (am_state m) then Stale else Current, am_state (entered cfg d g m))"
  by (simp add: enter_def entered_def Let_def)

lemma admit_state: "snd (admit cfg d1 d2 own resolver peer g name data (am_state m)) = am_state (after_admit cfg d1 d2 g m)"
  by (simp add: admit_def after_admit_def reloaded_def enter_entered entered_def Let_def split: prod.split)

lemma list_hosts_state: "snd (list_hosts cfg d g (am_state m)) = am_state (entered cfg d g m)"
  by (simp add: list_hosts_def enter_entered Let_def)

lemma tcp_startup_state:
  "\<not> xdmcp cfg \<Longrightarrow> has_auth_file cfg \<Longrightarrow> snd (require_tcp_auth_at_startup cfg d (am_state m)) = am_state (reloaded cfg d True m)"
  by (simp add: require_tcp_auth_at_startup_def reloaded_def Let_def)

section \<open>The invariant\<close>

definition replay_change :: "host_list \<Rightarrow> acl_change \<Rightarrow> host_list" where
  "replay_change l c = (case c of ListChange add e \<Rightarrow> (if add then insert_host e else delete_host e) l | AccessChange b \<Rightarrow> l\<lparr>access_enabled := b\<rparr>)"

definition replay :: "acl_change list \<Rightarrow> host_list" where
  "replay cs = foldl replay_change host_list_default cs"

text \<open>The last change of \<open>FamilyLocalHost\<close> of the generation was an insertion.\<close>

definition opened_by :: "acl_change list \<Rightarrow> bool" where
  "opened_by cs = foldl (\<lambda>b c. case c of ListChange add e \<Rightarrow> if he_family e = FAMILY_LOCAL_HOST then add else b | AccessChange _ \<Rightarrow> b) False cs"

definition credential_ids :: "auth_inner \<Rightarrow> nat list" where
  "credential_ids s = map fst (cookies s) @ (case session s of None \<Rightarrow> [] | Some c \<Rightarrow> [sc_credential c])"

definition ids_ok :: "auth_inner \<Rightarrow> bool" where
  "ids_ok s \<longleftrightarrow> distinct (credential_ids s) \<and> (\<forall>i \<in> set (credential_ids s). i < next_credential_id s)"

definition auth_inv :: "auth_config \<Rightarrow> auth_machine \<Rightarrow> bool" where
  "auth_inv cfg m \<longleftrightarrow>
     snd ` set (cookies (am_state m)) \<subseteq> am_file m
     \<and> host_acl (am_state m) = replay (am_changes m)
     \<and> (xdmcp cfg \<and> local_open (am_state m) \<longrightarrow> opened_by (am_changes m))
     \<and> (\<forall>c. session (am_state m) = Some c \<longrightarrow> sc_cookie c \<noteq> [])
     \<and> (\<not> has_auth_file cfg \<longrightarrow> am_file m = {})
     \<and> ids_ok (am_state m)"

lemma add_cookie_frame [simp]:
  "local_open (add_cookie c s) = local_open s" "host_acl (add_cookie c s) = host_acl s" "session (add_cookie c s) = session s"
  "last_mtime (add_cookie c s) = last_mtime s" "ever_loaded (add_cookie c s) = ever_loaded s" "generation (add_cookie c s) = generation s"
  "snd ` set (cookies (add_cookie c s)) = insert c (snd ` set (cookies s))"
  by (auto simp: add_cookie_def allocate_credential_id_def Let_def)

lemma add_cookie_ids: "ids_ok s \<Longrightarrow> ids_ok (add_cookie c s)"
  by (cases "session s")
    (fastforce simp: add_cookie_def allocate_credential_id_def ids_ok_def credential_ids_def less_Suc_eq)+

lemma fold_add_cookie [simp]:
  "local_open (fold add_cookie cs s) = local_open s" "host_acl (fold add_cookie cs s) = host_acl s" "session (fold add_cookie cs s) = session s"
  "last_mtime (fold add_cookie cs s) = last_mtime s" "ever_loaded (fold add_cookie cs s) = ever_loaded s" "generation (fold add_cookie cs s) = generation s"
  "snd ` set (cookies (fold add_cookie cs s)) = set cs \<union> snd ` set (cookies s)"
  by (induction cs arbitrary: s) auto

lemma fold_add_cookie_ids: "ids_ok s \<Longrightarrow> ids_ok (fold add_cookie cs s)"
  by (induction cs arbitrary: s) (simp_all add: add_cookie_ids)

lemma ids_ok_frame [simp]:
  "ids_ok (s\<lparr>local_open := b\<rparr>) = ids_ok s" "ids_ok (s\<lparr>host_acl := l\<rparr>) = ids_ok s" "ids_ok (s\<lparr>last_mtime := t\<rparr>) = ids_ok s"
  "ids_ok (s\<lparr>ever_loaded := e\<rparr>) = ids_ok s" "ids_ok (s\<lparr>generation := g\<rparr>) = ids_ok s"
  by (simp_all add: ids_ok_def credential_ids_def)

lemma ids_ok_clear: "ids_ok s \<Longrightarrow> ids_ok (s\<lparr>cookies := []\<rparr>)" "ids_ok s \<Longrightarrow> ids_ok (s\<lparr>session := None\<rparr>)"
  by (auto simp: ids_ok_def credential_ids_def)

text \<open>What a load leaves alone, and what it may do.\<close>

lemma load_facts:
  fixes s cfg d
  defines "s' \<equiv> apply_load_outcome (xdmcp cfg) (load_outcome_of (contents d)) s"
  shows "snd ` set (cookies s') = snd ` set (cookies s) \<union> file_cookies d" "host_acl s' = host_acl s" "session s' = session s"
    "generation s' = generation s" "xdmcp cfg \<Longrightarrow> local_open s' \<Longrightarrow> local_open s"
    "local_open s' \<Longrightarrow> \<not> local_open s \<Longrightarrow> file_cookies d = {}" "ids_ok s \<Longrightarrow> ids_ok s'"
  unfolding s'_def by (auto simp: apply_load_outcome_def file_cookies_def fold_add_cookie_ids split: load_outcome.splits if_splits)

lemma reload_facts:
  fixes s cfg d force
  defines "s' \<equiv> reload_if_needed cfg d force s"
  shows "snd ` set (cookies s') = snd ` set (cookies s) \<union>
      (if force \<or> fst (should_reload (stat_mtime d) (last_mtime s)) then file_cookies d else {})"
    "host_acl s' = host_acl s" "session s' = session s" "generation s' = generation s"
    "xdmcp cfg \<Longrightarrow> local_open s' \<Longrightarrow> local_open s" "local_open s' \<Longrightarrow> \<not> local_open s \<Longrightarrow> file_cookies d = {}"
    "ids_ok s \<Longrightarrow> ids_ok s'"
proof -
  define t where "t = s\<lparr>last_mtime := snd (should_reload (stat_mtime d) (last_mtime s))\<rparr>"
  let ?run = "force \<or> fst (should_reload (stat_mtime d) (last_mtime s))"
  have s': "s' = (if ?run then apply_load_outcome (xdmcp cfg) (load_outcome_of (contents d)) t else t)"
    by (auto simp: s'_def t_def reload_if_needed_def Let_def case_prod_beta)
  have t: "cookies t = cookies s" "host_acl t = host_acl s" "session t = session s" "generation t = generation s"
    "local_open t = local_open s" "ids_ok t = ids_ok s" by (simp_all add: t_def)
  note facts = load_facts [where cfg = cfg and d = d and s = t]
  show "snd ` set (cookies s') = snd ` set (cookies s) \<union> (if ?run then file_cookies d else {})"
    "host_acl s' = host_acl s" "session s' = session s" "generation s' = generation s"
    using facts(1-4) t(1-4) by (simp_all add: s')
  show "xdmcp cfg \<Longrightarrow> local_open s' \<Longrightarrow> local_open s" "local_open s' \<Longrightarrow> \<not> local_open s \<Longrightarrow> file_cookies d = {}"
    "ids_ok s \<Longrightarrow> ids_ok s'"
    using facts(5-7) t(5,6) by (simp_all add: s' split: if_splits)
qed

section \<open>Preservation\<close>

lemma inv_reloaded: "auth_inv cfg m \<Longrightarrow> has_auth_file cfg \<Longrightarrow> auth_inv cfg (reloaded cfg d force m)"
  using reload_facts [where cfg = cfg and d = d and s = "am_state m" and force = force]
  by (auto simp: auth_inv_def reloaded_def)

text \<open>A newer generation, whatever came before: nothing of the old one is left.\<close>

lemma entered_newer:
  assumes "generation (am_state m) < g"
  shows "am_changes (entered cfg d g m) = []" "host_acl (am_state (entered cfg d g m)) = host_list_default"
    "snd ` set (cookies (am_state (entered cfg d g m))) = (if has_auth_file cfg then file_cookies d else {})"
    "local_open (am_state (entered cfg d g m)) \<Longrightarrow> \<not> xdmcp cfg \<and> (has_auth_file cfg \<longrightarrow> file_cookies d = {})"
    "session (am_state (entered cfg d g m)) = session (am_state m)" "generation (am_state (entered cfg d g m)) = g"
    "ids_ok (am_state m) \<Longrightarrow> ids_ok (am_state (entered cfg d g m))"
proof -
  let ?s = "(am_state m)\<lparr>local_open := False, host_acl := host_list_default, cookies := []\<rparr>"
  note facts = reload_facts [where cfg = cfg and d = d and s = ?s and force = True]
  show "am_changes (entered cfg d g m) = []" "host_acl (am_state (entered cfg d g m)) = host_list_default"
    "snd ` set (cookies (am_state (entered cfg d g m))) = (if has_auth_file cfg then file_cookies d else {})"
    "session (am_state (entered cfg d g m)) = session (am_state m)" "generation (am_state (entered cfg d g m)) = g"
    using assms facts(1-4) by (auto simp: entered_def enter_def Let_def apply_load_outcome_def)
  show "local_open (am_state (entered cfg d g m)) \<Longrightarrow> \<not> xdmcp cfg \<and> (has_auth_file cfg \<longrightarrow> file_cookies d = {})"
    using assms facts(5,6) by (auto simp: entered_def enter_def Let_def apply_load_outcome_def split: if_splits)
  have "ids_ok (am_state m) \<Longrightarrow> ids_ok ?s \<and> ids_ok ((am_state m)\<lparr>host_acl := host_list_default, cookies := []\<rparr>)"
    by (auto simp: ids_ok_def credential_ids_def)
  then show "ids_ok (am_state m) \<Longrightarrow> ids_ok (am_state (entered cfg d g m))"
    using assms facts(7) by (auto simp: entered_def enter_def Let_def apply_load_outcome_def)
qed

lemma entered_older: "g \<le> generation (am_state m) \<Longrightarrow> entered cfg d g m = m"
  by (simp add: entered_def)

lemma inv_entered:
  assumes "auth_inv cfg m"
  shows "auth_inv cfg (entered cfg d g m)"
proof (cases "g \<le> generation (am_state m)")
  case False
  then have newer: "generation (am_state m) < g" by simp
  have "am_file (entered cfg d g m) = (if has_auth_file cfg then file_cookies d else {})" using False by (simp add: entered_def)
  then show ?thesis using assms entered_newer [OF newer, where cfg = cfg and d = d]
    unfolding auth_inv_def by (auto simp: replay_def)
qed (use assms in \<open>simp add: entered_older\<close>)

lemma replay_snoc: "replay (cs @ [c]) = replay_change (replay cs) c"
  by (simp add: replay_def)

lemma opened_snoc:
  "opened_by (cs @ [ListChange add e]) = (if he_family e = FAMILY_LOCAL_HOST then add else opened_by cs)"
  "opened_by (cs @ [AccessChange b]) = opened_by cs"
  by (simp_all add: opened_by_def)

lemma inv_change_hosts:
  assumes inv: "auth_inv cfg m" and res: "change_hosts cfg d resolver g add family addr (am_state m) = (Inr (), s)"
  shows "auth_inv cfg ((entered cfg d g m)\<lparr>am_state := s,
      am_changes := am_changes (entered cfg d g m) @ [ListChange add \<lparr>he_family = family, he_addr = addr\<rparr>]\<rparr>)"
proof -
  let ?e = "\<lparr>he_family = family, he_addr = addr\<rparr>" and ?m = "entered cfg d g m"
  let ?s = "if family = FAMILY_LOCAL_HOST then (am_state ?m)\<lparr>local_open := add\<rparr> else am_state ?m"
  have "s = ?s\<lparr>host_acl := (if add then insert_host ?e else delete_host ?e) (host_acl ?s)\<rparr>"
    using res by (auto simp: change_hosts_def enter_entered Let_def split: sum.splits if_splits)
  then show ?thesis using inv_entered [OF inv, of d g]
    by (simp add: auth_inv_def replay_snoc replay_change_def opened_snoc)
qed

lemma inv_set_access:
  assumes inv: "auth_inv cfg m" and res: "set_access_enabled cfg d g enabled (am_state m) = (Inr (), s)"
  shows "auth_inv cfg ((entered cfg d g m)\<lparr>am_state := s, am_changes := am_changes (entered cfg d g m) @ [AccessChange enabled]\<rparr>)"
proof -
  let ?s = "am_state (entered cfg d g m)"
  have "s = ?s\<lparr>host_acl := (host_acl ?s)\<lparr>access_enabled := enabled\<rparr>\<rparr>"
    using res by (auto simp: set_access_enabled_def enter_entered Let_def split: if_splits)
  then show ?thesis using inv_entered [OF inv, of d g]
    by (simp add: auth_inv_def replay_snoc replay_change_def opened_snoc)
qed

lemma inv_install:
  assumes "auth_inv cfg m"
  shows "auth_inv cfg (m\<lparr>am_state := snd (install_session_cookie g name data (am_state m))\<rparr>)"
proof -
  let ?s = "snd (install_session_cookie g name data (am_state m))"
  have "ids_ok (am_state m) \<Longrightarrow> ids_ok ?s"
    by (cases "session (am_state m)")
      (fastforce simp: install_session_cookie_def allocate_credential_id_def ids_ok_def credential_ids_def less_Suc_eq)+
  then show ?thesis using assms
    by (auto simp: auth_inv_def install_session_cookie_def allocate_credential_id_def Let_def split: if_splits)
qed

lemma inv_clear: "auth_inv cfg m \<Longrightarrow> auth_inv cfg (m\<lparr>am_state := clear_session_cookie (am_state m)\<rparr>)"
  by (auto simp: auth_inv_def clear_session_cookie_def ids_ok_clear)

lemma inv_admit: "auth_inv cfg m \<Longrightarrow> auth_inv cfg (after_admit cfg d1 d2 g m)"
  by (simp add: after_admit_def inv_entered inv_reloaded)

lemma inv_start: "auth_start cfg m \<Longrightarrow> auth_inv cfg m"
  by (simp add: auth_start_def auth_inv_def build_def replay_def ids_ok_def credential_ids_def)

lemma inv_step: "auth_inv cfg m \<Longrightarrow> auth_step cfg m m' \<Longrightarrow> auth_inv cfg m'"
  by (erule auth_step.cases)
    (auto simp: inv_admit inv_change_hosts inv_set_access inv_entered inv_install inv_clear inv_reloaded)

interpretation auth: invariant_machine "auth_start cfg" "auth_step cfg" "auth_inv cfg"
  by unfold_locales (auto intro: inv_start inv_step)

end
