(* ===== verification/Auth_Props.thy ===== *)
theory Auth_Props
  imports Auth_Machine
begin

text \<open>The properties of the access control, with a small file and peer that witness them.\<close>

section \<open>Cookies\<close>

lemma fold_or_zero:
  "fold (\<lambda>(x, y) diff. diff OR (x XOR y)) ps acc = 0 \<longleftrightarrow> acc = 0 \<and> (\<forall>(x, y) \<in> set ps. x = y)" for acc :: u8
proof (induction ps arbitrary: acc)
  case (Cons p ps)
  have "acc OR (a XOR b) = 0 \<longleftrightarrow> acc = 0 \<and> a = b" for a b :: u8
  proof
    assume z: "acc OR (a XOR b) = 0"
    have "acc = 0" by (rule bit_word_eqI) (use arg_cong [OF z, of "\<lambda>w. bit w _"] in \<open>simp add: bit_or_iff\<close>)
    moreover have "a = b"
      by (rule bit_word_eqI) (use arg_cong [OF z, of "\<lambda>w. bit w _"] in \<open>simp add: bit_or_iff bit_xor_iff\<close>)
    ultimately show "acc = 0 \<and> a = b" ..
  qed simp
  then show ?case using Cons by (cases p) auto
qed simp

lemma ct_eq_iff: "ct_eq a b \<longleftrightarrow> a = b"
proof
  assume "ct_eq a b"
  then have len: "length a = length b" and eq: "\<forall>(x, y) \<in> set (zip a b). x = y"
    by (auto simp: ct_eq_def fold_or_zero)
  then show "a = b" by (induction a b rule: list_induct2) auto
qed (auto simp: ct_eq_def fold_or_zero in_set_zip)





section \<open>The properties\<close>


text \<open>A file with one cookie, a Unix peer, and the state after a client of generation 1 was seen.\<close>

definition sample_config :: auth_config where
  "sample_config = \<lparr>has_auth_file = True, xdmcp = False, tcp_listen = False\<rparr>"

definition sample_file :: "u8 list" where
  "sample_file = [1, 0, 0, 0, 0, 1, 0x30, 0, 18] @ MIT_MAGIC_COOKIE @ [0, 2, 0xAB, 0xCD]"

definition sample_disk :: disk where
  "sample_disk = \<lparr>stat_mtime = Some 7, contents = Some sample_file\<rparr>"

definition sample_peer :: peer_identity where
  "sample_peer = \<lparr>transport = Unix, peer_addr = None, peer_cred_of = Some \<lparr>pc_uid = 1000, pc_gid = 100, pc_pid = None\<rparr>\<rparr>"

definition no_resolver :: name_resolver where
  "no_resolver = \<lparr>resolve_uid = (\<lambda>_. None), resolve_gid = (\<lambda>_. None), is_ipv6_literal = (\<lambda>_. False)\<rparr>"

definition sample_auth :: auth_machine where
  "sample_auth = \<lparr>am_state = build sample_config, am_file = {}, am_changes = []\<rparr>"

lemmas sample_auth_defs = sample_config_def sample_disk_def sample_peer_def no_resolver_def sample_auth_def

lemma sample_auth_reachable: "reachable (auth_start sample_config) (auth_step sample_config) sample_auth"
  by (rule reachable.initial) (simp add: auth_start_def sample_auth_def)




section \<open>Generations\<close>


lemma reloaded_generation [simp]: "generation (am_state (reloaded cfg d force m)) = generation (am_state m)"
  by (simp add: reloaded_def reload_facts(4))

lemma install_generation [simp]: "generation (snd (install_session_cookie g name data s)) = generation s"
  by (simp add: install_session_cookie_def allocate_credential_id_def Let_def)










section \<open>The requests that change it\<close>

lemma replay_distinct: "distinct (hosts (replay cs))"
proof (induction cs rule: rev_induct)
  case (snoc c cs)
  then show ?case
    by (auto simp: replay_snoc replay_change_def insert_host_def delete_host_def distinct_remove1 split: acl_change.split)
qed (simp add: replay_def host_list_default_def)

definition body_family :: "u8 list \<Rightarrow> u8" where "body_family body = body ! 0"
definition body_length :: "u8 list \<Rightarrow> nat" where "body_length body = unat (u16_from_le_bytes (body ! 2) (body ! 3))"
definition body_address :: "u8 list \<Rightarrow> u8 list" where "body_address body = take (body_length body) (drop 4 body)"

text \<open>When a ChangeHosts may take effect.\<close>

definition may_change :: "name_resolver \<Rightarrow> (u8 \<times> u32) option \<Rightarrow> bool \<Rightarrow> nat \<Rightarrow> u8 \<Rightarrow> u8 list \<Rightarrow> auth_inner \<Rightarrow> bool" where
  "may_change resolver deny is_local g mode body s \<longleftrightarrow>
     mode \<le> 1 \<and> deny = None \<and> is_local \<and> 4 \<le> length body \<and> 4 + body_length body \<le> length body \<and> generation s \<le> g
     \<and> (body_family body = FAMILY_LOCAL_HOST \<or> check_addr (body_family body) (body_address body) resolver = Inr ())"

lemma change_hosts_result:
  "change_hosts cfg d resolver g add family addr s =
     (if family \<noteq> FAMILY_LOCAL_HOST \<and> (\<exists>e. check_addr family addr resolver = Inl e)
      then (Inl (ChangeValue (projl (check_addr family addr resolver))), s)
      else if g < generation s then (Inl ChangeAccess, s)
      else (Inr (), (let s' = snd (enter cfg d g s) in
        s'\<lparr>local_open := (if family = FAMILY_LOCAL_HOST then add else local_open s'),
           host_acl := (if add then insert_host else delete_host) \<lparr>he_family = family, he_addr = addr\<rparr> (host_acl s')\<rparr>)))"
  by (cases "check_addr family addr resolver")
    (auto simp: change_hosts_def enter_def Let_def)

lemma check_addr_ok: "check_addr family addr resolver = Inr () \<longleftrightarrow> \<not> (\<exists>e. check_addr family addr resolver = Inl e)"
  by (cases "check_addr family addr resolver") auto

text \<open>
  C38. Who may change the host list. In every reachable state, ChangeHosts is carried out exactly when
  its mode is 0 or 1, no policy denies it, the client is local and of the current or a newer
  generation, the body is as long as it says, and the address is a valid one of its family;
  afterwards the entry is in the list exactly if the mode was insertion, every other entry that the
  generation had is untouched, and an entry of \<open>FamilyLocalHost\<close> opens or closes local access. In
  every other case the client gets an error and the state stays as it is.
\<close>

theorem change_requests_guarded:
  assumes "reachable (auth_start cfg) (auth_step cfg) m"
    and "handle_change_hosts cfg d resolver deny is_local g mode body (am_state m) = (outcome, s)"
    and "entry = \<lparr>he_family = body_family body, he_addr = body_address body\<rparr>"
    and "s' = am_state (entered cfg d g m)"
  shows "if may_change resolver deny is_local g mode body (am_state m)
    then outcome = Handled \<and> (entry \<in> set (hosts (host_acl s))) = (mode = 0)
      \<and> set (hosts (host_acl s)) - {entry} = set (hosts (host_acl s')) - {entry}
      \<and> access_enabled (host_acl s) = access_enabled (host_acl s')
      \<and> local_open s = (if he_family entry = FAMILY_LOCAL_HOST then mode = 0 else local_open s')
    else s = am_state m \<and> (\<exists>code value. outcome = XError code value)"
proof -
  have inv: "auth_inv cfg (entered cfg d g m)" by (rule inv_entered [OF auth.reachable_inv [OF assms(1)]])
  then have dist: "distinct (hosts (host_acl s'))" using replay_distinct by (simp add: auth_inv_def assms(4))
  have res: "(outcome, s) = handle_change_hosts cfg d resolver deny is_local g mode body (am_state m)" using assms(2) by simp
  note defs = may_change_def handle_change_hosts_def may_manage_access_def body_family_def body_length_def body_address_def
  show ?thesis
  proof (cases "may_change resolver deny is_local g mode body (am_state m)")
    case True
    have "(outcome, s) = (Handled, s'\<lparr>local_open := (if he_family entry = FAMILY_LOCAL_HOST then mode = 0 else local_open s'),
        host_acl := (if mode = 0 then insert_host entry else delete_host entry) (host_acl s')\<rparr>)"
      using res True unfolding assms(3,4)
      by (auto simp: defs change_hosts_result enter_entered Let_def check_addr_ok not_less)
    then show ?thesis using True dist by (auto simp: insert_host_def delete_host_def)
  next
    case False
    then show ?thesis using res
      by (auto simp: defs change_hosts_result Let_def check_addr_ok not_less split: option.splits bad_value.splits if_splits)
  qed
qed

lemma sample_change:
  "handle_change_hosts sample_config sample_disk no_resolver None True 0 0 [252, 0, 0, 0] (am_state sample_auth)
     = (Handled, (am_state sample_auth)\<lparr>local_open := True, host_acl := \<lparr>access_enabled = True, hosts = [\<lparr>he_family = 252, he_addr = []\<rparr>]\<rparr>\<rparr>)"
  by (simp add: handle_change_hosts_def may_manage_access_def change_hosts_result family_defs enter_def sample_auth_defs build_def
      host_list_default_def insert_host_def u16_from_le_bytes_def u16_from_be_bytes_def Let_def)

theorem change_requests_guarded_witness:
  "may_change no_resolver None True 0 0 [252, 0, 0, 0] (am_state sample_auth)
     \<and> local_open (snd (handle_change_hosts sample_config sample_disk no_resolver None True 0 0 [252, 0, 0, 0] (am_state sample_auth)))"
proof -
  have ok: "may_change no_resolver None True 0 0 [252, 0, 0, 0] (am_state sample_auth)"
    by (simp add: may_change_def body_length_def body_family_def u16_from_le_bytes_def u16_from_be_bytes_def sample_auth_defs build_def FAMILY_LOCAL_HOST_def)
  then show ?thesis
    using change_requests_guarded [OF sample_auth_reachable sample_change refl refl]
    by (simp add: sample_change body_family_def FAMILY_LOCAL_HOST_def)
qed

section \<open>An empty cookie in the file\<close>

text \<open>
  A record with the cookie's name and no data is loaded like any other, and then a client that
  presents the name and an empty cookie is admitted, over TCP as well.
\<close>

definition empty_cookie_disk :: disk where
  "empty_cookie_disk = \<lparr>stat_mtime = Some 7, contents = Some ([1, 0, 0, 0, 0, 1, 0x30, 0, 18] @ MIT_MAGIC_COOKIE @ [0, 0])\<rparr>"

lemma empty_file_cookie_admits:
  "fst (admit (sample_config\<lparr>tcp_listen := True\<rparr>) empty_cookie_disk empty_cookie_disk [] no_resolver
     \<lparr>transport = Tcp, peer_addr = None, peer_cred_of = None\<rparr> 0 MIT_MAGIC_COOKIE [] (am_state sample_auth)) = Inr (Cookie 1 FileCookie)"
proof -
  have "load_outcome_of (contents empty_cookie_disk) = Loaded [[]]"
    by (simp add: load_outcome_of_def empty_cookie_disk_def MIT_MAGIC_COOKIE_def ascii_def parse_records.simps parse_record_def
      read_field_def u16_from_be_bytes_def)
  then show ?thesis
    by (simp add: admit_def enter_def build_def sample_auth_defs empty_cookie_disk_def reload_if_needed_def
        should_reload_def apply_load_outcome_def add_cookie_def allocate_credential_id_def
        cookie_match_def session_authorizes_def ct_eq_iff)
qed

end
