(* ===== verification/Host_Ids.thy ===== *)
theory Host_Ids
  imports Auth_State
begin

text \<open>
  Numeric user and group ids of the host access list: the decimal form of a number is read back
  as that number, whatever the resolver. And the listing of the entries: its decoder.
\<close>

section \<open>Decimal numbers\<close>

fun decimal :: "nat \<Rightarrow> u8 list" where
  "decimal n = (if n < 10 then [of_nat (0x30 + n)] else decimal (n div 10) @ [of_nat (0x30 + n mod 10)])"

declare decimal.simps [simp del]

definition is_decimal_digit :: "u8 \<Rightarrow> bool" where
  "is_decimal_digit c \<longleftrightarrow> 0x30 \<le> c \<and> c \<le> 0x39"

lemma digit_char:
  assumes "d < 10"
  shows "is_decimal_digit (of_nat (0x30 + d))" "to_digit 10 (of_nat (0x30 + d)) = Some d"
    "0 < d \<Longrightarrow> (of_nat (0x30 + d) :: u8) \<noteq> 0x30"
proof -
  have u: "unat (of_nat (0x30 + d) :: u8) = 0x30 + d" using assms by (simp add: unat_of_nat del: of_nat_add)
  show digit: "is_decimal_digit (of_nat (0x30 + d))"
    using assms u by (simp add: is_decimal_digit_def word_le_nat_alt del: of_nat_add)
  then show "to_digit 10 (of_nat (0x30 + d)) = Some d"
    using assms u by (simp add: to_digit_def is_decimal_digit_def del: of_nat_add)
  show "0 < d \<Longrightarrow> (of_nat (0x30 + d) :: u8) \<noteq> 0x30"
    using u by (auto simp: word_unat_eq_iff simp del: of_nat_add)
qed

lemma decimal_digits: "c \<in> set (decimal n) \<Longrightarrow> is_decimal_digit c"
proof (induction n arbitrary: c rule: less_induct)
  case (less n)
  show ?case
  proof (cases "n < 10")
    case True
    then show ?thesis using less.prems digit_char(1) [of n] by (simp add: decimal.simps del: of_nat_add)
  next
    case False
    then have "c \<in> set (decimal (n div 10)) \<or> c = of_nat (0x30 + n mod 10)"
      using less.prems by (auto simp: decimal.simps [of n] simp del: of_nat_add)
    then show ?thesis using False less.IH [of "n div 10" c] digit_char(1) [of "n mod 10"] by auto
  qed
qed

lemma decimal_nonempty: "decimal n \<noteq> []"
  by (simp add: decimal.simps)

lemma decimal_hd: "0 < n \<Longrightarrow> hd (decimal n) \<noteq> 0x30"
proof (induction n rule: less_induct)
  case (less n)
  show ?case
  proof (cases "n < 10")
    case True
    then show ?thesis using less.prems digit_char(3) [of n] by (simp add: decimal.simps del: of_nat_add)
  next
    case False
    then have "0 < n div 10" "n div 10 < n" by simp_all
    then have "hd (decimal (n div 10)) \<noteq> 0x30" by (rule less.IH [rotated])
    then show ?thesis using False decimal_nonempty [of "n div 10"] by (subst decimal.simps) simp
  qed
qed

lemma strtol_digits_append:
  "\<forall>c \<in> set xs. to_digit radix c \<noteq> None \<Longrightarrow> strtol_digits radix (xs @ ys) r = strtol_digits radix ys (strtol_digits radix xs r)"
proof (induction xs arbitrary: r)
  case (Cons x xs)
  then show ?case by (cases r) (auto simp: Let_def)
qed simp

lemma decimal_to_digit: "c \<in> set (decimal n) \<Longrightarrow> to_digit 10 c \<noteq> None"
proof -
  assume "c \<in> set (decimal n)"
  then have "0x30 \<le> c" "c \<le> 0x39" using decimal_digits by (auto simp: is_decimal_digit_def)
  then show ?thesis by (auto simp: to_digit_def word_le_nat_alt)
qed

lemma strtol_decimal: "n < 2 ^ 64 \<Longrightarrow> strtol_digits 10 (decimal n) (0, False, 0) = (n, False, length (decimal n))"
proof (induction n rule: less_induct)
  case (less n)
  show ?case
  proof (cases "n < 10")
    case True
    then show ?thesis using digit_char(2) [of n] by (simp add: decimal.simps del: of_nat_add)
  next
    case False
    have IH: "strtol_digits 10 (decimal (n div 10)) (0, False, 0) = (n div 10, False, length (decimal (n div 10)))"
      by (rule less.IH) (use False less.prems in simp_all)
    have "n div 10 * 10 + n mod 10 = n" by simp
    then show ?thesis
      using False less.prems decimal_to_digit [of _ "n div 10"] digit_char(2) [of "n mod 10"]
      by (simp add: decimal.simps [of n] strtol_digits_append IH Let_def del: of_nat_add)
  qed
qed

lemma strtol_number:
  assumes "n < 2 ^ 63"
  shows "strtol_base0 (decimal n) = Some (int n)"
proof -
  obtain c cs where cs: "decimal n = c # cs" using decimal_nonempty by (cases "decimal n") auto
  then have digit: "0x30 \<le> c" "c \<le> 0x39" using decimal_digits [of c n] by (auto simp: is_decimal_digit_def)
  then have plain: "\<not> is_space c" "c \<noteq> 0x2D" "c \<noteq> 0x2B" by (auto simp: is_space_def word_le_nat_alt)
  have "in_i64 (int n)" using assms by (simp add: in_i64_def)
  show ?thesis
  proof (cases "n = 0")
    case True
    have "to_digit 8 0x30 = Some 0" by (simp add: to_digit_def)
    then show ?thesis using True by (simp add: strtol_base0_def decimal.simps is_space_def in_i64_def Let_def)
  next
    case False
    then have "c \<noteq> 0x30" using decimal_hd [of n] cs by simp
    moreover have "strtol_digits 10 (c # cs) (0, False, 0) = (n, False, Suc (length cs))"
      using strtol_decimal [of n] assms cs by simp
    moreover have "(case cs of x # h # rest \<Rightarrow>
          if c = 0x30 then (if (x = 0x78 \<or> x = 0x58) \<and> to_digit 16 h \<noteq> None then (16, h # rest) else (8, c # cs)) else (10, c # cs)
        | _ \<Rightarrow> if c = 0x30 then (8, c # cs) else (10, c # cs)) = (10 :: nat, c # cs)"
      using \<open>c \<noteq> 0x30\<close> by (simp split: list.split)
    ultimately show ?thesis using plain \<open>in_i64 (int n)\<close>
      by (cases cs rule: remdups_adj.cases) (simp_all add: strtol_base0_def cs Let_def del: strtol_digits.simps)
  qed
qed

text \<open>The server-interpreted addresses \<open>localuser\<close> and \<open>localgroup\<close> of a numeric id.\<close>

definition numeric_entry :: "cred_kind \<Rightarrow> nat \<Rightarrow> host_entry" where
  "numeric_entry kind n = \<lparr>he_family = FAMILY_SERVER_INTERPRETED,
     he_addr = ascii (case kind of User \<Rightarrow> ''localuser'' | Group \<Rightarrow> ''localgroup'') @ [0, 0x23] @ decimal n\<rparr>"

lemma decimal_not_nul: "c \<in> set (decimal n) \<Longrightarrow> c \<noteq> 0"
  using decimal_digits [of c n] by (auto simp: is_decimal_digit_def)

lemma numeric_parse:
  "si_parse (he_addr (numeric_entry kind n))
     = Some \<lparr>si_kind = (case kind of User \<Rightarrow> LocalUser | Group \<Rightarrow> LocalGroup), si_value = 0x23 # decimal n\<rparr>"
  by (cases kind) (simp_all add: numeric_entry_def si_parse_def ascii_def Let_def)

lemma numeric_id:
  assumes "n < 2 ^ 63"
  shows "parse_cred_id (0x23 # decimal n) kind resolver = Some (int n)"
proof -
  have "before_nul (0x23 # decimal n) = 0x23 # decimal n"
    using decimal_not_nul by (auto simp: before_nul_def intro!: takeWhile_eq_all_conv [THEN iffD2])
  then show ?thesis using strtol_number [OF assms] by (simp add: parse_cred_id_def Let_def)
qed

lemma uint_is: "int n = uint w \<longleftrightarrow> unat w = n"
  by (metis int_nat_eq unat_eq_nat_uint nat_int uint_ge_0)

section \<open>Decoding a listing\<close>

definition decode_entry :: "client_byte_order \<Rightarrow> u8 list \<Rightarrow> (host_entry \<times> u8 list) option" where
  "decode_entry bo bs =
     (if length bs < 4 then None
      else let n = unat (read_u16 bo (drop 2 bs)); size = 4 + next_multiple_of_4 n
           in if length bs < size then None
              else Some (\<lparr>he_family = bs ! 0, he_addr = take n (drop 4 bs)\<rparr>, drop size bs))"

fun decode_entries :: "client_byte_order \<Rightarrow> nat \<Rightarrow> u8 list \<Rightarrow> (host_entry list \<times> u8 list) option" where
  "decode_entries bo 0 bs = Some ([], bs)"
| "decode_entries bo (Suc k) bs =
     (case decode_entry bo bs of
        None \<Rightarrow> None
      | Some (h, rest) \<Rightarrow> map_option (\<lambda>(hs, rest). (h # hs, rest)) (decode_entries bo k rest))"

lemma next_multiple: "n \<le> next_multiple_of_4 n" "next_multiple_of_4 n \<le> n + 3" "next_multiple_of_4 n mod 4 = 0"
  by (simp_all add: next_multiple_of_4_def)

lemma length_encode_entry: "length (encode_entry bo h) = 4 + next_multiple_of_4 (length (he_addr h))"
  using next_multiple(1) [of "length (he_addr h)"] by (simp add: encode_entry_def)

lemma decode_encode_entry:
  assumes "length (he_addr h) \<le> 65535"
  shows "decode_entry bo (encode_entry bo h @ rest) = Some (h, rest)"
proof -
  let ?n = "length (he_addr h)"
  have u: "unat (of_nat ?n :: u16) = ?n" using assms by (simp add: unat_of_nat)
  let ?tail = "he_addr h @ replicate (next_multiple_of_4 ?n - ?n) 0 @ rest"
  have enc: "encode_entry bo h @ rest = [he_family h, 0] @ write_u16 bo [] (of_nat ?n) @ ?tail"
    using assms write_prefix(1) [of bo "[he_family h, 0]"] by (simp add: encode_entry_def)
  have "read_u16 bo (drop 2 (encode_entry bo h @ rest)) = of_nat ?n" unfolding enc by simp
  moreover have "drop 4 (encode_entry bo h @ rest) = ?tail" unfolding enc by simp
  moreover have "(encode_entry bo h @ rest) ! 0 = he_family h" unfolding enc by simp
  moreover have "drop (4 + next_multiple_of_4 ?n) (encode_entry bo h @ rest) = rest"
    by (simp add: length_encode_entry)
  ultimately show ?thesis using u by (simp add: decode_entry_def length_encode_entry Let_def)
qed

lemma decode_encode_entries:
  "\<forall>h \<in> set hs. length (he_addr h) \<le> 65535 \<Longrightarrow>
     decode_entries bo (length hs) (concat (map (encode_entry bo) hs) @ rest) = Some (hs, rest)"
  by (induction hs) (simp_all add: decode_encode_entry)

definition listed_bytes :: "host_entry list \<Rightarrow> nat" where
  "listed_bytes hs = (\<Sum>h \<leftarrow> hs. 4 + next_multiple_of_4 (length (he_addr h)))"

lemma length_encoded: "length (concat (map (encode_entry bo) hs)) = listed_bytes hs"
  by (induction hs) (simp_all add: listed_bytes_def length_encode_entry)

text \<open>The listing ends with the list, with the \<open>65535\<close>th entry, or with the entry that reaches the cap.\<close>

lemma listed_spec:
  assumes "k \<le> 65535"
  shows "k \<le> listed hs k bytes \<and> listed hs k bytes \<le> 65535 \<and> listed hs k bytes - k \<le> length hs
    \<and> (listed hs k bytes - k = length hs \<or> listed hs k bytes = 65535
        \<or> LIST_HOSTS_BYTE_CAP \<le> bytes + listed_bytes (take (listed hs k bytes - k) hs))
    \<and> (0 < listed hs k bytes - k \<and> bytes < LIST_HOSTS_BYTE_CAP
        \<longrightarrow> bytes + listed_bytes (take (listed hs k bytes - k - 1) hs) < LIST_HOSTS_BYTE_CAP)"
  using assms
proof (induction hs arbitrary: k bytes)
  case (Cons h hs)
  let ?b = "bytes + (4 + next_multiple_of_4 (length (he_addr h)))"
  consider "k = 65535" | "k < 65535" "LIST_HOSTS_BYTE_CAP \<le> ?b" | "k < 65535" "?b < LIST_HOSTS_BYTE_CAP"
    using Cons.prems by linarith
  then show ?case
  proof cases
    case 3
    then have l: "listed (h # hs) k bytes = listed hs (k + 1) ?b" by (simp add: Let_def)
    note IH = Cons.IH [of "k + 1" ?b]
    define n where "n = listed hs (k + 1) ?b - (k + 1)"
    have n: "listed hs (k + 1) ?b = k + 1 + n" using IH 3(1) by (simp add: n_def)
    show ?thesis unfolding l n using IH 3 unfolding n
      by (cases n) (auto simp: listed_bytes_def)
  qed (simp_all add: listed_bytes_def Let_def)
qed simp

section \<open>The properties\<close>

text \<open>
  C39. The server-interpreted entries of a numeric id mean that id. For every id below \<open>2 ^ 63\<close>,
  \<open>localuser\<close> and \<open>localgroup\<close> with the number in decimal are valid addresses, and such an entry
  matches exactly the local peers whose credentials have that user id, or that group id; whatever
  users and groups the system knows by name.
\<close>

theorem localuser_exact:
  assumes "n < 2 ^ 63"
  shows "check_addr FAMILY_SERVER_INTERPRETED (he_addr (numeric_entry kind n)) resolver = Inr ()
    \<and> si_matches_local resolver cred (numeric_entry kind n)
        = (\<exists>c. cred = Some c \<and> unat (case kind of User \<Rightarrow> pc_uid c | Group \<Rightarrow> pc_gid c) = n)"
proof -
  have id: "parse_cred_id (0x23 # decimal n) kind resolver = Some (int n)" for kind
    by (rule numeric_id [OF assms])
  have family: "he_family (numeric_entry kind n) = FAMILY_SERVER_INTERPRETED" for kind by (simp add: numeric_entry_def)
  have "check_addr FAMILY_SERVER_INTERPRETED (he_addr (numeric_entry kind n)) resolver = Inr ()"
    using id [of User] id [of Group] by (cases kind) (simp_all add: check_addr_def numeric_parse value_is_valid_def family_defs)
  moreover have "si_matches_local resolver cred (numeric_entry kind n)
        = (\<exists>c. cred = Some c \<and> unat (case kind of User \<Rightarrow> pc_uid c | Group \<Rightarrow> pc_gid c) = n)"
    by (cases cred; cases kind) (simp_all add: si_matches_local_def family numeric_parse id uint_is)
  ultimately show ?thesis ..
qed

theorem localuser_exact_witness:
  "si_matches_local \<lparr>resolve_uid = (\<lambda>_. Some 7), resolve_gid = (\<lambda>_. None), is_ipv6_literal = (\<lambda>_. False)\<rparr>
     (Some \<lparr>pc_uid = 1000, pc_gid = 100, pc_pid = None\<rparr>) (numeric_entry User 1000)"
  using localuser_exact [of 1000 User] by simp

lemma encode_entries_facts:
  assumes "encode_entries hs bo = (k, bytes)" and "\<forall>h \<in> set hs. length (he_addr h) \<le> 65535"
  shows "decode_entries bo (unat k) bytes = Some (take (unat k) hs, [])" "length bytes mod 4 = 0"
    "unat k = length hs \<or> unat k = 65535 \<or> LIST_HOSTS_BYTE_CAP \<le> length bytes"
    "length bytes < LIST_HOSTS_BYTE_CAP + 65544"
proof -
  define n where "n = listed hs 0 0"
  have spec: "n \<le> 65535" "n \<le> length hs" "n = length hs \<or> n = 65535 \<or> LIST_HOSTS_BYTE_CAP \<le> listed_bytes (take n hs)"
    "0 < n \<Longrightarrow> listed_bytes (take (n - 1) hs) < LIST_HOSTS_BYTE_CAP"
    using listed_spec [of 0 hs 0] by (simp_all add: n_def LIST_HOSTS_BYTE_CAP_def)
  have bytes: "bytes = concat (map (encode_entry bo) (take n hs))" and "k = of_nat n"
    using assms(1) by (auto simp: encode_entries_def n_def Let_def)
  then have k: "unat k = n" using spec(1) by (simp add: unat_of_nat)
  have len: "length bytes = listed_bytes (take n hs)" by (simp add: bytes length_encoded)
  show "decode_entries bo (unat k) bytes = Some (take (unat k) hs, [])"
    using decode_encode_entries [of "take n hs" bo "[]"] assms(2) spec(2) by (auto simp: bytes k dest: in_set_takeD)
  have "listed_bytes xs mod 4 = 0" for xs
  proof (induction xs)
    case (Cons x xs)
    then show ?case using next_multiple(3) [of "length (he_addr x)"] by (simp add: listed_bytes_def) presburger
  qed (simp add: listed_bytes_def)
  then show "length bytes mod 4 = 0" by (simp add: len)
  show "unat k = length hs \<or> unat k = 65535 \<or> LIST_HOSTS_BYTE_CAP \<le> length bytes" using spec(3) by (simp add: k len)
  show "length bytes < LIST_HOSTS_BYTE_CAP + 65544"
  proof (cases n)
    case (Suc i)
    then have "take n hs = take i hs @ [hs ! i]" using spec(2) by (simp add: take_Suc_conv_app_nth)
    moreover have "length (he_addr (hs ! i)) \<le> 65535" using assms(2) Suc spec(2) by simp
    ultimately show ?thesis
      using spec(4) Suc next_multiple(2) [of "length (he_addr (hs ! i))"] by (simp add: len listed_bytes_def)
  qed (simp add: len listed_bytes_def)
qed

lemma fixed_reply_parts: "fixed_reply bo seq data len = [1, data] @ write_u16 bo [] seq @ write_u32 bo [] len"
  unfolding fixed_reply_def by (subst write_prefix(2), subst write_prefix(1)) simp

lemma list_hosts_same_generation: "snd (handle_list_hosts cfg d deny bo seq (generation s) s) = s"
  by (simp add: handle_list_hosts_def list_hosts_def enter_def Let_def split: option.split prod.split)

text \<open>
  C40. A ListHosts reply can be read back. Unless a policy denies the request, the reply says whether
  access control is on and, in its length field, how long it is; its body consists of as many whole
  padded entries as the count says, and these are the first ones of the list with their families
  and addresses. Entries are missing only when the count has reached 65535 or the entries the
  cap of 1 MiB, and the reply never fails. A client of an older generation gets the default list.
\<close>

theorem host_list_round_trip:
  assumes "handle_list_hosts cfg d None bo seq g s = (outcome, s')"
    and "l = (if g < generation s then host_list_default else host_acl s')"
    and "\<forall>h \<in> set (hosts l). length (he_addr h) \<le> 65535"
  shows "\<exists>reply. outcome = Replied reply \<and> reply ! 1 = of_bool (access_enabled l)
    \<and> length reply = 32 + 4 * unat (read_u32 bo (drop 4 reply))
    \<and> (let k = unat (read_u16 bo (drop 8 reply)) in
         decode_entries bo k (drop 32 reply) = Some (take k (hosts l), [])
         \<and> (k = length (hosts l) \<or> k = 65535 \<or> LIST_HOSTS_BYTE_CAP \<le> length reply - 32))"
proof -
  obtain k bytes where enc: "encode_entries (hosts l) bo = (k, bytes)" by (cases "encode_entries (hosts l) bo")
  note facts = encode_entries_facts [OF enc assms(3)]
  let ?n = "length bytes div 4"
  have n: "?n < 2 ^ 32" "4 * ?n = length bytes" using facts(2,4) by (auto simp: LIST_HOSTS_BYTE_CAP_def)
  define rest where "rest = replicate 22 0 @ bytes"
  define reply where "reply = [1, of_bool (access_enabled l)] @ write_u16 bo [] seq @ write_u32 bo [] (of_nat ?n)
      @ write_u16 bo [] k @ rest"
  have l: "fst (list_hosts cfg d g s) = (access_enabled l, hosts l)"
    using assms(1) unfolding assms(2) handle_list_hosts_def
    by (auto simp: list_hosts_def enter_def Let_def split: prod.splits)
  have "write_list_hosts_reply bo seq (access_enabled l) k bytes = Some reply"
    using facts(2) n(1) unfolding write_list_hosts_reply_def reply_def rest_def
    by (simp add: Let_def not_le write_prefix(1) [of bo "fixed_reply _ _ _ _"]) (simp add: fixed_reply_parts)
  then have "outcome = Replied reply"
    using assms(1) l enc by (auto simp: handle_list_hosts_def Let_def split: prod.splits)
  moreover have "reply ! 1 = of_bool (access_enabled l)" by (simp add: reply_def)
  moreover have "read_u32 bo (drop 4 reply) = of_nat ?n" "read_u16 bo (drop 8 reply) = k" "drop 32 reply = bytes" "length reply = 32 + length bytes"
    by (simp_all add: reply_def rest_def)
  moreover have "unat (of_nat ?n :: u32) = ?n" using n(1) by (simp add: unat_of_nat)
  ultimately show ?thesis using facts(1,3) n(2) by (simp add: Let_def)
qed

definition listing_state :: auth_inner where
  "listing_state = (build \<lparr>has_auth_file = False, xdmcp = False, tcp_listen = False\<rparr>)
     \<lparr>host_acl := \<lparr>access_enabled = True, hosts = [\<lparr>he_family = 0, he_addr = [10, 0, 0, 1]\<rparr>, numeric_entry User 7]\<rparr>\<rparr>"

theorem host_list_round_trip_witness:
  "\<exists>reply. fst (handle_list_hosts \<lparr>has_auth_file = False, xdmcp = False, tcp_listen = False\<rparr> \<lparr>stat_mtime = None, contents = None\<rparr>
       None BigEndian 9 (generation listing_state) listing_state) = Replied reply \<and> reply ! 1 = 1"
proof -
  have "\<forall>h \<in> set (hosts (host_acl listing_state)). length (he_addr h) \<le> 65535"
    by (simp add: listing_state_def numeric_entry_def decimal.simps ascii_def)
  moreover have "access_enabled (host_acl listing_state)" by (simp add: listing_state_def)
  ultimately show ?thesis
    using host_list_round_trip [OF surjective_pairing refl, where g = "generation listing_state" and s = listing_state and seq = 9 and bo = BigEndian
        and cfg = "\<lparr>has_auth_file = False, xdmcp = False, tcp_listen = False\<rparr>" and d = "\<lparr>stat_mtime = None, contents = None\<rparr>"]
    unfolding list_hosts_same_generation by auto
qed

end
