(* ===== verification/Spec2Isabelle.thy ===== *)
theory Spec2Isabelle
  imports Region_Props Resource_Props Composite_Redirects Clip_Props Xdmcp_Props Sync_Props Request_Props Swap_Props Present_Scheduler Outbound_Props Crossing_Props Auth_Props Host_Ids
begin

text \<open>
  Verification of yserver, an X11 server written in Rust (the crates under \<open>crates/\<close>).

  \<^bold>\<open>The program.\<close> One thread, the core loop (\<open>yserver-core/src/core_loop\<close>), owns the server's
  state. Reader threads turn the bytes of clients into requests (those of big-endian clients are
  byte-swapped on the way) and send them to the loop; the loop queues them fairly, runs each one's
  handler on the state, and the handlers call the resource table (\<open>resources/\<close>), the region algebra
  (\<open>region.rs\<close>), the clip lists, the extensions and a backend that draws. This development models
  the parts whose logic is the server's own and does not lie in a driver, a socket or the GPU.

  \<^bold>\<open>Conventions.\<close> Wire integers are words, so their ranges are part of the type; \<open>i32\<close> and \<open>i64\<close>
  values are \<^typ>\<open>int\<close> with the wrap-around written out where the source does not bound them;
  lengths, counts and indices (\<open>usize\<close>) are \<^typ>\<open>nat\<close>. Structs are records, enums datatypes, errors
  the left of a sum. A \<open>HashMap\<close> is a partial map where the code only looks keys up, and a list of
  entries (\<open>Hash_Maps\<close>) or a map with the visiting order as an argument where it walks over the
  entries, so that nothing depends on an order the code does not fix. Loops whose end the code does
  not bound itself are \<open>partial_function (option)\<close>: \<^const>\<open>None\<close> is divergence, and the
  properties show that the reachable states do not diverge. Panics are \<^const>\<open>None\<close> too.

  \<^bold>\<open>Theories and sources.\<close>
  \<^item> \<open>Prelude\<close>, \<open>Results\<close>, \<open>Hash_Maps\<close>, \<open>Machines\<close>, \<open>Wire\<close>: integers, errors as sums, entry lists,
    state machines with an inductive invariant (the locale \<open>invariant_machine\<close>), and the readers
    and writers of \<open>x11/wire.rs\<close>.
  \<^item> \<open>Region\<close>, \<open>Region_Spans\<close>, \<open>Region_Op\<close>, \<open>Region_Algebra\<close>, \<open>Region_Wire\<close>, \<open>Region_Laws\<close>, \<open>Region_Props\<close>:
    \<open>region.rs\<close>. Regions are sets of pixels in y-x banded form; the set operations are exact, their
    results canonical, and canonical form is a normal form.
  \<^item> \<open>Properties\<close>: \<open>properties.rs\<close>, ChangeProperty and GetProperty.
  \<^item> \<open>Resources\<close>, \<open>Window_Ops\<close>, \<open>Window_Tree\<close>: the window half of \<open>resources/\<close> (\<open>types.rs\<close>,
    \<open>window.rs\<close>, \<open>tree.rs\<close>, \<open>destroy.rs\<close>). \<open>Tree_Shape\<close>, \<open>Tree_Edits\<close>, \<open>Viewability\<close>, \<open>Tree_Inv\<close>,
    \<open>Tree_Frame\<close>, \<open>Tree_Destroy\<close>, \<open>Tree_Steps\<close>, \<open>Tree_Props\<close>: the invariant (the windows form a tree and
    viewability is the protocol's), its preservation by every operation, termination of the
    recursions, and what the operations report.
  \<^item> \<open>Gc_Types\<close>, \<open>Gcs\<close>, \<open>Refcounts\<close>, \<open>Fonts\<close>, \<open>Pixmaps\<close>, \<open>Cursors\<close>, \<open>Cleanup\<close>, \<open>Resource_Inv\<close>,
    \<open>Resource_Props\<close>: the rest of \<open>resources/\<close>. Reference counts are exact, graphics contexts well
    formed, nothing of the host is freed twice or leaked, and a disconnect is complete.
  \<^item> \<open>Composite_Redirects\<close>: \<open>composite_redirects.rs\<close>.
  \<^item> \<open>Clip_Lists\<close>, \<open>Clip_Regions\<close>, \<open>Clip_Walk\<close>, \<open>Clip_Changes\<close>, \<open>Clip_Props\<close>: \<open>core_loop/clip_list.rs\<close> on
    the window table, the redirects and the regions together: clip lists are the pixels that show,
    and a change of a window exposes exactly what appears.
  \<^item> \<open>Xdmcp_Codec\<close>, \<open>Xdmcp_Wire\<close>, \<open>Xdmcp_State\<close>, \<open>Xdmcp_Session\<close>, \<open>Xdmcp_Props\<close>: \<open>xdmcp/codec.rs\<close> and
    \<open>xdmcp/state.rs\<close>: the codec is exact, sessions are authorised, retries end.
  \<^item> \<open>Sync_Wire\<close>, \<open>Sync_Await\<close>, \<open>Sync_Requests\<close>, \<open>Sync_Sweeps\<close>, \<open>Sync_Inv\<close>, \<open>Sync_Machine\<close>, \<open>Sync_Runs\<close>,
    \<open>Sync_Props\<close>: the SYNC extension (\<open>x11/sync.rs\<close>, \<open>sync_await.rs\<close>, \<open>process_request/sync_ext.rs\<close>, the
    SYNC part of \<open>process_disconnect.rs\<close>): no client waits on a condition that holds.
  \<^item> \<open>Request_Queue\<close>, \<open>Request_Drain\<close>, \<open>Request_Order\<close>, \<open>Request_Props\<close>: the fair queue, \<open>GrabServer\<close>,
    the drain and the requests parked at the backend (\<open>core_loop/run.rs\<close>, \<open>run/dri3_export.rs\<close>), with
    the SYNC state deciding who may run. Requests run in each client's order, every client gets its
    turn, an iteration ends.
  \<^item> \<open>Byte_Swap\<close>, \<open>Swap_Tables\<close>, \<open>Swap_Fields\<close>, \<open>Swap_Props\<close>: \<open>x11/wire_swap.rs\<close> and
    \<open>x11/request_swap.rs\<close>: every field of every table is turned and nothing else; events keep their
    fields between byte orders.
  \<^item> \<open>Present_Scheduler\<close>: \<open>present_scheduler.rs\<close>.
  \<^item> \<open>Outbound\<close>, \<open>Outbound_Stream\<close>, \<open>Outbound_Props\<close>: \<open>core_loop/client_io.rs\<close> and the pass of \<open>run.rs\<close>
    that re-arms writable interest, on a socket that is a parameter. A client's output is one
    stream of bytes, each with the descriptor that arrives with it; every operation keeps it whole.
  \<^item> \<open>Crossings\<close>, \<open>Crossing_Paths\<close>, \<open>Crossing_Props\<close>: \<open>crossings.rs\<close> on the window table: the windows a
    crossing leaves and enters, their order, details and children, from the tree alone, and the
    core and XInput 2 focus sequences as crossings of the same path.
  \<^item> \<open>Host_Access\<close>, \<open>Auth_State\<close>, \<open>Auth_Machine\<close>, \<open>Auth_Props\<close>, \<open>Host_Ids\<close>: \<open>core_loop/host_access.rs\<close>,
    \<open>core_loop/auth.rs\<close>, \<open>xauth.rs\<close> and the ChangeHosts, SetAccessControl and ListHosts requests of
    \<open>process_request/misc.rs\<close>: who may connect. The machine carries the history of the generation
    (the cookies the file held, the changes its clients made), and every admission is justified by
    it; a reset revokes; numeric ids and listings are exact.

  \<^bold>\<open>Bounds and fuel.\<close> \<open>is_descendant_of\<close> walks at most as many parents as there are windows, and
  positions at most 256 levels, as in the source; the tree invariant shows the former is enough.
  The parent walk of a crossing stops after 256 windows, as in the source: the crossing properties
  are about windows at most that deep (\<open>walkable\<close>), and \<open>deep_window_nonlinear\<close> shows what happens
  below. Draining a client's output ends because each turn shortens the queue.
  An XDMCP machine bears at most seven expiries of its timer. The re-arming of an alarm stops after
  \<open>REARM_GUARD\<close> steps, as in the source. A pop of the fair queue looks at each ready client once; a
  drain ends because each turn lowers the budget or shortens the queue. The number of waiting
  requests is taken to be below \<open>2 ^ 64\<close>.

  \<^bold>\<open>Parameters.\<close> What the code reads from outside is an argument: the clock, idle times and fence
  memory of SYNC (\<open>sync_env\<close>), the elapsed time of a drain, the handlers of requests other than the
  two grabs in the drain (assumed not to take the grab, which no other handler in the source
  does), the visiting orders of hash maps, random delays of XDMCP, the authority file,
  interface addresses, user database (\<open>name_resolver\<close>) and policies of the access control, and the
  system calls of a client's output (\<open>system\<close>; \<open>stream_socket\<close> says that they take prefixes of their bytes in order).

  \<^bold>\<open>Not modelled.\<close> The other request handlers (\<open>process_request/\<close>) and the event and input fan-out
  (\<open>pointer_fanout.rs\<close>, \<open>key_fanout.rs\<close>, \<open>damage_fanout.rs\<close>, \<open>server.rs\<close>): they act on the whole server state and
  write to sockets; the parsers and encoders of \<open>x11/mod.rs\<close> beyond those used above; XInput, XKB,
  RANDR, RECORD and the access policies (a trait of the embedding program); the socket and thread side of the loop (\<open>client_reader.rs\<close>, \<open>setup_thread.rs\<close>, polling, reset); the backends and renderers (\<open>crates/yserver\<close>,
  \<open>crates/yserver-render\<close>, \<open>host_x11\<close>), which are driver, Vulkan and windowing calls; \<open>yserver-xauth\<close>. Logging and
  telemetry are left out everywhere. In the request loop, a drain that follows a wake-up without a
  dispatched message is left out: the drain before it in the same iteration has already emptied the
  queue of runnable clients.
\<close>

end
